(* ===== verification/Storm_Prelude.thy ===== *)
theory Storm_Prelude
  imports Main "HOL-Library.Word" "HOL-Library.Sublist"
begin

text \<open>
  Shared vocabulary of the development: the named collections of simplification rules, the
  result type of fallible Rust code, and the operations of Rust's standard library on strings
  and numbers that the sources use.

  A Rust string is a \<^typ>\<open>string\<close> of its UTF-8 bytes. The sources only cut strings at ASCII
  characters, so a byte offset is a list position, and \<open>len()\<close> is \<^const>\<open>length\<close>. Unicode
  white space is restricted to the ASCII white space characters.
\<close>

named_theorems str_simps \<open>rewriting the string operations on constructed strings\<close>
named_theorems rust_defs \<open>unfolding thin wrappers of the standard library\<close>

section \<open>Results\<close>

text \<open>An \<open>anyhow\<close> error is its message; \<open>Result<T>\<close> is a sum with the error on the left.\<close>

type_synonym err = string
type_synonym 'a res = "err + 'a"

fun rbind :: "'e + 'a \<Rightarrow> ('a \<Rightarrow> 'e + 'b) \<Rightarrow> 'e + 'b" where
  "rbind (Inl e) f = Inl e"
| "rbind (Inr x) f = f x"

lemma rbind_cong [fundef_cong]:
  "m = m' \<Longrightarrow> (\<And>x. m' = Inr x \<Longrightarrow> f x = f' x) \<Longrightarrow> rbind m f = rbind m' f'"
  by (cases m') auto

lemma rbind_eq_Inr [simp]: "rbind m f = Inr y \<longleftrightarrow> (\<exists>x. m = Inr x \<and> f x = Inr y)"
  by (cases m) auto

lemma rbind_eq_Inl: "rbind m f = Inl e \<longleftrightarrow> m = Inl e \<or> (\<exists>x. m = Inr x \<and> f x = Inl e)"
  by (cases m) auto

lemma rbind_assoc: "rbind (rbind m f) g = rbind m (\<lambda>x. rbind (f x) g)"
  by (cases m) simp_all

lemma rbind_ident: "rbind m Inr = m"
  by (cases m) simp_all

lemma rbind_split: "P (rbind m f) \<longleftrightarrow> (\<forall>e. m = Inl e \<longrightarrow> P (Inl e)) \<and> (\<forall>x. m = Inr x \<longrightarrow> P (f x))"
  by (cases m) auto

definition is_ok :: "'e + 'a \<Rightarrow> bool" where
  "is_ok m \<longleftrightarrow> (case m of Inl _ \<Rightarrow> False | Inr _ \<Rightarrow> True)"

lemma is_ok_simps [simp]: "\<not> is_ok (Inl e)" "is_ok (Inr x)"
  by (simp_all add: is_ok_def)

fun ok :: "'e + 'a \<Rightarrow> 'a option" where
  "ok (Inl _) = None"
| "ok (Inr x) = Some x"

fun ok_or :: "'e \<Rightarrow> 'a option \<Rightarrow> 'e + 'a" where
  "ok_or e None = Inl e"
| "ok_or e (Some x) = Inr x"

lemma ok_or_eq_Inr [simp]: "ok_or e m = Inr x \<longleftrightarrow> m = Some x"
  by (cases m) auto

text \<open>\<open>for x in xs { out.extend(f(x)?) }\<close>: stop at the first error.\<close>

fun try_flat_map :: "('a \<Rightarrow> 'e + 'b list) \<Rightarrow> 'a list \<Rightarrow> 'e + 'b list" where
  "try_flat_map f [] = Inr []"
| "try_flat_map f (x # xs) = rbind (f x) (\<lambda>ys. rbind (try_flat_map f xs) (\<lambda>zs. Inr (ys @ zs)))"

lemma try_flat_map_Inr:
  "(\<And>x. x \<in> set xs \<Longrightarrow> f x = Inr (g x)) \<Longrightarrow> try_flat_map f xs = Inr (concat (map g xs))"
  by (induction xs) auto

text \<open>\<open>collect::<Option<Vec<_>>>\<close>.\<close>

fun opt_traverse :: "('a \<Rightarrow> 'b option) \<Rightarrow> 'a list \<Rightarrow> 'b list option" where
  "opt_traverse f [] = Some []"
| "opt_traverse f (x # xs) =
     (case f x of None \<Rightarrow> None | Some y \<Rightarrow> map_option ((#) y) (opt_traverse f xs))"

lemma opt_traverse_map:
  "(\<And>x. x \<in> set xs \<Longrightarrow> f (g x) = Some (h x)) \<Longrightarrow> opt_traverse f (map g xs) = Some (map h xs)"
  by (induction xs) auto

lemma opt_traverse_length: "opt_traverse f xs = Some ys \<Longrightarrow> length ys = length xs"
  by (induction xs arbitrary: ys) (auto split: option.splits)

section \<open>Characters\<close>

definition is_ascii_digit :: "char \<Rightarrow> bool" where
  "is_ascii_digit c \<longleftrightarrow> 48 \<le> (of_char c :: nat) \<and> (of_char c :: nat) \<le> 57"

definition is_ascii_upper :: "char \<Rightarrow> bool" where
  "is_ascii_upper c \<longleftrightarrow> 65 \<le> (of_char c :: nat) \<and> (of_char c :: nat) \<le> 90"

definition is_ascii_lower :: "char \<Rightarrow> bool" where
  "is_ascii_lower c \<longleftrightarrow> 97 \<le> (of_char c :: nat) \<and> (of_char c :: nat) \<le> 122"

definition ascii_lower :: "char \<Rightarrow> char" where
  "ascii_lower c = (if is_ascii_upper c then char_of ((of_char c :: nat) + 32) else c)"

definition ascii_upper :: "char \<Rightarrow> char" where
  "ascii_upper c = (if is_ascii_lower c then char_of ((of_char c :: nat) - 32) else c)"

definition is_whitespace :: "char \<Rightarrow> bool" where
  "is_whitespace c \<longleftrightarrow> (9 \<le> (of_char c :: nat) \<and> (of_char c :: nat) \<le> 13) \<or> (of_char c :: nat) = 32"

lemma ascii_lower_idem [simp]: "ascii_lower (ascii_lower c) = ascii_lower c"
  by (auto simp: ascii_lower_def is_ascii_upper_def)

lemma ascii_lower_eq_self: "\<not> is_ascii_upper c \<Longrightarrow> ascii_lower c = c"
  by (simp add: ascii_lower_def)

lemma of_char_ascii_lower:
  "(of_char (ascii_lower c) :: nat) = (if is_ascii_upper c then of_char c + 32 else of_char c)"
  by (auto simp: ascii_lower_def is_ascii_upper_def)

lemma ascii_lower_eq_dot [simp]: "ascii_lower c = CHR ''.'' \<longleftrightarrow> c = CHR ''.''"
proof
  assume "ascii_lower c = CHR ''.''"
  then have "(of_char (ascii_lower c) :: nat) = 46" by simp
  then have "\<not> is_ascii_upper c"
    by (auto simp: of_char_ascii_lower is_ascii_upper_def split: if_splits)
  with \<open>ascii_lower c = CHR ''.''\<close> show "c = CHR ''.''" by (simp add: ascii_lower_def)
qed (simp add: ascii_lower_def is_ascii_upper_def)

section \<open>Strings\<close>

definition to_ascii_lowercase :: "string \<Rightarrow> string" where
  "to_ascii_lowercase s = map ascii_lower s"

definition to_ascii_uppercase :: "string \<Rightarrow> string" where
  "to_ascii_uppercase s = map ascii_upper s"

definition starts_with :: "string \<Rightarrow> string \<Rightarrow> bool" where
  "starts_with s p \<longleftrightarrow> take (length p) s = p"

definition ends_with :: "string \<Rightarrow> string \<Rightarrow> bool" where
  "ends_with s t \<longleftrightarrow> length t \<le> length s \<and> drop (length s - length t) s = t"

definition strip_prefix :: "string \<Rightarrow> string \<Rightarrow> string option" where
  "strip_prefix s p = (if starts_with s p then Some (drop (length p) s) else None)"

definition strip_suffix :: "string \<Rightarrow> string \<Rightarrow> string option" where
  "strip_suffix s t = (if ends_with s t then Some (take (length s - length t) s) else None)"

fun find_char :: "char \<Rightarrow> string \<Rightarrow> nat option" where
  "find_char c [] = None"
| "find_char c (x # xs) = (if x = c then Some 0 else map_option Suc (find_char c xs))"

definition rfind_char :: "char \<Rightarrow> string \<Rightarrow> nat option" where
  "rfind_char c s = map_option (\<lambda>i. length s - 1 - i) (find_char c (rev s))"

fun find_sub :: "string \<Rightarrow> string \<Rightarrow> nat option" where
  "find_sub p [] = (if p = [] then Some 0 else None)"
| "find_sub p (x # xs) = (if starts_with (x # xs) p then Some 0 else map_option Suc (find_sub p xs))"

definition contains_sub :: "string \<Rightarrow> string \<Rightarrow> bool" where
  "contains_sub s p \<longleftrightarrow> find_sub p s \<noteq> None"

text \<open>\<open>str::split\<close> on one character: always at least one part.\<close>

fun split_char :: "char \<Rightarrow> string \<Rightarrow> string list" where
  "split_char c [] = [[]]"
| "split_char c (x # xs) =
     (if x = c then [] # split_char c xs
      else (case split_char c xs of [] \<Rightarrow> [[x]] | p # ps \<Rightarrow> (x # p) # ps))"

definition trim_start_matches :: "char \<Rightarrow> string \<Rightarrow> string" where
  "trim_start_matches c s = dropWhile (\<lambda>x. x = c) s"

definition trim_end_matches :: "char \<Rightarrow> string \<Rightarrow> string" where
  "trim_end_matches c s = rev (dropWhile (\<lambda>x. x = c) (rev s))"

definition trim :: "string \<Rightarrow> string" where
  "trim s = rev (dropWhile is_whitespace (rev (dropWhile is_whitespace s)))"

fun join_with :: "string \<Rightarrow> string list \<Rightarrow> string" where
  "join_with sep [] = []"
| "join_with sep [x] = x"
| "join_with sep (x # y # ys) = x @ sep @ join_with sep (y # ys)"

subsection \<open>Lemmas on strings\<close>

lemma length_to_ascii_lowercase [simp]: "length (to_ascii_lowercase s) = length s"
  by (simp add: to_ascii_lowercase_def)

lemma to_ascii_lowercase_idem [simp]:
  "to_ascii_lowercase (to_ascii_lowercase s) = to_ascii_lowercase s"
  by (simp add: to_ascii_lowercase_def)

lemma to_ascii_lowercase_append [simp]:
  "to_ascii_lowercase (s @ t) = to_ascii_lowercase s @ to_ascii_lowercase t"
  by (simp add: to_ascii_lowercase_def)

lemma to_ascii_lowercase_Nil [simp]: "to_ascii_lowercase [] = []"
  by (simp add: to_ascii_lowercase_def)

lemma to_ascii_lowercase_Cons [simp]:
  "to_ascii_lowercase (c # s) = ascii_lower c # to_ascii_lowercase s"
  by (simp add: to_ascii_lowercase_def)

lemma to_ascii_lowercase_eq_Nil [simp]: "to_ascii_lowercase s = [] \<longleftrightarrow> s = []"
  by (simp add: to_ascii_lowercase_def)

lemma ascii_lower_dot [simp]: "ascii_lower (CHR ''.'') = CHR ''.''"
  by simp

lemma to_ascii_lowercase_eq_dot [simp]:
  "to_ascii_lowercase s = ''.'' \<longleftrightarrow> s = ''.''"
  by (auto simp: to_ascii_lowercase_def)

lemma dot_eq_ascii_lower [simp]: "CHR ''.'' = ascii_lower c \<longleftrightarrow> c = CHR ''.''"
  by (metis ascii_lower_eq_dot)

lemma dot_in_lowercase [simp]:
  "CHR ''.'' \<in> set (to_ascii_lowercase s) \<longleftrightarrow> CHR ''.'' \<in> set s"
  by (induction s) auto

lemma starts_with_iff: "starts_with s p \<longleftrightarrow> (\<exists>r. s = p @ r)"
  by (metis append_eq_conv_conj append_take_drop_id starts_with_def)

lemma ends_with_iff: "ends_with s t \<longleftrightarrow> (\<exists>p. s = p @ t)"
proof
  assume "ends_with s t"
  then have "s = take (length s - length t) s @ t"
    by (metis append_take_drop_id ends_with_def)
  then show "\<exists>p. s = p @ t" by blast
qed (auto simp: ends_with_def)

lemma ends_with_append [simp]: "ends_with (p @ t) t"
  by (auto simp: ends_with_iff)

lemma ends_with_snoc [simp]: "ends_with (s @ [c]) [d] \<longleftrightarrow> c = d"
  by (auto simp: ends_with_iff)

lemma ends_with_suffix: "ends_with s t \<longleftrightarrow> suffix t s"
  by (simp add: ends_with_iff suffix_def)

lemma ends_with_single: "ends_with s [c] \<longleftrightarrow> s \<noteq> [] \<and> last s = c"
  by (metis append_butlast_last_id ends_with_iff last_snoc snoc_eq_iff_butlast)

lemma strip_suffix_append [simp]: "strip_suffix (p @ t) t = Some p"
  by (simp add: strip_suffix_def)

lemma strip_suffix_SomeD: "strip_suffix s t = Some p \<Longrightarrow> s = p @ t"
  by (auto simp: strip_suffix_def ends_with_iff split: if_splits)

lemma strip_prefix_append [simp]: "strip_prefix (p @ r) p = Some r"
  by (simp add: strip_prefix_def starts_with_def)

lemma strip_prefix_SomeD: "strip_prefix s p = Some r \<Longrightarrow> s = p @ r"
  by (auto simp: strip_prefix_def starts_with_iff split: if_splits)

lemma find_char_None [simp]: "find_char c s = None \<longleftrightarrow> c \<notin> set s"
  by (induction s) auto

lemma find_char_SomeD:
  "find_char c s = Some i \<Longrightarrow> i < length s \<and> s ! i = c \<and> c \<notin> set (take i s)"
  by (induction s arbitrary: i) (auto split: if_splits)

lemma find_char_append:
  "find_char c (s @ t) = (if c \<in> set s then find_char c s else map_option (\<lambda>i. length s + i) (find_char c t))"
proof (induction s)
  case Nil
  show ?case by (cases "find_char c t") (simp_all del: find_char_None)
qed (auto simp: option.map_comp o_def)

lemma find_char_append_notin [simp]:
  "c \<notin> set s \<Longrightarrow> find_char c (s @ c # t) = Some (length s)"
  by (simp add: find_char_append)

lemma split_char_nonempty [simp]: "split_char c s \<noteq> []"
  by (cases s) (auto split: list.splits)

lemma split_char_notin: "c \<notin> set s \<Longrightarrow> split_char c s = [s]"
  by (induction s) auto

lemma split_char_append:
  "c \<notin> set s \<Longrightarrow> split_char c (s @ c # t) = s # split_char c t"
  by (induction s) auto

lemma join_split: "join_with [c] (split_char c s) = s"
proof (induction s)
  case (Cons x s)
  then obtain p ps where "split_char c s = p # ps" by (cases "split_char c s") auto
  with Cons show ?case by (cases ps) auto
qed simp

lemma split_join:
  "ls \<noteq> [] \<Longrightarrow> (\<And>l. l \<in> set ls \<Longrightarrow> c \<notin> set l) \<Longrightarrow> split_char c (join_with [c] ls) = ls"
proof (induction "[c]" ls rule: join_with.induct)
  case (3 x y ys)
  then show ?case by (simp add: split_char_append)
qed (auto simp: split_char_notin)

lemma split_char_parts: "p \<in> set (split_char c s) \<Longrightarrow> c \<notin> set p"
proof (induction s arbitrary: p)
  case (Cons x s)
  then show ?case by (cases "split_char c s") (auto split: if_splits)
qed simp

lemma trim_end_matches_snoc [simp]: "trim_end_matches c (s @ [c]) = trim_end_matches c s"
  by (simp add: trim_end_matches_def)

lemma trim_end_matches_id: "s = [] \<or> last s \<noteq> c \<Longrightarrow> trim_end_matches c s = s"
  by (cases s rule: rev_cases) (auto simp: trim_end_matches_def)

text \<open>\<open>str::lines\<close>: the terminator is a line feed, with the carriage return before it.\<close>

definition strip_cr :: "string \<Rightarrow> string" where
  "strip_cr s = (case strip_suffix s [CHR 0x0D] of None \<Rightarrow> s | Some r \<Rightarrow> r)"

definition lines :: "string \<Rightarrow> string list" where
  "lines s = (let ps = split_char (CHR 0x0A) s in
     map strip_cr (butlast ps) @ (if last ps = [] then [] else [last ps]))"

text \<open>\<open>str::split_whitespace\<close>: the maximal runs of other characters.\<close>

fun split_ws_acc :: "string \<Rightarrow> string \<Rightarrow> string list" where
  "split_ws_acc acc [] = (if acc = [] then [] else [acc])"
| "split_ws_acc acc (c # cs) =
     (if is_whitespace c then (if acc = [] then [] else [acc]) @ split_ws_acc [] cs
      else split_ws_acc (acc @ [c]) cs)"

definition split_whitespace :: "string \<Rightarrow> string list" where
  "split_whitespace s = split_ws_acc [] s"

lemma split_char_append_all: "split_char c (s @ c # t) = split_char c s @ split_char c t"
proof (induction s)
  case (Cons x s)
  then show ?case by (cases "split_char c s") auto
qed simp

section \<open>Numbers as text\<close>

definition digit_char :: "nat \<Rightarrow> char" where
  "digit_char n = char_of (if n < 10 then 48 + n else 87 + n)"

definition digit_val :: "char \<Rightarrow> nat" where
  "digit_val c = (of_char c :: nat) - 48"

text \<open>\<open>Display\<close> of an unsigned integer.\<close>

fun show_nat :: "nat \<Rightarrow> string" where
  "show_nat n = (if n < 10 then [digit_char n] else show_nat (n div 10) @ [digit_char (n mod 10)])"

declare show_nat.simps [simp del]

definition dec_val :: "string \<Rightarrow> nat" where
  "dec_val s = foldl (\<lambda>a c. 10 * a + digit_val c) 0 s"

text \<open>
  \<open>FromStr\<close> of an unsigned integer type with largest value \<open>mx\<close>: an optional \<open>+\<close>, then one
  or more decimal digits whose value fits.
\<close>

definition unplus :: "string \<Rightarrow> string" where
  "unplus s = (case s of [] \<Rightarrow> [] | c # r \<Rightarrow> if c = CHR ''+'' then r else s)"

definition parse_unsigned :: "nat \<Rightarrow> string \<Rightarrow> nat option" where
  "parse_unsigned mx s =
     (let d = unplus s in
      if d = [] \<or> \<not> list_all is_ascii_digit d then None
      else if dec_val d \<le> mx then Some (dec_val d) else None)"

abbreviation "parse_u8 \<equiv> parse_unsigned 255"
abbreviation "parse_u16 \<equiv> parse_unsigned 65535"
abbreviation "parse_u32 \<equiv> parse_unsigned 4294967295"
abbreviation "parse_u64 \<equiv> parse_unsigned 18446744073709551615"

lemma digit_char_props:
  assumes "n < 10"
  shows "is_ascii_digit (digit_char n)" "digit_val (digit_char n) = n"
  using assms by (auto simp: is_ascii_digit_def digit_char_def digit_val_def)

lemma show_nat_nonempty [simp]: "show_nat n \<noteq> []"
  by (subst show_nat.simps) simp

lemma dec_val_snoc: "dec_val (s @ [c]) = 10 * dec_val s + digit_val c"
  by (simp add: dec_val_def)

lemma show_nat_digits: "list_all is_ascii_digit (show_nat n)"
proof (induction n rule: show_nat.induct)
  case (1 n)
  then show ?case
    by (subst show_nat.simps) (auto simp: digit_char_props)
qed

lemma dec_val_show_nat [simp]: "dec_val (show_nat n) = n"
proof (induction n rule: show_nat.induct)
  case (1 n)
  then show ?case
    by (subst show_nat.simps) (auto simp: dec_val_snoc digit_char_props dec_val_def)
qed

lemma show_nat_set: "c \<in> set (show_nat n) \<Longrightarrow> is_ascii_digit c"
  using show_nat_digits [of n] by (auto simp: list_all_iff)

lemma show_nat_hd_not_plus: "hd (show_nat n) \<noteq> CHR ''+''"
  using show_nat_set [of "hd (show_nat n)" n] by (auto simp: is_ascii_digit_def)

lemma unplus_show_nat [simp]: "unplus (show_nat n) = show_nat n"
  using show_nat_hd_not_plus [of n] by (cases "show_nat n") (auto simp: unplus_def)

lemma parse_show_nat [simp]: "n \<le> mx \<Longrightarrow> parse_unsigned mx (show_nat n) = Some n"
  by (simp add: parse_unsigned_def Let_def show_nat_digits)

lemma parse_unsigned_bound: "parse_unsigned mx s = Some n \<Longrightarrow> n \<le> mx"
  by (auto simp: parse_unsigned_def Let_def split: if_splits)

lemma dot_not_in_show_nat [simp]: "CHR ''.'' \<notin> set (show_nat n)"
  using show_nat_set [of "CHR ''.''" n] by (auto simp: is_ascii_digit_def)

lemma lowercase_show_nat [simp]: "to_ascii_lowercase (show_nat n) = show_nat n"
  unfolding to_ascii_lowercase_def
  by (rule map_idI) (auto dest!: show_nat_set simp: ascii_lower_def is_ascii_upper_def is_ascii_digit_def)

lemma find_append: "find P (xs @ ys) = (case find P xs of None \<Rightarrow> find P ys | Some x \<Rightarrow> Some x)"
  by (induction xs) auto

section \<open>Durations\<close>

text \<open>A \<open>Duration\<close> or an \<open>Instant\<close> is its number of nanoseconds.\<close>

definition SECOND :: nat where "SECOND = 1000000000"

definition as_secs :: "nat \<Rightarrow> nat" where
  "as_secs d = d div SECOND"

section \<open>Maps with lists as values\<close>

text \<open>\<open>get(k)\<close> of a \<open>HashMap<_, Vec<_>>\<close>, with no values for an absent key.\<close>

definition values_of :: "('k \<rightharpoonup> 'v list) \<Rightarrow> 'k \<Rightarrow> 'v list" where
  "values_of m k = (case m k of Some vs \<Rightarrow> vs | None \<Rightarrow> [])"

lemma values_of_empty [simp]: "values_of Map.empty k = []"
  by (simp add: values_of_def)

lemma values_of_upd [simp]: "values_of (m(k \<mapsto> vs)) j = (if j = k then vs else values_of m j)"
  by (simp add: values_of_def)

text \<open>\<open>Ord::clamp\<close> asserts \<open>min <= max\<close>.\<close>

definition clamp :: "nat \<Rightarrow> nat \<Rightarrow> nat \<Rightarrow> nat res" where
  "clamp x mn mx = (if mn \<le> mx then Inr (if x < mn then mn else if x > mx then mx else x)
                    else Inl ''assertion failed: min <= max'')"

lemma clamp_bounds: "clamp x mn mx = Inr y \<Longrightarrow> mn \<le> y \<and> y \<le> mx"
  by (auto simp: clamp_def split: if_splits)

lemma clamp_panics: "clamp x mn mx = Inl e \<longleftrightarrow> mx < mn \<and> e = ''assertion failed: min <= max''"
  by (auto simp: clamp_def)

section \<open>Replacement in strings\<close>

text \<open>\<open>str::replace\<close>: every match from the left; an empty pattern matches around every character.\<close>

function replace_all :: "string \<Rightarrow> string \<Rightarrow> string \<Rightarrow> string" where
  "replace_all pat to s =
     (if pat = [] then to @ concat (map (\<lambda>c. c # to) s)
      else (case s of
          [] \<Rightarrow> []
        | c # cs \<Rightarrow> if starts_with s pat then to @ replace_all pat to (drop (length pat) s)
                    else c # replace_all pat to cs))"
  by pat_completeness auto
termination
  by (relation "measure (\<lambda>(p, t, s). length s)") auto

declare replace_all.simps [simp del]

lemma in_map_filter: "y \<in> set (List.map_filter f xs) \<longleftrightarrow> (\<exists>x \<in> set xs. f x = Some y)"
  by (induction xs) (auto simp: map_filter_simps split: option.splits)

lemma map_filter_append: "List.map_filter f (xs @ ys) = List.map_filter f xs @ List.map_filter f ys"
  by (simp add: List.map_filter_def)

end
