(* ===== verification/Net_Addr.thy ===== *)
theory Net_Addr
  imports Storm_Prelude
begin

text \<open>
  Internet addresses as \<open>std::net\<close> has them: \<open>IpAddr\<close> as its octets, the textual forms
  accepted by \<open>FromStr\<close> (\<open>Ipv4Addr\<close>, \<open>Ipv6Addr\<close>, \<open>IpAddr\<close>, \<open>SocketAddr\<close>) and the
  canonical form of IPv4-mapped addresses.  The fixed-size arrays of the Rust types are lists
  with the well-formedness predicate \<open>ip_wf\<close>.
\<close>

unbundle bit_operations_syntax

type_synonym u8 = "8 word"
type_synonym u16 = "16 word"
type_synonym u32 = "32 word"

datatype ip_addr = V4 "u8 list" | V6 "u8 list"

fun octets :: "ip_addr \<Rightarrow> u8 list" where
  "octets (V4 o4) = o4"
| "octets (V6 o6) = o6"

fun is_v4 :: "ip_addr \<Rightarrow> bool" where
  "is_v4 (V4 _) = True"
| "is_v4 (V6 _) = False"

fun ip_wf :: "ip_addr \<Rightarrow> bool" where
  "ip_wf (V4 o4) \<longleftrightarrow> length o4 = 4"
| "ip_wf (V6 o6) \<longleftrightarrow> length o6 = 16"

text \<open>\<open>IpAddr::to_canonical\<close>: an IPv4-mapped IPv6 address (\<open>::ffff:a.b.c.d\<close>) becomes IPv4.\<close>

definition is_mapped :: "u8 list \<Rightarrow> bool" where
  "is_mapped o6 \<longleftrightarrow> take 12 o6 = replicate 10 0 @ [255, 255]"

fun to_canonical :: "ip_addr \<Rightarrow> ip_addr" where
  "to_canonical (V4 o4) = V4 o4"
| "to_canonical (V6 o6) = (if is_mapped o6 then V4 (drop 12 o6) else V6 o6)"

record socket_addr =
  sa_ip :: ip_addr
  sa_port :: nat

section \<open>Parsing\<close>

text \<open>
  The parser of \<open>core::net::parser\<close>: every reader takes the remaining text and returns the value
  with the rest, or nothing. \<open>read_digits\<close> reads the longest run of digits of the radix.
\<close>

definition hex_val :: "char \<Rightarrow> nat option" where
  "hex_val c = (let n = (of_char c :: nat) in
     if 48 \<le> n \<and> n \<le> 57 then Some (n - 48)
     else if 97 \<le> n \<and> n \<le> 102 then Some (n - 87)
     else if 65 \<le> n \<and> n \<le> 70 then Some (n - 55) else None)"

definition digit_of :: "nat \<Rightarrow> char \<Rightarrow> nat option" where
  "digit_of radix c = (case hex_val c of None \<Rightarrow> None | Some d \<Rightarrow> if d < radix then Some d else None)"

fun read_digits :: "nat \<Rightarrow> string \<Rightarrow> nat list \<times> string" where
  "read_digits radix [] = ([], [])"
| "read_digits radix (c # cs) =
     (case digit_of radix c of
        None \<Rightarrow> ([], c # cs)
      | Some d \<Rightarrow> (case read_digits radix cs of (ds, r) \<Rightarrow> (d # ds, r)))"

definition digits_val :: "nat \<Rightarrow> nat list \<Rightarrow> nat" where
  "digits_val radix ds = foldl (\<lambda>a d. radix * a + d) 0 ds"

definition read_number :: "nat \<Rightarrow> nat \<Rightarrow> bool \<Rightarrow> nat \<Rightarrow> string \<Rightarrow> (nat \<times> string) option" where
  "read_number radix max_digits allow_zero_prefix mx s =
     (case read_digits radix s of (ds, r) \<Rightarrow>
        if ds = [] \<or> length ds > max_digits then None
        else if \<not> allow_zero_prefix \<and> hd ds = 0 \<and> length ds > 1 then None
        else if digits_val radix ds \<le> mx then Some (digits_val radix ds, r) else None)"

definition read_char :: "char \<Rightarrow> string \<Rightarrow> string option" where
  "read_char c s = (case s of [] \<Rightarrow> None | x # r \<Rightarrow> if x = c then Some r else None)"

definition read_octet :: "string \<Rightarrow> (nat \<times> string) option" where
  "read_octet = read_number 10 3 False 255"

definition read_dot_octet :: "string \<Rightarrow> (nat \<times> string) option" where
  "read_dot_octet s = Option.bind (read_char (CHR ''.'') s) read_octet"

definition read_ipv4 :: "string \<Rightarrow> (nat list \<times> string) option" where
  "read_ipv4 s =
     Option.bind (read_octet s) (\<lambda>(a, s1).
     Option.bind (read_dot_octet s1) (\<lambda>(b, s2).
     Option.bind (read_dot_octet s2) (\<lambda>(c, s3).
     Option.bind (read_dot_octet s3) (\<lambda>(d, s4). Some ([a, b, c, d], s4)))))"

text \<open>\<open>read_separator\<close>: the separator is expected before every group but the first.\<close>

definition read_separator :: "nat \<Rightarrow> (string \<Rightarrow> ('a \<times> string) option) \<Rightarrow> string \<Rightarrow> ('a \<times> string) option" where
  "read_separator i inner s =
     (if i > 0 then Option.bind (read_char (CHR '':'') s) inner else inner s)"

fun read_groups :: "nat \<Rightarrow> nat \<Rightarrow> string \<Rightarrow> nat list \<times> bool \<times> string" where
  "read_groups i 0 s = ([], False, s)"
| "read_groups i (Suc k) s =
     (case (if 0 < k then read_separator i read_ipv4 s else None) of
        Some (q, r) \<Rightarrow> ([256 * q ! 0 + q ! 1, 256 * q ! 2 + q ! 3], True, r)
      | None \<Rightarrow>
          (case read_separator i (read_number 16 4 True 65535) s of
             None \<Rightarrow> ([], False, s)
           | Some (g, r) \<Rightarrow> (case read_groups (Suc i) k r of (gs, v4, r') \<Rightarrow> (g # gs, v4, r'))))"

definition read_ipv6 :: "string \<Rightarrow> (nat list \<times> string) option" where
  "read_ipv6 s =
     (case read_groups 0 8 s of (hd_gs, hd_v4, r) \<Rightarrow>
        if length hd_gs = 8 then Some (hd_gs, r)
        else if hd_v4 then None
        else (case strip_prefix r ''::'' of
            None \<Rightarrow> None
          | Some r' \<Rightarrow>
              (case read_groups 0 (7 - length hd_gs) r' of (tl_gs, _, r'') \<Rightarrow>
                 Some (hd_gs @ replicate (8 - length hd_gs - length tl_gs) 0 @ tl_gs, r''))))"

definition group_octets :: "nat \<Rightarrow> u8 list" where
  "group_octets g = [of_nat (g div 256), of_nat (g mod 256)]"

definition parse_whole :: "('a \<times> string) option \<Rightarrow> 'a option" where
  "parse_whole m = (case m of Some (x, []) \<Rightarrow> Some x | _ \<Rightarrow> None)"

definition parse_ipv4 :: "string \<Rightarrow> ip_addr option" where
  "parse_ipv4 s = map_option (\<lambda>q. V4 (map of_nat q)) (parse_whole (read_ipv4 s))"

definition parse_ipv6 :: "string \<Rightarrow> ip_addr option" where
  "parse_ipv6 s = map_option (\<lambda>gs. V6 (concat (map group_octets gs))) (parse_whole (read_ipv6 s))"

definition parse_ip :: "string \<Rightarrow> ip_addr option" where
  "parse_ip s = (case parse_ipv4 s of Some a \<Rightarrow> Some a | None \<Rightarrow> parse_ipv6 s)"

text \<open>
  \<open>SocketAddr\<close>: \<open>a.b.c.d:port\<close> or \<open>[v6]:port\<close>, where the bracketed form may carry a numeric
  scope (\<open>%n\<close>), which the address does not keep.
\<close>

definition read_port :: "string \<Rightarrow> (nat \<times> string) option" where
  "read_port s = Option.bind (read_char (CHR '':'') s) (read_number 10 5 True 65535)"

definition read_scope :: "string \<Rightarrow> string" where
  "read_scope s =
     (case Option.bind (read_char (CHR ''%'') s) (read_number 10 10 True 4294967295) of
        None \<Rightarrow> s | Some (_, r) \<Rightarrow> r)"

definition parse_socket_addr :: "string \<Rightarrow> socket_addr option" where
  "parse_socket_addr s =
     (case parse_whole (Option.bind (read_ipv4 s) (\<lambda>(q, r).
             map_option (\<lambda>(p, r'). ((q, p), r')) (read_port r))) of
        Some (q, p) \<Rightarrow> Some \<lparr>sa_ip = V4 (map of_nat q), sa_port = p\<rparr>
      | None \<Rightarrow>
          (case parse_whole (Option.bind (read_char (CHR ''['') s) (\<lambda>r0.
                 Option.bind (read_ipv6 r0) (\<lambda>(gs, r1).
                 Option.bind (read_char (CHR '']'') (read_scope r1)) (\<lambda>r2.
                 map_option (\<lambda>(p, r3). ((gs, p), r3)) (read_port r2))))) of
             Some (gs, p) \<Rightarrow> Some \<lparr>sa_ip = V6 (concat (map group_octets gs)), sa_port = p\<rparr>
           | None \<Rightarrow> None))"

section \<open>Parsed addresses are well formed\<close>

lemma read_ipv4_length: "read_ipv4 s = Some (q, r) \<Longrightarrow> length q = 4"
  by (auto simp: read_ipv4_def bind_eq_Some_conv split: prod.splits)

lemma read_groups_length:
  "read_groups i k s = (gs, v4, r) \<Longrightarrow> length gs \<le> k"
proof (induction i k s arbitrary: gs v4 r rule: read_groups.induct)
  case (2 i k s)
  show ?case
  proof (cases "if 0 < k then read_separator i read_ipv4 s else None")
    case None
    note n1 = None
    show ?thesis
    proof (cases "read_separator i (read_number 16 4 True 65535) s")
      case None
      with n1 2 show ?thesis by (simp split: if_splits)
    next
      case (Some p)
      obtain g r0 where p: "p = (g, r0)" by (cases p)
      obtain gs' v' r' where rec: "read_groups (Suc i) k r0 = (gs', v', r')"
        by (cases "read_groups (Suc i) k r0") auto
      have "length gs' \<le> k" using "2.IH" n1 Some p rec by blast
      moreover have "gs = g # gs'" using 2 n1 Some p rec by (simp split: if_splits)
      ultimately show ?thesis by simp
    qed
  next
    case (Some p)
    then have "0 < k" by (simp split: if_splits)
    with Some 2 show ?thesis by (auto split: prod.splits)
  qed
qed simp

lemma read_ipv6_length: "read_ipv6 s = Some (gs, r) \<Longrightarrow> length gs = 8"
proof -
  assume a: "read_ipv6 s = Some (gs, r)"
  obtain h v r0 where h: "read_groups 0 8 s = (h, v, r0)" by (cases "read_groups 0 8 s") auto
  have hl: "length h \<le> 8" by (rule read_groups_length [OF h])
  show ?thesis
  proof (cases "length h = 8")
    case True
    with a h show ?thesis by (simp add: read_ipv6_def)
  next
    case False
    with a h obtain r' where r': "strip_prefix r0 ''::'' = Some r'"
      by (auto simp: read_ipv6_def split: if_splits option.splits)
    obtain t w r'' where t: "read_groups 0 (7 - length h) r' = (t, w, r'')"
      by (cases "read_groups 0 (7 - length h) r'") auto
    have "length t \<le> 7 - length h" by (rule read_groups_length [OF t])
    with a h r' t False hl show ?thesis
      by (auto simp: read_ipv6_def split: if_splits)
  qed
qed

lemma length_concat_group_octets: "length (concat (map group_octets gs)) = 2 * length gs"
  by (induction gs) (auto simp: group_octets_def)

lemma parse_whole_SomeD: "parse_whole m = Some x \<Longrightarrow> m = Some (x, [])"
  by (auto simp: parse_whole_def split: option.splits prod.splits list.splits)

lemma parse_ip_wf: "parse_ip s = Some ip \<Longrightarrow> ip_wf ip"
  by (auto simp: parse_ip_def parse_ipv4_def parse_ipv6_def length_concat_group_octets
      dest!: parse_whole_SomeD dest: read_ipv4_length read_ipv6_length split: option.splits)

lemma to_canonical_wf: "ip_wf ip \<Longrightarrow> ip_wf (to_canonical ip)"
  by (cases ip) auto

lemma to_canonical_idem: "to_canonical (to_canonical ip) = to_canonical ip"
  by (cases ip) auto

lemmas parse_ip_defs = parse_ip_def parse_ipv4_def parse_ipv6_def parse_whole_def read_ipv4_def read_ipv6_def
  read_octet_def read_dot_octet_def read_number_def read_char_def read_separator_def digit_of_def hex_val_def
  digits_val_def

lemma read_groups_Nil: "read_groups i k [] = ([], False, [])"
  by (cases k) (simp_all add: parse_ip_defs)

lemma parse_ip_Nil: "parse_ip [] = None"
  by (simp add: parse_ip_defs read_groups_Nil strip_prefix_def starts_with_def)

section \<open>Integers and their octets\<close>

text \<open>
  \<open>from_str_radix\<close> and \<open>parse\<close> of the unsigned types up to \<open>mx\<close>, with the text of \<open>ParseIntError\<close>:
  a digit is checked before the overflow it would cause.
\<close>

fun scan_radix :: "nat \<Rightarrow> nat \<Rightarrow> nat \<Rightarrow> string \<Rightarrow> nat res" where
  "scan_radix radix mx acc [] = Inr acc"
| "scan_radix radix mx acc (c # cs) =
     (case digit_of radix c of
        None \<Rightarrow> Inl ''invalid digit found in string''
      | Some d \<Rightarrow> if radix * acc + d > mx then Inl ''number too large to fit in target type''
                  else scan_radix radix mx (radix * acc + d) cs)"

definition parse_radix :: "nat \<Rightarrow> nat \<Rightarrow> string \<Rightarrow> nat res" where
  "parse_radix radix mx s =
     (if s = [] then Inl ''cannot parse integer from empty string''
      else if s = ''+'' then Inl ''invalid digit found in string''
      else scan_radix radix mx 0 (unplus s))"

text \<open>\<open>u32::from\<close> and \<open>u128::from\<close> of an address, and back: the first octet is the most significant one.\<close>

definition be_word :: "u8 list \<Rightarrow> 'a::len word" where
  "be_word os = foldl (\<lambda>a b. push_bit 8 a OR ucast b) 0 os"

definition be_octets :: "nat \<Rightarrow> 'a::len word \<Rightarrow> u8 list" where
  "be_octets n w = map (\<lambda>i. ucast (drop_bit (8 * i) w)) (rev [0..<n])"

section \<open>Printing\<close>

fun show_hex :: "nat \<Rightarrow> string" where
  "show_hex n = (if n < 16 then [] else show_hex (n div 16)) @ [''0123456789abcdef'' ! (n mod 16)]"

declare show_hex.simps [simp del]

fun segments :: "u8 list \<Rightarrow> nat list" where
  "segments (a # b # os) = (256 * unat a + unat b) # segments os"
| "segments _ = []"

text \<open>The longest run of zero segments, the first of the longest ones, as its start and length.\<close>

fun zero_run :: "nat \<Rightarrow> nat \<times> nat \<Rightarrow> nat \<times> nat \<Rightarrow> nat list \<Rightarrow> nat \<times> nat" where
  "zero_run i longest cur [] = longest"
| "zero_run i longest cur (g # gs) =
     (if g = 0
      then (let cur' = (if snd cur = 0 then i else fst cur, snd cur + 1) in
            zero_run (Suc i) (if snd cur' > snd longest then cur' else longest) cur' gs)
      else zero_run (Suc i) longest (0, 0) gs)"

definition show_ipv4 :: "u8 list \<Rightarrow> string" where
  "show_ipv4 o4 = join_with ''.'' (map (\<lambda>b. show_nat (unat b)) o4)"

definition show_ipv6 :: "u8 list \<Rightarrow> string" where
  "show_ipv6 o6 =
     (if is_mapped o6 then ''::ffff:'' @ show_ipv4 (drop 12 o6)
      else (let gs = segments o6; (st, len) = zero_run 0 (0, 0) (0, 0) gs in
        if len > 1
        then join_with '':'' (map show_hex (take st gs)) @ ''::'' @ join_with '':'' (map show_hex (drop (st + len) gs))
        else join_with '':'' (map show_hex gs)))"

fun show_ip :: "ip_addr \<Rightarrow> string" where
  "show_ip (V4 o4) = show_ipv4 o4"
| "show_ip (V6 o6) = show_ipv6 o6"

end
