(* ===== verification/Dns_Data.thy ===== *)
theory Dns_Data
  imports Net_Addr
begin

text \<open>
  The DNS data the sources build and inspect: names, record types, resource records, EDNS and
  messages, with the accessors of \<open>hickory_proto\<close> the code calls. These types belong to the
  \<open>hickory-proto\<close> crate; only their documented fields are represented, no algorithm of the crate
  is. A \<open>Name\<close> is the text its \<open>to_ascii()\<close> prints; parsing a name (\<open>Name::from_ascii\<close>), the
  wire codec and the zone-file parser are parameters of the definitions that call them.
\<close>

type_synonym dname = string

datatype rtype =
    RT_A | RT_AAAA | RT_ANY | RT_AXFR | RT_CNAME | RT_DNSKEY | RT_DS | RT_HINFO | RT_IXFR | RT_MX
  | RT_NS | RT_NSEC | RT_NSEC3 | RT_NSEC3PARAM | RT_OPT | RT_PTR | RT_RRSIG | RT_SOA | RT_SRV
  | RT_TSIG | RT_TXT | RT_ZERO | RT_ANAME | RT_Unknown u16

datatype dclass = DC_IN | DC_CH | DC_HS | DC_NONE | DC_ANY | DC_OPT u16

datatype opcode = OpQuery | OpStatus | OpNotify | OpUpdate

datatype mtype = MtQuery | MtResponse

datatype rcode =
    NoError | FormErr | ServFail | NXDomain | NotImp | Refused | YXDomain | NotAuth | BADVERS
  | RC_Other u16

record soa_data =
  soa_mname :: dname
  soa_rname :: dname
  soa_serial :: u32
  soa_refresh :: u32
  soa_retry :: u32
  soa_expire :: u32
  soa_minimum :: u32

record nsec3_params =
  n3_alg :: u8
  n3_salt :: "u8 list"
  n3_iterations :: u16

text \<open>The data of a TSIG record: algorithm, time, fudge, MAC, original id, error and other data.\<close>

datatype tsig_alg = HmacMd5 | HmacSha1 | HmacSha224 | HmacSha256 | HmacSha384 | HmacSha512 | Alg_Other string

record tsig_data =
  ts_alg :: tsig_alg
  ts_time :: nat
  ts_fudge :: u16
  ts_mac :: "u8 list"
  ts_oid :: u16
  ts_error :: u16
  ts_other :: "u8 list"

datatype rdata =
    RD_A "u8 list" | RD_AAAA "u8 list" | RD_CNAME dname | RD_NS dname | RD_PTR dname
  | RD_MX u16 dname | RD_SRV u16 u16 u16 dname | RD_SOA soa_data | RD_TXT "string list"
  | RD_HINFO string string | RD_ANAME dname | RD_RRSIG rtype "u8 list" | RD_NSEC dname "rtype list"
  | RD_NSEC3 nsec3_params "u8 list" | RD_NSEC3PARAM nsec3_params | RD_Unknown u16 "u8 list"
  | RD_TSIG tsig_data | RD_Other rtype "u8 list"

text \<open>\<open>RData::record_type\<close>.\<close>

fun rdata_type :: "rdata \<Rightarrow> rtype" where
  "rdata_type (RD_A _) = RT_A"
| "rdata_type (RD_AAAA _) = RT_AAAA"
| "rdata_type (RD_CNAME _) = RT_CNAME"
| "rdata_type (RD_NS _) = RT_NS"
| "rdata_type (RD_PTR _) = RT_PTR"
| "rdata_type (RD_MX _ _) = RT_MX"
| "rdata_type (RD_SRV _ _ _ _) = RT_SRV"
| "rdata_type (RD_SOA _) = RT_SOA"
| "rdata_type (RD_TXT _) = RT_TXT"
| "rdata_type (RD_HINFO _ _) = RT_HINFO"
| "rdata_type (RD_ANAME _) = RT_ANAME"
| "rdata_type (RD_RRSIG _ _) = RT_RRSIG"
| "rdata_type (RD_NSEC _ _) = RT_NSEC"
| "rdata_type (RD_NSEC3 _ _) = RT_NSEC3"
| "rdata_type (RD_NSEC3PARAM _) = RT_NSEC3PARAM"
| "rdata_type (RD_TSIG _) = RT_TSIG"
| "rdata_type (RD_Unknown c _) = RT_Unknown c"
| "rdata_type (RD_Other t _) = t"

record rr =
  rr_name :: dname
  rr_type :: rtype
  rr_class :: dclass
  rr_ttl :: u32
  rr_data :: "rdata option"

text \<open>\<open>Record::from_rdata\<close>: class IN, type of the data.\<close>

definition from_rdata :: "dname \<Rightarrow> u32 \<Rightarrow> rdata \<Rightarrow> rr" where
  "from_rdata n ttl d = \<lparr>rr_name = n, rr_type = rdata_type d, rr_class = DC_IN, rr_ttl = ttl, rr_data = Some d\<rparr>"

lemma from_rdata_simps [simp]:
  "rr_name (from_rdata n t d) = n" "rr_type (from_rdata n t d) = rdata_type d"
  "rr_ttl (from_rdata n t d) = t" "rr_data (from_rdata n t d) = Some d"
  "rr_class (from_rdata n t d) = DC_IN"
  by (simp_all add: from_rdata_def)

record question =
  q_name :: dname
  q_type :: rtype
  q_class :: dclass

text \<open>
  EDNS: the options form a map from option code to option, so inserting an option replaces the
  one with the same code. A client-subnet option is its address, source and scope prefix.
\<close>

datatype edns_option = OptUnknown u16 "u8 list" | OptSubnet ip_addr u8 u8

definition code_nsid :: u16 where "code_nsid = 3"
definition code_subnet :: u16 where "code_subnet = 8"

fun option_code :: "edns_option \<Rightarrow> u16" where
  "option_code (OptUnknown c _) = c"
| "option_code (OptSubnet _ _ _) = code_subnet"

record edns =
  ed_max_payload :: u16
  ed_version :: u8
  ed_dnssec_ok :: bool
  ed_options :: "u16 \<rightharpoonup> edns_option"

definition edns_new :: edns where
  "edns_new = \<lparr>ed_max_payload = 512, ed_version = 0, ed_dnssec_ok = False, ed_options = Map.empty\<rparr>"

definition insert_option :: "edns_option \<Rightarrow> edns \<Rightarrow> edns" where
  "insert_option opt e = e\<lparr>ed_options := (ed_options e)(option_code opt \<mapsto> opt)\<rparr>"

record message =
  m_id :: u16
  m_type :: mtype
  m_opcode :: opcode
  m_authoritative :: bool
  m_truncated :: bool
  m_recursion_desired :: bool
  m_recursion_available :: bool
  m_authentic_data :: bool
  m_checking_disabled :: bool
  m_rcode :: rcode
  m_queries :: "question list"
  m_answers :: "rr list"
  m_name_servers :: "rr list"
  m_additionals :: "rr list"
  m_edns :: "edns option"
  m_signature :: "rr list"

text \<open>\<open>Message::new\<close>.\<close>

definition message_new :: message where
  "message_new = \<lparr>m_id = 0, m_type = MtQuery, m_opcode = OpQuery, m_authoritative = False,
     m_truncated = False, m_recursion_desired = False, m_recursion_available = False,
     m_authentic_data = False, m_checking_disabled = False, m_rcode = NoError, m_queries = [],
     m_answers = [], m_name_servers = [], m_additionals = [], m_edns = None, m_signature = []\<rparr>"

definition add_query :: "question \<Rightarrow> message \<Rightarrow> message" where
  "add_query q m = m\<lparr>m_queries := m_queries m @ [q]\<rparr>"

definition add_answer :: "rr \<Rightarrow> message \<Rightarrow> message" where
  "add_answer r m = m\<lparr>m_answers := m_answers m @ [r]\<rparr>"

definition add_name_server :: "rr \<Rightarrow> message \<Rightarrow> message" where
  "add_name_server r m = m\<lparr>m_name_servers := m_name_servers m @ [r]\<rparr>"

definition add_additional :: "rr \<Rightarrow> message \<Rightarrow> message" where
  "add_additional r m = m\<lparr>m_additionals := m_additionals m @ [r]\<rparr>"

text \<open>The first question of a message, as \<open>queries().first()\<close>.\<close>

fun first :: "'a list \<Rightarrow> 'a option" where
  "first [] = None"
| "first (x # _) = Some x"

lemma first_None [simp]: "first xs = None \<longleftrightarrow> xs = []"
  by (cases xs) auto

lemma first_SomeD: "first xs = Some x \<Longrightarrow> x \<in> set xs"
  by (cases xs) auto

text \<open>Every record of a message, in the order of its sections.\<close>

definition all_rrs :: "message \<Rightarrow> rr list" where
  "all_rrs m = m_answers m @ m_name_servers m @ m_additionals m"

lemmas message_defs = message_new_def add_query_def add_answer_def add_name_server_def
  add_additional_def edns_new_def insert_option_def

lemma fold_add_answer:
  "foldl (\<lambda>m r. add_answer r m) m rs = m\<lparr>m_answers := m_answers m @ rs\<rparr>"
  by (induction rs arbitrary: m) (simp_all add: add_answer_def)

end
