(* ===== verification/Dnsutil.thy ===== *)
theory Dnsutil
  imports Dns_Data
begin

text \<open>
  The helpers of \<open>src/dnsutil/mod.rs\<close>: names and zones as dotted text, reverse names of
  addresses, upstream addresses of the Corefile, and small operations on messages.

  The label view of names, \<open>fq\<close>, is the abstract specification: a name is a list of labels, its
  text is each label followed by a dot, and \<open>is_subdomain\<close>, \<open>trim_zone\<close>, \<open>join\<close> and
  \<open>count_labels\<close> are shown to be the suffix order, the difference, concatenation and length of
  label lists.
\<close>

section \<open>Names\<close>

definition fqdn :: "string \<Rightarrow> string" where
  "fqdn s0 = (let s = to_ascii_lowercase s0 in if \<not> ends_with s ''.'' then s @ ''.'' else s)"

definition is_subdomain :: "string \<Rightarrow> string \<Rightarrow> bool" where
  "is_subdomain zone0 name0 =
     (let zone = to_ascii_lowercase zone0; name = to_ascii_lowercase name0 in
      if zone = ''.'' then True
      else if name = zone then True
      else if length name > length zone \<and> ends_with name zone then
        (let idx = length name - length zone in name ! (idx - 1) = CHR ''.'')
      else False)"

definition count_labels :: "string \<Rightarrow> nat" where
  "count_labels name = length (filter (\<lambda>l. l \<noteq> []) (split_char (CHR ''.'') (trim_end_matches (CHR ''.'') name)))"

definition trim_zone :: "string \<Rightarrow> string \<Rightarrow> string option" where
  "trim_zone name zone =
     (if \<not> is_subdomain zone name then None
      else if zone = ''.'' then Some (trim_end_matches (CHR ''.'') name)
      else (let n = to_ascii_lowercase name; z = to_ascii_lowercase zone in
        if n = z then Some []
        else Some (take (length n - length z - 1) n)))"

fun join_labels :: "string list \<Rightarrow> string" where
  "join_labels [] = []"
| "join_labels (l # ls) = (if l = [] then join_labels ls else l @ ''.'' @ join_labels ls)"

definition join :: "string list \<Rightarrow> string \<Rightarrow> string" where
  "join labels zone =
     (let s = join_labels labels in
      if zone = ''.'' then (if s = [] then ''.'' else s)
      else (let t = s @ trim_start_matches (CHR ''.'') zone in
        if \<not> ends_with t ''.'' then t @ ''.'' else t))"

definition name_str :: "dname \<Rightarrow> string" where
  "name_str n = (let s = to_ascii_lowercase n in if \<not> ends_with s ''.'' then s @ ''.'' else s)"

definition name_from_str :: "(string \<Rightarrow> dname res) \<Rightarrow> string \<Rightarrow> dname res" where
  "name_from_str from_ascii s =
     (case from_ascii s of Inl e \<Rightarrow> Inl (''bad name '' @ s @ '': '' @ e) | Inr n \<Rightarrow> Inr n)"

definition record_type_from_str :: "(string \<Rightarrow> rtype res) \<Rightarrow> string \<Rightarrow> rtype res" where
  "record_type_from_str rtype_parse s =
     (case rtype_parse (to_ascii_uppercase s) of
        Inl e \<Rightarrow> Inl (''unknown record type '' @ s @ '': '' @ e) | Inr t \<Rightarrow> Inr t)"

section \<open>Reverse names and zones\<close>

definition show_nibble :: "u8 \<Rightarrow> string" where
  "show_nibble b = [digit_char (unat b)]"

fun reverse_name_str :: "ip_addr \<Rightarrow> string" where
  "reverse_name_str (V4 o4) =
     show_nat (unat (o4 ! 3)) @ ''.'' @ show_nat (unat (o4 ! 2)) @ ''.'' @
     show_nat (unat (o4 ! 1)) @ ''.'' @ show_nat (unat (o4 ! 0)) @ ''.in-addr.arpa.''"
| "reverse_name_str (V6 o6) =
     join_with ''.'' (concat (map (\<lambda>b. [show_nibble (b AND 15), show_nibble (drop_bit 4 b)]) (rev o6)))
       @ ''.ip6.arpa.''"

text \<open>\<open>u8::from_str_radix(p, 16)\<close>.\<close>

definition parse_hex_u8 :: "string \<Rightarrow> nat option" where
  "parse_hex_u8 p =
     (let d = unplus p in
      if d = [] then None
      else (case opt_traverse (digit_of 16) d of
          None \<Rightarrow> None
        | Some ds \<Rightarrow> if digits_val 16 ds \<le> 255 then Some (digits_val 16 ds) else None))"

fun pair_nibbles :: "u8 list \<Rightarrow> u8 list" where
  "pair_nibbles (h # l # r) = (push_bit 4 h OR l) # pair_nibbles r"
| "pair_nibbles _ = []"

definition extract_address_from_reverse :: "string \<Rightarrow> ip_addr option" where
  "extract_address_from_reverse name =
     (let n = to_ascii_lowercase name in
      case strip_suffix n ''.in-addr.arpa.'' of
        Some rest \<Rightarrow>
          (let parts = split_char (CHR ''.'') rest in
           if length parts \<noteq> 4 then None
           else map_option (\<lambda>vs. V4 (map of_nat vs)) (opt_traverse parse_u8 (rev parts)))
      | None \<Rightarrow>
          (case strip_suffix n ''.ip6.arpa.'' of
             Some rest \<Rightarrow>
               (let parts = split_char (CHR ''.'') rest in
                if length parts \<noteq> 32 then None
                else map_option (\<lambda>vs. V6 (pair_nibbles (map of_nat vs)))
                  (opt_traverse (\<lambda>p. Option.bind (parse_hex_u8 p)
                     (\<lambda>v. if length p \<noteq> 1 then None else Some v)) (rev parts)))
           | None \<Rightarrow> None))"

definition is_reverse :: "string \<Rightarrow> nat" where
  "is_reverse name =
     (let n = to_ascii_lowercase name in
      if ends_with n ''.in-addr.arpa.'' \<or> n = ''in-addr.arpa.'' then 1
      else if ends_with n ''.ip6.arpa.'' \<or> n = ''ip6.arpa.'' then 2
      else 0)"

text \<open>
  The \<open>ipnet\<close> crate, as the operations the sources call on its \<open>IpNet\<close>: parsing, the family, the
  prefix length, the subnets of a longer prefix (an error when the prefix is not longer or too
  long), the octets of the network address, membership, and the host network of an address.
\<close>

record 'net ipnet_api =
  net_parse :: "string \<Rightarrow> 'net res"
  net_v4 :: "'net \<Rightarrow> bool"
  net_prefix_len :: "'net \<Rightarrow> nat"
  net_subnets :: "'net \<Rightarrow> nat \<Rightarrow> 'net list option"
  net_octets :: "'net \<Rightarrow> u8 list"
  net_contains :: "'net \<Rightarrow> ip_addr \<Rightarrow> bool"
  net_of_ip :: "ip_addr \<Rightarrow> 'net"

definition nibble_at :: "u8 list \<Rightarrow> nat \<Rightarrow> u8" where
  "nibble_at o6 i = (let b = o6 ! (i div 2) in if i mod 2 = 0 then drop_bit 4 b else b AND 15)"

definition reverse_zones_for :: "'net ipnet_api \<Rightarrow> 'net \<Rightarrow> string list" where
  "reverse_zones_for api n =
     (if net_v4 api n then
        (let p = net_prefix_len api n; boundary = ((p + 7) div 8) * 8 in
         if boundary = 0 then [''in-addr.arpa.'']
         else map (\<lambda>sn. join_with ''.'' (rev (map (\<lambda>b. show_nat (unat b))
                      (take (boundary div 8) (net_octets api sn)))) @ ''.in-addr.arpa.'')
                (case net_subnets api n boundary of None \<Rightarrow> [n] | Some sns \<Rightarrow> sns))
      else
        (let p = net_prefix_len api n; boundary = ((p + 3) div 4) * 4 in
         if boundary = 0 then [''ip6.arpa.'']
         else map (\<lambda>sn. join_with ''.'' (rev (map (\<lambda>i. show_nibble (nibble_at (net_octets api sn) i))
                      [0..<boundary div 4])) @ ''.ip6.arpa.'')
                (case net_subnets api n boundary of None \<Rightarrow> [n] | Some sns \<Rightarrow> sns)))"

definition normalize_zone :: "(string \<Rightarrow> dname res) \<Rightarrow> 'net ipnet_api \<Rightarrow> string \<Rightarrow> string list res" where
  "normalize_zone from_ascii api s0 =
     (let s = trim s0 in
      if s = [] then Inl ''empty zone''
      else if s = ''.'' then Inr [''.'']
      else if CHR ''/'' \<in> set s then
        (case net_parse api s of
           Inl e \<Rightarrow> Inl (''bad reverse zone '' @ s @ '': '' @ e)
         | Inr net \<Rightarrow> Inr (reverse_zones_for api net))
      else (case parse_ip s of
          Some ip \<Rightarrow> Inr [reverse_name_str ip]
        | None \<Rightarrow>
            (case from_ascii s of
               Inl e \<Rightarrow> Inl (''bad zone name '' @ s @ '': '' @ e)
             | Inr n \<Rightarrow>
                 (let z = to_ascii_lowercase n in
                  Inr [if \<not> ends_with z ''.'' then z @ ''.'' else z]))))"

section \<open>Upstream addresses\<close>

datatype upstream_transport = UDns | UTls | UHttps | UQuic | UGrpc

record upstream =
  up_transport :: upstream_transport
  up_addr :: string

fun upstream_default_port :: "upstream_transport \<Rightarrow> nat" where
  "upstream_default_port UDns = 53"
| "upstream_default_port UTls = 853"
| "upstream_default_port UHttps = 443"
| "upstream_default_port UQuic = 853"
| "upstream_default_port UGrpc = 443"

fun upstream_as_str :: "upstream_transport \<Rightarrow> string" where
  "upstream_as_str UDns = ''dns''"
| "upstream_as_str UTls = ''tls''"
| "upstream_as_str UHttps = ''https''"
| "upstream_as_str UQuic = ''quic''"
| "upstream_as_str UGrpc = ''grpc''"

definition host_port :: "string \<Rightarrow> nat \<Rightarrow> string res" where
  "host_port s default_port =
     (if s = [] then Inl ''empty host''
      else (case strip_prefix s ''['' of
          Some rest \<Rightarrow>
            rbind (ok_or (''bad address '' @ s) (find_char (CHR '']'') rest)) (\<lambda>close.
            (let host = take close rest; after = drop (close + 1) rest in
             rbind (case strip_prefix after '':'' of
                 Some p \<Rightarrow> ok_or (''bad port in '' @ s) (parse_u16 p)
               | None \<Rightarrow> if after = [] then Inr default_port else Inl (''bad address '' @ s)) (\<lambda>port.
             rbind (ok_or (''bad IPv6 address '' @ host) (parse_ipv6 host)) (\<lambda>_.
             Inr (''['' @ host @ '']:'' @ show_nat port)))))
        | None \<Rightarrow>
            if parse_ipv6 s \<noteq> None then Inr (''['' @ s @ '']:'' @ show_nat default_port)
            else (case rfind_char (CHR '':'') s of
                Some i \<Rightarrow>
                  (let host = take i s in
                   rbind (ok_or (''bad port in '' @ s) (parse_u16 (drop (i + 1) s))) (\<lambda>port.
                   if host = [] then Inl (''empty host in '' @ s)
                   else Inr (host @ '':'' @ show_nat port)))
              | None \<Rightarrow> Inr (s @ '':'' @ show_nat default_port))))"

definition transport_of_scheme :: "string \<Rightarrow> upstream_transport res" where
  "transport_of_scheme o' =
     (if o' = ''dns'' then Inr UDns else if o' = ''tls'' then Inr UTls
      else if o' = ''https'' then Inr UHttps else if o' = ''quic'' then Inr UQuic
      else if o' = ''grpc'' then Inr UGrpc else Inl (''not a valid transport: '' @ o'))"

definition parse_upstream :: "string \<Rightarrow> upstream res" where
  "parse_upstream s =
     rbind (case find_sub ''://'' s of
         Some i \<Rightarrow> rbind (transport_of_scheme (take i s)) (\<lambda>t. Inr (t, drop (i + 3) s))
       | None \<Rightarrow> Inr (UDns, s)) (\<lambda>(t, rest).
     rbind (host_port rest (upstream_default_port t)) (\<lambda>addr.
     Inr \<lparr>up_transport = t, up_addr = addr\<rparr>))"

definition is_ip_host :: "string \<Rightarrow> bool" where
  "is_ip_host hostport \<longleftrightarrow> parse_socket_addr hostport \<noteq> None"

text \<open>The \<open>nameserver\<close> lines of a resolv.conf-style file.\<close>

definition nameserver_of_line :: "string \<Rightarrow> upstream option" where
  "nameserver_of_line line0 =
     (case strip_prefix (trim line0) ''nameserver'' of
        None \<Rightarrow> None
      | Some rest \<Rightarrow> (let ns = trim rest in if ns = [] then None else ok (parse_upstream ns)))"

definition upstreams_of_arg :: "(string \<Rightarrow> string option) \<Rightarrow> string \<Rightarrow> upstream list res" where
  "upstreams_of_arg read_file a =
     (let from_file = rbind (ok_or (''not an IP address or file: '' @ a) (read_file a)) (\<lambda>text.
          (let found = List.map_filter nameserver_of_line (lines text) in
           if found = [] then Inl (''no nameservers found in '' @ a) else Inr found)) in
      case parse_upstream a of
        Inr u \<Rightarrow> if is_ip_host (up_addr u) then Inr [u] else from_file
      | Inl _ \<Rightarrow> from_file)"

definition parse_host_port_or_file :: "(string \<Rightarrow> string option) \<Rightarrow> string list \<Rightarrow> upstream list res" where
  "parse_host_port_or_file read_file args = try_flat_map (upstreams_of_arg read_file) args"

section \<open>Messages\<close>

definition UDP_BUFFER_SIZE :: u16 where "UDP_BUFFER_SIZE = 4096"
definition MIN_MSG_SIZE :: nat where "MIN_MSG_SIZE = 512"
definition MAX_MSG_SIZE :: nat where "MAX_MSG_SIZE = 65535"

text \<open>\<open>encode_with_limit\<close>: \<open>emit\<close> is hickory's encoder, given the size limit it is set to.\<close>

definition encode_with_limit :: "(u16 \<Rightarrow> message \<Rightarrow> u8 list res) \<Rightarrow> message \<Rightarrow> nat \<Rightarrow> u8 list res" where
  "encode_with_limit emit m mx =
     (case emit (of_nat (min mx MAX_MSG_SIZE)) m of
        Inl e \<Rightarrow> Inl (''encoding response: '' @ e) | Inr b \<Rightarrow> Inr b)"

text \<open>\<open>dedup\<close>: \<open>show_rr\<close> is the \<open>Display\<close> of a record, the key of the seen set.\<close>

fun dedup_loop :: "(rr \<Rightarrow> string) \<Rightarrow> string set \<Rightarrow> rr list \<Rightarrow> rr list" where
  "dedup_loop show_rr seen [] = []"
| "dedup_loop show_rr seen (r # rs) =
     (if show_rr r \<in> seen then dedup_loop show_rr seen rs
      else r # dedup_loop show_rr (insert (show_rr r) seen) rs)"

definition dedup :: "(rr \<Rightarrow> string) \<Rightarrow> rr list \<Rightarrow> rr list" where
  "dedup show_rr records = dedup_loop show_rr {} records"

text \<open>\<open>minimal_ttl\<close>, in seconds. A denial returns at the first SOA record.\<close>

fun minimal_ttl_loop :: "bool \<Rightarrow> u32 \<Rightarrow> bool \<Rightarrow> rr list \<Rightarrow> nat" where
  "minimal_ttl_loop negative mn found [] =
     (if \<not> found then min (if negative then 1800 else 3600) 5 else unat mn)"
| "minimal_ttl_loop negative mn found (r # rs) =
     (if rr_type r = RT_OPT then minimal_ttl_loop negative mn found rs
      else (case (negative, rr_data r) of
          (True, Some (RD_SOA soa)) \<Rightarrow> unat (min (rr_ttl r) (soa_minimum soa))
        | _ \<Rightarrow> minimal_ttl_loop negative (if rr_ttl r < mn then rr_ttl r else mn) True rs))"

definition minimal_ttl :: "message \<Rightarrow> bool \<Rightarrow> nat" where
  "minimal_ttl m negative = minimal_ttl_loop negative (- 1) False (all_rrs m)"

definition has_opt :: "message \<Rightarrow> bool" where
  "has_opt m \<longleftrightarrow> m_edns m \<noteq> None"

definition error_reply :: "message \<Rightarrow> rcode \<Rightarrow> message" where
  "error_reply req rc =
     (let m0 = message_new\<lparr>m_id := m_id req, m_type := MtResponse, m_opcode := m_opcode req,
                 m_recursion_desired := m_recursion_desired req, m_rcode := rc\<rparr>;
          m1 = (case first (m_queries req) of Some q \<Rightarrow> add_query q m0 | None \<Rightarrow> m0)
      in (case m_edns req of
            Some e \<Rightarrow> m1\<lparr>m_edns := Some (edns_new\<lparr>ed_max_payload := UDP_BUFFER_SIZE,
                            ed_dnssec_ok := ed_dnssec_ok e\<rparr>)\<rparr>
          | None \<Rightarrow> m1))"


section \<open>The label view of names\<close>

definition label_ok :: "string \<Rightarrow> bool" where
  "label_ok l \<longleftrightarrow> l \<noteq> [] \<and> CHR ''.'' \<notin> set l"

definition dotted :: "string list \<Rightarrow> string" where
  "dotted ls = concat (map (\<lambda>l. l @ ''.'') ls)"

definition fq :: "string list \<Rightarrow> string" where
  "fq ls = (if ls = [] then ''.'' else dotted ls)"

abbreviation "lower_labels \<equiv> map to_ascii_lowercase"

lemma dotted_simps [simp]:
  "dotted [] = []" "dotted (l # ls) = l @ CHR ''.'' # dotted ls" "dotted (ls @ ls') = dotted ls @ dotted ls'"
  by (simp_all add: dotted_def)

lemma split_dotted: "(\<And>l. l \<in> set ls \<Longrightarrow> CHR ''.'' \<notin> set l) \<Longrightarrow> split_char (CHR ''.'') (dotted ls) = ls @ [[]]"
  by (induction ls) (auto simp: split_char_append)

lemma label_ok_lower [simp]: "label_ok (to_ascii_lowercase l) \<longleftrightarrow> label_ok l"
  by (simp add: label_ok_def)

lemma labels_ok_lower [simp]: "list_all label_ok (lower_labels ls) \<longleftrightarrow> list_all label_ok ls"
  by (auto simp: list_all_iff)

lemma lower_dotted [simp]: "to_ascii_lowercase (dotted ls) = dotted (lower_labels ls)"
  by (induction ls) auto

lemma lower_fq [simp]: "to_ascii_lowercase (fq ls) = fq (lower_labels ls)"
  by (simp add: fq_def)

lemma labels_okD: "list_all label_ok ls \<Longrightarrow> l \<in> set ls \<Longrightarrow> CHR ''.'' \<notin> set l"
  by (auto simp: list_all_iff label_ok_def)

lemma dotted_inj: "list_all label_ok as \<Longrightarrow> list_all label_ok bs \<Longrightarrow> dotted as = dotted bs \<Longrightarrow> as = bs"
  by (metis split_dotted labels_okD append_same_eq)

lemma dotted_eq_dot: "list_all label_ok ls \<Longrightarrow> dotted ls \<noteq> ''.''"
  by (cases ls) (auto simp: label_ok_def Cons_eq_append_conv append_eq_Cons_conv)

lemma dotted_eq_Nil [simp]: "dotted ls = [] \<longleftrightarrow> ls = []" "[] = dotted ls \<longleftrightarrow> ls = []"
  by (cases ls; auto)+

lemma fq_inj: "list_all label_ok as \<Longrightarrow> list_all label_ok bs \<Longrightarrow> fq as = fq bs \<Longrightarrow> as = bs"
  by (metis dotted_eq_dot dotted_inj fq_def)

lemma fq_eq_dot [simp]: "list_all label_ok ls \<Longrightarrow> fq ls = ''.'' \<longleftrightarrow> ls = []"
  using dotted_eq_dot by (auto simp: fq_def)

lemma last_dotted: "ls \<noteq> [] \<Longrightarrow> last (dotted ls) = CHR ''.''"
  by (cases ls rule: rev_cases) auto

lemma ends_with_dot_fq [simp]: "ends_with (fq ls) ''.''"
  by (auto simp: fq_def ends_with_single last_dotted)

lemma ends_with_dot_dotted [simp]: "ls \<noteq> [] \<Longrightarrow> ends_with (dotted ls) ''.''"
  by (simp add: ends_with_single last_dotted)

text \<open>A dotted name cut at a label boundary is the dotted text of a suffix of its labels.\<close>

lemma dotted_cut:
  assumes "list_all label_ok ns" "list_all label_ok zs" and eq: "dotted ns = p @ CHR ''.'' # dotted zs"
  shows "suffix zs ns"
proof -
  have "ns @ [[]] = split_char (CHR ''.'') (dotted ns)"
    using assms(1) by (simp add: split_dotted labels_okD)
  also have "\<dots> = split_char (CHR ''.'') p @ zs @ [[]]"
    using assms(2) by (simp add: eq split_char_append_all split_dotted labels_okD)
  finally show ?thesis by (simp add: suffix_def)
qed

lemma suffix_dotted: "suffix zs ns \<Longrightarrow> suffix (dotted zs) (dotted ns)"
  by (auto simp: suffix_def)

lemma length_dotted_mono: "list_all label_ok as \<Longrightarrow> as \<noteq> [] \<Longrightarrow> 0 < length (dotted as)"
  by (cases as) auto

lemma boundary_cut:
  assumes "length z < length n" "ends_with n z" "n ! (length n - length z - 1) = d"
  obtains p where "n = p @ d # z"
proof -
  from assms(2) obtain q where n: "n = q @ z" by (auto simp: ends_with_iff)
  with assms(1) have "q \<noteq> []" by auto
  moreover from this n assms(3) have "last q = d"
    by (auto simp: nth_append last_conv_nth split: if_splits)
  ultimately have "n = butlast q @ d # z" using n by (metis append_assoc append_Cons append_Nil append_butlast_last_id)
  then show ?thesis by (rule that)
qed

lemma is_subdomain_lower_fq:
  assumes z: "list_all label_ok zs" and n: "list_all label_ok ns"
    and lz: "lower_labels zs = zs" and ln: "lower_labels ns = ns"
  shows "is_subdomain (fq zs) (fq ns) \<longleftrightarrow> suffix zs ns"
proof (cases "zs = [] \<or> ns = zs")
  case True
  with assms show ?thesis by (auto simp: is_subdomain_def Let_def fq_def)
next
  case False
  then have zne: "zs \<noteq> []" and neq: "ns \<noteq> zs" by auto
  have ne: "fq ns \<noteq> fq zs" using fq_inj [OF n z] neq by blast
  have nd: "fq zs \<noteq> ''.''" using z zne by simp
  have eq: "is_subdomain (fq zs) (fq ns) \<longleftrightarrow>
      length (fq zs) < length (fq ns) \<and> ends_with (fq ns) (fq zs) \<and>
      fq ns ! (length (fq ns) - length (fq zs) - 1) = CHR ''.''"
    using ne nd by (auto simp: is_subdomain_def Let_def lz ln)
  show ?thesis
  proof
    assume "is_subdomain (fq zs) (fq ns)"
    with eq obtain p where p: "fq ns = p @ CHR ''.'' # fq zs" by (metis boundary_cut)
    with zne have "ns \<noteq> []" by (auto simp: fq_def Cons_eq_append_conv split: if_splits)
    with p zne show "suffix zs ns" by (auto simp: fq_def intro: dotted_cut [OF n z])
  next
    assume "suffix zs ns"
    then obtain ps where ps: "ns = ps @ zs" by (auto simp: suffix_def)
    with neq have pne: "ps \<noteq> []" by auto
    have fqn: "fq ns = dotted ps @ fq zs" using ps zne by (simp add: fq_def)
    have "0 < length (dotted ps)" using pne by (cases ps) auto
    moreover have "dotted ps ! (length (dotted ps) - 1) = CHR ''.''"
      using last_dotted [OF pne] pne by (simp add: last_conv_nth)
    ultimately show "is_subdomain (fq zs) (fq ns)"
      unfolding eq by (auto simp: fqn nth_append)
  qed
qed

lemma is_subdomain_lower: "is_subdomain zone name \<longleftrightarrow> is_subdomain (to_ascii_lowercase zone) (to_ascii_lowercase name)"
  by (simp add: is_subdomain_def)

lemma is_subdomain_fq:
  assumes "list_all label_ok zs" and "list_all label_ok ns"
  shows "is_subdomain (fq zs) (fq ns) \<longleftrightarrow> suffix (lower_labels zs) (lower_labels ns)"
proof -
  have "is_subdomain (fq zs) (fq ns) \<longleftrightarrow> is_subdomain (fq (lower_labels zs)) (fq (lower_labels ns))"
    by (subst is_subdomain_lower) simp
  then show ?thesis
    using assms by (simp add: is_subdomain_lower_fq)
qed

lemma is_subdomain_refl [simp]: "is_subdomain z z"
  by (simp add: is_subdomain_def Let_def)

lemma is_subdomain_root [simp]: "is_subdomain ''.'' n"
  by (simp add: is_subdomain_def Let_def ascii_lower_def is_ascii_upper_def)

lemma is_subdomain_length: "is_subdomain z n \<Longrightarrow> z = ''.'' \<or> length z \<le> length n"
  by (auto simp: is_subdomain_def Let_def split: if_splits dest: arg_cong [of _ _ length])

lemma is_subdomain_iff:
  "is_subdomain z n \<longleftrightarrow> z = ''.'' \<or> to_ascii_lowercase n = to_ascii_lowercase z
     \<or> (\<exists>p. to_ascii_lowercase n = p @ CHR ''.'' # to_ascii_lowercase z)"
proof (cases "z = ''.'' \<or> to_ascii_lowercase n = to_ascii_lowercase z")
  case False
  define zl nl where d: "zl = to_ascii_lowercase z" "nl = to_ascii_lowercase n"
  have "is_subdomain z n \<longleftrightarrow> length zl < length nl \<and> ends_with nl zl \<and> nl ! (length nl - length zl - 1) = CHR ''.''"
    using False by (auto simp: is_subdomain_def Let_def d)
  also have "\<dots> \<longleftrightarrow> (\<exists>p. nl = p @ CHR ''.'' # zl)"
  proof
    assume "\<exists>p. nl = p @ CHR ''.'' # zl"
    then obtain p where "nl = p @ CHR ''.'' # zl" by blast
    then show "length zl < length nl \<and> ends_with nl zl \<and> nl ! (length nl - length zl - 1) = CHR ''.''"
      by (auto simp: ends_with_iff nth_append)
  qed (metis boundary_cut)
  finally show ?thesis using False by (auto simp: d)
qed (auto simp: is_subdomain_def Let_def)

lemma is_subdomain_trans: "a \<noteq> [] \<Longrightarrow> is_subdomain a b \<Longrightarrow> is_subdomain b c \<Longrightarrow> is_subdomain a c"
proof -
  assume "a \<noteq> []" and ab: "is_subdomain a b" and bc: "is_subdomain b c"
  show ?thesis
  proof (cases "b = ''.''")
    case True
    with ab have "to_ascii_lowercase a = ''.'' \<or> to_ascii_lowercase a = []"
      by (auto simp: is_subdomain_iff Cons_eq_append_conv
          simp del: to_ascii_lowercase_eq_dot to_ascii_lowercase_eq_Nil)
    with \<open>a \<noteq> []\<close> show ?thesis by simp
  next
    case False
    with ab bc show ?thesis unfolding is_subdomain_iff by (metis append_assoc append_Cons)
  qed
qed

lemma trim_end_dotted: "list_all label_ok ls \<Longrightarrow> trim_end_matches (CHR ''.'') (dotted ls) = join_with ''.'' ls"
proof (induction ls rule: rev_induct)
  case (snoc l ls)
  have l: "l \<noteq> []" "last l \<noteq> CHR ''.''"
    using snoc.prems by (auto simp: label_ok_def dest: last_in_set)
  have "trim_end_matches (CHR ''.'') (dotted (ls @ [l])) = trim_end_matches (CHR ''.'') (dotted ls @ l)"
    using trim_end_matches_snoc [of "CHR ''.''" "dotted ls @ l"] by simp
  also have "\<dots> = dotted ls @ l"
    using l by (intro trim_end_matches_id) simp
  also have "\<dots> = join_with ''.'' (ls @ [l])"
  proof (induction ls)
    case (Cons x xs)
    then show ?case by (cases xs) auto
  qed simp
  finally show ?case .
qed (simp add: trim_end_matches_def)

lemma split_join_labels: "ls \<noteq> [] \<Longrightarrow> list_all label_ok ls \<Longrightarrow> split_char (CHR ''.'') (join_with ''.'' ls) = ls"
  by (rule split_join) (auto dest: labels_okD)

lemma filter_nonempty_labels: "list_all label_ok ls \<Longrightarrow> filter (\<lambda>l. l \<noteq> []) ls = ls"
  by (auto simp: list_all_iff label_ok_def intro: filter_True)

lemma count_labels_fq: "list_all label_ok ls \<Longrightarrow> count_labels (fq ls) = length ls"
proof (cases "ls = []")
  case True
  then show ?thesis by (simp add: count_labels_def fq_def trim_end_matches_def)
next
  case False
  assume "list_all label_ok ls"
  with False show ?thesis
    by (simp add: count_labels_def fq_def trim_end_dotted split_join_labels filter_nonempty_labels)
qed

lemma join_labels_dotted: "list_all label_ok ls \<Longrightarrow> join_labels ls = dotted ls"
  by (induction ls) (auto simp: label_ok_def)

lemma trim_start_fq: "list_all label_ok zs \<Longrightarrow> zs \<noteq> [] \<Longrightarrow> trim_start_matches (CHR ''.'') (dotted zs) = dotted zs"
  by (cases zs; cases "hd zs") (auto simp: trim_start_matches_def label_ok_def)

lemma join_fq:
  assumes "list_all label_ok ls" and "list_all label_ok zs"
  shows "join ls (fq zs) = fq (ls @ zs)"
proof (cases "zs = []")
  case True
  with assms show ?thesis by (simp add: join_def Let_def fq_def join_labels_dotted)
next
  case False
  with assms show ?thesis
    using dotted_eq_dot [OF assms(2)] ends_with_dot_dotted [of "ls @ zs"]
    by (simp add: join_def Let_def fq_def join_labels_dotted trim_start_fq)
qed

lemma join_with_snoc_dotted: "ps \<noteq> [] \<Longrightarrow> join_with ''.'' ps @ ''.'' = dotted ps"
proof (induction ps)
  case (Cons x xs)
  then show ?case by (cases xs) auto
qed simp

lemma lower_join_with [simp]: "to_ascii_lowercase (join_with ''.'' ps) = join_with ''.'' (lower_labels ps)"
  by (induction "''.''" ps rule: join_with.induct) auto

lemma trim_zone_fq:
  assumes p: "list_all label_ok ps" and z: "list_all label_ok zs"
    and lp: "lower_labels ps = ps" and lz: "lower_labels zs = zs"
  shows "trim_zone (fq (ps @ zs)) (fq zs) = Some (join_with ''.'' ps)"
proof -
  have sub: "is_subdomain (fq zs) (fq (ps @ zs))"
    using p z lp lz by (simp add: is_subdomain_fq suffix_def)
  show ?thesis
  proof (cases "zs = []")
    case True
    have "trim_end_matches (CHR ''.'') ''.'' = []" by (simp add: trim_end_matches_def)
    with True p show ?thesis
      by (cases "ps = []") (auto simp: trim_zone_def fq_def trim_end_dotted)
  next
    case False
    show ?thesis
    proof (cases "ps = []")
      case True
      with False z lz show ?thesis by (simp add: trim_zone_def Let_def)
    next
      case pne: False
      have neq: "fq (ps @ zs) \<noteq> fq zs"
        using fq_inj [of "ps @ zs" zs] p z pne by auto
      have "fq (ps @ zs) = join_with ''.'' ps @ ''.'' @ fq zs"
        using False join_with_snoc_dotted [OF pne] by (simp add: fq_def)
      then show ?thesis
        using sub neq False z lp lz by (simp add: trim_zone_def Let_def)
    qed
  qed
qed

section \<open>Reverse names\<close>

lemma u8_less [simp]: "unat (b :: u8) < 256"
  using unsigned_less [of b] by simp

lemma u8_mask: "b AND 15 = take_bit 4 (b :: u8)"
  by (simp add: take_bit_eq_mask mask_eq_exp_minus_1)

lemma nibble_bounds: "unat (b AND 15 :: u8) < 16" "unat (drop_bit 4 b :: u8) < 16"
proof -
  have "unat (take_bit 4 b) = take_bit 4 (unat b)" by (rule unsigned_take_bit_eq)
  then show "unat (b AND 15 :: u8) < 16" by (simp add: u8_mask take_bit_eq_mod)
  have "unat (drop_bit 4 b) = drop_bit 4 (unat b)" by (rule unat_drop_bit_eq)
  also have "\<dots> = unat b div 16" by (simp add: drop_bit_eq_div)
  also have "\<dots> < 16" using u8_less [of b] by (simp add: less_mult_imp_div_less)
  finally show "unat (drop_bit 4 b :: u8) < 16" .
qed

lemma nibbles_join: "push_bit 4 (drop_bit 4 b) OR (b AND 15) = (b :: u8)"
  unfolding u8_mask
  by (rule bit_word_eqI) (auto simp: bit_or_iff bit_push_bit_iff bit_drop_bit_eq bit_take_bit_iff not_less)

lemma hex_val_digit_char: "n < 16 \<Longrightarrow> hex_val (digit_char n) = Some n"
  by (auto simp: hex_val_def digit_char_def Let_def)

lemma parse_hex_nibble: "n < 16 \<Longrightarrow> parse_hex_u8 [digit_char n] = Some n"
proof -
  assume n: "n < 16"
  have "digit_char n \<noteq> CHR ''+''"
    using hex_val_digit_char [OF n] by (auto simp: hex_val_def)
  then show ?thesis
    using n by (simp add: parse_hex_u8_def unplus_def digit_of_def hex_val_digit_char digits_val_def Let_def)
qed

lemma digit_char_no_dot: "n < 16 \<Longrightarrow> digit_char n \<noteq> CHR ''.''"
  using hex_val_digit_char [of n] by (auto simp: hex_val_def)

lemma digit_char_lower: "n < 16 \<Longrightarrow> ascii_lower (digit_char n) = digit_char n"
  by (auto simp: ascii_lower_def is_ascii_upper_def digit_char_def)

definition nibble_parts :: "u8 list \<Rightarrow> string list" where
  "nibble_parts os = concat (map (\<lambda>b. [show_nibble (b AND 15), show_nibble (drop_bit 4 b)]) os)"

lemma nibble_parts_simps [simp]:
  "nibble_parts [] = []"
  "nibble_parts (b # bs) = show_nibble (b AND 15) # show_nibble (drop_bit 4 b) # nibble_parts bs"
  "nibble_parts (as @ bs) = nibble_parts as @ nibble_parts bs"
  by (simp_all add: nibble_parts_def)

lemma nibble_parts_length: "length (nibble_parts os) = 2 * length os"
  by (induction os) auto

lemma label_ok_nibble: "unat b < 16 \<Longrightarrow> label_ok (show_nibble b)"
  using digit_char_no_dot [of "unat b"] by (auto simp: show_nibble_def label_ok_def)

lemma nibble_parts_ok: "list_all label_ok (nibble_parts os)"
  by (induction os) (auto simp: label_ok_nibble nibble_bounds)

lemma nibble_parts_lower: "lower_labels (nibble_parts os) = nibble_parts os"
  by (induction os) (auto simp: show_nibble_def digit_char_lower nibble_bounds)

lemma parse_nibble_parts:
  "opt_traverse (\<lambda>p. Option.bind (parse_hex_u8 p) (\<lambda>v. if length p \<noteq> 1 then None else Some v)) (rev (nibble_parts (rev os)))
     = Some (concat (map (\<lambda>b. [unat (drop_bit 4 b), unat (b AND 15)]) os))"
  by (induction os) (simp_all add: show_nibble_def parse_hex_nibble nibble_bounds)

lemma pair_nibbles_octets:
  "pair_nibbles (map of_nat (concat (map (\<lambda>b. [unat (drop_bit 4 b), unat (b AND 15)]) os))) = os"
  by (induction os) (auto simp: nibbles_join)

lemma extract_reverse_v6:
  assumes "length o6 = 16"
  shows "extract_address_from_reverse (reverse_name_str (V6 o6)) = Some (V6 o6)"
proof -
  let ?parts = "nibble_parts (rev o6)"
  have r: "reverse_name_str (V6 o6) = join_with ''.'' ?parts @ ''.ip6.arpa.''"
    by (simp add: nibble_parts_def)
  have low: "to_ascii_lowercase (reverse_name_str (V6 o6)) = join_with ''.'' ?parts @ ''.ip6.arpa.''"
    unfolding r by (simp add: nibble_parts_lower ascii_lower_def is_ascii_upper_def)
  have no4: "strip_suffix (join_with ''.'' ?parts @ ''.ip6.arpa.'') ''.in-addr.arpa.'' = None"
    by (auto simp: strip_suffix_def ends_with_iff dest!: arg_cong [of _ _ rev])
  have ne: "?parts \<noteq> []" using assms nibble_parts_length [of "rev o6"] by auto
  show ?thesis
    unfolding extract_address_from_reverse_def Let_def low no4
    using ne assms
    by (simp add: split_join_labels nibble_parts_ok nibble_parts_length parse_nibble_parts pair_nibbles_octets
        del: One_nat_def)
qed

lemma extract_reverse_v4:
  assumes "length o4 = 4"
  shows "extract_address_from_reverse (reverse_name_str (V4 o4)) = Some (V4 o4)"
proof -
  obtain a b c d where o4: "o4 = [a, b, c, d]"
    using assms by (auto simp: numeral_eq_Suc length_Suc_conv)
  let ?parts = "map (\<lambda>x. show_nat (unat x)) [d, c, b, a]"
  have r: "reverse_name_str (V4 o4) = join_with ''.'' ?parts @ ''.in-addr.arpa.''"
    by (simp add: o4 numeral_eq_Suc)
  have low: "to_ascii_lowercase (reverse_name_str (V4 o4)) = join_with ''.'' ?parts @ ''.in-addr.arpa.''"
    unfolding r by (simp add: ascii_lower_def is_ascii_upper_def)
  have b: "\<And>x :: u8. unat x \<le> 255" using u8_less by (simp add: less_Suc_eq_le [symmetric])
  have sp: "split_char (CHR ''.'') (join_with ''.'' ?parts) = ?parts"
    by (rule split_join) auto
  have "opt_traverse parse_u8 (rev ?parts) = Some (map unat [a, b, c, d])"
    by (simp add: b)
  then show ?thesis
    unfolding extract_address_from_reverse_def Let_def low strip_suffix_append option.case sp
    by (simp add: o4)
qed

section \<open>Records and TTLs\<close>

lemma dedup_loop_keys: "f ` set (dedup_loop f seen rs) = f ` set rs - seen"
  by (induction rs arbitrary: seen) auto

lemma dedup_loop_distinct: "distinct (map f (dedup_loop f seen rs))"
proof (induction rs arbitrary: seen)
  case (Cons r rs)
  then show ?case using dedup_loop_keys [of f "insert (f r) seen" rs] by auto
qed simp

lemma dedup_loop_subseq: "subseq (dedup_loop f seen rs) rs"
  by (induction rs arbitrary: seen) auto

section \<open>Properties\<close>

text \<open>C39: On fully qualified names made of well-formed labels, \<open>is_subdomain\<close> is the label-wise suffix
  order up to ASCII case: a name is below a zone exactly when the zone's labels end the name's
  labels. A mere textual suffix that cuts a label in two is not accepted.\<close>

theorem is_subdomain_iff_label_suffix:
  assumes "list_all label_ok zs" and "list_all label_ok ns"
  shows "is_subdomain (fq zs) (fq ns) \<longleftrightarrow> suffix (lower_labels zs) (lower_labels ns)"
  using assms by (rule is_subdomain_fq)

theorem is_subdomain_iff_label_suffix_witness:
  "is_subdomain ''example.org.'' ''www.EXAMPLE.org.'' \<and> \<not> is_subdomain ''example.org.'' ''notexample.org.''"
proof -
  let ?z = "[''example'', ''org'']" and ?a = "[''www'', ''EXAMPLE'', ''org'']" and ?b = "[''notexample'', ''org'']"
  have "list_all label_ok ?z" "list_all label_ok ?a" "list_all label_ok ?b" by code_simp+
  moreover have "suffix (lower_labels ?z) (lower_labels ?a)" "\<not> suffix (lower_labels ?z) (lower_labels ?b)" by code_simp+
  moreover have "fq ?z = ''example.org.''" "fq ?a = ''www.EXAMPLE.org.''" "fq ?b = ''notexample.org.''" by code_simp+
  ultimately show ?thesis using is_subdomain_iff_label_suffix [of ?z ?a] is_subdomain_iff_label_suffix [of ?z ?b] by simp
qed

text \<open>Splitting a name at its zone and joining it again is the identity: for a name whose labels are
  \<open>ps\<close> below the zone \<open>zs\<close>, \<open>trim_zone\<close> finds the relative part, and \<open>join\<close> of its labels
  with the zone gives the name back.\<close>

lemma trim_zone_join:
  assumes "list_all label_ok ps" "list_all label_ok zs" "lower_labels ps = ps" "lower_labels zs = zs" "ps \<noteq> []"
  shows "\<exists>rel. trim_zone (fq (ps @ zs)) (fq zs) = Some rel \<and> join (split_char (CHR ''.'') rel) (fq zs) = fq (ps @ zs)"
  using assms by (simp add: trim_zone_fq split_join_labels join_fq)

text \<open>Reverse names round trip: the address read back from the reverse name of any IPv4 or IPv6
  address is that address.\<close>

lemma reverse_name_roundtrip:
  assumes "ip_wf ip"
  shows "extract_address_from_reverse (reverse_name_str ip) = Some ip"
  using assms extract_reverse_v4 extract_reverse_v6 by (cases ip) (auto simp del: reverse_name_str.simps)

end
