(* ===== verification/Request.thy ===== *)
theory Request
  imports Dnsutil
begin

text \<open>
  A query on its way through a plugin chain, \<open>src/plugin/request.rs\<close>. Instants are natural
  numbers (nanoseconds). A metadata value is the string its closure yields. The typed bag
  \<open>Extensions\<close> is left out: no modelled plugin stores into it.

  Shown here: the cached name is the name of the current question in every state the operations
  reach (\<open>name_cache_ok\<close>), replies carry the query's id and question, and the size a client can
  take is at least 512 octets.
\<close>

datatype proto = Udp | Tcp | Tls | Https | Quic | Grpc

fun proto_as_str :: "proto \<Rightarrow> string" where
  "proto_as_str Udp = ''udp''"
| "proto_as_str Tcp = ''tcp''"
| "proto_as_str Tls = ''tcp-tls''"
| "proto_as_str Https = ''https''"
| "proto_as_str Quic = ''quic''"
| "proto_as_str Grpc = ''grpc''"

definition is_stream :: "proto \<Rightarrow> bool" where
  "is_stream p \<longleftrightarrow> p \<noteq> Udp"

type_synonym metadata = "string \<rightharpoonup> string"

definition set_static :: "string \<Rightarrow> string \<Rightarrow> metadata \<Rightarrow> metadata" where
  "set_static label v md = md(label \<mapsto> v)"

record http_info =
  hi_method :: string
  hi_path :: string
  hi_host :: string
  hi_user_agent :: string

record request =
  rq_msg :: message
  rq_remote :: socket_addr
  rq_local :: socket_addr
  rq_proto :: proto
  rq_start :: nat
  rq_server :: string
  rq_zone :: string
  rq_view :: string
  rq_metadata :: metadata
  rq_deadline :: "nat option"
  rq_tls_server_name :: "string option"
  rq_http :: "http_info option"
  rq_tsig_verified :: "dname option"
  rq_lookup_depth :: nat
  rq_raw :: "u8 list option"
  rq_name_cache :: "string option"

definition request_new :: "nat \<Rightarrow> message \<Rightarrow> socket_addr \<Rightarrow> socket_addr \<Rightarrow> proto \<Rightarrow> request" where
  "request_new now m remote loc pr =
     \<lparr>rq_msg = m,
      rq_remote = \<lparr>sa_ip = to_canonical (sa_ip remote), sa_port = sa_port remote\<rparr>,
      rq_local = \<lparr>sa_ip = to_canonical (sa_ip loc), sa_port = sa_port loc\<rparr>,
      rq_proto = pr, rq_start = now, rq_server = [], rq_zone = [], rq_view = [],
      rq_metadata = Map.empty, rq_deadline = None, rq_tls_server_name = None, rq_http = None,
      rq_tsig_verified = None, rq_lookup_depth = 0, rq_raw = None, rq_name_cache = None\<rparr>"

definition name_uncached :: "request \<Rightarrow> string" where
  "name_uncached r =
     (case first (m_queries (rq_msg r)) of
        Some q \<Rightarrow> (let s = to_ascii_lowercase (q_name q) in if \<not> ends_with s ''.'' then s @ ''.'' else s)
      | None \<Rightarrow> ''.'')"

definition req_name :: "request \<Rightarrow> string \<times> request" where
  "req_name r =
     (case rq_name_cache r of
        Some n \<Rightarrow> (n, r)
      | None \<Rightarrow> (let n = name_uncached r in (n, r\<lparr>rq_name_cache := Some n\<rparr>)))"

definition clear_name_cache :: "request \<Rightarrow> request" where
  "clear_name_cache r = r\<lparr>rq_name_cache := None\<rparr>"

definition qname :: "request \<Rightarrow> dname" where
  "qname r = (case first (m_queries (rq_msg r)) of Some q \<Rightarrow> q_name q | None \<Rightarrow> ''.'')"

definition qtype :: "request \<Rightarrow> rtype" where
  "qtype r = (case first (m_queries (rq_msg r)) of Some q \<Rightarrow> q_type q | None \<Rightarrow> RT_ZERO)"

definition qclass :: "request \<Rightarrow> dclass" where
  "qclass r = (case first (m_queries (rq_msg r)) of Some q \<Rightarrow> q_class q | None \<Rightarrow> DC_IN)"

definition req_ip :: "request \<Rightarrow> ip_addr" where
  "req_ip r = sa_ip (rq_remote r)"

definition req_port :: "request \<Rightarrow> nat" where
  "req_port r = sa_port (rq_remote r)"

definition local_ip :: "request \<Rightarrow> ip_addr" where
  "local_ip r = sa_ip (rq_local r)"

definition local_port :: "request \<Rightarrow> nat" where
  "local_port r = sa_port (rq_local r)"

definition family :: "request \<Rightarrow> nat" where
  "family r = (case sa_ip (rq_remote r) of V4 _ \<Rightarrow> 1 | V6 _ \<Rightarrow> 2)"

definition do_bit :: "request \<Rightarrow> bool" where
  "do_bit r = (case m_edns (rq_msg r) of Some e \<Rightarrow> ed_dnssec_ok e | None \<Rightarrow> False)"

definition has_edns :: "request \<Rightarrow> bool" where
  "has_edns r \<longleftrightarrow> m_edns (rq_msg r) \<noteq> None"

definition req_size :: "request \<Rightarrow> nat" where
  "req_size r =
     (if is_stream (rq_proto r) then 65535
      else (case m_edns (rq_msg r) of
          Some e \<Rightarrow> if ed_max_payload e < 512 then 512 else unat (ed_max_payload e)
        | None \<Rightarrow> 512))"

definition proto_str :: "request \<Rightarrow> string" where
  "proto_str r = proto_as_str (rq_proto r)"

definition req_matches :: "request \<Rightarrow> message \<Rightarrow> bool" where
  "req_matches r reply =
     (if m_id reply \<noteq> m_id (rq_msg r) then False
      else if m_type reply \<noteq> MtResponse then False
      else (case (first (m_queries (rq_msg r)), first (m_queries reply)) of
          (Some q, Some a) \<Rightarrow> q_type q = q_type a \<and> q_class q = q_class a
             \<and> to_ascii_lowercase (q_name q) = to_ascii_lowercase (q_name a)
        | (None, None) \<Rightarrow> True
        | _ \<Rightarrow> False))"

definition set_edns0 :: "request \<Rightarrow> message \<Rightarrow> message" where
  "set_edns0 r m =
     (case m_edns (rq_msg r) of
        Some q \<Rightarrow> m\<lparr>m_edns := Some (edns_new\<lparr>ed_max_payload := UDP_BUFFER_SIZE,
                     ed_dnssec_ok := ed_dnssec_ok q, ed_version := 0\<rparr>)\<rparr>
      | None \<Rightarrow> m)"

definition new_reply :: "request \<Rightarrow> message" where
  "new_reply r =
     (let m0 = message_new\<lparr>m_id := m_id (rq_msg r), m_type := MtResponse, m_opcode := m_opcode (rq_msg r),
                 m_recursion_desired := m_recursion_desired (rq_msg r),
                 m_checking_disabled := m_checking_disabled (rq_msg r), m_rcode := NoError\<rparr>;
          m1 = (case first (m_queries (rq_msg r)) of Some q \<Rightarrow> add_query q m0 | None \<Rightarrow> m0)
      in set_edns0 r m1)"

definition error_response :: "request \<Rightarrow> rcode \<Rightarrow> message" where
  "error_response r rc = (new_reply r)\<lparr>m_rcode := rc\<rparr>"

definition is_cancelled :: "nat \<Rightarrow> request \<Rightarrow> bool" where
  "is_cancelled now r = (case rq_deadline r of Some d \<Rightarrow> d \<le> now | None \<Rightarrow> False)"

definition shallow_clone :: "nat \<Rightarrow> request \<Rightarrow> request" where
  "shallow_clone now r =
     (request_new now (rq_msg r) (rq_remote r) (rq_local r) (rq_proto r))
       \<lparr>rq_start := rq_start r, rq_server := rq_server r, rq_zone := rq_zone r, rq_view := rq_view r,
        rq_metadata := rq_metadata r, rq_deadline := rq_deadline r,
        rq_tls_server_name := rq_tls_server_name r, rq_http := rq_http r,
        rq_tsig_verified := rq_tsig_verified r, rq_lookup_depth := rq_lookup_depth r\<rparr>"

text \<open>\<open>new_with_question\<close>: the random id is an argument.\<close>

definition new_with_question :: "nat \<Rightarrow> u16 \<Rightarrow> request \<Rightarrow> dname \<Rightarrow> rtype \<Rightarrow> request" where
  "new_with_question now rid r name qt =
     (let m0 = add_query \<lparr>q_name = name, q_type = qt, q_class = DC_IN\<rparr>
                 (message_new\<lparr>m_id := rid, m_recursion_desired := True\<rparr>);
          m1 = (case m_edns (rq_msg r) of
                  Some e \<Rightarrow> m0\<lparr>m_edns := Some (edns_new\<lparr>ed_max_payload := ed_max_payload e,
                              ed_dnssec_ok := ed_dnssec_ok e\<rparr>)\<rparr>
                | None \<Rightarrow> m0)
      in (request_new now m1 (rq_remote r) (rq_local r) (rq_proto r))
           \<lparr>rq_server := rq_server r, rq_zone := rq_zone r, rq_view := rq_view r,
            rq_deadline := rq_deadline r, rq_lookup_depth := rq_lookup_depth r\<rparr>)"

section \<open>The name cache\<close>

definition name_cache_ok :: "request \<Rightarrow> bool" where
  "name_cache_ok r \<longleftrightarrow> (\<forall>n. rq_name_cache r = Some n \<longrightarrow> n = name_uncached r)"

lemma name_cache_ok_new [simp]: "name_cache_ok (request_new now m rem loc pr)"
  by (simp add: name_cache_ok_def request_new_def)

lemma req_name_ok: "name_cache_ok r \<Longrightarrow> fst (req_name r) = name_uncached r"
  by (auto simp: name_cache_ok_def req_name_def Let_def split: option.splits)

lemma name_cache_ok_req_name: "name_cache_ok r \<Longrightarrow> name_cache_ok (snd (req_name r))"
  by (auto simp: name_cache_ok_def req_name_def name_uncached_def Let_def split: option.splits)

lemma name_cache_ok_clear: "name_cache_ok (clear_name_cache r)"
  by (simp add: name_cache_ok_def clear_name_cache_def)

lemma name_cache_ok_shallow_clone: "name_cache_ok (shallow_clone now r)"
  by (simp add: name_cache_ok_def shallow_clone_def request_new_def)

lemma name_cache_ok_new_with_question: "name_cache_ok (new_with_question now rid r n t)"
  by (simp add: name_cache_ok_def new_with_question_def request_new_def Let_def)

lemma req_name_frame [simp]:
  "rq_msg (snd (req_name r)) = rq_msg r" "rq_remote (snd (req_name r)) = rq_remote r"
  "rq_proto (snd (req_name r)) = rq_proto r" "rq_deadline (snd (req_name r)) = rq_deadline r"
  by (simp_all add: req_name_def Let_def split: option.splits)

lemma name_uncached_ends_with_dot: "ends_with (name_uncached r) ''.''"
  by (auto simp: name_uncached_def Let_def ends_with_def split: option.splits)

lemma name_uncached_lower [simp]: "to_ascii_lowercase (name_uncached r) = name_uncached r"
  by (auto simp: name_uncached_def Let_def split: option.splits)

section \<open>Replies\<close>

lemma new_reply_fields [simp]:
  "m_id (new_reply r) = m_id (rq_msg r)"
  "m_type (new_reply r) = MtResponse"
  "m_opcode (new_reply r) = m_opcode (rq_msg r)"
  "m_rcode (new_reply r) = NoError"
  "m_answers (new_reply r) = []"
  "m_name_servers (new_reply r) = []"
  "m_additionals (new_reply r) = []"
  "m_authoritative (new_reply r) = False"
  "m_truncated (new_reply r) = False"
  "m_recursion_desired (new_reply r) = m_recursion_desired (rq_msg r)"
  "m_checking_disabled (new_reply r) = m_checking_disabled (rq_msg r)"
  by (auto simp: new_reply_def set_edns0_def message_defs Let_def split: option.splits)

lemma new_reply_queries: "m_queries (new_reply r) = take 1 (m_queries (rq_msg r))"
  by (cases "m_queries (rq_msg r)")
    (auto simp: new_reply_def set_edns0_def message_defs Let_def split: option.splits)

lemma new_reply_matches: "req_matches r (new_reply r)"
  by (cases "m_queries (rq_msg r)") (auto simp: req_matches_def new_reply_queries)

lemma new_reply_edns: "m_edns (new_reply r) \<noteq> None \<longleftrightarrow> has_edns r"
  by (auto simp: new_reply_def set_edns0_def message_defs has_edns_def Let_def split: option.splits)

lemma req_size_bounds: "512 \<le> req_size r \<and> req_size r \<le> 65535"
proof -
  have "unat p \<le> 65535" for p :: u16 using unsigned_less [of p] by (simp add: less_Suc_eq_le [symmetric])
  moreover have "512 \<le> unat p" if "\<not> p < 512" for p :: u16
    using that by (simp add: word_less_nat_alt)
  ultimately show ?thesis by (auto simp: req_size_def split: option.splits)
qed

section \<open>Example requests\<close>

text \<open>A query from a UDP client, the input of the examples.\<close>

definition query_for :: "string \<Rightarrow> rtype \<Rightarrow> request" where
  "query_for n t = request_new 0
     (message_new\<lparr>m_id := 7, m_queries := [\<lparr>q_name = n, q_type = t, q_class = DC_IN\<rparr>]\<rparr>)
     \<lparr>sa_ip = V4 [192, 0, 2, 1], sa_port = 4000\<rparr> \<lparr>sa_ip = V4 [192, 0, 2, 53], sa_port = 53\<rparr> Udp"

lemma query_for_msg [simp]:
  "m_queries (rq_msg (query_for n t)) = [\<lparr>q_name = n, q_type = t, q_class = DC_IN\<rparr>]"
  "m_edns (rq_msg (query_for n t)) = None" "m_id (rq_msg (query_for n t)) = 7"
  by (simp_all add: query_for_def request_new_def message_new_def)

lemma query_for_name:
  "req_name (query_for n t) = (let k = to_ascii_lowercase n; m = (if \<not> ends_with k ''.'' then k @ ''.'' else k) in
     (m, (query_for n t)\<lparr>rq_name_cache := Some m\<rparr>))"
  by (simp add: req_name_def query_for_def request_new_def name_uncached_def message_new_def Let_def)

lemma query_for_cached [simp]: "qtype ((query_for n t)\<lparr>rq_name_cache := c\<rparr>) = t" "qname ((query_for n t)\<lparr>rq_name_cache := c\<rparr>) = n"
  by (simp_all add: qtype_def qname_def)

end
