(* ===== verification/Chain.thy ===== *)
theory Chain
  imports Request
begin

text \<open>
  The plugin contract, \<open>src/plugin/mod.rs\<close>: replies, errors, the chain cursor and zone matching.

  A handler's \<open>serve_dns\<close> is a function of the request, the rest of the chain and the state
  \<open>'s\<close> shared by the plugins of the chain; it returns its outcome, the request as the handler
  left it and the new state. A Rust panic inside a plugin is the outcome \<open>Panicked\<close>.
\<close>

datatype reply = RMsg message | RRcode rcode | RDrop | RMulti "message list"

fun reply_rcode :: "reply \<Rightarrow> rcode" where
  "reply_rcode (RMsg m) = m_rcode m"
| "reply_rcode (RRcode r) = r"
| "reply_rcode RDrop = NoError"
| "reply_rcode (RMulti v) = (case first v of Some m \<Rightarrow> m_rcode m | None \<Rightarrow> NoError)"

fun reply_msg :: "reply \<Rightarrow> message option" where
  "reply_msg (RMsg m) = Some m"
| "reply_msg (RMulti v) = first v"
| "reply_msg _ = None"

text \<open>\<open>msg_mut\<close>, as the update it allows on the message inside the reply.\<close>

fun reply_map_msg :: "(message \<Rightarrow> message) \<Rightarrow> reply \<Rightarrow> reply" where
  "reply_map_msg f (RMsg m) = RMsg (f m)"
| "reply_map_msg f (RMulti (m # ms)) = RMulti (f m # ms)"
| "reply_map_msg f r = r"

lemma reply_map_msg_RMsg [simp]: "reply_map_msg f r = RMsg m \<longleftrightarrow> (\<exists>m0. r = RMsg m0 \<and> m = f m0)"
  by (cases "(f, r)" rule: reply_map_msg.cases) auto

record plugin_error =
  pe_plugin :: string
  pe_rcode :: rcode
  pe_source :: string

definition plugin_error_new :: "string \<Rightarrow> string \<Rightarrow> plugin_error" where
  "plugin_error_new p src = \<lparr>pe_plugin = p, pe_rcode = ServFail, pe_source = src\<rparr>"

definition with_rcode :: "rcode \<Rightarrow> plugin_error \<Rightarrow> plugin_error" where
  "with_rcode rc e = e\<lparr>pe_rcode := rc\<rparr>"

datatype outcome = Replied reply | Failed plugin_error | Panicked string

type_synonym 's served = "outcome \<times> request \<times> 's"

record 's next_plugin =
  nx_names :: "string list"
  nx_serve :: "request \<Rightarrow> 's \<Rightarrow> 's served"

type_synonym 's handler = "request \<Rightarrow> 's next_plugin \<Rightarrow> 's \<Rightarrow> 's served"

text \<open>\<open>Next::new\<close> and \<open>Next::serve\<close>: the cursor over a chain of named handlers.\<close>

fun next_of :: "(string \<times> 's handler) list \<Rightarrow> 's next_plugin" where
  "next_of [] = \<lparr>nx_names = [], nx_serve = (\<lambda>req s.
     (Failed (plugin_error_new ''core'' ''no next plugin found''), req, s))\<rparr>"
| "next_of ((n, h) # rest) =
     \<lparr>nx_names = n # map fst rest, nx_serve = (\<lambda>req s. h req (next_of rest) s)\<rparr>"

definition next_is_empty :: "'s next_plugin \<Rightarrow> bool" where
  "next_is_empty nx \<longleftrightarrow> nx_names nx = []"

definition next_name :: "'s next_plugin \<Rightarrow> string option" where
  "next_name nx = first (nx_names nx)"

definition next_or_failure :: "string \<Rightarrow> 's next_plugin \<Rightarrow> request \<Rightarrow> 's \<Rightarrow> 's served" where
  "next_or_failure name nx req s =
     (if next_is_empty nx then (Failed (plugin_error_new name ''no next plugin found''), req, s)
      else nx_serve nx req s)"

definition client_write :: "rcode \<Rightarrow> bool" where
  "client_write rc \<longleftrightarrow> rc \<notin> {ServFail, Refused, FormErr, NotImp}"

text \<open>\<open>next.serve(req).await?\<close> followed by work on the reply.\<close>

definition on_reply :: "'s served \<Rightarrow> (reply \<Rightarrow> request \<Rightarrow> 's \<Rightarrow> 's served) \<Rightarrow> 's served" where
  "on_reply sv f = (case sv of (Replied r, req, s) \<Rightarrow> f r req s | _ \<Rightarrow> sv)"

section \<open>Zones\<close>

fun zones_match_loop :: "string option \<Rightarrow> string list \<Rightarrow> string \<Rightarrow> string option" where
  "zones_match_loop best [] name = best"
| "zones_match_loop best (z # zs) name =
     zones_match_loop
       (if is_subdomain z name then
          (case best of Some b \<Rightarrow> if length b \<ge> length z then best else Some z | None \<Rightarrow> Some z)
        else best) zs name"

definition zones_match :: "string list \<Rightarrow> string \<Rightarrow> string option" where
  "zones_match zones name = zones_match_loop None zones name"

definition normalize_zones :: "(string \<Rightarrow> dname res) \<Rightarrow> 'net ipnet_api \<Rightarrow> string list \<Rightarrow> string list res" where
  "normalize_zones from_ascii api zones = try_flat_map (normalize_zone from_ascii api) zones"

definition origins_from_args_or_server_block ::
    "(string \<Rightarrow> dname res) \<Rightarrow> 'net ipnet_api \<Rightarrow> string list \<Rightarrow> string list \<Rightarrow> string list res" where
  "origins_from_args_or_server_block from_ascii api as server_zones =
     (if as = [] then try_flat_map (normalize_zone from_ascii api) server_zones
      else normalize_zones from_ascii api as)"

definition better_zone :: "string \<Rightarrow> string option \<Rightarrow> string \<Rightarrow> string option" where
  "better_zone name best z =
     (if is_subdomain z name then
        (case best of Some b \<Rightarrow> if length b \<ge> length z then best else Some z | None \<Rightarrow> Some z)
      else best)"

lemma zones_match_loop_Cons:
  "zones_match_loop best (z # zs) name = zones_match_loop (better_zone name best z) zs name"
  by (simp add: better_zone_def)

lemma better_zone_None: "better_zone name best z = None \<longleftrightarrow> best = None \<and> \<not> is_subdomain z name"
  by (auto simp: better_zone_def split: option.splits)

lemma better_zone_from:
  "better_zone name best z = Some c \<Longrightarrow> (c = z \<and> is_subdomain z name) \<or> best = Some c"
  by (auto simp: better_zone_def split: option.splits if_splits)

lemma better_zone_grows:
  "best = Some b \<or> (is_subdomain z name \<and> b = z) \<Longrightarrow> \<exists>c. better_zone name best z = Some c \<and> length b \<le> length c"
  by (auto simp: better_zone_def split: option.splits)

lemma zones_match_loop_None:
  "zones_match_loop best zs name = None \<longleftrightarrow> best = None \<and> (\<forall>z \<in> set zs. \<not> is_subdomain z name)"
  by (induction zs arbitrary: best)
    (auto simp: zones_match_loop_Cons better_zone_None simp del: zones_match_loop.simps(2))

lemma zones_match_loop_from:
  "zones_match_loop best zs name = Some z \<Longrightarrow> (z \<in> set zs \<and> is_subdomain z name) \<or> best = Some z"
  by (induction zs arbitrary: best)
    (auto simp: zones_match_loop_Cons simp del: zones_match_loop.simps(2) dest: better_zone_from)

lemma zones_match_loop_longest:
  "zones_match_loop best zs name = Some z \<Longrightarrow>
   best = Some b \<or> (b \<in> set zs \<and> is_subdomain b name) \<Longrightarrow> length b \<le> length z"
proof (induction zs arbitrary: best b)
  case (Cons x zs)
  from Cons.prems(1) have r: "zones_match_loop (better_zone name best x) zs name = Some z"
    by (simp add: zones_match_loop_Cons del: zones_match_loop.simps)
  show ?case
  proof (cases "b \<in> set zs \<and> is_subdomain b name")
    case False
    with Cons.prems(2) obtain c where "better_zone name best x = Some c" "length b \<le> length c"
      using better_zone_grows [of best b x name] by auto
    then show ?thesis using Cons.IH [OF r, of c] by auto
  qed (use Cons.IH [OF r] in blast)
qed simp

lemma zones_match_Some:
  assumes "zones_match zones name = Some z"
  shows "z \<in> set zones" "is_subdomain z name"
    "\<forall>z' \<in> set zones. is_subdomain z' name \<longrightarrow> length z' \<le> length z"
  using assms zones_match_loop_from [of None zones name z] zones_match_loop_longest [of None zones name z]
  by (auto simp: zones_match_def)

lemma zones_match_None: "zones_match zones name = None \<longleftrightarrow> (\<forall>z \<in> set zones. \<not> is_subdomain z name)"
  by (simp add: zones_match_def zones_match_loop_None)

section \<open>The handler contract\<close>

text \<open>
  What the server relies on: a handler never changes the id of the query, and a message it
  answers with carries that id. A chain of handlers that keep the contract keeps it.
\<close>

definition keeps_id :: "(request \<Rightarrow> 's \<Rightarrow> 's served) \<Rightarrow> bool" where
  "keeps_id f \<longleftrightarrow> (\<forall>req s. m_id (rq_msg (fst (snd (f req s)))) = m_id (rq_msg req) \<and>
     (\<forall>m. fst (f req s) = Replied (RMsg m) \<longrightarrow> m_id m = m_id (rq_msg req)))"

lemma keeps_idI:
  assumes "\<And>req s out req' s'. f req s = (out, req', s') \<Longrightarrow> m_id (rq_msg req') = m_id (rq_msg req)"
    and "\<And>req s m req' s'. f req s = (Replied (RMsg m), req', s') \<Longrightarrow> m_id m = m_id (rq_msg req)"
  shows "keeps_id f"
  unfolding keeps_id_def using assms by (metis prod.collapse)

lemma keeps_idD:
  assumes k: "keeps_id f" and f: "f req s = (out, req', s')"
  shows "m_id (rq_msg req') = m_id (rq_msg req)" "out = Replied (RMsg m) \<Longrightarrow> m_id m = m_id (rq_msg req)"
proof -
  note K = k [unfolded keeps_id_def, THEN spec, THEN spec, of req s, unfolded f fst_conv snd_conv]
  show "m_id (rq_msg req') = m_id (rq_msg req)" by (rule K [THEN conjunct1])
  show "m_id m = m_id (rq_msg req)" if "out = Replied (RMsg m)"
    by (rule K [THEN conjunct2, THEN spec, THEN mp, OF that])
qed

lemma keeps_id_next_nil: "keeps_id (nx_serve (next_of []))"
  by (auto simp: keeps_id_def)

locale id_keeping_handler =
  fixes h :: "'s handler"
  assumes keeps: "keeps_id (nx_serve nx) \<Longrightarrow> keeps_id (\<lambda>req s. h req nx s)"
begin

lemma prepend: "keeps_id (nx_serve (next_of chain)) \<Longrightarrow> keeps_id (nx_serve (next_of ((n, h) # chain)))"
  using keeps [of "next_of chain"] by simp

lemma alone: "keeps_id (nx_serve (next_of [(n, h)]))"
  by (rule prepend) (rule keeps_id_next_nil)

end

lemma chain_keeps_id:
  assumes "\<And>n h. (n, h) \<in> set chain \<Longrightarrow> id_keeping_handler h"
  shows "keeps_id (nx_serve (next_of chain))"
  using assms
proof (induction chain)
  case (Cons nh chain)
  obtain n h where nh: "nh = (n, h)" by (cases nh)
  then have "id_keeping_handler h" using Cons.prems by auto
  moreover have "keeps_id (nx_serve (next_of chain))" using Cons by auto
  ultimately show ?case unfolding nh by (rule id_keeping_handler.prepend)
qed (rule keeps_id_next_nil)

end
