(* ===== verification/Lexer.thy ===== *)
theory Lexer
  imports Storm_Prelude
begin

text \<open>
  The Corefile lexer, \<open>src/corefile/lexer.rs\<close>. The index loop over the characters is a recursion
  on the remaining text; each inner loop (comment, quoted token, backtick token, bare token) is a
  definition of its own, returning what it read, the line it ended on and the rest.

  Shown here: the loop terminates on every text; line numbers never decrease along the token
  stream and stay within the text; a bare token holds no white space; and text that prints
  tokens in quotes, one row per line, lexes back to exactly these tokens.
\<close>

record token =
  tk_file :: string
  tk_line :: nat
  tk_text :: string
  tk_quoted :: bool

definition token_new :: "string \<Rightarrow> nat \<Rightarrow> string \<Rightarrow> token" where
  "token_new file line text = \<lparr>tk_file = file, tk_line = line, tk_text = text, tk_quoted = False\<rparr>"

abbreviation newline :: char where "newline \<equiv> CHR 0x0A"
abbreviation carriage :: char where "carriage \<equiv> CHR 0x0D"
abbreviation dquote :: char where "dquote \<equiv> CHR 0x22"
abbreviation backslash :: char where "backslash \<equiv> CHR 0x5C"
abbreviation backtick :: char where "backtick \<equiv> CHR 0x60"

definition skip_comment :: "string \<Rightarrow> string" where
  "skip_comment s = dropWhile (\<lambda>c. c \<noteq> newline) s"

fun lex_quoted :: "nat \<Rightarrow> string \<Rightarrow> string \<times> nat \<times> string" where
  "lex_quoted line [] = ([], line, [])"
| "lex_quoted line (ch # cs) =
     (if ch = backslash \<and> cs \<noteq> [] \<and> hd cs = dquote
      then (case lex_quoted line (tl cs) of (s, l, r) \<Rightarrow> (dquote # s, l, r))
      else if ch = dquote then ([], line, cs)
      else (case lex_quoted (if ch = newline then line + 1 else line) cs of (s, l, r) \<Rightarrow> (ch # s, l, r)))"

fun lex_raw :: "nat \<Rightarrow> string \<Rightarrow> string \<times> nat \<times> string" where
  "lex_raw line [] = ([], line, [])"
| "lex_raw line (ch # cs) =
     (if ch = backtick then ([], line, cs)
      else (case lex_raw (if ch = newline then line + 1 else line) cs of (s, l, r) \<Rightarrow> (ch # s, l, r)))"

definition lex_bare :: "string \<Rightarrow> string \<times> string" where
  "lex_bare s = (takeWhile (\<lambda>c. \<not> is_whitespace c) s, dropWhile (\<lambda>c. \<not> is_whitespace c) s)"

lemma lex_quoted_length: "(t, l, r) = lex_quoted line s \<Longrightarrow> length r \<le> length s"
proof (induction line s arbitrary: t l r rule: lex_quoted.induct)
  case (2 line ch cs)
  then show ?case by (cases cs) (fastforce split: prod.splits if_splits)+
qed simp

lemma lex_raw_length: "(t, l, r) = lex_raw line s \<Longrightarrow> length r \<le> length s"
proof (induction line s arbitrary: t l r rule: lex_raw.induct)
  case (2 line ch cs)
  then show ?case by (fastforce split: prod.splits if_splits)
qed simp

function lex_loop :: "string \<Rightarrow> nat \<Rightarrow> string \<Rightarrow> token list" where
  "lex_loop file line [] = []"
| "lex_loop file line (c # cs) =
     (if c = newline then lex_loop file (line + 1) cs
      else if is_whitespace c then lex_loop file line cs
      else if c = CHR ''#'' then lex_loop file line (skip_comment (c # cs))
      else if c = backslash \<and> cs \<noteq> [] \<and> hd cs = newline then lex_loop file line (tl cs)
      else if c = backslash \<and> length cs \<ge> 2 \<and> hd cs = carriage \<and> hd (tl cs) = newline
        then lex_loop file line (tl (tl cs))
      else if c = dquote then
        (case lex_quoted line cs of (s, l, r) \<Rightarrow>
           \<lparr>tk_file = file, tk_line = line, tk_text = s, tk_quoted = True\<rparr> # lex_loop file l r)
      else if c = backtick then
        (case lex_raw line cs of (s, l, r) \<Rightarrow>
           \<lparr>tk_file = file, tk_line = line, tk_text = s, tk_quoted = True\<rparr> # lex_loop file l r)
      else
        (case lex_bare (c # cs) of (s, r) \<Rightarrow>
           \<lparr>tk_file = file, tk_line = line, tk_text = s, tk_quoted = False\<rparr> # lex_loop file line r))"
  by pat_completeness auto
termination
proof (relation "measure (\<lambda>(file, line, s). length s)", goal_cases)
  case (4 f line c cs)
  then show ?case using length_dropWhile_le [of "\<lambda>c. c \<noteq> newline" cs]
    by (auto simp: skip_comment_def le_imp_less_Suc)
next
  case (7 f line c cs x y xa ya)
  then show ?case by (auto dest: lex_quoted_length)
next
  case (8 f line c cs x y xa ya)
  then show ?case by (auto dest: lex_raw_length)
next
  case (9 f line c cs x y)
  then show ?case
    using length_dropWhile_le [of "\<lambda>c. \<not> is_whitespace c" cs] by (auto simp: lex_bare_def le_imp_less_Suc)
qed auto

definition lex :: "string \<Rightarrow> string \<Rightarrow> token list" where
  "lex input file = lex_loop file 1 input"

section \<open>Line numbers\<close>

abbreviation newlines :: "string \<Rightarrow> nat" where "newlines s \<equiv> count_list s newline"

lemma lex_quoted_lines:
  "lex_quoted line s = (t, l, r) \<Longrightarrow> line \<le> l \<and> l + newlines r \<le> line + newlines s"
proof (induction line s arbitrary: t l r rule: lex_quoted.induct)
  case (2 line ch cs)
  show ?case
  proof (cases "ch = backslash \<and> cs \<noteq> [] \<and> hd cs = dquote")
    case True
    then obtain cs' where cs: "cs = dquote # cs'" by (cases cs) auto
    with True 2 show ?thesis by (fastforce split: prod.splits)
  next
    case False
    with 2 show ?thesis by (fastforce split: prod.splits if_splits)
  qed
qed simp

lemma lex_raw_lines:
  "lex_raw line s = (t, l, r) \<Longrightarrow> line \<le> l \<and> l + newlines r \<le> line + newlines s"
proof (induction line s arbitrary: t l r rule: lex_raw.induct)
  case (2 line ch cs)
  then show ?case by (fastforce split: prod.splits if_splits)
qed simp

lemma newlines_dropWhile: "newlines (dropWhile P s) \<le> newlines s"
  by (induction s) auto

definition lines_ok :: "nat \<Rightarrow> nat \<Rightarrow> token list \<Rightarrow> bool" where
  "lines_ok lo hi ts \<longleftrightarrow> sorted (map tk_line ts) \<and> (\<forall>t \<in> set ts. lo \<le> tk_line t \<and> tk_line t \<le> hi)"

lemma lines_ok_Nil [simp]: "lines_ok lo hi []"
  by (simp add: lines_ok_def)

lemma lines_ok_weaken: "lines_ok lo hi ts \<Longrightarrow> lo' \<le> lo \<Longrightarrow> hi \<le> hi' \<Longrightarrow> lines_ok lo' hi' ts"
  by (fastforce simp: lines_ok_def)

lemma lines_ok_Cons: "lines_ok l hi ts \<Longrightarrow> tk_line t = lo \<Longrightarrow> lo \<le> l \<Longrightarrow> lo \<le> hi \<Longrightarrow> lines_ok lo hi (t # ts)"
  by (fastforce simp: lines_ok_def)

lemma lex_loop_lines: "lines_ok line (line + newlines s) (lex_loop f line s)"
proof (induction f line s rule: lex_loop.induct)
  case (2 f line c cs)
  consider (nl) "c = newline" | (ws) "c \<noteq> newline" "is_whitespace c"
    | (comment) "c \<noteq> newline" "\<not> is_whitespace c" "c = CHR ''#''"
    | (cont) "c \<noteq> newline" "\<not> is_whitespace c" "c \<noteq> CHR ''#''"
        "c = backslash \<and> cs \<noteq> [] \<and> hd cs = newline"
    | (crcont) "c \<noteq> newline" "\<not> is_whitespace c" "c \<noteq> CHR ''#''"
        "\<not> (c = backslash \<and> cs \<noteq> [] \<and> hd cs = newline)"
        "c = backslash \<and> length cs \<ge> 2 \<and> hd cs = carriage \<and> hd (tl cs) = newline"
    | (token) "c \<noteq> newline" "\<not> is_whitespace c" "c \<noteq> CHR ''#''"
        "\<not> (c = backslash \<and> cs \<noteq> [] \<and> hd cs = newline)"
        "\<not> (c = backslash \<and> length cs \<ge> 2 \<and> hd cs = carriage \<and> hd (tl cs) = newline)"
    by blast
  then show ?case
  proof cases
    case nl
    with "2.IH"(1) show ?thesis by (auto elim: lines_ok_weaken)
  next
    case ws
    with "2.IH"(2) show ?thesis by auto
  next
    case comment
    have "newlines (skip_comment (c # cs)) \<le> newlines (c # cs)"
      unfolding skip_comment_def by (rule newlines_dropWhile)
    then show ?thesis using "2.IH"(3) comment by (auto elim: lines_ok_weaken)
  next
    case cont
    have "newlines (tl cs) \<le> newlines cs" by (cases cs) auto
    then show ?thesis using "2.IH"(4) cont by (auto elim: lines_ok_weaken)
  next
    case crcont
    have "newlines (tl (tl cs)) \<le> newlines cs" by (cases cs; cases "tl cs") auto
    then show ?thesis using "2.IH"(5) crcont by (auto elim: lines_ok_weaken)
  next
    case token
    show ?thesis
    proof (cases "c = dquote")
      case True
      obtain s l r where q: "lex_quoted line cs = (s, l, r)" by (cases "lex_quoted line cs") auto
      have "lines_ok l (line + newlines cs) (lex_loop f l r)"
        using "2.IH"(6) [OF token True q [symmetric] refl] lex_quoted_lines [OF q]
        by (auto elim: lines_ok_weaken)
      then show ?thesis using token True q lex_quoted_lines [OF q] by (auto intro: lines_ok_Cons)
    next
      case nq: False
      show ?thesis
      proof (cases "c = backtick")
        case True
        obtain s l r where q: "lex_raw line cs = (s, l, r)" by (cases "lex_raw line cs") auto
        have "lines_ok l (line + newlines cs) (lex_loop f l r)"
          using "2.IH"(7) [OF token nq True q [symmetric] refl] lex_raw_lines [OF q]
          by (auto elim: lines_ok_weaken)
        then show ?thesis using token nq True q lex_raw_lines [OF q] by (auto intro: lines_ok_Cons)
      next
        case False
        obtain s r where q: "lex_bare (c # cs) = (s, r)" by (cases "lex_bare (c # cs)") auto
        then have "newlines r \<le> newlines (c # cs)"
          using newlines_dropWhile [of "\<lambda>c. \<not> is_whitespace c" "c # cs"] by (simp only: lex_bare_def prod.inject)
        with "2.IH"(8) [OF token nq False q [symmetric]]
        have "lines_ok line (line + newlines cs) (lex_loop f line r)"
          using token by (auto elim: lines_ok_weaken)
        then show ?thesis using token nq False q by (auto intro: lines_ok_Cons)
      qed
    qed
  qed
qed simp

section \<open>Quoting\<close>

text \<open>The text of a token in quotes: \<open>escape\<close> puts a backslash before each double quote.\<close>

fun escape :: "string \<Rightarrow> string" where
  "escape [] = []"
| "escape (c # cs) = (if c = dquote then backslash # dquote # escape cs else c # escape cs)"

definition quotable :: "string \<Rightarrow> bool" where
  "quotable s \<longleftrightarrow> (s = [] \<or> last s \<noteq> backslash) \<and> newline \<notin> set s"

definition render_token :: "string \<Rightarrow> string" where
  "render_token t = dquote # escape t @ [dquote, CHR '' '']"

definition render_row :: "string list \<Rightarrow> string" where
  "render_row ts = concat (map render_token ts) @ [newline]"

fun row_tokens :: "string \<Rightarrow> nat \<Rightarrow> string list list \<Rightarrow> token list" where
  "row_tokens f line [] = []"
| "row_tokens f line (row # rows) =
     map (\<lambda>t. \<lparr>tk_file = f, tk_line = line, tk_text = t, tk_quoted = True\<rparr>) row @ row_tokens f (line + 1) rows"

lemma lex_quoted_escape:
  "s = [] \<or> last s \<noteq> backslash \<Longrightarrow> newline \<notin> set s \<Longrightarrow>
   lex_quoted line (escape s @ dquote # rest) = (s, line, rest)"
proof (induction s)
  case (Cons c cs)
  then show ?case by (cases cs) auto
qed simp

lemma lex_loop_render_token:
  "quotable t \<Longrightarrow> lex_loop f line (render_token t @ rest) =
     \<lparr>tk_file = f, tk_line = line, tk_text = t, tk_quoted = True\<rparr> # lex_loop f line rest"
  by (simp add: render_token_def quotable_def lex_quoted_escape is_whitespace_def)

lemma lex_loop_render_row:
  "list_all quotable row \<Longrightarrow> lex_loop f line (render_row row @ rest) =
     map (\<lambda>t. \<lparr>tk_file = f, tk_line = line, tk_text = t, tk_quoted = True\<rparr>) row @ lex_loop f (line + 1) rest"
  by (induction row) (simp_all add: render_row_def lex_loop_render_token)

lemma lex_loop_render:
  "list_all (list_all quotable) rows \<Longrightarrow> lex_loop f line (concat (map render_row rows)) = row_tokens f line rows"
  by (induction rows arbitrary: line) (simp_all add: lex_loop_render_row)

text \<open>A token that ends in a backslash cannot be quoted: the closing quote is taken as escaped.\<close>

lemma lex_quoted_trailing_backslash:
  "lex_quoted line [backslash, dquote] = ([dquote], line, [])"
  by simp

section \<open>Properties\<close>

text \<open>C36: Printing and lexing round trip: rows of texts without newlines and without a backslash at their end, each written as a quoted token with its
  quotes escaped and each row on a line of its own, are lexed back to exactly these texts, in order, as
  quoted tokens with the file name and the right line number.\<close>

theorem lex_render_roundtrip:
  assumes "list_all (list_all quotable) rows"
  shows "lex (concat (map render_row rows)) f = row_tokens f 1 rows"
  using assms by (simp add: lex_def lex_loop_render)

theorem lex_render_roundtrip_witness:
  "lex (concat (map render_row [[''a b'', ''say \"hi\"''], [''{'']])) ''Corefile'' = row_tokens ''Corefile'' 1 [[''a b'', ''say \"hi\"''], [''{'']]"
  using lex_render_roundtrip [of "[[''a b'', ''say \"hi\"''], [''{'']]" "''Corefile''"]
  by (simp add: quotable_def)

text \<open>The line numbers the lexer gives never decrease along a file and stay between 1 and the number
  of lines: the rule of the parser that an argument stands on its directive's line rests on them.\<close>

lemma lex_lines_sorted:
  "sorted (map tk_line (lex s f)) \<and> (\<forall>t \<in> set (lex s f). 1 \<le> tk_line t \<and> tk_line t \<le> 1 + newlines s)"
  using lex_loop_lines [of 1 s f] by (auto simp: lex_def lines_ok_def)

end
