(* ===== verification/Dispenser.thy ===== *)
theory Dispenser
  imports Lexer
begin

text \<open>
  The token cursor of \<open>src/corefile/dispenser.rs\<close> that every plugin's \<open>setup\<close> reads its
  directive through. An operation that moves the cursor returns the moved dispenser next to
  its result. The two places that step the cursor back (\<open>next_block\<close> and
  \<open>remaining_args_until_brace\<close>) do so right after \<open>next_arg\<close> advanced it, so on a started
  dispenser the subtraction does not underflow (\<open>next_arg_advances\<close>).

  Shown here: the cursor invariant, that the tokens are never changed, what the argument
  readers return in terms of the tokens of the current line, that \<open>args\<close> rolls back, and
  when the block walk ends: exactly when a closing brace lies ahead.
\<close>

record dispenser =
  dp_tokens :: "token list"
  dp_cursor :: nat
  dp_nesting :: nat
  dp_started :: bool

definition dispenser_new :: "token list \<Rightarrow> dispenser" where
  "dispenser_new tokens = \<lparr>dp_tokens = tokens, dp_cursor = 0, dp_nesting = 0, dp_started = False\<rparr>"

definition next_tok :: "dispenser \<Rightarrow> bool \<times> dispenser" where
  "next_tok d =
     (if \<not> dp_started d then (dp_tokens d \<noteq> [], d\<lparr>dp_started := True\<rparr>)
      else if dp_cursor d + 1 < length (dp_tokens d) then (True, d\<lparr>dp_cursor := dp_cursor d + 1\<rparr>)
      else (False, d\<lparr>dp_cursor := length (dp_tokens d)\<rparr>))"

definition next_arg :: "dispenser \<Rightarrow> bool \<times> dispenser" where
  "next_arg d =
     (if \<not> dp_started d then next_tok d
      else if dp_cursor d \<ge> length (dp_tokens d) then (False, d)
      else if dp_cursor d + 1 < length (dp_tokens d)
        \<and> tk_line (dp_tokens d ! (dp_cursor d + 1)) = tk_line (dp_tokens d ! dp_cursor d)
        then (True, d\<lparr>dp_cursor := dp_cursor d + 1\<rparr>)
      else (False, d))"

definition next_line :: "dispenser \<Rightarrow> bool \<times> dispenser" where
  "next_line d =
     (if \<not> dp_started d then next_tok d
      else if dp_cursor d \<ge> length (dp_tokens d) then (False, d)
      else if dp_cursor d + 1 < length (dp_tokens d)
        \<and> tk_line (dp_tokens d ! (dp_cursor d + 1)) \<noteq> tk_line (dp_tokens d ! dp_cursor d)
        then (True, d\<lparr>dp_cursor := dp_cursor d + 1\<rparr>)
      else (False, d))"

definition val :: "dispenser \<Rightarrow> string" where
  "val d = (if \<not> dp_started d \<or> dp_cursor d \<ge> length (dp_tokens d) then []
            else tk_text (dp_tokens d ! dp_cursor d))"

definition current :: "dispenser \<Rightarrow> token option" where
  "current d = (if \<not> dp_started d then None
                else if dp_cursor d < length (dp_tokens d) then Some (dp_tokens d ! dp_cursor d) else None)"

definition line_of :: "dispenser \<Rightarrow> nat" where
  "line_of d = (case current d of None \<Rightarrow> 0 | Some t \<Rightarrow> tk_line t)"

definition file_of :: "dispenser \<Rightarrow> string" where
  "file_of d = (case current d of None \<Rightarrow> [] | Some t \<Rightarrow> tk_file t)"

definition next_block :: "dispenser \<Rightarrow> bool \<times> dispenser" where
  "next_block d =
     (if dp_nesting d > 0 then
        (let d1 = snd (next_tok d) in
         if val d1 = ''}'' then (False, d1\<lparr>dp_nesting := dp_nesting d1 - 1\<rparr>) else (True, d1))
      else (case next_arg d of
          (False, d1) \<Rightarrow> (False, d1)
        | (True, d1) \<Rightarrow>
            if val d1 \<noteq> ''{'' then (False, d1\<lparr>dp_cursor := dp_cursor d1 - 1\<rparr>)
            else (let d2 = snd (next_tok d1) in
              if val d2 = ''}'' then (False, d2)
              else (True, d2\<lparr>dp_nesting := dp_nesting d2 + 1\<rparr>))))"

text \<open>\<open>args\<close>: the loop over \<open>0..n\<close> and, on failure, the saved cursor.\<close>

fun args_loop :: "nat \<Rightarrow> dispenser \<Rightarrow> string list \<Rightarrow> (string list \<times> dispenser) option" where
  "args_loop 0 d out = Some (out, d)"
| "args_loop (Suc n) d out =
     (case next_arg d of (False, _) \<Rightarrow> None | (True, d1) \<Rightarrow> args_loop n d1 (out @ [val d1]))"

definition args :: "nat \<Rightarrow> dispenser \<Rightarrow> string list option \<times> dispenser" where
  "args n d = (case args_loop n d [] of None \<Rightarrow> (None, d) | Some (out, d') \<Rightarrow> (Some out, d'))"

definition left_over :: "dispenser \<Rightarrow> nat" where
  "left_over d = length (dp_tokens d) - dp_cursor d + (if dp_started d then 0 else 1)"

lemma next_arg_smaller: "next_arg d = (True, d') \<Longrightarrow> left_over d' < left_over d"
  by (auto simp: next_arg_def next_tok_def left_over_def split: if_splits)

function remaining_args :: "dispenser \<Rightarrow> string list \<times> dispenser" where
  "remaining_args d =
     (case next_arg d of
        (False, d1) \<Rightarrow> ([], d1)
      | (True, d1) \<Rightarrow> (case remaining_args d1 of (out, d2) \<Rightarrow> (val d1 # out, d2)))"
  by pat_completeness auto
termination
  by (relation "measure left_over") (auto simp: next_arg_smaller)

function remaining_args_until_brace :: "dispenser \<Rightarrow> string list \<times> dispenser" where
  "remaining_args_until_brace d =
     (case next_arg d of
        (False, d1) \<Rightarrow> ([], d1)
      | (True, d1) \<Rightarrow>
          if val d1 = ''{'' then ([], d1\<lparr>dp_cursor := dp_cursor d1 - 1\<rparr>)
          else (case remaining_args_until_brace d1 of (out, d2) \<Rightarrow> (val d1 # out, d2)))"
  by pat_completeness auto
termination
  by (relation "measure left_over") (auto simp: next_arg_smaller)

declare remaining_args.simps [simp del] remaining_args_until_brace.simps [simp del]

text \<open>\<open>skip_block\<close> loops until the block is exhausted; it may not return.\<close>

partial_function (option) skip_block :: "dispenser \<Rightarrow> dispenser option" where
  "skip_block d = (let bd = next_block d in if fst bd then skip_block (snd bd) else Some (snd bd))"

text \<open>Error messages.\<close>

definition errf :: "dispenser \<Rightarrow> string \<Rightarrow> err" where
  "errf d msg = file_of d @ '':'' @ show_nat (line_of d) @ '' - Error during parsing: '' @ msg"

definition err_at :: "dispenser \<Rightarrow> string \<Rightarrow> err" where
  "err_at d msg = file_of d @ '':'' @ show_nat (line_of d) @ '' - Error during parsing: '' @ msg
                  @ '' '' @ [CHR 0x27] @ val d @ [CHR 0x27]"

definition arg_err :: "dispenser \<Rightarrow> err" where
  "arg_err d = err_at d ''Wrong argument count or unexpected line ending after''"

definition syntax_err :: "dispenser \<Rightarrow> string \<Rightarrow> err" where
  "syntax_err d expected = file_of d @ '':'' @ show_nat (line_of d) @ '' - Syntax error: Unexpected token ''
     @ [CHR 0x27] @ val d @ [CHR 0x27] @ '', expecting '' @ [CHR 0x27] @ expected @ [CHR 0x27]"

section \<open>The cursor\<close>

definition cursor_ok :: "dispenser \<Rightarrow> bool" where
  "cursor_ok d \<longleftrightarrow> dp_cursor d \<le> length (dp_tokens d) \<and> (\<not> dp_started d \<longrightarrow> dp_cursor d = 0)"

lemmas disp_defs = next_tok_def next_arg_def next_line_def val_def

lemma cursor_ok_new: "cursor_ok (dispenser_new ts)"
  by (simp add: cursor_ok_def dispenser_new_def)

lemma cursor_ok_next_tok: "cursor_ok d \<Longrightarrow> cursor_ok (snd (next_tok d))"
  by (auto simp: cursor_ok_def next_tok_def)

lemma cursor_ok_next_arg: "cursor_ok d \<Longrightarrow> cursor_ok (snd (next_arg d))"
  by (auto simp: cursor_ok_def next_tok_def next_arg_def)

lemma cursor_ok_next_line: "cursor_ok d \<Longrightarrow> cursor_ok (snd (next_line d))"
  by (auto simp: cursor_ok_def next_tok_def next_line_def)

lemma next_arg_advances:
  "dp_started d \<Longrightarrow> next_arg d = (True, d') \<Longrightarrow> d' = d\<lparr>dp_cursor := dp_cursor d + 1\<rparr>
     \<and> dp_cursor d + 1 < length (dp_tokens d)
     \<and> tk_line (dp_tokens d ! (dp_cursor d + 1)) = tk_line (dp_tokens d ! dp_cursor d)"
  by (auto simp: next_arg_def split: if_splits)

lemma next_arg_false: "dp_started d \<Longrightarrow> next_arg d = (False, d') \<Longrightarrow> d' = d"
  by (auto simp: next_arg_def split: if_splits)

lemma cursor_ok_next_block: "dp_started d \<Longrightarrow> cursor_ok d \<Longrightarrow> cursor_ok (snd (next_block d))"
  by (auto simp: next_block_def Let_def cursor_ok_def disp_defs split: prod.splits bool.splits if_splits)

lemma tokens_unchanged [simp]:
  "dp_tokens (snd (next_tok d)) = dp_tokens d"
  "dp_tokens (snd (next_arg d)) = dp_tokens d"
  "dp_tokens (snd (next_line d)) = dp_tokens d"
  by (auto simp: disp_defs)

lemma tokens_next_block [simp]: "dp_tokens (snd (next_block d)) = dp_tokens d"
  by (auto simp: next_block_def Let_def disp_defs split: prod.splits bool.splits if_splits)

section \<open>Arguments of a line\<close>

text \<open>The arguments after the cursor: the following tokens as long as they stay on its line.\<close>

definition line_args :: "dispenser \<Rightarrow> token list" where
  "line_args d =
     (if dp_cursor d < length (dp_tokens d)
      then takeWhile (\<lambda>t. tk_line t = tk_line (dp_tokens d ! dp_cursor d)) (drop (dp_cursor d + 1) (dp_tokens d))
      else [])"

lemma line_args_next_arg:
  assumes "dp_started d"
  shows "next_arg d =
    (case line_args d of [] \<Rightarrow> (False, d) | t # ts \<Rightarrow> (True, d\<lparr>dp_cursor := dp_cursor d + 1\<rparr>))"
proof (cases "dp_cursor d + 1 < length (dp_tokens d)")
  case True
  then have "drop (dp_cursor d + 1) (dp_tokens d) = dp_tokens d ! (dp_cursor d + 1) # drop (dp_cursor d + 2) (dp_tokens d)"
    by (simp add: Cons_nth_drop_Suc)
  with assms True show ?thesis by (auto simp: next_arg_def line_args_def)
next
  case False
  with assms show ?thesis by (auto simp: next_arg_def line_args_def)
qed

lemma line_args_step:
  assumes "line_args d = t # ts" and "dp_started d"
  shows "line_args (d\<lparr>dp_cursor := dp_cursor d + 1\<rparr>) = ts"
    and "val (d\<lparr>dp_cursor := dp_cursor d + 1\<rparr>) = tk_text t"
proof -
  from assms(1) have "drop (dp_cursor d + 1) (dp_tokens d) \<noteq> []"
    by (auto simp: line_args_def simp del: drop_eq_Nil split: if_splits)
  then have lt: "dp_cursor d + 1 < length (dp_tokens d)" by simp
  then have "drop (dp_cursor d + 1) (dp_tokens d) = dp_tokens d ! (dp_cursor d + 1) # drop (dp_cursor d + 2) (dp_tokens d)"
    by (simp add: Cons_nth_drop_Suc)
  with assms lt show "line_args (d\<lparr>dp_cursor := dp_cursor d + 1\<rparr>) = ts"
    and "val (d\<lparr>dp_cursor := dp_cursor d + 1\<rparr>) = tk_text t"
    by (auto simp: line_args_def val_def split: if_splits)
qed

lemma remaining_args_spec:
  "dp_started d \<Longrightarrow> remaining_args d =
     (map tk_text (line_args d), d\<lparr>dp_cursor := dp_cursor d + length (line_args d)\<rparr>)"
proof (induction "line_args d" arbitrary: d)
  case Nil
  then show ?case
    by (subst remaining_args.simps) (simp add: line_args_next_arg flip: Nil.hyps)
next
  case (Cons t ts)
  let ?d = "d\<lparr>dp_cursor := dp_cursor d + 1\<rparr>"
  have step: "line_args ?d = ts" "val ?d = tk_text t"
    using line_args_step [OF Cons.hyps(2) [symmetric] Cons.prems] by auto
  have "remaining_args ?d = (map tk_text ts, ?d\<lparr>dp_cursor := dp_cursor ?d + length ts\<rparr>)"
    using Cons.hyps(1) [of ?d] step Cons.prems by simp
  then show ?case
    using step Cons.prems
    by (subst remaining_args.simps) (simp add: line_args_next_arg flip: Cons.hyps(2))
qed

text \<open>The arguments before an opening brace, which is left unread.\<close>

lemma remaining_args_until_brace_spec:
  "dp_started d \<Longrightarrow> remaining_args_until_brace d =
     (let pre = takeWhile (\<lambda>t. tk_text t \<noteq> ''{'') (line_args d)
      in (map tk_text pre, d\<lparr>dp_cursor := dp_cursor d + length pre\<rparr>))"
proof (induction "line_args d" arbitrary: d)
  case Nil
  then show ?case
    by (subst remaining_args_until_brace.simps) (simp add: line_args_next_arg Let_def flip: Nil.hyps)
next
  case (Cons t ts)
  let ?d = "d\<lparr>dp_cursor := dp_cursor d + 1\<rparr>"
  have step: "line_args ?d = ts" "val ?d = tk_text t"
    using line_args_step [OF Cons.hyps(2) [symmetric] Cons.prems] by auto
  show ?case
  proof (cases "tk_text t = ''{''")
    case True
    then show ?thesis
      using step Cons.prems
      by (subst remaining_args_until_brace.simps) (simp add: line_args_next_arg Let_def flip: Cons.hyps(2))
  next
    case False
    then show ?thesis
      using step Cons.prems Cons.hyps(1) [of ?d]
      by (subst remaining_args_until_brace.simps) (simp add: line_args_next_arg Let_def flip: Cons.hyps(2))
  qed
qed

lemma args_loop_spec:
  "dp_started d \<Longrightarrow> args_loop n d out =
     (if n \<le> length (line_args d)
      then Some (out @ map tk_text (take n (line_args d)), d\<lparr>dp_cursor := dp_cursor d + n\<rparr>) else None)"
proof (induction n arbitrary: d out)
  case (Suc n)
  show ?case
  proof (cases "line_args d")
    case Nil
    with Suc.prems show ?thesis by (simp add: line_args_next_arg)
  next
    case (Cons t ts)
    with Suc line_args_step [OF Cons Suc.prems] show ?thesis by (simp add: line_args_next_arg)
  qed
qed simp

section \<open>Walking a block\<close>

definition brace_ahead :: "dispenser \<Rightarrow> bool" where
  "brace_ahead d \<longleftrightarrow> (\<exists>t \<in> set (drop (dp_cursor d + 1) (dp_tokens d)). tk_text t = ''}'')"

lemma next_block_inside:
  assumes "dp_started d" and "dp_nesting d > 0"
  shows "next_block d =
    (if dp_cursor d + 1 < length (dp_tokens d) then
       (if tk_text (dp_tokens d ! (dp_cursor d + 1)) = ''}''
        then (False, d\<lparr>dp_cursor := dp_cursor d + 1, dp_nesting := dp_nesting d - 1\<rparr>)
        else (True, d\<lparr>dp_cursor := dp_cursor d + 1\<rparr>))
     else (True, d\<lparr>dp_cursor := length (dp_tokens d)\<rparr>))"
  using assms by (simp add: next_block_def next_tok_def val_def Let_def)

lemma brace_ahead_step:
  assumes "dp_cursor d + 1 < length (dp_tokens d)" "tk_text (dp_tokens d ! (dp_cursor d + 1)) \<noteq> ''}''"
  shows "brace_ahead (d\<lparr>dp_cursor := dp_cursor d + 1\<rparr>) \<longleftrightarrow> brace_ahead d"
proof -
  have "drop (dp_cursor d + 1) (dp_tokens d) = dp_tokens d ! (dp_cursor d + 1) # drop (dp_cursor d + 2) (dp_tokens d)"
    using assms(1) by (simp add: Cons_nth_drop_Suc)
  with assms(2) show ?thesis by (simp add: brace_ahead_def)
qed

lemma brace_ahead_lt: "brace_ahead d \<Longrightarrow> dp_cursor d + 1 < length (dp_tokens d)"
  by (rule ccontr) (auto simp: brace_ahead_def)

lemma skip_block_returns:
  assumes "dp_started d" "dp_nesting d > 0" "brace_ahead d"
  shows "\<exists>c. dp_cursor d < c \<and> c < length (dp_tokens d) \<and> tk_text (dp_tokens d ! c) = ''}''
     \<and> (\<forall>i. dp_cursor d < i \<and> i < c \<longrightarrow> tk_text (dp_tokens d ! i) \<noteq> ''}'')
     \<and> skip_block d = Some (d\<lparr>dp_cursor := c, dp_nesting := dp_nesting d - 1\<rparr>)"
  using assms
proof (induction "length (dp_tokens d) - dp_cursor d" arbitrary: d rule: less_induct)
  case less
  let ?d = "d\<lparr>dp_cursor := dp_cursor d + 1\<rparr>"
  have lt: "dp_cursor d + 1 < length (dp_tokens d)" by (rule brace_ahead_lt [OF less.prems(3)])
  show ?case
  proof (cases "tk_text (dp_tokens d ! (dp_cursor d + 1)) = ''}''")
    case True
    then have "skip_block d = Some (d\<lparr>dp_cursor := dp_cursor d + 1, dp_nesting := dp_nesting d - 1\<rparr>)"
      using less.prems lt by (subst skip_block.simps) (simp add: next_block_inside Let_def)
    with True lt show ?thesis by (intro exI [of _ "dp_cursor d + 1"]) auto
  next
    case False
    have "skip_block d = skip_block ?d"
      using less.prems lt False by (subst skip_block.simps) (simp add: next_block_inside Let_def)
    moreover have "brace_ahead ?d" using less.prems brace_ahead_step [OF lt False] by blast
    then obtain c where c: "dp_cursor ?d < c \<and> c < length (dp_tokens ?d) \<and> tk_text (dp_tokens ?d ! c) = ''}''
       \<and> (\<forall>i. dp_cursor ?d < i \<and> i < c \<longrightarrow> tk_text (dp_tokens ?d ! i) \<noteq> ''}'')
       \<and> skip_block ?d = Some (?d\<lparr>dp_cursor := c, dp_nesting := dp_nesting ?d - 1\<rparr>)"
      using less.hyps [of ?d] less.prems lt by force
    moreover have "tk_text (dp_tokens d ! i) \<noteq> ''}''" if "dp_cursor d < i" "i < c" for i
      using c False that by (cases "i = dp_cursor d + 1") auto
    ultimately show ?thesis by (intro exI [of _ c]) auto
  qed
qed

text \<open>Without a closing brace ahead the walk never ends.\<close>

lemma skip_block_diverges:
  assumes "dp_started d" "dp_nesting d > 0" "\<not> brace_ahead d"
  shows "skip_block d = None"
proof (rule ccontr)
  assume "skip_block d \<noteq> None"
  then obtain r where ret: "skip_block d = Some r" by blast
  have "\<not> (dp_started d \<and> dp_nesting d > 0 \<and> \<not> brace_ahead d)"
  proof (rule skip_block.raw_induct [where P = "\<lambda>d r. \<not> (dp_started d \<and> dp_nesting d > 0 \<and> \<not> brace_ahead d)", OF _ ret])
    fix f d r
    assume IH: "\<And>d r. f d = Some r \<Longrightarrow> \<not> (dp_started d \<and> dp_nesting d > 0 \<and> \<not> brace_ahead d)"
      and eq: "(let bd = next_block d in if fst bd then f (snd bd) else Some (snd bd)) = Some r"
    show "\<not> (dp_started d \<and> dp_nesting d > 0 \<and> \<not> brace_ahead d)"
    proof
      assume s: "dp_started d \<and> dp_nesting d > 0 \<and> \<not> brace_ahead d"
      show False
      proof (cases "dp_cursor d + 1 < length (dp_tokens d)")
        case True
        then have t: "tk_text (dp_tokens d ! (dp_cursor d + 1)) \<noteq> ''}''"
          using s Cons_nth_drop_Suc [OF True] by (metis Suc_eq_plus1 brace_ahead_def list.set_intros(1))
        have "f (d\<lparr>dp_cursor := dp_cursor d + 1\<rparr>) = Some r"
          using eq s True t by (simp add: next_block_inside Let_def)
        then show False using IH s brace_ahead_step [OF True t] by fastforce
      next
        case False
        have "f (d\<lparr>dp_cursor := length (dp_tokens d)\<rparr>) = Some r"
          using eq s False by (simp add: next_block_inside Let_def)
        then show False using IH s by (fastforce simp: brace_ahead_def)
      qed
    qed
  qed
  with assms show False by blast
qed

section \<open>Properties\<close>

text \<open>Inside an open block, \<open>skip_block\<close> stops at the next closing brace, having entered no nested
  block, when there is one; and when the tokens hold no further closing brace it never returns, because
  \<open>next_block\<close> keeps answering that there is another line at the end of the tokens.\<close>

lemma skip_block_ends_iff_brace:
  assumes "dp_started d" "dp_nesting d > 0"
  shows "((\<exists>d'. skip_block d = Some d') \<longleftrightarrow> brace_ahead d)
    \<and> (\<forall>d'. skip_block d = Some d' \<longrightarrow>
      dp_cursor d < dp_cursor d' \<and> tk_text (dp_tokens d ! dp_cursor d') = ''}'' \<and> dp_nesting d' = dp_nesting d - 1
      \<and> (\<forall>i. dp_cursor d < i \<and> i < dp_cursor d' \<longrightarrow> tk_text (dp_tokens d ! i) \<noteq> ''}''))"
  using skip_block_returns [OF assms] skip_block_diverges [OF assms] by (cases "brace_ahead d") auto

text \<open>\<open>remaining_args\<close> returns exactly the texts of the tokens that follow the cursor on its line, and
  leaves the cursor on the last of them; \<open>args\<close> returns the first \<open>n\<close> of them or, when the
  line has fewer, nothing and the dispenser unchanged.\<close>

lemma dispenser_line_args:
  assumes "dp_started d"
  shows "remaining_args d = (map tk_text (line_args d), d\<lparr>dp_cursor := dp_cursor d + length (line_args d)\<rparr>)
    \<and> args n d = (if n \<le> length (line_args d)
        then (Some (map tk_text (take n (line_args d))), d\<lparr>dp_cursor := dp_cursor d + n\<rparr>) else (None, d))"
  using assms by (simp add: remaining_args_spec args_def args_loop_spec)

end
