(* ===== verification/Parser.thy ===== *)
theory Parser
  imports Lexer "HOL-Library.List_Lexorder" "HOL-Library.Char_ord"
begin

text \<open>
  The Corefile parser, \<open>src/corefile/parser.rs\<close>: environment expansion, server blocks,
  directives, snippets and imports. The parser's position is the list of remaining tokens. The
  process environment, the \<open>glob\<close> crate and the file system are fields of \<open>parse_env\<close>.

  Shown here: the parser returns on every input (imports nest at most \<open>MAX_IMPORT_DEPTH\<close> deep),
  a block body is brace-balanced, and, without imports, the directives of a body are exactly its
  tokens, cut into consecutive pieces.
\<close>

record directive =
  dir_name :: string
  dir_tokens :: "token list"

record server_block =
  sb_keys :: "string list"
  sb_directives :: "directive list"
  sb_line :: nat

text \<open>
  \<open>pe_var\<close>: the value of an environment variable, empty when unset; \<open>pe_glob\<close>: the entries a
  glob pattern yields or the pattern error; \<open>pe_is_file\<close> and \<open>pe_read\<close>: the file system.
\<close>

record parse_env =
  pe_var :: "string \<Rightarrow> string"
  pe_base_dir :: string
  pe_glob :: "string \<Rightarrow> string list res"
  pe_is_file :: "string \<Rightarrow> bool"
  pe_read :: "string \<Rightarrow> string res"

type_synonym snippets = "string \<rightharpoonup> token list"

definition MAX_IMPORT_DEPTH :: nat where "MAX_IMPORT_DEPTH = 20"

section \<open>Environment variables\<close>

definition env_open :: "string \<Rightarrow> (nat \<times> string) option" where
  "env_open rest =
     (case (find_sub ''{$'' rest, find_sub ''{%'' rest) of
        (Some a, Some b) \<Rightarrow> if a \<le> b then Some (a, ''}'') else Some (b, ''%}'')
      | (Some a, None) \<Rightarrow> Some (a, ''}'')
      | (None, Some b) \<Rightarrow> Some (b, ''%}'')
      | (None, None) \<Rightarrow> None)"

lemma find_sub_bound: "find_sub p s = Some i \<Longrightarrow> i + length p \<le> length s"
proof (induction s arbitrary: i)
  case (Cons x xs)
  show ?case
  proof (cases "starts_with (x # xs) p")
    case True
    then have "length p \<le> length (x # xs)" by (metis length_append le_add1 starts_with_iff)
    with True Cons.prems show ?thesis by simp
  next
    case False
    with Cons show ?thesis by (auto simp: map_option_case split: option.splits)
  qed
qed (auto split: if_splits)

lemma env_open_bound: "env_open s = Some (a, c) \<Longrightarrow> a + 2 \<le> length s"
  by (auto simp: env_open_def split: option.splits if_splits dest!: find_sub_bound)

function expand_env_str :: "(string \<Rightarrow> string) \<Rightarrow> string \<Rightarrow> string" where
  "expand_env_str var rest =
     (case env_open rest of
        None \<Rightarrow> rest
      | Some (open_, close) \<Rightarrow>
          take open_ rest @
          (let after = drop (open_ + 2) rest in
           case find_sub close after of
             Some e \<Rightarrow> var (take e after) @ expand_env_str var (drop (e + length close) after)
           | None \<Rightarrow> drop open_ rest))"
  by pat_completeness auto
termination
  by (relation "measure (\<lambda>(var, rest). length rest)") (auto dest!: env_open_bound)

declare expand_env_str.simps [simp del]

definition expand_env :: "(string \<Rightarrow> string) \<Rightarrow> token list \<Rightarrow> token list" where
  "expand_env var tokens =
     map (\<lambda>t. if contains_sub (tk_text t) ''{$'' \<or> contains_sub (tk_text t) ''{%''
              then t\<lparr>tk_text := expand_env_str var (tk_text t)\<rparr> else t) tokens"

section \<open>Errors\<close>

definition parse_err :: "token \<Rightarrow> string \<Rightarrow> err" where
  "parse_err t msg = tk_file t @ '':'' @ show_nat (tk_line t) @ '' - Error during parsing: '' @ msg"

text \<open>\<open>Parser::err\<close>: the position of the current token, or of the last one at the end.\<close>

definition p_err :: "token list \<Rightarrow> token list \<Rightarrow> string \<Rightarrow> err" where
  "p_err all rest msg =
     (case rest of
        t # _ \<Rightarrow> parse_err t msg
      | [] \<Rightarrow> if all = [] then ''Error during parsing: '' @ msg else parse_err (last all) msg)"

definition is_open :: "token \<Rightarrow> bool" where
  "is_open t \<longleftrightarrow> tk_text t = ''{'' \<and> \<not> tk_quoted t"

definition is_close :: "token \<Rightarrow> bool" where
  "is_close t \<longleftrightarrow> tk_text t = ''}'' \<and> \<not> tk_quoted t"

lemma not_open_close: "\<not> (is_open t \<and> is_close t)"
  by (simp add: is_open_def is_close_def)

section \<open>Blocks and directives\<close>

fun collect_loop :: "token list \<Rightarrow> nat \<Rightarrow> token list \<Rightarrow> (token list \<times> token list) res" where
  "collect_loop all depth [] = Inl (p_err all [] ''unexpected EOF, unbalanced braces'')"
| "collect_loop all depth (t # ts) =
     (if is_close t \<and> depth = 1 then Inr ([], ts)
      else rbind (collect_loop all (if is_open t then depth + 1 else if is_close t then depth - 1 else depth) ts)
             (\<lambda>(body, rest). Inr (t # body, rest)))"

definition collect_block_body :: "token list \<Rightarrow> token list \<Rightarrow> (token list \<times> token list) res" where
  "collect_block_body all rest = collect_loop all 1 rest"

text \<open>The arguments of a directive on its own line, up to an opening brace.\<close>

fun same_line_args :: "nat \<Rightarrow> token list \<Rightarrow> (token list \<times> token list) res" where
  "same_line_args line [] = Inr ([], [])"
| "same_line_args line (t # ts) =
     (if tk_line t = line \<and> \<not> is_open t then
        (if is_close t then Inl (parse_err t (''unexpected '' @ [CHR 0x27] @ ''}'' @ [CHR 0x27]))
         else rbind (same_line_args line ts) (\<lambda>(out, rest). Inr (t # out, rest)))
      else Inr ([], t # ts))"

text \<open>The nested block: tokens up to the brace that brings the depth back to zero.\<close>

fun nested_block :: "token \<Rightarrow> nat \<Rightarrow> token list \<Rightarrow> (token list \<times> token list) res" where
  "nested_block name_tok depth [] =
     Inl (parse_err name_tok (''unbalanced braces in directive '' @ [CHR 0x27] @ tk_text name_tok @ [CHR 0x27]))"
| "nested_block name_tok depth (t # ts) =
     (let depth' = (if is_open t then depth + 1 else if is_close t then depth - 1 else depth) in
      if depth' = 0 then Inr ([t], ts)
      else rbind (nested_block name_tok depth' ts) (\<lambda>(out, rest). Inr (t # out, rest)))"

definition take_directive :: "token \<Rightarrow> token list \<Rightarrow> (token list \<times> token list) res" where
  "take_directive name_tok ts =
     rbind (same_line_args (tk_line name_tok) ts) (\<lambda>(as, rest).
     if rest \<noteq> [] \<and> tk_line (hd rest) = tk_line name_tok \<and> is_open (hd rest) then
       rbind (nested_block name_tok 0 rest) (\<lambda>(blk, rest'). Inr (name_tok # as @ blk, rest'))
     else Inr (name_tok # as, rest))"

lemma same_line_args_append: "same_line_args l ts = Inr (as, rest) \<Longrightarrow> ts = as @ rest"
  by (induction l ts arbitrary: as rest rule: same_line_args.induct) (auto split: if_splits)

lemma nested_block_append: "nested_block n d ts = Inr (blk, rest) \<Longrightarrow> ts = blk @ rest"
  by (induction n d ts arbitrary: blk rest rule: nested_block.induct) (auto simp: Let_def split: if_splits)

lemma take_directive_append: "take_directive n ts = Inr (d, rest) \<Longrightarrow> n # ts = d @ rest"
  by (auto simp: take_directive_def split: if_splits
      dest!: same_line_args_append nested_block_append)

lemma take_directive_Cons: "take_directive n ts = Inr (d, rest) \<Longrightarrow> \<exists>as. d = n # as"
  by (auto simp: take_directive_def split: if_splits)

text \<open>The files an import argument that is no snippet names, in the order of their paths.\<close>

definition path_join :: "string \<Rightarrow> string \<Rightarrow> string" where
  "path_join base p =
     (if starts_with p ''/'' then p
      else if base = [] \<or> ends_with base ''/'' then base @ p else base @ ''/'' @ p)"

definition path_key :: "string \<Rightarrow> string list" where
  "path_key p = filter (\<lambda>c. c \<noteq> []) (split_char (CHR ''/'') p)"

definition import_tokens :: "parse_env \<Rightarrow> token list \<Rightarrow> string \<Rightarrow> token list res" where
  "import_tokens env dir arg =
     (case pe_glob env (path_join (pe_base_dir env) arg) of
        Inl e \<Rightarrow> Inl (parse_err (hd dir) (''bad import pattern '' @ arg @ '': '' @ e))
      | Inr entries \<Rightarrow>
          (let matched = filter (pe_is_file env) entries;
               has_glob = CHR ''*'' \<in> set arg \<or> CHR ''?'' \<in> set arg \<or> CHR ''['' \<in> set arg in
           if matched = [] \<and> \<not> has_glob
           then Inl (parse_err (hd dir) (''could not import '' @ arg @ '': file not found''))
           else try_flat_map (\<lambda>p. case pe_read env p of
                    Inl e \<Rightarrow> Inl (''importing '' @ p)
                  | Inr text \<Rightarrow> Inr (expand_env (pe_var env) (lex text p)))
                (sort_key path_key matched)))"

function (sequential) parse_directives :: "parse_env \<Rightarrow> snippets \<Rightarrow> nat \<Rightarrow> token list \<Rightarrow> directive list res"
  and do_import :: "parse_env \<Rightarrow> snippets \<Rightarrow> nat \<Rightarrow> token list \<Rightarrow> directive list res"
where
  "parse_directives env snips depth [] = Inr []"
| "parse_directives env snips depth (name_tok # ts) =
     (if is_open name_tok \<or> is_close name_tok
      then Inl (parse_err name_tok (''unexpected '' @ [CHR 0x27] @ tk_text name_tok @ [CHR 0x27]))
      else rbind (take_directive name_tok ts) (\<lambda>(dir, rest).
        if tk_text name_tok = ''import'' \<and> \<not> tk_quoted name_tok
        then rbind (do_import env snips depth dir) (\<lambda>imported.
             rbind (parse_directives env snips depth rest) (\<lambda>out. Inr (imported @ out)))
        else rbind (parse_directives env snips depth rest) (\<lambda>out.
             Inr (\<lparr>dir_name = tk_text name_tok, dir_tokens = dir\<rparr> # out))))"
| "do_import env snips depth dir =
     (if length dir \<noteq> 2
      then Inl (parse_err (hd dir) ''import takes exactly one argument (a snippet name or file pattern)'')
      else if depth \<ge> MAX_IMPORT_DEPTH then Inl (parse_err (hd dir) ''import nesting too deep'')
      else (let arg = tk_text (dir ! 1) in
        rbind (case snips arg of Some snip \<Rightarrow> Inr snip | None \<Rightarrow> import_tokens env dir arg) (\<lambda>tokens.
        parse_directives env snips (depth + 1) tokens)))"
  by pat_completeness auto
termination
proof (relation "measures [\<lambda>x. case x of Inl (_, _, d, _) \<Rightarrow> MAX_IMPORT_DEPTH - d | Inr (_, _, d, _) \<Rightarrow> MAX_IMPORT_DEPTH - d,
      \<lambda>x. case x of Inl (_, _, _, ts) \<Rightarrow> length ts | Inr _ \<Rightarrow> 0]", goal_cases)
  case (3 env snips depth name_tok ts dr dir rest imported)
  then have "length rest < length (name_tok # ts)"
    using take_directive_append take_directive_Cons by fastforce
  then show ?case by simp
next
  case (4 env snips depth name_tok ts dr dir rest)
  then have "length rest < length (name_tok # ts)"
    using take_directive_append take_directive_Cons by fastforce
  then show ?case by simp
qed auto

section \<open>Server blocks\<close>

fun block_keys :: "token list \<Rightarrow> nat \<Rightarrow> token list \<Rightarrow> (string list \<times> bool \<times> token list) res" where
  "block_keys all key_line [] = Inr ([], False, [])"
| "block_keys all key_line (t # ts) =
     (if tk_line t \<noteq> key_line then Inr ([], False, t # ts)
      else if is_open t then Inr ([], True, ts)
      else if is_close t then Inl (p_err all (t # ts) (''unexpected '' @ [CHR 0x27] @ ''}'' @ [CHR 0x27] @ '' in server block keys''))
      else rbind (block_keys all key_line ts) (\<lambda>(ks, brace, rest). Inr (tk_text t # ks, brace, rest)))"

definition split_keys :: "string list \<Rightarrow> string list" where
  "split_keys keys = filter (\<lambda>k. k \<noteq> []) (concat (map (\<lambda>k. map trim (split_char (CHR '','') k)) keys))"

definition parse_server_block ::
    "parse_env \<Rightarrow> token list \<Rightarrow> snippets \<Rightarrow> bool \<Rightarrow> token list \<Rightarrow> (server_block \<times> token list) res" where
  "parse_server_block env all snips first_block toks =
     (case toks of
        [] \<Rightarrow> Inl (p_err all [] ''expected server block key'')
      | start # ts \<Rightarrow>
          if is_open start then
            Inl (parse_err start (''Unexpected token '' @ [CHR 0x27] @ ''{'' @ [CHR 0x27] @ '', expecting address''))
          else rbind (block_keys all (tk_line start) ts) (\<lambda>(ks, have_brace, rest).
            rbind (if have_brace then collect_block_body all rest
                   else if \<not> first_block
                     then Inl (p_err all rest (''expected '' @ [CHR 0x27] @ ''{'' @ [CHR 0x27] @ '' after server block keys''))
                   else Inr (rest, [])) (\<lambda>(body, rest').
            rbind (parse_directives env snips 0 body) (\<lambda>ds.
            Inr (\<lparr>sb_keys = split_keys (tk_text start # ks), sb_directives = ds, sb_line = tk_line start\<rparr>, rest')))))"

definition snippet_name :: "token \<Rightarrow> string option" where
  "snippet_name t =
     (if starts_with (tk_text t) ''('' \<and> ends_with (tk_text t) '')'' \<and> length (tk_text t) > 2 \<and> \<not> tk_quoted t
      then Some (take (length (tk_text t) - 2) (drop 1 (tk_text t))) else None)"

lemma collect_loop_append:
  "collect_loop all depth ts = Inr (body, rest) \<Longrightarrow> \<exists>c. is_close c \<and> ts = body @ c # rest"
  by (induction all depth ts arbitrary: body rest rule: collect_loop.induct) (fastforce split: if_splits)+

lemma block_keys_length: "block_keys all l ts = Inr (ks, b, rest) \<Longrightarrow> length rest \<le> length ts"
  by (induction all l ts arbitrary: ks b rest rule: block_keys.induct) (fastforce split: if_splits)+

lemma parse_server_block_shorter:
  "parse_server_block env all snips fb toks = Inr (sb, rest) \<Longrightarrow> length rest < length toks"
  by (auto simp: parse_server_block_def collect_block_body_def split: list.splits if_splits
      dest!: collect_loop_append block_keys_length)

function parse_all :: "parse_env \<Rightarrow> token list \<Rightarrow> snippets \<Rightarrow> bool \<Rightarrow> token list \<Rightarrow> server_block list res" where
  "parse_all env all snips first_block toks =
     (case toks of
        [] \<Rightarrow> Inr []
      | t # ts \<Rightarrow>
          (case snippet_name t of
             Some name \<Rightarrow>
               (case ts of
                  [] \<Rightarrow> Inl (p_err all [] (''expected '' @ [CHR 0x27] @ ''{'' @ [CHR 0x27] @ '' after snippet name''))
                | open_ # ts' \<Rightarrow>
                    if \<not> is_open open_
                    then Inl (parse_err open_ (''expected '' @ [CHR 0x27] @ ''{'' @ [CHR 0x27] @ '' after snippet name''))
                    else rbind (collect_block_body all ts') (\<lambda>(body, rest).
                      parse_all env all (snips(name \<mapsto> body)) first_block rest))
           | None \<Rightarrow>
               rbind (parse_server_block env all snips first_block toks) (\<lambda>(sb, rest).
               rbind (parse_all env all snips False rest) (\<lambda>sbs. Inr (sb # sbs)))))"
  by pat_completeness auto
termination
  by (relation "measure (\<lambda>(env, all, snips, fb, toks). length toks)")
    (auto simp: collect_block_body_def dest!: collect_loop_append dest: parse_server_block_shorter)

declare parse_all.simps [simp del]

definition parse_str :: "parse_env \<Rightarrow> string \<Rightarrow> string \<Rightarrow> server_block list res" where
  "parse_str env text path =
     (let tokens = expand_env (pe_var env) (lex text path)
      in parse_all env tokens Map.empty True tokens)"

section \<open>Brace structure\<close>

text \<open>The nesting depth after reading tokens, \<open>None\<close> when a closing brace has no opening one.\<close>

fun brace_depth :: "nat \<Rightarrow> token list \<Rightarrow> nat option" where
  "brace_depth d [] = Some d"
| "brace_depth d (t # ts) =
     (if is_open t then brace_depth (d + 1) ts
      else if is_close t then (if d = 0 then None else brace_depth (d - 1) ts)
      else brace_depth d ts)"

definition balanced :: "token list \<Rightarrow> bool" where
  "balanced ts \<longleftrightarrow> brace_depth 0 ts = Some 0"

lemma collect_loop_iff:
  "collect_loop all (Suc d) ts = Inr (body, rest) \<longleftrightarrow>
     (\<exists>c. is_close c \<and> ts = body @ c # rest \<and> brace_depth d body = Some 0)"
proof (induction ts arbitrary: d body)
  case (Cons t ts)
  show ?case
  proof (cases "is_close t \<and> d = 0")
    case True
    then show ?thesis using not_open_close [of t] by (cases body) auto
  next
    case False
    then show ?thesis
      using Cons.IH [of "Suc d" "tl body"] Cons.IH [of "d - 1" "tl body"] Cons.IH [of d "tl body"]
        not_open_close [of t]
      by (cases body; cases d) auto
  qed
qed simp

lemma collect_block_body_iff:
  "collect_block_body all ts = Inr (body, rest) \<longleftrightarrow>
     (\<exists>c. is_close c \<and> ts = body @ c # rest \<and> balanced body)"
  using collect_loop_iff [of all 0] by (simp add: collect_block_body_def balanced_def)

lemma nested_block_balanced:
  "nested_block n (Suc d) ts = Inr (blk, rest) \<Longrightarrow> brace_depth (Suc d) blk = Some 0 \<and> blk \<noteq> [] \<and> is_close (last blk)"
proof (induction ts arbitrary: d blk)
  case (Cons t ts)
  show ?case
  proof (cases "is_open t")
    case True
    with Cons.prems obtain out where out: "nested_block n (Suc (Suc d)) ts = Inr (out, rest)" "blk = t # out"
      by (auto simp: Let_def)
    with Cons.IH [OF out(1)] True show ?thesis by auto
  next
    case no: False
    show ?thesis
    proof (cases "is_close t")
      case True
      show ?thesis
      proof (cases d)
        case 0
        with True no Cons.prems show ?thesis by (auto simp: Let_def)
      next
        case (Suc d')
        with True no Cons.prems obtain out where out: "nested_block n (Suc d') ts = Inr (out, rest)" "blk = t # out"
          by (auto simp: Let_def)
        with Cons.IH [OF out(1)] True no Suc show ?thesis by auto
      qed
    next
      case False
      with no Cons.prems obtain out where out: "nested_block n (Suc d) ts = Inr (out, rest)" "blk = t # out"
        by (auto simp: Let_def)
      with Cons.IH [OF out(1)] False no show ?thesis by auto
    qed
  qed
qed simp

section \<open>Directives\<close>

text \<open>
  The shape of a directive: its name, arguments on the same line that are no braces, and an
  optional block that opens on that line, is balanced and ends with its closing brace.
\<close>

definition dir_shape :: "token list \<Rightarrow> token list \<Rightarrow> token list \<Rightarrow> bool" where
  "dir_shape ts as blk \<longleftrightarrow>
     ts \<noteq> [] \<and> ts = hd ts # as @ blk \<and>
     (\<forall>a \<in> set as. tk_line a = tk_line (hd ts) \<and> \<not> is_open a \<and> \<not> is_close a) \<and>
     (blk = [] \<or> (is_open (hd blk) \<and> tk_line (hd blk) = tk_line (hd ts) \<and> balanced blk \<and> is_close (last blk)))"

definition dir_ok :: "directive \<Rightarrow> bool" where
  "dir_ok d \<longleftrightarrow> (\<exists>as blk. dir_shape (dir_tokens d) as blk) \<and> dir_name d = tk_text (hd (dir_tokens d))"

lemma same_line_args_shape:
  "same_line_args l ts = Inr (as, rest) \<Longrightarrow> \<forall>a \<in> set as. tk_line a = l \<and> \<not> is_open a \<and> \<not> is_close a"
proof (induction ts arbitrary: as)
  case (Cons t ts)
  show ?case
  proof (cases "tk_line t = l \<and> \<not> is_open t")
    case True
    with Cons.prems obtain out where "same_line_args l ts = Inr (out, rest)" "as = t # out" "\<not> is_close t"
      by (auto split: if_splits)
    with Cons.IH True show ?thesis by simp
  next
    case False
    with Cons.prems show ?thesis by auto
  qed
qed simp

lemma take_directive_shape:
  assumes "take_directive n ts = Inr (dir, rest)"
  shows "\<exists>as blk. dir_shape dir as blk \<and> hd dir = n"
proof -
  from assms obtain as r where as: "same_line_args (tk_line n) ts = Inr (as, r)"
    by (auto simp: take_directive_def)
  note sh = same_line_args_shape [OF as]
  show ?thesis
  proof (cases "r \<noteq> [] \<and> tk_line (hd r) = tk_line n \<and> is_open (hd r)")
    case True
    with assms as obtain blk where blk: "nested_block n 0 r = Inr (blk, rest)" "dir = n # as @ blk"
      by (auto simp: take_directive_def split: if_splits)
    from True obtain t ts' where r: "r = t # ts'" "is_open t" "tk_line t = tk_line n" by (cases r) auto
    with blk(1) obtain out where out: "nested_block n (Suc 0) ts' = Inr (out, rest)" "blk = t # out"
      by (auto simp: Let_def)
    from nested_block_balanced [OF out(1)] out r blk(2) sh show ?thesis
      by (intro exI [of _ as] exI [of _ blk]) (auto simp: dir_shape_def balanced_def)
  next
    case False
    with assms as sh show ?thesis
      by (intro exI [of _ as] exI [of _ "[]"]) (auto simp: take_directive_def dir_shape_def)
  qed
qed

lemma parse_directives_ok:
  "parse_directives env snips depth ts = Inr ds \<Longrightarrow> list_all dir_ok ds"
  "do_import env snips depth dir = Inr ds \<Longrightarrow> list_all dir_ok ds"
proof (induction env snips depth ts and env snips depth dir arbitrary: ds and ds
    rule: parse_directives_do_import.induct)
  case (2 env snips depth name_tok ts)
  then obtain dir rest where td: "take_directive name_tok ts = Inr (dir, rest)"
    and nb: "\<not> (is_open name_tok \<or> is_close name_tok)"
    by (auto split: if_splits)
  have ok: "dir_ok \<lparr>dir_name = tk_text name_tok, dir_tokens = dir\<rparr>"
    using take_directive_shape [OF td] by (auto simp: dir_ok_def)
  show ?case
  proof (cases "tk_text name_tok = ''import'' \<and> \<not> tk_quoted name_tok")
    case True
    with "2.prems" td nb obtain imported out where
      i: "do_import env snips depth dir = Inr imported"
      and o: "parse_directives env snips depth rest = Inr out" and ds: "ds = imported @ out"
      by auto
    have "list_all dir_ok imported" by (rule "2.IH"(1) [OF nb td refl True i])
    moreover have "list_all dir_ok out" by (rule "2.IH"(2) [OF nb td refl True i o])
    ultimately show ?thesis using ds by simp
  next
    case False
    with "2.prems" td nb obtain out where
      o: "parse_directives env snips depth rest = Inr out"
      and ds: "ds = \<lparr>dir_name = tk_text name_tok, dir_tokens = dir\<rparr> # out"
      by auto
    have "list_all dir_ok out" by (rule "2.IH"(3) [OF nb td refl False o])
    with ok ds show ?thesis by simp
  qed
next
  case (3 env snips depth dir)
  then show ?case by (auto simp: Let_def split: if_splits)
qed simp

text \<open>Without imports no token is lost, duplicated or reordered.\<close>

lemma parse_directives_lossless:
  assumes "\<forall>t \<in> set ts. tk_text t \<noteq> ''import''"
  shows "parse_directives env snips depth ts = Inr ds \<Longrightarrow> concat (map dir_tokens ds) = ts"
  using assms
proof (induction "length ts" arbitrary: ts ds rule: less_induct)
  case less
  show ?case
  proof (cases ts)
    case Nil
    with less.prems show ?thesis by simp
  next
    case (Cons n ts')
    with less.prems obtain dir rest out where td: "take_directive n ts' = Inr (dir, rest)"
      and out: "parse_directives env snips depth rest = Inr out"
      and ds: "ds = \<lparr>dir_name = tk_text n, dir_tokens = dir\<rparr> # out"
      by (auto split: if_splits)
    have app: "ts = dir @ rest" using take_directive_append [OF td] Cons by simp
    have "length rest < length ts" using app take_directive_Cons [OF td] by auto
    then have "concat (map dir_tokens out) = rest"
      using less.hyps [OF _ out] less.prems(2) app by auto
    with ds app show ?thesis by simp
  qed
qed

text \<open>A snippet that imports itself is rejected when the nesting limit is reached.\<close>

lemma self_import_rejected:
  assumes imp: "tk_text ti = ''import''" "\<not> tk_quoted ti"
    and arg: "tk_line ta = tk_line ti" "\<not> is_open ta" "\<not> is_close ta"
    and snip: "snips (tk_text ta) = Some [ti, ta]"
  shows "parse_directives env snips depth [ti, ta] = Inl (parse_err ti ''import nesting too deep'')"
proof (induction "MAX_IMPORT_DEPTH - depth" arbitrary: depth)
  case 0
  have "\<not> is_open ti" "\<not> is_close ti" using imp by (simp_all add: is_open_def is_close_def)
  with 0 imp arg show ?case by (simp add: take_directive_def)
next
  case (Suc k)
  then have "parse_directives env snips (depth + 1) [ti, ta] = Inl (parse_err ti ''import nesting too deep'')"
    by simp
  moreover have "\<not> is_open ti" "\<not> is_close ti" using imp by (simp_all add: is_open_def is_close_def)
  ultimately show ?case
    using Suc.hyps(2) imp arg snip by (simp add: take_directive_def)
qed

section \<open>Properties\<close>

lemma parse_all_ok: "parse_all env all snips fb toks = Inr sbs \<Longrightarrow> sb \<in> set sbs \<Longrightarrow> list_all dir_ok (sb_directives sb)"
proof (induction env all snips fb toks arbitrary: sbs rule: parse_all.induct)
  case (1 env all snips fb toks)
  show ?case
  proof (cases toks)
    case (Cons t ts)
    note toks = Cons
    show ?thesis
    proof (cases "snippet_name t")
      case None
      with 1(3) toks obtain sb0 rest sbs0 where b: "parse_server_block env all snips fb toks = Inr (sb0, rest)"
        "parse_all env all snips False rest = Inr sbs0" "sbs = sb0 # sbs0"
        by (auto simp: parse_all.simps [of env all snips fb "t # ts"])
      have "list_all dir_ok (sb_directives sb0)"
        using b(1) parse_directives_ok(1) by (auto simp: parse_server_block_def split: list.splits if_splits)
      with 1 toks None b show ?thesis by auto
    next
      case (Some name)
      with 1(3) toks obtain op ts' body rest where "ts = op # ts'" "is_open op" "collect_block_body all ts' = Inr (body, rest)"
        "parse_all env all (snips(name \<mapsto> body)) fb rest = Inr sbs"
        by (auto simp: parse_all.simps [of env all snips fb "t # ts"] split: list.splits if_splits)
      with 1 toks Some show ?thesis by (auto simp: fun_upd_def)
    qed
  qed (use 1 in \<open>auto simp: parse_all.simps\<close>)
qed

text \<open>C35: Every directive of every server block of a Corefile that parses, whatever it imports, is well
  formed: its first token is its name, then arguments on the line of the name that are no braces, then
  either nothing or one block that opens on that line, is balanced and ends with its closing brace.\<close>

theorem parse_str_directives_ok:
  assumes "parse_str env text path = Inr blocks" and "sb \<in> set blocks"
  shows "list_all dir_ok (sb_directives sb)"
  using assms parse_all_ok by (auto simp: parse_str_def Let_def)

theorem parse_str_directives_ok_witness:
  "list_all dir_ok (sb_directives (hd (case parse_str \<lparr>pe_var = (\<lambda>_. []), pe_base_dir = ''.'', pe_glob = (\<lambda>_. Inr []), pe_is_file = (\<lambda>_. False), pe_read = (\<lambda>_. Inl [])\<rparr> ''. {
  cache 30
}'' ''Corefile'' of Inr bs \<Rightarrow> bs)))"
proof -
  let ?env = "\<lparr>pe_var = (\<lambda>_. []), pe_base_dir = ''.'', pe_glob = (\<lambda>_. Inr []), pe_is_file = (\<lambda>_. False), pe_read = (\<lambda>_. Inl [])\<rparr>"
  let ?d = "\<lparr>dir_name = ''cache'', dir_tokens = [\<lparr>tk_file = ''Corefile'', tk_line = 2, tk_text = ''cache'', tk_quoted = False\<rparr>, \<lparr>tk_file = ''Corefile'', tk_line = 2, tk_text = ''30'', tk_quoted = False\<rparr>]\<rparr>"
  have p: "parse_str ?env ''. {
  cache 30
}'' ''Corefile'' = Inr [\<lparr>sb_keys = [''.''], sb_directives = [?d], sb_line = 1\<rparr>]" by code_simp
  show ?thesis using parse_str_directives_ok [OF p] p by simp
qed

text \<open>Splitting a block body into directives loses and invents no token: without imports, the tokens of
  the directives, one after the other, are the tokens of the body.\<close>

lemma parse_directives_tokens:
  assumes "\<forall>t \<in> set ts. tk_text t \<noteq> ''import''" and "parse_directives env snips depth ts = Inr ds"
  shows "concat (map dir_tokens ds) = ts"
  using assms by (rule parse_directives_lossless)

text \<open>The body of a block is read up to the brace that matches the one already consumed: collecting
  succeeds with \<open>body\<close> exactly when the tokens are \<open>body\<close>, a closing brace and the rest, with the braces of
  \<open>body\<close> balanced. Quoted braces do not count.\<close>

lemma collect_block_body_balanced:
  "collect_block_body all ts = Inr (body, rest) \<longleftrightarrow> (\<exists>c. is_close c \<and> ts = body @ c # rest \<and> balanced body)"
  by (rule collect_block_body_iff)

text \<open>A snippet that imports itself does not make the parser run forever: the import is refused with the
  nesting error.\<close>

lemma self_import_stops:
  assumes "tk_text ti = ''import''" "\<not> tk_quoted ti"
    and "tk_line ta = tk_line ti" "\<not> is_open ta" "\<not> is_close ta"
    and "snips (tk_text ta) = Some [ti, ta]"
  shows "parse_directives env snips depth [ti, ta] = Inl (parse_err ti ''import nesting too deep'')"
  using assms by (rule self_import_rejected)

end
