(* ===== verification/Server_Config.thy ===== *)
theory Server_Config
  imports Chain Dispenser Parser "HOL-Library.Multiset"
begin

text \<open>
  Server configurations and how a plugin's \<open>setup\<close> sees them: \<open>src/server/config.rs\<close>,
  \<open>src/plugin/registry.rs\<close> and \<open>src/plugin/controller.rs\<close>.

  A handler object is its \<open>name()\<close> with its \<open>serve_dns\<close>. A hook acts on the state \<open>'s\<close> the
  plugins share. A \<open>rustls\<close> configuration is only stored and handed on, so it is a number that
  identifies it. \<open>SetupFn\<close> works on the controller and may fail.

  Shown here: the shape of a parsed key, that \<open>finalize_chain\<close> is the stable sort into the order
  of the registry, and that \<open>once_per_server_block\<close> runs its function once per block.
\<close>

section \<open>Keys\<close>

datatype transport = T_Dns | T_Tls | T_Https | T_Quic | T_Grpc

fun scheme :: "transport \<Rightarrow> string" where
  "scheme T_Dns = ''dns''"
| "scheme T_Tls = ''tls''"
| "scheme T_Https = ''https''"
| "scheme T_Quic = ''quic''"
| "scheme T_Grpc = ''grpc''"

fun default_port :: "transport \<Rightarrow> nat" where
  "default_port T_Dns = 53"
| "default_port T_Tls = 853"
| "default_port T_Https = 443"
| "default_port T_Quic = 853"
| "default_port T_Grpc = 443"

definition from_scheme :: "string \<Rightarrow> transport option" where
  "from_scheme s =
     (if s = ''dns'' then Some T_Dns else if s = ''tls'' then Some T_Tls
      else if s = ''https'' then Some T_Https else if s = ''quic'' then Some T_Quic
      else if s = ''grpc'' then Some T_Grpc else None)"

record parsed_key =
  pk_transport :: transport
  pk_zone :: string
  pk_port :: nat
  pk_explicit_port :: bool

definition quote :: "string \<Rightarrow> string" where
  "quote s = [CHR 0x27] @ s @ [CHR 0x27]"

definition key_transport :: "string \<Rightarrow> (transport \<times> string) res" where
  "key_transport key =
     (case find_sub ''://'' key of
        Some i \<Rightarrow> rbind (ok_or (''unknown transport scheme '' @ quote (take i key) @ '' in key '' @ quote key)
                     (from_scheme (take i key))) (\<lambda>t. Inr (t, drop (i + 3) key))
      | None \<Rightarrow> Inr (T_Dns, key))"

definition key_port :: "string \<Rightarrow> transport \<Rightarrow> string \<Rightarrow> (string \<times> nat \<times> bool) res" where
  "key_port key t rest =
     (case rfind_char (CHR '':'') rest of
        Some i \<Rightarrow>
          if drop (i + 1) rest \<noteq> [] \<and> list_all is_ascii_digit (drop (i + 1) rest) \<and> CHR '':'' \<notin> set (take i rest)
          then rbind (ok_or (''bad port in key '' @ quote key) (parse_u16 (drop (i + 1) rest)))
                 (\<lambda>p. Inr (take i rest, p, True))
          else Inr (rest, default_port t, False)
      | None \<Rightarrow> Inr (rest, default_port t, False))"

definition parse_key :: "(string \<Rightarrow> dname res) \<Rightarrow> 'net ipnet_api \<Rightarrow> string \<Rightarrow> parsed_key res" where
  "parse_key from_ascii api key =
     rbind (key_transport key) (\<lambda>(t, rest).
     rbind (key_port key t rest) (\<lambda>(zone_part0, port, explicit).
     (let zone_part = (if zone_part0 = [] then ''.'' else zone_part0) in
      rbind (normalize_zone from_ascii api zone_part) (\<lambda>zones.
      if length zones \<noteq> 1
      then Inl (''server block key '' @ quote key @ '' expands to '' @ show_nat (length zones)
                @ '' zones; use a class-aligned reverse prefix'')
      else Inr \<lparr>pk_transport = t, pk_zone = hd zones, pk_port = port, pk_explicit_port = explicit\<rparr>))))"

section \<open>Configurations\<close>

type_synonym tls_config = nat
type_synonym 's plugin = "string \<times> 's handler"
type_synonym 's hook = "'s \<Rightarrow> unit res \<times> 's"

record 's server_config =
  sc_zone :: string
  sc_port :: nat
  sc_transport :: transport
  sc_listen_hosts :: "string list"
  sc_root :: string
  sc_tls :: "tls_config option"
  sc_plugins :: "(string \<times> 's plugin) list"
  sc_view_name :: string
  sc_filter :: "(request \<Rightarrow> bool) option"
  sc_metadata :: "(request \<Rightarrow> request) option"
  sc_tsig_secrets :: "string \<rightharpoonup> string"
  sc_read_timeout :: "nat option"
  sc_write_timeout :: "nat option"
  sc_idle_timeout :: "nat option"
  sc_num_sockets :: nat
  sc_startup :: "'s hook list"
  sc_shutdown :: "'s hook list"
  sc_final_shutdown :: "'s hook list"
  sc_restart :: "'s hook list"
  sc_restart_failed :: "'s hook list"
  sc_values :: "string \<rightharpoonup> string"
  sc_key_index :: nat
  sc_block_index :: nat

text \<open>\<open>cwd\<close> is what \<open>std::env::current_dir\<close> gives, if anything.\<close>

definition server_config_new :: "string option \<Rightarrow> parsed_key \<Rightarrow> nat \<Rightarrow> nat \<Rightarrow> 's server_config" where
  "server_config_new cwd key bi ki =
     \<lparr>sc_zone = pk_zone key, sc_port = pk_port key, sc_transport = pk_transport key,
      sc_listen_hosts = [], sc_root = (case cwd of Some d \<Rightarrow> d | None \<Rightarrow> ''.''), sc_tls = None,
      sc_plugins = [], sc_view_name = [], sc_filter = None, sc_metadata = None,
      sc_tsig_secrets = Map.empty, sc_read_timeout = None, sc_write_timeout = None,
      sc_idle_timeout = None, sc_num_sockets = 1, sc_startup = [], sc_shutdown = [],
      sc_final_shutdown = [], sc_restart = [], sc_restart_failed = [], sc_values = Map.empty,
      sc_key_index = ki, sc_block_index = bi\<rparr>"

definition config_add_plugin :: "string \<Rightarrow> 's plugin \<Rightarrow> 's server_config \<Rightarrow> 's server_config" where
  "config_add_plugin name h c = c\<lparr>sc_plugins := sc_plugins c @ [(name, h)]\<rparr>"

definition config_handler :: "'s server_config \<Rightarrow> string \<Rightarrow> 's plugin option" where
  "config_handler c name = map_option snd (find (\<lambda>nh. fst nh = name) (sc_plugins c))"

definition handler_names :: "'s server_config \<Rightarrow> string list" where
  "handler_names c = map fst (sc_plugins c)"

definition chain :: "'s server_config \<Rightarrow> 's plugin list" where
  "chain c = map snd (sc_plugins c)"

definition server_label :: "'s server_config \<Rightarrow> string" where
  "server_label c = scheme (sc_transport c) @ ''://:'' @ show_nat (sc_port c)"

definition listen_addrs :: "'s server_config \<Rightarrow> string list" where
  "listen_addrs c =
     (if sc_listen_hosts c = [] then ['':'' @ show_nat (sc_port c)]
      else map (\<lambda>h. h @ '':'' @ show_nat (sc_port c)) (sc_listen_hosts c))"

section \<open>The registry\<close>

definition ORDER_NAMES :: "string list" where
  "ORDER_NAMES =
     [''root'', ''metadata'', ''geoip'', ''cancel'', ''tls'', ''timeouts'', ''multisocket'', ''reload'',
      ''nsid'', ''bufsize'', ''bind'', ''debug'', ''trace'', ''ready'', ''health'', ''pprof'',
      ''prometheus'', ''errors'', ''log'', ''dnstap'', ''local'', ''dns64'', ''acl'', ''any'',
      ''chaos'', ''loadbalance'', ''tsig'', ''cache'', ''rewrite'', ''header'', ''dnssec'',
      ''autopath'', ''minimal'', ''template'', ''transfer'', ''hosts'', ''route53'', ''azure'',
      ''clouddns'', ''k8s_external'', ''kubernetes'', ''file'', ''auto'', ''secondary'', ''etcd'',
      ''loop'', ''forward'', ''grpc'', ''erratic'', ''whoami'', ''on'', ''sign'', ''view'']"

fun index_of :: "'a \<Rightarrow> 'a list \<Rightarrow> nat option" where
  "index_of x [] = None"
| "index_of x (y # ys) = (if y = x then Some 0 else map_option Suc (index_of x ys))"

definition position :: "string \<Rightarrow> nat option" where
  "position name = index_of name ORDER_NAMES"

text \<open>\<open>usize::MAX\<close> for a name outside the registry.\<close>

definition USIZE_MAX :: nat where "USIZE_MAX = 2 ^ 64 - 1"

definition sort_position :: "string \<Rightarrow> nat" where
  "sort_position name = (case position name of Some i \<Rightarrow> i | None \<Rightarrow> USIZE_MAX)"

definition finalize_chain :: "'s server_config \<Rightarrow> 's server_config" where
  "finalize_chain c = c\<lparr>sc_plugins := sort_key (\<lambda>nh. sort_position (fst nh)) (sc_plugins c)\<rparr>"

section \<open>The controller\<close>

record 's controller =
  ct_dispenser :: dispenser
  ct_config :: "'s server_config"
  ct_key :: string
  ct_server_block_keys :: "string list"
  ct_server_block_index :: nat
  ct_server_block_key_index :: nat
  ct_once :: "(nat \<times> string) set"
  ct_directive :: string

type_synonym 's setup_fn = "'s controller \<Rightarrow> unit res \<times> 's controller"

record 's directive_def =
  dd_name :: string
  dd_setup :: "'s setup_fn option"

definition lookup_def :: "'s directive_def list \<Rightarrow> string \<Rightarrow> 's directive_def option" where
  "lookup_def order name = find (\<lambda>d. dd_name d = name) order"

definition controller_new :: "string \<Rightarrow> token list \<Rightarrow> 's server_config \<Rightarrow> string \<Rightarrow> string list
    \<Rightarrow> nat \<Rightarrow> nat \<Rightarrow> (nat \<times> string) set \<Rightarrow> 's controller" where
  "controller_new directive tokens config key keys bi ki once =
     \<lparr>ct_dispenser = dispenser_new tokens, ct_config = config, ct_key = key,
      ct_server_block_keys = keys, ct_server_block_index = bi, ct_server_block_key_index = ki,
      ct_once = once, ct_directive = directive\<rparr>"

definition add_plugin :: "'s plugin \<Rightarrow> 's controller \<Rightarrow> 's controller" where
  "add_plugin h c = c\<lparr>ct_config := config_add_plugin (ct_directive c) h (ct_config c)\<rparr>"

definition once_per_server_block :: "'s setup_fn \<Rightarrow> 's controller \<Rightarrow> bool res \<times> 's controller" where
  "once_per_server_block f c =
     (let k = (ct_server_block_index c, ct_directive c) in
      if k \<in> ct_once c then (Inr False, c)
      else (case f (c\<lparr>ct_once := insert k (ct_once c)\<rparr>) of
          (Inl e, c') \<Rightarrow> (Inl e, c')
        | (Inr _, c') \<Rightarrow> (Inr True, c')))"

definition is_first_key :: "'s controller \<Rightarrow> bool" where
  "is_first_key c \<longleftrightarrow> ct_server_block_key_index c = 0"

definition on_config :: "('s server_config \<Rightarrow> 's server_config) \<Rightarrow> 's controller \<Rightarrow> 's controller" where
  "on_config f c = c\<lparr>ct_config := f (ct_config c)\<rparr>"

definition on_startup :: "'s hook \<Rightarrow> 's controller \<Rightarrow> 's controller" where
  "on_startup h = on_config (\<lambda>c. c\<lparr>sc_startup := sc_startup c @ [h]\<rparr>)"

definition on_shutdown :: "'s hook \<Rightarrow> 's controller \<Rightarrow> 's controller" where
  "on_shutdown h = on_config (\<lambda>c. c\<lparr>sc_shutdown := sc_shutdown c @ [h]\<rparr>)"

definition on_final_shutdown :: "'s hook \<Rightarrow> 's controller \<Rightarrow> 's controller" where
  "on_final_shutdown h = on_config (\<lambda>c. c\<lparr>sc_final_shutdown := sc_final_shutdown c @ [h]\<rparr>)"

definition on_restart :: "'s hook \<Rightarrow> 's controller \<Rightarrow> 's controller" where
  "on_restart h = on_config (\<lambda>c. c\<lparr>sc_restart := sc_restart c @ [h]\<rparr>)"

definition on_restart_failed :: "'s hook \<Rightarrow> 's controller \<Rightarrow> 's controller" where
  "on_restart_failed h = on_config (\<lambda>c. c\<lparr>sc_restart_failed := sc_restart_failed c @ [h]\<rparr>)"

definition server_block_zones :: "(string \<Rightarrow> dname res) \<Rightarrow> 'net ipnet_api \<Rightarrow> 's controller \<Rightarrow> string list" where
  "server_block_zones from_ascii api c =
     List.map_filter (\<lambda>k. map_option pk_zone (ok (parse_key from_ascii api k))) (ct_server_block_keys c)"

definition controller_origins ::
    "(string \<Rightarrow> dname res) \<Rightarrow> 'net ipnet_api \<Rightarrow> 's controller \<Rightarrow> string list \<Rightarrow> string list res" where
  "controller_origins from_ascii api c as =
     origins_from_args_or_server_block from_ascii api as (server_block_zones from_ascii api c)"

definition plugin_err :: "'s controller \<Rightarrow> err \<Rightarrow> err" where
  "plugin_err c e = ''plugin/'' @ ct_directive c @ '': '' @ e"

section \<open>Lemmas\<close>

lemma key_port_bound: "key_port key t rest = Inr (z, p, ex) \<Longrightarrow> p \<le> 65535"
  by (cases t) (auto simp: key_port_def split: option.splits if_splits dest: parse_unsigned_bound)

lemma key_port_default: "key_port key t rest = Inr (z, p, False) \<Longrightarrow> p = default_port t \<and> z = rest"
  by (auto simp: key_port_def split: option.splits if_splits)

text \<open>A rendered key with an explicit port is read back.\<close>

lemma rfind_char_last:
  assumes "c \<notin> set q"
  shows "rfind_char c (p @ c # q) = Some (length p)"
  using assms by (simp add: rfind_char_def find_char_append)

lemma key_port_render:
  assumes "CHR '':'' \<notin> set z" "p \<le> 65535"
  shows "key_port key t (z @ '':'' @ show_nat p) = Inr (z, p, True)"
proof -
  have "CHR '':'' \<notin> set (show_nat p)"
    using show_nat_set [of "CHR '':''" p] by (auto simp: is_ascii_digit_def)
  from rfind_char_last [OF this, of z] assms show ?thesis
    by (simp add: key_port_def show_nat_digits)
qed

lemma index_of_Some: "index_of x xs = Some i \<Longrightarrow> i < length xs \<and> xs ! i = x"
  by (induction xs arbitrary: i) (auto split: if_splits)

lemma index_of_None [simp]: "index_of x xs = None \<longleftrightarrow> x \<notin> set xs"
  by (induction xs) auto

lemma index_of_nth: "distinct xs \<Longrightarrow> i < length xs \<Longrightarrow> index_of (xs ! i) xs = Some i"
proof (induction xs arbitrary: i)
  case (Cons x xs)
  then show ?case by (cases i) auto
qed simp

lemma ORDER_NAMES_length: "length ORDER_NAMES = 53"
  by (simp add: ORDER_NAMES_def)

lemma ORDER_NAMES_distinct: "distinct ORDER_NAMES"
  by (simp add: ORDER_NAMES_def)

lemma position_nth: "i < 53 \<Longrightarrow> position (ORDER_NAMES ! i) = Some i"
  by (simp add: position_def index_of_nth ORDER_NAMES_distinct ORDER_NAMES_length)

lemma sort_position_known: "n \<in> set ORDER_NAMES \<longleftrightarrow> sort_position n < 53"
proof
  assume "n \<in> set ORDER_NAMES"
  then obtain i where "i < 53" "n = ORDER_NAMES ! i" by (metis in_set_conv_nth ORDER_NAMES_length)
  then show "sort_position n < 53" by (simp add: sort_position_def position_nth)
next
  assume "sort_position n < 53"
  then show "n \<in> set ORDER_NAMES"
    by (auto simp: sort_position_def position_def USIZE_MAX_def split: option.splits
        dest: index_of_Some)
qed

lemma finalize_chain_sorted:
  "sorted (map (\<lambda>nh. sort_position (fst nh)) (sc_plugins (finalize_chain c)))"
  by (simp add: finalize_chain_def)

lemma finalize_chain_perm: "mset (sc_plugins (finalize_chain c)) = mset (sc_plugins c)"
  by (simp add: finalize_chain_def)

lemma finalize_chain_stable:
  "filter (\<lambda>nh. sort_position (fst nh) = k) (sc_plugins (finalize_chain c))
     = filter (\<lambda>nh. sort_position (fst nh) = k) (sc_plugins c)"
  using sort_key_stable [of "\<lambda>nh. sort_position (fst nh)" k "sc_plugins c"]
  by (simp add: finalize_chain_def)

lemma finalize_chain_id:
  "sorted (map (\<lambda>nh. sort_position (fst nh)) (sc_plugins c)) \<Longrightarrow> finalize_chain c = c"
  by (simp add: finalize_chain_def sort_key_id_if_sorted)

text \<open>Calling it again for the same block and directive does nothing.\<close>

lemma once_per_server_block_again:
  assumes "\<And>x r x'. f x = (r, x') \<Longrightarrow> ct_once x \<subseteq> ct_once x' \<and>
      ct_server_block_index x' = ct_server_block_index x \<and> ct_directive x' = ct_directive x"
    and "once_per_server_block f c = (r, c1)"
  shows "once_per_server_block g c1 = (Inr False, c1)"
proof -
  have "(ct_server_block_index c1, ct_directive c1) \<in> ct_once c1"
    using assms(2) assms(1)
    by (fastforce simp: once_per_server_block_def Let_def split: if_splits prod.splits sum.splits)
  then show ?thesis by (simp add: once_per_server_block_def)
qed

section \<open>Properties\<close>

text \<open>Finalising a configuration sorts its handlers by the registry's position of their directive, keeps
  every handler exactly once, and keeps the order of handlers of the same position.\<close>

lemma finalize_chain_correct:
  "sorted (map (\<lambda>nh. sort_position (fst nh)) (sc_plugins (finalize_chain c)))
   \<and> mset (sc_plugins (finalize_chain c)) = mset (sc_plugins c)
   \<and> filter (\<lambda>nh. sort_position (fst nh) = k) (sc_plugins (finalize_chain c)) = filter (\<lambda>nh. sort_position (fst nh) = k) (sc_plugins c)"
  by (simp add: finalize_chain_sorted finalize_chain_perm finalize_chain_stable)

text \<open>A server block key written with a port is read back: splitting \<open>zone:port\<close> gives the zone and the
  port, for every 16-bit port and every zone text without a colon; and whatever the key, the port read is a
  16-bit value, the transport's default one when the key names none.\<close>

lemma key_port_correct:
  assumes "CHR '':'' \<notin> set z" "p \<le> 65535"
  shows "key_port key t (z @ '':'' @ show_nat p) = Inr (z, p, True)
    \<and> (\<forall>rest z' p' ex. key_port key t rest = Inr (z', p', ex) \<longrightarrow> p' \<le> 65535 \<and> (\<not> ex \<longrightarrow> p' = default_port t \<and> z' = rest))"
  using assms key_port_bound [of key t] key_port_default [of key t] by (auto simp: key_port_render [simplified])

end
