(* ===== verification/Server_Build.thy ===== *)
theory Server_Build
  imports Server_Config
begin

text \<open>
  From parsed server blocks to servers, \<open>src/server/build.rs\<close>: one configuration per key, the
  setups run in the order of the registry, and the configurations grouped by transport and
  listening address.

  The table of directives is an argument of \<open>build\<close>: \<open>registry::ORDER\<close> is the table whose names
  are \<open>ORDER_NAMES\<close>. What \<open>build\<close> relies on of a setup function is the locale
  \<open>setup_function\<close>: it only appends handlers, under its own directive.

  Shown here: a built configuration has its handlers in registry order before
  \<open>finalize_chain\<close> runs, one configuration per key, unknown directives stop the build before
  any setup, and every server of \<open>group_servers\<close> has its own address, holds exactly the
  configurations that listen there, and within a zone distinct views with the filtered ones first.
\<close>

section \<open>Building the configurations\<close>

record build_options =
  bo_default_port :: nat
  bo_corefile :: string

definition build_options_default :: build_options where
  "build_options_default = \<lparr>bo_default_port = 53, bo_corefile = ''Corefile''\<rparr>"

text \<open>\<open>Path::parent\<close> on the text of a path.\<close>

definition path_parent :: "string \<Rightarrow> string option" where
  "path_parent p =
     (let q = trim_end_matches (CHR ''/'') p in
      if q = [] then None
      else (case rfind_char (CHR ''/'') q of
          None \<Rightarrow> Some []
        | Some i \<Rightarrow> (let d = trim_end_matches (CHR ''/'') (take i q) in Some (if d = [] then ''/'' else d))))"

definition corefile_root :: "string option \<Rightarrow> string \<Rightarrow> string \<Rightarrow> string" where
  "corefile_root cwd corefile root0 =
     (case path_parent corefile of
        None \<Rightarrow> root0
      | Some dir \<Rightarrow>
          if dir = [] then (case cwd of Some d \<Rightarrow> d | None \<Rightarrow> ''.'')
          else (case cwd of Some d \<Rightarrow> path_join d dir | None \<Rightarrow> dir))"

fun fold_res :: "('a \<Rightarrow> 'b \<Rightarrow> 'b res) \<Rightarrow> 'a list \<Rightarrow> 'b \<Rightarrow> 'b res" where
  "fold_res f [] s = Inr s"
| "fold_res f (x # xs) s = rbind (f x s) (fold_res f xs)"

definition unknown_directive :: "directive \<Rightarrow> err" where
  "unknown_directive d =
     (let t = hd (dir_tokens d) in tk_file t @ '':'' @ show_nat (tk_line t)
        @ '' - Error during parsing: Unknown directive '' @ quote (dir_name d))"

definition check_directives :: "'s directive_def list \<Rightarrow> server_block list \<Rightarrow> unit res" where
  "check_directives order blocks =
     fold_res (\<lambda>d u. if lookup_def order (dir_name d) = None then Inl (unknown_directive d) else Inr u)
       (concat (map sb_directives blocks)) ()"

definition key_config ::
    "(string \<Rightarrow> dname res) \<Rightarrow> 'net ipnet_api \<Rightarrow> string option \<Rightarrow> build_options \<Rightarrow> nat \<Rightarrow> server_block
     \<Rightarrow> nat \<times> string \<Rightarrow> 's server_config list res" where
  "key_config from_ascii api cwd opts bi b kk =
     (case parse_key from_ascii api (snd kk) of
        Inl e \<Rightarrow> Inl (''Corefile:'' @ show_nat (sb_line b) @ '' - Error during parsing: '' @ e)
      | Inr pk0 \<Rightarrow>
          (let pk = (if \<not> pk_explicit_port pk0 \<and> pk_transport pk0 = T_Dns
                     then pk0\<lparr>pk_port := bo_default_port opts\<rparr> else pk0);
               c = server_config_new cwd pk bi (fst kk) in
           Inr [c\<lparr>sc_root := corefile_root cwd (bo_corefile opts) (sc_root c),
                  sc_values := (sc_values c)(''corefile'' \<mapsto> bo_corefile opts)\<rparr>]))"

definition block_configs ::
    "(string \<Rightarrow> dname res) \<Rightarrow> 'net ipnet_api \<Rightarrow> string option \<Rightarrow> build_options \<Rightarrow> nat \<times> server_block
     \<Rightarrow> 's server_config list res" where
  "block_configs from_ascii api cwd opts ib =
     (case ib of (bi, b) \<Rightarrow>
        if sb_keys b = []
        then Inl (''Corefile:'' @ show_nat (sb_line b) @ '' - Error during parsing: server block has no keys'')
        else try_flat_map (key_config from_ascii api cwd opts bi b) (enumerate 0 (sb_keys b)))"

definition config_index :: "server_block list \<Rightarrow> nat \<Rightarrow> nat \<Rightarrow> nat" where
  "config_index blocks bi ki = sum_list (map (\<lambda>b. length (sb_keys b)) (take bi blocks)) + ki"

type_synonym 's build_state = "'s server_config list \<times> (nat \<times> string) set"

definition attribute_err :: "string \<Rightarrow> err \<Rightarrow> err" where
  "attribute_err name e = (if starts_with e ''plugin/'' then e else ''plugin/'' @ name @ '': '' @ e)"

definition setup_key ::
    "server_block list \<Rightarrow> string \<Rightarrow> 's setup_fn \<Rightarrow> token list \<Rightarrow> nat \<Rightarrow> server_block \<Rightarrow> nat
     \<Rightarrow> 's build_state \<Rightarrow> 's build_state res" where
  "setup_key blocks name setup tokens bi b ki st =
     (case st of (configs, once) \<Rightarrow>
        (let ci = config_index blocks bi ki in
         case setup (controller_new name tokens (configs ! ci) (sb_keys b ! ki) (sb_keys b) bi ki once) of
           (Inl e, _) \<Rightarrow> Inl (attribute_err name e)
         | (Inr _, ctl) \<Rightarrow> Inr (configs[ci := ct_config ctl], ct_once ctl)))"

definition directive_tokens :: "string \<Rightarrow> server_block \<Rightarrow> token list" where
  "directive_tokens name b = concat (map dir_tokens (filter (\<lambda>d. dir_name d = name) (sb_directives b)))"

definition setup_block ::
    "server_block list \<Rightarrow> 's directive_def \<Rightarrow> nat \<times> server_block \<Rightarrow> 's build_state \<Rightarrow> 's build_state res" where
  "setup_block blocks df ib st =
     (case ib of (bi, b) \<Rightarrow>
        (let tokens = directive_tokens (dd_name df) b in
         if tokens = [] then Inr st
         else (case dd_setup df of
             None \<Rightarrow> (let t = hd tokens in Inl (tk_file t @ '':'' @ show_nat (tk_line t) @ '' - plugin/''
                        @ dd_name df @ '': not implemented in this build''))
           | Some setup \<Rightarrow>
               fold_res (setup_key blocks (dd_name df) setup tokens bi b) [0..<length (sb_keys b)] st)))"

definition run_setups ::
    "server_block list \<Rightarrow> 's directive_def list \<Rightarrow> 's build_state \<Rightarrow> 's build_state res" where
  "run_setups blocks order st =
     fold_res (\<lambda>df. fold_res (setup_block blocks df) (enumerate 0 blocks)) order st"

definition build ::
    "(string \<Rightarrow> dname res) \<Rightarrow> 'net ipnet_api \<Rightarrow> string option \<Rightarrow> 's directive_def list \<Rightarrow> build_options
     \<Rightarrow> server_block list \<Rightarrow> 's server_config list res" where
  "build from_ascii api cwd order opts blocks =
     rbind (check_directives order blocks) (\<lambda>_.
     rbind (try_flat_map (block_configs from_ascii api cwd opts) (enumerate 0 blocks)) (\<lambda>configs.
     rbind (run_setups blocks order (configs, {})) (\<lambda>st. Inr (fst st))))"

section \<open>Grouping into servers\<close>

record 's zone_entry =
  ze_config :: "'s server_config"
  ze_chain :: "'s plugin list"

record 's server =
  sv_label :: string
  sv_transport :: transport
  sv_addrs :: "string list"
  sv_zones :: "string \<rightharpoonup> 's zone_entry list"
  sv_tls :: "tls_config option"
  sv_read_timeout :: nat
  sv_write_timeout :: nat
  sv_idle_timeout :: nat
  sv_num_sockets :: nat
  sv_graceful_timeout :: nat

type_synonym listen_key = "transport \<times> string"

definition listen_pairs :: "'s server_config list \<Rightarrow> ('s server_config \<times> listen_key) list" where
  "listen_pairs configs = concat (map (\<lambda>c. map (\<lambda>a. (c, (sc_transport c, a))) (listen_addrs c)) configs)"

fun group_step ::
    "(listen_key \<rightharpoonup> 's server_config list) \<times> listen_key list \<Rightarrow> 's server_config \<times> listen_key
     \<Rightarrow> (listen_key \<rightharpoonup> 's server_config list) \<times> listen_key list" where
  "group_step (groups, order) (c, k) =
     (groups(k \<mapsto> (case groups k of None \<Rightarrow> [] | Some cs \<Rightarrow> cs) @ [c]),
      if groups k = None then order @ [k] else order)"

text \<open>The loop over the configurations of one listener; the times are seconds.\<close>

record 's listener_state =
  ls_zones :: "string \<rightharpoonup> 's zone_entry list"
  ls_tls :: "tls_config option"
  ls_read :: nat
  ls_write :: nat
  ls_idle :: nat
  ls_sockets :: nat

definition listener_init :: "'s listener_state" where
  "listener_init = \<lparr>ls_zones = Map.empty, ls_tls = None, ls_read = 3, ls_write = 5, ls_idle = 10, ls_sockets = 1\<rparr>"

definition unwrap_or :: "'a \<Rightarrow> 'a option \<Rightarrow> 'a" where
  "unwrap_or d m = (case m of Some x \<Rightarrow> x | None \<Rightarrow> d)"

definition entry_of :: "'s server_config \<Rightarrow> 's zone_entry" where
  "entry_of c = \<lparr>ze_config = c, ze_chain = chain c\<rparr>"

definition add_listener_config ::
    "listen_key \<Rightarrow> 's server_config \<Rightarrow> 's listener_state \<Rightarrow> 's listener_state res" where
  "add_listener_config k c st =
     (let existing = unwrap_or [] (ls_zones st (sc_zone c)) in
      if \<exists>e \<in> set existing. sc_view_name (ze_config e) = sc_view_name c
      then Inl (''cannot serve zone '' @ sc_zone c @ '' on '' @ scheme (fst k) @ ''://'' @ snd k
                @ '' twice (use the view plugin to split it)'')
      else Inr \<lparr>ls_zones = (ls_zones st)(sc_zone c \<mapsto> existing @ [entry_of c]),
                ls_tls = (if sc_tls c \<noteq> None then sc_tls c else ls_tls st),
                ls_read = unwrap_or (ls_read st) (sc_read_timeout c),
                ls_write = unwrap_or (ls_write st) (sc_write_timeout c),
                ls_idle = unwrap_or (ls_idle st) (sc_idle_timeout c),
                ls_sockets = max (ls_sockets st) (sc_num_sockets c)\<rparr>)"

definition unfiltered :: "'s zone_entry \<Rightarrow> bool" where
  "unfiltered e \<longleftrightarrow> sc_filter (ze_config e) = None"

definition group_server :: "listen_key \<Rightarrow> 's server_config list \<Rightarrow> 's server res" where
  "group_server k cfgs =
     rbind (fold_res (add_listener_config k) cfgs listener_init) (\<lambda>st.
     if fst k \<in> {T_Tls, T_Quic} \<and> ls_tls st = None
     then Inl (scheme (fst k) @ ''://'' @ snd k @ '': the tls plugin is required for this transport'')
     else Inr \<lparr>sv_label = scheme (fst k) @ ''://'' @ snd k, sv_transport = fst k, sv_addrs = [snd k],
               sv_zones = (\<lambda>z. map_option (sort_key unfiltered) (ls_zones st z)), sv_tls = ls_tls st,
               sv_read_timeout = ls_read st, sv_write_timeout = ls_write st, sv_idle_timeout = ls_idle st,
               sv_num_sockets = ls_sockets st, sv_graceful_timeout = 5\<rparr>)"

definition group_servers :: "'s server_config list \<Rightarrow> 's server list res" where
  "group_servers configs =
     (case foldl group_step (Map.empty, []) (listen_pairs configs) of (groups, order) \<Rightarrow>
        try_flat_map (\<lambda>k. rbind (group_server k (unwrap_or [] (groups k))) (\<lambda>s. Inr [s])) order)"

section \<open>Folds\<close>

lemma fold_res_append: "fold_res f (xs @ ys) s = rbind (fold_res f xs s) (fold_res f ys)"
proof (induction xs arbitrary: s)
  case (Cons x xs)
  then show ?case by (cases "f x s") auto
qed simp

text \<open>An invariant of every step is an invariant of the fold.\<close>

lemma fold_res_inv:
  assumes "fold_res f xs s = Inr t" "I s"
    and "\<And>x s t. x \<in> set xs \<Longrightarrow> I s \<Longrightarrow> f x s = Inr t \<Longrightarrow> I t"
  shows "I t"
  using assms
proof (induction xs arbitrary: s)
  case (Cons x xs)
  then obtain s1 where "f x s = Inr s1" "fold_res f xs s1 = Inr t" by auto
  moreover from this Cons.prems have "I s1" by auto
  ultimately show ?case using Cons.IH Cons.prems(3) by (metis list.set_intros(2))
qed simp

lemma unwrap_or_simps [simp]: "unwrap_or d None = d" "unwrap_or d (Some x) = x"
  by (simp_all add: unwrap_or_def)

lemma length_try_flat_map_single:
  "try_flat_map f xs = Inr ys \<Longrightarrow> (\<And>x zs. x \<in> set xs \<Longrightarrow> f x = Inr zs \<Longrightarrow> length zs = g x) \<Longrightarrow>
   length ys = sum_list (map g xs)"
  by (induction xs arbitrary: ys) auto

section \<open>The setup contract\<close>

locale setup_function =
  fixes su :: "'s setup_fn"
  assumes appends: "su c = (r, c') \<Longrightarrow>
    \<exists>hs. sc_plugins (ct_config c') = sc_plugins (ct_config c) @ map (Pair (ct_directive c)) hs"
begin

lemma setup_sorted:
  assumes s: "sorted (map (\<lambda>nh. sort_position (fst nh)) (sc_plugins (ct_config c)))"
    and le: "\<forall>nh \<in> set (sc_plugins (ct_config c)). sort_position (fst nh) \<le> sort_position (ct_directive c)"
    and run: "su c = (r, c')"
  shows "sorted (map (\<lambda>nh. sort_position (fst nh)) (sc_plugins (ct_config c')))"
    and "\<forall>nh \<in> set (sc_plugins (ct_config c')). sort_position (fst nh) \<le> sort_position (ct_directive c)"
proof -
  from appends [OF run] obtain hs where
    hs: "sc_plugins (ct_config c') = sc_plugins (ct_config c) @ map (Pair (ct_directive c)) hs" by blast
  have const: "sorted (map (\<lambda>nh. sort_position (fst nh)) (map (Pair (ct_directive c)) hs))"
    by (induction hs) auto
  show "sorted (map (\<lambda>nh. sort_position (fst nh)) (sc_plugins (ct_config c')))"
    using s le const by (auto simp: hs sorted_append)
  show "\<forall>nh \<in> set (sc_plugins (ct_config c')). sort_position (fst nh) \<le> sort_position (ct_directive c)"
    using le by (auto simp: hs)
qed

end

definition plugins_upto :: "nat \<Rightarrow> 's server_config \<Rightarrow> bool" where
  "plugins_upto i c \<longleftrightarrow> sorted (map (\<lambda>nh. sort_position (fst nh)) (sc_plugins c)) \<and>
     (\<forall>nh \<in> set (sc_plugins c). sort_position (fst nh) \<le> i)"

lemma plugins_upto_mono: "plugins_upto i c \<Longrightarrow> i \<le> j \<Longrightarrow> plugins_upto j c"
  by (auto simp: plugins_upto_def)

lemma controller_new_simps [simp]:
  "ct_config (controller_new d ts c k ks bi ki once) = c"
  "ct_directive (controller_new d ts c k ks bi ki once) = d"
  by (simp_all add: controller_new_def)

lemma setup_key_upto:
  assumes f: "setup_function su" and run: "setup_key blocks name su ts bi b ki (cs, once) = Inr (cs', once')"
    and cs: "list_all (plugins_upto (sort_position name)) cs"
    and ci: "config_index blocks bi ki < length cs"
  shows "list_all (plugins_upto (sort_position name)) cs' \<and> length cs' = length cs"
proof -
  let ?ci = "config_index blocks bi ki"
  let ?c = "controller_new name ts (cs ! ?ci) (sb_keys b ! ki) (sb_keys b) bi ki once"
  obtain r ctl where sc: "su ?c = (r, ctl)" by (cases "su ?c")
  with run have cs': "cs' = cs[?ci := ct_config ctl]"
    by (auto simp: setup_key_def Let_def split: sum.splits)
  have "plugins_upto (sort_position name) (cs ! ?ci)" using cs ci by (simp add: list_all_length)
  then have "plugins_upto (sort_position name) (ct_config ctl)"
    using setup_function.setup_sorted [OF f _ _ sc] by (simp add: plugins_upto_def)
  then show ?thesis using cs set_update_subset_insert [of cs ?ci "ct_config ctl"]
    by (auto simp: cs' list_all_iff)
qed

lemma config_index_bound:
  assumes "bi < length blocks" "ki < length (sb_keys (blocks ! bi))"
  shows "config_index blocks bi ki < sum_list (map (\<lambda>b. length (sb_keys b)) blocks)"
proof -
  have "blocks = take bi blocks @ blocks ! bi # drop (Suc bi) blocks" using assms(1) by (simp add: id_take_nth_drop)
  then have "sum_list (map (\<lambda>b. length (sb_keys b)) blocks) =
      sum_list (map (\<lambda>b. length (sb_keys b)) (take bi blocks)) + (length (sb_keys (blocks ! bi)) +
      sum_list (map (\<lambda>b. length (sb_keys b)) (drop (Suc bi) blocks)))"
    by (metis (no_types, lifting) list.simps(9) map_append sum_list.Cons sum_list_append)
  then show ?thesis using assms(2) by (simp add: config_index_def)
qed

definition configs_upto :: "server_block list \<Rightarrow> nat \<Rightarrow> 's build_state \<Rightarrow> bool" where
  "configs_upto blocks i st \<longleftrightarrow> list_all (plugins_upto i) (fst st) \<and>
     length (fst st) = sum_list (map (\<lambda>b. length (sb_keys b)) blocks)"

lemma setup_block_upto:
  assumes f: "\<And>su. dd_setup df = Some su \<Longrightarrow> setup_function su"
    and run: "setup_block blocks df ib st = Inr st'" and ib: "ib \<in> set (enumerate 0 blocks)"
    and st: "configs_upto blocks (sort_position (dd_name df)) st"
  shows "configs_upto blocks (sort_position (dd_name df)) st'"
proof -
  have ib': "fst ib < length blocks" "snd ib = blocks ! fst ib" using ib by (simp_all add: in_set_enumerate_eq)
  obtain bi b where b: "ib = (bi, b)" "bi < length blocks" "b = blocks ! bi"
    using ib' by (metis prod.collapse)
  show ?thesis
  proof (cases "directive_tokens (dd_name df) b = []")
    case False
    with run b obtain su where su: "dd_setup df = Some su"
      and fold: "fold_res (setup_key blocks (dd_name df) su (directive_tokens (dd_name df) b) bi b)
         [0..<length (sb_keys b)] st = Inr st'"
      by (auto simp: setup_block_def Let_def split: option.splits)
    show ?thesis
    proof (rule fold_res_inv [where I = "configs_upto blocks (sort_position (dd_name df))", OF fold st])
      fix ki s t
      assume ki: "ki \<in> set [0..<length (sb_keys b)]" and s: "configs_upto blocks (sort_position (dd_name df)) s"
        and step: "setup_key blocks (dd_name df) su (directive_tokens (dd_name df) b) bi b ki s = Inr t"
      obtain cs once cs' once' where st: "s = (cs, once)" "t = (cs', once')" by (metis prod.exhaust)
      have "config_index blocks bi ki < length cs"
        using config_index_bound [OF b(2), of ki] ki s b(3) by (simp add: configs_upto_def st)
      with setup_key_upto [OF f [OF su] step [unfolded st]] s
      show "configs_upto blocks (sort_position (dd_name df)) t" by (simp add: configs_upto_def st)
    qed
  qed (use run st b in \<open>simp add: setup_block_def\<close>)
qed

lemma configs_upto_mono: "configs_upto blocks i st \<Longrightarrow> i \<le> j \<Longrightarrow> configs_upto blocks j st"
  by (auto simp: configs_upto_def list_all_iff intro: plugins_upto_mono)

lemma run_setups_upto:
  assumes "run_setups blocks order st = Inr st'" "configs_upto blocks i st"
    and "\<And>df su. df \<in> set order \<Longrightarrow> dd_setup df = Some su \<Longrightarrow> setup_function su"
    and "sorted (i # map (\<lambda>df. sort_position (dd_name df)) order)"
  shows "\<exists>j. configs_upto blocks j st'"
  using assms
proof (induction order arbitrary: st i)
  case (Cons df order)
  from Cons.prems(1) obtain s1 where s1: "fold_res (setup_block blocks df) (enumerate 0 blocks) st = Inr s1"
    and rest: "run_setups blocks order s1 = Inr st'" by (auto simp: run_setups_def)
  let ?j = "sort_position (dd_name df)"
  have "configs_upto blocks ?j st" using Cons.prems(2,4) by (auto intro: configs_upto_mono)
  then have "configs_upto blocks ?j s1"
    by (rule fold_res_inv [where I = "configs_upto blocks ?j", OF s1]) (use Cons.prems(3) in \<open>auto intro: setup_block_upto\<close>)
  from Cons.IH [OF rest this] Cons.prems(3,4) show ?case by auto
qed (auto simp: run_setups_def)

lemma ORDER_sorted: "sorted (0 # map sort_position ORDER_NAMES)"
proof -
  have "map sort_position ORDER_NAMES = [0..<53]"
    by (rule nth_equalityI) (simp_all add: ORDER_NAMES_length sort_position_def position_nth)
  then show ?thesis by simp
qed

lemma key_config_fresh: "key_config from_ascii api cwd opts bi b kk = Inr cs \<Longrightarrow> length cs = 1 \<and> list_all (plugins_upto 0) cs"
  by (auto simp: key_config_def Let_def server_config_new_def plugins_upto_def split: sum.splits)

lemma try_flat_map_all:
  "try_flat_map f xs = Inr ys \<Longrightarrow> (\<And>x zs. x \<in> set xs \<Longrightarrow> f x = Inr zs \<Longrightarrow> list_all P zs) \<Longrightarrow> list_all P ys"
proof (induction xs arbitrary: ys)
  case (Cons x xs)
  then obtain a b where "f x = Inr a" "try_flat_map f xs = Inr b" "ys = a @ b" by auto
  moreover from this Cons.prems have "list_all P a" by auto
  ultimately show ?case using Cons.IH Cons.prems(2) by (metis list.set_intros(2) list_all_append)
qed simp

lemma block_configs_fresh:
  assumes "block_configs from_ascii api cwd opts ib = Inr cs"
  shows "length cs = length (sb_keys (snd ib)) \<and> list_all (plugins_upto 0) cs"
proof -
  from assms have t: "try_flat_map (key_config from_ascii api cwd opts (fst ib) (snd ib)) (enumerate 0 (sb_keys (snd ib))) = Inr cs"
    by (auto simp: block_configs_def split: prod.splits if_splits)
  have "length cs = sum_list (map (\<lambda>_. 1) (enumerate 0 (sb_keys (snd ib))))"
    by (rule length_try_flat_map_single [OF t]) (use key_config_fresh in blast)
  moreover have "list_all (plugins_upto 0) cs"
    by (rule try_flat_map_all [OF t]) (use key_config_fresh in blast)
  ultimately show ?thesis by (simp add: sum_list_triv)
qed

lemma fresh_configs:
  assumes "try_flat_map (block_configs from_ascii api cwd opts) (enumerate 0 blocks) = Inr cs"
  shows "configs_upto blocks 0 (cs, once)"
proof -
  have "length cs = sum_list (map (\<lambda>ib. length (sb_keys (snd ib))) (enumerate 0 blocks))"
    by (rule length_try_flat_map_single [OF assms]) (use block_configs_fresh in blast)
  also have "\<dots> = sum_list (map (\<lambda>b. length (sb_keys b)) (map snd (enumerate 0 blocks)))" by (simp only: map_map o_def)
  finally have "length cs = sum_list (map (\<lambda>b. length (sb_keys b)) blocks)" by simp
  moreover have "list_all (plugins_upto 0) cs"
    by (rule try_flat_map_all [OF assms]) (use block_configs_fresh in blast)
  ultimately show ?thesis by (simp add: configs_upto_def)
qed

lemma build_configs_upto:
  assumes "build from_ascii api cwd order opts blocks = Inr cfgs"
    and "map dd_name order = ORDER_NAMES"
    and "\<And>df su. df \<in> set order \<Longrightarrow> dd_setup df = Some su \<Longrightarrow> setup_function su"
  shows "\<exists>j. configs_upto blocks j (cfgs, {})"
proof -
  from assms(1) obtain cs st where
    cs: "try_flat_map (block_configs from_ascii api cwd opts) (enumerate 0 blocks) = Inr cs"
    and st: "run_setups blocks order (cs, {}) = Inr st" "cfgs = fst st"
    by (auto simp: build_def)
  have "map (\<lambda>df. sort_position (dd_name df)) order = map sort_position ORDER_NAMES"
    using assms(2) by (simp flip: assms(2))
  then have "sorted (0 # map (\<lambda>df. sort_position (dd_name df)) order)" using ORDER_sorted by simp
  from run_setups_upto [OF st(1) fresh_configs [OF cs] assms(3) this] st(2)
  show ?thesis by (auto simp: configs_upto_def)
qed

lemma check_directives_unknown:
  assumes "\<exists>d \<in> set (concat (map sb_directives blocks)). lookup_def order (dir_name d) = None"
  shows "\<exists>d \<in> set (concat (map sb_directives blocks)). lookup_def order (dir_name d) = None \<and>
     check_directives order blocks = Inl (unknown_directive d)"
proof -
  have "\<exists>d \<in> set ds. lookup_def order (dir_name d) = None \<and>
      fold_res (\<lambda>d u. if lookup_def order (dir_name d) = None then Inl (unknown_directive d) else Inr u) ds () = Inl (unknown_directive d)"
    if "\<exists>d \<in> set ds. lookup_def order (dir_name d) = None" for ds
    using that by (induction ds) auto
  from this [OF assms] show ?thesis by (simp add: check_directives_def)
qed

section \<open>Listeners\<close>

text \<open>The configurations that listen at \<open>k\<close>, once per mention of the address.\<close>

definition configs_at :: "'s server_config list \<Rightarrow> listen_key \<Rightarrow> 's server_config list" where
  "configs_at configs k = map fst (filter (\<lambda>p. snd p = k) (listen_pairs configs))"

definition group_of :: "('s server_config \<times> listen_key) list \<Rightarrow> listen_key \<Rightarrow> 's server_config list option" where
  "group_of ps k = (let cs = map fst (filter (\<lambda>p. snd p = k) ps) in if cs = [] then None else Some cs)"

definition group_inv where
  "group_inv ps go \<longleftrightarrow> (case go of (groups, order) \<Rightarrow>
     distinct order \<and> set order = snd ` set ps \<and>
     groups = group_of ps)"

lemma group_inv_step: "group_inv ps go \<Longrightarrow> group_inv (ps @ [p]) (group_step go p)"
proof -
  assume inv: "group_inv ps go"
  obtain groups order c k where go: "go = (groups, order)" "p = (c, k)" by (cases go; cases p)
  have g: "groups = group_of ps" using inv by (simp add: group_inv_def go)
  have mem: "groups k = None \<longleftrightarrow> k \<notin> set order"
    using inv by (auto simp: group_inv_def go group_of_def Let_def filter_empty_conv image_iff)
  have d: "distinct order" "set order = snd ` set ps" using inv by (simp_all add: group_inv_def go)
  show ?thesis
    unfolding go group_step.simps group_inv_def prod.case
  proof (intro conjI)
    show "distinct (if groups k = None then order @ [k] else order)"
      using d mem by auto
    show "set (if groups k = None then order @ [k] else order) = snd ` set (ps @ [(c, k)])"
      using d mem by auto
    show "groups(k \<mapsto> (case groups k of None \<Rightarrow> [] | Some cs \<Rightarrow> cs) @ [c]) = group_of (ps @ [(c, k)])"
      by (rule ext) (simp add: g group_of_def Let_def)
  qed
qed

lemma group_inv_foldl: "group_inv ps go \<Longrightarrow> group_inv (ps @ qs) (foldl group_step go qs)"
proof (induction qs arbitrary: ps go)
  case (Cons q qs)
  from Cons.IH [OF group_inv_step [OF Cons.prems, of q]] show ?case by simp
qed simp

lemma group_foldl:
  assumes "foldl group_step (Map.empty, []) (listen_pairs configs) = (groups, order)"
  shows "distinct order" "set order = snd ` set (listen_pairs configs)"
    "unwrap_or [] (groups k) = configs_at configs k"
proof -
  have "group_inv [] (Map.empty, [])" by (simp add: group_inv_def group_of_def fun_eq_iff)
  from group_inv_foldl [OF this, of "listen_pairs configs"] assms
  show "distinct order" "set order = snd ` set (listen_pairs configs)"
    "unwrap_or [] (groups k) = configs_at configs k"
    by (auto simp: group_inv_def configs_at_def group_of_def Let_def)
qed

lemma configs_at_iff: "c \<in> set (configs_at configs k) \<longleftrightarrow>
    c \<in> set configs \<and> sc_transport c = fst k \<and> snd k \<in> set (listen_addrs c)"
  by (cases k) (auto simp: configs_at_def listen_pairs_def image_iff)

text \<open>The zone table after adding configurations: per zone its configurations in order, views distinct.\<close>

definition zone_configs :: "'s server_config list \<Rightarrow> string \<Rightarrow> 's server_config list" where
  "zone_configs cs z = filter (\<lambda>c. sc_zone c = z) cs"

definition listener_inv :: "'s server_config list \<Rightarrow> 's listener_state \<Rightarrow> bool" where
  "listener_inv cs st \<longleftrightarrow>
     (\<forall>z. ls_zones st z = (if zone_configs cs z = [] then None else Some (map entry_of (zone_configs cs z))) \<and>
          distinct (map sc_view_name (zone_configs cs z)))"

lemma listener_inv_add:
  assumes inv: "listener_inv cs st" and add: "add_listener_config k c st = Inr st'"
  shows "listener_inv (cs @ [c]) st'"
proof -
  let ?ex = "map entry_of (zone_configs cs (sc_zone c))"
  have ex: "unwrap_or [] (ls_zones st (sc_zone c)) = ?ex" using inv by (simp add: listener_inv_def)
  from add have fresh: "sc_view_name c \<notin> set (map sc_view_name (zone_configs cs (sc_zone c)))"
    and z: "ls_zones st' = (ls_zones st)(sc_zone c \<mapsto> ?ex @ [entry_of c])"
    by (auto simp: add_listener_config_def Let_def ex entry_of_def split: if_splits)
  have zc: "zone_configs (cs @ [c]) y = zone_configs cs y @ (if y = sc_zone c then [c] else [])" for y
    by (simp add: zone_configs_def)
  show ?thesis using inv fresh by (auto simp: listener_inv_def z zc)
qed

lemma listener_inv_fold:
  "fold_res (add_listener_config k) ds st = Inr st' \<Longrightarrow> listener_inv cs st \<Longrightarrow> listener_inv (cs @ ds) st'"
proof (induction ds arbitrary: cs st)
  case (Cons d ds)
  then obtain s1 where s1: "add_listener_config k d st = Inr s1" "fold_res (add_listener_config k) ds s1 = Inr st'"
    by auto
  from Cons.IH [OF s1(2) listener_inv_add [OF Cons.prems(2) s1(1)]] show ?case by simp
qed simp

lemma listener_inv_init: "listener_inv [] listener_init"
  by (simp add: listener_inv_def listener_init_def zone_configs_def)

lemma group_server_zones:
  assumes "group_server k cfgs = Inr s"
  shows "sv_transport s = fst k" "sv_addrs s = [snd k]" "sv_label s = scheme (fst k) @ ''://'' @ snd k"
    "sv_zones s z = (if zone_configs cfgs z = [] then None
       else Some (sort_key unfiltered (map entry_of (zone_configs cfgs z))))"
    "distinct (map sc_view_name (zone_configs cfgs z))"
    "fst k \<in> {T_Tls, T_Quic} \<Longrightarrow> sv_tls s \<noteq> None"
proof -
  from assms obtain st where st: "fold_res (add_listener_config k) cfgs listener_init = Inr st"
    and s: "sv_zones s = (\<lambda>z. map_option (sort_key unfiltered) (ls_zones st z))" "sv_transport s = fst k"
      "sv_addrs s = [snd k]" "sv_label s = scheme (fst k) @ ''://'' @ snd k" "sv_tls s = ls_tls st"
      "\<not> (fst k \<in> {T_Tls, T_Quic} \<and> ls_tls st = None)"
    by (auto simp: group_server_def split: if_splits)
  have "listener_inv cfgs st" using listener_inv_fold [OF st listener_inv_init] by simp
  with s show "sv_transport s = fst k" "sv_addrs s = [snd k]" "sv_label s = scheme (fst k) @ ''://'' @ snd k"
    "sv_zones s z = (if zone_configs cfgs z = [] then None
       else Some (sort_key unfiltered (map entry_of (zone_configs cfgs z))))"
    "distinct (map sc_view_name (zone_configs cfgs z))"
    "fst k \<in> {T_Tls, T_Quic} \<Longrightarrow> sv_tls s \<noteq> None"
    by (auto simp: listener_inv_def)
qed

lemma try_flat_map_single_map:
  "try_flat_map (\<lambda>k. rbind (f k) (\<lambda>s. Inr [s])) ks = Inr ss \<Longrightarrow> list_all2 (\<lambda>k s. f k = Inr s) ks ss"
  by (induction ks arbitrary: ss) auto

text \<open>The listening key of a server.\<close>

definition server_key :: "'s server \<Rightarrow> listen_key" where
  "server_key s = (sv_transport s, hd (sv_addrs s))"

lemma group_servers_keys:
  assumes "group_servers configs = Inr servers"
  shows "distinct (map server_key servers)"
    "set (map server_key servers) = snd ` set (listen_pairs configs)"
    "s \<in> set servers \<Longrightarrow> group_server (server_key s) (configs_at configs (server_key s)) = Inr s"
proof -
  obtain groups order where fold: "foldl group_step (Map.empty, []) (listen_pairs configs) = (groups, order)"
    by (metis prod.exhaust)
  note g = group_foldl [OF fold]
  have a: "list_all2 (\<lambda>k s. group_server k (configs_at configs k) = Inr s) order servers"
    using assms try_flat_map_single_map [of "\<lambda>k. group_server k (configs_at configs k)" order servers]
    by (simp add: group_servers_def fold g)
  have key: "server_key s = k" if "group_server k cs = Inr s" for k cs s
    using group_server_zones(1,2) [OF that] by (simp add: server_key_def)
  have m: "map server_key servers = order"
    using a by (induction rule: list_all2_induct) (auto simp: key)
  then show "distinct (map server_key servers)"
    "set (map server_key servers) = snd ` set (listen_pairs configs)" using g by auto
  show "group_server (server_key s) (configs_at configs (server_key s)) = Inr s" if "s \<in> set servers"
    using a that by (induction rule: list_all2_induct) (auto simp: key)
qed

lemma sort_key_unfiltered:
  "sorted (map unfiltered (sort_key unfiltered es))" "set (sort_key unfiltered es) = set es"
  by simp_all

section \<open>Properties\<close>

lemma distinct_map_sort_key: "distinct (map f (sort_key k xs)) \<longleftrightarrow> distinct (map f xs)"
  by (rule mset_eq_imp_distinct_iff) simp

text \<open>C4: Grouping configurations into servers: no two servers share a transport and address; every address a
  configuration listens on has a server that serves the configuration's zone with its chain; a server holds
  only configurations that listen on its address, under their own zone, with distinct view names and the
  filtered ones before the catch-all; and a TLS or QUIC server has a TLS configuration.\<close>

theorem group_servers_correct:
  assumes "group_servers configs = Inr servers"
  shows "distinct (map server_key servers)
    \<and> (\<forall>c \<in> set configs. \<forall>a \<in> set (listen_addrs c). \<exists>s \<in> set servers. \<exists>es.
         server_key s = (sc_transport c, a) \<and> sv_zones s (sc_zone c) = Some es \<and> entry_of c \<in> set es)
    \<and> (\<forall>s \<in> set servers. (sv_transport s \<in> {T_Tls, T_Quic} \<longrightarrow> sv_tls s \<noteq> None)
         \<and> (\<forall>z es. sv_zones s z = Some es \<longrightarrow> sorted (map unfiltered es)
              \<and> distinct (map (\<lambda>e. sc_view_name (ze_config e)) es)
              \<and> (\<forall>e \<in> set es. \<exists>c \<in> set configs. e = entry_of c \<and> sc_zone c = z \<and> sc_transport c = sv_transport s
                    \<and> hd (sv_addrs s) \<in> set (listen_addrs c))))"
proof (intro conjI ballI)
  note keys = group_servers_keys [OF assms]
  show "distinct (map server_key servers)" by (rule keys(1))
  show "\<exists>s \<in> set servers. \<exists>es. server_key s = (sc_transport c, a) \<and> sv_zones s (sc_zone c) = Some es \<and> entry_of c \<in> set es"
    if "c \<in> set configs" "a \<in> set (listen_addrs c)" for c a
  proof -
    have "(sc_transport c, a) \<in> snd ` set (listen_pairs configs)" using that by (force simp: listen_pairs_def)
    then obtain s where s: "s \<in> set servers" "server_key s = (sc_transport c, a)" using keys(2) by (metis (no_types, lifting) image_iff list.set_map)
    have "c \<in> set (zone_configs (configs_at configs (server_key s)) (sc_zone c))"
      using that s by (simp add: zone_configs_def configs_at_iff)
    then have "\<exists>es. sv_zones s (sc_zone c) = Some es \<and> entry_of c \<in> set es"
      using group_server_zones(4) [OF keys(3) [OF s(1)], of "sc_zone c"] by (auto simp: sort_key_unfiltered)
    with s show ?thesis by blast
  qed
next
  fix s assume s: "s \<in> set servers"
  note g = group_servers_keys(3) [OF assms s]
  show "sv_transport s \<in> {T_Tls, T_Quic} \<longrightarrow> sv_tls s \<noteq> None" using group_server_zones(1,6) [OF g] by simp
  show "\<forall>z es. sv_zones s z = Some es \<longrightarrow> sorted (map unfiltered es)
              \<and> distinct (map (\<lambda>e. sc_view_name (ze_config e)) es)
              \<and> (\<forall>e \<in> set es. \<exists>c \<in> set configs. e = entry_of c \<and> sc_zone c = z \<and> sc_transport c = sv_transport s
                    \<and> hd (sv_addrs s) \<in> set (listen_addrs c))"
    using group_server_zones(4,5) [OF g]
    by (auto simp: sort_key_unfiltered distinct_map_sort_key zone_configs_def configs_at_iff server_key_def entry_of_def o_def
        split: if_splits)
qed

theorem group_servers_correct_witness:
  "\<exists>servers. group_servers [server_config_new None \<lparr>pk_transport = T_Dns, pk_zone = ''.'', pk_port = 53, pk_explicit_port = False\<rparr> 0 0 :: unit server_config] = Inr servers
     \<and> distinct (map server_key servers)"
proof -
  let ?cs = "[server_config_new None \<lparr>pk_transport = T_Dns, pk_zone = ''.'', pk_port = 53, pk_explicit_port = False\<rparr> 0 0 :: unit server_config]"
  have "is_ok (group_servers ?cs)"
    by (simp add: group_servers_def listen_pairs_def server_config_new_def listen_addrs_def group_server_def
        add_listener_config_def listener_init_def)
  then obtain servers where "group_servers ?cs = Inr servers" by (auto simp: is_ok_def split: sum.splits)
  with group_servers_correct [OF this] show ?thesis by blast
qed

text \<open>A directive that is not in the registry stops the build before any setup runs: the result is the
  error of some unknown directive of the Corefile, whatever the rest of it holds.\<close>

lemma build_unknown_directive:
  assumes "d \<in> set (concat (map sb_directives blocks))" "lookup_def order (dir_name d) = None"
  shows "\<exists>d' \<in> set (concat (map sb_directives blocks)). lookup_def order (dir_name d') = None
    \<and> build from_ascii api cwd order opts blocks = Inl (unknown_directive d')"
  using check_directives_unknown [of blocks order] assms unfolding build_def by (metis rbind.simps(1))

end
