(* ===== verification/Server_Core.thy ===== *)
theory Server_Core
  imports Server_Build
begin

text \<open>
  Serving a query, \<open>src/server/mod.rs\<close>: finding the zone entry, running its chain, turning the
  outcome into messages, encoding them, framing them on streams, and self lookups.

  \<open>std::process::exit\<close> after a panic with \<open>debug\<close> configured is the result \<open>Exited\<close>. The panic
  counter and the log lines are left out. The wire codec of \<open>hickory_proto\<close> is the record
  \<open>codec\<close>: parsing, encoding, and encoding under a size limit.

  Shown here: \<open>lookup\<close> is the first accepting entry among the zones of the ancestors of the name,
  most specific first; an answer is never empty and every message of it carries the id of the
  query; encoded responses respect the size the client announced, as long as the chain leaves its EDNS record alone; and the stream reader recovers
  what the stream writer framed.
\<close>

section \<open>The label walk\<close>

text \<open>What a function that drops the leftmost label of a name promises, and what a loop on it sees.\<close>

locale label_walk =
  fixes up :: "string \<Rightarrow> string"
  assumes up_fq: "list_all label_ok (l # ls) \<Longrightarrow> up (fq (l # ls)) = fq ls"
    and up_root: "up ''.'' = ''.''"
begin

lemma walk_drop: "list_all label_ok ls \<Longrightarrow> (up ^^ k) (fq ls) = fq (drop k ls)"
proof (induction k arbitrary: ls)
  case (Suc k)
  show ?case
  proof (cases ls)
    case Nil
    have "(up ^^ n) ''.'' = ''.''" for n by (induction n) (simp_all add: up_root)
    from this [of "Suc k"] show ?thesis by (simp only: Nil fq_def drop_Nil simp_thms if_True)
  next
    case (Cons l ls')
    with Suc up_fq show ?thesis by (simp add: funpow_Suc_right del: funpow.simps)
  qed
qed simp

lemma walk_hits: "list_all label_ok ns \<Longrightarrow> suffix zs ns \<Longrightarrow> \<exists>k \<le> length ns. (up ^^ k) (fq ns) = fq zs"
proof -
  assume "list_all label_ok ns" "suffix zs ns"
  moreover from this(2) obtain ps where "ns = ps @ zs" by (auto simp: suffix_def)
  ultimately show ?thesis by (intro exI [of _ "length ps"]) (simp add: walk_drop)
qed

end

text \<open>The step of \<open>Server::lookup\<close>.\<close>

definition strip_label :: "string \<Rightarrow> string" where
  "strip_label cursor =
     (case find_char (CHR ''.'') cursor of
        Some i \<Rightarrow> if i + 1 < length cursor then drop (i + 1) cursor else ''.''
      | None \<Rightarrow> ''.'')"

lemma strip_label_fq: "list_all label_ok (l # ls) \<Longrightarrow> strip_label (fq (l # ls)) = fq ls"
  by (auto simp: strip_label_def fq_def label_ok_def)

interpretation server_walk: label_walk strip_label
  by unfold_locales (simp_all only: strip_label_fq, simp add: strip_label_def)

lemma strip_label_shorter: "c \<noteq> ''.'' \<Longrightarrow> strip_label c = ''.'' \<or> length (strip_label c) < length c"
  by (auto simp: strip_label_def split: option.splits dest: find_char_SomeD)

section \<open>Finding the zone\<close>

fun pick_entry :: "'s zone_entry list \<Rightarrow> request \<Rightarrow> 's zone_entry option \<times> request" where
  "pick_entry [] req = (None, req)"
| "pick_entry (e # es) req =
     (let req1 = (case sc_metadata (ze_config e) of Some collect \<Rightarrow> collect req | None \<Rightarrow> req) in
      case sc_filter (ze_config e) of
        Some f \<Rightarrow> if \<not> f req1 then pick_entry es req1 else (Some e, req1)
      | None \<Rightarrow> (Some e, req1))"

function lookup_loop :: "(string \<rightharpoonup> 's zone_entry list) \<Rightarrow> string \<Rightarrow> request \<Rightarrow> 's zone_entry option \<times> request" where
  "lookup_loop zones cursor req =
     (case (case zones cursor of Some entries \<Rightarrow> pick_entry entries req | None \<Rightarrow> (None, req)) of
        (Some e, req1) \<Rightarrow> (Some e, req1)
      | (None, req1) \<Rightarrow>
          if cursor = ''.'' then (None, req1) else lookup_loop zones (strip_label cursor) req1)"
  by pat_completeness auto
termination
  by (relation "measure (\<lambda>(_, c, _). if c = ''.'' then 0 else Suc (length c))")
    (use strip_label_shorter in auto)

declare lookup_loop.simps [simp del]

definition server_lookup :: "'s server \<Rightarrow> request \<Rightarrow> 's zone_entry option \<times> request" where
  "server_lookup sv req = lookup_loop (sv_zones sv) (name_uncached req) req"

section \<open>Serving\<close>

datatype 'a proc = Ran 'a | Exited nat

definition DEBUG_KEY :: string where "DEBUG_KEY = ''debug/on''"

definition badvers_reply :: "message \<Rightarrow> message" where
  "badvers_reply q =
     (let m = error_reply q BADVERS in
      case m_edns m of Some e \<Rightarrow> m\<lparr>m_edns := Some (e\<lparr>ed_version := 0\<rparr>)\<rparr> | None \<Rightarrow> m)"

definition as_response_to :: "message \<Rightarrow> message \<Rightarrow> message" where
  "as_response_to q m = m\<lparr>m_id := m_id q, m_type := MtResponse\<rparr>"

definition with_question_of :: "message \<Rightarrow> message \<Rightarrow> message" where
  "with_question_of q m =
     (if m_queries m = [] then (case first (m_queries q) of Some x \<Rightarrow> add_query x m | None \<Rightarrow> m) else m)"

fun finish_outcome :: "'s server_config \<Rightarrow> outcome \<Rightarrow> request \<Rightarrow> message list option proc" where
  "finish_outcome cfg (Replied (RMsg m)) req = Ran (Some [with_question_of (rq_msg req) (as_response_to (rq_msg req) m)])"
| "finish_outcome cfg (Replied (RMulti v)) req =
     (let v' = map (as_response_to (rq_msg req)) v in
      if v' = [] then Ran (Some [error_reply (rq_msg req) ServFail]) else Ran (Some v'))"
| "finish_outcome cfg (Replied RDrop) req = Ran None"
| "finish_outcome cfg (Replied (RRcode rc)) req = Ran (Some [error_reply (rq_msg req) rc])"
| "finish_outcome cfg (Failed e) req = Ran (Some [error_reply (rq_msg req) (pe_rcode e)])"
| "finish_outcome cfg (Panicked what) req =
     (if sc_values cfg DEBUG_KEY \<noteq> None then Exited 2 else Ran (Some [error_reply (rq_msg req) ServFail]))"

definition serve_request_inner ::
    "'s server \<Rightarrow> request \<Rightarrow> 's \<Rightarrow> message list option proc \<times> request \<times> 's" where
  "serve_request_inner sv req s =
     (let bad = (case m_edns (rq_msg req) of Some e \<Rightarrow> ed_version e \<noteq> 0 | None \<Rightarrow> False) in
      if bad then (Ran (Some [badvers_reply (rq_msg req)]), req, s)
      else if m_queries (rq_msg req) = [] then (Ran (Some [error_reply (rq_msg req) Refused]), req, s)
      else (case server_lookup sv req of
          (None, req1) \<Rightarrow> (Ran (Some [error_reply (rq_msg req1) Refused]), req1, s)
        | (Some e, req1) \<Rightarrow>
            (let req2 = req1\<lparr>rq_zone := sc_zone (ze_config e), rq_view := sc_view_name (ze_config e)\<rparr> in
             case nx_serve (next_of (ze_chain e)) req2 s of
               (out, req3, s') \<Rightarrow> (finish_outcome (ze_config e) out req3, req3, s'))))"

text \<open>\<open>serve_request\<close>: \<open>swap_remove(0)\<close> of the messages; an empty vector would panic.\<close>

definition serve_request :: "'s server \<Rightarrow> request \<Rightarrow> 's \<Rightarrow> message option proc \<times> request \<times> 's" where
  "serve_request sv req s =
     (case serve_request_inner sv req s of
        (Ran (Some v), req', s') \<Rightarrow> (Ran (Some (hd v)), req', s')
      | (Ran None, req', s') \<Rightarrow> (Ran None, req', s')
      | (Exited n, req', s') \<Rightarrow> (Exited n, req', s'))"

record codec =
  cd_from_bytes :: "u8 list \<Rightarrow> message res"
  cd_to_vec :: "message \<Rightarrow> u8 list res"
  cd_emit :: "u16 \<Rightarrow> message \<Rightarrow> u8 list res"

fun encode_all :: "codec \<Rightarrow> message \<Rightarrow> nat \<Rightarrow> message list \<Rightarrow> u8 list list option" where
  "encode_all cd q mx [] = Some []"
| "encode_all cd q mx (m # ms) =
     (case (case encode_with_limit (cd_emit cd) m mx of
              Inr b \<Rightarrow> Some b
            | Inl _ \<Rightarrow> ok (cd_to_vec cd (error_reply q ServFail))) of
        None \<Rightarrow> None
      | Some b \<Rightarrow> map_option ((#) b) (encode_all cd q mx ms))"

definition formerr_bytes :: "codec \<Rightarrow> u8 list \<Rightarrow> u8 list list option" where
  "formerr_bytes cd buf =
     (if length buf \<ge> 2
      then map_option (\<lambda>b. [b]) (ok (cd_to_vec cd (message_new\<lparr>m_id := push_bit 8 (ucast (buf ! 0)) OR ucast (buf ! 1),
                                              m_type := MtResponse, m_rcode := FormErr\<rparr>)))
      else None)"

definition incoming ::
    "'s server \<Rightarrow> nat \<Rightarrow> message \<Rightarrow> u8 list \<Rightarrow> socket_addr \<Rightarrow> socket_addr \<Rightarrow> proto \<Rightarrow> http_info option
     \<Rightarrow> string option \<Rightarrow> request" where
  "incoming sv now m buf remote loc pr http sni =
     (request_new now m remote loc pr)
       \<lparr>rq_server := sv_label sv, rq_http := http, rq_tls_server_name := sni, rq_raw := Some buf\<rparr>"

definition serve_bytes_all ::
    "codec \<Rightarrow> 's server \<Rightarrow> nat \<Rightarrow> u8 list \<Rightarrow> socket_addr \<Rightarrow> socket_addr \<Rightarrow> proto \<Rightarrow> http_info option
     \<Rightarrow> string option \<Rightarrow> 's \<Rightarrow> u8 list list option proc \<times> 's" where
  "serve_bytes_all cd sv now buf remote loc pr http sni s =
     (case cd_from_bytes cd buf of
        Inl e \<Rightarrow> (Ran (formerr_bytes cd buf), s)
      | Inr m \<Rightarrow>
          (case serve_request_inner sv (incoming sv now m buf remote loc pr http sni) s of
             (Ran (Some msgs), req, s') \<Rightarrow> (Ran (encode_all cd (rq_msg req) (req_size req) msgs), s')
           | (Ran None, req, s') \<Rightarrow> (Ran None, s')
           | (Exited n, req, s') \<Rightarrow> (Exited n, s')))"

definition serve_bytes ::
    "codec \<Rightarrow> 's server \<Rightarrow> nat \<Rightarrow> u8 list \<Rightarrow> socket_addr \<Rightarrow> socket_addr \<Rightarrow> proto \<Rightarrow> http_info option
     \<Rightarrow> string option \<Rightarrow> 's \<Rightarrow> u8 list option proc \<times> 's" where
  "serve_bytes cd sv now buf remote loc pr http sni s =
     (case serve_bytes_all cd sv now buf remote loc pr http sni s of
        (Ran v, s') \<Rightarrow> (Ran (Option.bind v first), s')
      | (Exited n, s') \<Rightarrow> (Exited n, s'))"

section \<open>Streams\<close>

text \<open>The writer of \<open>serve_stream\<close>: a two-octet length (\<open>len as u16\<close>), then the message.\<close>

definition frame :: "u8 list \<Rightarrow> u8 list" where
  "frame resp = (let n = (of_nat (length resp) :: u16) in ucast (drop_bit 8 n) # ucast n # resp)"

text \<open>The reader: the packets of the octets that arrive until the peer or the server closes.\<close>

function read_stream :: "u8 list \<Rightarrow> u8 list list" where
  "read_stream (hi # lo # rest) =
     (let n = unat (push_bit 8 (ucast hi) OR ucast lo :: u16) in
      if n = 0 then []
      else if length rest < n then []
      else take n rest # read_stream (drop n rest))"
| "read_stream [] = []"
| "read_stream [x] = []"
  by pat_completeness auto
termination by (relation "measure length") auto

section \<open>Self lookups\<close>

definition self_lookup ::
    "'s server list \<Rightarrow> nat \<Rightarrow> u16 \<Rightarrow> request \<Rightarrow> dname \<Rightarrow> rtype \<Rightarrow> 's \<Rightarrow> message res proc \<times> 's" where
  "self_lookup servers now rid req name qt s =
     (if rq_lookup_depth req \<ge> 8 then (Ran (Inl (''self lookup nesting too deep for '' @ name)), s)
      else (case (case find (\<lambda>sv. sv_label sv = rq_server req) servers of
                    Some sv \<Rightarrow> Some sv | None \<Rightarrow> first servers) of
          None \<Rightarrow> (Ran (Inl ''no running server for self lookup''), s)
        | Some sv \<Rightarrow>
            (let r0 = new_with_question now rid req name qt;
                 r = r0\<lparr>rq_lookup_depth := rq_lookup_depth r0 + 1, rq_server := sv_label sv\<rparr> in
             case serve_request sv r s of
               (Ran (Some m), r', s') \<Rightarrow> (Ran (Inr m), s')
             | (Ran None, r', s') \<Rightarrow> (Ran (Inl (''query for '' @ name_uncached r' @ '' was dropped'')), s')
             | (Exited n, r', s') \<Rightarrow> (Exited n, s'))))"

section \<open>Which zone answers\<close>

text \<open>The entries \<open>lookup\<close> tries for a name of labels \<open>ns\<close>: those of the name itself, then of each ancestor.\<close>

fun candidates :: "(string \<rightharpoonup> 's zone_entry list) \<Rightarrow> string list \<Rightarrow> 's zone_entry list" where
  "candidates zones [] = unwrap_or [] (zones ''.'')"
| "candidates zones (l # ls) = unwrap_or [] (zones (fq (l # ls))) @ candidates zones ls"

lemma pick_entry_append:
  "pick_entry (as @ bs) req = (case pick_entry as req of (Some e, r) \<Rightarrow> (Some e, r) | (None, r) \<Rightarrow> pick_entry bs r)"
  by (induction as arbitrary: req) (auto simp: Let_def split: option.splits)

lemma lookup_loop_candidates:
  "list_all label_ok ns \<Longrightarrow> lookup_loop zones (fq ns) req = pick_entry (candidates zones ns) req"
proof (induction ns arbitrary: req)
  case Nil
  show ?case
    by (subst lookup_loop.simps) (auto simp: fq_def split: option.splits prod.splits)
next
  case (Cons l ls)
  then have nd: "fq (l # ls) \<noteq> ''.''" by simp
  have up: "strip_label (fq (l # ls)) = fq ls" using Cons.prems by (rule strip_label_fq)
  have IH: "lookup_loop zones (fq ls) r = pick_entry (candidates zones ls) r" for r
    using Cons by simp
  show ?case
    by (subst lookup_loop.simps)
      (cases "zones (fq (l # ls))"; simp add: nd up IH pick_entry_append split: option.splits prod.splits)
qed

lemma candidates_iff:
  "e \<in> set (candidates zones ns) \<longleftrightarrow> (\<exists>zs es. suffix zs ns \<and> zones (fq zs) = Some es \<and> e \<in> set es)"
proof (induction ns)
  case Nil
  then show ?case by (cases "zones ''.''") (auto simp: fq_def)
next
  case (Cons l ls)
  have "e \<in> set (unwrap_or [] (zones (fq (l # ls)))) \<longleftrightarrow> (\<exists>es. zones (fq (l # ls)) = Some es \<and> e \<in> set es)"
    by (cases "zones (fq (l # ls))") auto
  then show ?case using Cons by (auto simp: suffix_Cons)
qed

definition accepts :: "'s zone_entry \<Rightarrow> request \<Rightarrow> bool" where
  "accepts e req \<longleftrightarrow> (case sc_filter (ze_config e) of Some f \<Rightarrow> f req | None \<Rightarrow> True)"

lemma pick_entry_find:
  "\<forall>e \<in> set es. sc_metadata (ze_config e) = None \<Longrightarrow> pick_entry es req = (find (\<lambda>e. accepts e req) es, req)"
  by (induction es) (auto simp: accepts_def split: option.splits)

lemma pick_entry_mem: "pick_entry es req = (Some e, req') \<Longrightarrow> e \<in> set es"
  by (induction es arbitrary: req) (auto simp: Let_def split: option.splits if_splits)

lemma find_first:
  assumes "find P xs = Some x"
  shows "\<exists>as bs. xs = as @ x # bs \<and> (\<forall>a \<in> set as. \<not> P a) \<and> P x"
  using assms
proof (induction xs)
  case (Cons y ys)
  show ?case
  proof (cases "P y")
    case True
    with Cons.prems show ?thesis by (intro exI [of _ "[]"] exI [of _ ys]) auto
  next
    case False
    with Cons obtain as bs where "ys = as @ x # bs" "\<forall>a \<in> set as. \<not> P a" "P x" by auto
    with False show ?thesis by (intro exI [of _ "y # as"] exI [of _ bs]) auto
  qed
qed simp

text \<open>An entry of a more specific zone comes first among the candidates.\<close>

lemma candidates_split:
  assumes "suffix zs ns"
  shows "\<exists>front. candidates zones ns = front @ candidates zones zs \<and>
     (\<forall>e \<in> set front. \<exists>ys es. suffix ys ns \<and> length zs < length ys \<and> zones (fq ys) = Some es \<and> e \<in> set es)"
  using assms
proof (induction ns)
  case (Cons n ns)
  show ?case
  proof (cases "zs = n # ns")
    case False
    with Cons.prems have s: "suffix zs ns" by (auto simp: suffix_Cons)
    from Cons.IH [OF s] obtain front where f: "candidates zones ns = front @ candidates zones zs"
      "\<forall>e \<in> set front. \<exists>ys es. suffix ys ns \<and> length zs < length ys \<and> zones (fq ys) = Some es \<and> e \<in> set es" by auto
    let ?own = "unwrap_or [] (zones (fq (n # ns)))"
    have own: "\<exists>ys es. suffix ys (n # ns) \<and> length zs < length ys \<and> zones (fq ys) = Some es \<and> e \<in> set es"
      if "e \<in> set ?own" for e
      using that suffix_length_le [OF s]
      by (cases "zones (fq (n # ns))") (auto intro!: exI [of _ "n # ns"])
    have rest: "\<exists>ys es. suffix ys (n # ns) \<and> length zs < length ys \<and> zones (fq ys) = Some es \<and> e \<in> set es"
      if "e \<in> set front" for e
      using f(2) that by (meson suffix_ConsI)
    show ?thesis
      by (intro exI [of _ "?own @ front"] conjI ballI) (use f(1) own rest in auto)
  qed (auto intro: exI [of _ "[]"])
qed auto

section \<open>Answers\<close>

lemma error_reply_fields [simp]:
  "m_id (error_reply q rc) = m_id q" "m_type (error_reply q rc) = MtResponse"
  "m_rcode (error_reply q rc) = rc" "m_answers (error_reply q rc) = []"
  by (auto simp: error_reply_def message_defs Let_def split: option.splits)

lemma error_reply_queries: "m_queries (error_reply q rc) = take 1 (m_queries q)"
  by (cases "m_queries q") (auto simp: error_reply_def message_defs Let_def split: option.splits)

lemma badvers_reply_fields [simp]: "m_id (badvers_reply q) = m_id q" "m_type (badvers_reply q) = MtResponse"
  by (auto simp: badvers_reply_def Let_def split: option.splits)

lemma finish_outcome_nonempty: "finish_outcome cfg out req \<noteq> Ran (Some [])"
  by (cases "(cfg, out, req)" rule: finish_outcome.cases) (auto simp: Let_def)

lemma serve_request_inner_nonempty:
  "serve_request_inner sv req s = (Ran (Some v), req', s') \<Longrightarrow> v \<noteq> []"
  using finish_outcome_nonempty
  by (auto simp: serve_request_inner_def Let_def split: if_splits prod.splits option.splits)

lemma finish_outcome_id:
  "finish_outcome cfg out req = Ran (Some v) \<Longrightarrow> m \<in> set v \<Longrightarrow> m_id m = m_id (rq_msg req) \<and> m_type m = MtResponse"
  by (cases "(cfg, out, req)" rule: finish_outcome.cases)
    (auto simp: Let_def as_response_to_def with_question_of_def add_query_def split: if_splits option.splits)

text \<open>Metadata providers are given the request to label; the query itself is not theirs to change.\<close>

definition collectors_keep_msg :: "'s server \<Rightarrow> bool" where
  "collectors_keep_msg sv \<longleftrightarrow> (\<forall>z es e f req. sv_zones sv z = Some es \<longrightarrow> e \<in> set es \<longrightarrow>
     sc_metadata (ze_config e) = Some f \<longrightarrow> rq_msg (f req) = rq_msg req)"

lemma pick_entry_msg:
  "\<forall>e \<in> set es. \<forall>f. sc_metadata (ze_config e) = Some f \<longrightarrow> (\<forall>r. rq_msg (f r) = rq_msg r) \<Longrightarrow>
   rq_msg (snd (pick_entry es req)) = rq_msg req"
  by (induction es arbitrary: req) (auto simp: Let_def split: option.splits)

lemma lookup_loop_msg:
  assumes "\<And>z es. zones z = Some es \<Longrightarrow>
      \<forall>e \<in> set es. \<forall>f. sc_metadata (ze_config e) = Some f \<longrightarrow> (\<forall>r. rq_msg (f r) = rq_msg r)"
  shows "rq_msg (snd (lookup_loop zones c req)) = rq_msg req"
  using assms
proof (induction zones c req rule: lookup_loop.induct)
  case (1 zones c req)
  obtain me req1 where step: "(case zones c of Some entries \<Rightarrow> pick_entry entries req | None \<Rightarrow> (None, req)) = (me, req1)"
    by (metis prod.exhaust)
  have m: "rq_msg req1 = rq_msg req"
    using step pick_entry_msg [OF "1.prems", of c _ req] by (auto split: option.splits dest: arg_cong [where f = snd])
  show ?case
  proof (cases "me = None \<and> c \<noteq> ''.''")
    case True
    then have "rq_msg (snd (lookup_loop zones (strip_label c) req1)) = rq_msg req1"
      using "1.IH" [OF step [symmetric]] "1.prems" by simp
    with True step m show ?thesis by (subst lookup_loop.simps) simp
  next
    case False
    with step m show ?thesis by (subst lookup_loop.simps) (auto split: option.splits)
  qed
qed

lemma server_lookup_msg: "collectors_keep_msg sv \<Longrightarrow> rq_msg (snd (server_lookup sv req)) = rq_msg req"
  unfolding server_lookup_def by (rule lookup_loop_msg) (auto simp: collectors_keep_msg_def)

definition chains_keep_id :: "'s server \<Rightarrow> bool" where
  "chains_keep_id sv \<longleftrightarrow> (\<forall>z es e. sv_zones sv z = Some es \<longrightarrow> e \<in> set es \<longrightarrow> keeps_id (nx_serve (next_of (ze_chain e))))"

lemma server_lookup_entry:
  assumes "server_lookup sv req = (Some e, req')"
  shows "\<exists>z es. sv_zones sv z = Some es \<and> e \<in> set es"
proof -
  have "lookup_loop zones c req = (Some e, req') \<Longrightarrow> \<exists>z es. zones z = Some es \<and> e \<in> set es" for zones c
  proof (induction zones c req rule: lookup_loop.induct)
    case (1 zones c req)
    obtain me req1 where step: "(case zones c of Some entries \<Rightarrow> pick_entry entries req | None \<Rightarrow> (None, req)) = (me, req1)"
      by (metis prod.exhaust)
    show ?case
    proof (cases me)
      case None
      with "1.prems" step have "c \<noteq> ''.''" "lookup_loop zones (strip_label c) req1 = (Some e, req')"
        by (simp_all add: lookup_loop.simps [of zones c] split: if_splits)
      then show ?thesis using "1.IH" [OF step [symmetric]] None by simp
    next
      case (Some e')
      with "1.prems" step have "e' = e" by (simp add: lookup_loop.simps [of zones c])
      with Some step show ?thesis by (auto split: option.splits dest: pick_entry_mem)
    qed
  qed
  with assms show ?thesis unfolding server_lookup_def by blast
qed

lemma serve_request_inner_id:
  assumes sv: "collectors_keep_msg sv" "chains_keep_id sv"
    and run: "serve_request_inner sv req s = (Ran (Some v), req', s')" and m: "m \<in> set v"
  shows "m_id m = m_id (rq_msg req) \<and> m_type m = MtResponse"
proof -
  obtain me req1 where look: "server_lookup sv req = (me, req1)" by (metis prod.exhaust)
  have msg: "rq_msg req1 = rq_msg req" using server_lookup_msg [OF sv(1), of req] look by simp
  show ?thesis
  proof (cases "(case m_edns (rq_msg req) of Some e \<Rightarrow> ed_version e \<noteq> 0 | None \<Rightarrow> False)
      \<or> m_queries (rq_msg req) = [] \<or> me = None")
    case True
    with run m look msg show ?thesis
      by (auto simp: serve_request_inner_def Let_def split: if_splits)
  next
    case False
    then obtain e where e: "me = Some e" by auto
    let ?req2 = "req1\<lparr>rq_zone := sc_zone (ze_config e), rq_view := sc_view_name (ze_config e)\<rparr>"
    obtain out req3 s3 where o: "nx_serve (next_of (ze_chain e)) ?req2 s = (out, req3, s3)" by (metis prod.exhaust)
    from False run look e o have fin: "finish_outcome (ze_config e) out req3 = Ran (Some v)"
      by (auto simp: serve_request_inner_def Let_def)
    have "keeps_id (nx_serve (next_of (ze_chain e)))"
      using sv(2) server_lookup_entry look e unfolding chains_keep_id_def by metis
    from keeps_idD(1) [OF this o] msg have "m_id (rq_msg req3) = m_id (rq_msg req)" by simp
    with finish_outcome_id [OF fin m] show ?thesis by simp
  qed
qed

lemma serve_panic:
  assumes "case m_edns (rq_msg req) of Some e \<Rightarrow> ed_version e = 0 | None \<Rightarrow> True" "m_queries (rq_msg req) \<noteq> []"
    and "server_lookup sv req = (Some e, req1)"
    and "nx_serve (next_of (ze_chain e)) (req1\<lparr>rq_zone := sc_zone (ze_config e), rq_view := sc_view_name (ze_config e)\<rparr>) s
      = (Panicked what, req2, s')"
  shows "fst (serve_request_inner sv req s) =
    (if sc_values (ze_config e) DEBUG_KEY = None then Ran (Some [error_reply (rq_msg req2) ServFail]) else Exited 2)"
  using assms by (auto simp: serve_request_inner_def Let_def split: option.splits)

section \<open>Sizes and frames\<close>

lemma of_nat_u16: "n \<le> 65535 \<Longrightarrow> unat (of_nat n :: u16) = n"
  by (simp add: unsigned_of_nat take_bit_nat_eq_self)

lemma encode_all_length: "encode_all cd q mx ms = Some bs \<Longrightarrow> length bs = length ms"
  by (induction ms arbitrary: bs) (auto split: option.splits sum.splits)

lemma encode_all_sizes:
  assumes emit: "\<And>lim m b. cd_emit cd lim m = Inr b \<Longrightarrow> length b \<le> unat lim"
    and vec: "\<And>b. cd_to_vec cd (error_reply q ServFail) = Inr b \<Longrightarrow> length b \<le> 512"
    and mx: "512 \<le> mx" "mx \<le> 65535"
  shows "encode_all cd q mx ms = Some bs \<Longrightarrow> \<forall>b \<in> set bs. length b \<le> mx"
proof (induction ms arbitrary: bs)
  case (Cons m ms)
  have lim: "length b \<le> mx" if "encode_with_limit (cd_emit cd) m mx = Inr b" for b
    using that emit [of "of_nat (min mx MAX_MSG_SIZE)" m b] mx
    by (auto simp: encode_with_limit_def MAX_MSG_SIZE_def of_nat_u16 split: sum.splits)
  have err: "length b \<le> mx" if "ok (cd_to_vec cd (error_reply q ServFail)) = Some b" for b
    using that vec [of b] mx by (cases "cd_to_vec cd (error_reply q ServFail)") auto
  from Cons.prems obtain b r where "bs = b # r" "encode_all cd q mx ms = Some r"
    "encode_with_limit (cd_emit cd) m mx = Inr b \<or> ok (cd_to_vec cd (error_reply q ServFail)) = Some b"
    by (auto split: option.splits sum.splits)
  with Cons.IH lim err show ?case by auto
qed simp

lemma u16_octets: "push_bit 8 (ucast (ucast (drop_bit 8 n) :: u8)) OR ucast (ucast n :: u8) = (n :: u16)"
  by (rule bit_eqI) (auto simp: bit_simps)

lemma read_frame:
  assumes "b \<noteq> []" "length b \<le> 65535"
  shows "read_stream (frame b @ rest) = b # read_stream rest"
  using assms by (simp add: frame_def Let_def u16_octets of_nat_u16)

lemma read_frames:
  "\<forall>b \<in> set bs. b \<noteq> [] \<and> length b \<le> 65535 \<Longrightarrow> read_stream (concat (map frame bs)) = bs"
  by (induction bs) (auto simp: read_frame)

lemma self_lookup_too_deep:
  "rq_lookup_depth req \<ge> 8 \<Longrightarrow> self_lookup servers now rid req name qt s =
     (Ran (Inl (''self lookup nesting too deep for '' @ name)), s)"
  by (simp add: self_lookup_def)

section \<open>Properties\<close>

text \<open>A server with one zone, served by one chain, and no TLS: the input of the examples.\<close>

definition one_zone_server :: "string \<Rightarrow> 's plugin list \<Rightarrow> 's server" where
  "one_zone_server z ch =
     \<lparr>sv_label = ''dns://:53'', sv_transport = T_Dns, sv_addrs = ['':53''],
      sv_zones = [z \<mapsto> [\<lparr>ze_config = server_config_new None \<lparr>pk_transport = T_Dns, pk_zone = z, pk_port = 53, pk_explicit_port = False\<rparr> 0 0,
                        ze_chain = ch\<rparr>]],
      sv_tls = None, sv_read_timeout = 3, sv_write_timeout = 5, sv_idle_timeout = 10, sv_num_sockets = 1, sv_graceful_timeout = 5\<rparr>"

lemma one_zone_server_lookup:
  assumes "name_uncached req = z"
  shows "server_lookup (one_zone_server z ch) req = (Some \<lparr>ze_config = server_config_new None \<lparr>pk_transport = T_Dns, pk_zone = z, pk_port = 53, pk_explicit_port = False\<rparr> 0 0, ze_chain = ch\<rparr>, req)"
  using assms by (subst server_lookup_def, subst lookup_loop.simps) (simp add: one_zone_server_def server_config_new_def Let_def)

lemma find_unwrap:
  assumes "find P (unwrap_or [] x) = Some e"
  shows "\<exists>as bs. x = Some (as @ e # bs) \<and> (\<forall>a \<in> set as. \<not> P a) \<and> P e"
  using assms find_first [of P] by (cases x) auto

lemma find_candidates:
  assumes "find P (candidates zones ns) = Some e"
  shows "\<exists>zs as bs. suffix zs ns \<and> zones (fq zs) = Some (as @ e # bs) \<and> P e \<and> (\<forall>a \<in> set as. \<not> P a)
    \<and> (\<forall>ys es a. suffix ys ns \<longrightarrow> length zs < length ys \<longrightarrow> zones (fq ys) = Some es \<longrightarrow> a \<in> set es \<longrightarrow> \<not> P a)"
  using assms
proof (induction ns)
  case Nil
  then have "find P (unwrap_or [] (zones (fq []))) = Some e" by (simp add: fq_def)
  from find_unwrap [OF this] obtain as bs where "zones (fq []) = Some (as @ e # bs)" "\<forall>a \<in> set as. \<not> P a" "P e" by blast
  then show ?case by (intro exI [of _ "[]"] exI [of _ as] exI [of _ bs]) simp
next
  case (Cons n ns)
  show ?case
  proof (cases "find P (unwrap_or [] (zones (fq (n # ns))))")
    case (Some e')
    with Cons.prems have "e' = e" by (simp add: find_append)
    with find_unwrap [OF Some] obtain as bs where "zones (fq (n # ns)) = Some (as @ e # bs)" "\<forall>a \<in> set as. \<not> P a" "P e" by auto
    moreover have "\<not> length (n # ns) < length ys" if "suffix ys (n # ns)" for ys :: "string list"
      using suffix_length_le [OF that] by simp
    ultimately show ?thesis by (intro exI [of _ "n # ns"] exI [of _ as] exI [of _ bs] conjI allI impI) auto
  next
    case None
    with Cons.prems have "find P (candidates zones ns) = Some e" by (simp add: find_append)
    from Cons.IH [OF this] obtain zs as bs where zs: "suffix zs ns" "zones (fq zs) = Some (as @ e # bs)" "P e" "\<forall>a \<in> set as. \<not> P a"
      and longer: "\<And>ys es a. suffix ys ns \<Longrightarrow> length zs < length ys \<Longrightarrow> zones (fq ys) = Some es \<Longrightarrow> a \<in> set es \<Longrightarrow> \<not> P a" by blast
    have "\<not> P a" if "suffix ys (n # ns)" "length zs < length ys" "zones (fq ys) = Some es" "a \<in> set es" for ys es a
      using that None longer by (auto simp: suffix_Cons find_None_iff)
    with zs show ?thesis by (intro exI [of _ zs] exI [of _ as] exI [of _ bs] conjI allI impI) (auto simp: suffix_Cons)
  qed
qed

text \<open>C1: The configuration that serves a query is the one of the longest zone: without metadata collectors, the
  entry found belongs to a zone the query name lies in, its view filter accepts the request, it is the first
  of its zone to do so, and no entry of a longer zone accepts; when none is found, no entry of any zone of
  the name accepts, and the server answers the query, unless its EDNS version is unknown, with REFUSED and
  runs no chain.\<close>

theorem server_lookup_longest:
  assumes name: "name_uncached req = fq ns" "list_all label_ok ns"
    and plain: "\<forall>z es. sv_zones sv z = Some es \<longrightarrow> (\<forall>e \<in> set es. sc_metadata (ze_config e) = None)"
  shows "case server_lookup sv req of
      (Some e, req') \<Rightarrow> req' = req \<and> (\<exists>zs as bs. suffix zs ns \<and> sv_zones sv (fq zs) = Some (as @ e # bs) \<and> accepts e req
          \<and> (\<forall>a \<in> set as. \<not> accepts a req)
          \<and> (\<forall>ys es a. suffix ys ns \<longrightarrow> length zs < length ys \<longrightarrow> sv_zones sv (fq ys) = Some es \<longrightarrow> a \<in> set es \<longrightarrow> \<not> accepts a req))
    | (None, req') \<Rightarrow> req' = req \<and> (\<forall>zs es a. suffix zs ns \<longrightarrow> sv_zones sv (fq zs) = Some es \<longrightarrow> a \<in> set es \<longrightarrow> \<not> accepts a req)
        \<and> ((\<forall>ed. m_edns (rq_msg req) = Some ed \<longrightarrow> ed_version ed = 0) \<longrightarrow>
             (\<exists>m. serve_request_inner sv req s = (Ran (Some [m]), req, s)
                \<and> m_rcode m = Refused \<and> m_id m = m_id (rq_msg req) \<and> m_answers m = [] \<and> m_queries m = take 1 (m_queries (rq_msg req))))"
proof -
  have "\<forall>e \<in> set (candidates (sv_zones sv) ns). sc_metadata (ze_config e) = None"
    using plain by (auto simp: candidates_iff)
  then have l: "server_lookup sv req = (find (\<lambda>e. accepts e req) (candidates (sv_zones sv) ns), req)"
    using name by (simp add: server_lookup_def lookup_loop_candidates pick_entry_find)
  show ?thesis
  proof (cases "find (\<lambda>e. accepts e req) (candidates (sv_zones sv) ns)")
    case None
    then have "\<forall>zs es a. suffix zs ns \<longrightarrow> sv_zones sv (fq zs) = Some es \<longrightarrow> a \<in> set es \<longrightarrow> \<not> accepts a req"
      by (auto simp: find_None_iff candidates_iff)
    moreover have "serve_request_inner sv req s = (Ran (Some [error_reply (rq_msg req) Refused]), req, s)"
      if "\<forall>ed. m_edns (rq_msg req) = Some ed \<longrightarrow> ed_version ed = 0"
      using that None by (simp add: serve_request_inner_def l split: option.splits)
    ultimately show ?thesis using None by (simp add: l error_reply_queries)
  next
    case (Some e)
    from find_candidates [OF this] show ?thesis by (simp add: l Some)
  qed
qed

theorem server_lookup_longest_witness:
  "\<exists>e. server_lookup (one_zone_server ''example.org.'' ([] :: unit plugin list)) (query_for ''www.example.org.'' RT_A) = (Some e, query_for ''www.example.org.'' RT_A)
    \<and> accepts e (query_for ''www.example.org.'' RT_A)
    \<and> (\<exists>m. serve_request_inner (one_zone_server ''example.org.'' ([] :: unit plugin list)) (query_for ''example.com.'' RT_A) ()
          = (Ran (Some [m]), query_for ''example.com.'' RT_A, ()) \<and> m_rcode m = Refused)"
proof -
  let ?sv = "one_zone_server ''example.org.'' ([] :: unit plugin list)" and ?q = "query_for ''www.example.org.'' RT_A"
  let ?r = "query_for ''example.com.'' RT_A"
  let ?ns = "[''www'', ''example'', ''org'']"
  have n: "name_uncached ?q = fq ?ns" "list_all label_ok ?ns" by code_simp+
  have p: "\<forall>z es. sv_zones ?sv z = Some es \<longrightarrow> (\<forall>e \<in> set es. sc_metadata (ze_config e) = None)"
    by (simp add: one_zone_server_def server_config_new_def)
  have z: "suffix [''example'', ''org''] ?ns" "fq [''example'', ''org''] = ''example.org.''" by code_simp+
  obtain e where e: "sv_zones ?sv ''example.org.'' = Some [e]" "accepts e ?q"
    by (simp add: one_zone_server_def server_config_new_def accepts_def)
  have "\<exists>e. server_lookup ?sv ?q = (Some e, ?q) \<and> accepts e ?q"
    using server_lookup_longest [OF n p] z e by (cases "server_lookup ?sv ?q"; cases "fst (server_lookup ?sv ?q)") force+
  moreover have "\<exists>m. serve_request_inner ?sv ?r () = (Ran (Some [m]), ?r, ()) \<and> m_rcode m = Refused"
  proof -
    have nr: "name_uncached ?r = fq [''example'', ''com'']" "list_all label_ok [''example'', ''com'']" by code_simp+
    have l: "Option.is_none (fst (server_lookup ?sv ?r))" by code_simp
    have "\<forall>ed. m_edns (rq_msg ?r) = Some ed \<longrightarrow> ed_version ed = 0" by simp
    then show ?thesis using server_lookup_longest [OF nr p, of "()"] l by (auto simp: Option.is_none_def split: prod.splits option.splits)
  qed
  ultimately show ?thesis by blast
qed

text \<open>Whatever the chain does short of dropping the query or ending the process, the client gets an answer:
  at least one message, each with the id of the query and marked as a response, provided that the handlers
  keep the request's id.\<close>

lemma serve_request_answers:
  assumes "collectors_keep_msg sv" "chains_keep_id sv" "serve_request_inner sv req s = (Ran (Some v), req', s')"
  shows "v \<noteq> [] \<and> (\<forall>m \<in> set v. m_id m = m_id (rq_msg req) \<and> m_type m = MtResponse)"
  using serve_request_inner_nonempty [OF assms(3)] serve_request_inner_id [OF assms] by blast

text \<open>The size a client announces: streams carry 65535 octets; over UDP it is the payload size of the query's
  EDNS record, at least 512, and 512 without one.\<close>

definition announced_size :: "proto \<Rightarrow> message \<Rightarrow> nat" where
  "announced_size pr m = (if is_stream pr then 65535 else case m_edns m of None \<Rightarrow> 512 | Some e \<Rightarrow> max 512 (unat (ed_max_payload e)))"

lemma req_size_announced: "req_size r = announced_size (rq_proto r) (rq_msg r)"
  by (auto simp: req_size_def announced_size_def word_less_nat_alt max_def split: option.splits)

text \<open>C37: Every encoded response of a parsed query fits the request's size as the chain leaves the request, which is
  between 512 and 65535 and so fits the two octets of a stream length; when the chain leaves the EDNS record
  of the query and the transport as they were, each is no longer than the size the client announced. This is
  for an encoder that respects the limit it is given and encodes an error reply in 512 octets. (A rewrite
  rule that adds an EDNS record to a query without one raises the request's size above what the client
  announced.)\<close>

theorem serve_bytes_fit:
  assumes "\<And>lim m b. cd_emit cd lim m = Inr b \<Longrightarrow> length b \<le> unat lim"
    and "\<And>q b. cd_to_vec cd (error_reply q ServFail) = Inr b \<Longrightarrow> length b \<le> 512"
    and "cd_from_bytes cd buf = Inr m"
    and "serve_bytes_all cd sv now buf remote loc pr http sni s = (Ran (Some bs), s')"
  shows "\<exists>req msgs. serve_request_inner sv (incoming sv now m buf remote loc pr http sni) s = (Ran (Some msgs), req, s')
    \<and> length bs = length msgs
    \<and> (\<forall>b \<in> set bs. length b \<le> req_size req) \<and> 512 \<le> req_size req \<and> req_size req \<le> 65535
    \<and> (m_edns (rq_msg req) = m_edns m \<longrightarrow> rq_proto req = pr \<longrightarrow> (\<forall>b \<in> set bs. length b \<le> announced_size pr m))"
proof -
  obtain msgs req where r: "serve_request_inner sv (incoming sv now m buf remote loc pr http sni) s = (Ran (Some msgs), req, s')"
    "encode_all cd (rq_msg req) (req_size req) msgs = Some bs"
    using assms(3,4) by (auto simp: serve_bytes_all_def split: prod.splits proc.splits option.splits)
  have fit: "\<forall>b \<in> set bs. length b \<le> req_size req"
    using r(2) req_size_bounds [of req] encode_all_sizes [of cd "rq_msg req" "req_size req" msgs bs] assms(1,2) by blast
  have "req_size req = announced_size pr m" if "m_edns (rq_msg req) = m_edns m" "rq_proto req = pr"
    using that by (simp add: req_size_announced announced_size_def)
  with fit show ?thesis using r req_size_bounds [of req] encode_all_length [OF r(2)] by metis
qed

theorem serve_bytes_fit_witness:
  "\<exists>bs s'. serve_bytes_all \<lparr>cd_from_bytes = (\<lambda>b. Inr (rq_msg (query_for ''.'' RT_A))), cd_to_vec = (\<lambda>m. Inr [0]), cd_emit = (\<lambda>l m. Inr (take (unat l) [0, 7, 128]))\<rparr>
      (one_zone_server ''.'' ([] :: unit plugin list)) 0 [1, 2] \<lparr>sa_ip = V4 [192, 0, 2, 1], sa_port = 4000\<rparr> \<lparr>sa_ip = V4 [192, 0, 2, 53], sa_port = 53\<rparr> Udp None None ()
      = (Ran (Some bs), s') \<and> length bs = 1 \<and> (\<forall>b \<in> set bs. length b \<le> 512)"
proof -
  let ?cd = "\<lparr>cd_from_bytes = (\<lambda>b. Inr (rq_msg (query_for ''.'' RT_A))), cd_to_vec = (\<lambda>m. Inr [0]), cd_emit = (\<lambda>l m. Inr (take (unat l) [0, 7, 128]))\<rparr>"
  let ?sv = "one_zone_server ''.'' ([] :: unit plugin list)" and ?a = "\<lparr>sa_ip = V4 [192, 0, 2, 1], sa_port = 4000\<rparr>" and ?b = "\<lparr>sa_ip = V4 [192, 0, 2, 53], sa_port = 53\<rparr>"
  let ?q = "incoming ?sv 0 (rq_msg (query_for ''.'' RT_A)) [1, 2] ?a ?b Udp None None"
  have n: "name_uncached ?q = ''.''" "m_edns (rq_msg ?q) = None" "m_queries (rq_msg ?q) \<noteq> []" "rq_proto ?q = Udp"
    by (simp_all add: incoming_def name_uncached_def request_new_def Let_def to_ascii_lowercase_def ascii_lower_def is_ascii_upper_def ends_with_def)
  obtain bs s' where r: "serve_bytes_all ?cd ?sv 0 [1, 2] ?a ?b Udp None None () = (Ran (Some bs), s')"
    using n by (simp add: serve_bytes_all_def serve_request_inner_def one_zone_server_lookup [OF n(1)] encode_with_limit_def)
  have i: "serve_request_inner ?sv ?q () = (Ran (Some msgs), req, s2) \<Longrightarrow> m_edns (rq_msg req) = None \<and> rq_proto req = Udp \<and> length msgs = 1" for msgs req s2
    using n by (auto simp: serve_request_inner_def one_zone_server_lookup [OF n(1)])
  obtain req msgs where "serve_request_inner ?sv ?q () = (Ran (Some msgs), req, s')" "length bs = length msgs"
    "m_edns (rq_msg req) = m_edns (rq_msg (query_for ''.'' RT_A)) \<longrightarrow> rq_proto req = Udp \<longrightarrow>
      (\<forall>b \<in> set bs. length b \<le> announced_size Udp (rq_msg (query_for ''.'' RT_A)))"
    using serve_bytes_fit [OF _ _ _ r] by force
  moreover have "announced_size Udp (rq_msg (query_for ''.'' RT_A)) = 512" by code_simp
  ultimately show ?thesis using r i [of msgs req s'] by auto
qed

text \<open>C38: Messages written to a stream are read back one by one: the reader, given the concatenation of the
  frames the writer makes of non-empty messages of at most 65535 octets, splits it into exactly these messages, in order. (The writer
  cuts a length to 16 bits.)\<close>

theorem stream_roundtrip:
  assumes "\<forall>b \<in> set bs. b \<noteq> [] \<and> length b \<le> 65535"
  shows "read_stream (concat (map frame bs)) = bs"
  using assms by (rule read_frames)

theorem stream_roundtrip_witness: "read_stream (concat (map frame [[1, 2, 3], [4]])) = [[1, 2, 3], [4]]"
  by (rule stream_roundtrip) simp

end
