(* ===== verification/Instance.thy ===== *)
theory Instance
  imports Server_Core
begin

text \<open>
  The life of the process: the command line, starting an instance from a Corefile, the hooks, the
  reload loop (\<open>src/main.rs\<close>, the type \<open>Instance\<close> of \<open>src/server/mod.rs\<close>).

  The process is a record \<open>system\<close>: the state of the rest of the program (handlers, hooks and the
  kernel work on it), the servers published for self look-ups (\<open>CURRENT\<close>), the configurations given to
  \<open>plugins::publish\<close>, and the accept loops that run, each with the number of the instance that
  spawned it. A task that has been spawned counts as an accept loop that runs until its instance is cancelled; that
  \<open>run_quic\<close> returns at once when it cannot build its endpoint, and errors within the loops, are not modelled. Hooks
  and setups return or report an error: a panic in one of them, which ends the task that runs the main loop, is not
  modelled either. Sockets are the parameters \<open>se_bind\<close> and \<open>se_from_std\<close>: the error they give, if any,
  in a state. Cancelling an instance ends its accept loops.

  Shown here: a start never reaches the transport mismatch marked unreachable; in every state of the
  main loop, whatever reloads succeeded or failed, the published servers are those of the current
  instance and each of them still has all its listeners; a failed reload keeps the old instance.
\<close>

section \<open>The command line\<close>

record args =
  ar_conf :: string
  ar_port :: nat
  ar_pidfile :: "string option"
  ar_quiet :: bool

datatype 'a cli = Go 'a | Quit nat

definition flag_parts :: "string \<Rightarrow> string \<times> string option" where
  "flag_parts arg =
     (let fl = trim_start_matches (CHR ''-'') arg in
      case find_char (CHR ''='') fl of
        Some i \<Rightarrow> (take i fl, Some (drop (i + 1) fl))
      | None \<Rightarrow> (fl, None))"

fun take_value :: "string option \<Rightarrow> string list \<Rightarrow> (string \<times> string list) option" where
  "take_value (Some v) it = Some (v, it)"
| "take_value None (x # it) = Some (x, it)"
| "take_value None [] = None"

lemma take_value_length: "take_value i it = Some (v, it') \<Longrightarrow> length it' \<le> length it"
  by (cases "(i, it)" rule: take_value.cases) auto

definition glog_flags :: "string list" where
  "glog_flags = [''alsologtostderr'', ''logtostderr'', ''log_dir'', ''stderrthreshold'', ''v_module'', ''vmodule'', ''log_backtrace_at'']"

function parse_args_loop :: "args \<Rightarrow> string list \<Rightarrow> args cli" where
  "parse_args_loop a [] = Go a"
| "parse_args_loop a (arg # it) =
     (case flag_parts arg of (name, inline) \<Rightarrow>
        if name \<in> {''conf'', ''dns.port'', ''p'', ''pidfile''} then
          (case take_value inline it of
             None \<Rightarrow> Quit 2
           | Some (v, it') \<Rightarrow>
               if name = ''conf'' then parse_args_loop (a\<lparr>ar_conf := v\<rparr>) it'
               else if name = ''pidfile'' then parse_args_loop (a\<lparr>ar_pidfile := Some v\<rparr>) it'
               else (case parse_u16 v of None \<Rightarrow> Quit 2 | Some p \<Rightarrow> parse_args_loop (a\<lparr>ar_port := p\<rparr>) it'))
        else if name = ''quiet'' \<or> name = ''q'' then parse_args_loop (a\<lparr>ar_quiet := True\<rparr>) it
        else if name = ''version'' \<or> name = ''v'' \<or> name = ''plugins'' then Quit 0
        else if name = ''h'' \<or> name = ''help'' then Quit 2
        else if name \<in> set glog_flags then
          parse_args_loop a (if inline = None \<and> name \<noteq> ''alsologtostderr'' \<and> name \<noteq> ''logtostderr'' then drop 1 it else it)
        else Quit 2)"
  by pat_completeness auto
termination
  by (relation "measure (\<lambda>(a, it). length it)") (auto dest: take_value_length)

definition parse_args :: "string option \<Rightarrow> string list \<Rightarrow> args cli" where
  "parse_args env_port argv =
     (case parse_args_loop \<lparr>ar_conf = ''Corefile'', ar_port = 53, ar_pidfile = None, ar_quiet = False\<rparr> argv of
        Quit n \<Rightarrow> Quit n
      | Go a \<Rightarrow> Go (case Option.bind env_port parse_u16 of Some p \<Rightarrow> a\<lparr>ar_port := p\<rparr> | None \<Rightarrow> a))"

section \<open>Listening addresses\<close>

text \<open>\<open>v6\<close> is what the probe of \<open>ipv6_available\<close> found; \<open>resolve\<close> the host's resolver.\<close>

definition resolve_bind :: "bool \<Rightarrow> (string \<Rightarrow> socket_addr option) \<Rightarrow> string \<Rightarrow> socket_addr res" where
  "resolve_bind v6 resolve addr =
     (case strip_prefix addr '':'' of
        Some port \<Rightarrow>
          (case parse_u16 port of
             None \<Rightarrow> Inl (''bad port in '' @ addr)
           | Some p \<Rightarrow> Inr \<lparr>sa_ip = (if v6 then V6 (replicate 16 0) else V4 (replicate 4 0)), sa_port = p\<rparr>)
      | None \<Rightarrow>
          (case parse_socket_addr addr of
             Some sa \<Rightarrow> Inr sa
           | None \<Rightarrow> ok_or (''cannot resolve bind address '' @ addr) (resolve addr)))"

datatype listener = L_Udp string | L_Tcp string

definition listener_plan :: "'s server \<Rightarrow> listener list" where
  "listener_plan sv = concat (map (\<lambda>addr. concat (replicate (max (sv_num_sockets sv) 1)
     (case sv_transport sv of
        T_Dns \<Rightarrow> [L_Udp addr, L_Tcp addr]
      | T_Tls \<Rightarrow> [L_Tcp addr] | T_Https \<Rightarrow> [L_Tcp addr] | T_Grpc \<Rightarrow> [L_Tcp addr]
      | T_Quic \<Rightarrow> [L_Udp addr]))) (sv_addrs sv))"

section \<open>Instances\<close>

record 's server_instance =
  in_id :: nat
  in_servers :: "'s server list"
  in_configs :: "'s server_config list"
  in_shutdown :: "'s hook list"
  in_final_shutdown :: "'s hook list"
  in_restart :: "'s hook list"
  in_restart_failed :: "'s hook list"

record 's system =
  sy_state :: 's
  sy_current :: "'s server list"
  sy_published :: "'s server_config list"
  sy_tasks :: "(nat \<times> listener) list"
  sy_next :: nat

text \<open>
  What a start relies on: the arguments of \<open>build\<close>, the wiring of \<open>plugins\<close>, the probe for IPv6,
  the resolver, sockets, and how to read files.
\<close>

record ('s, 'net) start_env =
  se_from_ascii :: "string \<Rightarrow> dname res"
  se_net :: "'net ipnet_api"
  se_cwd :: "string option"
  se_order :: "'s directive_def list"
  se_reset_pending :: "'s \<Rightarrow> 's"
  se_post_finalize :: "'s server_config list \<Rightarrow> 's \<Rightarrow> 's"
  se_v6 :: bool
  se_resolver :: "string \<Rightarrow> socket_addr option"
  se_bind :: "listener \<Rightarrow> socket_addr \<Rightarrow> 's \<Rightarrow> err option"
  se_from_std :: "listener \<Rightarrow> 's \<Rightarrow> err option"
  se_parse :: parse_env

fun run_hooks :: "'s hook list \<Rightarrow> 's \<Rightarrow> unit res \<times> 's" where
  "run_hooks [] s = (Inr (), s)"
| "run_hooks (h # hs) s = (case h s of (Inl e, s') \<Rightarrow> (Inl e, s') | (Inr _, s') \<Rightarrow> run_hooks hs s')"

text \<open>Hooks whose errors are only logged.\<close>

fun run_hooks_all :: "'s hook list \<Rightarrow> 's \<Rightarrow> 's" where
  "run_hooks_all [] s = s"
| "run_hooks_all (h # hs) s = run_hooks_all hs (snd (h s))"

definition listener_addr :: "listener \<Rightarrow> string" where
  "listener_addr l = (case l of L_Udp a \<Rightarrow> a | L_Tcp a \<Rightarrow> a)"

definition bind_listener :: "('s, 'net) start_env \<Rightarrow> 's \<Rightarrow> listener \<Rightarrow> unit res" where
  "bind_listener env s l =
     rbind (resolve_bind (se_v6 env) (se_resolver env) (listener_addr l)) (\<lambda>sa. case se_bind env l sa s of Some e \<Rightarrow> Inl e | None \<Rightarrow> Inr ())"

fun bind_all :: "('s, 'net) start_env \<Rightarrow> 's \<Rightarrow> listener list \<Rightarrow> unit res" where
  "bind_all env s [] = Inr ()"
| "bind_all env s (l # ls) = rbind (bind_listener env s l) (\<lambda>_. bind_all env s ls)"

text \<open>The arms of the spawning match; any other pair is \<open>unreachable!\<close>.\<close>

fun spawn_arm :: "transport \<Rightarrow> listener \<Rightarrow> bool" where
  "spawn_arm T_Dns l = True"
| "spawn_arm T_Quic (L_Udp a) = True"
| "spawn_arm T_Quic (L_Tcp a) = False"
| "spawn_arm t (L_Tcp a) = True"
| "spawn_arm t (L_Udp a) = False"

fun spawn_all :: "('s, 'net) start_env \<Rightarrow> nat \<Rightarrow> (transport \<times> listener) list \<Rightarrow> 's system \<Rightarrow> unit res proc \<times> 's system" where
  "spawn_all env i [] sy = (Ran (Inr ()), sy)"
| "spawn_all env i ((t, l) # ls) sy =
     (if \<not> spawn_arm t l then (Exited 101, sy)
      else (case (if t = T_Quic then None else se_from_std env l (sy_state sy)) of
          Some e \<Rightarrow> (Ran (Inl e), sy)
        | None \<Rightarrow> spawn_all env i ls (sy\<lparr>sy_tasks := sy_tasks sy @ [(i, l)]\<rparr>)))"

definition drain_hooks :: "'s server_config \<Rightarrow> 's server_config" where
  "drain_hooks c = c\<lparr>sc_startup := [], sc_shutdown := [], sc_final_shutdown := [], sc_restart := [], sc_restart_failed := []\<rparr>"

definition start :: "('s, 'net) start_env \<Rightarrow> server_block list \<Rightarrow> build_options \<Rightarrow> 's system \<Rightarrow> 's server_instance res proc \<times> 's system" where
  "start env blocks opts sy0 =
     (let sy = sy0\<lparr>sy_state := se_reset_pending env (sy_state sy0)\<rparr> in
      case build (se_from_ascii env) (se_net env) (se_cwd env) (se_order env) opts blocks of
        Inl e \<Rightarrow> (Ran (Inl e), sy)
      | Inr built \<Rightarrow>
          (let cs = map finalize_chain built;
               configs = map drain_hooks cs;
               shutdown = concat (map sc_shutdown cs);
               sy1 = sy\<lparr>sy_state := se_post_finalize env configs (sy_state sy)\<rparr> in
           case group_servers configs of
             Inl e \<Rightarrow> (Ran (Inl e), sy1)
           | Inr servers \<Rightarrow>
               (case bind_all env (sy_state sy1) (concat (map listener_plan servers)) of
                  Inl e \<Rightarrow> (Ran (Inl e), sy1)
                | Inr _ \<Rightarrow>
                    (case run_hooks (concat (map sc_startup cs)) (sy_state sy1) of
                       (Inl e, s) \<Rightarrow> (Ran (Inl e), sy1\<lparr>sy_state := run_hooks_all shutdown s\<rparr>)
                     | (Inr _, s) \<Rightarrow>
                         (let i = sy_next sy1 in
                          case spawn_all env i (concat (map (\<lambda>sv. map (Pair (sv_transport sv)) (listener_plan sv)) servers))
                                 (sy1\<lparr>sy_state := s, sy_next := i + 1\<rparr>) of
                            (Exited n, sy2) \<Rightarrow> (Exited n, sy2)
                          | (Ran (Inl e), sy2) \<Rightarrow> (Ran (Inl e), sy2)
                          | (Ran (Inr _), sy2) \<Rightarrow>
                              (Ran (Inr \<lparr>in_id = i, in_servers = servers, in_configs = configs, in_shutdown = shutdown,
                                 in_final_shutdown = concat (map sc_final_shutdown cs), in_restart = concat (map sc_restart cs),
                                 in_restart_failed = concat (map sc_restart_failed cs)\<rparr>),
                               sy2\<lparr>sy_current := servers, sy_published := configs\<rparr>))))))"

definition run_restart_hooks :: "'s server_instance \<Rightarrow> 's system \<Rightarrow> unit res \<times> 's system" where
  "run_restart_hooks inst sy = (case run_hooks (in_restart inst) (sy_state sy) of (r, s) \<Rightarrow> (r, sy\<lparr>sy_state := s\<rparr>))"

definition run_restart_failed_hooks :: "'s server_instance \<Rightarrow> 's system \<Rightarrow> 's system" where
  "run_restart_failed_hooks inst sy = sy\<lparr>sy_state := run_hooks_all (in_restart_failed inst) (sy_state sy)\<rparr>"

definition stop :: "'s server_instance \<Rightarrow> 's system \<Rightarrow> 's system" where
  "stop inst sy = sy\<lparr>sy_state := run_hooks_all (in_shutdown inst) (sy_state sy),
     sy_tasks := filter (\<lambda>il. fst il \<noteq> in_id inst) (sy_tasks sy)\<rparr>"

definition stop_final :: "'s server_instance \<Rightarrow> 's system \<Rightarrow> 's system" where
  "stop_final inst sy = stop inst (sy\<lparr>sy_state := run_hooks_all (in_final_shutdown inst) (sy_state sy)\<rparr>)"

section \<open>The main program\<close>

definition parse_file :: "parse_env \<Rightarrow> string \<Rightarrow> server_block list res" where
  "parse_file env path =
     (case pe_read env path of
        Inl e \<Rightarrow> Inl (''reading Corefile '' @ path)
      | Inr txt \<Rightarrow> parse_str (env\<lparr>pe_base_dir := unwrap_or ''.'' (path_parent path)\<rparr>) txt path)"

definition load :: "('s, 'net) start_env \<Rightarrow> args \<Rightarrow> 's system \<Rightarrow> 's server_instance res proc \<times> 's system" where
  "load env a sy =
     (case parse_file (se_parse env) (ar_conf a) of
        Inl e \<Rightarrow> (Ran (Inl e), sy)
      | Inr blocks \<Rightarrow>
          if blocks = [] then (Ran (Inl (ar_conf a @ '': no server blocks'')), sy)
          else start env blocks \<lparr>bo_default_port = ar_port a, bo_corefile = ar_conf a\<rparr> sy)"

definition reload :: "('s, 'net) start_env \<Rightarrow> args \<Rightarrow> 's server_instance \<Rightarrow> 's system \<Rightarrow> 's server_instance proc \<times> 's system" where
  "reload env a old sy =
     (case run_restart_hooks old sy of (r, sy1) \<Rightarrow>
        (case (case r of Inr _ \<Rightarrow> load env a sy1 | Inl e \<Rightarrow> (Ran (Inl ''restart hook''), sy1)) of
           (Ran (Inr new), sy2) \<Rightarrow> (Ran new, stop old sy2)
         | (Ran (Inl e), sy2) \<Rightarrow> (Ran old, run_restart_failed_hooks old sy2)
         | (Exited n, sy2) \<Rightarrow> (Exited n, sy2)))"

text \<open>
  The loop of \<open>run\<close>: SIGUSR1, SIGHUP and the reload plugin reload; between two reloads queries and
  background tasks change the state of the rest of the program.
\<close>

inductive main_step :: "('s, 'net) start_env \<Rightarrow> args \<Rightarrow> 's server_instance \<times> 's system \<Rightarrow> 's server_instance \<times> 's system \<Rightarrow> bool" for env a where
  ms_reload: "reload env a inst sy = (Ran inst', sy') \<Longrightarrow> main_step env a (inst, sy) (inst', sy')"
| ms_serve: "main_step env a (inst, sy) (inst, sy\<lparr>sy_state := s\<rparr>)"

inductive_cases main_stepE: "main_step env a (inst, sy) st"

section \<open>Invariant\<close>

lemma listener_plan_arm: "l \<in> set (listener_plan sv) \<Longrightarrow> spawn_arm (sv_transport sv) l"
  by (cases "sv_transport sv") (auto simp: listener_plan_def)

lemma spawn_all_spec:
  assumes "spawn_all env i ls sy = (r, sy')" "\<forall>tl \<in> set ls. spawn_arm (fst tl) (snd tl)"
  shows "(\<exists>x. r = Ran x)
    \<and> (\<exists>new. sy' = sy\<lparr>sy_tasks := sy_tasks sy @ map (Pair i) new\<rparr> \<and> (r = Ran (Inr ()) \<longrightarrow> new = map snd ls))"
  using assms
proof (induction env i ls sy arbitrary: r sy' rule: spawn_all.induct)
  case (1 env i sy)
  then show ?case by (auto intro!: exI [of _ "[]"])
next
  case (2 env i t l ls sy)
  show ?case
  proof (cases "if t = T_Quic then None else se_from_std env l (sy_state sy)")
    case None
    with 2 have run: "spawn_all env i ls (sy\<lparr>sy_tasks := sy_tasks sy @ [(i, l)]\<rparr>) = (r, sy')" by simp
    from 2(1) [OF _ None run] 2(3) obtain new where n: "\<exists>x. r = Ran x"
      "sy' = sy\<lparr>sy_tasks := (sy_tasks sy @ [(i, l)]) @ map (Pair i) new\<rparr>" "r = Ran (Inr ()) \<longrightarrow> new = map snd ls" by auto
    then show ?thesis by (auto intro!: exI [of _ "l # new"])
  next
    case (Some e)
    with 2 have "r = Ran (Inl e)" "sy' = sy" by auto
    then show ?thesis by (auto intro!: exI [of _ "[]"])
  qed
qed

text \<open>What holds of the current instance: its servers are the published ones, each has its listeners.\<close>

definition instance_ok :: "'s server_instance \<Rightarrow> 's system \<Rightarrow> bool" where
  "instance_ok inst sy \<longleftrightarrow> sy_current sy = in_servers inst \<and> sy_published sy = in_configs inst \<and> in_id inst < sy_next sy
     \<and> (\<forall>sv \<in> set (in_servers inst). \<forall>l \<in> set (listener_plan sv). (in_id inst, l) \<in> set (sy_tasks sy))"

text \<open>What a start may do to the rest of the process, whatever it returns.\<close>

definition start_frame :: "'s system \<Rightarrow> 's system \<Rightarrow> bool" where
  "start_frame sy sy' \<longleftrightarrow> sy_next sy \<le> sy_next sy' \<and> (\<exists>new. sy_tasks sy' = sy_tasks sy @ map (Pair (sy_next sy)) new)"

lemma start_frame_refl: "sy_tasks sy' = sy_tasks sy \<Longrightarrow> sy_next sy' = sy_next sy \<Longrightarrow> start_frame sy sy'"
  by (auto simp: start_frame_def intro: exI [of _ "[]"])

lemma start_spec:
  assumes "start env blocks opts sy = (r, sy')"
  shows "(\<exists>e. r = Ran (Inl e) \<and> sy_current sy' = sy_current sy \<and> sy_published sy' = sy_published sy \<and> start_frame sy sy')
    \<or> (\<exists>inst. r = Ran (Inr inst) \<and> instance_ok inst sy' \<and> in_id inst = sy_next sy \<and> start_frame sy sy')"
proof (cases "build (se_from_ascii env) (se_net env) (se_cwd env) (se_order env) opts blocks")
  case (Inl e)
  with assms show ?thesis by (auto simp: start_def Let_def intro!: start_frame_refl)
next
  case (Inr built)
  let ?cs = "map finalize_chain built" let ?configs = "map drain_hooks ?cs"
  let ?s1 = "se_post_finalize env ?configs (se_reset_pending env (sy_state sy))"
  show ?thesis
  proof (cases "group_servers ?configs")
    case (Inl e)
    with assms Inr show ?thesis by (auto simp: start_def Let_def intro!: start_frame_refl)
  next
    case servers: (Inr servers)
    show ?thesis
    proof (cases "bind_all env ?s1 (concat (map listener_plan servers))")
      case (Inl e)
      with assms Inr servers show ?thesis by (auto simp: start_def Let_def intro!: start_frame_refl)
    next
      case bound: (Inr u)
      obtain hr s where hooks: "run_hooks (concat (map sc_startup ?cs)) ?s1 = (hr, s)" by fastforce
      show ?thesis
      proof (cases hr)
        case (Inl e)
        with assms Inr servers bound hooks show ?thesis by (auto simp: start_def Let_def intro!: start_frame_refl)
      next
        case hr: (Inr v)
        let ?ls = "concat (map (\<lambda>sv. map (Pair (sv_transport sv)) (listener_plan sv)) servers)"
        let ?sy = "sy\<lparr>sy_state := s, sy_next := sy_next sy + 1\<rparr>"
        obtain sr sy2 where spawn: "spawn_all env (sy_next sy) ?ls ?sy = (sr, sy2)" by fastforce
        have "\<forall>tl \<in> set ?ls. spawn_arm (fst tl) (snd tl)" using listener_plan_arm by auto
        from spawn_all_spec [OF spawn this] obtain x new where x: "sr = Ran x"
          "sy2 = ?sy\<lparr>sy_tasks := sy_tasks sy @ map (Pair (sy_next sy)) new\<rparr>" "x = Inr () \<longrightarrow> new = map snd ?ls" by auto
        have snds: "map snd ?ls = concat (map listener_plan servers)" by (simp add: map_concat o_def)
        show ?thesis
        proof (cases x)
          case err: (Inl e)
          have "r = Ran (Inl e)" "sy' = sy2"
            using assms Inr servers bound hooks hr spawn x(1) err by (simp_all add: start_def Let_def)
          moreover have "start_frame sy sy2" unfolding start_frame_def x(2) by (intro conjI exI [of _ new]) simp_all
          ultimately show ?thesis using x(2) by auto
        next
          case started: (Inr u')
          obtain inst where inst: "r = Ran (Inr inst)" "in_id inst = sy_next sy" "in_servers inst = servers" "in_configs inst = ?configs"
            "sy' = sy2\<lparr>sy_current := servers, sy_published := ?configs\<rparr>"
            using assms Inr servers bound hooks hr spawn x(1) started by (auto simp: start_def Let_def)
          have tasks: "sy_tasks sy' = sy_tasks sy @ map (Pair (sy_next sy)) (concat (map listener_plan servers))"
            using x(3) snds started by (simp add: inst(5) x(2))
          have "instance_ok inst sy'"
            unfolding instance_ok_def tasks inst(2,3) using inst(4,5) x(2) by (auto intro: imageI)
          moreover have "start_frame sy sy'"
            unfolding start_frame_def tasks using inst(5) x(2) by (intro conjI exI) simp_all
          ultimately show ?thesis using inst by blast
        qed
      qed
    qed
  qed
qed

lemma load_spec:
  assumes "load env a sy = (r, sy')"
  shows "(\<exists>e. r = Ran (Inl e) \<and> sy_current sy' = sy_current sy \<and> sy_published sy' = sy_published sy \<and> start_frame sy sy')
    \<or> (\<exists>inst. r = Ran (Inr inst) \<and> instance_ok inst sy' \<and> in_id inst = sy_next sy \<and> start_frame sy sy')"
proof (cases "\<exists>blocks. parse_file (se_parse env) (ar_conf a) = Inr blocks \<and> blocks \<noteq> []")
  case True
  then obtain blocks where "parse_file (se_parse env) (ar_conf a) = Inr blocks" "blocks \<noteq> []" by blast
  with assms have "start env blocks \<lparr>bo_default_port = ar_port a, bo_corefile = ar_conf a\<rparr> sy = (r, sy')" by (simp add: load_def)
  then show ?thesis by (rule start_spec)
next
  case False
  with assms show ?thesis by (auto simp: load_def start_frame_refl split: sum.splits if_splits)
qed

lemma instance_ok_frame:
  assumes "instance_ok inst sy" "start_frame sy sy'" "sy_current sy' = sy_current sy" "sy_published sy' = sy_published sy"
  shows "instance_ok inst sy'"
  using assms by (auto simp: instance_ok_def start_frame_def)

lemma instance_ok_state [simp]: "instance_ok inst (sy\<lparr>sy_state := s\<rparr>) = instance_ok inst sy"
  by (simp add: instance_ok_def)

lemma instance_ok_stop: "instance_ok inst sy \<Longrightarrow> in_id old \<noteq> in_id inst \<Longrightarrow> instance_ok inst (stop old sy)"
  by (auto simp: instance_ok_def stop_def)

lemma reload_spec:
  assumes "instance_ok old sy" "reload env a old sy = (r, sy')"
  shows "\<exists>inst. r = Ran inst \<and> instance_ok inst sy' \<and> (inst = old \<or> (\<forall>il \<in> set (sy_tasks sy'). fst il \<noteq> in_id old))"
proof -
  obtain hr s where hooks: "run_restart_hooks old sy = (hr, sy\<lparr>sy_state := s\<rparr>)"
    by (cases "run_hooks (in_restart old) (sy_state sy)") (simp add: run_restart_hooks_def)
  have ok: "instance_ok old (sy\<lparr>sy_state := s\<rparr>)" using assms(1) by simp
  show ?thesis
  proof (cases hr)
    case (Inl e)
    with assms(2) hooks ok show ?thesis by (auto simp: reload_def run_restart_failed_hooks_def)
  next
    case (Inr u)
    obtain lr sy2 where l: "load env a (sy\<lparr>sy_state := s\<rparr>) = (lr, sy2)" by fastforce
    from load_spec [OF l] show ?thesis
    proof (elim disjE exE conjE)
      fix e assume e: "lr = Ran (Inl e)" and f: "sy_current sy2 = sy_current (sy\<lparr>sy_state := s\<rparr>)"
        "sy_published sy2 = sy_published (sy\<lparr>sy_state := s\<rparr>)" "start_frame (sy\<lparr>sy_state := s\<rparr>) sy2"
      from instance_ok_frame [OF ok f(3,1,2)] assms(2) hooks Inr l e show ?thesis
        by (auto simp: reload_def run_restart_failed_hooks_def)
    next
      fix inst assume i: "lr = Ran (Inr inst)" "instance_ok inst sy2" "in_id inst = sy_next (sy\<lparr>sy_state := s\<rparr>)"
      then have "in_id old \<noteq> in_id inst" using assms(1) by (auto simp: instance_ok_def)
      with instance_ok_stop [OF i(2)] assms(2) hooks Inr l i(1) show ?thesis by (auto simp: reload_def stop_def)
    qed
  qed
qed


section \<open>Properties\<close>

text \<open>A process about to start, with a Corefile of one empty server block, the input of the examples.\<close>

definition bare_env :: "(unit, unit) start_env" where
  "bare_env = \<lparr>se_from_ascii = Inr,
     se_net = \<lparr>net_parse = (\<lambda>_. Inl ''not a network''), net_v4 = (\<lambda>_. True), net_prefix_len = (\<lambda>_. 0), net_subnets = (\<lambda>_ _. None),
       net_octets = (\<lambda>_. []), net_contains = (\<lambda>_ _. False), net_of_ip = (\<lambda>_. ())\<rparr>,
     se_cwd = None, se_order = [], se_reset_pending = id, se_post_finalize = (\<lambda>_ s. s), se_v6 = True, se_resolver = (\<lambda>_. None),
     se_bind = (\<lambda>_ _ _. None), se_from_std = (\<lambda>_ _. None),
     se_parse = \<lparr>pe_var = (\<lambda>_. []), pe_base_dir = [], pe_glob = (\<lambda>_. Inr []), pe_is_file = (\<lambda>_. False), pe_read = (\<lambda>_. Inr ''. {
}'')\<rparr>\<rparr>"

definition bare_args :: args where
  "bare_args = \<lparr>ar_conf = ''Corefile'', ar_port = 53, ar_pidfile = None, ar_quiet = True\<rparr>"

definition bare_system :: "unit system" where
  "bare_system = \<lparr>sy_state = (), sy_current = [], sy_published = [], sy_tasks = [], sy_next = 0\<rparr>"

lemma bare_build:
  "\<exists>c. build (se_from_ascii bare_env) (se_net bare_env) (se_cwd bare_env) (se_order bare_env) \<lparr>bo_default_port = 53, bo_corefile = ''Corefile''\<rparr>
       [\<lparr>sb_keys = [''.''], sb_directives = [], sb_line = 1\<rparr>] = Inr [c]
     \<and> sc_transport c = T_Dns \<and> sc_listen_hosts c = [] \<and> sc_port c = 53 \<and> sc_startup c = [] \<and> sc_num_sockets c = 1"
proof -
  have "case build (se_from_ascii bare_env) (se_net bare_env) (se_cwd bare_env) (se_order bare_env) \<lparr>bo_default_port = 53, bo_corefile = ''Corefile''\<rparr>
       [\<lparr>sb_keys = [''.''], sb_directives = [], sb_line = 1\<rparr>] of
     Inr [c] \<Rightarrow> sc_transport c = T_Dns \<and> sc_listen_hosts c = [] \<and> sc_port c = 53 \<and> sc_startup c = [] \<and> sc_num_sockets c = 1 | _ \<Rightarrow> False"
    by code_simp
  then show ?thesis by (auto split: sum.splits list.splits)
qed

lemma bare_load: "\<exists>inst sy. load bare_env bare_args bare_system = (Ran (Inr inst), sy)"
proof -
  have p: "parse_file (se_parse bare_env) (ar_conf bare_args) = Inr [\<lparr>sb_keys = [''.''], sb_directives = [], sb_line = 1\<rparr>]" by code_simp
  obtain c where c: "build (se_from_ascii bare_env) (se_net bare_env) (se_cwd bare_env) (se_order bare_env) \<lparr>bo_default_port = 53, bo_corefile = ''Corefile''\<rparr>
       [\<lparr>sb_keys = [''.''], sb_directives = [], sb_line = 1\<rparr>] = Inr [c]"
    "sc_transport c = T_Dns" "sc_listen_hosts c = []" "sc_port c = 53" "sc_startup c = []" "sc_num_sockets c = 1" using bare_build by blast
  have r: "resolve_bind True (\<lambda>_. None) ('':'' @ show_nat 53) = Inr \<lparr>sa_ip = V6 (replicate 16 0), sa_port = 53\<rparr>"
    by (simp add: resolve_bind_def strip_prefix_def starts_with_def del: show_nat.simps)
  have e: "se_from_std bare_env l s = None" "se_bind bare_env l sa s = None" "se_v6 bare_env" "se_resolver bare_env = (\<lambda>_. None)" for l s sa
    by (simp_all add: bare_env_def)
  obtain sv where g: "group_servers [drain_hooks (finalize_chain c)] = Inr [sv]" "sv_transport sv = T_Dns" "sv_addrs sv = ['':'' @ show_nat 53]"
    "sv_num_sockets sv = 1"
    using c by (simp add: group_servers_def listen_pairs_def listen_addrs_def group_server_def add_listener_config_def listener_init_def
        drain_hooks_def finalize_chain_def)
  have l: "listener_plan sv = [L_Udp ('':'' @ show_nat 53), L_Tcp ('':'' @ show_nat 53)]" using g by (simp add: listener_plan_def)
  have st: "sc_startup (finalize_chain c) = []" using c(5) by (simp add: finalize_chain_def)
  show ?thesis
    using c(1) g l r e st
    by (simp add: load_def p [unfolded bare_args_def, simplified] start_def Let_def bare_args_def bind_listener_def listener_addr_def
        del: show_nat.simps)
qed



text \<open>C6: A reload in which no hook and no setup panics leaves the process with an instance, however its restart hooks, the
  Corefile, the setups, the sockets or the startup hooks fail: its result is either the old instance, with its servers
  published and an accept loop for each of its listeners, or another instance in that state, and then no accept loop
  of the old one is left. Panics of hooks and setups are not part of the model.\<close>

theorem reload_old_or_new:
  assumes "instance_ok old sy"
  shows "\<exists>inst sy'. reload env a old sy = (Ran inst, sy') \<and> instance_ok inst sy'
    \<and> (inst = old \<or> (\<forall>il \<in> set (sy_tasks sy'). fst il \<noteq> in_id old))"
proof -
  obtain r sy' where r: "reload env a old sy = (r, sy')" by fastforce
  from reload_spec [OF assms r] r show ?thesis by blast
qed

theorem reload_old_or_new_witness:
  "\<exists>inst sy inst' sy'. load bare_env bare_args bare_system = (Ran (Inr inst), sy)
     \<and> reload bare_env bare_args inst sy = (Ran inst', sy') \<and> instance_ok inst' sy'"
proof -
  obtain inst sy where l: "load bare_env bare_args bare_system = (Ran (Inr inst), sy)" using bare_load by blast
  then have "instance_ok inst sy" using load_spec [OF l] by auto
  from reload_old_or_new [OF this, of bare_env bare_args] l show ?thesis by blast
qed

text \<open>The spellings of a flag are the same: leading dashes do not matter, and \<open>-f=v\<close> means \<open>-f v\<close> for the flags
  that take a value.\<close>

lemma parse_args_spelling:
  assumes "f \<in> {''conf'', ''dns.port'', ''p'', ''pidfile''}"
  shows "parse_args_loop a ((replicate n (CHR ''-'') @ f @ ''='' @ v) # it) = parse_args_loop a ((''-'' @ f) # v # it)"
proof -
  have t: "trim_start_matches c (replicate n c @ s) = trim_start_matches c s" for c s
    by (induction n) (simp_all add: trim_start_matches_def)
  have f: "trim_start_matches (CHR ''-'') (f @ s) = f @ s" "CHR ''='' \<notin> set f" for s
    using assms by (auto simp: trim_start_matches_def)
  have "flag_parts (replicate n (CHR ''-'') @ f @ ''='' @ v) = (f, Some v)"
    using f by (simp add: flag_parts_def Let_def t find_char_append)
  moreover have fc: "find_char (CHR ''='') f = None" using f(2) by simp
  have "flag_parts (''-'' @ f) = (f, None)"
    using f(1) [of "[]"] by (simp add: flag_parts_def Let_def trim_start_matches_def fc del: find_char_None)
  ultimately show ?thesis using assms by auto
qed

end
