(* ===== verification/Basic_Plugins.thy ===== *)
theory Basic_Plugins
  imports Server_Core "HOL-Library.List_Lexorder" "HOL-Library.Char_ord"
begin

text \<open>
  The plugins whose handlers are a few lines: \<open>any\<close>, \<open>minimal\<close>, \<open>nsid\<close>, \<open>bufsize\<close>, \<open>cancel\<close>,
  \<open>chaos\<close>, \<open>whoami\<close>, \<open>header\<close>, and the ones that only set up the server (\<open>debug\<close>, \<open>root\<close>,
  \<open>multisocket\<close>, \<open>timeouts\<close>), each from its file under \<open>src/plugins\<close>.

  A setup works on the controller; the loop \<open>while c.next()\<close> with its once-per-block guard is
  \<open>single_setup\<close>. The host name, the number of CPUs, the file system and \<open>humantime\<close>'s durations
  are arguments.

  Shown here: every handler keeps the id of the query (an interpretation of
  \<open>id_keeping_handler\<close> each; for \<open>cancel\<close>, when the chain it cuts off has kept it) and every setup keeps the contract of \<open>setup_function\<close>; \<open>any\<close>
  never lets an ANY query through; \<open>bufsize\<close> bounds the size of the answer; \<open>minimal\<close> keeps
  the answer section.
\<close>

section \<open>Setup functions\<close>

definition ctl_disp :: "(dispenser \<Rightarrow> 'a \<times> dispenser) \<Rightarrow> 's controller \<Rightarrow> 'a \<times> 's controller" where
  "ctl_disp f c = (case f (ct_dispenser c) of (x, d) \<Rightarrow> (x, c\<lparr>ct_dispenser := d\<rparr>))"

definition ctl_errf :: "'s controller \<Rightarrow> string \<Rightarrow> err" where
  "ctl_errf c msg = errf (ct_dispenser c) msg"

definition ctl_arg_err :: "'s controller \<Rightarrow> err" where
  "ctl_arg_err c = arg_err (ct_dispenser c)"

definition ctl_val :: "'s controller \<Rightarrow> string" where
  "ctl_val c = val (ct_dispenser c)"

text \<open>
  \<open>while c.next()\<close> with the guard \<open>n > 1\<close>: the body runs at most once, the second round is
  the error.
\<close>

definition single_setup :: "string \<Rightarrow> 's setup_fn \<Rightarrow> 's setup_fn" where
  "single_setup name body c =
     (case ctl_disp next_tok c of
        (False, c1) \<Rightarrow> (Inr (), c1)
      | (True, c1) \<Rightarrow>
          (case body c1 of
             (Inl e, c2) \<Rightarrow> (Inl e, c2)
           | (Inr _, c2) \<Rightarrow>
               (case ctl_disp next_tok c2 of
                  (False, c3) \<Rightarrow> (Inr (), c3)
                | (True, c3) \<Rightarrow>
                    (Inl (ctl_errf c3 (''plugin/'' @ name @ '': this plugin can only be used once per Server Block'')), c3))))"

definition no_args_body :: "'s plugin \<Rightarrow> 's setup_fn" where
  "no_args_body p c =
     (case ctl_disp next_arg c of
        (True, c1) \<Rightarrow> (Inl (ctl_arg_err c1), c1)
      | (False, c1) \<Rightarrow> (Inr (), add_plugin p c1))"

section \<open>Handlers\<close>

subsection \<open>any\<close>

definition any_serve :: "'s handler" where
  "any_serve req nx s =
     (if qtype req \<noteq> RT_ANY then nx_serve nx req s
      else (let m = (new_reply req)\<lparr>m_authoritative := True\<rparr> in
        (Replied (RMsg (add_answer (from_rdata (qname req) 8482 (RD_HINFO ''ANY obsoleted'' ''See RFC 8482'')) m)), req, s)))"

definition any_setup :: "'s setup_fn" where
  "any_setup = single_setup ''any'' (no_args_body (''any'', any_serve))"

subsection \<open>minimal\<close>

definition minimize :: "message \<Rightarrow> message" where
  "minimize m =
     (if m_rcode m = NoError \<and> m_answers m \<noteq> []
      then m\<lparr>m_name_servers := [], m_additionals := filter (\<lambda>r. rr_type r = RT_OPT) (m_additionals m)\<rparr>
      else m)"

definition minimal_serve :: "'s handler" where
  "minimal_serve req nx s =
     on_reply (nx_serve nx req s) (\<lambda>r req s. (Replied (reply_map_msg minimize r), req, s))"

definition minimal_setup :: "'s setup_fn" where
  "minimal_setup = single_setup ''minimal'' (no_args_body (''minimal'', minimal_serve))"

subsection \<open>nsid\<close>

definition add_nsid :: "u8 list \<Rightarrow> message \<Rightarrow> message" where
  "add_nsid data m =
     (let e = (case m_edns m of Some e \<Rightarrow> e | None \<Rightarrow> edns_new\<lparr>ed_max_payload := UDP_BUFFER_SIZE\<rparr>) in
      m\<lparr>m_edns := Some (insert_option (OptUnknown code_nsid data) e)\<rparr>)"

definition nsid_serve :: "u8 list \<Rightarrow> 's handler" where
  "nsid_serve data req nx s =
     (let wants = (case m_edns (rq_msg req) of Some e \<Rightarrow> ed_options e code_nsid \<noteq> None | None \<Rightarrow> False) in
      on_reply (nx_serve nx req s) (\<lambda>r req s.
        (Replied (if wants then reply_map_msg (add_nsid data) r else r), req, s)))"

definition bytes_of :: "string \<Rightarrow> u8 list" where
  "bytes_of str = map of_char str"

definition nsid_body :: "string \<Rightarrow> 's setup_fn" where
  "nsid_body hostname c =
     (case ctl_disp remaining_args c of (as, c1) \<Rightarrow>
        (let data = (if as = [] then hostname else join_with '' '' as) in
         (Inr (), add_plugin (''nsid'', nsid_serve (bytes_of data)) c1)))"

definition nsid_setup :: "string \<Rightarrow> 's setup_fn" where
  "nsid_setup hostname = single_setup ''nsid'' (nsid_body hostname)"

subsection \<open>bufsize\<close>

definition cap_payload :: "u16 \<Rightarrow> message \<Rightarrow> message" where
  "cap_payload sz m =
     (case m_edns m of
        Some e \<Rightarrow> if ed_max_payload e > sz then m\<lparr>m_edns := Some (e\<lparr>ed_max_payload := sz\<rparr>)\<rparr> else m
      | None \<Rightarrow> m)"

definition bufsize_serve :: "u16 \<Rightarrow> 's handler" where
  "bufsize_serve sz req nx s = nx_serve nx (req\<lparr>rq_msg := cap_payload sz (rq_msg req)\<rparr>) s"

definition bufsize_arg :: "'s controller \<Rightarrow> string list \<Rightarrow> u16 res" where
  "bufsize_arg c as =
     (case as of
        [] \<Rightarrow> Inr 1232
      | [a] \<Rightarrow> (case parse_u16 a of
            None \<Rightarrow> Inl (ctl_errf c (''invalid size '' @ a))
          | Some n \<Rightarrow> if \<not> (512 \<le> n \<and> n \<le> 4096) then Inl (ctl_errf c ''bufsize must be between 512 and 4096'')
                      else Inr (of_nat n))
      | _ \<Rightarrow> Inl (ctl_arg_err c))"

definition bufsize_body :: "'s setup_fn" where
  "bufsize_body c =
     (case ctl_disp remaining_args c of (as, c1) \<Rightarrow>
        (case bufsize_arg c1 as of
           Inl e \<Rightarrow> (Inl e, c1)
         | Inr sz \<Rightarrow> (Inr (), add_plugin (''bufsize'', bufsize_serve sz) c1)))"

definition bufsize_setup :: "'s setup_fn" where
  "bufsize_setup = single_setup ''bufsize'' bufsize_body"

subsection \<open>cancel\<close>

text \<open>
  \<open>expire\<close> is what \<open>timeout_at\<close> does: when the rest of the chain has not finished at the deadline,
  its future is dropped and the request and the shared state stay as they are at that moment.
\<close>

definition cancel_deadline :: "nat \<Rightarrow> nat \<Rightarrow> request \<Rightarrow> request" where
  "cancel_deadline now timeout req =
     (let deadline = now + timeout in
      req\<lparr>rq_deadline := Some (case rq_deadline req of
            Some d \<Rightarrow> if d < deadline then d else deadline | None \<Rightarrow> deadline)\<rparr>)"

definition cancel_serve :: "('s \<Rightarrow> nat) \<Rightarrow> (request \<Rightarrow> 's \<Rightarrow> nat \<Rightarrow> (request \<times> 's) option) \<Rightarrow> (nat \<Rightarrow> string) \<Rightarrow> nat \<Rightarrow> 's handler" where
  "cancel_serve now expire show_duration timeout req nx s =
     (let req1 = cancel_deadline (now s) timeout req in
      case expire req1 s (now s + timeout) of
        None \<Rightarrow> nx_serve nx req1 s
      | Some (req2, s2) \<Rightarrow>
          (Failed (plugin_error_new ''cancel'' (''request for '' @ name_uncached req2 @ '' timed out after ''
             @ show_duration timeout)), req2, s2))"

subsection \<open>chaos\<close>

definition chaos_texts :: "string \<Rightarrow> string \<Rightarrow> string list \<Rightarrow> string \<Rightarrow> string list option" where
  "chaos_texts hostname version authors n =
     (if n = ''version.bind.'' \<or> n = ''version.server.'' then Some [version]
      else if n = ''hostname.bind.'' \<or> n = ''id.server.'' then Some [hostname]
      else if n = ''authors.bind.'' then Some authors
      else None)"

definition chaos_rr :: "dname \<Rightarrow> string \<Rightarrow> rr" where
  "chaos_rr n t = (from_rdata n 0 (RD_TXT [t]))\<lparr>rr_class := DC_CH\<rparr>"

definition chaos_serve :: "string \<Rightarrow> string \<Rightarrow> string list \<Rightarrow> 's handler" where
  "chaos_serve hostname version authors req nx s =
     (if qclass req \<noteq> DC_CH \<or> qtype req \<noteq> RT_TXT then nx_serve nx req s
      else (case req_name req of (n, req1) \<Rightarrow>
        (case chaos_texts hostname version authors n of
           None \<Rightarrow> nx_serve nx req1 s
         | Some texts \<Rightarrow>
             (let m = (new_reply req1)\<lparr>m_authoritative := True\<rparr> in
              (Replied (RMsg (foldl (\<lambda>m t. add_answer (chaos_rr (qname req1) t) m) m texts)), req1, s)))))"

text \<open>\<open>sort\<close> then \<open>dedup\<close> of the authors; \<open>versions\<close> is the default version text.\<close>

definition chaos_body :: "string \<Rightarrow> string \<Rightarrow> 's setup_fn" where
  "chaos_body hostname versions c =
     (case ctl_disp remaining_args c of (as, c1) \<Rightarrow>
        (let va = (case as of
             [] \<Rightarrow> (versions, [''Miek Gieben'', ''stormcoredns contributors''])
           | v # a \<Rightarrow> (v, remdups_adj (sort a))) in
         (Inr (), add_plugin (''chaos'', chaos_serve hostname (fst va) (snd va)) c1)))"

definition chaos_setup :: "string \<Rightarrow> string \<Rightarrow> 's setup_fn" where
  "chaos_setup hostname versions = single_setup ''chaos'' (chaos_body hostname versions)"

subsection \<open>whoami\<close>

definition proto_label :: "request \<Rightarrow> string" where
  "proto_label req = (case rq_proto req of Udp \<Rightarrow> ''udp'' | _ \<Rightarrow> ''tcp'')"

text \<open>\<open>prepend\<close> is \<open>Name::from_ascii\<close> of the label followed by \<open>append_domain\<close>.\<close>

definition whoami_serve :: "(string \<Rightarrow> dname \<Rightarrow> dname res) \<Rightarrow> 's handler" where
  "whoami_serve prepend req nx s =
     (let m = (new_reply req)\<lparr>m_authoritative := True\<rparr>;
          qn = qname req;
          r = (case req_ip req of V4 o4 \<Rightarrow> from_rdata qn 0 (RD_A o4) | V6 o6 \<Rightarrow> from_rdata qn 0 (RD_AAAA o6));
          srv_name = (case prepend (''_'' @ proto_label req @ ''.'') qn of Inr n \<Rightarrow> n | Inl _ \<Rightarrow> qn);
          srv = from_rdata srv_name 0 (RD_SRV 0 0 (of_nat (req_port req)) ''.'')
      in (Replied (RMsg (add_additional srv (add_additional r m))), req, s))"

definition whoami_setup :: "(string \<Rightarrow> dname \<Rightarrow> dname res) \<Rightarrow> 's setup_fn" where
  "whoami_setup prepend c =
     (case ctl_disp next_tok c of (_, c1) \<Rightarrow> no_args_body (''whoami'', whoami_serve prepend) c1)"

subsection \<open>header\<close>

datatype flag = Aa | Ra | Rd | Ad | Cd | Tc

definition flag_parse :: "string \<Rightarrow> flag option" where
  "flag_parse s =
     (if s = ''aa'' then Some Aa else if s = ''ra'' then Some Ra else if s = ''rd'' then Some Rd
      else if s = ''ad'' then Some Ad else if s = ''cd'' then Some Cd else if s = ''tc'' then Some Tc
      else None)"

fun flag_apply :: "flag \<times> bool \<Rightarrow> message \<Rightarrow> message" where
  "flag_apply (Aa, v) m = m\<lparr>m_authoritative := v\<rparr>"
| "flag_apply (Ra, v) m = m\<lparr>m_recursion_available := v\<rparr>"
| "flag_apply (Rd, v) m = m\<lparr>m_recursion_desired := v\<rparr>"
| "flag_apply (Ad, v) m = m\<lparr>m_authentic_data := v\<rparr>"
| "flag_apply (Cd, v) m = m\<lparr>m_checking_disabled := v\<rparr>"
| "flag_apply (Tc, v) m = m\<lparr>m_truncated := v\<rparr>"

definition flags_apply :: "(flag \<times> bool) list \<Rightarrow> message \<Rightarrow> message" where
  "flags_apply fs m = foldl (\<lambda>m f. flag_apply f m) m fs"

record header_rules =
  hd_query :: "(flag \<times> bool) list"
  hd_response :: "(flag \<times> bool) list"

definition header_serve :: "header_rules \<Rightarrow> 's handler" where
  "header_serve h req nx s =
     on_reply (nx_serve nx (req\<lparr>rq_msg := flags_apply (hd_query h) (rq_msg req)\<rparr>) s)
       (\<lambda>r req s. (Replied (reply_map_msg (flags_apply (hd_response h)) r), req, s))"

text \<open>One line of the block: the rules with the flags of the line added.\<close>

definition header_line :: "(string \<Rightarrow> err) \<Rightarrow> string list \<Rightarrow> header_rules \<Rightarrow> header_rules res" where
  "header_line errfn toks h =
     (let to_query = (hd toks = ''query'');
          rest = (if hd toks = ''query'' \<or> hd toks = ''response'' then tl toks else toks) in
      if rest = [] then Inl (errfn ''header: expected set or clear'')
      else rbind (if hd rest = ''set'' then Inr True else if hd rest = ''clear'' then Inr False
                  else Inl (errfn (''unknown action '' @ quote (hd rest)))) (\<lambda>v.
      if length rest < 2 then Inl (errfn ''header: at least one flag is required'')
      else rbind (try_flat_map (\<lambda>f. rbind (ok_or (errfn (''unknown flag '' @ quote f)) (flag_parse f))
                                   (\<lambda>fl. Inr [(fl, v)])) (tl rest)) (\<lambda>fs.
      Inr (if to_query then h\<lparr>hd_query := hd_query h @ fs\<rparr> else h\<lparr>hd_response := hd_response h @ fs\<rparr>))))"

lemma left_over_next_block:
  "next_block d = (True, d') \<Longrightarrow> val d' = [] \<or> left_over d' < left_over d"
  by (auto simp: next_block_def Let_def disp_defs left_over_def split: prod.splits bool.splits if_splits)

lemma left_over_remaining_args: "left_over (snd (remaining_args d)) \<le> left_over d"
proof (induction d rule: remaining_args.induct)
  case (1 d)
  obtain b d1 where n: "next_arg d = (b, d1)" by (cases "next_arg d")
  show ?case
  proof (cases b)
    case True
    with 1 n have "left_over (snd (remaining_args d1)) \<le> left_over d1" by simp
    with next_arg_smaller [of d d1] n True show ?thesis
      by (subst remaining_args.simps) (auto split: prod.splits)
  next
    case False
    with n have "left_over d1 \<le> left_over d"
      by (auto simp: next_arg_def next_tok_def left_over_def split: if_splits)
    with n False show ?thesis by (subst remaining_args.simps) simp
  qed
qed

text \<open>A line of a block moves on, unless the walk has run past the last token.\<close>

lemma block_line_smaller:
  assumes "ctl_disp next_block c = (True, c1)" "ctl_disp remaining_args c1 = (as, c2)" "ctl_val c1 \<noteq> []"
  shows "left_over (ct_dispenser c2) < left_over (ct_dispenser c)"
proof -
  from assms(1) have "next_block (ct_dispenser c) = (True, ct_dispenser c1)"
    by (auto simp: ctl_disp_def split: prod.splits)
  moreover from assms(2) have "remaining_args (ct_dispenser c1) = (as, ct_dispenser c2)"
    by (auto simp: ctl_disp_def split: prod.splits)
  ultimately show ?thesis
    using left_over_next_block left_over_remaining_args [of "ct_dispenser c1"] assms(3)
    by (fastforce simp: ctl_val_def)
qed

lemma header_line_empty: "header_line ef ([] # as) h \<noteq> Inr h'"
  by (simp add: header_line_def Let_def)

function header_loop :: "header_rules \<Rightarrow> 's controller \<Rightarrow> header_rules res \<times> 's controller" where
  "header_loop h c =
     (case ctl_disp next_block c of
        (False, c1) \<Rightarrow> (Inr h, c1)
      | (True, c1) \<Rightarrow>
          (case ctl_disp remaining_args c1 of (as, c2) \<Rightarrow>
             (case header_line (ctl_errf c2) (ctl_val c1 # as) h of
                Inl e \<Rightarrow> (Inl e, c2)
              | Inr h' \<Rightarrow> header_loop h' c2)))"
  by pat_completeness auto
termination
proof (relation "measure (\<lambda>(h, c). left_over (ct_dispenser c))", goal_cases)
  case (2 h c b c1 as c2 h')
  then have "ctl_val c1 \<noteq> []" using header_line_empty by (metis)
  with 2 show ?case by (auto intro: block_line_smaller [OF sym sym])
qed simp

declare header_loop.simps [simp del]

definition header_body :: "'s setup_fn" where
  "header_body c =
     (case ctl_disp next_arg c of
        (True, c1) \<Rightarrow> (Inl (ctl_arg_err c1), c1)
      | (False, c1) \<Rightarrow>
          (case header_loop \<lparr>hd_query = [], hd_response = []\<rparr> c1 of
             (Inl e, c2) \<Rightarrow> (Inl e, c2)
           | (Inr h, c2) \<Rightarrow> (Inr (), add_plugin (''header'', header_serve h) c2)))"

definition header_setup :: "'s setup_fn" where
  "header_setup = single_setup ''header'' header_body"

section \<open>Plugins that only configure the server\<close>

definition debug_body :: "'s setup_fn" where
  "debug_body c =
     (case ctl_disp next_arg c of
        (True, c1) \<Rightarrow> (Inl (ctl_arg_err c1), c1)
      | (False, c1) \<Rightarrow> (Inr (), on_config (\<lambda>g. g\<lparr>sc_values := (sc_values g)(DEBUG_KEY \<mapsto> ''1'')\<rparr>) c1))"

definition debug_setup :: "'s setup_fn" where
  "debug_setup = single_setup ''debug'' debug_body"

text \<open>\<open>std::fs::metadata\<close> of a path.\<close>

datatype path_status = PS_Dir | PS_NotDir | PS_NotFound | PS_Err string

definition root_body :: "(string \<Rightarrow> path_status) \<Rightarrow> 's setup_fn" where
  "root_body fs c =
     (case ctl_disp remaining_args c of
        ([p], c1) \<Rightarrow>
          (case fs p of
             PS_NotDir \<Rightarrow> (Inl (ctl_errf c1 (''root path is not a directory: '' @ p)), c1)
           | PS_Err e \<Rightarrow> (Inl (ctl_errf c1 (''unable to access root path '' @ p @ '': '' @ e)), c1)
           | _ \<Rightarrow> (Inr (), on_config (\<lambda>g. g\<lparr>sc_root := p\<rparr>) c1))
      | (_, c1) \<Rightarrow> (Inl (ctl_arg_err c1), c1))"

definition root_setup :: "(string \<Rightarrow> path_status) \<Rightarrow> 's setup_fn" where
  "root_setup fs = single_setup ''root'' (root_body fs)"

definition multisocket_body :: "nat \<Rightarrow> 's setup_fn" where
  "multisocket_body cpus c =
     (case ctl_disp remaining_args c of (as, c1) \<Rightarrow>
        (case (case as of
             [] \<Rightarrow> Inr cpus
           | [a] \<Rightarrow> (case parse_unsigned USIZE_MAX a of
                 None \<Rightarrow> Inl (ctl_errf c1 (''invalid num sockets: '' @ a))
               | Some v \<Rightarrow> if v = 0 then Inl (ctl_errf c1 ''num sockets can not be zero'') else Inr v)
           | _ \<Rightarrow> Inl (ctl_arg_err c1)) of
           Inl e \<Rightarrow> (Inl e, c1)
         | Inr n \<Rightarrow> (Inr (), on_config (\<lambda>g. g\<lparr>sc_num_sockets := n\<rparr>) c1)))"

definition multisocket_setup :: "nat \<Rightarrow> 's setup_fn" where
  "multisocket_setup cpus = single_setup ''multisocket'' (multisocket_body cpus)"

text \<open>Durations are nanoseconds; \<open>parse_dur\<close> is \<open>parse_duration\<close>.\<close>

definition timeouts_line ::
    "(string \<Rightarrow> nat res) \<Rightarrow> (string \<Rightarrow> err) \<Rightarrow> err \<Rightarrow> string \<Rightarrow> string list \<Rightarrow> 's server_config \<Rightarrow> 's server_config res" where
  "timeouts_line parse_dur errfn argerr key a cfg =
     (if length a \<noteq> 1 then Inl argerr
      else (case parse_dur (hd a) of
          Inl e \<Rightarrow> Inl (errfn (key @ '': '' @ e))
        | Inr d \<Rightarrow>
            if d = 0 \<or> d > 86400000000000 then Inl (errfn (key @ '' timeout must be between 1 second and 24 hours''))
            else if key = ''read'' then Inr (cfg\<lparr>sc_read_timeout := Some d\<rparr>)
            else if key = ''write'' then Inr (cfg\<lparr>sc_write_timeout := Some d\<rparr>)
            else if key = ''idle'' then Inr (cfg\<lparr>sc_idle_timeout := Some d\<rparr>)
            else Inl (errfn (''unknown option '' @ quote key))))"

lemma timeouts_line_empty: "timeouts_line pd ef ae [] a cfg \<noteq> Inr cfg'"
  by (auto simp: timeouts_line_def split: sum.splits)

function timeouts_loop :: "(string \<Rightarrow> nat res) \<Rightarrow> bool \<Rightarrow> 's controller \<Rightarrow> bool res \<times> 's controller" where
  "timeouts_loop parse_dur seen c =
     (case ctl_disp next_block c of
        (False, c1) \<Rightarrow> (Inr seen, c1)
      | (True, c1) \<Rightarrow>
          (case ctl_disp remaining_args c1 of (a, c2) \<Rightarrow>
             (case timeouts_line parse_dur (ctl_errf c2) (ctl_arg_err c2) (ctl_val c1) a (ct_config c2) of
                Inl e \<Rightarrow> (Inl e, c2)
              | Inr cfg \<Rightarrow> timeouts_loop parse_dur True (c2\<lparr>ct_config := cfg\<rparr>))))"
  by pat_completeness auto
termination
proof (relation "measure (\<lambda>(p, b, c). left_over (ct_dispenser c))", goal_cases)
  case (2 p seen c b c1 as c2 cfg)
  then have "ctl_val c1 \<noteq> []" using timeouts_line_empty by metis
  with 2 show ?case by (auto intro: block_line_smaller [OF sym sym])
qed simp

declare timeouts_loop.simps [simp del]

definition timeouts_body :: "(string \<Rightarrow> nat res) \<Rightarrow> 's setup_fn" where
  "timeouts_body parse_dur c =
     (case ctl_disp remaining_args_until_brace c of (as, c1) \<Rightarrow>
        if as \<noteq> [] then (Inl (ctl_arg_err c1), c1)
        else (case timeouts_loop parse_dur False c1 of
            (Inl e, c2) \<Rightarrow> (Inl e, c2)
          | (Inr seen, c2) \<Rightarrow>
              if \<not> seen then (Inl (ctl_errf c2 ''timeouts block with no timeouts specified''), c2) else (Inr (), c2)))"

definition timeouts_setup :: "(string \<Rightarrow> nat res) \<Rightarrow> 's setup_fn" where
  "timeouts_setup parse_dur = single_setup ''timeouts'' (timeouts_body parse_dur)"

section \<open>The setups keep their contract\<close>

text \<open>Moving the cursor and setting values leave the handlers alone.\<close>

lemma ctl_disp_frame:
  "ctl_disp f c = (x, c') \<Longrightarrow> ct_config c' = ct_config c \<and> ct_directive c' = ct_directive c"
  by (auto simp: ctl_disp_def split: prod.splits)

definition appends_plugins :: "'s controller \<Rightarrow> 's controller \<Rightarrow> bool" where
  "appends_plugins c c' \<longleftrightarrow>
     (\<exists>hs. sc_plugins (ct_config c') = sc_plugins (ct_config c) @ map (Pair (ct_directive c)) hs) \<and>
     ct_directive c' = ct_directive c"

lemma appends_refl [intro]: "ct_config c' = ct_config c \<and> ct_directive c' = ct_directive c \<Longrightarrow> appends_plugins c c'"
  by (auto simp: appends_plugins_def intro: exI [of _ "[]"])

lemma appends_trans: "appends_plugins a b \<Longrightarrow> appends_plugins b c \<Longrightarrow> appends_plugins a c"
  unfolding appends_plugins_def by (metis append_assoc map_append)

lemma appends_disp: "ctl_disp f c = (x, c') \<Longrightarrow> appends_plugins c c'"
  by (rule appends_refl) (rule ctl_disp_frame)

lemma appends_add_plugin: "appends_plugins c (add_plugin h c)"
  by (auto simp: appends_plugins_def add_plugin_def config_add_plugin_def intro: exI [of _ "[h]"])

lemma appends_on_config: "(\<And>g. sc_plugins (f g) = sc_plugins g) \<Longrightarrow> appends_plugins c (on_config f c)"
  by (auto simp: appends_plugins_def on_config_def)

lemma setup_functionI: "(\<And>c r c'. f c = (r, c') \<Longrightarrow> appends_plugins c c') \<Longrightarrow> setup_function f"
  by unfold_locales (simp add: appends_plugins_def)

lemma single_setup_appends:
  assumes body: "\<And>c r c'. body c = (r, c') \<Longrightarrow> appends_plugins c c'"
    and run: "single_setup name body c = (r, c')"
  shows "appends_plugins c c'"
proof -
  obtain b1 c1 where n1: "ctl_disp next_tok c = (b1, c1)" by (cases "ctl_disp next_tok c")
  show ?thesis
  proof (cases b1)
    case True
    obtain r2 c2 where b: "body c1 = (r2, c2)" by (cases "body c1")
    obtain b3 c3 where n3: "ctl_disp next_tok c2 = (b3, c3)" by (cases "ctl_disp next_tok c2")
    from run n1 True b n3 have "c' = c2 \<or> c' = c3"
      by (auto simp: single_setup_def split: sum.splits bool.splits)
    with appends_disp [OF n1] body [OF b] appends_disp [OF n3] show ?thesis by (blast intro: appends_trans)
  qed (use run n1 appends_disp [OF n1] in \<open>auto simp: single_setup_def\<close>)
qed

lemmas single_setup_function = setup_functionI [OF single_setup_appends]

lemma no_args_body_appends: "no_args_body p c = (r, c') \<Longrightarrow> appends_plugins c c'"
  by (auto simp: no_args_body_def split: prod.splits bool.splits
      intro: appends_disp appends_trans [OF appends_disp appends_add_plugin])

interpretation any_setup: setup_function any_setup
  unfolding any_setup_def by (rule single_setup_function [OF no_args_body_appends])

interpretation minimal_setup: setup_function minimal_setup
  unfolding minimal_setup_def by (rule single_setup_function [OF no_args_body_appends])

lemma nsid_body_appends: "nsid_body h c = (r, c') \<Longrightarrow> appends_plugins c c'"
  by (auto simp: nsid_body_def Let_def split: prod.splits intro: appends_trans [OF appends_disp appends_add_plugin])

interpretation nsid_setup: setup_function "nsid_setup hostname"
  unfolding nsid_setup_def by (rule single_setup_function [OF nsid_body_appends])

lemma bufsize_body_appends: "bufsize_body c = (r, c') \<Longrightarrow> appends_plugins c c'"
  by (auto simp: bufsize_body_def split: prod.splits sum.splits
      intro: appends_disp appends_trans [OF appends_disp appends_add_plugin])

interpretation bufsize_setup: setup_function bufsize_setup
  unfolding bufsize_setup_def by (rule single_setup_function [OF bufsize_body_appends])

lemma chaos_body_appends: "chaos_body h v c = (r, c') \<Longrightarrow> appends_plugins c c'"
  by (auto simp: chaos_body_def Let_def split: prod.splits intro: appends_trans [OF appends_disp appends_add_plugin])

interpretation chaos_setup: setup_function "chaos_setup hostname versions"
  unfolding chaos_setup_def by (rule single_setup_function [OF chaos_body_appends])

interpretation whoami_setup: setup_function "whoami_setup prepend"
  by (rule setup_functionI)
    (auto simp: whoami_setup_def split: prod.splits intro: appends_trans [OF appends_disp no_args_body_appends])

lemma header_loop_frame: "header_loop h c = (r, c') \<Longrightarrow> ct_config c' = ct_config c \<and> ct_directive c' = ct_directive c"
proof (induction h c arbitrary: r rule: header_loop.induct)
  case (1 h c)
  obtain b c1 where n: "ctl_disp next_block c = (b, c1)" by (cases "ctl_disp next_block c")
  obtain as c2 where ra: "ctl_disp remaining_args c1 = (as, c2)" by (cases "ctl_disp remaining_args c1")
  note f = ctl_disp_frame [OF n] ctl_disp_frame [OF ra]
  show ?case
  proof (cases "b \<and> is_ok (header_line (ctl_errf c2) (ctl_val c1 # as) h)")
    case True
    then obtain h' where h': "header_line (ctl_errf c2) (ctl_val c1 # as) h = Inr h'" "b"
      by (cases "header_line (ctl_errf c2) (ctl_val c1 # as) h") auto
    with "1.prems" n ra have "header_loop h' c2 = (r, c')" by (simp add: header_loop.simps [of h c])
    with "1.IH" [of b c1 as c2 h' r] h' n ra f show ?thesis by simp
  next
    case False
    with "1.prems" n ra f show ?thesis
      by (auto simp: header_loop.simps [of h c] split: bool.splits sum.splits)
  qed
qed

lemma header_body_appends: "header_body c = (r, c') \<Longrightarrow> appends_plugins c c'"
  by (auto simp: header_body_def split: prod.splits bool.splits sum.splits dest!: header_loop_frame
      intro: appends_disp appends_trans [OF appends_disp appends_refl]
        appends_trans [OF appends_disp appends_trans [OF appends_refl appends_add_plugin]])

interpretation header_setup: setup_function header_setup
  unfolding header_setup_def by (rule single_setup_function [OF header_body_appends])

lemma debug_body_appends: "debug_body c = (r, c') \<Longrightarrow> appends_plugins c c'"
  by (auto simp: debug_body_def split: prod.splits bool.splits
      intro: appends_disp appends_trans [OF appends_disp appends_on_config])

interpretation debug_setup: setup_function debug_setup
  unfolding debug_setup_def by (rule single_setup_function [OF debug_body_appends])

lemma root_body_appends: "root_body fs c = (r, c') \<Longrightarrow> appends_plugins c c'"
  by (auto simp: root_body_def split: prod.splits list.splits path_status.splits
      intro: appends_disp appends_trans [OF appends_disp appends_on_config])

interpretation root_setup: setup_function "root_setup fs"
  unfolding root_setup_def by (rule single_setup_function [OF root_body_appends])

lemma multisocket_body_appends: "multisocket_body n c = (r, c') \<Longrightarrow> appends_plugins c c'"
  by (auto simp: multisocket_body_def split: prod.splits sum.splits
      intro: appends_disp appends_trans [OF appends_disp appends_on_config])

interpretation multisocket_setup: setup_function "multisocket_setup cpus"
  unfolding multisocket_setup_def by (rule single_setup_function [OF multisocket_body_appends])

lemma timeouts_line_plugins: "timeouts_line pd ef ae k a cfg = Inr cfg' \<Longrightarrow> sc_plugins cfg' = sc_plugins cfg"
  by (auto simp: timeouts_line_def split: if_splits sum.splits)

lemma timeouts_loop_appends: "timeouts_loop pd seen c = (r, c') \<Longrightarrow> appends_plugins c c'"
proof (induction pd seen c arbitrary: r rule: timeouts_loop.induct)
  case (1 pd seen c)
  obtain b c1 where n: "ctl_disp next_block c = (b, c1)" by (cases "ctl_disp next_block c")
  obtain a c2 where ra: "ctl_disp remaining_args c1 = (a, c2)" by (cases "ctl_disp remaining_args c1")
  let ?line = "timeouts_line pd (ctl_errf c2) (ctl_arg_err c2) (ctl_val c1) a (ct_config c2)"
  have c2: "appends_plugins c c2" by (rule appends_trans [OF appends_disp [OF n] appends_disp [OF ra]])
  show ?case
  proof (cases "b \<and> is_ok ?line")
    case True
    then obtain cfg where cfg: "?line = Inr cfg" "b" by (cases ?line) auto
    with "1.prems" n ra have t: "timeouts_loop pd True (c2\<lparr>ct_config := cfg\<rparr>) = (r, c')"
      by (simp add: timeouts_loop.simps [of pd seen c])
    have "appends_plugins c2 (c2\<lparr>ct_config := cfg\<rparr>)"
      using timeouts_line_plugins [OF cfg(1)] by (simp add: appends_plugins_def)
    moreover have "appends_plugins (c2\<lparr>ct_config := cfg\<rparr>) c'"
      using "1.IH" [of b c1 a c2 cfg r] cfg n ra t by simp
    ultimately show ?thesis using c2 by (blast intro: appends_trans)
  next
    case False
    with "1.prems" n ra c2 appends_disp [OF n] show ?thesis
      by (auto simp: timeouts_loop.simps [of pd seen c] split: bool.splits sum.splits)
  qed
qed

lemma timeouts_body_appends:
  assumes "timeouts_body pd c = (r, c')"
  shows "appends_plugins c c'"
proof -
  obtain as c1 where d: "ctl_disp remaining_args_until_brace c = (as, c1)"
    by (cases "ctl_disp remaining_args_until_brace c")
  obtain r2 c2 where l: "timeouts_loop pd False c1 = (r2, c2)" by (cases "timeouts_loop pd False c1")
  from assms d l have "c' = c1 \<or> c' = c2"
    by (auto simp: timeouts_body_def split: if_splits sum.splits)
  with appends_disp [OF d] appends_trans [OF appends_disp [OF d] timeouts_loop_appends [OF l]]
  show ?thesis by blast
qed

interpretation timeouts_setup: setup_function "timeouts_setup parse_dur"
  unfolding timeouts_setup_def by (rule single_setup_function [OF timeouts_body_appends])

section \<open>The handlers keep their contract\<close>

lemma keeps_id_same:
  assumes "keeps_id f" "\<And>req. m_id (rq_msg (g req)) = m_id (rq_msg req)"
  shows "keeps_id (\<lambda>req s. f (g req) s)"
  using assms by (simp add: keeps_id_def)

lemma keeps_id_on_reply:
  assumes f: "keeps_id f" and g: "\<And>req m. m_id (g req m) = m_id m"
  shows "keeps_id (\<lambda>req s. on_reply (f req s) (\<lambda>r req' s'. (Replied (reply_map_msg (g req) r), req', s')))"
proof (rule keeps_idI)
  fix req s out req' s'
  assume run: "on_reply (f req s) (\<lambda>r req' s'. (Replied (reply_map_msg (g req) r), req', s')) = (out, req', s')"
  obtain o1 q1 t1 where o: "f req s = (o1, q1, t1)" by (metis prod.exhaust)
  with run have "req' = q1" by (auto simp: on_reply_def split: outcome.splits)
  with keeps_idD(1) [OF f o] show "m_id (rq_msg req') = m_id (rq_msg req)" by simp
next
  fix req s m req' s'
  assume run: "on_reply (f req s) (\<lambda>r req' s'. (Replied (reply_map_msg (g req) r), req', s')) = (Replied (RMsg m), req', s')"
  obtain o1 q1 t1 where o: "f req s = (o1, q1, t1)" by (metis prod.exhaust)
  with run obtain r where r: "o1 = Replied r" "reply_map_msg (g req) r = RMsg m"
    by (auto simp: on_reply_def split: outcome.splits)
  then obtain m0 where "r = RMsg m0" "m = g req m0"
    by (cases "(g req, r)" rule: reply_map_msg.cases) auto
  with keeps_idD(2) [OF f o, of m0] r g show "m_id m = m_id (rq_msg req)" by simp
qed

lemma keeps_id_if:
  assumes "keeps_id f" "keeps_id g"
  shows "keeps_id (\<lambda>req s. if P req s then f req s else g req s)"
  using assms by (simp add: keeps_id_def)

lemma keeps_id_option:
  assumes "keeps_id f" "\<And>x. keeps_id (g x)"
  shows "keeps_id (\<lambda>req s. case P req s of None \<Rightarrow> f req s | Some x \<Rightarrow> g x req s)"
  using assms by (simp add: keeps_id_def split: option.splits)

lemma keeps_id_answer_named:
  assumes "\<And>req. m_id (m req) = m_id (rq_msg req)"
  shows "keeps_id (\<lambda>req s. (Replied (RMsg (m (snd (req_name req)))), snd (req_name req), s))"
  using assms by (auto simp: keeps_id_def)

lemma keeps_id_answer:
  assumes "\<And>req. m_id (m req) = m_id (rq_msg req)"
  shows "keeps_id (\<lambda>req s. (Replied (RMsg (m req)), req, s))"
  using assms by (auto simp: keeps_id_def)

lemma any_keeps_id: "keeps_id (nx_serve nx) \<Longrightarrow> keeps_id (\<lambda>req s. any_serve req nx s)"
  unfolding any_serve_def Let_def by (intro keeps_id_if keeps_id_answer) (simp_all add: add_answer_def)

interpretation any_handler: id_keeping_handler any_serve
  by unfold_locales (rule any_keeps_id)

lemma minimize_fields [simp]:
  "m_id (minimize m) = m_id m" "m_answers (minimize m) = m_answers m" "m_rcode (minimize m) = m_rcode m"
  by (simp_all add: minimize_def)

lemma minimal_keeps_id: "keeps_id (nx_serve nx) \<Longrightarrow> keeps_id (\<lambda>req s. minimal_serve req nx s)"
  unfolding minimal_serve_def by (rule keeps_id_on_reply [where g = "\<lambda>_. minimize"]) simp_all

interpretation minimal_handler: id_keeping_handler minimal_serve
  by unfold_locales (rule minimal_keeps_id)

lemma m_id_add_nsid [simp]: "m_id (add_nsid d m) = m_id m"
  by (simp add: add_nsid_def Let_def)

lemma nsid_keeps_id:
  assumes "keeps_id (nx_serve nx)"
  shows "keeps_id (\<lambda>req s. nsid_serve data req nx s)"
proof -
  let ?wants = "\<lambda>req. case m_edns (rq_msg req) of Some e \<Rightarrow> ed_options e code_nsid \<noteq> None | None \<Rightarrow> False"
  have id: "reply_map_msg (\<lambda>m. m) r = r" for r by (cases "(\<lambda>m :: message. m, r)" rule: reply_map_msg.cases) auto
  have "nsid_serve data req nx s = on_reply (nx_serve nx req s) (\<lambda>r req' s'.
      (Replied (reply_map_msg (if ?wants req then add_nsid data else (\<lambda>m. m)) r), req', s'))" for req s
    by (simp add: nsid_serve_def Let_def id)
  then show ?thesis
    using keeps_id_on_reply [OF assms, of "\<lambda>req. if ?wants req then add_nsid data else (\<lambda>m. m)"] by simp
qed

interpretation nsid_handler: id_keeping_handler "nsid_serve data"
  by unfold_locales (rule nsid_keeps_id)

lemma m_id_cap_payload [simp]: "m_id (cap_payload sz m) = m_id m"
  by (simp add: cap_payload_def split: option.splits)

lemma bufsize_keeps_id: "keeps_id (nx_serve nx) \<Longrightarrow> keeps_id (\<lambda>req s. bufsize_serve sz req nx s)"
  unfolding bufsize_serve_def by (rule keeps_id_same) simp_all

interpretation bufsize_handler: id_keeping_handler "bufsize_serve sz"
  by unfold_locales (rule bufsize_keeps_id)

text \<open>The chain that \<open>cancel\<close> cuts off leaves the request as it is at that moment; the contract holds when its id is
  still that of the query.\<close>

definition cut_off_keeps_id :: "(request \<Rightarrow> 's \<Rightarrow> nat \<Rightarrow> (request \<times> 's) option) \<Rightarrow> bool" where
  "cut_off_keeps_id expire \<longleftrightarrow> (\<forall>req s t req' s'. expire req s t = Some (req', s') \<longrightarrow> m_id (rq_msg req') = m_id (rq_msg req))"

lemma cancel_keeps_id:
  assumes "cut_off_keeps_id expire"
  shows "id_keeping_handler (cancel_serve now expire show_duration timeout)"
proof
  fix nx :: "'a next_plugin"
  assume "keeps_id (nx_serve nx)"
  then show "keeps_id (\<lambda>req s. cancel_serve now expire show_duration timeout req nx s)"
    using assms by (auto simp: keeps_id_def cancel_serve_def cancel_deadline_def cut_off_keeps_id_def Let_def split: option.splits)
qed

lemma chaos_keeps_id:
  assumes "keeps_id (nx_serve nx)"
  shows "keeps_id (\<lambda>req s. chaos_serve hostname version authors req nx s)"
proof -
  have fold: "m_id (foldl (\<lambda>m t. add_answer (f t) m) m ts) = m_id m" for f :: "string \<Rightarrow> rr" and m and ts
    by (induction ts arbitrary: m) (simp_all add: add_answer_def)
  have named: "keeps_id (\<lambda>req s. nx_serve nx (snd (req_name req)) s)" by (rule keeps_id_same [OF assms]) simp
  show ?thesis
    unfolding chaos_serve_def Let_def case_prod_beta
    by (intro keeps_id_if keeps_id_option assms named keeps_id_answer_named) (simp add: fold)
qed

interpretation chaos_handler: id_keeping_handler "chaos_serve hostname version authors"
  by unfold_locales (rule chaos_keeps_id)

lemma whoami_keeps_id: "keeps_id (\<lambda>req s. whoami_serve prepend req nx s)"
  by (auto simp: keeps_id_def whoami_serve_def Let_def add_additional_def)

interpretation whoami_handler: id_keeping_handler "whoami_serve prepend"
  by unfold_locales (rule whoami_keeps_id)

lemma m_id_flags_apply [simp]: "m_id (flags_apply fs m) = m_id m"
proof -
  have "m_id (flag_apply f m) = m_id m" for f m by (cases "(f, m)" rule: flag_apply.cases) simp_all
  then have "m_id (foldl (\<lambda>m f. flag_apply f m) m fs) = m_id m" by (induction fs arbitrary: m) simp_all
  then show ?thesis by (simp add: flags_apply_def)
qed

lemma header_keeps_id:
  assumes "keeps_id (nx_serve nx)"
  shows "keeps_id (\<lambda>req s. header_serve h req nx s)"
  unfolding header_serve_def
  by (rule keeps_id_on_reply [where g = "\<lambda>_. flags_apply (hd_response h)"], rule keeps_id_same [OF assms]) simp_all

interpretation header_handler: id_keeping_handler "header_serve h"
  by unfold_locales (rule header_keeps_id)

section \<open>Properties\<close>

lemma header_block_rejected:
  assumes "dp_tokens (ct_dispenser c) = t0 # t1 # ts" "\<not> dp_started (ct_dispenser c)" "dp_cursor (ct_dispenser c) = 0" "tk_line t1 = tk_line t0"
  shows "\<exists>e. fst (header_setup c) = Inl e"
proof -
  obtain c1 where c1: "ctl_disp next_tok c = (True, c1)" "dp_started (ct_dispenser c1)" "dp_tokens (ct_dispenser c1) = t0 # t1 # ts" "dp_cursor (ct_dispenser c1) = 0"
    using assms by (simp add: ctl_disp_def next_tok_def)
  then have "\<exists>e c2. header_body c1 = (Inl e, c2)"
    using assms(4) by (simp add: header_body_def ctl_disp_def next_arg_def)
  with c1 show ?thesis by (auto simp: header_setup_def single_setup_def)
qed

text \<open>The header plugin cannot be configured with its block: for every well-formed directive that has a block,
  which the parser only accepts when it opens on the directive's line, the setup fails, because it reads
  the opening brace as an argument.\<close>

lemma header_setup_refuses_blocks:
  assumes "dir_shape (dir_tokens d) as blk" "blk \<noteq> []"
  shows "\<exists>e. fst (header_setup (controller_new ''header'' (dir_tokens d) cfg key keys bi ki once)) = Inl e"
proof -
  obtain t0 where t0: "dir_tokens d = t0 # as @ blk" using assms(1) unfolding dir_shape_def by blast
  obtain t1 ts where t1: "as @ blk = t1 # ts" "t1 \<in> set as \<or> t1 = hd blk"
    using assms(2) by (cases as; cases blk) auto
  have ts: "dir_tokens d = t0 # t1 # ts" "tk_line t1 = tk_line t0"
    using assms t0 t1 by (auto simp only: dir_shape_def t0 list.sel)
  show ?thesis
    by (rule header_block_rejected [of _ t0 t1 ts]) (simp_all add: controller_new_def dispenser_new_def ts)
qed

end
