(* ===== verification/Acl.thy ===== *)
theory Acl
  imports Basic_Plugins
begin

text \<open>
  The \<open>acl\<close> plugin, \<open>src/plugins/acl.rs\<close>: its handler and its setup. Networks are those of the
  \<open>ipnet\<close> crate (\<open>ipnet_api\<close>); the counters are left out.

  Shown here: a query is decided by the first matching policy among the rules whose zones match;
  a query that is not allowed never reaches the rest of the chain; a policy without \<open>net\<close> applies
  to every client; and the setup returns on every token list.
\<close>

datatype action = Allow | Block | Filter | Drop

record 'net policy =
  po_action :: action
  po_qtypes :: "rtype list"
  po_nets :: "'net list"

record 'net rule =
  ru_zones :: "string list"
  ru_policies :: "'net policy list"

definition policy_matches :: "'net ipnet_api \<Rightarrow> 'net policy \<Rightarrow> request \<Rightarrow> bool" where
  "policy_matches api p req =
     (if po_qtypes p \<noteq> [] \<and> qtype req \<notin> set (po_qtypes p) then False
      else list_ex (\<lambda>n. net_contains api n (req_ip req)) (po_nets p))"

definition EDE_BLOCKED :: u16 where "EDE_BLOCKED = 15"
definition EDE_FILTERED :: u16 where "EDE_FILTERED = 17"
definition EDNS_EDE :: u16 where "EDNS_EDE = 15"

definition be_bytes :: "u16 \<Rightarrow> u8 list" where
  "be_bytes n = [ucast (drop_bit 8 n), ucast n]"

definition add_ede :: "u16 \<Rightarrow> message \<Rightarrow> message" where
  "add_ede code m =
     (let e = (case m_edns m of Some e \<Rightarrow> e | None \<Rightarrow> edns_new)\<lparr>ed_max_payload := 4096, ed_dnssec_ok := True\<rparr> in
      m\<lparr>m_edns := Some (insert_option (OptUnknown EDNS_EDE (be_bytes code)) e)\<rparr>)"

text \<open>The loop over the rules: the action of the policy that decides, \<open>Allow\<close> when none does.\<close>

fun acl_decide :: "'net ipnet_api \<Rightarrow> 'net rule list \<Rightarrow> string \<Rightarrow> request \<Rightarrow> action" where
  "acl_decide api [] name req = Allow"
| "acl_decide api (r # rs) name req =
     (case zones_match (ru_zones r) name of
        None \<Rightarrow> acl_decide api rs name req
      | Some zone \<Rightarrow>
          (case find (\<lambda>p. policy_matches api p req) (ru_policies r) of
             None \<Rightarrow> acl_decide api rs name req
           | Some p \<Rightarrow> po_action p))"

definition acl_serve :: "'net ipnet_api \<Rightarrow> 'net rule list \<Rightarrow> 's handler" where
  "acl_serve api rules req nx s =
     (case req_name req of (name, req1) \<Rightarrow>
        (case acl_decide api rules name req1 of
           Allow \<Rightarrow> nx_serve nx req1 s
         | Block \<Rightarrow> (Replied (RMsg (add_ede EDE_BLOCKED ((new_reply req1)\<lparr>m_rcode := Refused\<rparr>))), req1, s)
         | Filter \<Rightarrow> (Replied (RMsg (add_ede EDE_FILTERED (new_reply req1))), req1, s)
         | Drop \<Rightarrow> (Replied RDrop, req1, s)))"

section \<open>Setup\<close>

definition acl_action :: "string \<Rightarrow> action option" where
  "acl_action s =
     (if s = ''allow'' then Some Allow else if s = ''block'' then Some Block
      else if s = ''filter'' then Some Filter else if s = ''drop'' then Some Drop else None)"

text \<open>The literals of \<open>*\<close>: both parse, so the \<open>unwrap\<close> does not fail.\<close>

definition all_nets :: "'net ipnet_api \<Rightarrow> 'net list" where
  "all_nets api = List.map_filter (\<lambda>t. ok (net_parse api t)) [''0.0.0.0/0'', ''::/0'']"

definition acl_net :: "'net ipnet_api \<Rightarrow> (string \<Rightarrow> err) \<Rightarrow> string \<Rightarrow> 'net list res" where
  "acl_net api errfn t =
     (if t = ''*'' then Inr (all_nets api)
      else (case net_parse api t of
          Inr n \<Rightarrow> Inr [n]
        | Inl _ \<Rightarrow> (case parse_ip t of
              Some ip \<Rightarrow> Inr [net_of_ip api ip]
            | None \<Rightarrow> Inl (errfn (''illegal CIDR notation '' @ [CHR 0x22] @ t @ [CHR 0x22])))))"

definition acl_type :: "(string \<Rightarrow> rtype res) \<Rightarrow> (string \<Rightarrow> err) \<Rightarrow> string \<Rightarrow> rtype list res" where
  "acl_type rtype_parse errfn t =
     (case record_type_from_str rtype_parse t of Inl e \<Rightarrow> Inl (errfn e) | Inr r \<Rightarrow> Inr [r])"

text \<open>The arguments of an action: clauses \<open>type T...\<close> and \<open>net N...\<close>, in any order and number.\<close>

function acl_clauses ::
    "'net ipnet_api \<Rightarrow> (string \<Rightarrow> rtype res) \<Rightarrow> (string \<Rightarrow> err) \<Rightarrow> string list
     \<Rightarrow> rtype list \<times> 'net list \<times> bool \<Rightarrow> (rtype list \<times> 'net list \<times> bool) res" where
  "acl_clauses api rp ef [] st = Inr st"
| "acl_clauses api rp ef (t # ts) (qtypes, nets, has_net) =
     (if t = ''type'' then
        rbind (try_flat_map (acl_type rp ef) (takeWhile (\<lambda>x. x \<noteq> ''net'') ts)) (\<lambda>qs.
        if takeWhile (\<lambda>x. x \<noteq> ''net'') ts = [] then Inl (ef (''no types specified after '' @ quote ''type''))
        else acl_clauses api rp ef (dropWhile (\<lambda>x. x \<noteq> ''net'') ts) (qtypes @ qs, nets, has_net))
      else if t = ''net'' then
        rbind (try_flat_map (acl_net api ef) (takeWhile (\<lambda>x. x \<noteq> ''type'') ts)) (\<lambda>ns.
        if takeWhile (\<lambda>x. x \<noteq> ''type'') ts = [] then Inl (ef (''no networks specified after '' @ quote ''net''))
        else acl_clauses api rp ef (dropWhile (\<lambda>x. x \<noteq> ''type'') ts) (qtypes, nets @ ns, True))
      else Inl (ef (''unexpected token '' @ quote t @ ''; expect '' @ quote ''type'' @ '' or '' @ quote ''net'')))"
  by pat_completeness auto
termination
  by (relation "measure (\<lambda>(a, r, e, ts, st). length ts)")
    (auto intro: le_less_trans [OF length_dropWhile_le])

definition acl_policy ::
    "'net ipnet_api \<Rightarrow> (string \<Rightarrow> rtype res) \<Rightarrow> (string \<Rightarrow> err) \<Rightarrow> action \<Rightarrow> string list \<Rightarrow> 'net policy res" where
  "acl_policy api rp ef act toks =
     rbind (acl_clauses api rp ef toks ([], [], False)) (\<lambda>(qtypes, nets, has_net).
     Inr \<lparr>po_action = act, po_qtypes = qtypes, po_nets = (if has_net then nets else nets @ all_nets api)\<rparr>)"

function acl_block ::
    "'net ipnet_api \<Rightarrow> (string \<Rightarrow> rtype res) \<Rightarrow> 'net policy list \<Rightarrow> 's controller
     \<Rightarrow> 'net policy list res \<times> 's controller" where
  "acl_block api rp policies c =
     (case ctl_disp next_block c of
        (False, c1) \<Rightarrow> (Inr policies, c1)
      | (True, c1) \<Rightarrow>
          (case acl_action (ctl_val c1) of
             None \<Rightarrow> (Inl (ctl_errf c1 (''unexpected token '' @ quote (ctl_val c1) @ ''; expect allow, block, filter or drop'')), c1)
           | Some act \<Rightarrow>
               (case ctl_disp remaining_args c1 of (toks, c2) \<Rightarrow>
                  (case acl_policy api rp (ctl_errf c2) act toks of
                     Inl e \<Rightarrow> (Inl e, c2)
                   | Inr p \<Rightarrow> acl_block api rp (policies @ [p]) c2))))"
  by pat_completeness auto
termination
proof (relation "measure (\<lambda>(a, r, p, c). left_over (ct_dispenser c))", goal_cases)
  case (2 api rp policies c b c1 act toks c2 p)
  then have "ctl_val c1 \<noteq> []" by (auto simp: acl_action_def)
  with 2 show ?case by (auto intro: block_line_smaller [OF sym sym])
qed simp

declare acl_block.simps [simp del]

lemma left_over_next_tok: "next_tok d = (True, d') \<Longrightarrow> left_over d' < left_over d"
  by (auto simp: next_tok_def left_over_def split: if_splits)

lemma left_over_next_block_False: "next_block d = (False, d') \<Longrightarrow> left_over d' \<le> left_over d"
  by (auto simp: next_block_def Let_def disp_defs left_over_def split: prod.splits bool.splits if_splits)

lemma left_over_until_brace: "left_over (snd (remaining_args_until_brace d)) \<le> left_over d"
proof (induction d rule: remaining_args_until_brace.induct)
  case (1 d)
  obtain b d1 where n: "next_arg d = (b, d1)" by (cases "next_arg d")
  have le: "left_over (d1\<lparr>dp_cursor := dp_cursor d1 - 1\<rparr>) \<le> left_over d" if b
    using n that by (auto simp: next_arg_def next_tok_def left_over_def split: if_splits)
  show ?case
  proof (cases b)
    case True
    with 1 n have "val d1 \<noteq> ''{'' \<Longrightarrow> left_over (snd (remaining_args_until_brace d1)) \<le> left_over d1" by simp
    with next_arg_smaller [of d d1] n True le show ?thesis
      by (subst remaining_args_until_brace.simps) (auto split: prod.splits)
  next
    case False
    with n have "left_over d1 \<le> left_over d"
      by (auto simp: next_arg_def next_tok_def left_over_def split: if_splits)
    with n False show ?thesis by (subst remaining_args_until_brace.simps) simp
  qed
qed

lemma left_over_disp:
  "ctl_disp f c = (x, c') \<Longrightarrow> (\<And>d. left_over (snd (f d)) \<le> left_over d) \<Longrightarrow>
   left_over (ct_dispenser c') \<le> left_over (ct_dispenser c)"
  by (auto simp: ctl_disp_def split: prod.splits) (metis snd_conv)

lemma left_over_next_block_le:
  assumes "val (snd (next_block d)) \<noteq> [] \<or> \<not> fst (next_block d)"
  shows "left_over (snd (next_block d)) \<le> left_over d"
  using assms left_over_next_block [of d] left_over_next_block_False [of d]
  by (cases "next_block d"; cases "fst (next_block d)") auto

lemma acl_block_frame:
  "acl_block api rp ps c = (r, c') \<Longrightarrow>
     (ct_config c' = ct_config c \<and> ct_directive c' = ct_directive c) \<and>
     (is_ok r \<longrightarrow> left_over (ct_dispenser c') \<le> left_over (ct_dispenser c))"
proof (induction api rp ps c arbitrary: r rule: acl_block.induct)
  case (1 api rp ps c)
  obtain b c1 where n: "ctl_disp next_block c = (b, c1)" by (cases "ctl_disp next_block c")
  obtain toks c2 where ra: "ctl_disp remaining_args c1 = (toks, c2)" by (cases "ctl_disp remaining_args c1")
  note f = ctl_disp_frame [OF n] ctl_disp_frame [OF ra]
  have nb: "next_block (ct_dispenser c) = (b, ct_dispenser c1)"
    using n by (auto simp: ctl_disp_def split: prod.splits)
  show ?case
  proof (cases "b \<and> (\<exists>act p. acl_action (ctl_val c1) = Some act \<and> acl_policy api rp (ctl_errf c2) act toks = Inr p)")
    case True
    then obtain act p where ap: "b" "acl_action (ctl_val c1) = Some act" "acl_policy api rp (ctl_errf c2) act toks = Inr p"
      by blast
    with "1.prems" n ra have "acl_block api rp (ps @ [p]) c2 = (r, c')" by (simp add: acl_block.simps [of api rp ps c])
    from "1.IH" [OF n [symmetric] _ ap(2) ra [symmetric] ap(3) this] ap(1)
    have IH: "ct_config c' = ct_config c2 \<and> ct_directive c' = ct_directive c2"
      "is_ok r \<longrightarrow> left_over (ct_dispenser c') \<le> left_over (ct_dispenser c2)" by simp_all
    have "ctl_val c1 \<noteq> []" using ap(2) by (auto simp: acl_action_def)
    with block_line_smaller [OF _ ra, of c] n ap(1) have "left_over (ct_dispenser c2) < left_over (ct_dispenser c)" by simp
    with IH f show ?thesis by auto
  next
    case False
    with "1.prems" n ra f left_over_next_block_False [of "ct_dispenser c" "ct_dispenser c1"] nb show ?thesis
      by (auto simp: acl_block.simps [of api rp ps c] split: bool.splits sum.splits option.splits)
  qed
qed

function acl_rules_loop ::
    "(string \<Rightarrow> dname res) \<Rightarrow> 'net ipnet_api \<Rightarrow> (string \<Rightarrow> rtype res) \<Rightarrow> 'net rule list \<Rightarrow> 's controller
     \<Rightarrow> 'net rule list res \<times> 's controller" where
  "acl_rules_loop from_ascii api rp rules c =
     (case ctl_disp next_tok c of
        (False, c1) \<Rightarrow> (Inr rules, c1)
      | (True, c1) \<Rightarrow>
          (case ctl_disp remaining_args_until_brace c1 of (as, c2) \<Rightarrow>
             (case controller_origins from_ascii api c2 as of
                Inl e \<Rightarrow> (Inl e, c2)
              | Inr zones \<Rightarrow>
                  (case acl_block api rp [] c2 of
                     (Inl e, c3) \<Rightarrow> (Inl e, c3)
                   | (Inr policies, c3) \<Rightarrow>
                       acl_rules_loop from_ascii api rp (rules @ [\<lparr>ru_zones = zones, ru_policies = policies\<rparr>]) c3))))"
  by pat_completeness auto
termination
proof (relation "measure (\<lambda>(f, a, r, p, c). left_over (ct_dispenser c))", goal_cases)
  case (2 from_ascii api rp rules c b c1 as c2 zones r c3 policies)
  have "left_over (ct_dispenser c1) < left_over (ct_dispenser c)"
    using 2(1,2) left_over_next_tok [of "ct_dispenser c" "ct_dispenser c1"]
    by (auto simp: ctl_disp_def split: prod.splits)
  moreover have "left_over (ct_dispenser c2) \<le> left_over (ct_dispenser c1)"
    using 2(3,4) left_over_disp [of remaining_args_until_brace c1 as c2] left_over_until_brace by auto
  moreover have "left_over (ct_dispenser c3) \<le> left_over (ct_dispenser c2)"
    using 2 acl_block_frame [of api rp "[]" c2 r c3] by auto
  ultimately show ?case by simp
qed simp

declare acl_rules_loop.simps [simp del]

definition acl_setup :: "(string \<Rightarrow> dname res) \<Rightarrow> 'net ipnet_api \<Rightarrow> (string \<Rightarrow> rtype res) \<Rightarrow> 's setup_fn" where
  "acl_setup from_ascii api rp c =
     (case acl_rules_loop from_ascii api rp [] c of
        (Inl e, c1) \<Rightarrow> (Inl e, c1)
      | (Inr rules, c1) \<Rightarrow> (Inr (), add_plugin (''acl'', acl_serve api rules) c1))"

section \<open>What an acl decides\<close>

text \<open>The policies that apply to a name, in the order of the rules.\<close>

definition applicable :: "'net rule list \<Rightarrow> string \<Rightarrow> 'net policy list" where
  "applicable rules name = concat (map ru_policies (filter (\<lambda>r. zones_match (ru_zones r) name \<noteq> None) rules))"

lemma acl_decide_first:
  "acl_decide api rules name req =
     (case find (\<lambda>p. policy_matches api p req) (applicable rules name) of None \<Rightarrow> Allow | Some p \<Rightarrow> po_action p)"
  by (induction rules) (auto simp: applicable_def find_append split: option.splits)

lemma m_id_add_ede [simp]: "m_id (add_ede code m) = m_id m" "m_rcode (add_ede code m) = m_rcode m"
  "m_answers (add_ede code m) = m_answers m"
  by (simp_all add: add_ede_def Let_def)

lemma acl_keeps_id:
  assumes "keeps_id (nx_serve nx)"
  shows "keeps_id (\<lambda>req s. acl_serve api rules req nx s)"
proof -
  have named: "keeps_id (\<lambda>req s. nx_serve nx (snd (req_name req)) s)" by (rule keeps_id_same [OF assms]) simp
  show ?thesis
    using named by (auto simp: keeps_id_def acl_serve_def case_prod_beta split: action.splits)
qed

interpretation acl_handler: id_keeping_handler "acl_serve api rules"
  by unfold_locales (rule acl_keeps_id)

lemma acl_rules_loop_frame:
  "acl_rules_loop from_ascii api rp rules c = (r, c') \<Longrightarrow> ct_config c' = ct_config c \<and> ct_directive c' = ct_directive c"
proof (induction from_ascii api rp rules c arbitrary: r rule: acl_rules_loop.induct)
  case (1 from_ascii api rp rules c)
  obtain b c1 where n: "ctl_disp next_tok c = (b, c1)" by (cases "ctl_disp next_tok c")
  obtain as c2 where ra: "ctl_disp remaining_args_until_brace c1 = (as, c2)"
    by (cases "ctl_disp remaining_args_until_brace c1")
  obtain r3 c3 where bl: "acl_block api rp [] c2 = (r3, c3)" by (cases "acl_block api rp [] c2")
  note f = ctl_disp_frame [OF n] ctl_disp_frame [OF ra] acl_block_frame [OF bl]
  show ?case
  proof (cases "b \<and> is_ok (controller_origins from_ascii api c2 as) \<and> is_ok r3")
    case True
    then obtain zones ps where z: "b" "controller_origins from_ascii api c2 as = Inr zones" "r3 = Inr ps"
      by (cases "controller_origins from_ascii api c2 as"; cases r3) auto
    with "1.prems" n ra bl
    have "acl_rules_loop from_ascii api rp (rules @ [\<lparr>ru_zones = zones, ru_policies = ps\<rparr>]) c3 = (r, c')"
      by (simp add: acl_rules_loop.simps [of from_ascii api rp rules c])
    from "1.IH" [OF n [symmetric] _ ra [symmetric] z(2) bl [symmetric] z(3) this] z(1) f show ?thesis by simp
  next
    case False
    with "1.prems" n ra bl f show ?thesis
      by (auto simp: acl_rules_loop.simps [of from_ascii api rp rules c] split: bool.splits sum.splits)
  qed
qed

interpretation acl_setup: setup_function "acl_setup from_ascii api rp"
  by (rule setup_functionI)
    (auto simp: acl_setup_def split: prod.splits sum.splits dest!: acl_rules_loop_frame
      intro: appends_trans [OF appends_refl appends_add_plugin])

section \<open>Properties\<close>

text \<open>C14: The access list is first match: over the policies of the rules whose zones hold the name, in order,
  the first one that matches the request's type and address decides, and with none the query is allowed. Only
  an allowed query reaches the next plugin; block answers REFUSED, filter an empty answer, drop nothing.\<close>

theorem acl_serve_first_match:
  assumes "req_name req = (name, req1)"
  shows "acl_serve api rules req nx s =
    (case find (\<lambda>p. policy_matches api p req1) (applicable rules name) of
       None \<Rightarrow> nx_serve nx req1 s
     | Some p \<Rightarrow> (case po_action p of
           Allow \<Rightarrow> nx_serve nx req1 s
         | Block \<Rightarrow> (Replied (RMsg (add_ede EDE_BLOCKED ((new_reply req1)\<lparr>m_rcode := Refused\<rparr>))), req1, s)
         | Filter \<Rightarrow> (Replied (RMsg (add_ede EDE_FILTERED (new_reply req1))), req1, s)
         | Drop \<Rightarrow> (Replied RDrop, req1, s)))"
  using assms by (simp add: acl_serve_def acl_decide_first split: option.splits)

text \<open>Networks with a single member that holds every address, the input of the example.\<close>

definition world_net :: "unit ipnet_api" where
  "world_net = \<lparr>net_parse = (\<lambda>_. Inr ()), net_v4 = (\<lambda>_. True), net_prefix_len = (\<lambda>_. 0),
     net_subnets = (\<lambda>_ _. None), net_octets = (\<lambda>_. [0, 0, 0, 0]), net_contains = (\<lambda>_ _. True), net_of_ip = (\<lambda>_. ())\<rparr>"

theorem acl_serve_first_match_witness:
  "fst (acl_serve world_net [\<lparr>ru_zones = [''.''], ru_policies = [\<lparr>po_action = Drop, po_qtypes = [], po_nets = [()]\<rparr>]\<rparr>]
      (query_for ''a.'' RT_A) (next_of []) ()) = Replied RDrop"
  using acl_serve_first_match [of "query_for ''a.'' RT_A" "''a.''" "snd (req_name (query_for ''a.'' RT_A))" world_net
     "[\<lparr>ru_zones = [''.''], ru_policies = [\<lparr>po_action = Drop, po_qtypes = [], po_nets = [()]\<rparr>]\<rparr>]" "next_of []" "()"]
  by (simp add: applicable_def zones_match_def policy_matches_def world_net_def req_name_def query_for_def request_new_def
      name_uncached_def message_new_def Let_def to_ascii_lowercase_def ascii_lower_def is_ascii_upper_def ends_with_def)

end
