(* ===== verification/Cache.thy ===== *)
theory Cache
  imports Acl
begin

text \<open>
  The \<open>cache\<close> plugin, \<open>src/plugins/cache.rs\<close>: classification of responses, the two sharded
  stores, insertion, lookup with ageing, serve-stale and prefetch, the background refresh, the
  handler and the setup.

  Time is in nanoseconds, as the \<open>Duration\<close> and \<open>Instant\<close> of the code; \<open>as_secs\<close> divides.
  Parameters: the \<open>lru\<close> crate (\<open>lru_api\<close>, with the laws of the locale \<open>lru_cache\<close>), the hash of
  a cache key (the standard library's hasher is unspecified), and the comparison of 64-bit floats
  that decides a prefetch. A call of \<open>clamp\<close> whose bounds are the wrong way round panics.
  A spawned refresh is a pending task of the state; running it is a step of its own, so that the
  order of refreshes and queries is free.

  Shown here: what was inserted is found again, aged by the time spent in the cache and never
  more; an entry past its time is gone; a key has at most one refresh in flight; insertion panics
  exactly when a minimum exceeds its maximum; and where the stores shadow each other.
\<close>

section \<open>Classification\<close>

datatype resp_type = R_Success | R_NoError | R_NameError | R_Delegation | R_OtherError | R_Meta

definition typify :: "message \<Rightarrow> resp_type" where
  "typify m =
     (if m_opcode m \<noteq> OpQuery then R_Meta
      else (case m_rcode m of
          NoError \<Rightarrow>
            if m_answers m \<noteq> [] then R_Success
            else (let has_soa = list_ex (\<lambda>r. rr_type r = RT_SOA) (m_name_servers m);
                      has_ns = list_ex (\<lambda>r. rr_type r = RT_NS) (m_name_servers m) in
              if has_soa then R_NoError
              else if has_ns \<and> \<not> m_authoritative m then R_Delegation
              else R_NoError)
        | NXDomain \<Rightarrow> R_NameError
        | _ \<Rightarrow> R_OtherError))"

section \<open>Items\<close>

type_synonym u64 = "64 word"

record item =
  it_msg :: message
  it_stored :: nat
  it_ttl :: u32
  it_fetches :: u32
  it_window_start :: nat

definition remaining :: "item \<Rightarrow> nat \<Rightarrow> int" where
  "remaining it now = int (unat (it_ttl it)) - int (as_secs (now - it_stored it))"

text \<open>\<open>for_each(adjust)\<close> on the three sections, OPT records left alone.\<close>

definition map_ttls :: "(u32 \<Rightarrow> u32) \<Rightarrow> message \<Rightarrow> message" where
  "map_ttls f m =
     (let adj = map (\<lambda>r. if rr_type r \<noteq> RT_OPT then r\<lparr>rr_ttl := f (rr_ttl r)\<rparr> else r) in
      m\<lparr>m_answers := adj (m_answers m), m_name_servers := adj (m_name_servers m),
        m_additionals := adj (m_additionals m)\<rparr>)"

definition saturating_sub :: "u32 \<Rightarrow> u32 \<Rightarrow> u32" where
  "saturating_sub a b = (if b \<le> a then a - b else 0)"

definition to_msg :: "item \<Rightarrow> request \<Rightarrow> nat \<Rightarrow> bool \<Rightarrow> message" where
  "to_msg it req now keepttl =
     (let m0 = (it_msg it)\<lparr>m_id := m_id (rq_msg req),
                 m_recursion_desired := m_recursion_desired (rq_msg req),
                 m_checking_disabled := m_checking_disabled (rq_msg req)\<rparr>;
          m1 = (if \<not> keepttl
                then map_ttls (\<lambda>t. saturating_sub t (of_nat (as_secs (now - it_stored it)))) m0 else m0)
      in if m_edns (rq_msg req) \<noteq> None then set_edns0 req m1 else m1\<lparr>m_edns := None\<rparr>)"

section \<open>The stores\<close>

text \<open>The operations of \<open>lru::LruCache<u64, Item>\<close> the plugin calls; \<open>lru_write\<close> is the
  assignment through the reference \<open>get_mut\<close> hands out.\<close>

record 'c lru_api =
  lru_new :: "nat \<Rightarrow> 'c"
  lru_get_mut :: "u64 \<Rightarrow> 'c \<Rightarrow> item option \<times> 'c"
  lru_write :: "u64 \<Rightarrow> item \<Rightarrow> 'c \<Rightarrow> 'c"
  lru_pop :: "u64 \<Rightarrow> 'c \<Rightarrow> 'c"
  lru_put :: "u64 \<Rightarrow> item \<Rightarrow> 'c \<Rightarrow> 'c"
  lru_peek :: "'c \<Rightarrow> u64 \<Rightarrow> item option"
  lru_len :: "'c \<Rightarrow> nat"

definition SHARDS :: nat where "SHARDS = 256"

definition store_new :: "'c lru_api \<Rightarrow> nat \<Rightarrow> 'c list" where
  "store_new lru cap = (let per = max (cap div SHARDS) 1 in replicate SHARDS (lru_new lru per))"

definition shard_index :: "u64 \<Rightarrow> nat" where
  "shard_index k = unat k mod SHARDS"

definition store_len :: "'c lru_api \<Rightarrow> 'c list \<Rightarrow> nat" where
  "store_len lru st = sum_list (map (lru_len lru) st)"

text \<open>What a store holds for a key, without touching the order.\<close>

definition store_peek :: "'c lru_api \<Rightarrow> 'c list \<Rightarrow> u64 \<Rightarrow> item option" where
  "store_peek lru st k = lru_peek lru (st ! shard_index k) k"

datatype refresh_mode = Immediate | Verify

record cache_config =
  cc_zones :: "string list"
  cc_pcap :: nat
  cc_pttl :: nat
  cc_minpttl :: nat
  cc_ncap :: nat
  cc_nttl :: nat
  cc_minnttl :: nat
  cc_prefetch :: u32
  cc_duration :: nat
  cc_percentage :: u32
  cc_stale_upto :: nat
  cc_refresh_mode :: refresh_mode
  cc_failttl :: nat
  cc_keepttl :: bool
  cc_disable_success :: "string list option"
  cc_disable_denial :: "string list option"

text \<open>A refresh that was spawned and has not run yet: its request, its key.\<close>

type_synonym refresh_task = "request \<times> u64"

record 'c cache_state =
  ca_pcache :: "'c list"
  ca_ncache :: "'c list"
  ca_inflight :: "u64 set"
  ca_tasks :: "refresh_task list"

text \<open>
  What the environment gives: the \<open>lru\<close> crate, the hash of a key, the comparison
  \<open>remaining as f64 <= ttl as f64 * (percentage as f64 / 100.0)\<close>, the clock and random ids as
  functions of the state of the rest of the system.
\<close>

record ('c, 't) cache_env =
  ce_lru :: "'c lru_api"
  ce_hash :: "string \<times> rtype \<times> bool \<times> bool \<Rightarrow> u64"
  ce_due :: "int \<Rightarrow> u32 \<Rightarrow> u32 \<Rightarrow> bool"
  ce_now :: "'t \<Rightarrow> nat"
  ce_rand :: "'t \<Rightarrow> u16"

definition cache_key :: "('c, 't) cache_env \<Rightarrow> string \<Rightarrow> rtype \<Rightarrow> bool \<Rightarrow> bool \<Rightarrow> u64" where
  "cache_key env name qt do' cd = ce_hash env (to_ascii_lowercase name, qt, do', cd)"

definition cacheable :: "request \<Rightarrow> bool" where
  "cacheable req \<longleftrightarrow> m_opcode (rq_msg req) = OpQuery \<and> length (m_queries (rq_msg req)) = 1 \<and> qtype req \<noteq> RT_ZERO"

text \<open>\<open>insert\<close>: which store and which time to live, \<open>None\<close> when the response is not cached.\<close>

definition disabled :: "string list option \<Rightarrow> string \<Rightarrow> bool" where
  "disabled z name \<longleftrightarrow> (case z of Some zs \<Rightarrow> zones_match zs name \<noteq> None | None \<Rightarrow> False)"

datatype which_store = Pcache | Ncache

definition insert_plan :: "cache_config \<Rightarrow> message \<Rightarrow> string \<Rightarrow> (which_store \<times> nat) option res" where
  "insert_plan cc m name =
     (case typify m of
        R_Meta \<Rightarrow> Inr None
      | R_OtherError \<Rightarrow> Inr (if cc_failttl cc = 0 then None else Some (Ncache, cc_failttl cc))
      | t \<Rightarrow>
          if t = R_Success \<or> t = R_Delegation then
            (if disabled (cc_disable_success cc) name then Inr None
             else (let ttl = (if m_answers m = [] \<and> m_name_servers m = [] then cc_minpttl cc
                              else minimal_ttl m False * SECOND) in
               rbind (clamp ttl (cc_minpttl cc) (cc_pttl cc)) (\<lambda>d. Inr (Some (Pcache, d)))))
          else
            (if disabled (cc_disable_denial cc) name then Inr None
             else (let ttl = (if m_name_servers m = [] \<and> m_answers m = [] then cc_minnttl cc
                              else minimal_ttl m True * SECOND) in
               rbind (clamp ttl (cc_minnttl cc) (cc_nttl cc)) (\<lambda>d. Inr (Some (Ncache, d))))))"

definition echoes_question :: "message \<Rightarrow> string \<Rightarrow> bool" where
  "echoes_question m name =
     (case first (m_queries m) of
        Some q \<Rightarrow> to_ascii_lowercase (q_name q) = to_ascii_lowercase name | None \<Rightarrow> False)"

definition item_new :: "message \<Rightarrow> nat \<Rightarrow> nat \<Rightarrow> item" where
  "item_new m now ttl = \<lparr>it_msg = m\<lparr>m_edns := None\<rparr>, it_stored = now, it_ttl = of_nat (as_secs ttl),
                         it_fetches = 0, it_window_start = now\<rparr>"

definition store_put :: "'c lru_api \<Rightarrow> u64 \<Rightarrow> item \<Rightarrow> 'c list \<Rightarrow> 'c list" where
  "store_put lru k it st = (let i = shard_index k in st[i := lru_put lru k it (st ! i)])"

definition cache_insert ::
    "('c, 't) cache_env \<Rightarrow> cache_config \<Rightarrow> nat \<Rightarrow> request \<Rightarrow> message \<Rightarrow> string \<Rightarrow> 'c cache_state
     \<Rightarrow> nat option res \<times> 'c cache_state" where
  "cache_insert env cc now req m name cs =
     (if m_truncated m then (Inr None, cs)
      else if \<not> echoes_question m name then (Inr None, cs)
      else (let k = cache_key env name (qtype req) (do_bit req) (m_checking_disabled (rq_msg req)) in
        case insert_plan cc m name of
          Inl e \<Rightarrow> (Inl e, cs)
        | Inr None \<Rightarrow> (Inr None, cs)
        | Inr (Some (Pcache, ttl)) \<Rightarrow>
            (Inr (Some ttl), cs\<lparr>ca_pcache := store_put (ce_lru env) k (item_new m now ttl) (ca_pcache cs)\<rparr>)
        | Inr (Some (Ncache, ttl)) \<Rightarrow>
            (Inr (Some ttl), cs\<lparr>ca_ncache := store_put (ce_lru env) k (item_new m now ttl) (ca_ncache cs)\<rparr>)))"

text \<open>The look at one store: the answer, the fact that the entry was too old, or nothing.\<close>

datatype probe = Hit message bool bool | Expired | Absent

definition touch :: "cache_config \<Rightarrow> nat \<Rightarrow> item \<Rightarrow> item" where
  "touch cc now it =
     (let it1 = (if now - it_window_start it > cc_duration cc
                 then it\<lparr>it_window_start := now, it_fetches := 0\<rparr> else it)
      in it1\<lparr>it_fetches := it_fetches it1 + 1\<rparr>)"

definition probe_store ::
    "('c, 't) cache_env \<Rightarrow> cache_config \<Rightarrow> nat \<Rightarrow> u64 \<Rightarrow> request \<Rightarrow> 'c list \<Rightarrow> probe \<times> 'c list" where
  "probe_store env cc now k req st =
     (let lru = ce_lru env; i = shard_index k in
      case lru_get_mut lru k (st ! i) of
        (None, sh) \<Rightarrow> (Absent, st[i := sh])
      | (Some it, sh) \<Rightarrow>
          (let rem = remaining it now; stale = (rem \<le> 0) in
           if stale \<and> int (as_secs (now - it_stored it)) > int (unat (it_ttl it)) + int (as_secs (cc_stale_upto cc))
           then (Expired, st[i := lru_pop lru k sh])
           else (let it1 = touch cc now it;
                     want = (cc_prefetch cc > 0 \<and> it_fetches it1 \<ge> cc_prefetch cc \<and> \<not> stale
                             \<and> ce_due env rem (it_ttl it1) (cc_percentage cc));
                     m = to_msg it1 req now (cc_keepttl cc);
                     m' = (if stale then map_ttls (\<lambda>_. 0) m else m) in
             (Hit m' want stale, st[i := lru_write lru k it1 sh]))))"

definition cache_get ::
    "('c, 't) cache_env \<Rightarrow> cache_config \<Rightarrow> nat \<Rightarrow> u64 \<Rightarrow> request \<Rightarrow> 'c cache_state
     \<Rightarrow> (message \<times> bool \<times> bool) option \<times> 'c cache_state" where
  "cache_get env cc now k req cs =
     (case probe_store env cc now k req (ca_pcache cs) of
        (Hit m want stale, st) \<Rightarrow> (Some (m, want, stale), cs\<lparr>ca_pcache := st\<rparr>)
      | (Expired, st) \<Rightarrow> (None, cs\<lparr>ca_pcache := st\<rparr>)
      | (Absent, st) \<Rightarrow>
          (case probe_store env cc now k req (ca_ncache cs) of
             (Hit m want stale, st') \<Rightarrow> (Some (m, want, stale), cs\<lparr>ca_pcache := st, ca_ncache := st'\<rparr>)
           | (_, st') \<Rightarrow> (None, cs\<lparr>ca_pcache := st, ca_ncache := st'\<rparr>)))"

section \<open>Refreshing and serving\<close>

text \<open>\<open>edns_mut\<close> creates the EDNS section when there is none.\<close>

definition set_do :: "message \<Rightarrow> message" where
  "set_do m = m\<lparr>m_edns := Some ((case m_edns m of Some e \<Rightarrow> e | None \<Rightarrow> edns_new)\<lparr>ed_dnssec_ok := True\<rparr>)\<rparr>"

definition refresh_request :: "nat \<Rightarrow> u16 \<Rightarrow> request \<Rightarrow> request" where
  "refresh_request now rid req =
     (let r2 = new_with_question now rid req (qname req) (qtype req);
          m1 = (rq_msg r2)\<lparr>m_checking_disabled := m_checking_disabled (rq_msg req),
                  m_recursion_desired := m_recursion_desired (rq_msg req)\<rparr>
      in r2\<lparr>rq_msg := (if do_bit req then set_do m1 else m1)\<rparr>)"

definition refresh_in_background ::
    "nat \<Rightarrow> u16 \<Rightarrow> request \<Rightarrow> u64 \<Rightarrow> 'c cache_state \<Rightarrow> 'c cache_state" where
  "refresh_in_background now rid req k cs =
     (if k \<in> ca_inflight cs then cs
      else cs\<lparr>ca_inflight := insert k (ca_inflight cs), ca_tasks := ca_tasks cs @ [(refresh_request now rid req, k)]\<rparr>)"

type_synonym ('c, 't) cached = "'c cache_state \<times> 't"

text \<open>A spawned refresh: a panic in it skips \<open>inflight.remove\<close>.\<close>

definition run_refresh ::
    "('c, 't) cache_env \<Rightarrow> cache_config \<Rightarrow> ('c, 't) cached next_plugin \<Rightarrow> refresh_task \<Rightarrow> ('c, 't) cached \<Rightarrow> ('c, 't) cached" where
  "run_refresh env cc nx task st =
     (case task of (r2, k) \<Rightarrow>
        (case req_name r2 of (name, r3) \<Rightarrow>
           (case nx_serve nx r3 st of
              (Panicked e, r4, st') \<Rightarrow> st'
            | (Replied (RMsg m), r4, (cs, t)) \<Rightarrow>
                (case cache_insert env cc (ce_now env t) r4 m name cs of
                   (Inl e, cs') \<Rightarrow> (cs', t)
                 | (Inr _, cs') \<Rightarrow> (cs'\<lparr>ca_inflight := ca_inflight cs' - {k}\<rparr>, t))
            | (_, r4, (cs, t)) \<Rightarrow> (cs\<lparr>ca_inflight := ca_inflight cs - {k}\<rparr>, t))))"

definition store_fresh ::
    "('c, 't) cache_env \<Rightarrow> cache_config \<Rightarrow> string \<Rightarrow> request \<Rightarrow> message \<Rightarrow> ('c, 't) cached \<Rightarrow> ('c, 't) cached served" where
  "store_fresh env cc name req m st =
     (case st of (cs, t) \<Rightarrow>
        (case cache_insert env cc (ce_now env t) req m name cs of
           (Inl e, cs') \<Rightarrow> (Panicked e, req, (cs', t))
         | (Inr _, cs') \<Rightarrow> (Replied (RMsg m), req, (cs', t))))"

definition cache_serve :: "('c, 't) cache_env \<Rightarrow> cache_config \<Rightarrow> ('c, 't) cached handler" where
  "cache_serve env cc req nx st =
     (case req_name req of (name, req1) \<Rightarrow>
        if zones_match (cc_zones cc) name = None \<or> \<not> cacheable req1 then nx_serve nx req1 st
        else (case st of (cs, t) \<Rightarrow>
          (let k = cache_key env name (qtype req1) (do_bit req1) (m_checking_disabled (rq_msg req1));
               now = ce_now env t in
           case cache_get env cc now k req1 cs of
             (Some (m, want_prefetch, stale), cs1) \<Rightarrow>
               if stale then
                 (case cc_refresh_mode cc of
                    Verify \<Rightarrow>
                      (case nx_serve nx req1 (cs1, t) of
                         (Replied (RMsg fresh), req2, st2) \<Rightarrow>
                           if m_rcode fresh \<noteq> ServFail then store_fresh env cc name req2 fresh st2
                           else (Replied (RMsg m), req2, st2)
                       | (Panicked e, req2, st2) \<Rightarrow> (Panicked e, req2, st2)
                       | (_, req2, st2) \<Rightarrow> (Replied (RMsg m), req2, st2))
                  | Immediate \<Rightarrow>
                      (Replied (RMsg m), req1, (refresh_in_background now (ce_rand env t) req1 k cs1, t)))
               else (Replied (RMsg m), req1,
                     (if want_prefetch then refresh_in_background now (ce_rand env t) req1 k cs1 else cs1, t))
           | (None, cs1) \<Rightarrow>
               (case nx_serve nx req1 (cs1, t) of
                  (Replied (RMsg m), req2, st2) \<Rightarrow> store_fresh env cc name req2 m st2
                | (out, req2, st2) \<Rightarrow> (out, req2, st2)))))"

section \<open>Setup\<close>

definition cache_config_default :: "string list \<Rightarrow> nat \<Rightarrow> nat \<Rightarrow> cache_config" where
  "cache_config_default zones pttl nttl =
     \<lparr>cc_zones = zones, cc_pcap = 9984, cc_pttl = pttl, cc_minpttl = 5 * SECOND, cc_ncap = 9984,
      cc_nttl = nttl, cc_minnttl = 5 * SECOND, cc_prefetch = 0, cc_duration = 60 * SECOND,
      cc_percentage = 10, cc_stale_upto = 0, cc_refresh_mode = Immediate, cc_failttl = 5 * SECOND,
      cc_keepttl = False, cc_disable_success = None, cc_disable_denial = None\<rparr>"

definition opt_secs :: "err \<Rightarrow> string option \<Rightarrow> nat option res" where
  "opt_secs e arg =
     (case arg of None \<Rightarrow> Inr None
      | Some t \<Rightarrow> (case parse_u64 t of None \<Rightarrow> Inl e | Some n \<Rightarrow> Inr (Some (n * SECOND))))"

definition arg_at :: "string list \<Rightarrow> nat \<Rightarrow> string option" where
  "arg_at a i = (if i < length a then Some (a ! i) else None)"

definition capacity_line :: "(string \<Rightarrow> err) \<Rightarrow> err \<Rightarrow> bool \<Rightarrow> string list \<Rightarrow> cache_config \<Rightarrow> cache_config res" where
  "capacity_line ef ae success a cc =
     (if a = [] \<or> length a > 3 then Inl ae
      else rbind (ok_or (ef (''bad capacity '' @ hd a)) (parse_unsigned USIZE_MAX (hd a))) (\<lambda>cap.
      rbind (opt_secs (ef (''bad ttl '' @ unwrap_or [] (arg_at a 1))) (arg_at a 1)) (\<lambda>ttl.
      rbind (opt_secs (ef (''bad min ttl '' @ unwrap_or [] (arg_at a 2))) (arg_at a 2)) (\<lambda>mn.
      Inr (if success
           then cc\<lparr>cc_pcap := cap, cc_pttl := unwrap_or (cc_pttl cc) ttl, cc_minpttl := unwrap_or (cc_minpttl cc) mn\<rparr>
           else cc\<lparr>cc_ncap := cap, cc_nttl := unwrap_or (cc_nttl cc) ttl, cc_minnttl := unwrap_or (cc_minnttl cc) mn\<rparr>)))))"

definition prefetch_line ::
    "(string \<Rightarrow> nat res) \<Rightarrow> (string \<Rightarrow> err) \<Rightarrow> err \<Rightarrow> string list \<Rightarrow> cache_config \<Rightarrow> cache_config res" where
  "prefetch_line parse_dur ef ae a cc =
     (if a = [] \<or> length a > 3 then Inl ae
      else rbind (ok_or (ef (''bad prefetch amount '' @ hd a)) (parse_u32 (hd a))) (\<lambda>n.
      rbind (case arg_at a 1 of None \<Rightarrow> Inr (cc_duration cc) | Some d \<Rightarrow> parse_dur d) (\<lambda>dur.
      rbind (case arg_at a 2 of
          None \<Rightarrow> Inr (cc_percentage cc)
        | Some p0 \<Rightarrow>
            (let p = trim_end_matches (CHR ''%'') p0 in
             rbind (ok_or (ef (''bad percentage '' @ p)) (parse_u32 p)) (\<lambda>v.
             if v > 90 \<or> v < 10 then Inl (ef ''prefetch percentage should fall in range [10, 90]'')
             else Inr (of_nat v)))) (\<lambda>pct.
      Inr (cc\<lparr>cc_prefetch := of_nat n, cc_duration := dur, cc_percentage := pct\<rparr>)))))"

definition serve_stale_line ::
    "(string \<Rightarrow> nat res) \<Rightarrow> (string \<Rightarrow> err) \<Rightarrow> err \<Rightarrow> string list \<Rightarrow> cache_config \<Rightarrow> cache_config res" where
  "serve_stale_line parse_dur ef ae a cc =
     (if length a > 2 then Inl ae
      else rbind (case arg_at a 0 of None \<Rightarrow> Inr (3600 * SECOND) | Some d \<Rightarrow> parse_dur d) (\<lambda>upto.
      rbind (case arg_at a 1 of
          None \<Rightarrow> Inr (cc_refresh_mode cc)
        | Some m \<Rightarrow> if m = ''immediate'' then Inr Immediate else if m = ''verify'' then Inr Verify
                    else Inl (ef (''invalid refresh mode '' @ m))) (\<lambda>mode.
      Inr (cc\<lparr>cc_stale_upto := upto, cc_refresh_mode := mode\<rparr>))))"

definition servfail_line ::
    "(string \<Rightarrow> nat res) \<Rightarrow> (string \<Rightarrow> err) \<Rightarrow> err \<Rightarrow> string list \<Rightarrow> cache_config \<Rightarrow> cache_config res" where
  "servfail_line parse_dur ef ae a cc =
     (if length a \<noteq> 1 then Inl ae
      else rbind (parse_dur (hd a)) (\<lambda>d.
      if d > 300 * SECOND then Inl (ef ''servfail TTL can not exceed 5 minutes'') else Inr (cc\<lparr>cc_failttl := d\<rparr>)))"

definition disable_line ::
    "(string list \<Rightarrow> string list res) \<Rightarrow> (string \<Rightarrow> err) \<Rightarrow> err \<Rightarrow> string list \<Rightarrow> cache_config \<Rightarrow> cache_config res" where
  "disable_line norm ef ae a cc =
     (if a = [] then Inl ae
      else rbind (if length a > 1 then norm (tl a) else Inr [''.'']) (\<lambda>zones.
      if hd a = ''success'' then Inr (cc\<lparr>cc_disable_success := Some zones\<rparr>)
      else if hd a = ''denial'' then Inr (cc\<lparr>cc_disable_denial := Some zones\<rparr>)
      else Inl (ef (''cache type for disable needs to be '' @ [CHR 0x22] @ ''success'' @ [CHR 0x22] @ '' or ''
              @ [CHR 0x22] @ ''denial'' @ [CHR 0x22] @ '', got '' @ hd a))))"

text \<open>One property of the block; \<open>keepttl\<close> does not look at the rest of its line.\<close>

definition cache_property ::
    "(string \<Rightarrow> nat res) \<Rightarrow> (string list \<Rightarrow> string list res) \<Rightarrow> cache_config \<Rightarrow> 's controller
     \<Rightarrow> cache_config res \<times> 's controller" where
  "cache_property parse_dur norm cc c =
     (let v = ctl_val c; (a, c1) = ctl_disp remaining_args c; ef = ctl_errf c1; ae = ctl_arg_err c1 in
      if v = ''success'' \<or> v = ''denial'' then (capacity_line ef ae (v = ''success'') a cc, c1)
      else if v = ''prefetch'' then (prefetch_line parse_dur ef ae a cc, c1)
      else if v = ''serve_stale'' then (serve_stale_line parse_dur ef ae a cc, c1)
      else if v = ''servfail'' then (servfail_line parse_dur ef ae a cc, c1)
      else if v = ''disable'' then (disable_line norm ef ae a cc, c1)
      else if v = ''keepttl'' then (Inr (cc\<lparr>cc_keepttl := True\<rparr>), c)
      else (Inl (ctl_errf c (''unknown property '' @ quote v)), c))"

lemma cache_property_frame:
  assumes "cache_property pd norm cc c = (r, c')"
  shows "ct_config c' = ct_config c \<and> ct_directive c' = ct_directive c"
    "left_over (ct_dispenser c') \<le> left_over (ct_dispenser c)"
    "ctl_val c = [] \<Longrightarrow> \<not> is_ok r"
proof -
  obtain a c1 where d: "ctl_disp remaining_args c = (a, c1)" by (cases "ctl_disp remaining_args c")
  from assms d have c': "c' = c \<or> c' = c1"
    by (auto simp: cache_property_def Let_def split: if_splits)
  show "ct_config c' = ct_config c \<and> ct_directive c' = ct_directive c"
    using c' ctl_disp_frame [OF d] by auto
  show "left_over (ct_dispenser c') \<le> left_over (ct_dispenser c)"
    using c' left_over_disp [OF d left_over_remaining_args] by auto
  show "\<not> is_ok r" if "ctl_val c = []"
    using assms d that by (auto simp: cache_property_def Let_def)
qed

function cache_block ::
    "(string \<Rightarrow> nat res) \<Rightarrow> (string list \<Rightarrow> string list res) \<Rightarrow> cache_config \<Rightarrow> 's controller
     \<Rightarrow> cache_config res \<times> 's controller" where
  "cache_block parse_dur norm cc c =
     (case ctl_disp next_block c of
        (False, c1) \<Rightarrow> (Inr cc, c1)
      | (True, c1) \<Rightarrow>
          (case cache_property parse_dur norm cc c1 of
             (Inl e, c2) \<Rightarrow> (Inl e, c2)
           | (Inr cc', c2) \<Rightarrow> cache_block parse_dur norm cc' c2))"
  by pat_completeness auto
termination
proof (relation "measure (\<lambda>(p, n, cc, c). left_over (ct_dispenser c))", goal_cases)
  case (2 pd norm cc c b c1 r c2 cc')
  then have "cache_property pd norm cc c1 = (r, c2)" "is_ok r" by auto
  note f = cache_property_frame [OF this(1)] and ok = this(2)
  have "left_over (ct_dispenser c1) < left_over (ct_dispenser c)"
    using 2(1,2) f(3) ok left_over_next_block [of "ct_dispenser c" "ct_dispenser c1"]
    by (auto simp: ctl_disp_def ctl_val_def split: prod.splits)
  with f(2) show ?case by simp
qed simp

declare cache_block.simps [simp del]

definition cache_body ::
    "(string \<Rightarrow> dname res) \<Rightarrow> 'net ipnet_api \<Rightarrow> (string \<Rightarrow> nat res) \<Rightarrow> ('c, 't) cache_env
     \<Rightarrow> ('c, 't) cached setup_fn" where
  "cache_body from_ascii api parse_dur env c =
     (case ctl_disp remaining_args_until_brace c of (as0, c1) \<Rightarrow>
        (let secs = (case as0 of [] \<Rightarrow> None | a # _ \<Rightarrow> parse_u64 a) in
         if secs = Some 0 then (Inl (ctl_errf c1 ''cache TTL can not be zero or negative''), c1)
         else (let pttl = (case secs of Some n \<Rightarrow> n * SECOND | None \<Rightarrow> 3600 * SECOND);
                   nttl = (case secs of Some n \<Rightarrow> n * SECOND | None \<Rightarrow> 1800 * SECOND);
                   as = (if secs = None then as0 else tl as0) in
           case controller_origins from_ascii api c1 as of
             Inl e \<Rightarrow> (Inl e, c1)
           | Inr zones \<Rightarrow>
               (case cache_block parse_dur (normalize_zones from_ascii api) (cache_config_default zones pttl nttl) c1 of
                  (Inl e, c2) \<Rightarrow> (Inl e, c2)
                | (Inr cc, c2) \<Rightarrow> (Inr (), add_plugin (''cache'', cache_serve env cc) c2)))))"

definition cache_setup ::
    "(string \<Rightarrow> dname res) \<Rightarrow> 'net ipnet_api \<Rightarrow> (string \<Rightarrow> nat res) \<Rightarrow> ('c, 't) cache_env
     \<Rightarrow> ('c, 't) cached setup_fn" where
  "cache_setup from_ascii api parse_dur env = single_setup ''cache'' (cache_body from_ascii api parse_dur env)"

text \<open>The stores \<open>setup\<close> makes for a configuration.\<close>

definition cache_state_new :: "'c lru_api \<Rightarrow> cache_config \<Rightarrow> 'c cache_state" where
  "cache_state_new lru cc =
     \<lparr>ca_pcache = store_new lru (cc_pcap cc), ca_ncache = store_new lru (cc_ncap cc),
      ca_inflight = {}, ca_tasks = []\<rparr>"

section \<open>The laws of the least-recently-used map\<close>

text \<open>
  What the plugin relies on of \<open>lru\<close>: \<open>get_mut\<close> finds what \<open>peek\<close> shows and only touches the
  order; a write or \<open>pop\<close> changes its key alone; \<open>put\<close> stores its key and may evict others.
\<close>

locale lru_cache =
  fixes lru :: "'c lru_api"
  assumes peek_new: "lru_peek lru (lru_new lru n) k = None"
    and get_mut: "lru_get_mut lru k c = (x, c') \<Longrightarrow> x = lru_peek lru c k \<and> lru_peek lru c' = lru_peek lru c"
    and peek_write: "lru_peek lru c k \<noteq> None \<Longrightarrow> lru_peek lru (lru_write lru k it c) = (lru_peek lru c)(k \<mapsto> it)"
    and peek_pop: "lru_peek lru (lru_pop lru k c) = (lru_peek lru c)(k := None)"
    and peek_put: "lru_peek lru (lru_put lru k it c) k = Some it"
    and peek_put_other: "j \<noteq> k \<Longrightarrow> lru_peek lru (lru_put lru k it c) j \<in> {lru_peek lru c j, None}"
begin

lemma shard_bound: "shard_index k < SHARDS"
  by (simp add: shard_index_def SHARDS_def)

lemma store_peek_new: "store_peek lru (store_new lru cap) k = None"
  using shard_bound [of k] by (simp add: store_peek_def store_new_def Let_def peek_new)

lemma store_put_length [simp]: "length (store_put lru k it st) = length st"
  by (simp add: store_put_def Let_def)

lemma store_peek_put: "length st = SHARDS \<Longrightarrow> store_peek lru (store_put lru k it st) k = Some it"
  using shard_bound [of k] by (simp add: store_peek_def store_put_def Let_def peek_put)

lemma store_peek_put_other:
  "length st = SHARDS \<Longrightarrow> j \<noteq> k \<Longrightarrow> store_peek lru (store_put lru k it st) j \<in> {store_peek lru st j, None}"
  using shard_bound [of k] peek_put_other [of j k it "st ! shard_index k"]
  by (cases "shard_index j = shard_index k") (auto simp: store_peek_def store_put_def Let_def)

lemma probe_absent:
  assumes "ce_lru env = lru" "length st = SHARDS" "store_peek lru st k = None"
  shows "fst (probe_store env cc now k req st) = Absent"
proof -
  obtain x sh where g: "lru_get_mut lru k (st ! shard_index k) = (x, sh)" by (metis prod.exhaust)
  from get_mut [OF this] assms(3) have "x = None" by (simp add: store_peek_def)
  with g assms(1) show ?thesis by (simp add: probe_store_def Let_def)
qed

lemma probe_present:
  assumes "ce_lru env = lru" "length st = SHARDS" "store_peek lru st k = Some it"
  shows "probe_store env cc now k req st =
    (let sh = snd (lru_get_mut lru k (st ! shard_index k)); rem = remaining it now; it1 = touch cc now it in
     if rem \<le> 0 \<and> int (as_secs (now - it_stored it)) > int (unat (it_ttl it)) + int (as_secs (cc_stale_upto cc))
     then (Expired, st[shard_index k := lru_pop lru k sh])
     else (Hit (if rem \<le> 0 then map_ttls (\<lambda>_. 0) (to_msg it1 req now (cc_keepttl cc)) else to_msg it1 req now (cc_keepttl cc))
             (cc_prefetch cc > 0 \<and> it_fetches it1 \<ge> cc_prefetch cc \<and> \<not> rem \<le> 0 \<and> ce_due env rem (it_ttl it1) (cc_percentage cc))
             (rem \<le> 0), st[shard_index k := lru_write lru k it1 sh]))"
proof -
  obtain x sh where g: "lru_get_mut lru k (st ! shard_index k) = (x, sh)" by (metis prod.exhaust)
  from get_mut [OF this] assms(3) have "x = Some it" by (simp add: store_peek_def)
  with g assms(1) show ?thesis by (simp add: probe_store_def Let_def)
qed

lemma store_update_peek:
  assumes "length st = SHARDS"
  shows "store_peek lru (st[shard_index k := sh]) k = lru_peek lru sh k"
  using assms shard_bound [of k] by (simp add: store_peek_def)

lemma probe_store_keeps:
  assumes "ce_lru env = lru" "length st = SHARDS"
  shows "length (snd (probe_store env cc now k req st)) = SHARDS"
  using assms by (simp add: probe_store_def Let_def split: prod.splits option.splits)

lemma probe_expired_gone:
  assumes "ce_lru env = lru" "length st = SHARDS" "fst (probe_store env cc now k req st) = Expired"
  shows "store_peek lru (snd (probe_store env cc now k req st)) k = None"
proof (cases "store_peek lru st k")
  case None
  with probe_absent [OF assms(1,2)] assms(3) show ?thesis by simp
next
  case (Some it)
  from assms(3) show ?thesis
    by (simp add: probe_present [OF assms(1,2) Some] Let_def store_update_peek [OF assms(2)] peek_pop
        split: if_splits)
qed

end

subsection \<open>A reference map\<close>

text \<open>A list of entries, the most recently used first, cut at the capacity.\<close>

type_synonym lru_list = "nat \<times> (u64 \<times> item) list"

definition drop_key :: "u64 \<Rightarrow> (u64 \<times> item) list \<Rightarrow> (u64 \<times> item) list" where
  "drop_key k xs = filter (\<lambda>p. fst p \<noteq> k) xs"

definition lru_list_api :: "lru_list lru_api" where
  "lru_list_api =
     \<lparr>lru_new = (\<lambda>n. (max n 1, [])),
      lru_get_mut = (\<lambda>k (n, xs). case map_of xs k of
          None \<Rightarrow> (None, (n, xs)) | Some it \<Rightarrow> (Some it, (n, (k, it) # drop_key k xs))),
      lru_write = (\<lambda>k it (n, xs). (n, (k, it) # drop_key k xs)),
      lru_pop = (\<lambda>k (n, xs). (n, drop_key k xs)),
      lru_put = (\<lambda>k it (n, xs). (n, take (max n 1) ((k, it) # drop_key k xs))),
      lru_peek = (\<lambda>(n, xs). map_of xs),
      lru_len = (\<lambda>(n, xs). length xs)\<rparr>"

lemma map_of_drop_key: "map_of (drop_key k xs) = (map_of xs)(k := None)"
  by (induction xs) (auto simp: drop_key_def fun_eq_iff)

lemma map_of_take: "map_of (take n xs) j \<in> {map_of xs j, None}"
  by (induction xs arbitrary: n) (auto simp: take_Cons split: nat.splits)

interpretation lru_reference: lru_cache lru_list_api
proof unfold_locales
  show "lru_peek lru_list_api (lru_put lru_list_api k it c) j \<in> {lru_peek lru_list_api c j, None}"
    if "j \<noteq> k" for j k it and c :: lru_list
    using map_of_take [of "fst c - 1" "drop_key k (snd c)" j] that
    by (cases "fst c") (auto simp: lru_list_api_def map_of_drop_key take_Cons split: prod.splits nat.splits)
  show "lru_peek lru_list_api (lru_put lru_list_api k it c) k = Some it" for k it and c :: lru_list
    by (auto simp: lru_list_api_def take_Cons split: prod.splits nat.splits)
qed (auto simp: lru_list_api_def map_of_drop_key fun_eq_iff split: prod.splits option.splits)

section \<open>What the cache returns\<close>

definition cache_ok :: "'c cache_state \<Rightarrow> bool" where
  "cache_ok cs \<longleftrightarrow> length (ca_pcache cs) = SHARDS \<and> length (ca_ncache cs) = SHARDS"

lemma touch_msg [simp]: "it_msg (touch cc now it) = it_msg it" "it_stored (touch cc now it) = it_stored it"
  "it_ttl (touch cc now it) = it_ttl it"
  by (simp_all add: touch_def Let_def)

lemma to_msg_touch [simp]: "to_msg (touch cc now it) req n kt = to_msg it req n kt"
  by (simp add: to_msg_def Let_def)

text \<open>The message an entry answers with at age \<open>now - stored\<close>.\<close>

definition served_msg :: "cache_config \<Rightarrow> item \<Rightarrow> request \<Rightarrow> nat \<Rightarrow> message" where
  "served_msg cc it req now =
     (let m = to_msg it req now (cc_keepttl cc) in if remaining it now \<le> 0 then map_ttls (\<lambda>_. 0) m else m)"

definition too_old :: "cache_config \<Rightarrow> item \<Rightarrow> nat \<Rightarrow> bool" where
  "too_old cc it now \<longleftrightarrow> remaining it now \<le> 0 \<and>
     int (as_secs (now - it_stored it)) > int (unat (it_ttl it)) + int (as_secs (cc_stale_upto cc))"

lemma cache_get_success:
  assumes "lru_cache (ce_lru env)" "cache_ok cs" "store_peek (ce_lru env) (ca_pcache cs) k = Some it"
  shows "\<exists>want. fst (cache_get env cc now k req cs) =
    (if too_old cc it now then None else Some (served_msg cc it req now, want, remaining it now \<le> 0))"
  using lru_cache.probe_present [OF assms(1) refl _ assms(3), of cc now req] assms(2)
  by (auto simp: cache_ok_def cache_get_def too_old_def served_msg_def Let_def)

lemma cache_get_denial:
  assumes l: "lru_cache (ce_lru env)" and ok: "cache_ok cs"
    and p: "store_peek (ce_lru env) (ca_pcache cs) k = None" and n: "store_peek (ce_lru env) (ca_ncache cs) k = Some it"
  shows "\<exists>want. fst (cache_get env cc now k req cs) =
    (if too_old cc it now then None else Some (served_msg cc it req now, want, remaining it now \<le> 0))"
proof -
  obtain st where "probe_store env cc now k req (ca_pcache cs) = (Absent, st)"
    using lru_cache.probe_absent [OF l refl _ p] ok by (metis cache_ok_def prod.collapse)
  with lru_cache.probe_present [OF l refl _ n, of cc now req] ok show ?thesis
    by (auto simp: cache_ok_def cache_get_def too_old_def served_msg_def Let_def)
qed

lemma cache_get_absent:
  assumes l: "lru_cache (ce_lru env)" and ok: "cache_ok cs"
    and p: "store_peek (ce_lru env) (ca_pcache cs) k = None" and n: "store_peek (ce_lru env) (ca_ncache cs) k = None"
  shows "fst (cache_get env cc now k req cs) = None"
proof -
  obtain st where "probe_store env cc now k req (ca_pcache cs) = (Absent, st)"
    using lru_cache.probe_absent [OF l refl _ p] ok by (metis cache_ok_def prod.collapse)
  moreover obtain st' where "probe_store env cc now k req (ca_ncache cs) = (Absent, st')"
    using lru_cache.probe_absent [OF l refl _ n] ok by (metis cache_ok_def prod.collapse)
  ultimately show ?thesis by (simp add: cache_get_def)
qed

text \<open>Everything the cache answers comes from one of its entries that is not too old.\<close>

lemma cache_get_Some:
  assumes l: "lru_cache (ce_lru env)" and ok: "cache_ok cs"
    and get: "fst (cache_get env cc now k req cs) = Some (m, want, stale)"
  shows "\<exists>it. (store_peek (ce_lru env) (ca_pcache cs) k = Some it \<or>
      (store_peek (ce_lru env) (ca_pcache cs) k = None \<and> store_peek (ce_lru env) (ca_ncache cs) k = Some it)) \<and>
     \<not> too_old cc it now \<and> m = served_msg cc it req now \<and> stale = (remaining it now \<le> 0)"
proof (cases "store_peek (ce_lru env) (ca_pcache cs) k")
  case (Some it)
  with cache_get_success [OF l ok Some, of cc now req] get show ?thesis
    by (auto split: if_splits)
next
  case None
  show ?thesis
  proof (cases "store_peek (ce_lru env) (ca_ncache cs) k")
    case (Some it)
    with cache_get_denial [OF l ok None Some, of cc now req] get None show ?thesis
      by (auto split: if_splits)
  qed (use cache_get_absent [OF l ok None] get in auto)
qed

lemma cache_insert_stored:
  assumes l: "lru_cache (ce_lru env)" and ok: "cache_ok cs"
    and ins: "cache_insert env cc now req m name cs = (Inr (Some ttl), cs')"
    and k: "k = cache_key env name (qtype req) (do_bit req) (m_checking_disabled (rq_msg req))"
  shows "cache_ok cs'"
    "store_peek (ce_lru env) (ca_pcache cs') k = Some (item_new m now ttl) \<or>
     (ca_pcache cs' = ca_pcache cs \<and> store_peek (ce_lru env) (ca_ncache cs') k = Some (item_new m now ttl))"
proof -
  have put: "length st = SHARDS \<Longrightarrow> store_peek (ce_lru env) (store_put (ce_lru env) k it st) k = Some it"
    "length (store_put (ce_lru env) k it st) = length st" for it st
    using lru_cache.store_peek_put [OF l] lru_cache.store_put_length [OF l] by auto
  from ins obtain w where w: "insert_plan cc m name = Inr (Some (w, ttl))"
    "cs' = (case w of Pcache \<Rightarrow> cs\<lparr>ca_pcache := store_put (ce_lru env) k (item_new m now ttl) (ca_pcache cs)\<rparr>
      | Ncache \<Rightarrow> cs\<lparr>ca_ncache := store_put (ce_lru env) k (item_new m now ttl) (ca_ncache cs)\<rparr>)"
    by (auto simp: cache_insert_def Let_def k split: if_splits sum.splits option.splits prod.splits which_store.splits)
  then show "cache_ok cs'" using ok put(2) by (auto simp: cache_ok_def split: which_store.splits)
  show "store_peek (ce_lru env) (ca_pcache cs') k = Some (item_new m now ttl) \<or>
     (ca_pcache cs' = ca_pcache cs \<and> store_peek (ce_lru env) (ca_ncache cs') k = Some (item_new m now ttl))"
    using w ok put(1) by (auto simp: cache_ok_def split: which_store.splits)
qed

section \<open>Times to live\<close>

lemma saturating_sub_unat: "a < 2 ^ 32 \<Longrightarrow> unat (saturating_sub t (of_nat a)) = unat t - a"
proof -
  assume a: "a < 2 ^ 32"
  then have u: "unat (of_nat a :: u32) = a" by (simp add: unsigned_of_nat take_bit_nat_eq_self)
  show ?thesis
    by (auto simp: saturating_sub_def word_le_nat_alt u unat_sub_if')
qed

lemma insert_plan_ok:
  "cc_minpttl cc \<le> cc_pttl cc \<Longrightarrow> cc_minnttl cc \<le> cc_nttl cc \<Longrightarrow> is_ok (insert_plan cc m name)"
  by (auto simp: insert_plan_def Let_def clamp_def split: resp_type.splits)

lemma map_ttls_fields [simp]:
  "m_id (map_ttls f m) = m_id m" "m_queries (map_ttls f m) = m_queries m" "m_rcode (map_ttls f m) = m_rcode m"
  "m_edns (map_ttls f m) = m_edns m"
  by (simp_all add: map_ttls_def Let_def)

lemma all_rrs_map_ttls:
  "all_rrs (map_ttls f m) = map (\<lambda>r. if rr_type r \<noteq> RT_OPT then r\<lparr>rr_ttl := f (rr_ttl r)\<rparr> else r) (all_rrs m)"
  by (simp add: all_rrs_def map_ttls_def Let_def)

lemma all_rrs_set_edns0 [simp]: "all_rrs (set_edns0 req m) = all_rrs m"
  by (simp add: set_edns0_def all_rrs_def split: option.splits)

lemma set_edns0_fields [simp]: "m_id (set_edns0 req m) = m_id m" "m_rcode (set_edns0 req m) = m_rcode m"
  "m_queries (set_edns0 req m) = m_queries m"
  by (simp_all add: set_edns0_def split: option.splits)

lemma to_msg_fields [simp]: "m_id (to_msg it req now kt) = m_id (rq_msg req)"
  "m_rcode (to_msg it req now kt) = m_rcode (it_msg it)" "m_queries (to_msg it req now kt) = m_queries (it_msg it)"
  by (simp_all add: to_msg_def Let_def)

lemma served_msg_fields [simp]: "m_id (served_msg cc it req now) = m_id (rq_msg req)"
  "m_rcode (served_msg cc it req now) = m_rcode (it_msg it)"
  "m_queries (served_msg cc it req now) = m_queries (it_msg it)"
  by (simp_all add: served_msg_def Let_def)

definition aged :: "nat \<Rightarrow> rr \<Rightarrow> rr" where
  "aged secs r = (if rr_type r \<noteq> RT_OPT then r\<lparr>rr_ttl := saturating_sub (rr_ttl r) (of_nat secs)\<rparr> else r)"

lemma all_rrs_with [simp]: "all_rrs (m\<lparr>m_id := a, m_recursion_desired := b, m_checking_disabled := c\<rparr>) = all_rrs m"
  "all_rrs (m\<lparr>m_edns := e\<rparr>) = all_rrs m"
  by (simp_all add: all_rrs_def)

lemma to_msg_rrs:
  "all_rrs (to_msg it req now False) = map (aged (as_secs (now - it_stored it))) (all_rrs (it_msg it))"
  by (simp add: to_msg_def Let_def all_rrs_map_ttls aged_def)

lemma served_msg_rrs:
  assumes "\<not> cc_keepttl cc" "0 < remaining it now"
  shows "all_rrs (served_msg cc it req now) = map (aged (as_secs (now - it_stored it))) (all_rrs (it_msg it))"
  using assms by (simp add: served_msg_def Let_def to_msg_rrs)

section \<open>Refreshes in flight\<close>

text \<open>
  The cache as a state machine: a query is served, or a spawned refresh runs, in any order. The
  rest of the chain may come back to this cache (a self lookup), so all that is asked of it is
  that it respects the two facts below.
\<close>

definition inflight_ok :: "'c cache_state \<Rightarrow> bool" where
  "inflight_ok cs \<longleftrightarrow> distinct (map snd (ca_tasks cs)) \<and> set (map snd (ca_tasks cs)) \<subseteq> ca_inflight cs"

text \<open>The refresh of \<open>k\<close> has left the queue and has not finished.\<close>

definition running :: "u64 \<Rightarrow> 'c cache_state \<Rightarrow> bool" where
  "running k cs \<longleftrightarrow> k \<in> ca_inflight cs \<and> k \<notin> set (map snd (ca_tasks cs))"

definition respects_inflight :: "('c, 't) cached next_plugin \<Rightarrow> bool" where
  "respects_inflight nx \<longleftrightarrow> (\<forall>req cs t out req' cs' t'. nx_serve nx req (cs, t) = (out, req', (cs', t')) \<longrightarrow>
     (inflight_ok cs \<longrightarrow> inflight_ok cs') \<and> (\<forall>k. running k cs \<longrightarrow> running k cs'))"

inductive cache_step ::
    "('c, 't) cache_env \<Rightarrow> cache_config \<Rightarrow> ('c, 't) cached next_plugin \<Rightarrow> ('c, 't) cached \<Rightarrow> ('c, 't) cached \<Rightarrow> bool"
  for env cc nx where
  serve_step: "cache_serve env cc req nx st = (out, req', st') \<Longrightarrow> cache_step env cc nx st st'"
| refresh_step: "ca_tasks cs = xs @ task # ys \<Longrightarrow>
     run_refresh env cc nx task (cs\<lparr>ca_tasks := xs @ ys\<rparr>, t) = st' \<Longrightarrow> cache_step env cc nx (cs, t) st'"

inductive_cases cache_stepE: "cache_step env cc nx st st'"

text \<open>Neither \<open>insert\<close> nor \<open>get\<close> touches the refreshes.\<close>

lemma cache_insert_frame:
  "cache_insert env cc now req m name cs = (r, cs') \<Longrightarrow> ca_inflight cs' = ca_inflight cs \<and> ca_tasks cs' = ca_tasks cs"
  by (auto simp: cache_insert_def Let_def split: if_splits sum.splits option.splits prod.splits which_store.splits)

lemma cache_get_frame:
  "cache_get env cc now k req cs = (r, cs') \<Longrightarrow> ca_inflight cs' = ca_inflight cs \<and> ca_tasks cs' = ca_tasks cs"
  by (auto simp: cache_get_def split: prod.splits probe.splits)

lemma inflight_frame:
  "ca_inflight cs' = ca_inflight cs \<and> ca_tasks cs' = ca_tasks cs \<Longrightarrow> inflight_ok cs' = inflight_ok cs \<and> running k cs' = running k cs"
  by (simp add: inflight_ok_def running_def)

lemma refresh_in_background_ok: "inflight_ok cs \<Longrightarrow> inflight_ok (refresh_in_background now rid req k cs)"
  by (auto simp: inflight_ok_def refresh_in_background_def)

lemma respectsD:
  assumes "respects_inflight nx" "nx_serve nx req st = (out, req', st')"
  shows "inflight_ok (fst st) \<Longrightarrow> inflight_ok (fst st')" "running k (fst st) \<Longrightarrow> running k (fst st')"
  using assms unfolding respects_inflight_def by (metis prod.collapse)+

lemma store_fresh_ok:
  "store_fresh env cc name req m st = (out, req', st') \<Longrightarrow> inflight_ok (fst st) \<Longrightarrow> inflight_ok (fst st')"
  by (auto simp: store_fresh_def split: prod.splits sum.splits dest!: cache_insert_frame inflight_frame)

lemma cache_serve_ok:
  assumes nx: "respects_inflight nx" and run: "cache_serve env cc req nx st = (out, req', st')"
    and ok: "inflight_ok (fst st)"
  shows "inflight_ok (fst st')"
proof -
  obtain name req1 where rn: "req_name req = (name, req1)" by (metis prod.exhaust)
  obtain cs t where st: "st = (cs, t)" by (cases st)
  let ?k = "cache_key env name (qtype req1) (do_bit req1) (m_checking_disabled (rq_msg req1))"
  obtain r cs1 where get: "cache_get env cc (ce_now env t) ?k req1 cs = (r, cs1)" by (metis prod.exhaust)
  obtain o2 req2 st2 where sv: "nx_serve nx req1 (cs1, t) = (o2, req2, st2)" by (metis prod.exhaust)
  have ok1: "inflight_ok cs1" using ok inflight_frame [OF cache_get_frame [OF get]] by (simp add: st)
  have ok2: "inflight_ok (fst st2)" using respectsD(1) [OF nx sv] ok1 by simp
  show ?thesis
  proof (cases "zones_match (cc_zones cc) name = None \<or> \<not> cacheable req1")
    case True
    with run rn have "nx_serve nx req1 st = (out, req', st')" by (simp add: cache_serve_def)
    with respectsD(1) [OF nx] ok show ?thesis by blast
  next
    case False
    have bg: "inflight_ok (refresh_in_background n i q ?k cs1)" for n i q
      by (rule refresh_in_background_ok [OF ok1])
    have "st' = (cs1, t) \<or> st' = (refresh_in_background (ce_now env t) (ce_rand env t) req1 ?k cs1, t) \<or> st' = st2
        \<or> (\<exists>m. store_fresh env cc name req2 m st2 = (out, req', st'))"
      using run False
      by (auto simp: cache_serve_def rn st get sv Let_def
          split: option.splits if_splits refresh_mode.splits outcome.splits reply.splits)
    with ok1 ok2 bg store_fresh_ok show ?thesis by (metis fst_conv)
  qed
qed

lemma run_refresh_ok:
  assumes nx: "respects_inflight nx" and ok: "inflight_ok cs" and run: "running k cs"
  shows "inflight_ok (fst (run_refresh env cc nx (r2, k) (cs, t)))"
proof -
  obtain name r3 where rn: "req_name r2 = (name, r3)" by (metis prod.exhaust)
  obtain out r4 cs' t' where sv: "nx_serve nx r3 (cs, t) = (out, r4, (cs', t'))" by (metis prod.exhaust)
  have ok': "inflight_ok cs'" and run': "running k cs'"
    using respectsD [OF nx sv] ok run by auto
  have rm: "inflight_ok (c\<lparr>ca_inflight := ca_inflight c - {k}\<rparr>)"
    if "ca_inflight c = ca_inflight cs' \<and> ca_tasks c = ca_tasks cs'" for c :: "'a cache_state"
    using ok' run' that by (auto simp: inflight_ok_def running_def)
  obtain r cs2 where ins: "\<And>m. out = Replied (RMsg m) \<Longrightarrow> cache_insert env cc (ce_now env t') r4 m name cs' = (r, cs2)"
    by (metis (no_types) outcome.inject(1) prod.exhaust reply.inject(1))
  show ?thesis
  proof (cases "\<exists>m. out = Replied (RMsg m)")
    case True
    then obtain m where m: "out = Replied (RMsg m)" by blast
    note f = cache_insert_frame [OF ins [OF m]]
    then have "inflight_ok cs2" using ok' by (simp add: inflight_ok_def)
    with f rm show ?thesis by (simp add: run_refresh_def rn sv m ins [OF m] split: sum.splits)
  next
    case False
    with ok' rm show ?thesis
      by (auto simp: run_refresh_def rn sv split: outcome.splits reply.splits)
  qed
qed

lemma cache_step_ok:
  assumes nx: "respects_inflight nx" and step: "cache_step env cc nx st st'" and ok: "inflight_ok (fst st)"
  shows "inflight_ok (fst st')"
  using step
proof (cases rule: cache_step.cases)
  case (serve_step req out req')
  with cache_serve_ok [OF nx _ ok] show ?thesis by blast
next
  case (refresh_step cs xs task ys t)
  obtain r2 k where task: "task = (r2, k)" by (cases task)
  let ?cs = "cs\<lparr>ca_tasks := xs @ ys\<rparr>"
  have "inflight_ok ?cs" "running k ?cs"
    using ok refresh_step task by (auto simp: inflight_ok_def running_def)
  with run_refresh_ok [OF nx this] refresh_step task show ?thesis by auto
qed

lemma cache_reachable_ok:
  assumes "respects_inflight nx" "(cache_step env cc nx)\<^sup>*\<^sup>* st st'" "inflight_ok (fst st)"
  shows "inflight_ok (fst st')"
  using assms(2,3) by (induction rule: rtranclp_induct) (auto intro: cache_step_ok [OF assms(1)])

section \<open>The contracts\<close>

lemma served_id:
  assumes "cache_get env cc now k req cs = (Some (m, w, st), cs')"
  shows "m_id m = m_id (rq_msg req)"
  using assms
  by (auto simp: cache_get_def probe_store_def Let_def split: prod.splits probe.splits option.splits if_splits)

lemma store_fresh_shape:
  "store_fresh env cc name req m st = (out, req', st') \<Longrightarrow> req' = req \<and> (out = Replied (RMsg m) \<or> (\<exists>e. out = Panicked e))"
  by (auto simp: store_fresh_def split: prod.splits sum.splits)

text \<open>Where the outcome of the handler comes from: the rest of the chain or an entry.\<close>

lemma cache_serve_sources:
  assumes run: "cache_serve env cc req nx (cs, t) = (out, req', st')" and rn: "req_name req = (name, req1)"
  shows "(\<exists>s0 o2 s2. nx_serve nx req1 s0 = (o2, req', s2)) \<or> req' = req1"
    "out = Replied (RMsg m) \<Longrightarrow> (\<exists>s0 s2. nx_serve nx req1 s0 = (Replied (RMsg m), req', s2)) \<or>
      (\<exists>n k w s cs'. cache_get env cc n k req1 cs = (Some (m, w, s), cs'))"
proof -
  let ?k = "cache_key env name (qtype req1) (do_bit req1) (m_checking_disabled (rq_msg req1))"
  obtain r cs1 where get: "cache_get env cc (ce_now env t) ?k req1 cs = (r, cs1)" by (metis prod.exhaust)
  obtain o2 req2 st2 where sv: "nx_serve nx req1 (cs1, t) = (o2, req2, st2)" by (metis prod.exhaust)
  have "nx_serve nx req1 (cs, t) = (out, req', st') \<or> (\<exists>m w s. r = Some (m, w, s) \<and> out = Replied (RMsg m) \<and> (req' = req1 \<or> req' = req2))
      \<or> (out = o2 \<and> req' = req2) \<or> (\<exists>m. o2 = Replied (RMsg m) \<and> store_fresh env cc name req2 m st2 = (out, req', st'))"
    using run by (auto simp: cache_serve_def rn get sv Let_def
        split: option.splits if_splits refresh_mode.splits outcome.splits reply.splits)
  then consider "nx_serve nx req1 (cs, t) = (out, req', st')"
    | m w s where "r = Some (m, w, s)" "out = Replied (RMsg m)" "req' = req1 \<or> req' = req2"
    | "out = o2" "req' = req2"
    | m where "o2 = Replied (RMsg m)" "store_fresh env cc name req2 m st2 = (out, req', st')" by blast
  note shape = this
  show "(\<exists>s0 o2 s2. nx_serve nx req1 s0 = (o2, req', s2)) \<or> req' = req1"
    using shape sv store_fresh_shape by cases blast+
  show "(\<exists>s0 s2. nx_serve nx req1 s0 = (Replied (RMsg m), req', s2)) \<or>
      (\<exists>n k w s cs'. cache_get env cc n k req1 cs = (Some (m, w, s), cs'))" if "out = Replied (RMsg m)"
    using shape
  proof cases
    case (4 m')
    with that store_fresh_shape [OF 4(2)] sv show ?thesis by blast
  qed (use that get sv in blast)+
qed

lemma cache_keeps_id:
  assumes nx: "keeps_id (nx_serve nx)"
  shows "keeps_id (\<lambda>req st. cache_serve env cc req nx st)"
proof (rule keeps_idI)
  fix req out req' and st st' :: "('a, 'b) cached"
  assume run: "cache_serve env cc req nx st = (out, req', st')"
  obtain cs t where st: "st = (cs, t)" by (cases st)
  obtain name req1 where rn: "req_name req = (name, req1)" by (metis prod.exhaust)
  have m1: "rq_msg req1 = rq_msg req" using req_name_frame(1) [of req] rn by simp
  from cache_serve_sources(1) [OF run [unfolded st] rn] keeps_idD(1) [OF nx] m1
  show "m_id (rq_msg req') = m_id (rq_msg req)" by metis
next
  fix req m req' and st st' :: "('a, 'b) cached"
  assume run: "cache_serve env cc req nx st = (Replied (RMsg m), req', st')"
  obtain cs t where st: "st = (cs, t)" by (cases st)
  obtain name req1 where rn: "req_name req = (name, req1)" by (metis prod.exhaust)
  have m1: "rq_msg req1 = rq_msg req" using req_name_frame(1) [of req] rn by simp
  from cache_serve_sources(2) [OF run [unfolded st] rn refl] keeps_idD(2) [OF nx _ refl] served_id m1
  show "m_id m = m_id (rq_msg req)" by metis
qed

interpretation cache_handler: id_keeping_handler "cache_serve env cc"
  by unfold_locales (rule cache_keeps_id)

lemma cache_block_frame:
  "cache_block pd norm cc c = (r, c') \<Longrightarrow> ct_config c' = ct_config c \<and> ct_directive c' = ct_directive c"
proof (induction pd norm cc c arbitrary: r rule: cache_block.induct)
  case (1 pd norm cc c)
  obtain b c1 where n: "ctl_disp next_block c = (b, c1)" by (cases "ctl_disp next_block c")
  obtain r2 c2 where p: "cache_property pd norm cc c1 = (r2, c2)" by (cases "cache_property pd norm cc c1")
  note f = ctl_disp_frame [OF n] cache_property_frame(1) [OF p]
  show ?case
  proof (cases "b \<and> is_ok r2")
    case True
    then obtain cc' where cc': "b" "r2 = Inr cc'" by (cases r2) auto
    with "1.prems" n p have "cache_block pd norm cc' c2 = (r, c')" by (simp add: cache_block.simps [of pd norm cc c])
    from "1.IH" [OF n [symmetric] _ p [symmetric] cc'(2) this] cc'(1) f show ?thesis by simp
  next
    case False
    with "1.prems" n p f show ?thesis
      by (auto simp: cache_block.simps [of pd norm cc c] split: bool.splits sum.splits)
  qed
qed

lemma cache_body_appends:
  assumes "cache_body from_ascii api pd env c = (r, c')"
  shows "appends_plugins c c'"
proof -
  obtain as0 c1 where d: "ctl_disp remaining_args_until_brace c = (as0, c1)"
    by (cases "ctl_disp remaining_args_until_brace c")
  consider "c' = c1"
    | cc r2 c2 where "cache_block pd (normalize_zones from_ascii api) cc c1 = (r2, c2)" "c' = c2"
    | cc cc' c2 where "cache_block pd (normalize_zones from_ascii api) cc c1 = (Inr cc', c2)"
        "c' = add_plugin (''cache'', cache_serve env cc') c2"
    using assms by (auto simp: cache_body_def d Let_def split: if_splits sum.splits prod.splits)
  then show ?thesis
  proof cases
    case 2
    with appends_trans [OF appends_disp [OF d] appends_refl [OF cache_block_frame]] show ?thesis by blast
  next
    case 3
    with appends_trans [OF appends_trans [OF appends_disp [OF d] appends_refl [OF cache_block_frame]] appends_add_plugin]
    show ?thesis by blast
  qed (use appends_disp [OF d] in simp)
qed

interpretation cache_setup: setup_function "cache_setup from_ascii api parse_dur env"
  unfolding cache_setup_def by (rule single_setup_function [OF cache_body_appends])

section \<open>Properties\<close>

text \<open>An environment and a response, the input of the examples: the reference map of the previous section, a
  hash that distinguishes the types, time in nanoseconds as the state of the rest of the system.\<close>

definition plain_env :: "(lru_list, nat) cache_env" where
  "plain_env = \<lparr>ce_lru = lru_list_api, ce_hash = (\<lambda>(n, t, d, c). if t = RT_A then 1 else 2), ce_due = (\<lambda>_ _ _. False),
     ce_now = (\<lambda>t. t), ce_rand = (\<lambda>_. 0)\<rparr>"

definition a_response :: message where
  "a_response = (new_reply (query_for ''a.'' RT_A))\<lparr>m_answers := [from_rdata ''a.'' 300 (RD_A [192, 0, 2, 9])]\<rparr>"

lemma plain_env_store: "ce_lru plain_env = lru_list_api"
  by (simp add: plain_env_def)

lemma plain_env_lru: "lru_cache (ce_lru plain_env)"
  by (simp add: plain_env_def lru_reference.lru_cache_axioms)

lemma cache_state_new_ok:
  "lru_cache lru \<Longrightarrow> cache_ok (cache_state_new lru cc)"
  "lru_cache lru \<Longrightarrow> store_peek lru (ca_pcache (cache_state_new lru cc)) k = None"
  "lru_cache lru \<Longrightarrow> store_peek lru (ca_ncache (cache_state_new lru cc)) k = None"
  using lru_cache.store_peek_new [of lru] by (simp_all add: cache_ok_def cache_state_new_def) (simp add: store_new_def)

lemma item_new_ttl: "as_secs ttl < 2 ^ 32 \<Longrightarrow> unat (it_ttl (item_new m now ttl)) = as_secs ttl"
  by (simp add: item_new_def unat_of_nat take_bit_eq_mod)

lemma respects_untouched:
  assumes "\<And>req cs t. fst (snd (snd (nx_serve nx req (cs, t)))) = cs"
  shows "respects_inflight nx"
  unfolding respects_inflight_def using assms by (metis fst_conv snd_conv)

lemma cache_get_ok: "cache_ok cs \<Longrightarrow> cache_ok (snd (cache_get env cc now k req cs))"
  by (simp add: cache_ok_def cache_get_def probe_store_def Let_def split: prod.splits probe.splits option.splits)

text \<open>A cache that refreshes at every hit, before a plugin that answers.\<close>

definition eager_env :: "(lru_list, nat) cache_env" where
  "eager_env = plain_env\<lparr>ce_due := (\<lambda>_ _ _. True)\<rparr>"

definition eager_config :: cache_config where
  "eager_config = (cache_config_default [''.''] (3600 * SECOND) (1800 * SECOND))\<lparr>cc_prefetch := 1\<rparr>"

definition answering :: "(lru_list, nat) cached plugin" where
  "answering = (''answer'', \<lambda>req nx s. (Replied (RMsg a_response), req, s))"

definition holds_answer :: "u32 \<Rightarrow> lru_list cache_state \<Rightarrow> bool" where
  "holds_answer f cs \<longleftrightarrow> cache_ok cs
     \<and> (\<exists>it. store_peek lru_list_api (ca_pcache cs) 1 = Some it \<and> it_stored it = 0 \<and> it_ttl it = 300 \<and> it_fetches it = f)"

definition eager_query :: request where
  "eager_query = snd (req_name (query_for ''a.'' RT_A))"

lemma eager_lru: "ce_lru eager_env = lru_list_api" "lru_cache (ce_lru eager_env)"
  by (simp_all add: eager_env_def plain_env_def lru_reference.lru_cache_axioms)

lemma eager_clock: "ce_now eager_env t = t" "ce_rand eager_env t = 0"
  by (simp_all add: eager_env_def plain_env_def)

lemma eager_due: "ce_due eager_env r t p" "cc_prefetch eager_config = 1"
  by (simp_all add: eager_env_def eager_config_def)

lemma eager_request:
  "req_name (query_for ''a.'' RT_A) = (''a.'', eager_query)"
  "zones_match (cc_zones eager_config) ''a.'' \<noteq> None" "cacheable (eager_query)"
  "cache_key eager_env ''a.'' (qtype (eager_query)) d c = 1"
proof -
  have "fst (req_name (query_for ''a.'' RT_A)) = ''a.''" by code_simp
  then show "req_name (query_for ''a.'' RT_A) = (''a.'', eager_query)" unfolding eager_query_def by (metis prod.collapse)
  have "cc_zones eager_config = [''.'']" by (simp add: eager_config_def cache_config_default_def)
  moreover have "zones_match [''.''] ''a.'' \<noteq> None" by code_simp
  ultimately show "zones_match (cc_zones eager_config) ''a.'' \<noteq> None" by simp
  show "cacheable (eager_query)" by code_simp
  have "qtype (eager_query) = RT_A" by code_simp
  then show "cache_key eager_env ''a.'' (qtype (eager_query)) d c = 1"
    by (simp add: cache_key_def eager_env_def plain_env_def)
qed

lemma cache_step_served: "snd (snd (cache_serve env cc req nx st)) = st' \<Longrightarrow> cache_step env cc nx st st'"
  by (cases "cache_serve env cc req nx st") (auto intro: serve_step)

lemma eager_miss:
  "\<exists>cs. cache_step eager_env eager_config (next_of [answering]) (cache_state_new lru_list_api eager_config, 0) (cs, 0)
     \<and> holds_answer 0 cs \<and> ca_tasks cs = [] \<and> ca_inflight cs = {}"
proof -
  let ?new = "cache_state_new lru_list_api eager_config" and ?q = "eager_query"
  obtain cs1 where g: "cache_get eager_env eager_config 0 1 ?q ?new = (None, cs1)" 
    using cache_get_absent [OF eager_lru(2), of ?new 1] cache_state_new_ok [of lru_list_api eager_config] eager_lru
    by (metis prod.collapse)
  have "cache_ok ?new" using cache_state_new_ok(1) eager_lru by metis
  with cache_get_ok [of ?new eager_env eager_config 0 1 ?q] g have ok1: "cache_ok cs1" by simp
  let ?cs2 = "cs1\<lparr>ca_pcache := store_put lru_list_api 1 (item_new a_response 0 (300 * SECOND)) (ca_pcache cs1)\<rparr>"
  have plan: "insert_plan eager_config a_response ''a.'' = Inr (Some (Pcache, 300 * SECOND))"
    by (simp add: insert_plan_def echoes_question_def a_response_def new_reply_queries typify_def from_rdata_def disabled_def
        minimal_ttl_def all_rrs_def clamp_def SECOND_def eager_config_def cache_config_default_def message_new_def query_for_def request_new_def)
  have echo: "\<not> m_truncated a_response" "echoes_question a_response ''a.''" by (simp_all add: a_response_def echoes_question_def new_reply_queries)
  have i: "cache_insert eager_env eager_config 0 ?q a_response ''a.'' cs1 = (Inr (Some (300 * SECOND)), ?cs2)"
    by (simp add: cache_insert_def plan echo eager_request(4) eager_lru(1) Let_def)
  have s: "snd (snd (cache_serve eager_env eager_config (query_for ''a.'' RT_A) (next_of [answering]) (?new, 0))) = (?cs2, 0)"
    using eager_request g i by (auto simp: cache_serve_def store_fresh_def answering_def eager_clock)
  have "store_peek lru_list_api (ca_pcache ?cs2) 1 = Some (item_new a_response 0 (300 * SECOND))" "cache_ok ?cs2"
    using ok1 lru_cache.store_peek_put [OF eager_lru(2)] lru_cache.store_put_length [OF eager_lru(2)] by (simp_all add: cache_ok_def eager_lru(1))
  moreover have "it_stored (item_new a_response 0 (300 * SECOND)) = 0" "it_ttl (item_new a_response 0 (300 * SECOND)) = 300" "it_fetches (item_new a_response 0 (300 * SECOND)) = 0"
    by (simp_all add: item_new_def as_secs_def SECOND_def)
  ultimately have "holds_answer 0 ?cs2" unfolding holds_answer_def by blast
  moreover have "ca_tasks ?cs2 = []" "ca_inflight ?cs2 = {}"
    using cache_get_frame [OF g] by (simp_all add: cache_state_new_def)
  moreover have "cache_step eager_env eager_config (next_of [answering]) (?new, 0) (?cs2, 0)"
    by (rule cache_step_served [OF s])
  ultimately show ?thesis by blast
qed

lemma eager_hit:
  assumes "holds_answer f cs" "1 \<le> f + 1"
  shows "\<exists>cs1 n. cache_step eager_env eager_config (next_of [answering]) (cs, 0) (refresh_in_background 0 0 n 1 cs1, 0)
     \<and> holds_answer (f + 1) cs1 \<and> ca_tasks cs1 = ca_tasks cs \<and> ca_inflight cs1 = ca_inflight cs"
proof -
  let ?q = "eager_query"
  from assms obtain it where it: "cache_ok cs" "store_peek lru_list_api (ca_pcache cs) 1 = Some it" "it_stored it = 0" "it_ttl it = 300" "it_fetches it = f"
    by (auto simp: holds_answer_def)
  obtain r cs1 where g: "cache_get eager_env eager_config 0 1 ?q cs = (r, cs1)" by (metis prod.exhaust)
  let ?it = "touch eager_config 0 it" and ?i = "shard_index 1"
  let ?sh = "lru_write lru_list_api 1 ?it (snd (lru_get_mut lru_list_api 1 (ca_pcache cs ! ?i)))"
  have "remaining it 0 = 300" using it by (simp add: remaining_def as_secs_def)
  moreover have f: "it_fetches ?it = f + 1" using it(5) by (simp add: touch_def Let_def)
  ultimately have c: "cs1 = cs\<lparr>ca_pcache := (ca_pcache cs)[?i := ?sh]\<rparr>" and r: "\<exists>m. r = Some (m, True, False)"
    using assms(2) g it lru_cache.probe_present [OF eager_lru(2) refl, of "ca_pcache cs" 1 it eager_config 0 ?q]
    by (auto simp: cache_get_def cache_ok_def eager_lru(1) eager_due Let_def)
  have l: "length (ca_pcache cs) = SHARDS" using it(1) by (simp add: cache_ok_def)
  have "store_peek lru_list_api (ca_pcache cs1) 1 = Some ?it"
    using lru_cache.store_update_peek [OF eager_lru(2) l] by (simp add: c eager_lru(1)) (simp add: lru_list_api_def split: prod.splits)
  then have "holds_answer (f + 1) cs1" using it f cache_get_ok [of cs eager_env eager_config 0 1 ?q] g by (auto simp: holds_answer_def)
  moreover obtain m where "r = Some (m, True, False)" using r by blast
  with g eager_request have "snd (snd (cache_serve eager_env eager_config (query_for ''a.'' RT_A) (next_of [answering]) (cs, 0)))
      = (refresh_in_background 0 0 ?q 1 cs1, 0)"
    by (auto simp: cache_serve_def eager_clock)
  then have "cache_step eager_env eager_config (next_of [answering]) (cs, 0) (refresh_in_background 0 0 ?q 1 cs1, 0)"
    by (rule cache_step_served)
  ultimately show ?thesis using cache_get_frame [OF g] by blast
qed

lemma holds_answer_refresh: "holds_answer f (refresh_in_background now rid q k cs) = holds_answer f cs"
  by (simp add: holds_answer_def refresh_in_background_def cache_ok_def)

text \<open>C11: What is stored is served: in a cache without \<open>keepttl\<close> and over any map with the laws of an LRU cache, after a
  response was inserted with time to live \<open>ttl\<close> under a key for which the success store had no entry, a look-up
  of the key before \<open>ttl\<close> has passed answers with the id of the new query, the stored rcode and all stored records,
  each TTL lowered by the seconds passed and never below zero. (An older entry of the success store would hide a
  denial.)\<close>

theorem cache_insert_get:
  assumes "lru_cache (ce_lru env)" "cache_ok cs"
    and "cache_insert env cc now req m name cs = (Inr (Some ttl), cs')"
    and "k = cache_key env name (qtype req) (do_bit req) (m_checking_disabled (rq_msg req))"
    and "store_peek (ce_lru env) (ca_pcache cs) k = None" "\<not> cc_keepttl cc"
    and "as_secs (now' - now) < as_secs ttl" "as_secs ttl < 2 ^ 32"
  shows "\<exists>r want. fst (cache_get env cc now' k req' cs') = Some (r, want, False)
    \<and> m_id r = m_id (rq_msg req') \<and> m_rcode r = m_rcode m \<and> all_rrs r = map (aged (as_secs (now' - now))) (all_rrs m)"
proof -
  let ?it = "item_new m now ttl"
  have rem: "0 < remaining ?it now'" and old: "\<not> too_old cc ?it now'" and it: "it_stored ?it = now" "it_msg ?it = m\<lparr>m_edns := None\<rparr>"
    using assms(7) item_new_ttl [OF assms(8), of m now] by (auto simp: remaining_def too_old_def) (simp_all add: item_new_def)
  note st = cache_insert_stored [OF assms(1-4)]
  have "\<exists>want. fst (cache_get env cc now' k req' cs') = Some (served_msg cc ?it req' now', want, False)"
    using st(2)
  proof
    assume "store_peek (ce_lru env) (ca_pcache cs') k = Some ?it"
    from cache_get_success [OF assms(1) st(1) this, of cc now' req'] rem old show ?thesis by auto
  next
    assume "ca_pcache cs' = ca_pcache cs \<and> store_peek (ce_lru env) (ca_ncache cs') k = Some ?it"
    with assms(5) have "store_peek (ce_lru env) (ca_pcache cs') k = None" "store_peek (ce_lru env) (ca_ncache cs') k = Some ?it" by simp_all
    from cache_get_denial [OF assms(1) st(1) this, of cc now' req'] rem old show ?thesis by auto
  qed
  with served_msg_rrs [OF assms(6) rem, of req'] it show ?thesis by auto
qed

lemma a_response_stored:
  "\<exists>cs'. cache_insert plain_env (cache_config_default [''.''] (3600 * SECOND) (1800 * SECOND)) 0 (query_for ''a.'' RT_A) a_response ''a.''
     (cache_state_new lru_list_api (cache_config_default [''.''] (3600 * SECOND) (1800 * SECOND))) = (Inr (Some (300 * SECOND)), cs')"
  by (simp add: cache_insert_def echoes_question_def a_response_def new_reply_queries insert_plan_def typify_def from_rdata_def disabled_def
      minimal_ttl_def all_rrs_def clamp_def SECOND_def cache_config_default_def query_for_def request_new_def message_new_def)

theorem cache_insert_get_witness:
  "\<exists>cs' r want. cache_insert plain_env (cache_config_default [''.''] (3600 * SECOND) (1800 * SECOND)) 0 (query_for ''a.'' RT_A) a_response ''a.''
       (cache_state_new lru_list_api (cache_config_default [''.''] (3600 * SECOND) (1800 * SECOND))) = (Inr (Some (300 * SECOND)), cs')
     \<and> fst (cache_get plain_env (cache_config_default [''.''] (3600 * SECOND) (1800 * SECOND)) (100 * SECOND) 1 (query_for ''a.'' RT_A) cs') = Some (r, want, False)
     \<and> all_rrs r = [from_rdata ''a.'' 200 (RD_A [192, 0, 2, 9])]"
proof -
  let ?cc = "cache_config_default [''.''] (3600 * SECOND) (1800 * SECOND)" and ?q = "query_for ''a.'' RT_A"
  let ?cs = "cache_state_new lru_list_api ?cc"
  obtain cs' where ins: "cache_insert plain_env ?cc 0 ?q a_response ''a.'' ?cs = (Inr (Some (300 * SECOND)), cs')" using a_response_stored by blast
  have k: "1 = cache_key plain_env ''a.'' (qtype ?q) (do_bit ?q) (m_checking_disabled (rq_msg ?q))"
    by (simp add: cache_key_def plain_env_def qtype_def)
  have l: "lru_cache lru_list_api" by (rule lru_reference.lru_cache_axioms)
  have "\<exists>r want. fst (cache_get plain_env ?cc (100 * SECOND) 1 ?q cs') = Some (r, want, False)
    \<and> m_id r = m_id (rq_msg ?q) \<and> m_rcode r = m_rcode a_response \<and> all_rrs r = map (aged (as_secs (100 * SECOND - 0))) (all_rrs a_response)"
    by (rule cache_insert_get [OF plain_env_lru _ ins k])
      (use cache_state_new_ok [OF l] in \<open>simp_all add: plain_env_def cache_config_default_def as_secs_def SECOND_def\<close>)
  moreover have "map (aged (as_secs (100 * SECOND - 0))) (all_rrs a_response) = [from_rdata ''a.'' 200 (RD_A [192, 0, 2, 9])]"
    by (simp add: a_response_def all_rrs_def aged_def as_secs_def SECOND_def saturating_sub_def from_rdata_def)
  ultimately show ?thesis using ins by auto
qed

text \<open>C12: Nothing outlives its time: every answer of the cache comes from an entry stored at most its time to live
  plus the configured staleness ago; past the time to live the answer is marked stale and every TTL in it
  is zero.\<close>

theorem cache_get_not_expired:
  assumes "lru_cache (ce_lru env)" "cache_ok cs"
    and "fst (cache_get env cc now k req cs) = Some (m, want, stale)"
  shows "\<exists>it. (store_peek (ce_lru env) (ca_pcache cs) k = Some it \<or> store_peek (ce_lru env) (ca_ncache cs) k = Some it)
    \<and> as_secs (now - it_stored it) \<le> unat (it_ttl it) + as_secs (cc_stale_upto cc)
    \<and> (stale \<longleftrightarrow> unat (it_ttl it) \<le> as_secs (now - it_stored it))
    \<and> (stale \<longrightarrow> (\<forall>r \<in> set (all_rrs m). rr_type r \<noteq> RT_OPT \<longrightarrow> rr_ttl r = 0))"
proof -
  from cache_get_Some [OF assms] obtain it where it: "store_peek (ce_lru env) (ca_pcache cs) k = Some it \<or> store_peek (ce_lru env) (ca_ncache cs) k = Some it"
    "\<not> too_old cc it now" "m = served_msg cc it req now" "stale = (remaining it now \<le> 0)" by blast
  have "\<forall>r \<in> set (all_rrs m). rr_type r \<noteq> RT_OPT \<longrightarrow> rr_ttl r = 0" if stale
    using that it(3,4) by (auto simp: served_msg_def Let_def all_rrs_map_ttls)
  moreover have "remaining it now \<le> 0 \<longleftrightarrow> unat (it_ttl it) \<le> as_secs (now - it_stored it)"
    "as_secs (now - it_stored it) \<le> unat (it_ttl it) + as_secs (cc_stale_upto cc)"
    using it(2) unfolding too_old_def remaining_def by linarith+
  ultimately show ?thesis using it(1,4) by blast
qed

theorem cache_get_not_expired_witness:
  "\<exists>cs' it. fst (cache_get plain_env (cache_config_default [''.''] (3600 * SECOND) (1800 * SECOND)) (100 * SECOND) 1 (query_for ''a.'' RT_A) cs') \<noteq> None
     \<and> store_peek lru_list_api (ca_pcache cs') 1 = Some it \<and> as_secs (100 * SECOND - it_stored it) \<le> unat (it_ttl it)"
proof -
  let ?cc = "cache_config_default [''.''] (3600 * SECOND) (1800 * SECOND)" and ?q = "query_for ''a.'' RT_A"
  let ?it = "item_new a_response 0 (300 * SECOND)"
  let ?cs = "(cache_state_new lru_list_api ?cc)\<lparr>ca_pcache := store_put lru_list_api 1 ?it (store_new lru_list_api 1)\<rparr>"
  have l: "lru_cache lru_list_api" by (rule lru_reference.lru_cache_axioms)
  have ok: "cache_ok ?cs" "store_peek (ce_lru plain_env) (ca_pcache ?cs) 1 = Some ?it" "store_peek (ce_lru plain_env) (ca_ncache ?cs) 1 = None"
    using cache_state_new_ok [OF l, of ?cc] lru_cache.store_peek_put [OF l, of "store_new lru_list_api 1"]
    by (simp_all add: cache_ok_def store_new_def plain_env_store)
  have t: "\<not> too_old ?cc ?it (100 * SECOND)"
    by (simp add: too_old_def remaining_def item_new_def as_secs_def SECOND_def)
  obtain want where g: "fst (cache_get plain_env ?cc (100 * SECOND) 1 ?q ?cs)
      = Some (served_msg ?cc ?it ?q (100 * SECOND), want, remaining ?it (100 * SECOND) \<le> 0)"
    using cache_get_success [OF plain_env_lru ok(1,2), of ?cc "100 * SECOND" ?q] t by (auto simp only: if_False)
  from cache_get_not_expired [OF plain_env_lru ok(1) g] ok(2,3)
  have "as_secs (100 * SECOND - it_stored ?it) \<le> unat (it_ttl ?it) + as_secs (cc_stale_upto ?cc)" by (metis option.distinct(1) option.inject)
  then have "as_secs (100 * SECOND - it_stored ?it) \<le> unat (it_ttl ?it)" by (simp add: cache_config_default_def as_secs_def)
  then show ?thesis using g ok(2) unfolding plain_env_store by blast
qed

text \<open>C13: At most one background refresh per key is waiting: in every state reached from a fresh cache by serving
  queries and running spawned refreshes in any order, the keys of the waiting refreshes are distinct and all
  marked in flight. The rest of the chain may itself come back to this cache; it is assumed that each of its runs
  keeps this invariant and neither ends nor queues again a refresh that is running, as a chain does that leaves the
  state of the cache alone.\<close>

theorem cache_single_refresh:
  assumes "respects_inflight nx" "(cache_step env cc nx)\<^sup>*\<^sup>* (cache_state_new (ce_lru env) cc, t) (cs, t')"
  shows "distinct (map snd (ca_tasks cs)) \<and> set (map snd (ca_tasks cs)) \<subseteq> ca_inflight cs"
  using cache_reachable_ok [OF assms] by (simp add: cache_state_new_def inflight_ok_def)

theorem cache_single_refresh_witness:
  "\<exists>cs q. (cache_step eager_env eager_config (next_of [answering]))\<^sup>*\<^sup>* (cache_state_new lru_list_api eager_config, 0) (cs, 0)
     \<and> ca_tasks cs = [(q, 1)] \<and> 1 \<in> ca_inflight cs \<and> distinct (map snd (ca_tasks cs))"
proof -
  let ?step = "cache_step eager_env eager_config (next_of [answering])"
  obtain c1 where c1: "?step (cache_state_new lru_list_api eager_config, 0) (c1, 0)" "holds_answer 0 c1" "ca_tasks c1 = []" "ca_inflight c1 = {}"
    using eager_miss by blast
  obtain c2 n where c2: "?step (c1, 0) (refresh_in_background 0 0 n 1 c2, 0)" "holds_answer 1 c2" "ca_tasks c2 = []" "ca_inflight c2 = {}"
    using eager_hit [OF c1(2)] c1 by auto
  let ?c = "refresh_in_background 0 0 n 1 c2"
  have c: "ca_tasks ?c = [(refresh_request 0 0 n, 1)]" "ca_inflight ?c = {1}" using c2 by (simp_all add: refresh_in_background_def)
  obtain c3 n' where c3: "?step (refresh_in_background 0 0 n 1 c2, 0) (refresh_in_background 0 0 n' 1 c3, 0)"
    "ca_tasks c3 = [(refresh_request 0 0 n, 1)]" "ca_inflight c3 = {1}"
    using eager_hit [of 1 ?c, unfolded holds_answer_refresh, OF c2(2)] c by auto
  have e: "refresh_in_background 0 0 n' 1 c3 = c3" using c3(3) by (simp add: refresh_in_background_def)
  have reach: "?step\<^sup>*\<^sup>* (cache_state_new (ce_lru eager_env) eager_config, 0) (c3, 0)"
    using c1(1) c2(1) c3(1) unfolding e eager_lru(1) by (meson rtranclp.rtrancl_into_rtrancl rtranclp.rtrancl_refl)
  have "respects_inflight (next_of [answering])" by (rule respects_untouched) (simp add: answering_def)
  from cache_single_refresh [OF this reach] reach c3(2,3) show ?thesis by (auto simp: eager_lru(1))
qed

text \<open>A positive cap below the minimum breaks the cache: when \<open>pttl < minpttl\<close>, storing any successful response
  panics in \<open>Ord::clamp\<close> and leaves the cache unchanged. The minimum is five seconds unless set, so the
  configuration \<open>cache 3\<close> does it.\<close>

lemma cache_small_ttl_panics:
  assumes "cc_pttl cc < cc_minpttl cc" "\<not> m_truncated m" "echoes_question m name"
    and "typify m = R_Success" "\<not> disabled (cc_disable_success cc) name"
  shows "cache_insert env cc now req m name cs = (Inl ''assertion failed: min <= max'', cs)"
  using assms by (simp add: cache_insert_def insert_plan_def clamp_def)

text \<open>An expired positive entry hides a fresh negative one: when the success store still holds an entry past its
  time for the key, the look-up answers nothing, even when the denial store holds an entry that is valid.\<close>

lemma cache_expired_hides_denial:
  assumes "lru_cache (ce_lru env)" "cache_ok cs"
    and "store_peek (ce_lru env) (ca_pcache cs) k = Some old" "too_old cc old now"
    and "store_peek (ce_lru env) (ca_ncache cs) k = Some fresh" "\<not> too_old cc fresh now"
  shows "fst (cache_get env cc now k req cs) = None
    \<and> (\<exists>want. fst (cache_get env cc now k req (cs\<lparr>ca_pcache := store_new (ce_lru env) 1\<rparr>)) = Some (served_msg cc fresh req now, want, remaining fresh now \<le> 0))"
proof
  show "fst (cache_get env cc now k req cs) = None"
    using cache_get_success [OF assms(1-3), of cc now req] assms(4) by simp
  let ?cs = "cs\<lparr>ca_pcache := store_new (ce_lru env) 1\<rparr>"
  have "cache_ok ?cs" "store_peek (ce_lru env) (ca_pcache ?cs) k = None" "store_peek (ce_lru env) (ca_ncache ?cs) k = Some fresh"
    using assms(2,5) lru_cache.store_peek_new [OF assms(1)] by (simp_all add: cache_ok_def) (simp add: store_new_def)
  from cache_get_denial [OF assms(1) this, of cc now req] assms(6)
  show "\<exists>want. fst (cache_get env cc now k req ?cs) = Some (served_msg cc fresh req now, want, remaining fresh now \<le> 0)" by simp
qed

end
