(* ===== verification/Zone.thy ===== *)
theory Zone
  imports Server_Core "HOL-Library.List_Lexorder" "HOL-Library.Char_ord" "HOL-Library.Product_Lexorder"
begin

text \<open>
  The authoritative zone of the \<open>file\<close> plugin, \<open>src/plugins/file/zone.rs\<close>: building a zone from
  records and answering queries from it, with delegations, DNAME and CNAME chains, wildcards and
  denial-of-existence records.

  A \<open>BTreeMap\<close> is an association list sorted by its keys. A \<open>HashMap\<close> is an association list in
  the order of insertion: where the code walks one (an ANY query, \<open>all_records\<close>) the order in the
  model is one of the orders the code may take. \<open>zone_env\<close> holds what the zone takes from
  \<open>hickory_proto\<close>: parsing and ordering names, the NSEC3 hash, decoding a name, printing a record;
  and the self lookup that follows a CNAME out of the zone.

  Shown here: which names exist (\<open>nodes\<close>), that \<open>closest_encloser\<close> is the nearest existing
  ancestor, that a wildcard answers only for names that do not exist, and what \<open>lookup\<close> answers
  on each kind of name.
\<close>

section \<open>Data\<close>

definition DNAME :: rtype where "DNAME = RT_Unknown 39"

record name_data =
  nd_rrsets :: "(rtype \<times> rr list) list"
  nd_rrsigs :: "(rtype \<times> rr list) list"

definition name_data_default :: name_data where
  "name_data_default = \<lparr>nd_rrsets = [], nd_rrsigs = []\<rparr>"

definition nd_has :: "name_data \<Rightarrow> rtype \<Rightarrow> bool" where
  "nd_has nd t = (case map_of (nd_rrsets nd) t of Some v \<Rightarrow> v \<noteq> [] | None \<Rightarrow> False)"

record nsec3_chain =
  n3c_params :: nsec3_params
  n3c_chain :: "(u8 list \<times> string) list"

record zone =
  zn_origin :: string
  zn_origin_name :: dname
  zn_names :: "(string \<times> name_data) list"
  zn_nodes :: "string set"
  zn_nsec_chain :: "dname list"
  zn_nsec3 :: "nsec3_chain option"
  zn_serial :: u32
  zn_signed :: bool
  zn_path :: "string option"

record 's zone_env =
  zv_from_ascii :: "string \<Rightarrow> dname res"
  zv_name_key :: "dname \<Rightarrow> string list"
  zv_nsec3_hash :: "nsec3_params \<Rightarrow> dname \<Rightarrow> u8 list option"
  zv_read_name :: "u8 list \<Rightarrow> dname option"
  zv_show_rr :: "rr \<Rightarrow> string"
  zv_self_lookup :: "request \<Rightarrow> dname \<Rightarrow> rtype \<Rightarrow> 's \<Rightarrow> message res \<times> 's"

text \<open>\<open>entry(k).or_default()\<close> with an update, on a sorted and on an unsorted association list.\<close>

fun upsert_sorted :: "'k::linorder \<Rightarrow> 'v \<Rightarrow> ('v \<Rightarrow> 'v) \<Rightarrow> ('k \<times> 'v) list \<Rightarrow> ('k \<times> 'v) list" where
  "upsert_sorted k d f [] = [(k, f d)]"
| "upsert_sorted k d f ((j, v) # xs) =
     (if k < j then (k, f d) # (j, v) # xs
      else if k = j then (j, f v) # xs
      else (j, v) # upsert_sorted k d f xs)"

fun upsert :: "'k \<Rightarrow> 'v \<Rightarrow> ('v \<Rightarrow> 'v) \<Rightarrow> ('k \<times> 'v) list \<Rightarrow> ('k \<times> 'v) list" where
  "upsert k d f [] = [(k, f d)]"
| "upsert k d f ((j, v) # xs) = (if k = j then (j, f v) # xs else (j, v) # upsert k d f xs)"

section \<open>Small helpers\<close>

definition parent :: "string \<Rightarrow> string" where
  "parent name =
     (case find_char (CHR ''.'') name of
        Some i \<Rightarrow> if i + 1 < length name then drop (i + 1) name else ''.''
      | None \<Rightarrow> ''.'')"

definition wildcard_of :: "string \<Rightarrow> string" where
  "wildcard_of name = (if name = ''.'' then ''*.'' else ''*.'' @ name)"

definition next_closer :: "string \<Rightarrow> string \<Rightarrow> string" where
  "next_closer name ce =
     (let labels = filter (\<lambda>l. l \<noteq> []) (split_char (CHR ''.'') (trim_end_matches (CHR ''.'') name));
          keep = count_labels ce + 1 in
      if keep > length labels then name
      else join_with ''.'' (drop (length labels - keep) labels) @ ''.'')"

definition rename_rrs :: "dname option \<Rightarrow> rr list \<Rightarrow> rr list" where
  "rename_rrs owner rs = (case owner of Some n \<Rightarrow> map (\<lambda>r. r\<lparr>rr_name := n\<rparr>) rs | None \<Rightarrow> rs)"

definition dname_target :: "'s zone_env \<Rightarrow> rr \<Rightarrow> dname option" where
  "dname_target env r =
     (case rr_data r of Some (RD_Unknown code d) \<Rightarrow> if code = 39 then zv_read_name env d else None | _ \<Rightarrow> None)"

text \<open>\<open>base32hex\<close>: five bits per character, an octet whenever eight bits are there.\<close>

definition base32_digit :: "char \<Rightarrow> u32 option" where
  "base32_digit c0 =
     (let c = ascii_upper c0; n = (of_char c :: nat) in
      if 48 \<le> n \<and> n \<le> 57 then Some (of_nat (n - 48))
      else if 65 \<le> n \<and> n \<le> 86 then Some (of_nat (n - 65 + 10))
      else None)"

fun base32_loop :: "u32 \<Rightarrow> nat \<Rightarrow> string \<Rightarrow> u8 list option" where
  "base32_loop acc bits [] = Some []"
| "base32_loop acc bits (c # cs) =
     (case base32_digit c of
        None \<Rightarrow> None
      | Some v \<Rightarrow>
          (let acc1 = push_bit 5 acc OR v; bits1 = bits + 5 in
           if bits1 \<ge> 8 then
             (let b = bits1 - 8 in
              map_option ((#) (ucast (drop_bit b acc1))) (base32_loop (acc1 AND (push_bit b 1 - 1)) b cs))
           else base32_loop acc1 bits1 cs))"

definition base32hex :: "string \<Rightarrow> u8 list option" where
  "base32hex s = base32_loop 0 0 s"

text \<open>\<open>add_authority\<close>: the records, each once by its text.\<close>

fun add_authority_loop :: "(rr \<Rightarrow> string) \<Rightarrow> string set \<Rightarrow> rr list \<Rightarrow> message \<Rightarrow> message" where
  "add_authority_loop sh seen [] m = m"
| "add_authority_loop sh seen (r # rs) m =
     (if sh r \<in> seen then add_authority_loop sh seen rs m
      else add_authority_loop sh (insert (sh r) seen) rs (add_name_server r m))"

definition add_authority :: "(rr \<Rightarrow> string) \<Rightarrow> rr list \<Rightarrow> message \<Rightarrow> message" where
  "add_authority sh rs m = add_authority_loop sh {} rs m"

section \<open>Building a zone\<close>

definition add_record :: "string \<Rightarrow> rr \<Rightarrow> (string \<times> name_data) list \<times> bool \<Rightarrow> (string \<times> name_data) list \<times> bool" where
  "add_record origin r st =
     (case st of (names, sg) \<Rightarrow>
        (let owner = name_str (rr_name r) in
         if \<not> is_subdomain origin owner then (names, sg)
         else (case rr_data r of
             Some (RD_RRSIG covered sig) \<Rightarrow>
               (upsert_sorted owner name_data_default
                  (\<lambda>nd. nd\<lparr>nd_rrsigs := upsert covered [] (\<lambda>v. v @ [r]) (nd_rrsigs nd)\<rparr>) names, True)
           | _ \<Rightarrow>
               (upsert_sorted owner name_data_default
                  (\<lambda>nd. nd\<lparr>nd_rrsets := upsert (rr_type r) []
                     (\<lambda>rs. if list_ex (\<lambda>x. rr_data x = rr_data r) rs then rs else rs @ [r]) (nd_rrsets nd)\<rparr>) names,
                sg))))"

definition first_soa :: "(string \<times> name_data) list \<Rightarrow> string \<Rightarrow> rr option" where
  "first_soa names origin =
     Option.bind (map_of names origin) (\<lambda>nd. Option.bind (map_of (nd_rrsets nd) RT_SOA) first)"

definition soa_serial_of :: "rr \<Rightarrow> u32 option" where
  "soa_serial_of r = (case rr_data r of Some (RD_SOA d) \<Rightarrow> Some (soa_serial d) | _ \<Rightarrow> None)"

lemma parent_shorter: "c \<noteq> ''.'' \<Longrightarrow> parent c = ''.'' \<or> length (parent c) < length c"
  by (auto simp: parent_def split: option.splits dest: find_char_SomeD)

text \<open>\<open>while nodes.insert(n) && n != origin { n = parent(n) }\<close>.\<close>

function add_nodes :: "string \<Rightarrow> string \<Rightarrow> string set \<Rightarrow> string set" where
  "add_nodes origin n nodes =
     (if n \<in> nodes then nodes
      else if n = origin then insert n nodes
      else add_nodes origin (parent n) (insert n nodes))"
  by pat_completeness auto
termination
proof (relation "measure (\<lambda>(orig, n, nodes). 2 * (if n = ''.'' then 0 else Suc (length n)) + (if n \<in> nodes then 0 else 1))", goal_cases)
  case (2 orig n nodes)
  then show ?case using parent_shorter [of n] by (cases "n = ''.''") (auto simp: parent_def)
qed simp

declare add_nodes.simps [simp del]

definition zone_nodes :: "string \<Rightarrow> string list \<Rightarrow> string set" where
  "zone_nodes origin owners = foldl (\<lambda>ns n. add_nodes origin n ns) {} owners"

definition nsec3_chain_entry :: "string \<times> name_data \<Rightarrow> (nsec3_params \<times> (u8 list \<times> string) option) option" where
  "nsec3_chain_entry on =
     (case on of (owner, nd) \<Rightarrow>
        (case Option.bind (map_of (nd_rrsets nd) RT_NSEC3) first of
           None \<Rightarrow> None
         | Some r \<Rightarrow>
             (case rr_data r of
                Some (RD_NSEC3 p _) \<Rightarrow>
                  Some (p, map_option (\<lambda>h. (h, owner)) (base32hex (hd (split_char (CHR ''.'') owner))))
              | _ \<Rightarrow> None)))"

definition nsec3_chain_of :: "string \<Rightarrow> (string \<times> name_data) list \<Rightarrow> nsec3_chain option" where
  "nsec3_chain_of origin names =
     (let param = Option.bind (map_of names origin) (\<lambda>nd. Option.bind (map_of (nd_rrsets nd) RT_NSEC3PARAM)
            (\<lambda>v. Option.bind (first v) (\<lambda>r. case rr_data r of Some (RD_NSEC3PARAM p) \<Rightarrow> Some p | _ \<Rightarrow> None)));
          entries = List.map_filter nsec3_chain_entry names;
          chain = List.map_filter snd entries in
      if chain = [] then None
      else map_option (\<lambda>p. \<lparr>n3c_params = p, n3c_chain = sort_key (\<lambda>(h, o'). (map unat h, o')) chain\<rparr>)
        (case param of Some p \<Rightarrow> Some p | None \<Rightarrow> map_option fst (first entries)))"

definition from_records :: "'s zone_env \<Rightarrow> string \<Rightarrow> rr list \<Rightarrow> zone res" where
  "from_records env origin0 records =
     (let origin = fqdn origin0 in
      case zv_from_ascii env origin of
        Inl e \<Rightarrow> Inl (''bad origin '' @ origin @ '': '' @ e)
      | Inr origin_name \<Rightarrow>
          (case foldl (\<lambda>st r. add_record origin r st) ([], False) records of (names, sg) \<Rightarrow>
             rbind (ok_or (''zone '' @ origin @ '': no SOA record at the apex'')
                      (Option.bind (first_soa names origin) soa_serial_of)) (\<lambda>serial.
             Inr \<lparr>zn_origin = origin, zn_origin_name = origin_name, zn_names = names,
                  zn_nodes = zone_nodes origin (map fst names),
                  zn_nsec_chain = sort_key (zv_name_key env)
                    (List.map_filter (\<lambda>(n, nd). if nd_has nd RT_NSEC then ok (zv_from_ascii env n) else None) names),
                  zn_nsec3 = nsec3_chain_of origin names,
                  zn_serial = serial, zn_signed = sg, zn_path = None\<rparr>)))"

definition zone_soa :: "zone \<Rightarrow> rr option" where
  "zone_soa z = first_soa (zn_names z) (zn_origin z)"

definition all_records :: "zone \<Rightarrow> rr list" where
  "all_records z =
     (case zone_soa z of Some soa \<Rightarrow> [soa] | None \<Rightarrow> []) @
     concat (map (\<lambda>(name, nd).
       concat (map (\<lambda>(t, rs). if t = RT_SOA \<and> name = zn_origin z then [] else rs) (nd_rrsets nd)) @
       concat (map snd (nd_rrsigs nd))) (zn_names z))"

definition zone_len :: "zone \<Rightarrow> nat" where
  "zone_len z = sum_list (map (\<lambda>(n, nd). sum_list (map (\<lambda>(t, v). length v) (nd_rrsets nd))) (zn_names z))"

section \<open>Answering: parts\<close>

definition with_sigs :: "name_data \<Rightarrow> rtype \<Rightarrow> bool \<Rightarrow> rr list" where
  "with_sigs nd t do' =
     (case map_of (nd_rrsets nd) t of
        None \<Rightarrow> []
      | Some rs \<Rightarrow> rs @ (if do' then (case map_of (nd_rrsigs nd) t of Some sigs \<Rightarrow> sigs | None \<Rightarrow> []) else []))"

definition negative_soa :: "zone \<Rightarrow> bool \<Rightarrow> rr list" where
  "negative_soa z do' =
     (case map_of (zn_names z) (zn_origin z) of
        None \<Rightarrow> []
      | Some nd \<Rightarrow>
          (case Option.bind (map_of (nd_rrsets nd) RT_SOA) first of
             None \<Rightarrow> []
           | Some soa \<Rightarrow>
               (case rr_data soa of
                  Some (RD_SOA d) \<Rightarrow> soa\<lparr>rr_ttl := min (rr_ttl soa) (soa_minimum d)\<rparr>
                | _ \<Rightarrow> soa) #
               (if do' then (case map_of (nd_rrsigs nd) RT_SOA of Some sigs \<Rightarrow> sigs | None \<Rightarrow> []) else [])))"

text \<open>\<open>binary_search\<close> on a sorted vector: \<open>Inr\<close> the place of the element, \<open>Inl\<close> where it would go.\<close>

definition search_sorted :: "'a::linorder list \<Rightarrow> 'a \<Rightarrow> nat + nat" where
  "search_sorted xs x =
     (let i = length (takeWhile (\<lambda>y. y < x) xs) in if i < length xs \<and> xs ! i = x then Inr i else Inl i)"

definition cover_index :: "'a::linorder list \<Rightarrow> 'a \<Rightarrow> nat" where
  "cover_index xs x =
     (case search_sorted xs x of
        Inr i \<Rightarrow> i
      | Inl i \<Rightarrow> if i = 0 then length xs - 1 else i - 1)"

definition nsec_for :: "'s zone_env \<Rightarrow> zone \<Rightarrow> dname \<Rightarrow> rr list" where
  "nsec_for env z name =
     (if zn_nsec_chain z = [] then []
      else (let idx = cover_index (map (zv_name_key env) (zn_nsec_chain z)) (zv_name_key env name) in
        case map_of (zn_names z) (name_str (zn_nsec_chain z ! idx)) of
          Some nd \<Rightarrow> with_sigs nd RT_NSEC True | None \<Rightarrow> []))"

definition glue_target :: "rr \<Rightarrow> dname option" where
  "glue_target r =
     (case rr_data r of
        Some (RD_NS n) \<Rightarrow> Some n | Some (RD_SRV _ _ _ n) \<Rightarrow> Some n | Some (RD_MX _ n) \<Rightarrow> Some n | _ \<Rightarrow> None)"

definition additional :: "zone \<Rightarrow> rr list \<Rightarrow> bool \<Rightarrow> rr list" where
  "additional z rs do' =
     concat (map (\<lambda>r. case glue_target r of
         None \<Rightarrow> []
       | Some t \<Rightarrow> (case map_of (zn_names z) (name_str t) of
             Some nd \<Rightarrow> with_sigs nd RT_A do' @ with_sigs nd RT_AAAA do' | None \<Rightarrow> [])) rs)"

text \<open>The names between the zone and \<open>rel\<close>, from the apex side down, from label \<open>lo\<close> on.\<close>

definition ancestors_down :: "string \<Rightarrow> string \<Rightarrow> nat \<Rightarrow> string list" where
  "ancestors_down origin rel lo =
     (let labels = split_char (CHR ''.'') rel in
      map (\<lambda>i. join (drop i labels) origin) (rev [lo..<length labels]))"

definition apex_has_dname :: "zone \<Rightarrow> bool" where
  "apex_has_dname z = (case map_of (zn_names z) (zn_origin z) of Some nd \<Rightarrow> nd_has nd DNAME | None \<Rightarrow> False)"

fun delegation_loop :: "zone \<Rightarrow> string \<Rightarrow> rtype \<Rightarrow> string list \<Rightarrow> (string \<times> name_data) option" where
  "delegation_loop z qn qt [] = None"
| "delegation_loop z qn qt (c # cs) =
     (case map_of (zn_names z) c of
        None \<Rightarrow> delegation_loop z qn qt cs
      | Some nd \<Rightarrow>
          if nd_has nd RT_NS then (if c = qn \<and> qt = RT_DS then None else Some (c, nd))
          else if c \<noteq> qn \<and> nd_has nd DNAME then None
          else delegation_loop z qn qt cs)"

definition delegation :: "zone \<Rightarrow> string \<Rightarrow> rtype \<Rightarrow> (string \<times> name_data) option" where
  "delegation z qn qt =
     (case trim_zone qn (zn_origin z) of
        None \<Rightarrow> None
      | Some rel \<Rightarrow>
          if rel = [] then None
          else if apex_has_dname z then None
          else delegation_loop z qn qt (ancestors_down (zn_origin z) rel 0))"

fun dname_loop :: "zone \<Rightarrow> string list \<Rightarrow> (string \<times> name_data) option" where
  "dname_loop z [] = None"
| "dname_loop z (c # cs) =
     (case map_of (zn_names z) c of
        Some nd \<Rightarrow> if nd_has nd DNAME then Some (c, nd) else dname_loop z cs
      | None \<Rightarrow> dname_loop z cs)"

definition dname_for :: "zone \<Rightarrow> string \<Rightarrow> (string \<times> name_data) option" where
  "dname_for z name =
     (case trim_zone name (zn_origin z) of
        None \<Rightarrow> None
      | Some rel \<Rightarrow>
          if rel = [] then None
          else (case map_of (zn_names z) (zn_origin z) of
              Some nd \<Rightarrow> if nd_has nd DNAME then Some (zn_origin z, nd)
                         else dname_loop z (ancestors_down (zn_origin z) rel 1)
            | None \<Rightarrow> dname_loop z (ancestors_down (zn_origin z) rel 1)))"

function closest_encloser_loop :: "zone \<Rightarrow> string \<Rightarrow> string" where
  "closest_encloser_loop z n =
     (if n \<noteq> zn_origin z \<and> n \<noteq> ''.'' then
        (let p = parent n in if p \<in> zn_nodes z then p else closest_encloser_loop z p)
      else zn_origin z)"
  by pat_completeness auto
termination
  by (relation "measure (\<lambda>(z, n). if n = ''.'' then 0 else Suc (length n))") (use parent_shorter in auto)

declare closest_encloser_loop.simps [simp del]

definition closest_encloser :: "zone \<Rightarrow> string \<Rightarrow> string" where
  "closest_encloser z name = closest_encloser_loop z name"

definition wildcard_for :: "zone \<Rightarrow> string \<Rightarrow> (string \<times> name_data) option" where
  "wildcard_for z name =
     (if name \<in> zn_nodes z \<or> \<not> is_subdomain (zn_origin z) name then None
      else (let ce = closest_encloser z name in
        map_option (\<lambda>nd. (ce, nd)) (map_of (zn_names z) (wildcard_of ce))))"

section \<open>Denial of existence\<close>

definition nsec3_hash :: "'s zone_env \<Rightarrow> zone \<Rightarrow> string \<Rightarrow> u8 list option" where
  "nsec3_hash env z name =
     Option.bind (zn_nsec3 z) (\<lambda>c. Option.bind (ok (zv_from_ascii env name)) (\<lambda>n. zv_nsec3_hash env (n3c_params c) n))"

abbreviation "hash_keys c \<equiv> map (\<lambda>p. map unat (fst p)) (n3c_chain c)"

definition nsec3_hash_exists :: "'s zone_env \<Rightarrow> zone \<Rightarrow> string \<Rightarrow> bool" where
  "nsec3_hash_exists env z name =
     (case (zn_nsec3 z, nsec3_hash env z name) of
        (Some c, Some h) \<Rightarrow> is_ok (search_sorted (hash_keys c) (map unat h)) | _ \<Rightarrow> False)"

definition nsec3_push :: "zone \<Rightarrow> string \<Rightarrow> rr list" where
  "nsec3_push z owner = (case map_of (zn_names z) owner of Some nd \<Rightarrow> with_sigs nd RT_NSEC3 True | None \<Rightarrow> [])"

definition nsec3_match :: "'s zone_env \<Rightarrow> zone \<Rightarrow> string \<Rightarrow> bool \<times> rr list" where
  "nsec3_match env z name =
     (case (zn_nsec3 z, nsec3_hash env z name) of
        (Some c, Some h) \<Rightarrow>
          (case search_sorted (hash_keys c) (map unat h) of
             Inr i \<Rightarrow> (True, nsec3_push z (snd (n3c_chain c ! i))) | Inl _ \<Rightarrow> (False, []))
      | _ \<Rightarrow> (False, []))"

definition nsec3_cover :: "'s zone_env \<Rightarrow> zone \<Rightarrow> string \<Rightarrow> rr list" where
  "nsec3_cover env z name =
     (case (zn_nsec3 z, nsec3_hash env z name) of
        (Some c, Some h) \<Rightarrow>
          if n3c_chain c = [] then []
          else nsec3_push z (snd (n3c_chain c ! cover_index (hash_keys c) (map unat h)))
      | _ \<Rightarrow> [])"

definition nsec_name :: "'s zone_env \<Rightarrow> zone \<Rightarrow> string \<Rightarrow> rr list" where
  "nsec_name env z name = (case zv_from_ascii env name of Inr n \<Rightarrow> nsec_for env z n | Inl _ \<Rightarrow> [])"

definition prove_nxdomain :: "'s zone_env \<Rightarrow> zone \<Rightarrow> string \<Rightarrow> string \<Rightarrow> rr list" where
  "prove_nxdomain env z name ce =
     (if zn_nsec3 z \<noteq> None
      then snd (nsec3_match env z ce) @ nsec3_cover env z (next_closer name ce) @ nsec3_cover env z (wildcard_of ce)
      else nsec_name env z name @ nsec_name env z (wildcard_of ce))"

function provable_encloser :: "'s zone_env \<Rightarrow> zone \<Rightarrow> string \<Rightarrow> string" where
  "provable_encloser env z ce =
     (if ce \<noteq> zn_origin z \<and> ce \<noteq> ''.'' \<and> \<not> nsec3_hash_exists env z ce
      then provable_encloser env z (parent ce) else ce)"
  by pat_completeness auto
termination
  by (relation "measure (\<lambda>(e, z, n). if n = ''.'' then 0 else Suc (length n))") (use parent_shorter in auto)

declare provable_encloser.simps [simp del]

definition prove_nodata :: "'s zone_env \<Rightarrow> zone \<Rightarrow> string \<Rightarrow> rr list" where
  "prove_nodata env z name =
     (if zn_nsec3 z \<noteq> None then
        (case nsec3_match env z name of
           (True, rs) \<Rightarrow> rs
         | (False, _) \<Rightarrow>
             (let ce = provable_encloser env z (parent name) in
              snd (nsec3_match env z ce) @ nsec3_cover env z (next_closer name ce)))
      else nsec_name env z name)"

definition prove_wildcard_answer :: "'s zone_env \<Rightarrow> zone \<Rightarrow> string \<Rightarrow> string \<Rightarrow> rr list" where
  "prove_wildcard_answer env z name ce =
     (if zn_nsec3 z \<noteq> None then nsec3_cover env z (next_closer name ce) else nsec_name env z name)"

definition prove_wildcard_nodata :: "'s zone_env \<Rightarrow> zone \<Rightarrow> string \<Rightarrow> string \<Rightarrow> rr list" where
  "prove_wildcard_nodata env z name ce =
     (if zn_nsec3 z \<noteq> None
      then snd (nsec3_match env z ce) @ nsec3_cover env z (next_closer name ce) @ snd (nsec3_match env z (wildcard_of ce))
      else nsec_name env z name @ nsec_name env z (wildcard_of ce))"

section \<open>Answering\<close>

definition add_answers :: "rr list \<Rightarrow> message \<Rightarrow> message" where
  "add_answers rs m = foldl (\<lambda>m r. add_answer r m) m rs"

definition add_name_servers :: "rr list \<Rightarrow> message \<Rightarrow> message" where
  "add_name_servers rs m = foldl (\<lambda>m r. add_name_server r m) m rs"

definition add_additionals :: "rr list \<Rightarrow> message \<Rightarrow> message" where
  "add_additionals rs m = foldl (\<lambda>m r. add_additional r m) m rs"

definition auth_reply :: "request \<Rightarrow> message" where
  "auth_reply req = (new_reply req)\<lparr>m_authoritative := True\<rparr>"

definition negative :: "'s zone_env \<Rightarrow> zone \<Rightarrow> request \<Rightarrow> string \<Rightarrow> bool \<Rightarrow> message" where
  "negative env z req name do' =
     (let ent = (name \<in> zn_nodes z);
          m0 = (if \<not> ent then (auth_reply req)\<lparr>m_rcode := NXDomain\<rparr> else auth_reply req);
          m1 = add_name_servers (negative_soa z do') m0
      in if do' then add_authority (zv_show_rr env)
             (if ent then prove_nodata env z name else prove_nxdomain env z name (closest_encloser z name)) m1
         else m1)"

definition referral :: "'s zone_env \<Rightarrow> zone \<Rightarrow> request \<Rightarrow> string \<Rightarrow> name_data \<Rightarrow> bool \<Rightarrow> message" where
  "referral env z req dname nd do' =
     (let ns = with_sigs nd RT_NS False @
            (if do' then (if nd_has nd RT_DS then with_sigs nd RT_DS True else prove_nodata env z dname) else []);
          m = (auth_reply req)\<lparr>m_authoritative := False\<rparr>
      in add_additionals (additional z ns do') (add_name_servers ns m))"

definition find_map :: "('a \<Rightarrow> 'b option) \<Rightarrow> 'a list \<Rightarrow> 'b option" where
  "find_map f xs = first (List.map_filter f xs)"

datatype hop_result =
    HReturn message
  | HBreak "rr list" "(string \<times> string) option"
  | HFollow string "rr list" "(string \<times> string) option"
  | HNone

text \<open>DNAME substitution for the current name.\<close>

definition dname_hop :: "'s zone_env \<Rightarrow> zone \<Rightarrow> message \<Rightarrow> bool \<Rightarrow> rtype \<Rightarrow> string \<Rightarrow> rr list
    \<Rightarrow> (string \<times> string) option \<Rightarrow> hop_result" where
  "dname_hop env z m do' qt cur answers syn =
     (case dname_for z cur of
        None \<Rightarrow> HNone
      | Some (downer, dnd) \<Rightarrow>
          (let dn = with_sigs dnd DNAME do' in
           case find_map (\<lambda>r. map_option (\<lambda>t. (name_str t, rr_ttl r)) (dname_target env r)) dn of
             None \<Rightarrow> HBreak answers syn
           | Some (dtarget, ttl) \<Rightarrow>
               (let answers1 = answers @ dn;
                    pre = take (length cur - (if downer = ''.'' then 0 else length downer)) cur;
                    new = (if dtarget = ''.'' then pre else pre @ dtarget) in
                case (if length new + 1 > 255 then None else ok (zv_from_ascii env new)) of
                  None \<Rightarrow> HReturn (add_answers answers1 (m\<lparr>m_rcode := YXDomain\<rparr>))
                | Some new_name \<Rightarrow>
                    (let answers2 = (case zv_from_ascii env cur of
                           Inr owner \<Rightarrow> answers1 @ [from_rdata owner ttl (RD_CNAME new_name)]
                         | Inl _ \<Rightarrow> answers1) in
                     if qt = RT_CNAME then HBreak answers2 syn else HFollow new answers2 syn))))"

definition cname_target :: "rr \<Rightarrow> string option" where
  "cname_target r = (case rr_data r of Some (RD_CNAME c) \<Rightarrow> Some (name_str c) | _ \<Rightarrow> None)"

definition nodata :: "'s zone_env \<Rightarrow> zone \<Rightarrow> message \<Rightarrow> bool \<Rightarrow> string \<Rightarrow> (string \<times> string) option \<Rightarrow> message" where
  "nodata env z m do' cur syn =
     (let m1 = add_name_servers (negative_soa z do') m in
      if do' then add_authority (zv_show_rr env)
          (case syn of Some (n, ce) \<Rightarrow> prove_wildcard_nodata env z n ce | None \<Rightarrow> prove_nodata env z cur) m1
      else m1)"

text \<open>The data of the current name, or of the wildcard that stands for it.\<close>

definition name_hop :: "'s zone_env \<Rightarrow> zone \<Rightarrow> request \<Rightarrow> message \<Rightarrow> bool \<Rightarrow> rtype \<Rightarrow> string \<Rightarrow> rr list
    \<Rightarrow> (string \<times> string) option \<Rightarrow> hop_result" where
  "name_hop env z req m do' qt cur answers syn0 =
     (case (case map_of (zn_names z) cur of
              Some nd \<Rightarrow> Some (nd, False, syn0)
            | None \<Rightarrow> map_option (\<lambda>(ce, nd). (nd, True, Some (cur, ce))) (wildcard_for z cur)) of
        None \<Rightarrow> if answers = [] then HReturn (negative env z req cur do') else HBreak answers syn0
      | Some (nd, wildcard, syn) \<Rightarrow>
          (let owner = (if wildcard then Some (case zv_from_ascii env cur of Inr n \<Rightarrow> n | Inl _ \<Rightarrow> ''.'') else None) in
           if qt \<noteq> RT_CNAME \<and> nd_has nd RT_CNAME then
             (let cn = rename_rrs owner (with_sigs nd RT_CNAME do') in
              case find_map cname_target cn of
                None \<Rightarrow> HBreak (answers @ cn) syn
              | Some t \<Rightarrow> HFollow t (answers @ cn) syn)
           else
             (let found = (if qt = RT_ANY then concat (map (\<lambda>p. with_sigs nd (fst p) do') (nd_rrsets nd))
                           else with_sigs nd qt do') in
              if found = [] \<and> answers = [] then HReturn (nodata env z m do' cur syn)
              else HBreak (answers @ rename_rrs owner found) syn)))"

definition one_hop :: "'s zone_env \<Rightarrow> zone \<Rightarrow> request \<Rightarrow> message \<Rightarrow> bool \<Rightarrow> rtype \<Rightarrow> string \<Rightarrow> rr list
    \<Rightarrow> (string \<times> string) option \<Rightarrow> hop_result" where
  "one_hop env z req m do' qt cur answers syn =
     (case dname_hop env z m do' qt cur answers syn of
        HNone \<Rightarrow> name_hop env z req m do' qt cur answers syn
      | h \<Rightarrow> h)"

definition finish_lookup :: "'s zone_env \<Rightarrow> zone \<Rightarrow> message \<Rightarrow> bool \<Rightarrow> rr list \<Rightarrow> (string \<times> string) option \<Rightarrow> message" where
  "finish_lookup env z m do' answers syn =
     (let m1 = (case syn of
            Some (n, ce) \<Rightarrow> if do' then add_authority (zv_show_rr env) (prove_wildcard_answer env z n ce) m else m
          | None \<Rightarrow> m)
      in add_additionals (additional z answers do') (add_answers answers m1))"

text \<open>The loop: at most eight hops.\<close>

fun hops_loop :: "'s zone_env \<Rightarrow> zone \<Rightarrow> request \<Rightarrow> bool \<Rightarrow> message \<Rightarrow> bool \<Rightarrow> rtype \<Rightarrow> nat \<Rightarrow> string \<Rightarrow> rr list
    \<Rightarrow> (string \<times> string) option \<Rightarrow> 's \<Rightarrow> message \<times> 's" where
  "hops_loop env z req chase m do' qt 0 cur answers syn s = (finish_lookup env z m do' answers syn, s)"
| "hops_loop env z req chase m do' qt (Suc n) cur answers syn s =
     (case one_hop env z req m do' qt cur answers syn of
        HReturn r \<Rightarrow> (r, s)
      | HBreak answers1 syn1 \<Rightarrow> (finish_lookup env z m do' answers1 syn1, s)
      | HNone \<Rightarrow> (finish_lookup env z m do' answers syn, s)
      | HFollow t answers1 syn1 \<Rightarrow>
          if is_subdomain (zn_origin z) t then hops_loop env z req chase m do' qt n t answers1 syn1 s
          else if chase then
            (case zv_from_ascii env t of
               Inl _ \<Rightarrow> (finish_lookup env z m do' answers1 syn1, s)
             | Inr tn \<Rightarrow>
                 (case zv_self_lookup env req tn qt s of
                    (Inr r, s1) \<Rightarrow> (finish_lookup env z m do' (answers1 @ m_answers r) syn1, s1)
                  | (Inl _, s1) \<Rightarrow> (finish_lookup env z m do' answers1 syn1, s1)))
          else (finish_lookup env z m do' answers1 syn1, s))"

definition zone_lookup :: "'s zone_env \<Rightarrow> zone \<Rightarrow> request \<Rightarrow> bool \<Rightarrow> 's \<Rightarrow> message \<times> 's" where
  "zone_lookup env z req chase s =
     (let do' = do_bit req; qn = name_uncached req; qt = qtype req in
      case delegation z qn qt of
        Some (dname, nd) \<Rightarrow> (referral env z req dname nd do', s)
      | None \<Rightarrow> hops_loop env z req chase (auth_reply req) do' qt 8 qn [] None s)"

section \<open>Names that exist\<close>

lemma parent_fq: "list_all label_ok (l # ls) \<Longrightarrow> parent (fq (l # ls)) = fq ls"
  by (auto simp: parent_def fq_def label_ok_def)

interpretation zone_walk: label_walk parent
  by unfold_locales (simp_all only: parent_fq, simp add: parent_def)

text \<open>The ancestors of a name down to the apex \<open>os\<close>, the name itself included.\<close>

definition between :: "string list \<Rightarrow> string list \<Rightarrow> string set" where
  "between os ns = {fq zs | zs. suffix zs ns \<and> suffix os zs}"

definition closed_upto :: "nat \<Rightarrow> string list \<Rightarrow> string set \<Rightarrow> bool" where
  "closed_upto k os nodes \<longleftrightarrow> (\<forall>zs. list_all label_ok zs \<longrightarrow> suffix os zs \<longrightarrow> length zs \<le> k \<longrightarrow>
     fq zs \<in> nodes \<longrightarrow> between os zs \<subseteq> nodes)"

definition up_closed :: "string list \<Rightarrow> string set \<Rightarrow> bool" where
  "up_closed os nodes \<longleftrightarrow> (\<forall>k. closed_upto k os nodes)"

lemma labels_suffix: "list_all label_ok ns \<Longrightarrow> suffix zs ns \<Longrightarrow> list_all label_ok zs"
  by (auto simp: suffix_def)

lemma between_Cons: "suffix os ns \<Longrightarrow> between os (n # ns) = insert (fq (n # ns)) (between os ns)"
  by (auto simp: between_def suffix_Cons)

lemma between_self: "between os os = {fq os}"
  by (auto simp: between_def dest: suffix_order.antisym)

lemma up_closed_Un_between:
  assumes "up_closed os nodes" "list_all label_ok ns"
  shows "up_closed os (nodes \<union> between os ns)"
  unfolding up_closed_def closed_upto_def
proof (intro allI impI)
  fix k zs assume z: "list_all label_ok zs" "suffix os zs" "fq zs \<in> nodes \<union> between os ns"
  show "between os zs \<subseteq> nodes \<union> between os ns"
  proof (cases "fq zs \<in> nodes")
    case True
    with assms(1) z show ?thesis by (auto simp: up_closed_def closed_upto_def)
  next
    case False
    with z obtain ys where ys: "fq zs = fq ys" "suffix ys ns" by (auto simp: between_def)
    with fq_inj [OF z(1) labels_suffix [OF assms(2) ys(2)]] have "suffix zs ns" by simp
    then show ?thesis by (auto simp: between_def intro: suffix_order.trans)
  qed
qed

lemma closed_upto_insert:
  assumes "closed_upto (Suc k) os nodes" "list_all label_ok ns" "length ns = Suc k"
  shows "closed_upto k os (insert (fq ns) nodes)"
  unfolding closed_upto_def
proof (intro allI impI)
  fix zs assume z: "list_all label_ok zs" "suffix os zs" "length zs \<le> k" "fq zs \<in> insert (fq ns) nodes"
  have "fq zs \<noteq> fq ns" using fq_inj [OF z(1) assms(2)] z(3) assms(3) by auto
  then have "fq zs \<in> nodes" using z(4) by simp
  with assms(1) z show "between os zs \<subseteq> insert (fq ns) nodes" by (auto simp: closed_upto_def)
qed

lemma add_nodes_between:
  assumes "list_all label_ok ns" "suffix os ns" "closed_upto (length ns) os nodes"
  shows "add_nodes (fq os) (fq ns) nodes = nodes \<union> between os ns"
  using assms
proof (induction ns arbitrary: nodes)
  case Nil
  then have "os = []" by simp
  then show ?case using between_self [of "[]"] by (auto simp: add_nodes.simps [of _ "fq []"])
next
  case (Cons n ns)
  show ?case
  proof (cases "fq (n # ns) \<in> nodes")
    case True
    with Cons.prems have "between os (n # ns) \<subseteq> nodes" unfolding closed_upto_def by blast
    with True show ?thesis by (auto simp: add_nodes.simps [of _ "fq (n # ns)"])
  next
    case False
    show ?thesis
    proof (cases "n # ns = os")
      case True
      with False between_self [of os] show ?thesis by (auto simp: add_nodes.simps [of _ "fq os"])
    next
      case os: False
      with Cons.prems(2) have suf: "suffix os ns" by (auto simp: suffix_Cons)
      have lo: "list_all label_ok os" using Cons.prems(1,2) labels_suffix by blast
      have ne: "fq (n # ns) \<noteq> fq os" using fq_inj [OF Cons.prems(1) lo] os by blast
      have cl: "closed_upto (length ns) os (insert (fq (n # ns)) nodes)"
        by (rule closed_upto_insert) (use Cons.prems in simp_all)
      have "add_nodes (fq os) (fq ns) (insert (fq (n # ns)) nodes) = insert (fq (n # ns)) nodes \<union> between os ns"
        by (rule Cons.IH) (use Cons.prems(1) suf cl in simp_all)
      with False ne parent_fq [OF Cons.prems(1)] between_Cons [OF suf, of n] show ?thesis
        by (simp add: add_nodes.simps [of _ "fq (n # ns)"])
    qed
  qed
qed

text \<open>\<open>nodes\<close> holds the owners and their ancestors up to the apex, and nothing else.\<close>

lemma zone_nodes_spec:
  assumes "\<forall>ns \<in> set nss. list_all label_ok ns \<and> suffix os ns"
  shows "zone_nodes (fq os) (map fq nss) = (\<Union>ns \<in> set nss. between os ns)"
proof -
  have "foldl (\<lambda>ns n. add_nodes (fq os) n ns) nodes (map fq nss) = nodes \<union> (\<Union>ns \<in> set nss. between os ns)"
    if "up_closed os nodes" for nodes
    using that assms
  proof (induction nss arbitrary: nodes)
    case (Cons ns nss)
    have step: "add_nodes (fq os) (fq ns) nodes = nodes \<union> between os ns"
      by (rule add_nodes_between) (use Cons.prems in \<open>simp_all add: up_closed_def\<close>)
    have "up_closed os (nodes \<union> between os ns)"
      by (rule up_closed_Un_between) (use Cons.prems in simp_all)
    from Cons.IH [OF this] Cons.prems(2) show ?case by (auto simp: step)
  qed simp
  from this [of "{}"] show ?thesis by (simp add: zone_nodes_def up_closed_def closed_upto_def)
qed

section \<open>The closest encloser\<close>

lemma closest_encloser_loop_spec:
  assumes "list_all label_ok ns" "suffix os ns" "ns \<noteq> os" "zn_origin z = fq os" "fq os \<in> zn_nodes z"
  shows "\<exists>ce. closest_encloser_loop z (fq ns) = fq ce \<and> fq ce \<in> zn_nodes z \<and> suffix os ce \<and> suffix ce ns \<and> ce \<noteq> ns
    \<and> (\<forall>ys. suffix os ys \<and> suffix ys ns \<and> ys \<noteq> ns \<and> fq ys \<in> zn_nodes z \<longrightarrow> suffix ys ce)"
  using assms(1-3)
proof (induction ns)
  case (Cons n ns)
  from Cons.prems have suf: "suffix os ns" by (auto simp: suffix_Cons)
  have lo: "list_all label_ok os" using Cons.prems(1,2) labels_suffix by blast
  have ne: "fq (n # ns) \<noteq> fq os" using fq_inj [OF Cons.prems(1) lo] Cons.prems(3) by blast
  have step: "closest_encloser_loop z (fq (n # ns)) =
      (if fq ns \<in> zn_nodes z then fq ns else closest_encloser_loop z (fq ns))"
    using ne Cons.prems(1) parent_fq [OF Cons.prems(1)]
    by (subst closest_encloser_loop.simps) (simp add: assms(4))
  show ?case
  proof (cases "fq ns \<in> zn_nodes z")
    case True
    with step suf show ?thesis
      by (intro exI [of _ ns]) (auto simp: suffix_Cons dest: suffix_order.antisym)
  next
    case False
    then have "ns \<noteq> os" using assms(5) by auto
    with Cons.IH Cons.prems(1) suf obtain ce where ce: "closest_encloser_loop z (fq ns) = fq ce"
      "fq ce \<in> zn_nodes z" "suffix os ce" "suffix ce ns" "ce \<noteq> ns"
      "\<forall>ys. suffix os ys \<and> suffix ys ns \<and> ys \<noteq> ns \<and> fq ys \<in> zn_nodes z \<longrightarrow> suffix ys ce" by auto
    have "ce \<noteq> n # ns" using ce(4) suffix_length_le by fastforce
    moreover have "\<forall>ys. suffix os ys \<and> suffix ys (n # ns) \<and> ys \<noteq> n # ns \<and> fq ys \<in> zn_nodes z \<longrightarrow> suffix ys ce"
      using ce(6) False by (auto simp: suffix_Cons)
    ultimately show ?thesis using ce step False
      by (intro exI [of _ ce]) (auto simp: suffix_Cons)
  qed
qed simp

section \<open>What a zone holds\<close>

lemma map_of_upsert: "map_of (upsert k d f xs) = (map_of xs)(k \<mapsto> f (unwrap_or d (map_of xs k)))"
  by (induction xs) (auto simp: fun_eq_iff)

abbreviation "sorted_keys xs \<equiv> sorted_wrt (<) (map fst xs)"

lemma upsert_sorted_keys: "fst ` set (upsert_sorted k d f xs) = insert k (fst ` set xs)"
  by (induction k d f xs rule: upsert_sorted.induct) auto

lemma map_of_upsert_sorted:
  assumes "sorted_keys xs"
  shows "map_of (upsert_sorted k d f xs) = (map_of xs)(k \<mapsto> f (unwrap_or d (map_of xs k)))"
  using assms
proof (induction k d f xs rule: upsert_sorted.induct)
  case (2 k d f j v xs)
  have "map_of xs k = None" if "k < j"
    using "2.prems" that by (auto simp: map_of_eq_None_iff dest!: bspec [where x = k])
  then show ?case using 2 by (auto simp: fun_eq_iff)
qed (simp add: fun_eq_iff)

lemma sorted_keys_upsert: "sorted_keys xs \<Longrightarrow> sorted_keys (upsert_sorted k d f xs)"
proof (induction k d f xs rule: upsert_sorted.induct)
  case (2 k d f j v xs)
  have "fst ` set (upsert_sorted k d f xs) = insert k (fst ` set xs)" by (rule upsert_sorted_keys)
  with 2 show ?case by (fastforce simp: image_iff)
qed simp

text \<open>The records of a type at a name.\<close>

definition rrset_at :: "(string \<times> name_data) list \<Rightarrow> string \<Rightarrow> rtype \<Rightarrow> rr list" where
  "rrset_at names owner t =
     (case map_of names owner of None \<Rightarrow> [] | Some nd \<Rightarrow> unwrap_or [] (map_of (nd_rrsets nd) t))"

definition is_rrsig :: "rr \<Rightarrow> bool" where
  "is_rrsig r \<longleftrightarrow> (case rr_data r of Some (RD_RRSIG _ _) \<Rightarrow> True | _ \<Rightarrow> False)"

lemma add_record_shape:
  "add_record origin r (names, sg) =
     (if \<not> is_subdomain origin (name_str (rr_name r)) then (names, sg)
      else if is_rrsig r then
        (upsert_sorted (name_str (rr_name r)) name_data_default
          (\<lambda>nd. nd\<lparr>nd_rrsigs := upsert (case rr_data r of Some (RD_RRSIG c _) \<Rightarrow> c | _ \<Rightarrow> RT_ZERO) [] (\<lambda>v. v @ [r]) (nd_rrsigs nd)\<rparr>) names, True)
      else
        (upsert_sorted (name_str (rr_name r)) name_data_default
          (\<lambda>nd. nd\<lparr>nd_rrsets := upsert (rr_type r) []
             (\<lambda>rs. if list_ex (\<lambda>x. rr_data x = rr_data r) rs then rs else rs @ [r]) (nd_rrsets nd)\<rparr>) names, sg))"
  by (auto simp: add_record_def Let_def is_rrsig_def split: option.splits rdata.splits)

lemma add_record_sorted: "sorted_keys names \<Longrightarrow> sorted_keys (fst (add_record origin r (names, sg)))"
  by (simp add: add_record_shape sorted_keys_upsert)

lemma add_record_keys: "fst ` set (fst (add_record origin r (names, sg))) =
    fst ` set names \<union> (if is_subdomain origin (name_str (rr_name r)) then {name_str (rr_name r)} else {})"
  by (simp add: add_record_shape upsert_sorted_keys)

definition add_rr :: "rr \<Rightarrow> rr list \<Rightarrow> rr list" where
  "add_rr r rs = (if list_ex (\<lambda>x. rr_data x = rr_data r) rs then rs else rs @ [r])"

lemma add_rr_data: "rr_data ` set (add_rr r rs) = insert (rr_data r) (rr_data ` set rs)"
  by (auto simp: add_rr_def list_ex_iff) (metis imageI)

lemma rrset_at_add_record:
  assumes "sorted_keys names"
  shows "rrset_at (fst (add_record origin r (names, sg))) owner t =
    (if is_subdomain origin owner \<and> name_str (rr_name r) = owner \<and> rr_type r = t \<and> \<not> is_rrsig r
     then add_rr r (rrset_at names owner t) else rrset_at names owner t)"
  using assms
  by (auto simp: add_record_shape rrset_at_def map_of_upsert_sorted map_of_upsert name_data_default_def
      add_rr_def unwrap_or_def split: option.splits)

lemma add_record_rrset:
  assumes "sorted_keys names"
  shows "rr_data ` set (rrset_at (fst (add_record origin r (names, sg))) owner t) =
    rr_data ` set (rrset_at names owner t) \<union>
    (if is_subdomain origin owner \<and> name_str (rr_name r) = owner \<and> rr_type r = t \<and> \<not> is_rrsig r then {rr_data r} else {})"
  by (simp add: rrset_at_add_record [OF assms] add_rr_data)

lemma add_records:
  assumes "sorted_keys names"
  shows "sorted_keys (fst (foldl (\<lambda>st r. add_record origin r st) (names, sg) rs)) \<and>
    fst ` set (fst (foldl (\<lambda>st r. add_record origin r st) (names, sg) rs)) =
      fst ` set names \<union> {name_str (rr_name r) | r. r \<in> set rs \<and> is_subdomain origin (name_str (rr_name r))} \<and>
    rr_data ` set (rrset_at (fst (foldl (\<lambda>st r. add_record origin r st) (names, sg) rs)) owner t) =
      rr_data ` set (rrset_at names owner t) \<union>
      {rr_data r | r. r \<in> set rs \<and> is_subdomain origin owner \<and> name_str (rr_name r) = owner \<and> rr_type r = t \<and> \<not> is_rrsig r}"
  using assms
proof (induction rs arbitrary: names sg)
  case (Cons r rs)
  obtain names' sg' where st: "add_record origin r (names, sg) = (names', sg')" by (metis prod.exhaust)
  have s: "sorted_keys names'" using add_record_sorted [OF Cons.prems, of origin r sg] st by simp
  have k: "fst ` set names' = fst ` set names \<union> (if is_subdomain origin (name_str (rr_name r)) then {name_str (rr_name r)} else {})"
    using add_record_keys [of origin r names sg] st by simp
  have d: "rr_data ` set (rrset_at names' owner t) = rr_data ` set (rrset_at names owner t) \<union>
    (if is_subdomain origin owner \<and> name_str (rr_name r) = owner \<and> rr_type r = t \<and> \<not> is_rrsig r then {rr_data r} else {})"
    using add_record_rrset [OF Cons.prems, of origin r sg owner t] st by simp
  note IH = Cons.IH [OF s, of sg']
  show ?case
    unfolding foldl_Cons st
  proof (intro conjI)
    show "fst ` set (fst (foldl (\<lambda>st r. add_record origin r st) (names', sg') rs)) = fst ` set names \<union>
        {name_str (rr_name x) | x. x \<in> set (r # rs) \<and> is_subdomain origin (name_str (rr_name x))}"
      using IH k by auto
    show "rr_data ` set (rrset_at (fst (foldl (\<lambda>st r. add_record origin r st) (names', sg') rs)) owner t) =
        rr_data ` set (rrset_at names owner t) \<union>
        {rr_data x | x. x \<in> set (r # rs) \<and> is_subdomain origin owner \<and> name_str (rr_name x) = owner \<and> rr_type x = t \<and> \<not> is_rrsig x}"
      unfolding IH [THEN conjunct2, THEN conjunct2] d by auto
  qed (rule IH [THEN conjunct1])
qed auto

lemma from_records_parts:
  assumes "from_records env origin recs = Inr z"
  shows "zn_origin z = fqdn origin" "zn_names z = fst (foldl (\<lambda>st r. add_record (fqdn origin) r st) ([], False) recs)"
    "zn_nodes z = zone_nodes (fqdn origin) (map fst (zn_names z))"
    "\<exists>soa. zone_soa z = Some soa \<and> soa_serial_of soa = Some (zn_serial z)"
  using assms
  by (auto simp: from_records_def Let_def zone_soa_def bind_eq_Some_conv split: sum.splits prod.splits)

lemma from_records_names:
  assumes "from_records env origin recs = Inr z"
  shows "set (map fst (zn_names z)) =
     {name_str (rr_name r) | r. r \<in> set recs \<and> is_subdomain (zn_origin z) (name_str (rr_name r))}"
  using add_records [of "[]" "fqdn origin" False recs] from_records_parts [OF assms] by simp

lemma from_records_rrsets:
  assumes "from_records env origin recs = Inr z" "is_subdomain (zn_origin z) owner"
  shows "rr_data ` set (rrset_at (zn_names z) owner t) =
     {rr_data r | r. r \<in> set recs \<and> name_str (rr_name r) = owner \<and> rr_type r = t \<and> \<not> is_rrsig r}"
  using add_records [of "[]" "fqdn origin" False recs owner t] from_records_parts [OF assms(1)] assms(2)
  by (simp add: rrset_at_def)

section \<open>What a lookup answers\<close>

lemma add_answers_fields [simp]:
  "m_answers (add_answers rs m) = m_answers m @ rs" "m_id (add_answers rs m) = m_id m"
  "m_rcode (add_answers rs m) = m_rcode m" "m_authoritative (add_answers rs m) = m_authoritative m"
  "m_name_servers (add_answers rs m) = m_name_servers m"
  unfolding add_answers_def by (induction rs arbitrary: m) (simp_all add: add_answer_def)

lemma add_name_servers_fields [simp]:
  "m_answers (add_name_servers rs m) = m_answers m" "m_id (add_name_servers rs m) = m_id m"
  "m_rcode (add_name_servers rs m) = m_rcode m" "m_authoritative (add_name_servers rs m) = m_authoritative m"
  "m_name_servers (add_name_servers rs m) = m_name_servers m @ rs"
  unfolding add_name_servers_def by (induction rs arbitrary: m) (simp_all add: add_name_server_def)

lemma add_additionals_fields [simp]:
  "m_answers (add_additionals rs m) = m_answers m" "m_id (add_additionals rs m) = m_id m"
  "m_rcode (add_additionals rs m) = m_rcode m" "m_authoritative (add_additionals rs m) = m_authoritative m"
  "m_name_servers (add_additionals rs m) = m_name_servers m"
  "m_additionals (add_additionals rs m) = m_additionals m @ rs"
  unfolding add_additionals_def by (induction rs arbitrary: m) (simp_all add: add_additional_def)

lemma add_authority_loop_fields:
  "m_answers (add_authority_loop sh seen rs m) = m_answers m \<and> m_id (add_authority_loop sh seen rs m) = m_id m \<and>
   m_rcode (add_authority_loop sh seen rs m) = m_rcode m \<and>
   m_authoritative (add_authority_loop sh seen rs m) = m_authoritative m \<and>
   prefix (m_name_servers m) (m_name_servers (add_authority_loop sh seen rs m))"
  by (induction sh seen rs m rule: add_authority_loop.induct)
    (auto simp: add_name_server_def intro: prefix_order.trans prefixI)

lemma add_authority_fields [simp]:
  "m_answers (add_authority sh rs m) = m_answers m" "m_id (add_authority sh rs m) = m_id m"
  "m_rcode (add_authority sh rs m) = m_rcode m" "m_authoritative (add_authority sh rs m) = m_authoritative m"
  "prefix (m_name_servers m) (m_name_servers (add_authority sh rs m))"
  using add_authority_loop_fields [of sh "{}" rs m] by (simp_all add: add_authority_def)

lemma auth_reply_fields [simp]:
  "m_answers (auth_reply req) = []" "m_id (auth_reply req) = m_id (rq_msg req)" "m_rcode (auth_reply req) = NoError"
  "m_authoritative (auth_reply req) = True" "m_name_servers (auth_reply req) = []"
  by (simp_all add: auth_reply_def)

lemma finish_lookup_fields [simp]:
  "m_answers (finish_lookup env z m do' answers syn) = m_answers m @ answers"
  "m_id (finish_lookup env z m do' answers syn) = m_id m"
  "m_rcode (finish_lookup env z m do' answers syn) = m_rcode m"
  "m_authoritative (finish_lookup env z m do' answers syn) = m_authoritative m"
  by (auto simp: finish_lookup_def Let_def split: option.splits)

lemma negative_fields:
  "m_answers (negative env z req name do') = []" "m_id (negative env z req name do') = m_id (rq_msg req)"
  "m_authoritative (negative env z req name do')"
  "m_rcode (negative env z req name do') = (if name \<in> zn_nodes z then NoError else NXDomain)"
  "prefix (negative_soa z do') (m_name_servers (negative env z req name do'))"
  by (auto simp: negative_def Let_def intro: prefix_order.trans [OF _ add_authority_fields(5)])

lemma nodata_fields:
  "m_answers (nodata env z m do' c syn) = m_answers m" "m_id (nodata env z m do' c syn) = m_id m"
  "m_rcode (nodata env z m do' c syn) = m_rcode m"
  "m_authoritative (nodata env z m do' c syn) = m_authoritative m"
  "prefix (m_name_servers m @ negative_soa z do') (m_name_servers (nodata env z m do' c syn))"
  by (auto simp: nodata_def Let_def intro: prefix_order.trans [OF _ add_authority_fields(5)])

lemma soa_serial_of_data: "soa_serial_of r = Some n \<Longrightarrow> \<exists>d. rr_data r = Some (RD_SOA d)"
  by (cases "rr_data r"; cases "the (rr_data r)") (simp_all add: soa_serial_of_def)

text \<open>The SOA record of a negative answer is one that the zone was made from.\<close>

lemma negative_soa_record:
  assumes "from_records env origin recs = Inr z"
  shows "\<exists>soa rest d r. negative_soa z do' = soa # rest \<and> rr_data soa = Some (RD_SOA d) \<and> rr_ttl soa \<le> soa_minimum d
    \<and> r \<in> set recs \<and> name_str (rr_name r) = fqdn origin \<and> rr_type r = RT_SOA \<and> rr_data r = Some (RD_SOA d)"
proof -
  note parts = from_records_parts [OF assms]
  from parts(4) obtain soa d where soa: "first_soa (zn_names z) (zn_origin z) = Some soa" "rr_data soa = Some (RD_SOA d)"
    unfolding zone_soa_def using soa_serial_of_data by blast
  then obtain nd l where nd: "map_of (zn_names z) (zn_origin z) = Some nd" "map_of (nd_rrsets nd) RT_SOA = Some l" "first l = Some soa"
    by (auto simp: first_soa_def bind_eq_Some_conv)
  have "soa \<in> set (rrset_at (zn_names z) (zn_origin z) RT_SOA)" using nd first_SomeD [OF nd(3)] by (simp add: rrset_at_def)
  moreover have "is_subdomain (zn_origin z) (zn_origin z)" by (simp add: is_subdomain_def)
  ultimately obtain r where "r \<in> set recs" "name_str (rr_name r) = zn_origin z" "rr_type r = RT_SOA" "rr_data r = Some (RD_SOA d)"
    using from_records_rrsets [OF assms, of "zn_origin z" RT_SOA] soa(2) by (smt (verit) imageI mem_Collect_eq)
  then show ?thesis using nd soa(2) parts(1) by (auto simp: negative_soa_def)
qed

text \<open>The first hop, when neither a delegation nor a DNAME is in the way.\<close>

definition direct :: "zone \<Rightarrow> string \<Rightarrow> rtype \<Rightarrow> bool" where
  "direct z qn qt \<longleftrightarrow> delegation z qn qt = None \<and> dname_for z qn = None"

lemma lookup_direct:
  assumes "direct z (name_uncached req) (qtype req)"
  shows "zone_lookup env z req chase s =
    (case name_hop env z req (auth_reply req) (do_bit req) (qtype req) (name_uncached req) [] None of
       HReturn r \<Rightarrow> (r, s)
     | HBreak answers syn \<Rightarrow> (finish_lookup env z (auth_reply req) (do_bit req) answers syn, s)
     | HNone \<Rightarrow> (finish_lookup env z (auth_reply req) (do_bit req) [] None, s)
     | HFollow t answers syn \<Rightarrow>
         if is_subdomain (zn_origin z) t
         then hops_loop env z req chase (auth_reply req) (do_bit req) (qtype req) 7 t answers syn s
         else if chase then
            (case zv_from_ascii env t of
               Inl _ \<Rightarrow> (finish_lookup env z (auth_reply req) (do_bit req) answers syn, s)
             | Inr tn \<Rightarrow>
                 (case zv_self_lookup env req tn (qtype req) s of
                    (Inr r, s1) \<Rightarrow> (finish_lookup env z (auth_reply req) (do_bit req) (answers @ m_answers r) syn, s1)
                  | (Inl _, s1) \<Rightarrow> (finish_lookup env z (auth_reply req) (do_bit req) answers syn, s1)))
         else (finish_lookup env z (auth_reply req) (do_bit req) answers syn, s))"
  using assms unfolding zone_lookup_def Let_def direct_def
  by (simp add: hops_loop.simps(2) [where n = 7, simplified] one_hop_def dname_hop_def)

lemma lookup_exact:
  assumes "direct z (name_uncached req) (qtype req)"
    and "map_of (zn_names z) (name_uncached req) = Some nd"
    and "qtype req = RT_CNAME \<or> \<not> nd_has nd RT_CNAME" "qtype req \<noteq> RT_ANY"
    and "with_sigs nd (qtype req) (do_bit req) \<noteq> []"
  shows "fst (zone_lookup env z req chase s) =
    finish_lookup env z (auth_reply req) (do_bit req) (with_sigs nd (qtype req) (do_bit req)) None"
  using assms(2-) by (auto simp: lookup_direct [OF assms(1)] name_hop_def Let_def rename_rrs_def)

lemma lookup_nodata:
  assumes "direct z (name_uncached req) (qtype req)"
    and "map_of (zn_names z) (name_uncached req) = Some nd"
    and "qtype req = RT_CNAME \<or> \<not> nd_has nd RT_CNAME" "qtype req \<noteq> RT_ANY"
    and "with_sigs nd (qtype req) (do_bit req) = []"
  shows "fst (zone_lookup env z req chase s) = nodata env z (auth_reply req) (do_bit req) (name_uncached req) None"
  using assms(2-) by (auto simp: lookup_direct [OF assms(1)] name_hop_def Let_def rename_rrs_def)

lemma lookup_missing:
  assumes "direct z (name_uncached req) (qtype req)"
    and "map_of (zn_names z) (name_uncached req) = None" "wildcard_for z (name_uncached req) = None"
  shows "fst (zone_lookup env z req chase s) = negative env z req (name_uncached req) (do_bit req)"
  using assms(2-) by (simp add: lookup_direct [OF assms(1)] name_hop_def)

lemma lookup_wildcard:
  assumes "direct z (name_uncached req) (qtype req)"
    and "map_of (zn_names z) (name_uncached req) = None" "wildcard_for z (name_uncached req) = Some (ce, nd)"
    and "zv_from_ascii env (name_uncached req) = Inr qn"
    and "qtype req = RT_CNAME \<or> \<not> nd_has nd RT_CNAME" "qtype req \<noteq> RT_ANY"
    and "with_sigs nd (qtype req) (do_bit req) \<noteq> []"
  shows "m_answers (fst (zone_lookup env z req chase s)) =
    map (\<lambda>r. r\<lparr>rr_name := qn\<rparr>) (with_sigs nd (qtype req) (do_bit req))"
  using assms(2-) by (auto simp: lookup_direct [OF assms(1)] name_hop_def Let_def rename_rrs_def)

lemma hop_return_id:
  "one_hop env z req m do' qt cur answers syn = HReturn r \<Longrightarrow> m_id m = m_id (rq_msg req) \<Longrightarrow> m_id r = m_id (rq_msg req)"
  by (auto simp: one_hop_def dname_hop_def name_hop_def Let_def negative_fields nodata_fields
      split: hop_result.splits option.splits if_splits prod.splits)

lemma hops_loop_id:
  "m_id m = m_id (rq_msg req) \<Longrightarrow> m_id (fst (hops_loop env z req chase m do' qt n cur answers syn s)) = m_id (rq_msg req)"
proof (induction n arbitrary: cur answers syn s)
  case (Suc n)
  then show ?case
    by (auto split: hop_result.splits sum.splits prod.splits dest: hop_return_id)
qed simp

lemma zone_lookup_id: "m_id (fst (zone_lookup env z req chase s)) = m_id (rq_msg req)"
  by (auto simp: zone_lookup_def Let_def referral_def hops_loop_id auth_reply_def split: option.splits)

section \<open>Delegations\<close>

definition owns :: "zone \<Rightarrow> string \<Rightarrow> rtype \<Rightarrow> bool" where
  "owns z name t \<longleftrightarrow> (case map_of (zn_names z) name of Some nd \<Rightarrow> nd_has nd t | None \<Rightarrow> False)"

lemma delegation_loop_Some:
  "delegation_loop z qn qt cs = Some (c, nd) \<Longrightarrow>
   \<exists>as bs. cs = as @ c # bs \<and> map_of (zn_names z) c = Some nd \<and> nd_has nd RT_NS \<and> (\<forall>a \<in> set as. \<not> owns z a RT_NS)"
proof (induction cs)
  case (Cons x cs)
  show ?case
  proof (cases "owns z x RT_NS")
    case True
    with Cons.prems have "c = x" "map_of (zn_names z) x = Some nd" "nd_has nd RT_NS"
      by (auto simp: owns_def split: option.splits if_splits)
    then show ?thesis by (intro exI [of _ "[]"] exI [of _ cs]) simp
  next
    case False
    with Cons.prems have "delegation_loop z qn qt cs = Some (c, nd)"
      by (auto simp: owns_def split: option.splits if_splits)
    with Cons.IH obtain as bs where "cs = as @ c # bs" "map_of (zn_names z) c = Some nd" "nd_has nd RT_NS"
      "\<forall>a \<in> set as. \<not> owns z a RT_NS" by blast
    with False show ?thesis by (intro exI [of _ "x # as"] exI [of _ bs]) simp
  qed
qed simp

lemma delegation_loop_None:
  "delegation_loop z qn qt cs = None \<Longrightarrow> qt \<noteq> RT_DS \<Longrightarrow> \<forall>c \<in> set cs. c = qn \<or> \<not> owns z c DNAME \<Longrightarrow>
   \<forall>c \<in> set cs. \<not> owns z c RT_NS"
  by (induction cs) (auto simp: owns_def split: option.splits if_splits)

lemma ancestors_down_fq:
  assumes "list_all label_ok ps" "ps \<noteq> []" "list_all label_ok os"
  shows "ancestors_down (fq os) (join_with ''.'' ps) lo = map (\<lambda>i. fq (drop i ps @ os)) (rev [lo..<length ps])"
proof -
  have "list_all label_ok (drop i ps)" for i using assms(1) by (auto simp: list_all_iff dest: in_set_dropD)
  with assms show ?thesis by (simp add: ancestors_down_def split_join_labels join_fq)
qed

text \<open>A referral is to the highest cut between the apex and the name.\<close>

lemma delegation_highest:
  assumes z: "zn_origin z = fq os" and ok: "list_all label_ok os" "list_all label_ok ps"
    and low: "lower_labels os = os" "lower_labels ps = ps"
    and del: "delegation z (fq (ps @ os)) qt = Some (c, nd)"
  shows "\<exists>cs. cs \<noteq> [] \<and> suffix cs ps \<and> c = fq (cs @ os) \<and> map_of (zn_names z) c = Some nd \<and> nd_has nd RT_NS \<and>
     (\<forall>ys. ys \<noteq> [] \<longrightarrow> suffix ys cs \<longrightarrow> ys \<noteq> cs \<longrightarrow> \<not> owns z (fq (ys @ os)) RT_NS)"
proof -
  have tz: "trim_zone (fq (ps @ os)) (fq os) = Some (join_with ''.'' ps)"
    by (rule trim_zone_fq) (use ok low in simp_all)
  have ne: "ps \<noteq> []" using del tz z by (auto simp: delegation_def)
  have "delegation_loop z (fq (ps @ os)) qt (ancestors_down (fq os) (join_with ''.'' ps) 0) = Some (c, nd)"
    using del tz z by (auto simp: delegation_def split: if_splits)
  then obtain as bs where split: "map (\<lambda>i. fq (drop i ps @ os)) (rev [0..<length ps]) = as @ c # bs"
    and c: "map_of (zn_names z) c = Some nd" "nd_has nd RT_NS" "\<forall>a \<in> set as. \<not> owns z a RT_NS"
    by (auto simp: ancestors_down_fq [OF ok(2) ne ok(1)] dest: delegation_loop_Some)
  define k where "k = length as"
  have len: "k < length ps" using arg_cong [OF split, of length] by (simp add: k_def)
  have nth: "fq (drop (length ps - Suc i) ps @ os) = (as @ c # bs) ! i" if "i < length ps" for i
    using arg_cong [OF split, of "\<lambda>xs. xs ! i"] that by (simp add: rev_nth)
  let ?cs = "drop (length ps - Suc k) ps"
  have "c = fq (?cs @ os)" using nth [OF len] by (simp add: k_def)
  moreover have "?cs \<noteq> []" using len by simp
  moreover have "suffix ?cs ps" by (rule suffix_drop)
  moreover have "\<not> owns z (fq (ys @ os)) RT_NS" if y: "ys \<noteq> []" "suffix ys ?cs" "ys \<noteq> ?cs" for ys
  proof -
    have "suffix ys ps" using y(2) suffix_drop suffix_order.trans by blast
    then have ys: "ys = drop (length ps - length ys) ps" by (auto simp: suffix_def)
    have "length ys < length ?cs" using y(2,3) by (metis suffix_def append_Nil length_append less_add_same_cancel2 length_greater_0_conv)
    then have "length ys - 1 < k" "length ys - 1 < length ps" "Suc (length ys - 1) = length ys"
      using y(1) len by (cases ys; simp)+
    with nth [of "length ys - 1"] ys have "fq (ys @ os) = as ! (length ys - 1)"
      by (simp add: k_def nth_append)
    with c(3) \<open>length ys - 1 < k\<close> show ?thesis by (simp add: k_def)
  qed
  ultimately show ?thesis using c(1,2) by blast
qed

section \<open>Properties\<close>

lemma map_with: "\<forall>y \<in> set ys. \<exists>x. y = f x \<and> P x \<Longrightarrow> \<exists>xs. ys = map f xs \<and> (\<forall>x \<in> set xs. P x)"
proof (induction ys)
  case (Cons y ys)
  then obtain x xs where "y = f x" "P x" "ys = map f xs" "\<forall>x \<in> set xs. P x" by auto
  then show ?case by (intro exI [of _ "x # xs"]) auto
qed auto

lemma with_sigs_plain: "map_of (zn_names z) q = Some nd \<Longrightarrow> with_sigs nd t False = rrset_at (zn_names z) q t"
  by (auto simp: with_sigs_def rrset_at_def split: option.splits)

lemma fqdn_fq: "fqdn (fq ls) = to_ascii_lowercase (fq ls)"
  by (simp add: fqdn_def Let_def)

text \<open>The nodes of a zone built from records: the names at or above an owner, down from the origin.\<close>

lemma from_records_nodes:
  assumes z: "from_records env (fq os) recs = Inr z" and os: "list_all label_ok os" "lower_labels os = os"
    and recs: "\<forall>r \<in> set recs. name_str (rr_name r) = fq (lab r) \<and> list_all label_ok (lab r) \<and> lower_labels (lab r) = lab r"
    and ns: "list_all label_ok ns" "suffix os ns"
  shows "fq ns \<in> zn_nodes z \<longleftrightarrow> (\<exists>r \<in> set recs. suffix ns (lab r))"
proof -
  note parts = from_records_parts [OF z]
  have o: "zn_origin z = fq os" using parts(1) os by (simp add: fqdn_fq)
  have names: "set (map fst (zn_names z)) = {fq (lab r) | r. r \<in> set recs \<and> suffix os (lab r)}"
    using from_records_names [OF z] recs os by (fastforce simp: o is_subdomain_fq)
  then obtain nss where nss: "map fst (zn_names z) = map fq nss"
    "\<forall>n \<in> set nss. (list_all label_ok n \<and> suffix os n) \<and> (\<exists>r \<in> set recs. n = lab r)"
    using map_with [of "map fst (zn_names z)" fq "\<lambda>n. (list_all label_ok n \<and> suffix os n) \<and> (\<exists>r \<in> set recs. n = lab r)"] recs by blast
  have owners: "lab r \<in> set nss" if r: "r \<in> set recs" "suffix os (lab r)" for r
  proof -
    have "fq (lab r) \<in> fq ` set nss" using names nss(1) r by (metis (mono_tags, lifting) mem_Collect_eq list.set_map)
    then show ?thesis using nss(2) recs r(1) by (metis imageE fq_inj)
  qed
  have "zn_nodes z = (\<Union>n \<in> set nss. between os n)"
    using zone_nodes_spec [of nss os] nss(2) parts(3) by (simp add: nss(1) o [unfolded parts(1)])
  then have "fq ns \<in> zn_nodes z \<longleftrightarrow> (\<exists>n \<in> set nss. suffix ns n)"
    using nss(2) ns by (auto simp: between_def) (metis fq_inj labels_suffix)
  also have "\<dots> \<longleftrightarrow> (\<exists>r \<in> set recs. suffix ns (lab r))"
  proof
    show "\<exists>r \<in> set recs. suffix ns (lab r)" if "\<exists>n \<in> set nss. suffix ns n" using that nss(2) by metis
    show "\<exists>n \<in> set nss. suffix ns n" if "\<exists>r \<in> set recs. suffix ns (lab r)"
      using that owners ns(2) by (meson suffix_order.trans)
  qed
  finally show ?thesis .
qed

text \<open>A small zone, the input of the examples.\<close>

definition plain_zone_env :: "unit zone_env" where
  "plain_zone_env = \<lparr>zv_from_ascii = Inr, zv_name_key = (\<lambda>n. [n]), zv_nsec3_hash = (\<lambda>_ _. None), zv_read_name = (\<lambda>_. None),
     zv_show_rr = rr_name, zv_self_lookup = (\<lambda>_ _ _ s. (Inl ''no server'', s))\<rparr>"

definition sample_records :: "rr list" where
  "sample_records =
     [from_rdata ''example.org.'' 300 (RD_SOA \<lparr>soa_mname = ''ns.example.org.'', soa_rname = ''admin.example.org.'', soa_serial = 1,
        soa_refresh = 1, soa_retry = 1, soa_expire = 1, soa_minimum = 60\<rparr>),
      from_rdata ''www.example.org.'' 300 (RD_A [192, 0, 2, 9]),
      from_rdata ''*.w.example.org.'' 300 (RD_A [192, 0, 2, 10]),
      from_rdata ''sub.example.org.'' 300 (RD_NS ''ns.sub.example.org.'')]"

definition sample_zone :: zone where
  "sample_zone =
     \<lparr>zn_origin = ''example.org.'', zn_origin_name = ''example.org.'',
      zn_names =
        [(''*.w.example.org.'', \<lparr>nd_rrsets = [(RT_A, [sample_records ! 2])], nd_rrsigs = []\<rparr>),
         (''example.org.'', \<lparr>nd_rrsets = [(RT_SOA, [sample_records ! 0])], nd_rrsigs = []\<rparr>),
         (''sub.example.org.'', \<lparr>nd_rrsets = [(RT_NS, [sample_records ! 3])], nd_rrsigs = []\<rparr>),
         (''www.example.org.'', \<lparr>nd_rrsets = [(RT_A, [sample_records ! 1])], nd_rrsigs = []\<rparr>)],
      zn_nodes = {''*.w.example.org.'', ''w.example.org.'', ''example.org.'', ''sub.example.org.'', ''www.example.org.''},
      zn_nsec_chain = [], zn_nsec3 = None, zn_serial = 1, zn_signed = False, zn_path = None\<rparr>"

definition sample_labels :: "rr \<Rightarrow> string list" where
  "sample_labels r = filter (\<lambda>l. l \<noteq> []) (split_char (CHR ''.'') (rr_name r))"

lemma sample_zone_records: "from_records plain_zone_env ''example.org.'' sample_records = Inr sample_zone"
  by code_simp

lemma sample_names:
  "fq [''example'', ''org''] = ''example.org.''" "fq [''x'', ''example'', ''org''] = ''x.example.org.''"
  "fq [''a'', ''w'', ''example'', ''org''] = ''a.w.example.org.''"
  by code_simp+

text \<open>C7: For a query without the DO bit and of a type other than ANY, for a name that owns records, below no zone cut and no
  DNAME, and without a CNAME, the authoritative answer is the record set: the data in the answer section are
  exactly the data of the zone's records with that owner and type, RRSIG records left out, with NOERROR,
  whether there are any or not.\<close>

theorem zone_lookup_records:
  assumes "from_records env origin recs = Inr z"
    and "direct z (name_uncached req) (qtype req)" "is_subdomain (zn_origin z) (name_uncached req)"
    and "\<exists>r \<in> set recs. name_str (rr_name r) = name_uncached req"
    and "\<not> owns z (name_uncached req) RT_CNAME"
    and "qtype req \<noteq> RT_ANY" "\<not> do_bit req"
  shows "m_rcode (fst (zone_lookup env z req chase s)) = NoError \<and> m_authoritative (fst (zone_lookup env z req chase s))
    \<and> rr_data ` set (m_answers (fst (zone_lookup env z req chase s)))
        = {rr_data r | r. r \<in> set recs \<and> name_str (rr_name r) = name_uncached req \<and> rr_type r = qtype req \<and> \<not> is_rrsig r}"
proof -
  let ?q = "name_uncached req" and ?t = "qtype req"
  have "?q \<in> set (map fst (zn_names z))" using from_records_names [OF assms(1)] assms(3,4) by force
  then obtain nd where nd: "map_of (zn_names z) ?q = Some nd" by (metis list.set_map map_of_eq_None_iff option.exhaust)
  have sets: "rr_data ` set (rrset_at (zn_names z) ?q t) = {rr_data r | r. r \<in> set recs \<and> name_str (rr_name r) = ?q \<and> rr_type r = t \<and> \<not> is_rrsig r}" for t
    by (rule from_records_rrsets [OF assms(1,3)])
  have cn: "\<not> nd_has nd RT_CNAME" using assms(5) nd by (simp add: owns_def)
  have ws: "with_sigs nd ?t (do_bit req) = rrset_at (zn_names z) ?q ?t" using assms(7) with_sigs_plain [OF nd] by simp
  show ?thesis
  proof (cases "rrset_at (zn_names z) ?q ?t = []")
    case True
    with lookup_nodata [where env = env and chase = chase and s = s, OF assms(2) nd _ assms(6)] cn ws sets [of ?t] show ?thesis by (auto simp: nodata_fields)
  next
    case False
    with lookup_exact [where env = env and chase = chase and s = s, OF assms(2) nd _ assms(6)] cn ws sets [of ?t] show ?thesis by simp
  qed
qed

theorem zone_lookup_records_witness:
  "rr_data ` set (m_answers (fst (zone_lookup plain_zone_env sample_zone (query_for ''www.example.org.'' RT_A) True ()))) = {Some (RD_A [192, 0, 2, 9])}"
proof -
  let ?q = "query_for ''www.example.org.'' RT_A"
  have "direct sample_zone (name_uncached ?q) (qtype ?q)" "is_subdomain (zn_origin sample_zone) (name_uncached ?q)"
    "\<exists>r \<in> set sample_records. name_str (rr_name r) = name_uncached ?q" "\<not> owns sample_zone (name_uncached ?q) RT_CNAME"
    "qtype ?q \<noteq> RT_ANY" "\<not> do_bit ?q" by code_simp+
  from zone_lookup_records [OF sample_zone_records this, of True "()"]
  have "rr_data ` set (m_answers (fst (zone_lookup plain_zone_env sample_zone ?q True ())))
    = rr_data ` set (filter (\<lambda>r. name_str (rr_name r) = name_uncached ?q \<and> rr_type r = qtype ?q \<and> \<not> is_rrsig r) sample_records)" by auto
  also have "\<dots> = {Some (RD_A [192, 0, 2, 9])}" by code_simp
  finally show ?thesis .
qed

text \<open>C8: For a name of the zone with neither a zone cut nor a DNAME at or above it, that owns nothing and for which the look-up
  finds no wildcard, the answer is negative: NXDOMAIN when no record of the zone lies at or below the name,
  NOERROR when one does (an empty non-terminal), no answers, and the first record of the authority section
  has the data of an SOA record that the zone was given for its apex and a TTL of at most the SOA's minimum.
  Names are spelled in lower case and their labels contain no dots or escapes.\<close>

theorem zone_lookup_negative:
  assumes "from_records env (fq os) recs = Inr z" "list_all label_ok os" "lower_labels os = os"
    and "\<forall>r \<in> set recs. name_str (rr_name r) = fq (lab r) \<and> list_all label_ok (lab r) \<and> lower_labels (lab r) = lab r"
    and "name_uncached req = fq ns" "list_all label_ok ns" "suffix os ns"
    and "direct z (fq ns) (qtype req)" "\<forall>r \<in> set recs. lab r \<noteq> ns" "wildcard_for z (fq ns) = None"
  shows "m_answers (fst (zone_lookup env z req chase s)) = []
    \<and> m_rcode (fst (zone_lookup env z req chase s)) = (if \<exists>r \<in> set recs. suffix ns (lab r) then NoError else NXDomain)
    \<and> (\<exists>soa rest r d. m_name_servers (fst (zone_lookup env z req chase s)) = soa # rest \<and> rr_data soa = Some (RD_SOA d) \<and> rr_ttl soa \<le> soa_minimum d
         \<and> r \<in> set recs \<and> lab r = os \<and> rr_type r = RT_SOA \<and> rr_data r = Some (RD_SOA d))"
proof -
  have "fq ns \<notin> set (map fst (zn_names z))"
    using from_records_names [OF assms(1)] assms(4,6,9) by auto (metis fq_inj)
  then have none: "map_of (zn_names z) (name_uncached req) = None" by (simp add: assms(5) map_of_eq_None_iff)
  have "fst (zone_lookup env z req chase s) = negative env z req (fq ns) (do_bit req)"
    using lookup_missing [where env = env and chase = chase and s = s, OF _ none] assms(5,8,10) by simp
  note lookup = this and neg = negative_fields [where env = env and z = z and req = req and name = "fq ns" and do' = "do_bit req"]
  obtain soa rest d r where soa: "negative_soa z (do_bit req) = soa # rest" "rr_data soa = Some (RD_SOA d)" "rr_ttl soa \<le> soa_minimum d"
    and r: "r \<in> set recs" "name_str (rr_name r) = fqdn (fq os)" "rr_type r = RT_SOA" "rr_data r = Some (RD_SOA d)"
    using negative_soa_record [OF assms(1), of "do_bit req"] by blast
  have "fq (lab r) = fq os" "list_all label_ok (lab r)" using r(1,2) assms(2-4) by (auto simp: fqdn_fq)
  then have "lab r = os" using fq_inj assms(2) by blast
  moreover obtain more where "m_name_servers (negative env z req (fq ns) (do_bit req)) = soa # more"
    using neg(5) soa(1) by (auto simp: prefix_def)
  ultimately have "\<exists>soa rest r d. m_name_servers (fst (zone_lookup env z req chase s)) = soa # rest \<and> rr_data soa = Some (RD_SOA d) \<and> rr_ttl soa \<le> soa_minimum d
         \<and> r \<in> set recs \<and> lab r = os \<and> rr_type r = RT_SOA \<and> rr_data r = Some (RD_SOA d)"
    using lookup soa(2,3) r by metis
  moreover have "m_rcode (fst (zone_lookup env z req chase s)) = (if \<exists>r \<in> set recs. suffix ns (lab r) then NoError else NXDomain)"
    using from_records_nodes [OF assms(1-4,6,7)] by (simp only: lookup neg(4))
  ultimately show ?thesis using lookup neg(1) by simp
qed

theorem zone_lookup_negative_witness:
  "m_rcode (fst (zone_lookup plain_zone_env sample_zone (query_for ''x.example.org.'' RT_A) True ())) = NXDomain"
proof -
  let ?q = "query_for ''x.example.org.'' RT_A" and ?os = "[''example'', ''org'']" and ?ns = "[''x'', ''example'', ''org'']"
  have "list_all label_ok ?os" "lower_labels ?os = ?os"
    "\<forall>r \<in> set sample_records. name_str (rr_name r) = fq (sample_labels r) \<and> list_all label_ok (sample_labels r) \<and> lower_labels (sample_labels r) = sample_labels r"
    "name_uncached ?q = fq ?ns" "list_all label_ok ?ns" "suffix ?os ?ns" "direct sample_zone (fq ?ns) (qtype ?q)"
    "\<forall>r \<in> set sample_records. sample_labels r \<noteq> ?ns" "wildcard_for sample_zone (fq ?ns) = None" by code_simp+
  from zone_lookup_negative [OF sample_zone_records [folded sample_names(1)] this, of True "()"]
  have "m_rcode (fst (zone_lookup plain_zone_env sample_zone ?q True ())) = (if \<exists>r \<in> set sample_records. suffix ?ns (sample_labels r) then NoError else NXDomain)" by blast
  also have "\<dots> = NXDomain" by code_simp
  finally show ?thesis .
qed

text \<open>C9: A wildcard answers only from the closest encloser (RFC 4592): for a name below the apex that does not exist, with
  neither a zone cut nor a DNAME at or above it, and a query type other than ANY, there is one longest existing
  ancestor; if the wildcard right below it owns a set of the type, and no CNAME unless CNAME is asked for, that
  set, renamed to the query name, is the answer; if there is no such wildcard the answer is NXDOMAIN. Names are
  in lower case, and the name parser accepts the query name.\<close>

theorem zone_lookup_wildcard:
  assumes "zn_origin z = fq os" "fq os \<in> zn_nodes z" "list_all label_ok os" "lower_labels os = os"
    and "name_uncached req = fq ns" "list_all label_ok ns" "lower_labels ns = ns" "suffix os ns" "fq ns \<notin> zn_nodes z"
    and "map_of (zn_names z) (fq ns) = None" "direct z (fq ns) (qtype req)" "zv_from_ascii env (fq ns) = Inr qn" "qtype req \<noteq> RT_ANY"
  shows "\<exists>ce. suffix os ce \<and> suffix ce ns \<and> fq ce \<in> zn_nodes z
    \<and> (\<forall>ys. suffix os ys \<longrightarrow> suffix ys ns \<longrightarrow> fq ys \<in> zn_nodes z \<longrightarrow> suffix ys ce)
    \<and> (\<forall>nd. map_of (zn_names z) (wildcard_of (fq ce)) = Some nd \<longrightarrow> (qtype req = RT_CNAME \<or> \<not> nd_has nd RT_CNAME) \<longrightarrow>
         with_sigs nd (qtype req) (do_bit req) \<noteq> [] \<longrightarrow>
         m_answers (fst (zone_lookup env z req chase s)) = map (\<lambda>r. r\<lparr>rr_name := qn\<rparr>) (with_sigs nd (qtype req) (do_bit req)))
    \<and> (map_of (zn_names z) (wildcard_of (fq ce)) = None \<longrightarrow> m_rcode (fst (zone_lookup env z req chase s)) = NXDomain)"
proof -
  have "ns \<noteq> os" using assms(2,9) by auto
  from closest_encloser_loop_spec [OF assms(6,8) this assms(1,2)] obtain ce where
    ce: "closest_encloser_loop z (fq ns) = fq ce" "fq ce \<in> zn_nodes z" "suffix os ce" "suffix ce ns"
    "\<forall>ys. suffix os ys \<and> suffix ys ns \<and> ys \<noteq> ns \<and> fq ys \<in> zn_nodes z \<longrightarrow> suffix ys ce" by blast
  have w: "wildcard_for z (name_uncached req) = map_option (Pair (fq ce)) (map_of (zn_names z) (wildcard_of (fq ce)))"
    using assms ce(1) by (simp add: wildcard_for_def closest_encloser_def is_subdomain_fq Let_def)
  have 1: "direct z (name_uncached req) (qtype req)" "map_of (zn_names z) (name_uncached req) = None"
    "zv_from_ascii env (name_uncached req) = Inr qn" using assms(5,10-12) by simp_all
  have "m_answers (fst (zone_lookup env z req chase s)) = map (\<lambda>r. r\<lparr>rr_name := qn\<rparr>) (with_sigs nd (qtype req) (do_bit req))"
    if "map_of (zn_names z) (wildcard_of (fq ce)) = Some nd" "qtype req = RT_CNAME \<or> \<not> nd_has nd RT_CNAME" "with_sigs nd (qtype req) (do_bit req) \<noteq> []" for nd
    using lookup_wildcard [OF 1(1,2) _ 1(3) that(2) assms(13) that(3)] w that(1) by simp
  moreover have "m_rcode (fst (zone_lookup env z req chase s)) = NXDomain" if "map_of (zn_names z) (wildcard_of (fq ce)) = None"
    using lookup_missing [where env = env and chase = chase and s = s, OF 1(1,2)] w that assms(5,9) by (simp add: negative_fields)
  ultimately show ?thesis using ce assms(9) by (intro exI [of _ ce]) blast
qed

theorem zone_lookup_wildcard_witness:
  "\<exists>ce. suffix ce [''a'', ''w'', ''example'', ''org''] \<and> fq ce \<in> zn_nodes sample_zone
    \<and> (\<forall>ys. suffix [''example'', ''org''] ys \<longrightarrow> suffix ys [''a'', ''w'', ''example'', ''org''] \<longrightarrow> fq ys \<in> zn_nodes sample_zone \<longrightarrow> suffix ys ce)"
proof -
  let ?q = "query_for ''a.w.example.org.'' RT_A" and ?os = "[''example'', ''org'']" and ?ns = "[''a'', ''w'', ''example'', ''org'']"
  have h: "zn_origin sample_zone = fq ?os" "fq ?os \<in> zn_nodes sample_zone" "list_all label_ok ?os" "lower_labels ?os = ?os"
    "name_uncached ?q = fq ?ns" "list_all label_ok ?ns" "lower_labels ?ns = ?ns" "suffix ?os ?ns" "fq ?ns \<notin> zn_nodes sample_zone"
    "map_of (zn_names sample_zone) (fq ?ns) = None" "direct sample_zone (fq ?ns) (qtype ?q)" by code_simp+
  have e: "zv_from_ascii plain_zone_env (fq ?ns) = Inr (fq ?ns)" "qtype ?q \<noteq> RT_ANY" by (simp add: plain_zone_env_def, code_simp)
  from zone_lookup_wildcard [OF h e, of True "()"] show ?thesis by (elim exE conjE) (intro exI conjI; assumption)
qed

text \<open>C10: A referral is made at the highest zone cut: the delegation found for a name is the owner of an NS set strictly
  below the apex and at or above the name, and no name between it and the apex owns an NS set.\<close>

theorem delegation_highest_cut:
  assumes "zn_origin z = fq os" "list_all label_ok os" "list_all label_ok ps" "lower_labels os = os" "lower_labels ps = ps"
    and "delegation z (fq (ps @ os)) qt = Some (c, nd)"
  shows "\<exists>cs. cs \<noteq> [] \<and> suffix cs ps \<and> c = fq (cs @ os) \<and> map_of (zn_names z) c = Some nd \<and> nd_has nd RT_NS
    \<and> (\<forall>ys. ys \<noteq> [] \<longrightarrow> suffix ys cs \<longrightarrow> ys \<noteq> cs \<longrightarrow> \<not> owns z (fq (ys @ os)) RT_NS)"
  using assms by (rule delegation_highest)

theorem delegation_highest_cut_witness:
  "\<exists>cs nd. cs \<noteq> [] \<and> suffix cs [''a'', ''sub''] \<and> delegation sample_zone ''a.sub.example.org.'' RT_A = Some (fq (cs @ [''example'', ''org'']), nd) \<and> nd_has nd RT_NS"
proof -
  let ?os = "[''example'', ''org'']" and ?ps = "[''a'', ''sub'']"
  have h: "zn_origin sample_zone = fq ?os" "list_all label_ok ?os" "list_all label_ok ?ps" "lower_labels ?os = ?os" "lower_labels ?ps = ?ps" by code_simp+
  have n: "fq (?ps @ ?os) = ''a.sub.example.org.''" by code_simp
  have "delegation sample_zone ''a.sub.example.org.'' RT_A \<noteq> None" by code_simp
  then obtain c nd where d: "delegation sample_zone (fq (?ps @ ?os)) RT_A = Some (c, nd)" unfolding n by fast
  from delegation_highest_cut [OF h d] d show ?thesis unfolding n by auto
qed

end
