(* ===== verification/Block_Setup.thy ===== *)
theory Block_Setup
  imports Acl
begin

text \<open>
  The loop \<open>while c.next_block() { match c.val() { ... } }\<close> that the setups of most plugins share,
  over the function \<open>pf\<close> that handles one property.

  At the end of the tokens \<open>next_block\<close> answers true with an empty value for ever (see
  \<open>skip_block\<close> in \<open>Dispenser\<close>), so the loop ends because every plugin refuses the empty
  property. That contract is the locale \<open>block_property\<close>: the property function refuses the empty
  value, moves forward only and leaves the configuration alone. The recursion below stops when a
  property would not make progress; the locale shows that this never happens, so that the loop is the
  one of the code, and gives its frame.
\<close>

function block_loop ::
    "('a \<Rightarrow> 's controller \<Rightarrow> 'a res \<times> 's controller) \<Rightarrow> 'a \<Rightarrow> 's controller \<Rightarrow> 'a res \<times> 's controller" where
  "block_loop pf a c =
     (case ctl_disp next_block c of
        (False, c1) \<Rightarrow> (Inr a, c1)
      | (True, c1) \<Rightarrow>
          (case pf a c1 of
             (Inl e, c2) \<Rightarrow> (Inl e, c2)
           | (Inr a', c2) \<Rightarrow>
               if left_over (ct_dispenser c2) < left_over (ct_dispenser c) then block_loop pf a' c2
               else (Inl ''no progress'', c2)))"
  by pat_completeness auto
termination
  by (relation "measure (\<lambda>(p, a, c). left_over (ct_dispenser c))") auto

declare block_loop.simps [simp del]

locale block_property =
  fixes pf :: "'a \<Rightarrow> 's controller \<Rightarrow> 'a res \<times> 's controller"
  assumes refuses_empty: "pf a c = (r, c') \<Longrightarrow> ctl_val c = [] \<Longrightarrow> \<not> is_ok r"
    and forward: "pf a c = (r, c') \<Longrightarrow> left_over (ct_dispenser c') \<le> left_over (ct_dispenser c)"
    and frame: "pf a c = (r, c') \<Longrightarrow> ct_config c' = ct_config c \<and> ct_directive c' = ct_directive c"
begin

lemma progress:
  assumes "ctl_disp next_block c = (True, c1)" "pf a c1 = (Inr a', c2)"
  shows "left_over (ct_dispenser c2) < left_over (ct_dispenser c)"
proof -
  have "next_block (ct_dispenser c) = (True, ct_dispenser c1)"
    using assms(1) by (auto simp: ctl_disp_def split: prod.splits)
  moreover have "ctl_val c1 \<noteq> []" using refuses_empty [OF assms(2)] by auto
  ultimately have "left_over (ct_dispenser c1) < left_over (ct_dispenser c)"
    using left_over_next_block by (auto simp: ctl_val_def)
  with forward [OF assms(2)] show ?thesis by simp
qed

text \<open>The loop as the code has it.\<close>

lemma loop_step:
  "block_loop pf a c =
     (case ctl_disp next_block c of
        (False, c1) \<Rightarrow> (Inr a, c1)
      | (True, c1) \<Rightarrow>
          (case pf a c1 of
             (Inl e, c2) \<Rightarrow> (Inl e, c2)
           | (Inr a', c2) \<Rightarrow> block_loop pf a' c2))"
  using progress [of c _ a]
  by (subst block_loop.simps) (auto split: prod.splits sum.splits bool.splits)

lemma loop_frame:
  "block_loop pf a c = (r, c') \<Longrightarrow> ct_config c' = ct_config c \<and> ct_directive c' = ct_directive c"
proof (induction "left_over (ct_dispenser c)" arbitrary: a c rule: less_induct)
  case less
  obtain b c1 where n: "ctl_disp next_block c = (b, c1)" by (cases "ctl_disp next_block c")
  note f1 = ctl_disp_frame [OF n]
  show ?case
  proof (cases b)
    case True
    obtain pr c2 where p: "pf a c1 = (pr, c2)" by (cases "pf a c1")
    show ?thesis
    proof (cases pr)
      case (Inl e)
      with less.prems n True p frame [OF p] f1 show ?thesis by (simp add: loop_step)
    next
      case (Inr a')
      with less.prems n True p have "block_loop pf a' c2 = (r, c')" by (subst (asm) loop_step) simp
      with less.hyps progress n True p Inr frame [OF p] f1 show ?thesis by metis
    qed
  qed (use less.prems n f1 in \<open>simp add: loop_step\<close>)
qed

lemma loop_forward: "block_loop pf a c = (r, c') \<Longrightarrow> is_ok r \<Longrightarrow> left_over (ct_dispenser c') \<le> left_over (ct_dispenser c)"
proof (induction "left_over (ct_dispenser c)" arbitrary: a c rule: less_induct)
  case less
  obtain b c1 where n: "ctl_disp next_block c = (b, c1)" by (cases "ctl_disp next_block c")
  show ?case
  proof (cases b)
    case True
    with less.prems n obtain a' c2 where p: "pf a c1 = (Inr a', c2)" "block_loop pf a' c2 = (r, c')"
      by (subst (asm) loop_step) (auto split: prod.splits sum.splits)
    from n True have "ctl_disp next_block c = (True, c1)" by simp
    from progress [OF this p(1)] less.hyps [OF _ p(2) less.prems(2)] show ?thesis by force
  next
    case False
    then have "c' = c1" using less.prems(1) n by (subst (asm) loop_step) simp
    moreover have "left_over (ct_dispenser c1) \<le> left_over (ct_dispenser c)"
      using n False left_over_next_block_False by (auto simp: ctl_disp_def split: prod.splits)
    ultimately show ?thesis by simp
  qed
qed

end

text \<open>The usual shape of a property function: it looks at the value and at the rest of its line.\<close>

definition line_property ::
    "(string \<Rightarrow> bool) \<Rightarrow> ((string \<Rightarrow> err) \<Rightarrow> err \<Rightarrow> string \<Rightarrow> string list \<Rightarrow> 'a \<Rightarrow> 'a res) \<Rightarrow> 'a \<Rightarrow> 's controller \<Rightarrow> 'a res \<times> 's controller" where
  "line_property reads f a c =
     (if reads (ctl_val c)
      then (case ctl_disp remaining_args c of (as, c1) \<Rightarrow> (f (ctl_errf c1) (ctl_arg_err c1) (ctl_val c) as a, c1))
      else (f (ctl_errf c) (ctl_arg_err c) (ctl_val c) [] a, c))"

lemma line_property_block:
  assumes "\<And>ef ae as a. \<not> is_ok (f ef ae [] as a)"
  shows "block_property (line_property reads f)"
proof
  fix a :: 'a and c c' :: "'s controller" and r
  assume run: "line_property reads f a c = (r, c')"
  obtain as c1 where d: "ctl_disp remaining_args c = (as, c1)" by (cases "ctl_disp remaining_args c")
  from run d have c': "c' = c1 \<or> c' = c" by (auto simp: line_property_def split: if_splits)
  show "left_over (ct_dispenser c') \<le> left_over (ct_dispenser c)"
    using c' left_over_disp [OF d left_over_remaining_args] by auto
  show "ct_config c' = ct_config c \<and> ct_directive c' = ct_directive c" using c' ctl_disp_frame [OF d] by auto
  show "\<not> is_ok r" if "ctl_val c = []" using run d that assms by (auto simp: line_property_def split: if_splits)
qed

section \<open>What the steps of a setup do to the chain\<close>

text \<open>Steps after which a controller still appends to the chain of the first one.\<close>

named_theorems appends_steps \<open>steps of a setup that only append handlers\<close>

lemma appends_then_add [appends_steps]: "appends_plugins a c \<Longrightarrow> appends_plugins a (add_plugin h c)"
  by (rule appends_trans [OF _ appends_add_plugin])

lemma appends_then_config [appends_steps]:
  "appends_plugins a c \<Longrightarrow> (\<And>g. sc_plugins (f g) = sc_plugins g) \<Longrightarrow> appends_plugins a (on_config f c)"
  by (rule appends_trans [OF _ appends_on_config])

lemma appends_then_hook [appends_steps]:
  "appends_plugins a c \<Longrightarrow> appends_plugins a (on_startup k c)"
  "appends_plugins a c \<Longrightarrow> appends_plugins a (on_shutdown k c)"
  "appends_plugins a c \<Longrightarrow> appends_plugins a (on_final_shutdown k c)"
  "appends_plugins a c \<Longrightarrow> appends_plugins a (on_restart k c)"
  "appends_plugins a c \<Longrightarrow> appends_plugins a (on_restart_failed k c)"
  by (simp_all add: on_startup_def on_shutdown_def on_final_shutdown_def on_restart_def on_restart_failed_def
      appends_then_config)

lemma appends_same [simp]: "appends_plugins c c"
  by (simp add: appends_refl)

lemma once_appends:
  assumes run: "once_per_server_block f c = (r, c')" and c0: "appends_plugins c0 c"
    and f: "\<And>x y r. f x = (r, y) \<Longrightarrow> appends_plugins x y"
  shows "appends_plugins c0 c'"
proof -
  let ?c1 = "c\<lparr>ct_once := insert (ct_server_block_index c, ct_directive c) (ct_once c)\<rparr>"
  obtain r1 c2 where c2: "f ?c1 = (r1, c2)" by (cases "f ?c1")
  have "appends_plugins c0 ?c1" using c0 by (rule appends_trans) (rule appends_refl, simp)
  with f [OF c2] have "appends_plugins c0 c2" by (blast intro: appends_trans)
  moreover have "c' = c \<or> c' = c2"
    using run c2 by (auto simp: once_per_server_block_def Let_def split: if_splits sum.splits)
  ultimately show ?thesis using c0 by blast
qed

section \<open>The loop over the occurrences of a directive\<close>

text \<open>
  \<open>while c.next() { ... }\<close> without the once-per-block guard. A body that moves forward only, when it
  succeeds, makes the loop the one of the code (\<open>directive_body\<close>).
\<close>

function next_loop ::
    "('a \<Rightarrow> 's controller \<Rightarrow> 'a res \<times> 's controller) \<Rightarrow> 'a \<Rightarrow> 's controller \<Rightarrow> 'a res \<times> 's controller" where
  "next_loop body a c =
     (case ctl_disp next_tok c of
        (False, c1) \<Rightarrow> (Inr a, c1)
      | (True, c1) \<Rightarrow>
          (case body a c1 of
             (Inl e, c2) \<Rightarrow> (Inl e, c2)
           | (Inr a', c2) \<Rightarrow>
               if left_over (ct_dispenser c2) < left_over (ct_dispenser c) then next_loop body a' c2
               else (Inl ''no progress'', c2)))"
  by pat_completeness auto
termination
  by (relation "measure (\<lambda>(b, a, c). left_over (ct_dispenser c))") auto

declare next_loop.simps [simp del]

lemma ctl_next_tok_smaller:
  "ctl_disp next_tok c = (True, c1) \<Longrightarrow> left_over (ct_dispenser c1) < left_over (ct_dispenser c)"
  using left_over_next_tok [of "ct_dispenser c" "ct_dispenser c1"] by (auto simp: ctl_disp_def split: prod.splits)

locale directive_body =
  fixes body :: "'a \<Rightarrow> 's controller \<Rightarrow> 'a res \<times> 's controller"
  assumes body_forward: "body a c = (Inr a', c') \<Longrightarrow> left_over (ct_dispenser c') \<le> left_over (ct_dispenser c)"
    and body_appends: "body a c = (r, c') \<Longrightarrow> appends_plugins c c'"
begin

lemma next_loop_step:
  "next_loop body a c =
     (case ctl_disp next_tok c of
        (False, c1) \<Rightarrow> (Inr a, c1)
      | (True, c1) \<Rightarrow>
          (case body a c1 of
             (Inl e, c2) \<Rightarrow> (Inl e, c2)
           | (Inr a', c2) \<Rightarrow> next_loop body a' c2))"
  by (subst next_loop.simps)
    (auto split: prod.splits sum.splits bool.splits dest!: ctl_next_tok_smaller body_forward)

lemma next_loop_appends: "next_loop body a c = (r, c') \<Longrightarrow> appends_plugins c c'"
proof (induction "left_over (ct_dispenser c)" arbitrary: a c rule: less_induct)
  case less
  obtain b c1 where n: "ctl_disp next_tok c = (b, c1)" by (cases "ctl_disp next_tok c")
  obtain r2 c2 where p: "body a c1 = (r2, c2)" by (cases "body a c1")
  have a1: "appends_plugins c c1" using n by (rule appends_disp)
  have a2: "appends_plugins c c2" using a1 body_appends [OF p] by (rule appends_trans)
  show ?case
  proof (cases "b \<and> is_ok r2")
    case True
    then obtain a' where r2: "r2 = Inr a'" by (cases r2) auto
    with True n p less.prems have "next_loop body a' c2 = (r, c')" by (subst (asm) next_loop_step) simp
    moreover have "left_over (ct_dispenser c2) < left_over (ct_dispenser c)"
      using ctl_next_tok_smaller body_forward n p r2 True by fastforce
    ultimately show ?thesis using less.hyps a2 by (blast intro: appends_trans)
  next
    case False
    with less.prems n p a1 a2 show ?thesis
      by (subst (asm) next_loop_step) (auto split: bool.splits sum.splits)
  qed
qed

end

text \<open>The arguments of a directive and its block.\<close>

lemma args_block_steps:
  assumes "ctl_disp remaining_args_until_brace c = (as, c1)" and "block_property pf" and "block_loop pf a c1 = (r2, c2)"
  shows "appends_plugins c c1" "appends_plugins c c2"
    "is_ok r2 \<Longrightarrow> left_over (ct_dispenser c2) \<le> left_over (ct_dispenser c)"
proof -
  show c1: "appends_plugins c c1" using assms(1) by (rule appends_disp)
  have "appends_plugins c1 c2" using block_property.loop_frame [OF assms(2,3)] by (rule appends_refl)
  with c1 show "appends_plugins c c2" by (rule appends_trans)
  show "left_over (ct_dispenser c2) \<le> left_over (ct_dispenser c)" if "is_ok r2"
    using block_property.loop_forward [OF assms(2,3) that] left_over_disp [OF assms(1) left_over_until_brace] by simp
qed

end
