(* ===== verification/Hosts.thy ===== *)
theory Hosts
  imports Block_Setup
begin

text \<open>
  The \<open>hosts\<close> plugin, \<open>src/plugins/hosts.rs\<close>: the maps built from hosts(5) text, the look-up, the
  handler, the setup and the reload of a changed file.

  The table behind the \<open>RwLock\<close> is the one the setup loads until a reload replaces it: the handler
  reads it from the shared state (\<open>cur\<close>). The file system (\<open>read_to_string\<close>, \<open>metadata\<close>),
  durations and \<open>Name::from_ascii\<close> are arguments, the spawned reload task is the hook that the setup
  registers, and its body is \<open>hosts_tick\<close>. The gauges are left out.

  Shown here: parsing is the insertion of the (address, name) pairs of the text, so that a name is
  answered with exactly the addresses the text gives it, and the reverse map is the converse of the
  forward maps.
\<close>

record hosts_map =
  hm_v4 :: "string \<rightharpoonup> u8 list list"
  hm_v6 :: "string \<rightharpoonup> u8 list list"
  hm_reverse :: "string \<rightharpoonup> string list"

definition hosts_map_default :: hosts_map where
  "hosts_map_default = \<lparr>hm_v4 = Map.empty, hm_v6 = Map.empty, hm_reverse = Map.empty\<rparr>"

text \<open>\<open>entry(k).or_default()\<close>, then \<open>push\<close> unless the value is there.\<close>

definition push_new :: "string \<Rightarrow> 'v \<Rightarrow> (string \<rightharpoonup> 'v list) \<Rightarrow> (string \<rightharpoonup> 'v list)" where
  "push_new k v m =
     (let vs = values_of m k in m(k \<mapsto> (if v \<in> set vs then vs else vs @ [v])))"

text \<open>The body of the loop over the names of a line.\<close>

definition add_entry :: "ip_addr \<Rightarrow> string \<Rightarrow> hosts_map \<Rightarrow> hosts_map" where
  "add_entry ip host hm =
     (let name = fqdn host;
          hm1 = (case ip of
             V4 v4 \<Rightarrow> hm\<lparr>hm_v4 := push_new name v4 (hm_v4 hm)\<rparr>
           | V6 v6 \<Rightarrow> hm\<lparr>hm_v6 := push_new name v6 (hm_v6 hm)\<rparr>)
      in hm1\<lparr>hm_reverse := push_new (reverse_name_str ip) name (hm_reverse hm1)\<rparr>)"

definition parse_line :: "string \<Rightarrow> hosts_map \<Rightarrow> hosts_map" where
  "parse_line l0 hm =
     (let l = trim (hd (split_char (CHR ''#'') l0)) in
      if l = [] then hm
      else (case split_whitespace l of
          [] \<Rightarrow> hm
        | ip_s # hosts \<Rightarrow>
            (case parse_ip ip_s of
               None \<Rightarrow> hm
             | Some ip \<Rightarrow> foldl (\<lambda>hm h. add_entry ip h hm) hm hosts)))"

definition hosts_parse :: "string \<Rightarrow> hosts_map \<Rightarrow> hosts_map" where
  "hosts_parse t hm = foldl (\<lambda>hm l. parse_line l hm) hm (lines t)"

record hosts =
  ho_zones :: "string list"
  ho_path :: "string option"
  ho_inline :: hosts_map
  ho_ttl :: u32
  ho_no_reverse :: bool
  ho_fallthrough :: "string list option"

definition hosts_load :: "(string \<Rightarrow> string res) \<Rightarrow> hosts \<Rightarrow> hosts_map" where
  "hosts_load read_to_string h =
     (case ho_path h of
        None \<Rightarrow> ho_inline h
      | Some p \<Rightarrow> (case read_to_string p of Inr t \<Rightarrow> hosts_parse t (ho_inline h) | Inl _ \<Rightarrow> ho_inline h))"

definition has_address :: "hosts_map \<Rightarrow> string \<Rightarrow> bool" where
  "has_address hm n \<longleftrightarrow> hm_v4 hm n \<noteq> None \<or> hm_v6 hm n \<noteq> None"

definition hosts_lookup :: "(string \<Rightarrow> dname res) \<Rightarrow> hosts \<Rightarrow> hosts_map \<Rightarrow> string \<Rightarrow> dname \<Rightarrow> rtype \<Rightarrow> rr list \<times> bool" where
  "hosts_lookup from_ascii h hm qn name qt =
     (if qt = RT_A then
        (map (\<lambda>ip. from_rdata name (ho_ttl h) (RD_A ip)) (values_of (hm_v4 hm) qn), hm_v6 hm qn \<noteq> None)
      else if qt = RT_AAAA then
        (map (\<lambda>ip. from_rdata name (ho_ttl h) (RD_AAAA ip)) (values_of (hm_v6 hm) qn), hm_v4 hm qn \<noteq> None)
      else if qt = RT_PTR \<and> \<not> ho_no_reverse h then
        (List.map_filter (\<lambda>hn. map_option (\<lambda>n. from_rdata name (ho_ttl h) (RD_PTR n)) (ok (from_ascii hn)))
           (values_of (hm_reverse hm) qn), False)
      else ([], hm_v4 hm qn \<noteq> None \<or> hm_v6 hm qn \<noteq> None \<or> (\<not> ho_no_reverse h \<and> hm_reverse hm qn \<noteq> None)))"

definition hosts_serve :: "(string \<Rightarrow> dname res) \<Rightarrow> ('s \<Rightarrow> hosts_map) \<Rightarrow> hosts \<Rightarrow> 's handler" where
  "hosts_serve from_ascii cur h req nx s =
     (case req_name req of (qn, req1) \<Rightarrow>
        if qtype req1 \<noteq> RT_PTR \<and> zones_match (ho_zones h) qn = None then nx_serve nx req1 s
        else (let answers = fst (hosts_lookup from_ascii h (cur s) qn (qname req1) (qtype req1)) in
          if qtype req1 = RT_PTR \<and> answers = [] then nx_serve nx req1 s
          else if answers = [] \<and> \<not> has_address (cur s) qn then
            (case ho_fallthrough h of
               Some ft \<Rightarrow> if zones_match ft qn \<noteq> None then nx_serve nx req1 s
                          else (Replied (RRcode ServFail), req1, s)
             | None \<Rightarrow> (Replied (RRcode ServFail), req1, s))
          else
            (Replied (RMsg (foldl (\<lambda>m r. add_answer r m) ((new_reply req1)\<lparr>m_authoritative := True\<rparr>) answers)), req1, s)))"

section \<open>Setup\<close>

record hosts_options =
  op_inline :: hosts_map
  op_ttl :: u32
  op_no_reverse :: bool
  op_reload :: nat
  op_fallthrough :: "string list option"

definition hosts_options_default :: hosts_options where
  "hosts_options_default = \<lparr>op_inline = hosts_map_default, op_ttl = 3600, op_no_reverse = False,
     op_reload = 5 * SECOND, op_fallthrough = None\<rparr>"

definition hosts_reads :: "string \<Rightarrow> bool" where
  "hosts_reads v \<longleftrightarrow> v = ''ttl'' \<or> v = ''reload'' \<or> v = ''fallthrough'' \<or> (v \<noteq> ''no_reverse'' \<and> parse_ip v \<noteq> None)"

definition hosts_line ::
    "(string \<Rightarrow> dname res) \<Rightarrow> 'net ipnet_api \<Rightarrow> (string \<Rightarrow> nat res) \<Rightarrow> (string \<Rightarrow> err) \<Rightarrow> err \<Rightarrow> string \<Rightarrow> string list
     \<Rightarrow> hosts_options \<Rightarrow> hosts_options res" where
  "hosts_line from_ascii api parse_duration ef arg_e v a op =
     (if v = ''ttl'' then
        (if length a \<noteq> 1 then Inl arg_e
         else rbind (ok_or (ef (''invalid ttl '' @ hd a)) (parse_u32 (hd a))) (\<lambda>t. Inr (op\<lparr>op_ttl := of_nat t\<rparr>)))
      else if v = ''no_reverse'' then Inr (op\<lparr>op_no_reverse := True\<rparr>)
      else if v = ''reload'' then
        (if length a \<noteq> 1 then Inl arg_e else rbind (parse_duration (hd a)) (\<lambda>d. Inr (op\<lparr>op_reload := d\<rparr>)))
      else if v = ''fallthrough'' then
        rbind (if a = [] then Inr [''.''] else normalize_zones from_ascii api a) (\<lambda>z. Inr (op\<lparr>op_fallthrough := Some z\<rparr>))
      else if parse_ip v = None then Inl (ef (''unknown property '' @ quote v))
      else if length (v # a) < 2 then Inl (ef ''inline hosts entry needs at least one name'')
      else Inr (op\<lparr>op_inline := hosts_parse (join_with '' '' (v # a)) (op_inline op)\<rparr>))"

definition hosts_property ::
    "(string \<Rightarrow> dname res) \<Rightarrow> 'net ipnet_api \<Rightarrow> (string \<Rightarrow> nat res) \<Rightarrow> hosts_options \<Rightarrow> 's controller
     \<Rightarrow> hosts_options res \<times> 's controller" where
  "hosts_property from_ascii api parse_duration = line_property hosts_reads (hosts_line from_ascii api parse_duration)"

text \<open>
  What the setup needs besides the tokens: names, networks, durations and files, the table in the
  shared state once a reload has replaced the first one, and the two hooks.
\<close>

record ('s, 'net) hosts_env =
  he_from_ascii :: "string \<Rightarrow> dname res"
  he_api :: "'net ipnet_api"
  he_parse_duration :: "string \<Rightarrow> nat res"
  he_read :: "string \<Rightarrow> string res"
  he_reloaded :: "'s \<Rightarrow> hosts_map option"
  he_spawn :: "hosts \<Rightarrow> nat \<Rightarrow> 's hook"
  he_cancel :: "hosts \<Rightarrow> 's hook"

definition hosts_current :: "('s \<Rightarrow> hosts_map option) \<Rightarrow> hosts_map \<Rightarrow> 's \<Rightarrow> hosts_map" where
  "hosts_current reloaded hm0 s = (case reloaded s of Some hm \<Rightarrow> hm | None \<Rightarrow> hm0)"

definition hosts_path :: "string \<Rightarrow> string list \<Rightarrow> string \<times> string list" where
  "hosts_path root as = (case as of [] \<Rightarrow> (''/etc/hosts'', []) | p # zs \<Rightarrow> (path_join root p, zs))"

definition hosts_body :: "('s, 'net) hosts_env \<Rightarrow> 's setup_fn" where
  "hosts_body env c =
     (case ctl_disp remaining_args_until_brace c of (as, c1) \<Rightarrow>
      case hosts_path (sc_root (ct_config c1)) as of (path, zs) \<Rightarrow>
      case controller_origins (he_from_ascii env) (he_api env) c1 zs of
        Inl e \<Rightarrow> (Inl e, c1)
      | Inr zones \<Rightarrow>
          (case block_loop (hosts_property (he_from_ascii env) (he_api env) (he_parse_duration env)) hosts_options_default c1 of
             (Inl e, c2) \<Rightarrow> (Inl e, c2)
           | (Inr op, c2) \<Rightarrow>
               (let h = \<lparr>ho_zones = zones, ho_path = Some path, ho_inline = op_inline op, ho_ttl = op_ttl op,
                         ho_no_reverse = op_no_reverse op, ho_fallthrough = op_fallthrough op\<rparr>;
                    hm0 = hosts_load (he_read env) h;
                    c3 = add_plugin (''hosts'', hosts_serve (he_from_ascii env) (hosts_current (he_reloaded env) hm0) h) c2
                in (Inr (), if op_reload op \<noteq> 0
                            then on_shutdown (he_cancel env h) (on_startup (he_spawn env h (op_reload op)) c3)
                            else c3))))"

definition hosts_setup :: "('s, 'net) hosts_env \<Rightarrow> 's setup_fn" where
  "hosts_setup env = single_setup ''hosts'' (hosts_body env)"

text \<open>
  A round of the reload task after its sleep: the file's modification time, \<open>None\<close> when it cannot be
  read, against the last one; the table it leaves is the loaded one when they differ.
\<close>

definition hosts_tick ::
    "(string \<Rightarrow> string res) \<Rightarrow> nat option \<Rightarrow> hosts \<Rightarrow> nat option \<times> hosts_map \<Rightarrow> nat option \<times> hosts_map" where
  "hosts_tick read_to_string now h st =
     (case st of (last_mtime, hm) \<Rightarrow> if now \<noteq> last_mtime then (now, hosts_load read_to_string h) else (last_mtime, hm))"

section \<open>The handler and the setup keep their contracts\<close>

interpretation hosts_block: block_property "hosts_property from_ascii api parse_duration"
  unfolding hosts_property_def
  by (rule line_property_block) (simp add: hosts_line_def is_ok_def parse_ip_Nil)

lemma hosts_body_appends:
  assumes "hosts_body env c = (r, c')"
  shows "appends_plugins c c'"
proof -
  let ?pf = "hosts_property (he_from_ascii env) (he_api env) (he_parse_duration env)"
  obtain as c1 where a: "ctl_disp remaining_args_until_brace c = (as, c1)"
    by (cases "ctl_disp remaining_args_until_brace c")
  obtain r2 c2 where b: "block_loop ?pf hosts_options_default c1 = (r2, c2)"
    by (cases "block_loop ?pf hosts_options_default c1")
  have "appends_plugins c c1" using a by (rule appends_disp)
  moreover have "appends_plugins c1 c2" using hosts_block.loop_frame [OF b] by (rule appends_refl)
  moreover have "c' = c1 \<or> appends_plugins c2 c'"
    using assms a b
    by (auto simp: hosts_body_def Let_def split: prod.splits sum.splits if_splits intro: appends_steps)
  ultimately show ?thesis by (blast intro: appends_trans)
qed

interpretation hosts_setup: setup_function "hosts_setup env"
  unfolding hosts_setup_def by (rule single_setup_function [OF hosts_body_appends])

lemma hosts_keeps_id:
  assumes "keeps_id (nx_serve nx)"
  shows "keeps_id (\<lambda>req s. hosts_serve from_ascii cur h req nx s)"
proof -
  have named: "keeps_id (\<lambda>req s. nx_serve nx (snd (req_name req)) s)" by (rule keeps_id_same [OF assms]) simp
  show ?thesis
    using named
    by (auto simp: keeps_id_def hosts_serve_def case_prod_beta Let_def fold_add_answer split: option.splits)
qed

interpretation hosts_handler: id_keeping_handler "hosts_serve from_ascii cur h"
  by unfold_locales (rule hosts_keeps_id)

section \<open>What a table holds\<close>

text \<open>The pairs of an address and a name a text gives, and the tables that hold a set of pairs.\<close>

definition line_pairs :: "string \<Rightarrow> (ip_addr \<times> string) list" where
  "line_pairs l =
     (case split_whitespace (trim (hd (split_char (CHR ''#'') l))) of
        [] \<Rightarrow> []
      | ip_s # hosts \<Rightarrow> (case parse_ip ip_s of None \<Rightarrow> [] | Some ip \<Rightarrow> map (\<lambda>h. (ip, fqdn h)) hosts))"

definition hosts_pairs :: "string \<Rightarrow> (ip_addr \<times> string) set" where
  "hosts_pairs t = (\<Union>l \<in> set (lines t). set (line_pairs l))"

definition table_holds :: "(string \<rightharpoonup> 'v list) \<Rightarrow> (string \<times> 'v) set \<Rightarrow> bool" where
  "table_holds m R \<longleftrightarrow> (\<forall>k. distinct (values_of m k) \<and> set (values_of m k) = R `` {k} \<and> m k \<noteq> Some [])"

definition hosts_holds :: "hosts_map \<Rightarrow> (ip_addr \<times> string) set \<Rightarrow> bool" where
  "hosts_holds hm E \<longleftrightarrow>
     table_holds (hm_v4 hm) {(n, a). (V4 a, n) \<in> E} \<and> table_holds (hm_v6 hm) {(n, a). (V6 a, n) \<in> E} \<and>
     table_holds (hm_reverse hm) {(reverse_name_str ip, n) | ip n. (ip, n) \<in> E}"

lemma push_new_holds: "table_holds m R \<Longrightarrow> table_holds (push_new k v m) (insert (k, v) R)"
  unfolding table_holds_def
proof
  fix j assume m: "\<forall>k. distinct (values_of m k) \<and> set (values_of m k) = R `` {k} \<and> m k \<noteq> Some []"
  show "distinct (values_of (push_new k v m) j) \<and> set (values_of (push_new k v m) j) = insert (k, v) R `` {j}
      \<and> push_new k v m j \<noteq> Some []"
    using m [rule_format, of j] by (cases "j = k") (auto simp: push_new_def Let_def)
qed

lemma table_holds_None: "table_holds m R \<Longrightarrow> m k = None \<longleftrightarrow> values_of m k = []"
  by (auto simp: table_holds_def values_of_def split: option.splits)

lemma hosts_holds_default: "hosts_holds hosts_map_default {}"
  by (simp add: hosts_holds_def hosts_map_default_def table_holds_def)

lemma add_entry_holds:
  assumes "hosts_holds hm E"
  shows "hosts_holds (add_entry ip host hm) (insert (ip, fqdn host) E)"
proof -
  let ?n = "fqdn host"
  have rv: "{(reverse_name_str i, n) | i n. (i, n) \<in> insert (ip, ?n) E} =
      insert (reverse_name_str ip, ?n) {(reverse_name_str i, n) | i n. (i, n) \<in> E}" by auto
  show ?thesis
  proof (cases ip)
    case (V4 a)
    then have "{(n, x). (V4 x, n) \<in> insert (ip, ?n) E} = insert (?n, a) {(n, x). (V4 x, n) \<in> E}"
      "{(n, x). (V6 x, n) \<in> insert (ip, ?n) E} = {(n, x). (V6 x, n) \<in> E}" by auto
    with V4 rv assms show ?thesis by (auto simp: hosts_holds_def add_entry_def Let_def intro: push_new_holds)
  next
    case (V6 a)
    then have "{(n, x). (V6 x, n) \<in> insert (ip, ?n) E} = insert (?n, a) {(n, x). (V6 x, n) \<in> E}"
      "{(n, x). (V4 x, n) \<in> insert (ip, ?n) E} = {(n, x). (V4 x, n) \<in> E}" by auto
    with V6 rv assms show ?thesis by (auto simp: hosts_holds_def add_entry_def Let_def intro: push_new_holds)
  qed
qed

lemma add_entries_holds:
  "hosts_holds hm E \<Longrightarrow> hosts_holds (foldl (\<lambda>hm h. add_entry ip h hm) hm hs) (E \<union> (\<lambda>h. (ip, fqdn h)) ` set hs)"
proof (induction hs arbitrary: hm E)
  case (Cons h hs)
  from Cons.IH [OF add_entry_holds [OF Cons.prems]] show ?case by simp
qed simp

lemma parse_line_holds: "hosts_holds hm E \<Longrightarrow> hosts_holds (parse_line l hm) (E \<union> set (line_pairs l))"
  using add_entries_holds [of hm E]
  by (auto simp: parse_line_def line_pairs_def Let_def split_whitespace_def split: list.splits option.splits)

lemma hosts_parse_holds: "hosts_holds hm E \<Longrightarrow> hosts_holds (hosts_parse t hm) (E \<union> hosts_pairs t)"
proof -
  have "hosts_holds hm E \<Longrightarrow>
      hosts_holds (foldl (\<lambda>hm l. parse_line l hm) hm ls) (E \<union> (\<Union>l \<in> set ls. set (line_pairs l)))" for ls
  proof (induction ls arbitrary: hm E)
    case (Cons l ls)
    from Cons.IH [OF parse_line_holds [OF Cons.prems]] show ?case by (simp add: Un_assoc)
  qed simp
  then show "hosts_holds hm E \<Longrightarrow> hosts_holds (hosts_parse t hm) (E \<union> hosts_pairs t)"
    by (simp add: hosts_parse_def hosts_pairs_def)
qed

lemma hosts_pairs_wf: "(ip, n) \<in> hosts_pairs t \<Longrightarrow> ip_wf ip"
  by (auto simp: hosts_pairs_def line_pairs_def split: list.splits option.splits intro: parse_ip_wf [OF sym])

lemma reverse_name_inj: "ip_wf i \<Longrightarrow> ip_wf j \<Longrightarrow> reverse_name_str i = reverse_name_str j \<Longrightarrow> i = j"
  by (metis ip_wf.simps octets.cases extract_reverse_v4 extract_reverse_v6 option.inject)

section \<open>Properties\<close>

text \<open>C16: A name is answered with what the hosts text says: when the table is the one loaded from the file, an A
  query for a name of the plugin's zones that the text gives an IPv4 address gets an authoritative answer
  with one record for each address the text pairs with the name, each once, and no other.\<close>

theorem hosts_serve_addresses:
  assumes "cur s = hosts_load rd h" "ho_path h = Some p" "rd p = Inr t" "ho_inline h = hosts_map_default"
    and "req_name req = (n, req1)" "qtype req1 = RT_A" "zones_match (ho_zones h) n = Some z" "(V4 a0, n) \<in> hosts_pairs t"
  shows "\<exists>m. hosts_serve from_ascii cur h req nx s = (Replied (RMsg m), req1, s) \<and> m_authoritative m \<and> m_rcode m = NoError
    \<and> distinct (m_answers m) \<and> set (m_answers m) = {from_rdata (qname req1) (ho_ttl h) (RD_A a) | a. (V4 a, n) \<in> hosts_pairs t}"
proof -
  have "hosts_holds (cur s) (hosts_pairs t)"
    using assms(1-4) hosts_parse_holds [OF hosts_holds_default, of t] by (simp add: hosts_load_def)
  then have v: "distinct (values_of (hm_v4 (cur s)) n)" "set (values_of (hm_v4 (cur s)) n) = {a. (V4 a, n) \<in> hosts_pairs t}"
    by (auto simp: hosts_holds_def table_holds_def)
  with assms(8) have "values_of (hm_v4 (cur s)) n \<noteq> []" by auto
  moreover have "inj_on (\<lambda>ip. from_rdata (qname req1) (ho_ttl h) (RD_A ip)) A" for A
    by (auto simp: inj_on_def from_rdata_def)
  ultimately show ?thesis
    using assms(5-7) v by (auto simp: hosts_serve_def hosts_lookup_def fold_add_answer distinct_map)
qed

definition one_host :: hosts where
  "one_host = \<lparr>ho_zones = [''.''], ho_path = Some ''/etc/hosts'', ho_inline = hosts_map_default, ho_ttl = 60,
     ho_no_reverse = False, ho_fallthrough = None\<rparr>"

lemma one_host_pairs: "hosts_pairs ''10.0.0.1 a.b c # d'' = {(V4 [10, 0, 0, 1], ''a.b.''), (V4 [10, 0, 0, 1], ''c.'')}"
  by (simp add: hosts_pairs_def line_pairs_def parse_ip_defs lines_def strip_cr_def split_whitespace_def trim_def
      is_whitespace_def fqdn_def to_ascii_lowercase_def ascii_lower_def is_ascii_upper_def ends_with_def strip_suffix_def)

theorem hosts_serve_addresses_witness:
  "\<exists>m. fst (hosts_serve Inr (\<lambda>_. hosts_load (\<lambda>_. Inr ''10.0.0.1 a.b c # d'') one_host) one_host
      (query_for ''c'' RT_A) (next_of []) ()) = Replied (RMsg m) \<and> set (m_answers m) = {from_rdata ''c'' 60 (RD_A [10, 0, 0, 1])}"
proof -
  let ?cur = "\<lambda>_::unit. hosts_load (\<lambda>_. Inr ''10.0.0.1 a.b c # d'') one_host" and ?q = "query_for ''c'' RT_A"
  have n: "req_name ?q = (''c.'', ?q\<lparr>rq_name_cache := Some ''c.''\<rparr>)"
    by (simp add: query_for_name Let_def to_ascii_lowercase_def ascii_lower_def is_ascii_upper_def ends_with_def)
  have z: "zones_match (ho_zones one_host) ''c.'' = Some ''.''" by code_simp
  show ?thesis
    using hosts_serve_addresses [of ?cur "()" "\<lambda>_. Inr ''10.0.0.1 a.b c # d''" one_host "''/etc/hosts''" "''10.0.0.1 a.b c # d''"
        ?q "''c.''" _ "''.''" "[10, 0, 0, 1]" Inr "next_of []"] n z
    by (auto simp: one_host_pairs) (auto simp: one_host_def)
qed

text \<open>Reverse answers are the converse of forward answers: with the table loaded from the file, the PTR query
  for an address is answered with exactly the names the text pairs with that address, whatever the zones of the
  plugin, and a PTR query for an address without names goes to the next plugin.\<close>

lemma hosts_serve_reverse:
  assumes "cur s = hosts_load rd h" "ho_path h = Some p" "rd p = Inr t" "ho_inline h = hosts_map_default" "\<not> ho_no_reverse h"
    and "req_name req = (reverse_name_str ip, req1)" "qtype req1 = RT_PTR" "ip_wf ip"
    and "\<forall>n. (ip, n) \<in> hosts_pairs t \<longrightarrow> from_ascii n = Inr (f n)"
  shows "if \<exists>n. (ip, n) \<in> hosts_pairs t
    then \<exists>m. hosts_serve from_ascii cur h req nx s = (Replied (RMsg m), req1, s)
      \<and> set (m_answers m) = {from_rdata (qname req1) (ho_ttl h) (RD_PTR (f n)) | n. (ip, n) \<in> hosts_pairs t}
    else hosts_serve from_ascii cur h req nx s = nx_serve nx req1 s"
proof -
  have "hosts_holds (cur s) (hosts_pairs t)"
    using assms(1-4) hosts_parse_holds [OF hosts_holds_default, of t] by (simp add: hosts_load_def)
  then have "set (values_of (hm_reverse (cur s)) (reverse_name_str ip)) =
      {(reverse_name_str i, n) | i n. (i, n) \<in> hosts_pairs t} `` {reverse_name_str ip}"
    by (simp add: hosts_holds_def table_holds_def)
  also have "\<dots> = {n. (ip, n) \<in> hosts_pairs t}"
    using reverse_name_inj [OF hosts_pairs_wf assms(8)] by auto
  finally have v: "set (values_of (hm_reverse (cur s)) (reverse_name_str ip)) = {n. (ip, n) \<in> hosts_pairs t}" .
  define rrs where "rrs = List.map_filter (\<lambda>hn. map_option (\<lambda>n. from_rdata (qname req1) (ho_ttl h) (RD_PTR n)) (ok (from_ascii hn)))
      (values_of (hm_reverse (cur s)) (reverse_name_str ip))"
  have r: "set rrs = {from_rdata (qname req1) (ho_ttl h) (RD_PTR (f n)) | n. (ip, n) \<in> hosts_pairs t}"
    using assms(9) by (force simp: rrs_def List.map_filter_def v)
  then have e: "rrs = [] \<longleftrightarrow> \<not> (\<exists>n. (ip, n) \<in> hosts_pairs t)" by (subst set_empty [symmetric]) auto
  have lk: "fst (hosts_lookup from_ascii h (cur s) (reverse_name_str ip) (qname req1) RT_PTR) = rrs"
    using assms(5) by (simp add: hosts_lookup_def rrs_def)
  show ?thesis
    using assms(6,7) lk r e by (simp add: hosts_serve_def fold_add_answer)
qed

end
