(* ===== verification/Replacer.thy ===== *)
theory Replacer
  imports Chain
begin

text \<open>
  The log format and the names of codes, \<open>src/plugin/replacer.rs\<close>: a format is cut into literal
  parts and placeholders, and the placeholders are filled from a request and its reply.

  What the code prints with other crates or the clock is in \<open>replacer_env\<close>: record types and classes,
  encoded sizes, the local time and the elapsed time.

  Shown here: cutting a format loses nothing, and response codes are read back from their names.
\<close>

section \<open>Names of codes\<close>

definition rcode_names :: "(string \<times> rcode) list" where
  "rcode_names =
     [(''NOERROR'', NoError), (''FORMERR'', FormErr), (''SERVFAIL'', ServFail), (''NXDOMAIN'', NXDomain),
      (''NOTIMP'', NotImp), (''REFUSED'', Refused), (''YXDOMAIN'', YXDomain), (''YXRRSET'', RC_Other 7),
      (''NXRRSET'', RC_Other 8), (''NOTAUTH'', NotAuth), (''NOTZONE'', RC_Other 10), (''BADVERS'', BADVERS),
      (''BADSIG'', RC_Other 16), (''BADKEY'', RC_Other 17), (''BADTIME'', RC_Other 18), (''BADMODE'', RC_Other 19),
      (''BADNAME'', RC_Other 20), (''BADALG'', RC_Other 21), (''BADTRUNC'', RC_Other 22), (''BADCOOKIE'', RC_Other 23)]"

definition rcode_from_str :: "string \<Rightarrow> rcode option" where
  "rcode_from_str s = map_of rcode_names (to_ascii_uppercase s)"

text \<open>\<open>u16::from\<close> of a response code.\<close>

fun rcode_number :: "rcode \<Rightarrow> u16" where
  "rcode_number NoError = 0" | "rcode_number FormErr = 1" | "rcode_number ServFail = 2" | "rcode_number NXDomain = 3"
| "rcode_number NotImp = 4" | "rcode_number Refused = 5" | "rcode_number YXDomain = 6" | "rcode_number NotAuth = 9"
| "rcode_number BADVERS = 16" | "rcode_number (RC_Other n) = n"

definition rcode_str :: "rcode \<Rightarrow> string" where
  "rcode_str rc =
     (case map_of (map prod.swap rcode_names) rc of
        Some n \<Rightarrow> n | None \<Rightarrow> ''RCODE'' @ show_nat (unat (rcode_number rc)))"

fun opcode_str :: "opcode \<Rightarrow> string" where
  "opcode_str OpQuery = ''QUERY''"
| "opcode_str OpStatus = ''STATUS''"
| "opcode_str OpNotify = ''NOTIFY''"
| "opcode_str OpUpdate = ''UPDATE''"

section \<open>Formats\<close>

definition dquoted :: "string \<Rightarrow> string" where
  "dquoted s = [CHR 0x22] @ s @ [CHR 0x22]"

definition COMMON_LOG_FORMAT :: string where
  "COMMON_LOG_FORMAT = ''{remote}:{port} - {>id} '' @ dquoted ''{type} {class} {name} {proto} {size} {>do} {>bufsize}''
     @ '' {rcode} {>rflags} {rsize} {duration}''"

definition COMBINED_LOG_FORMAT :: string where
  "COMBINED_LOG_FORMAT = COMMON_LOG_FORMAT @ '' '' @ dquoted ''{>opcode}''"

definition COMMON_LOG_EMPTY :: string where
  "COMMON_LOG_EMPTY = ''-''"

datatype part = Lit string | Ph string

function replacer_loop :: "string \<Rightarrow> string \<Rightarrow> part list" where
  "replacer_loop lit rest =
     (case find_char (CHR ''{'') rest of
        None \<Rightarrow> if lit @ rest = [] then [] else [Lit (lit @ rest)]
      | Some i \<Rightarrow>
          (let lit1 = lit @ take i rest; after = drop (i + 1) rest in
           case find_char (CHR ''}'') after of
             Some j \<Rightarrow> (if lit1 \<noteq> [] then [Lit lit1] else []) @ [Ph (take j after)] @ replacer_loop [] (drop (j + 1) after)
           | None \<Rightarrow> replacer_loop (lit1 @ ''{'') after))"
  by pat_completeness auto
termination
  by (relation "measure (\<lambda>(l, r). length r)") (auto dest: find_char_SomeD)

declare replacer_loop.simps [simp del]

definition replacer_expand :: "string \<Rightarrow> string" where
  "replacer_expand fmt = replace_all ''{combined}'' COMBINED_LOG_FORMAT (replace_all ''{common}'' COMMON_LOG_FORMAT fmt)"

definition replacer_new :: "string \<Rightarrow> part list" where
  "replacer_new fmt = replacer_loop [] (replacer_expand fmt)"

section \<open>Placeholders\<close>

record replacer_env =
  rv_type_str :: "rtype \<Rightarrow> string"
  rv_class_str :: "dclass \<Rightarrow> string"
  rv_req_len :: "request \<Rightarrow> nat"
  rv_msg_len :: "message \<Rightarrow> nat res"
  rv_now :: string
  rv_elapsed :: "nat \<Rightarrow> string"

definition flags :: "message \<Rightarrow> string" where
  "flags m =
     join_with '','' (concat (map (\<lambda>(b, s). if b then [s] else [])
       [(m_type m = MtResponse, ''qr''), (m_authoritative m, ''aa''), (m_truncated m, ''tc''),
        (m_recursion_desired m, ''rd''), (m_recursion_available m, ''ra''), (m_authentic_data m, ''ad''),
        (m_checking_disabled m, ''cd''), (case m_edns m of Some e \<Rightarrow> ed_dnssec_ok e | None \<Rightarrow> False, ''do'')]))"

definition show_bool :: "bool \<Rightarrow> string" where
  "show_bool b = (if b then ''true'' else ''false'')"

definition placeholder :: "replacer_env \<Rightarrow> string \<Rightarrow> request \<Rightarrow> reply option \<Rightarrow> rcode option \<Rightarrow> string" where
  "placeholder env k req rep err_rcode =
     (let msg = Option.bind rep reply_msg in
      if k = ''type'' then rv_type_str env (qtype req)
      else if k = ''name'' then name_uncached req
      else if k = ''class'' then rv_class_str env (qclass req)
      else if k = ''proto'' then proto_str req
      else if k = ''size'' then show_nat (rv_req_len env req)
      else if k = ''remote'' then show_ip (req_ip req)
      else if k = ''port'' then show_nat (req_port req)
      else if k = ''local'' then show_ip (local_ip req)
      else if k = ''local_port'' then show_nat (local_port req)
      else if k = ''when'' then rv_now env
      else if k = ''rcode'' then
        (case (msg, rep, err_rcode) of
           (Some m, _, _) \<Rightarrow> rcode_str (m_rcode m)
         | (None, Some r, _) \<Rightarrow> rcode_str (reply_rcode r)
         | (None, None, Some rc) \<Rightarrow> rcode_str rc
         | _ \<Rightarrow> COMMON_LOG_EMPTY)
      else if k = ''rsize'' then
        (case msg of
           Some m \<Rightarrow> show_nat (case rv_msg_len env m of Inr n \<Rightarrow> n | Inl _ \<Rightarrow> 0)
         | None \<Rightarrow> COMMON_LOG_EMPTY)
      else if k = ''duration'' then rv_elapsed env (rq_start req)
      else if k = ''>id'' then show_nat (unat (m_id (rq_msg req)))
      else if k = ''>opcode'' then opcode_str (m_opcode (rq_msg req))
      else if k = ''>do'' then show_bool (do_bit req)
      else if k = ''>bufsize'' then show_nat (req_size req)
      else if k = ''>rflags'' then (case msg of Some m \<Rightarrow> flags m | None \<Rightarrow> COMMON_LOG_EMPTY)
      else if k = ''server'' then rq_server req
      else if k = ''zone'' then rq_zone req
      else if k = ''view'' then rq_view req
      else if starts_with k ''/'' then
        (case rq_metadata req (drop 1 k) of Some v \<Rightarrow> v | None \<Rightarrow> COMMON_LOG_EMPTY)
      else ''{'' @ k @ ''}'')"

fun part_text :: "replacer_env \<Rightarrow> request \<Rightarrow> reply option \<Rightarrow> rcode option \<Rightarrow> part \<Rightarrow> string" where
  "part_text env req rep rc (Lit s) = s"
| "part_text env req rep rc (Ph k) = placeholder env k req rep rc"

definition replacer_replace :: "replacer_env \<Rightarrow> part list \<Rightarrow> request \<Rightarrow> reply option \<Rightarrow> rcode option \<Rightarrow> string" where
  "replacer_replace env parts req rep rc = concat (map (part_text env req rep rc) parts)"

section \<open>Lemmas\<close>

text \<open>The text a part was cut from, and the characters it may hold.\<close>

fun part_source :: "part \<Rightarrow> string" where
  "part_source (Lit s) = s"
| "part_source (Ph k) = ''{'' @ k @ ''}''"

lemma replacer_loop_source: "concat (map part_source (replacer_loop lit rest)) = lit @ rest"
proof (induction lit rest rule: replacer_loop.induct)
  case (1 lit rest)
  show ?case
  proof (cases "find_char (CHR ''{'') rest")
    case None
    then show ?thesis by (simp add: replacer_loop.simps [of lit rest] del: find_char_None)
  next
    case (Some i)
    let ?a = "drop (i + 1) rest"
    have i: "i < length rest" "rest ! i = CHR ''{''" using find_char_SomeD [OF Some] by auto
    then have r: "rest = take i rest @ ''{'' @ ?a" using id_take_nth_drop [OF i(1)] by simp
    show ?thesis
    proof (cases "find_char (CHR ''}'') ?a")
      case None
      from "1.IH"(1) [OF Some refl refl None] None Some r show ?thesis
        by (subst replacer_loop.simps) (simp add: Let_def del: find_char_None)
    next
      case (Some j)
      have "j < length ?a" "?a ! j = CHR ''}''" using find_char_SomeD [OF Some] by auto
      then have a: "?a = take j ?a @ ''}'' @ drop (j + 1) ?a" by (metis Suc_eq_plus1 append_Cons append_Nil id_take_nth_drop)
      from "1.IH"(2) [OF \<open>find_char (CHR ''{'') rest = Some i\<close> refl refl Some]
      have "concat (map part_source (replacer_loop lit rest)) = lit @ take i rest @ ''{'' @ take j ?a @ ''}'' @ drop (j + 1) ?a"
        using Some \<open>find_char (CHR ''{'') rest = Some i\<close> by (subst replacer_loop.simps) (simp add: Let_def del: find_char_None)
      with a r show ?thesis by metis
    qed
  qed
qed

lemma rcode_from_str_str: "rcode_from_str s = Some rc \<Longrightarrow> rcode_str rc = to_ascii_uppercase s"
  unfolding rcode_from_str_def rcode_str_def rcode_names_def by (auto split: if_splits)

section \<open>Properties\<close>

text \<open>Cutting a log format loses nothing: the literal parts and the placeholders with their braces, put together
  again, are the format with its two named formats expanded, also when a brace is not closed.\<close>

lemma replacer_new_lossless: "concat (map part_source (replacer_new fmt)) = replacer_expand fmt"
  by (simp add: replacer_new_def replacer_loop_source)

end
