(* ===== verification/Rewrite.thy ===== *)
theory Rewrite
  imports Block_Setup Replacer
begin

text \<open>
  The \<open>rewrite\<close> plugin, \<open>src/plugins/rewrite.rs\<close>: matchers, rules, the rewriting of a query, the
  undoing of it in the response, the handler and the setup.

  Regular expressions are those of the \<open>regex\<close> crate (\<open>regex_api\<close>); names, record types and classes
  are parsed by \<open>hickory_proto\<close>, hexadecimal data by the \<open>hex\<close> crate; the query the server sends to
  itself for a rewritten CNAME target is the argument \<open>re_self_lookup\<close>. \<open>clamp\<close> panics when its bounds
  are the wrong way round.

  Shown here: the inverse of a name rewrite, that the client gets back the question it asked, and
  which part of the question an error reply does not get back.
\<close>

section \<open>Matchers\<close>

record 'r regex_api =
  rx_new :: "string \<Rightarrow> 'r res"
  rx_is_match :: "'r \<Rightarrow> string \<Rightarrow> bool"
  rx_captures :: "'r \<Rightarrow> string \<Rightarrow> string option list option"

datatype 'r matcher = MExact string | MPrefix string | MSuffix string | MSubstring string | MRegex 'r

definition matcher_parse :: "'r regex_api \<Rightarrow> string \<Rightarrow> string \<Rightarrow> 'r matcher res" where
  "matcher_parse rx kind pat =
     (if kind = ''exact'' then Inr (MExact (fqdn pat))
      else if kind = ''prefix'' then Inr (MPrefix (to_ascii_lowercase pat))
      else if kind = ''suffix'' then Inr (MSuffix (to_ascii_lowercase (trim_start_matches (CHR ''.'') (fqdn pat))))
      else if kind = ''substring'' then Inr (MSubstring (to_ascii_lowercase pat))
      else if kind = ''regex'' then
        (case rx_new rx (''(?i)'' @ pat) of
           Inl e \<Rightarrow> Inl (''bad regex '' @ pat @ '': '' @ e)
         | Inr r \<Rightarrow> Inr (MRegex r))
      else Inl (''unknown name match type '' @ kind))"

fun matcher_matches :: "'r regex_api \<Rightarrow> 'r matcher \<Rightarrow> string \<Rightarrow> bool" where
  "matcher_matches rx (MExact e) name = (to_ascii_lowercase name = e)"
| "matcher_matches rx (MPrefix p) name = starts_with (to_ascii_lowercase name) p"
| "matcher_matches rx (MSuffix s) name = ends_with (to_ascii_lowercase name) s"
| "matcher_matches rx (MSubstring s) name = contains_sub (to_ascii_lowercase name) s"
| "matcher_matches rx (MRegex r) name = rx_is_match rx r (to_ascii_lowercase name)"

text \<open>The two loops over the groups of a match: \<open>{i}\<close> first, then \<open>${i}\<close> and \<open>$i\<close>.\<close>

definition expand_groups :: "string option list \<Rightarrow> string \<Rightarrow> string" where
  "expand_groups caps to =
     (let step1 = (\<lambda>out i. case caps ! i of
            Some m \<Rightarrow> replace_all (''{'' @ show_nat i @ ''}'') m out | None \<Rightarrow> out);
          step2 = (\<lambda>out i. case caps ! i of
            Some m \<Rightarrow> replace_all (''$'' @ show_nat i) m (replace_all (''${'' @ show_nat i @ ''}'') m out) | None \<Rightarrow> out)
      in foldl step2 (foldl step1 to [0..<length caps]) [0..<length caps])"

fun matcher_rewrite :: "'r regex_api \<Rightarrow> 'r matcher \<Rightarrow> string \<Rightarrow> string \<Rightarrow> string option" where
  "matcher_rewrite rx (MExact e) name to = (if to_ascii_lowercase name = e then Some (fqdn to) else None)"
| "matcher_rewrite rx (MPrefix p) name to =
     map_option (\<lambda>rest. fqdn (to @ rest)) (strip_prefix (to_ascii_lowercase name) p)"
| "matcher_rewrite rx (MSuffix s) name to =
     map_option (\<lambda>h. fqdn (h @ trim_start_matches (CHR ''.'') to)) (strip_suffix (to_ascii_lowercase name) s)"
| "matcher_rewrite rx (MSubstring s) name to =
     (if contains_sub (to_ascii_lowercase name) s then Some (fqdn (replace_all s to (to_ascii_lowercase name))) else None)"
| "matcher_rewrite rx (MRegex r) name to =
     map_option (\<lambda>caps. fqdn (expand_groups caps to)) (rx_captures rx r (to_ascii_lowercase name))"

fun matcher_inverse :: "'r matcher \<Rightarrow> string \<Rightarrow> ('r matcher \<times> string) option" where
  "matcher_inverse (MExact e) to = Some (MExact (fqdn to), e)"
| "matcher_inverse (MPrefix p) to = Some (MPrefix (to_ascii_lowercase to), p)"
| "matcher_inverse (MSuffix s) to = Some (MSuffix (to_ascii_lowercase (trim_start_matches (CHR ''.'') (fqdn to))), s)"
| "matcher_inverse (MSubstring s) to = Some (MSubstring (to_ascii_lowercase to), s)"
| "matcher_inverse (MRegex r) to = None"

section \<open>Rules\<close>

datatype 'r answer_rule = AAuto | AName "'r matcher" string | AValue "'r matcher" string

datatype edns0_action = ESet | EAppend | EReplace

definition edns0_action_parse :: "string \<Rightarrow> edns0_action res" where
  "edns0_action_parse s =
     (if s = ''set'' then Inr ESet else if s = ''append'' then Inr EAppend
      else if s = ''replace'' then Inr EReplace else Inl (''invalid action: '' @ s))"

datatype 'r rw_rule =
    RwName "'r matcher" string "'r answer_rule list"
  | RwType rtype rtype
  | RwClass dclass dclass
  | RwTtl "'r matcher" u32 u32
  | RwRcode "'r matcher" rcode rcode
  | RwCname "'r matcher" string
  | RwEdns0Local edns0_action u16 "u8 list" "string option"
  | RwEdns0Nsid edns0_action
  | RwEdns0Subnet edns0_action u8 u8

datatype rw_mode = Stop | Continue

record 'r undo =
  un_name :: "dname option"
  un_type :: "rtype option"
  un_class :: "dclass option"
  un_answer_rules :: "('r answer_rule \<times> 'r matcher \<times> string) list"
  un_ttl :: "('r matcher \<times> u32 \<times> u32) list"
  un_rcode :: "('r matcher \<times> rcode \<times> rcode) list"
  un_cname :: "('r matcher \<times> string) list"

definition undo_default :: "'r undo" where
  "undo_default = \<lparr>un_name = None, un_type = None, un_class = None, un_answer_rules = [], un_ttl = [],
     un_rcode = [], un_cname = []\<rparr>"

record ('r, 's) rewrite_env =
  re_regex :: "'r regex_api"
  re_from_ascii :: "string \<Rightarrow> dname res"
  re_type_str :: "rtype \<Rightarrow> string"
  re_self_lookup :: "request \<Rightarrow> dname \<Rightarrow> rtype \<Rightarrow> 's \<Rightarrow> message res \<times> 's"

definition expand_var :: "(rtype \<Rightarrow> string) \<Rightarrow> string \<Rightarrow> request \<Rightarrow> string" where
  "expand_var type_str var req =
     (if var = ''{qname}'' then name_uncached req
      else if var = ''{qtype}'' then type_str (qtype req)
      else if var = ''{client_ip}'' then show_ip (req_ip req)
      else if var = ''{client_port}'' then show_nat (req_port req)
      else if var = ''{protocol}'' then proto_str req
      else if var = ''{server_ip}'' then show_ip (local_ip req)
      else if var = ''{server_port}'' then show_nat (local_port req)
      else var)"

text \<open>\<open>get_or_insert_with\<close>, then the option when the action wants it.\<close>

definition edns_or_new :: "message \<Rightarrow> edns" where
  "edns_or_new m = (case m_edns m of Some e \<Rightarrow> e | None \<Rightarrow> edns_new\<lparr>ed_max_payload := UDP_BUFFER_SIZE\<rparr>)"

definition action_wants :: "edns0_action \<Rightarrow> bool \<Rightarrow> bool" where
  "action_wants act there = (case act of ESet \<Rightarrow> True | EAppend \<Rightarrow> \<not> there | EReplace \<Rightarrow> there)"

definition with_option :: "edns0_action \<Rightarrow> edns_option \<Rightarrow> request \<Rightarrow> request" where
  "with_option act opt req =
     (let e = edns_or_new (rq_msg req);
          e' = (if action_wants act (ed_options e (option_code opt) \<noteq> None) then insert_option opt e else e)
      in req\<lparr>rq_msg := (rq_msg req)\<lparr>m_edns := Some e'\<rparr>\<rparr>)"

definition apply_edns0 :: "edns0_action \<Rightarrow> u16 \<Rightarrow> u8 list \<Rightarrow> request \<Rightarrow> request" where
  "apply_edns0 act code data = with_option act (OptUnknown code data)"

definition mask_bits :: "nat \<Rightarrow> u8 \<Rightarrow> 'a::len word \<Rightarrow> 'a word" where
  "mask_bits w n a = (if n = 0 then 0 else a AND push_bit (w - unat n) (- 1))"

definition subnet_option :: "ip_addr \<Rightarrow> u8 \<Rightarrow> u8 \<Rightarrow> edns_option" where
  "subnet_option ip v4 v6 =
     (case ip of
        V4 a \<Rightarrow> OptSubnet (V4 (be_octets 4 (mask_bits 32 v4 (be_word a :: 32 word)))) v4 0
      | V6 a \<Rightarrow> OptSubnet (V6 (be_octets 16 (mask_bits 128 v6 (be_word a :: 128 word)))) v6 0)"

text \<open>\<open>take_queries\<close>, a change of the first one, \<open>add_query\<close> of all.\<close>

fun map_first :: "('a \<Rightarrow> 'a) \<Rightarrow> 'a list \<Rightarrow> 'a list" where
  "map_first f [] = []"
| "map_first f (x # xs) = f x # xs"

definition map_question :: "(question \<Rightarrow> question) \<Rightarrow> request \<Rightarrow> request" where
  "map_question f req = req\<lparr>rq_msg := (rq_msg req)\<lparr>m_queries := map_first f (m_queries (rq_msg req))\<rparr>\<rparr>"

definition unless_set :: "'a \<Rightarrow> 'a option \<Rightarrow> 'a option" where
  "unless_set x o' = (case o' of Some y \<Rightarrow> Some y | None \<Rightarrow> Some x)"

fun apply_rule :: "('r, 's) rewrite_env \<Rightarrow> 'r rw_rule \<Rightarrow> 'r undo \<Rightarrow> request \<Rightarrow> bool \<times> 'r undo \<times> request" where
  "apply_rule env (RwName m to answers) u req =
     (let name = name_uncached req in
      case matcher_rewrite (re_regex env) m name to of
        None \<Rightarrow> (False, u, req)
      | Some new \<Rightarrow>
          if new = name then (False, u, req)
          else (case re_from_ascii env new of
              Inl _ \<Rightarrow> (False, u, req)
            | Inr n \<Rightarrow>
                (True, u\<lparr>un_name := unless_set (qname req) (un_name u),
                         un_answer_rules := un_answer_rules u @ map (\<lambda>a. (a, m, to)) answers\<rparr>,
                 clear_name_cache (map_question (\<lambda>q. q\<lparr>q_name := n\<rparr>) req))))"
| "apply_rule env (RwType from to) u req =
     (if qtype req = from
      then (True, u\<lparr>un_type := unless_set from (un_type u)\<rparr>, map_question (\<lambda>q. q\<lparr>q_type := to\<rparr>) req)
      else (False, u, req))"
| "apply_rule env (RwClass from to) u req =
     (if qclass req = from
      then (True, u\<lparr>un_class := unless_set from (un_class u)\<rparr>, map_question (\<lambda>q. q\<lparr>q_class := to\<rparr>) req)
      else (False, u, req))"
| "apply_rule env (RwTtl m mn mx) u req =
     (if matcher_matches (re_regex env) m (name_uncached req)
      then (True, u\<lparr>un_ttl := un_ttl u @ [(m, mn, mx)]\<rparr>, req) else (False, u, req))"
| "apply_rule env (RwRcode m from to) u req =
     (if matcher_matches (re_regex env) m (name_uncached req)
      then (True, u\<lparr>un_rcode := un_rcode u @ [(m, from, to)]\<rparr>, req) else (False, u, req))"
| "apply_rule env (RwCname m to) u req = (False, u\<lparr>un_cname := un_cname u @ [(m, to)]\<rparr>, req)"
| "apply_rule env (RwEdns0Local act code data var) u req =
     (True, u, apply_edns0 act code (case var of Some v \<Rightarrow> bytes_of (expand_var (re_type_str env) v req) | None \<Rightarrow> data) req)"
| "apply_rule env (RwEdns0Nsid act) u req = (True, u, apply_edns0 act code_nsid [] req)"
| "apply_rule env (RwEdns0Subnet act v4 v6) u req = (True, u, with_option act (subnet_option (req_ip req) v4 v6) req)"

fun apply_rules :: "('r, 's) rewrite_env \<Rightarrow> (rw_mode \<times> 'r rw_rule) list \<Rightarrow> 'r undo \<Rightarrow> request \<Rightarrow> 'r undo \<times> request" where
  "apply_rules env [] u req = (u, req)"
| "apply_rules env ((mode, rule) # rs) u req =
     (case apply_rule env rule u req of
        (matched, u', req') \<Rightarrow> if matched \<and> mode = Stop then (u', req') else apply_rules env rs u' req')"

definition apply_request :: "('r, 's) rewrite_env \<Rightarrow> (rw_mode \<times> 'r rw_rule) list \<Rightarrow> request \<Rightarrow> 'r undo \<times> request" where
  "apply_request env rules req = apply_rules env rules undo_default req"

section \<open>Responses\<close>

definition set_opt :: "('a \<Rightarrow> 'b \<Rightarrow> 'b) \<Rightarrow> 'a option \<Rightarrow> 'b \<Rightarrow> 'b" where
  "set_opt f x y = (case x of Some v \<Rightarrow> f v y | None \<Rightarrow> y)"

definition restore_question :: "'r undo \<Rightarrow> question \<Rightarrow> question" where
  "restore_question u q =
     set_opt (\<lambda>c q. q\<lparr>q_class := c\<rparr>) (un_class u)
       (set_opt (\<lambda>t q. q\<lparr>q_type := t\<rparr>) (un_type u) (set_opt (\<lambda>n q. q\<lparr>q_name := n\<rparr>) (un_name u) q))"

text \<open>\<open>if let Ok(nn) = Name::from_ascii(&n) { ... }\<close> around a rewritten name.\<close>

definition renamed :: "(string \<Rightarrow> dname res) \<Rightarrow> string option \<Rightarrow> dname option" where
  "renamed from_ascii t = (case t of None \<Rightarrow> None | Some n \<Rightarrow> ok (from_ascii n))"

definition set_target :: "dname \<Rightarrow> rr \<Rightarrow> rr" where
  "set_target n r =
     (case rr_data r of
        Some (RD_CNAME _) \<Rightarrow> r\<lparr>rr_data := Some (RD_CNAME n)\<rparr>
      | Some (RD_PTR _) \<Rightarrow> r\<lparr>rr_data := Some (RD_PTR n)\<rparr>
      | _ \<Rightarrow> r)"

definition value_target :: "rr \<Rightarrow> string option" where
  "value_target r =
     (case rr_data r of Some (RD_CNAME n) \<Rightarrow> Some (name_str n) | Some (RD_PTR n) \<Rightarrow> Some (name_str n) | _ \<Rightarrow> None)"

fun answer_step ::
    "('r, 's) rewrite_env \<Rightarrow> string \<Rightarrow> dname option \<Rightarrow> 'r answer_rule \<times> 'r matcher \<times> string \<Rightarrow> rr \<Rightarrow> rr" where
  "answer_step env new_qname orig (AAuto, m, to) r =
     (if name_str (rr_name r) = new_qname then set_opt (\<lambda>n r. r\<lparr>rr_name := n\<rparr>) orig r
      else (case matcher_inverse m to of
          None \<Rightarrow> r
        | Some (iv, back) \<Rightarrow>
            set_opt (\<lambda>n r. r\<lparr>rr_name := n\<rparr>)
              (renamed (re_from_ascii env) (matcher_rewrite (re_regex env) iv (name_str (rr_name r)) back)) r))"
| "answer_step env new_qname orig (AName am ato, m, to) r =
     set_opt (\<lambda>n r. r\<lparr>rr_name := n\<rparr>)
       (renamed (re_from_ascii env) (matcher_rewrite (re_regex env) am (name_str (rr_name r)) ato)) r"
| "answer_step env new_qname orig (AValue vm vto, m, to) r =
     (case value_target r of
        None \<Rightarrow> r
      | Some t \<Rightarrow> set_opt set_target (renamed (re_from_ascii env) (matcher_rewrite (re_regex env) vm t vto)) r)"

definition ttl_step :: "('r, 's) rewrite_env \<Rightarrow> 'r matcher \<times> u32 \<times> u32 \<Rightarrow> rr \<Rightarrow> rr list res" where
  "ttl_step env t r =
     (case t of (m, mn, mx) \<Rightarrow>
        if matcher_matches (re_regex env) m (name_str (rr_name r))
        then rbind (clamp (unat (rr_ttl r)) (unat mn) (unat mx)) (\<lambda>x. Inr [r\<lparr>rr_ttl := of_nat x\<rparr>])
        else Inr [r])"

fun ttl_rules :: "('r, 's) rewrite_env \<Rightarrow> ('r matcher \<times> u32 \<times> u32) list \<Rightarrow> message \<Rightarrow> message res" where
  "ttl_rules env [] m = Inr m"
| "ttl_rules env (t # ts) m =
     rbind (try_flat_map (ttl_step env t) (m_answers m)) (\<lambda>rs. ttl_rules env ts (m\<lparr>m_answers := rs\<rparr>))"

definition rcode_step :: "message \<Rightarrow> 'r matcher \<times> rcode \<times> rcode \<Rightarrow> message" where
  "rcode_step m t = (case t of (_, from, to) \<Rightarrow> if m_rcode m = from then m\<lparr>m_rcode := to\<rparr> else m)"

text \<open>The loop over the answers of one CNAME rule: the answers, the chased records, whether one changed.\<close>

fun cname_loop ::
    "('r, 's) rewrite_env \<Rightarrow> 'r matcher \<times> string \<Rightarrow> request \<Rightarrow> rr list \<Rightarrow> 's \<Rightarrow> (rr list \<times> rr list \<times> bool) \<times> 's" where
  "cname_loop env (m, to) req [] s = (([], [], False), s)"
| "cname_loop env (m, to) req (r # rs) s =
     (case (case rr_data r of
              Some (RD_CNAME c) \<Rightarrow> renamed (re_from_ascii env) (matcher_rewrite (re_regex env) m (name_str c) to)
            | _ \<Rightarrow> None) of
        None \<Rightarrow> (case cname_loop env (m, to) req rs s of ((as, ch, b), s') \<Rightarrow> ((r # as, ch, b), s'))
      | Some nn \<Rightarrow>
          (case re_self_lookup env req nn (qtype req) s of (res, s1) \<Rightarrow>
             (case cname_loop env (m, to) req rs s1 of ((as, ch, b), s') \<Rightarrow>
                ((from_rdata (rr_name r) (rr_ttl r) (RD_CNAME nn) # as,
                  (case res of Inr x \<Rightarrow> m_answers x | Inl _ \<Rightarrow> []) @ ch, True), s'))))"

fun cname_rules :: "('r, 's) rewrite_env \<Rightarrow> ('r matcher \<times> string) list \<Rightarrow> request \<Rightarrow> message \<Rightarrow> 's \<Rightarrow> message \<times> 's" where
  "cname_rules env [] req m s = (m, s)"
| "cname_rules env (t # ts) req m s =
     (case cname_loop env t req (m_answers m) s of ((as, chased, changed), s') \<Rightarrow>
        cname_rules env ts req
          (m\<lparr>m_answers := (if changed then filter (\<lambda>r. rr_type r = RT_CNAME) as @ chased else as)\<rparr>) s')"

definition apply_response :: "('r, 's) rewrite_env \<Rightarrow> request \<Rightarrow> 'r undo \<Rightarrow> message \<Rightarrow> 's \<Rightarrow> message res \<times> 's" where
  "apply_response env req u m s =
     (let m1 = m\<lparr>m_queries := map_first (restore_question u) (m_queries m)\<rparr>;
          m2 = m1\<lparr>m_answers := foldl (\<lambda>as t. map (answer_step env (name_uncached req) (un_name u) t) as)
                      (m_answers m1) (un_answer_rules u)\<rparr>
      in case ttl_rules env (un_ttl u) m2 of
           Inl e \<Rightarrow> (Inl e, s)
         | Inr m3 \<Rightarrow>
             (case cname_rules env (un_cname u) req (foldl rcode_step m3 (un_rcode u)) s of (m4, s') \<Rightarrow> (Inr m4, s')))"

section \<open>The handler\<close>

definition restore_request :: "'r undo \<Rightarrow> request \<Rightarrow> request" where
  "restore_request u req =
     (case un_name u of
        None \<Rightarrow> req
      | Some n \<Rightarrow> clear_name_cache (map_question (\<lambda>q. q\<lparr>q_name := n\<rparr>) req))"

definition rewrite_serve :: "('r, 's) rewrite_env \<Rightarrow> (rw_mode \<times> 'r rw_rule) list \<Rightarrow> 's handler" where
  "rewrite_serve env rules req nx s =
     (case apply_request env rules req of (u, req1) \<Rightarrow>
        on_reply (nx_serve nx req1 s) (\<lambda>r req2 s2.
          (case reply_msg r of
             None \<Rightarrow> (Replied r, restore_request u req2, s2)
           | Some m \<Rightarrow>
               (case apply_response env req2 u m s2 of
                  (Inl e, s3) \<Rightarrow> (Panicked e, req2, s3)
                | (Inr m', s3) \<Rightarrow> (Replied (reply_map_msg (\<lambda>_. m') r), restore_request u req2, s3)))))"

section \<open>Setup\<close>

text \<open>What the setup parses with: \<open>hickory_proto\<close>'s types and classes, \<open>hex::decode\<close>.\<close>

record 'r rewrite_parsers =
  rp_regex :: "'r regex_api"
  rp_rtype :: "string \<Rightarrow> rtype res"
  rp_class :: "string \<Rightarrow> dclass res"
  rp_hex :: "string \<Rightarrow> u8 list res"

definition parse_edns0_data :: "(string \<Rightarrow> u8 list res) \<Rightarrow> string \<Rightarrow> (u8 list \<times> string option) res" where
  "parse_edns0_data hex_decode s =
     (if starts_with s ''{'' \<and> ends_with s ''}'' then Inr ([], Some s)
      else (case strip_prefix s ''0x'' of
          Some h \<Rightarrow> (case hex_decode h of
              Inl e \<Rightarrow> Inl (''bad hex data '' @ s @ '': '' @ e)
            | Inr d \<Rightarrow> Inr (d, None))
        | None \<Rightarrow> Inr (bytes_of s, None)))"

definition is_kind :: "string \<Rightarrow> bool" where
  "is_kind s \<longleftrightarrow> s \<in> {''exact'', ''prefix'', ''suffix'', ''substring'', ''regex''}"

text \<open>The optional match type in front of the arguments of a rule.\<close>

definition split_kind :: "string \<Rightarrow> string list \<Rightarrow> string \<times> string list" where
  "split_kind dflt as = (case as of a # rest \<Rightarrow> if is_kind a then (a, rest) else (dflt, as) | [] \<Rightarrow> (dflt, []))"

definition parse_answer_line :: "'r regex_api \<Rightarrow> (string \<Rightarrow> err) \<Rightarrow> string \<Rightarrow> string list \<Rightarrow> 'r answer_rule list res" where
  "parse_answer_line rx ef kind line =
     (if first line \<noteq> Some ''answer'' then Inl (ef (''unexpected '' @ quote (join_with '' '' line) @ '' in name rule''))
      else (case tl line of
          [] \<Rightarrow> Inl (ef ''answer needs auto, name or value'')
        | which # rest \<Rightarrow>
            if which = ''auto'' then Inr [AAuto]
            else if which = ''name'' \<or> which = ''value'' then
              (case split_kind kind rest of (akind, arest) \<Rightarrow>
                 if length arest \<noteq> 2 then Inl (ef ''answer rule needs FROM and TO'')
                 else rbind (matcher_parse rx akind (arest ! 0)) (\<lambda>am.
                   Inr [if which = ''name'' then AName am (arest ! 1) else AValue am (arest ! 1)]))
            else Inl (ef ''answer needs auto, name or value'')))"

definition parse_name_rule :: "'r regex_api \<Rightarrow> (string \<Rightarrow> err) \<Rightarrow> string list \<Rightarrow> string list list \<Rightarrow> 'r rw_rule res" where
  "parse_name_rule rx ef as block =
     (case split_kind ''exact'' as of (kind, rest) \<Rightarrow>
        if length rest < 2 then Inl (ef ''name rule needs FROM and TO'')
        else rbind (matcher_parse rx kind (rest ! 0)) (\<lambda>m.
          (let extra = (if length rest > 2 then [drop 2 rest] else []) @ block in
           rbind (try_flat_map (parse_answer_line rx ef kind) extra) (\<lambda>answers. Inr (RwName m (rest ! 1) answers)))))"

definition parse_ttl_range :: "string \<Rightarrow> (nat \<times> nat) res" where
  "parse_ttl_range t =
     (case find_char (CHR ''-'') t of
        Some i \<Rightarrow> rbind (parse_radix 10 4294967295 (take i t)) (\<lambda>a.
                  rbind (parse_radix 10 4294967295 (drop (i + 1) t)) (\<lambda>b. Inr (a, b)))
      | None \<Rightarrow> rbind (parse_radix 10 4294967295 t) (\<lambda>a. Inr (a, a)))"

definition parse_ttl_rule :: "'r regex_api \<Rightarrow> (string \<Rightarrow> err) \<Rightarrow> string list \<Rightarrow> 'r rw_rule res" where
  "parse_ttl_rule rx ef as =
     (case split_kind ''exact'' as of (kind, rest) \<Rightarrow>
        if length rest \<noteq> 2 then Inl (ef ''ttl rule needs NAME and TTL'')
        else rbind (matcher_parse rx kind (rest ! 0)) (\<lambda>m.
             rbind (parse_ttl_range (rest ! 1)) (\<lambda>(mn, mx). Inr (RwTtl m (of_nat mn) (of_nat mx)))))"

definition parse_rcode_name :: "string \<Rightarrow> rcode res" where
  "parse_rcode_name s = ok_or (''unknown rcode '' @ s) (rcode_from_str s)"

definition parse_rcode_rule :: "'r regex_api \<Rightarrow> (string \<Rightarrow> err) \<Rightarrow> string list \<Rightarrow> 'r rw_rule res" where
  "parse_rcode_rule rx ef as =
     (case split_kind ''exact'' as of (kind, rest) \<Rightarrow>
        if length rest \<noteq> 3 then Inl (ef ''rcode rule needs NAME FROM TO'')
        else rbind (matcher_parse rx kind (rest ! 0)) (\<lambda>m.
             rbind (parse_rcode_name (rest ! 1)) (\<lambda>from.
             rbind (parse_rcode_name (rest ! 2)) (\<lambda>to. Inr (RwRcode m from to)))))"

definition parse_cname_rule :: "'r regex_api \<Rightarrow> (string \<Rightarrow> err) \<Rightarrow> string list \<Rightarrow> 'r rw_rule res" where
  "parse_cname_rule rx ef as =
     (case split_kind ''exact'' as of (kind, rest) \<Rightarrow>
        if length rest \<noteq> 2 then Inl (ef ''cname rule needs FROM and TO'')
        else rbind (matcher_parse rx kind (rest ! 0)) (\<lambda>m. Inr (RwCname m (rest ! 1))))"

definition parse_edns0_local :: "(string \<Rightarrow> u8 list res) \<Rightarrow> string list \<Rightarrow> 'r rw_rule res" where
  "parse_edns0_local hex_decode as =
     rbind (edns0_action_parse (as ! 1)) (\<lambda>act.
     rbind (case strip_prefix (as ! 2) ''0x'' of
              Some h \<Rightarrow> parse_radix 16 65535 h | None \<Rightarrow> parse_radix 10 65535 (as ! 2)) (\<lambda>code.
     rbind (parse_edns0_data hex_decode (as ! 3)) (\<lambda>(data, var). Inr (RwEdns0Local act (of_nat code) data var))))"

definition parse_edns0_subnet :: "(string \<Rightarrow> err) \<Rightarrow> string list \<Rightarrow> 'r rw_rule res" where
  "parse_edns0_subnet ef as =
     rbind (parse_radix 10 255 (as ! 2)) (\<lambda>v4.
     rbind (parse_radix 10 255 (as ! 3)) (\<lambda>v6.
     if v4 > 32 \<or> v6 > 128 then Inl (ef ''bad subnet mask bits'')
     else rbind (edns0_action_parse (as ! 1)) (\<lambda>act. Inr (RwEdns0Subnet act (of_nat v4) (of_nat v6)))))"

definition parse_edns0_rule :: "(string \<Rightarrow> u8 list res) \<Rightarrow> (string \<Rightarrow> err) \<Rightarrow> string list \<Rightarrow> 'r rw_rule res" where
  "parse_edns0_rule hex_decode ef as =
     (case as of
        [] \<Rightarrow> Inl (ef ''edns0 rule needs a type'')
      | k # _ \<Rightarrow>
          if k = ''local'' then
            (if length as \<noteq> 4 then Inl (ef ''edns0 local needs ACTION CODE DATA'') else parse_edns0_local hex_decode as)
          else if k = ''nsid'' then
            (if length as \<noteq> 2 then Inl (ef ''edns0 nsid needs ACTION'')
             else rbind (edns0_action_parse (as ! 1)) (\<lambda>act. Inr (RwEdns0Nsid act)))
          else if k = ''subnet'' then
            (if length as \<noteq> 4 then Inl (ef ''edns0 subnet needs ACTION V4-BITS V6-BITS'') else parse_edns0_subnet ef as)
          else Inl (ef (''unknown edns0 type '' @ k)))"

definition parse_class_rule :: "(string \<Rightarrow> dclass res) \<Rightarrow> (string \<Rightarrow> err) \<Rightarrow> string list \<Rightarrow> 'r rw_rule res" where
  "parse_class_rule class_parse ef as =
     (let pc = (\<lambda>s. case class_parse (to_ascii_uppercase s) of
                      Inl e \<Rightarrow> Inl (''bad class '' @ s @ '': '' @ e) | Inr c \<Rightarrow> Inr c) in
      if length as \<noteq> 2 then Inl (ef ''class rule needs FROM and TO'')
      else rbind (pc (as ! 0)) (\<lambda>from. rbind (pc (as ! 1)) (\<lambda>to. Inr (RwClass from to))))"

definition parse_type_rule :: "(string \<Rightarrow> rtype res) \<Rightarrow> (string \<Rightarrow> err) \<Rightarrow> string list \<Rightarrow> 'r rw_rule res" where
  "parse_type_rule rtype_parse ef as =
     (if length as \<noteq> 2 then Inl (ef ''type rule needs FROM and TO'')
      else rbind (record_type_from_str rtype_parse (as ! 0)) (\<lambda>from.
           rbind (record_type_from_str rtype_parse (as ! 1)) (\<lambda>to. Inr (RwType from to))))"

definition split_mode :: "string list \<Rightarrow> rw_mode \<times> string list" where
  "split_mode as =
     (case as of
        a # rest \<Rightarrow> if a = ''continue'' then (Continue, rest) else if a = ''stop'' then (Stop, rest) else (Stop, as)
      | [] \<Rightarrow> (Stop, []))"

definition parse_rule ::
    "'r rewrite_parsers \<Rightarrow> (string \<Rightarrow> err) \<Rightarrow> string list \<Rightarrow> string list list \<Rightarrow> (rw_mode \<times> 'r rw_rule) res" where
  "parse_rule ps ef as0 block =
     (case split_mode as0 of
        (mode, []) \<Rightarrow> Inl (ef ''rewrite rule needs a field'')
      | (mode, field # as) \<Rightarrow>
          rbind (if field = ''name'' then parse_name_rule (rp_regex ps) ef as block
                 else if field = ''type'' then parse_type_rule (rp_rtype ps) ef as
                 else if field = ''class'' then parse_class_rule (rp_class ps) ef as
                 else if field = ''ttl'' then parse_ttl_rule (rp_regex ps) ef as
                 else if field = ''rcode'' then parse_rcode_rule (rp_regex ps) ef as
                 else if field = ''cname'' then parse_cname_rule (rp_regex ps) ef as
                 else if field = ''edns0'' then parse_edns0_rule (rp_hex ps) ef as
                 else Inl (ef (''invalid rule type '' @ [CHR 0x22] @ field @ [CHR 0x22])))
            (\<lambda>rule. Inr (mode, rule)))"

text \<open>
  The setup takes the lines of a block as they are, so that \<open>next_block\<close> past the last token, where it
  answers true for ever (see \<open>skip_block\<close> in \<open>Dispenser\<close>), makes it loop: not returning is \<open>None\<close>.
\<close>

partial_function (option) rewrite_block ::
    "string list list \<Rightarrow> 's controller \<Rightarrow> (string list list \<times> 's controller) option" where
  "rewrite_block acc c =
     (case ctl_disp next_block c of (again, c1) \<Rightarrow>
        if \<not> again then Some (acc, c1)
        else (case ctl_disp remaining_args c1 of (as, c2) \<Rightarrow> rewrite_block (acc @ [ctl_val c1 # as]) c2))"

partial_function (option) rewrite_rules_loop ::
    "'r rewrite_parsers \<Rightarrow> (rw_mode \<times> 'r rw_rule) list \<Rightarrow> 's controller
     \<Rightarrow> ((rw_mode \<times> 'r rw_rule) list res \<times> 's controller) option" where
  "rewrite_rules_loop ps rules c =
     (case ctl_disp next_tok c of (again, c1) \<Rightarrow>
        if \<not> again then Some (Inr rules, c1)
        else (case ctl_disp remaining_args_until_brace c1 of (as, c2) \<Rightarrow>
          Option.bind (rewrite_block [] c2) (\<lambda>(block, c3).
            if as = [] then Some (Inl (ctl_arg_err c3), c3)
            else (case parse_rule ps (ctl_errf c3) as block of
                Inl e \<Rightarrow> Some (Inl e, c3)
              | Inr r \<Rightarrow> rewrite_rules_loop ps (rules @ [r]) c3))))"

definition rewrite_setup ::
    "'r rewrite_parsers \<Rightarrow> ('r, 's) rewrite_env \<Rightarrow> 's controller \<Rightarrow> (unit res \<times> 's controller) option" where
  "rewrite_setup ps env c =
     Option.bind (rewrite_rules_loop ps [] c) (\<lambda>(r, c1).
       (case r of
          Inl e \<Rightarrow> Some (Inl e, c1)
        | Inr rules \<Rightarrow> Some (Inr (), add_plugin (''rewrite'', rewrite_serve env rules) c1)))"

section \<open>The handler keeps its contract\<close>

lemma map_question_id [simp]: "m_id (rq_msg (map_question f req)) = m_id (rq_msg req)"
  by (simp add: map_question_def)

lemma with_option_id [simp]: "m_id (rq_msg (with_option act opt req)) = m_id (rq_msg req)"
  by (simp add: with_option_def Let_def)

lemma clear_name_cache_msg [simp]: "rq_msg (clear_name_cache r) = rq_msg r"
  by (simp add: clear_name_cache_def)

lemma apply_rule_id: "apply_rule env rule u req = (b, u', req') \<Longrightarrow> m_id (rq_msg req') = m_id (rq_msg req)"
  by (cases rule) (auto simp: Let_def apply_edns0_def split: option.splits sum.splits if_splits)

lemma apply_rules_id: "apply_rules env rules u req = (u', req') \<Longrightarrow> m_id (rq_msg req') = m_id (rq_msg req)"
proof (induction rules arbitrary: u req)
  case (Cons mr rules)
  obtain mode rule where mr: "mr = (mode, rule)" by (cases mr)
  obtain b u1 req1 where a: "apply_rule env rule u req = (b, u1, req1)" by (cases "apply_rule env rule u req")
  with Cons show ?case by (auto simp: mr dest: apply_rule_id split: if_splits)
qed simp

lemma ttl_rules_fields:
  "ttl_rules env ts m = Inr m' \<Longrightarrow> m_id m' = m_id m \<and> m_queries m' = m_queries m \<and> m_rcode m' = m_rcode m"
  by (induction ts arbitrary: m) fastforce+

lemma rcode_steps_fields: "m_id (foldl rcode_step m ts) = m_id m" "m_queries (foldl rcode_step m ts) = m_queries m"
  by (induction ts arbitrary: m) (simp_all add: rcode_step_def split: prod.splits)

lemma cname_rules_fields: "cname_rules env ts req m s = (m', s') \<Longrightarrow> m_id m' = m_id m \<and> m_queries m' = m_queries m"
  by (induction ts arbitrary: m s) (fastforce split: prod.splits)+

lemma apply_response_fields:
  assumes "apply_response env req u m s = (Inr m', s')"
  shows "m_id m' = m_id m" "m_queries m' = map_first (restore_question u) (m_queries m)"
  using assms
  by (auto simp: apply_response_def Let_def rcode_steps_fields split: sum.splits prod.splits
      dest!: ttl_rules_fields cname_rules_fields)

lemma restore_request_id [simp]: "m_id (rq_msg (restore_request u req)) = m_id (rq_msg req)"
  by (simp add: restore_request_def split: option.splits)

text \<open>What the handler answers, given the answer of the rest of the chain to the rewritten query.\<close>

lemma rewrite_serve_cases:
  assumes "apply_request env rules req = (u, req1)" "nx_serve nx req1 s = (out, req2, s2)"
  shows "rewrite_serve env rules req nx s =
    (case out of
       Replied r \<Rightarrow>
         (case reply_msg r of
            None \<Rightarrow> (Replied r, restore_request u req2, s2)
          | Some m \<Rightarrow>
              (case apply_response env req2 u m s2 of
                 (Inl e, s3) \<Rightarrow> (Panicked e, req2, s3)
               | (Inr m', s3) \<Rightarrow> (Replied (reply_map_msg (\<lambda>_. m') r), restore_request u req2, s3)))
     | _ \<Rightarrow> (out, req2, s2))"
  using assms by (simp add: rewrite_serve_def on_reply_def split: outcome.splits)

lemma rewrite_keeps_id:
  assumes k: "keeps_id (nx_serve nx)"
  shows "keeps_id (\<lambda>req s. rewrite_serve env rules req nx s)"
proof (rule keeps_idI)
  fix req s out' req' s'
  assume run: "rewrite_serve env rules req nx s = (out', req', s')"
  obtain u req1 where a: "apply_request env rules req = (u, req1)" by (cases "apply_request env rules req")
  obtain out req2 s2 where n: "nx_serve nx req1 s = (out, req2, s2)" by (cases "nx_serve nx req1 s")
  have i1: "m_id (rq_msg req1) = m_id (rq_msg req)" using a by (auto simp: apply_request_def dest: apply_rules_id)
  note K = keeps_idD [OF k n]
  have "req' = req2 \<or> req' = restore_request u req2"
    using run unfolding rewrite_serve_cases [OF a n]
    by (auto split: outcome.splits option.splits prod.splits sum.splits)
  then show "m_id (rq_msg req') = m_id (rq_msg req)" using K(1) i1 by auto
next
  fix req s m req' s'
  assume run: "rewrite_serve env rules req nx s = (Replied (RMsg m), req', s')"
  obtain u req1 where a: "apply_request env rules req = (u, req1)" by (cases "apply_request env rules req")
  obtain out req2 s2 where n: "nx_serve nx req1 s = (out, req2, s2)" by (cases "nx_serve nx req1 s")
  have i1: "m_id (rq_msg req1) = m_id (rq_msg req)" using a by (auto simp: apply_request_def dest: apply_rules_id)
  obtain m0 where m0: "out = Replied (RMsg m0)" "m_id m = m_id m0"
    using run unfolding rewrite_serve_cases [OF a n]
    by (auto split: outcome.splits option.splits prod.splits sum.splits dest: apply_response_fields(1))
  with keeps_idD(2) [OF k n m0(1)] i1 show "m_id m = m_id (rq_msg req)" by simp
qed

interpretation rewrite_handler: id_keeping_handler "rewrite_serve env rules"
  by unfold_locales (rule rewrite_keeps_id)

section \<open>Undoing a rewrite\<close>

lemma fqdn_props [simp]: "ends_with (fqdn s) ''.''" "to_ascii_lowercase (fqdn s) = fqdn s" "fqdn (fqdn s) = fqdn s"
  by (simp_all add: fqdn_def Let_def)

lemma fqdn_append: "t \<noteq> [] \<Longrightarrow> fqdn (h @ t) = to_ascii_lowercase h @ fqdn t"
  by (simp add: fqdn_def Let_def ends_with_single)

lemma fqdn_id: "to_ascii_lowercase n = n \<Longrightarrow> ends_with n ''.'' \<Longrightarrow> fqdn n = n"
  by (simp add: fqdn_def Let_def)

lemma fqdn_lower: "fqdn n = n \<Longrightarrow> to_ascii_lowercase n = n"
  by (metis fqdn_props(2))

lemma fqdn_tail: "fqdn (p @ r) = p @ r \<Longrightarrow> r \<noteq> [] \<Longrightarrow> fqdn r = r \<and> to_ascii_lowercase p = p"
proof -
  assume n: "fqdn (p @ r) = p @ r" and r: "r \<noteq> []"
  from fqdn_lower [OF n] have l: "to_ascii_lowercase p = p" "to_ascii_lowercase r = r"
    by (metis append_eq_append_conv length_to_ascii_lowercase to_ascii_lowercase_append)+
  with fqdn_append [OF r, of p] n show ?thesis by simp
qed

lemma trim_start_fqdn:
  assumes "trim_start_matches (CHR ''.'') t \<noteq> []"
  shows "trim_start_matches (CHR ''.'') (fqdn t) = fqdn (trim_start_matches (CHR ''.'') t)"
proof -
  define d where "d = takeWhile (\<lambda>c. c = CHR ''.'') t"
  define r where "r = trim_start_matches (CHR ''.'') t"
  have t: "t = d @ r" "\<forall>c \<in> set d. c = CHR ''.''" "r = trim_start_matches (CHR ''.'') t"
    by (auto simp: d_def r_def trim_start_matches_def dest: set_takeWhileD)
  from assms t(3) have r: "r \<noteq> []" "hd r \<noteq> CHR ''.''"
    using hd_dropWhile [of "\<lambda>c. c = CHR ''.''" t] by (auto simp: trim_start_matches_def)
  then have h: "hd (fqdn r) \<noteq> CHR ''.''" "fqdn r \<noteq> []"
    by (cases r; simp add: fqdn_def Let_def)+
  have "fqdn t = to_ascii_lowercase d @ fqdn r" using fqdn_append [OF r(1)] t(1) by simp
  moreover have "\<forall>c \<in> set (to_ascii_lowercase d). c = CHR ''.''" 
    unfolding to_ascii_lowercase_def list.set_map using t(2) by (metis ascii_lower_dot imageE)
  ultimately show ?thesis using h t(3)
    by (cases "fqdn r") (auto simp: trim_start_matches_def dropWhile_append)
qed

lemma matcher_suffix_trimmed:
  "trim_start_matches (CHR ''.'') (to_ascii_lowercase (trim_start_matches (CHR ''.'') s)) =
     to_ascii_lowercase (trim_start_matches (CHR ''.'') s)"
proof (cases "trim_start_matches (CHR ''.'') s")
  case (Cons a as)
  then have "a \<noteq> CHR ''.''" using hd_dropWhile [of "\<lambda>c. c = CHR ''.''" s] by (auto simp: trim_start_matches_def)
  with Cons show ?thesis by (simp add: trim_start_matches_def)
next
  case Nil
  then show ?thesis unfolding Nil by (simp add: trim_start_matches_def)
qed

lemma prefix_inverse:
  assumes "fqdn n = n" "strip_prefix n p = Some rest" "rest \<noteq> []" "to_ascii_lowercase p = p"
  shows "matcher_rewrite rx (MPrefix (to_ascii_lowercase to)) (fqdn (to @ rest)) p = Some n"
proof -
  from assms(2) have n: "n = p @ rest" by (rule strip_prefix_SomeD)
  with assms have "fqdn rest = rest" using fqdn_tail by blast
  moreover from this have "to_ascii_lowercase rest = rest" by (rule fqdn_lower)
  ultimately show ?thesis using assms n by (simp add: fqdn_append)
qed

lemma suffix_inverse:
  assumes "fqdn n = n" "strip_suffix n s = Some h" "s \<noteq> []" "trim_start_matches (CHR ''.'') s = s"
    and "trim_start_matches (CHR ''.'') to \<noteq> []"
  shows "matcher_rewrite rx (MSuffix (to_ascii_lowercase (trim_start_matches (CHR ''.'') (fqdn to))))
      (fqdn (h @ trim_start_matches (CHR ''.'') to)) s = Some n"
proof -
  from assms(2) have n: "n = h @ s" by (rule strip_suffix_SomeD)
  with assms(1,3) have "to_ascii_lowercase h = h" using fqdn_tail by blast
  then show ?thesis using assms n by (simp add: trim_start_fqdn fqdn_append)
qed

lemma restore_question_defs: "restore_question undo_default q = q"
  by (simp add: restore_question_def undo_default_def set_opt_def)

lemma apply_rule_question:
  assumes "apply_rule env rule u req = (b, u', req')"
  shows "map_first (restore_question u') (m_queries (rq_msg req')) = map_first (restore_question u) (m_queries (rq_msg req))"
proof (cases "m_queries (rq_msg req)")
  case Nil
  with assms show ?thesis
    by (cases rule) (auto simp: Let_def apply_edns0_def with_option_def map_question_def split: option.splits sum.splits if_splits)
next
  case (Cons q qs)
  then have q: "qname req = q_name q" "qtype req = q_type q" "qclass req = q_class q"
    by (simp_all add: qname_def qtype_def qclass_def)
  from Cons assms q show ?thesis
    by (cases rule) (auto simp: Let_def apply_edns0_def with_option_def map_question_def restore_question_def set_opt_def
        unless_set_def split: option.splits sum.splits if_splits)
qed

lemma apply_rules_question:
  "apply_rules env rules u req = (u', req') \<Longrightarrow>
   map_first (restore_question u') (m_queries (rq_msg req')) = map_first (restore_question u) (m_queries (rq_msg req))"
proof (induction rules arbitrary: u req)
  case (Cons mr rules)
  obtain mode rule where mr: "mr = (mode, rule)" by (cases mr)
  obtain b u1 req1 where a: "apply_rule env rule u req = (b, u1, req1)" by (cases "apply_rule env rule u req")
  with Cons apply_rule_question [OF a] show ?case by (auto simp: mr split: if_splits)
qed simp

lemma apply_request_question:
  assumes "apply_request env rules req = (u, req1)"
  shows "map_first (restore_question u) (m_queries (rq_msg req1)) = m_queries (rq_msg req)"
proof -
  have "map_first (restore_question undo_default) qs = qs" for qs by (cases qs) (simp_all add: restore_question_defs)
  with apply_rules_question [of env rules undo_default req u req1] assms show ?thesis by (simp add: apply_request_def)
qed

section \<open>Properties\<close>

text \<open>A name rewrite is undone by its inverse: for the exact, prefix and suffix matchers of a rule, rewriting a
  fully qualified name and then applying the inverse that \<open>answer auto\<close> uses gives the name back, except when
  the whole name is the prefix or the replacement suffix is empty.\<close>

lemma rewrite_inverse_roundtrip:
  assumes "matcher_parse rx kind pat = Inr m" "kind \<in> {''exact'', ''prefix'', ''suffix''}" "fqdn n = n"
    and "matcher_rewrite rx m n to = Some n'"
    and "kind = ''prefix'' \<longrightarrow> to_ascii_lowercase pat \<noteq> n"
    and "kind = ''suffix'' \<longrightarrow> trim_start_matches (CHR ''.'') to \<noteq> [] \<and> trim_start_matches (CHR ''.'') pat \<noteq> []"
  shows "\<exists>iv back. matcher_inverse m to = Some (iv, back) \<and> matcher_rewrite rx iv n' back = Some n"
proof -
  have l: "to_ascii_lowercase n = n" using assms(3) by (rule fqdn_lower)
  consider "kind = ''exact''" | "kind = ''prefix''" | "kind = ''suffix''" using assms(2) by auto
  then show ?thesis
  proof cases
    case 1
    with assms l show ?thesis by (auto simp: matcher_parse_def split: if_splits)
  next
    case 2
    with assms l obtain rest where "m = MPrefix (to_ascii_lowercase pat)" "strip_prefix n (to_ascii_lowercase pat) = Some rest"
      "n' = fqdn (to @ rest)" by (auto simp: matcher_parse_def)
    moreover from this(2) assms(5) 2 have "rest \<noteq> []" by (auto dest: strip_prefix_SomeD)
    ultimately show ?thesis using prefix_inverse [OF assms(3)] by simp
  next
    case 3
    let ?s = "to_ascii_lowercase (trim_start_matches (CHR ''.'') (fqdn pat))"
    from 3 assms l obtain h where "m = MSuffix ?s" "strip_suffix n ?s = Some h"
      "n' = fqdn (h @ trim_start_matches (CHR ''.'') to)" by (auto simp: matcher_parse_def)
    moreover from 3 assms(6) have "?s \<noteq> []" by (simp add: trim_start_fqdn) (simp add: fqdn_def Let_def)
    ultimately show ?thesis using suffix_inverse [OF assms(3)] matcher_suffix_trimmed 3 assms(6) by simp
  qed
qed

text \<open>No expressions, the regular expressions of the examples.\<close>

definition no_regex :: "unit regex_api" where
  "no_regex = \<lparr>rx_new = (\<lambda>_. Inr ()), rx_is_match = (\<lambda>_ _. False), rx_captures = (\<lambda>_ _. None)\<rparr>"

definition plain_rewrite :: "(unit, unit) rewrite_env" where
  "plain_rewrite = \<lparr>re_regex = no_regex, re_from_ascii = Inr, re_type_str = (\<lambda>_. ''A''),
     re_self_lookup = (\<lambda>_ _ _ s. (Inl ''no server'', s))\<rparr>"

text \<open>C19: Rewriting is invisible in the question: whatever the rules, when the rest of the chain answers the
  rewritten query with a message that echoes the rewritten question, the message handed to the client carries
  the questions of the original query, name, type and class.\<close>

theorem rewrite_restores_question:
  assumes "apply_request env rules req = (u, req1)" "nx_serve nx req1 s = (Replied (RMsg m), req2, s2)"
    and "m_queries m = m_queries (rq_msg req1)" "rewrite_serve env rules req nx s = (Replied (RMsg m'), req', s')"
  shows "m_queries m' = m_queries (rq_msg req)"
proof -
  obtain r s3 where a: "apply_response env req2 u m s2 = (r, s3)" by (cases "apply_response env req2 u m s2")
  with assms(4) obtain m'' where "r = Inr m''" "m' = m''"
    unfolding rewrite_serve_cases [OF assms(1,2)] by (auto split: sum.splits)
  with apply_response_fields(2) [of env req2 u m s2 m' s3] a assms(3) apply_request_question [OF assms(1)] show ?thesis by simp
qed

text \<open>A plugin that answers every query with an empty message.\<close>

definition empty_answer :: "'s handler" where
  "empty_answer req nx s = (Replied (RMsg (new_reply req)), req, s)"

theorem rewrite_restores_question_witness:
  "\<exists>m' req' s'. rewrite_serve plain_rewrite [(Stop, RwName (MExact ''a.'') ''b'' [])] (query_for ''a.'' RT_A)
       (next_of [(''e'', empty_answer)]) () = (Replied (RMsg m'), req', s')
     \<and> m_queries m' = [\<lparr>q_name = ''a.'', q_type = RT_A, q_class = DC_IN\<rparr>]"
proof -
  let ?rules = "[(Stop, RwName (MExact ''a.'') ''b'' [])]" and ?q = "query_for ''a.'' RT_A" and ?nx = "next_of [(''e'', empty_answer)]"
  obtain u req1 where a: "apply_request plain_rewrite ?rules ?q = (u, req1)" by (cases "apply_request plain_rewrite ?rules ?q")
  have n: "name_uncached ?q = ''a.''" by code_simp
  have q: "m_queries (rq_msg req1) = [\<lparr>q_name = ''b.'', q_type = RT_A, q_class = DC_IN\<rparr>]" "un_ttl u = []" "un_cname u = []"
    using a by (auto simp: apply_request_def n plain_rewrite_def fqdn_def Let_def ends_with_def map_question_def
        undo_default_def to_ascii_lowercase_def ascii_lower_def is_ascii_upper_def)
  have s: "nx_serve ?nx req1 () = (Replied (RMsg (new_reply req1)), req1, ())" by (simp add: empty_answer_def)
  obtain m' req' s' where r: "rewrite_serve plain_rewrite ?rules ?q ?nx () = (Replied (RMsg m'), req', s')"
    unfolding rewrite_serve_cases [OF a s] using q(2,3) by (auto simp: apply_response_def Let_def)
  from rewrite_restores_question [OF a s _ r] q(1) show ?thesis using r by (auto simp: new_reply_queries)
qed

text \<open>Error replies leak the rewrite: when the rest of the chain fails on the rewritten query, the request is
  left as rewritten, and the server answers the client with an error whose question is the rewritten one
  instead of the one the client asked.\<close>

lemma rewrite_error_question:
  assumes "apply_request env rules req = (u, req1)" "m_queries (rq_msg req1) = q1 # qs"
    and "nx_serve nx req1 s = (Failed e, req1, s2)"
  shows "\<exists>r. rewrite_serve env rules req nx s = (Failed e, req1, s2)
    \<and> finish_outcome cfg (Failed e) req1 = Ran (Some [r]) \<and> m_queries r = [q1]"
  using assms(2) unfolding rewrite_serve_cases [OF assms(1,3)] by (simp add: error_reply_queries)

end
