(* ===== verification/Forward.thy ===== *)
theory Forward
  imports Block_Setup Replacer
begin

text \<open>
  The \<open>forward\<close> plugin, \<open>src/plugins/forward.rs\<close>: the upstreams and their health, the policies,
  connection reuse, the exchange with an upstream, the loop over the upstreams, the handler and the
  setup.

  The mutable fields of \<open>Forward\<close> and of its \<open>Proxy\<close>s are \<open>forward_state\<close>, a part of the shared
  state that \<open>fe_get\<close> and \<open>fe_put\<close> reach. Sockets, the clock, the encoder, the shuffle of the random
  policy and the moment a deadline cuts an exchange off are arguments (\<open>forward_env\<close>). A health check
  is a task with three phases, as its awaits divide it; \<open>health_step\<close> is one step of it.

  Shown here: what is answered matches the query, in which order upstreams are tried and which ones
  are tried when all are down, that the number of concurrent queries is bounded, and that an upstream
  has at most one health check.
\<close>

section \<open>Upstreams\<close>

datatype forward_policy = Random | RoundRobin | Sequential

record proxy =
  px_addr :: socket_addr
  px_addr_str :: string
  px_transport :: upstream_transport
  px_tls :: "tls_config option"
  px_tls_server_name :: "string option"
  px_expire :: nat

type_synonym conn = nat

datatype phase = Sleeping | Probing | Finishing

record forward_state =
  fs_fails :: "nat \<Rightarrow> u32"
  fs_probing :: "nat \<Rightarrow> bool"
  fs_pool :: "nat \<Rightarrow> (conn \<times> nat) list"
  fs_concurrent :: nat
  fs_rr :: nat
  fs_tasks :: "(nat \<times> phase) list"

record forward =
  fw_from :: string
  fw_ignored :: "string list"
  fw_proxies :: "proxy list"
  fw_policy :: forward_policy
  fw_max_fails :: u32
  fw_force_tcp :: bool
  fw_prefer_udp :: bool
  fw_health_interval :: nat
  fw_health_no_rec :: bool
  fw_health_domain :: dname
  fw_max_concurrent :: nat
  fw_next_rcodes :: "rcode list"
  fw_failover_rcodes :: "rcode list"
  fw_tls_config :: "tls_config option"
  fw_tls_server_name :: "string option"

record 's forward_env =
  fe_get :: "'s \<Rightarrow> forward_state"
  fe_put :: "forward_state \<Rightarrow> 's \<Rightarrow> 's"
  fe_now :: "'s \<Rightarrow> nat"
  fe_shuffle :: "nat list \<Rightarrow> 's \<Rightarrow> nat list \<times> 's"
  fe_to_vec :: "message \<Rightarrow> u8 list res"
  fe_from_bytes :: "u8 list \<Rightarrow> message res"
  fe_udp :: "proxy \<Rightarrow> u8 list \<Rightarrow> 's \<Rightarrow> (u8 list list \<times> err) \<times> 's"
  fe_dial :: "proxy \<Rightarrow> bool \<Rightarrow> 's \<Rightarrow> conn res \<times> 's"
  fe_stream :: "conn \<Rightarrow> u8 list \<Rightarrow> 's \<Rightarrow> u8 list res \<times> 's"
  fe_cut :: "proxy \<Rightarrow> request \<Rightarrow> nat \<Rightarrow> 's \<Rightarrow> 's option"

definition fs_upd :: "'s forward_env \<Rightarrow> (forward_state \<Rightarrow> forward_state) \<Rightarrow> 's \<Rightarrow> 's" where
  "fs_upd env f s = fe_put env (f (fe_get env s)) s"

definition set_fails :: "nat \<Rightarrow> u32 \<Rightarrow> forward_state \<Rightarrow> forward_state" where
  "set_fails p n st = st\<lparr>fs_fails := (fs_fails st)(p := n)\<rparr>"

definition add_fail :: "nat \<Rightarrow> forward_state \<Rightarrow> forward_state" where
  "add_fail p st = set_fails p (fs_fails st p + 1) st"

definition proxy_down :: "u32 \<Rightarrow> forward_state \<Rightarrow> nat \<Rightarrow> bool" where
  "proxy_down max_fails st p \<longleftrightarrow> max_fails \<noteq> 0 \<and> fs_fails st p \<ge> max_fails"

section \<open>Connections\<close>

text \<open>\<open>take_conn\<close>: the newest connection that has not expired; the expired ones on the way are dropped.\<close>

fun take_newest :: "nat \<Rightarrow> nat \<Rightarrow> (conn \<times> nat) list \<Rightarrow> conn option \<times> (conn \<times> nat) list" where
  "take_newest now expire [] = (None, [])"
| "take_newest now expire ((c, t) # older) = (if now - t < expire then (Some c, older) else take_newest now expire older)"

definition take_conn :: "'s forward_env \<Rightarrow> proxy \<Rightarrow> nat \<Rightarrow> 's \<Rightarrow> conn option \<times> 's" where
  "take_conn env px p s =
     (case take_newest (fe_now env s) (px_expire px) (rev (fs_pool (fe_get env s) p)) of
        (c, left) \<Rightarrow> (c, fs_upd env (\<lambda>st. st\<lparr>fs_pool := (fs_pool st)(p := rev left)\<rparr>) s))"

definition put_conn :: "'s forward_env \<Rightarrow> nat \<Rightarrow> conn \<Rightarrow> 's \<Rightarrow> 's" where
  "put_conn env p c s =
     fs_upd env (\<lambda>st. if length (fs_pool st p) < 64
        then st\<lparr>fs_pool := (fs_pool st)(p := fs_pool st p @ [(c, fe_now env s)])\<rparr> else st) s"

text \<open>\<open>StreamConn::exchange\<close>: the length in front of the message.\<close>

definition conn_exchange :: "'s forward_env \<Rightarrow> conn \<Rightarrow> u8 list \<Rightarrow> 's \<Rightarrow> u8 list res \<times> 's" where
  "conn_exchange env c wire s = fe_stream env c (be_bytes (of_nat (length wire)) @ wire) s"

text \<open>The datagrams that arrive until the read times out or the socket fails: the first one with the id of the query.\<close>

definition same_id :: "u8 list \<Rightarrow> u8 list \<Rightarrow> bool" where
  "same_id wire d \<longleftrightarrow> length d \<ge> 2 \<and> length wire \<ge> 2 \<and> d ! 0 = wire ! 0 \<and> d ! 1 = wire ! 1"

definition udp_exchange :: "'s forward_env \<Rightarrow> proxy \<Rightarrow> u8 list \<Rightarrow> 's \<Rightarrow> u8 list res \<times> 's" where
  "udp_exchange env px wire s =
     (case fe_udp env px wire s of
        ((ds, e), s') \<Rightarrow> (case find (same_id wire) ds of Some d \<Rightarrow> (Inr d, s') | None \<Rightarrow> (Inl e, s')))"

definition fresh_exchange :: "'s forward_env \<Rightarrow> proxy \<Rightarrow> nat \<Rightarrow> bool \<Rightarrow> u8 list \<Rightarrow> 's \<Rightarrow> u8 list res \<times> 's" where
  "fresh_exchange env px p use_tls wire s =
     (case fe_dial env px use_tls s of
        (Inl e, s1) \<Rightarrow> (Inl e, s1)
      | (Inr c, s1) \<Rightarrow>
          (case conn_exchange env c wire s1 of
             (Inl e, s2) \<Rightarrow> (Inl e, s2)
           | (Inr r, s2) \<Rightarrow> (Inr r, put_conn env p c s2)))"

definition proxy_exchange :: "'s forward_env \<Rightarrow> proxy \<Rightarrow> nat \<Rightarrow> u8 list \<Rightarrow> bool \<Rightarrow> 's \<Rightarrow> u8 list res \<times> 's" where
  "proxy_exchange env px p wire want_tcp s =
     (let use_tls = (px_transport px = UTls) in
      if \<not> want_tcp \<and> \<not> use_tls then udp_exchange env px wire s
      else (case (case take_conn env px p s of
                    (Some c, s1) \<Rightarrow> (Inr c, s1)
                  | (None, s1) \<Rightarrow> fe_dial env px use_tls s1) of
          (Inl e, s2) \<Rightarrow> (Inl e, s2)
        | (Inr c, s2) \<Rightarrow>
            (case conn_exchange env c wire s2 of
               (Inr r, s3) \<Rightarrow> (Inr r, put_conn env p c s3)
             | (Inl _, s3) \<Rightarrow> fresh_exchange env px p use_tls wire s3)))"

section \<open>Health checks\<close>

definition start_health_check :: "nat \<Rightarrow> forward_state \<Rightarrow> forward_state" where
  "start_health_check p st =
     (if fs_probing st p then st
      else st\<lparr>fs_probing := (fs_probing st)(p := True), fs_tasks := fs_tasks st @ [(p, Sleeping)]\<rparr>)"

definition set_phase :: "nat \<Rightarrow> phase \<Rightarrow> forward_state \<Rightarrow> forward_state" where
  "set_phase p ph st = st\<lparr>fs_tasks := map (\<lambda>t. if fst t = p then (p, ph) else t) (fs_tasks st)\<rparr>"

text \<open>
  The task of an upstream, from one await to the next: after the sleep the failures are read, after
  the probe they are written, and at the end the flag is cleared.
\<close>

fun health_step :: "nat \<Rightarrow> phase \<Rightarrow> bool \<Rightarrow> forward_state \<Rightarrow> forward_state" where
  "health_step p Sleeping probe_ok st = set_phase p (if fs_fails st p = 0 then Finishing else Probing) st"
| "health_step p Probing probe_ok st =
     (if probe_ok then set_phase p Finishing (set_fails p 0 st) else set_phase p Sleeping (add_fail p st))"
| "health_step p Finishing probe_ok st =
     st\<lparr>fs_probing := (fs_probing st)(p := False), fs_tasks := filter (\<lambda>t. fst t \<noteq> p) (fs_tasks st)\<rparr>"

definition probe_query :: "u16 \<Rightarrow> bool \<Rightarrow> dname \<Rightarrow> message" where
  "probe_query rid recursion_desired domain =
     add_query \<lparr>q_name = domain, q_type = RT_NS, q_class = DC_IN\<rparr>
       (message_new\<lparr>m_id := rid, m_recursion_desired := recursion_desired\<rparr>)"

text \<open>\<open>probe\<close>: \<open>cutoff\<close> is whether its timeout ends the exchange.\<close>

definition proxy_probe :: "'s forward_env \<Rightarrow> forward \<Rightarrow> nat \<Rightarrow> u16 \<Rightarrow> 's option \<Rightarrow> 's \<Rightarrow> bool \<times> 's" where
  "proxy_probe env f p rid cutoff s =
     (let px = fw_proxies f ! p; m = probe_query rid (\<not> fw_health_no_rec f) (fw_health_domain f) in
      case fe_to_vec env m of
        Inl _ \<Rightarrow> (False, s)
      | Inr wire \<Rightarrow>
          (case cutoff of
             Some s' \<Rightarrow> (False, s')
           | None \<Rightarrow>
               (case proxy_exchange env px p wire (px_transport px = UTls) s of
                  (Inr resp, s') \<Rightarrow>
                    ((case fe_from_bytes env resp of Inr r \<Rightarrow> m_id r = m_id m | Inl _ \<Rightarrow> False), s')
                | (Inl _, s') \<Rightarrow> (False, s'))))"

section \<open>Forwarding a query\<close>

definition policy_list :: "'s forward_env \<Rightarrow> forward \<Rightarrow> 's \<Rightarrow> nat list \<times> 's" where
  "policy_list env f s =
     (let n = length (fw_proxies f) in
      case fw_policy f of
        Sequential \<Rightarrow> ([0..<n], s)
      | RoundRobin \<Rightarrow>
          (let start = fs_rr (fe_get env s) mod max n 1 in
           (map (\<lambda>i. (start + i) mod n) [0..<n],
            fs_upd env (\<lambda>st. st\<lparr>fs_rr := (fs_rr st + 1) mod (USIZE_MAX + 1)\<rparr>) s))
      | Random \<Rightarrow> fe_shuffle env [0..<n] s)"

definition forward_connect :: "'s forward_env \<Rightarrow> forward \<Rightarrow> nat \<Rightarrow> request \<Rightarrow> 's \<Rightarrow> message res \<times> 's" where
  "forward_connect env f p req s =
     (let px = fw_proxies f ! p;
          want_tcp = (fw_force_tcp f \<or> (\<not> fw_prefer_udp f \<and> rq_proto req \<noteq> Udp)) in
      case fe_to_vec env (rq_msg req) of
        Inl e \<Rightarrow> (Inl e, s)
      | Inr wire \<Rightarrow>
          (case proxy_exchange env px p wire want_tcp s of
             (Inl e, s1) \<Rightarrow> (Inl e, s1)
           | (Inr raw, s1) \<Rightarrow>
               (case fe_from_bytes env raw of
                  Inl e \<Rightarrow> (Inl e, s1)
                | Inr resp \<Rightarrow>
                    if m_truncated resp \<and> \<not> want_tcp then
                      (case proxy_exchange env px p wire True s1 of
                         (Inl e, s2) \<Rightarrow> (Inl e, s2)
                       | (Inr raw2, s2) \<Rightarrow> (fe_from_bytes env raw2, s2))
                    else (Inr resp, s1))))"

text \<open>\<open>timeout_at\<close> around \<open>connect\<close>.\<close>

definition connect_until :: "'s forward_env \<Rightarrow> forward \<Rightarrow> nat \<Rightarrow> request \<Rightarrow> nat \<Rightarrow> 's \<Rightarrow> message res \<times> 's" where
  "connect_until env f p req deadline s =
     (case fe_cut env (fw_proxies f ! p) req deadline s of
        Some s' \<Rightarrow> (Inl ''i/o timeout'', s')
      | None \<Rightarrow> forward_connect env f p req s)"

text \<open>The inner loop: the next upstream to try, with the flag \<open>tried_any_down\<close> and the position.\<close>

function pick_proxy :: "(nat \<Rightarrow> bool) \<Rightarrow> nat list \<Rightarrow> bool \<Rightarrow> nat \<Rightarrow> nat option \<times> bool \<times> nat" where
  "pick_proxy down ps tried i =
     (if i \<ge> length ps then (None, tried, i)
      else if \<not> down (ps ! i) then (Some (ps ! i), tried, i + 1)
      else if \<not> tried \<and> i + 1 = length ps \<and> list_all down ps then (Some (ps ! i), True, 0)
      else pick_proxy down ps tried (i + 1))"
  by pat_completeness auto
termination
  by (relation "measure (\<lambda>(d, ps, t, i). length ps - i)") auto

declare pick_proxy.simps [simp del]

lemma pick_proxy_forward:
  "pick_proxy down ps tried i = (Some p, tried', i') \<Longrightarrow>
   p \<in> set ps \<and> ((tried' = tried \<and> i < i' \<and> i' \<le> length ps) \<or> (\<not> tried \<and> tried' \<and> i' = 0))"
proof (induction down ps tried i rule: pick_proxy.induct)
  case (1 down ps tried i)
  show ?case
  proof (cases "i \<ge> length ps \<or> \<not> down (ps ! i) \<or> (\<not> tried \<and> i + 1 = length ps \<and> list_all down ps)")
    case True
    with "1.prems" show ?thesis by (subst (asm) pick_proxy.simps) (auto split: if_splits)
  next
    case False
    with "1.prems" have "pick_proxy down ps tried (i + 1) = (Some p, tried', i')"
      by (subst (asm) pick_proxy.simps) (auto split: if_splits)
    with "1.IH" False show ?thesis by auto
  qed
qed

record attempt =
  at_last_err :: "err option"
  at_fails :: nat
  at_reply :: "message option"

text \<open>The outer loop; \<open>Inr\<close> is the reply that ends it, \<open>Inl\<close> what the loop leaves for the lines after it.\<close>

function forward_loop ::
    "'s forward_env \<Rightarrow> forward \<Rightarrow> nat list \<Rightarrow> nat \<Rightarrow> request \<Rightarrow> bool \<Rightarrow> nat \<Rightarrow> attempt \<Rightarrow> 's \<Rightarrow> (attempt + message) \<times> 's" where
  "forward_loop env f ps deadline req tried i a s =
     (if fe_now env s \<ge> deadline then (Inl a, s)
      else (case pick_proxy (proxy_down (fw_max_fails f) (fe_get env s)) ps tried i of
          (None, _) \<Rightarrow> (Inl a, s)
        | (Some p, tried', i') \<Rightarrow>
            (case connect_until env f p req deadline s of
               (Inr resp, s1) \<Rightarrow>
                 if \<not> req_matches req resp then
                   forward_loop env f ps deadline req tried' i'
                     (a\<lparr>at_last_err := Some (''upstream '' @ px_addr_str (fw_proxies f ! p) @ '' returned mismatched response''),
                        at_fails := at_fails a + 1\<rparr>) s1
                 else (let s2 = fs_upd env (set_fails p 0) s1 in
                   if m_rcode resp \<in> set (fw_failover_rcodes f) \<and> i' < length ps
                   then forward_loop env f ps deadline req tried' i' (a\<lparr>at_reply := Some resp\<rparr>) s2
                   else (Inr (resp\<lparr>m_id := m_id (rq_msg req)\<rparr>), s2))
             | (Inl e, s1) \<Rightarrow>
                 forward_loop env f ps deadline req tried' i'
                   (a\<lparr>at_fails := at_fails a + 1, at_last_err := Some (px_addr_str (fw_proxies f ! p) @ '': '' @ e)\<rparr>)
                   (fs_upd env (\<lambda>st. start_health_check p (add_fail p st)) s1))))"
  by pat_completeness auto
termination
  by (relation "measures [\<lambda>(e, f, ps, d, r, tried, i, a, s). if tried then 0 else 1, \<lambda>(e, f, ps, d, r, tried, i, a, s). length ps - i]")
    (auto dest!: sym [of _ "pick_proxy _ _ _ _"] pick_proxy_forward)

declare forward_loop.simps [simp del]

definition forward_query :: "'s forward_env \<Rightarrow> forward \<Rightarrow> request \<Rightarrow> 's \<Rightarrow> outcome \<times> 's" where
  "forward_query env f req s =
     (case policy_list env f s of (ps, s0) \<Rightarrow>
        (let budget = fe_now env s0 + 5 * SECOND;
             deadline = (case rq_deadline req of Some d \<Rightarrow> min d budget | None \<Rightarrow> budget) in
         case forward_loop env f ps deadline req False 0 \<lparr>at_last_err = None, at_fails = 0, at_reply = None\<rparr> s0 of
           (Inr m, s1) \<Rightarrow> (Replied (RMsg m), s1)
         | (Inl a, s1) \<Rightarrow>
             ((case at_reply a of
                 Some r \<Rightarrow> Replied (RMsg (r\<lparr>m_id := m_id (rq_msg req)\<rparr>))
               | None \<Rightarrow>
                   if at_fails a = 0 then Failed (plugin_error_new ''forward'' ''no upstream host'')
                   else Failed (plugin_error_new ''forward'' (case at_last_err a of Some e \<Rightarrow> e | None \<Rightarrow> ''no healthy upstream''))), s1)))"

definition add_concurrent :: "'s forward_env \<Rightarrow> int \<Rightarrow> 's \<Rightarrow> 's" where
  "add_concurrent env d = fs_upd env (\<lambda>st. st\<lparr>fs_concurrent := nat ((int (fs_concurrent st) + d) mod (int USIZE_MAX + 1))\<rparr>)"

definition forward_serve :: "'s forward_env \<Rightarrow> forward \<Rightarrow> 's handler" where
  "forward_serve env f req nx s =
     (case req_name req of (name, req1) \<Rightarrow>
        if \<not> is_subdomain (fw_from f) name \<or> zones_match (fw_ignored f) name \<noteq> None then nx_serve nx req1 s
        else (let s1 = (if fw_max_concurrent f > 0 then add_concurrent env 1 s else s) in
          if fw_max_concurrent f > 0 \<and> fs_concurrent (fe_get env s) \<ge> fw_max_concurrent f then
            (Failed (with_rcode Refused (plugin_error_new ''forward''
               (''concurrent queries exceeded maximum '' @ show_nat (fw_max_concurrent f)))), req1, add_concurrent env (- 1) s1)
          else (case forward_query env f req1 s1 of (out, s2) \<Rightarrow>
            (let s3 = (if fw_max_concurrent f > 0 then add_concurrent env (- 1) s2 else s2) in
             case out of
               Replied (RMsg m) \<Rightarrow>
                 if m_rcode m \<in> set (fw_next_rcodes f) \<and> next_name nx = Some ''forward''
                 then nx_serve nx req1 s3 else (out, req1, s3)
             | _ \<Rightarrow> (out, req1, s3)))))"

text \<open>\<open>lookup\<close>, for other plugins: the first upstream that is not down and answers.\<close>

fun lookup_loop_fw :: "'s forward_env \<Rightarrow> forward \<Rightarrow> request \<Rightarrow> nat list \<Rightarrow> 's \<Rightarrow> message res \<times> 's" where
  "lookup_loop_fw env f req [] s = (Inl ''no upstream host'', s)"
| "lookup_loop_fw env f req (p # ps) s =
     (if proxy_down (fw_max_fails f) (fe_get env s) p then lookup_loop_fw env f req ps s
      else (case forward_connect env f p req s of
          (Inr r, s') \<Rightarrow> (Inr r, s')
        | (Inl _, s') \<Rightarrow> lookup_loop_fw env f req ps s'))"

definition forward_lookup :: "'s forward_env \<Rightarrow> forward \<Rightarrow> u16 \<Rightarrow> dname \<Rightarrow> rtype \<Rightarrow> 's \<Rightarrow> message res \<times> 's" where
  "forward_lookup env f rid name qt s =
     (let m = add_query \<lparr>q_name = name, q_type = qt, q_class = DC_IN\<rparr>
                (message_new\<lparr>m_id := rid, m_recursion_desired := True, m_opcode := OpQuery, m_type := MtQuery\<rparr>);
          here = \<lparr>sa_ip = V4 [127, 0, 0, 1], sa_port = 0\<rparr>;
          req = request_new (fe_now env s) m here here Udp in
      case policy_list env f s of (ps, s0) \<Rightarrow> lookup_loop_fw env f req ps s0)"

section \<open>Setup\<close>

record 'net forward_parsers =
  fp_from_ascii :: "string \<Rightarrow> dname res"
  fp_api :: "'net ipnet_api"
  fp_read_file :: "string \<Rightarrow> string option"
  fp_parse_duration :: "string \<Rightarrow> nat res"
  fp_server_name :: "string \<Rightarrow> string res"
  fp_client_config :: "string option \<Rightarrow> (string \<times> string) option \<Rightarrow> tls_config res"

text \<open>What the block sets: the plugin, the expiry of connections and the files of \<open>tls\<close> (certificate, key, CA).\<close>

record forward_options =
  fo_forward :: forward
  fo_expire :: nat
  fo_tls_files :: "(string option \<times> string option \<times> string option) option"

definition forward_default :: "string \<Rightarrow> forward" where
  "forward_default from =
     \<lparr>fw_from = from, fw_ignored = [], fw_proxies = [], fw_policy = Random, fw_max_fails = 2, fw_force_tcp = False,
      fw_prefer_udp = False, fw_health_interval = 500000000, fw_health_no_rec = False, fw_health_domain = ''.'',
      fw_max_concurrent = 0, fw_next_rcodes = [], fw_failover_rcodes = [], fw_tls_config = None, fw_tls_server_name = None\<rparr>"

definition fo_map :: "(forward \<Rightarrow> forward) \<Rightarrow> forward_options \<Rightarrow> forward_options" where
  "fo_map g op = op\<lparr>fo_forward := g (fo_forward op)\<rparr>"

definition forward_reads :: "string \<Rightarrow> bool" where
  "forward_reads v \<longleftrightarrow> v \<in> {''except'', ''expire'', ''max_fails'', ''tls'', ''tls_servername'', ''policy'', ''health_check'',
     ''max_concurrent'', ''next'', ''failover''}"

definition tls_line :: "err \<Rightarrow> string list \<Rightarrow> (string option \<times> string option \<times> string option) res" where
  "tls_line arg_e a =
     (case a of
        [] \<Rightarrow> Inr (None, None, None)
      | [ca] \<Rightarrow> Inr (None, None, Some ca)
      | [c, k] \<Rightarrow> Inr (Some c, Some k, None)
      | [c, k, ca] \<Rightarrow> Inr (Some c, Some k, Some ca)
      | _ \<Rightarrow> Inl arg_e)"

definition policy_line :: "(string \<Rightarrow> err) \<Rightarrow> string \<Rightarrow> forward_policy res" where
  "policy_line ef v =
     (if v = ''random'' then Inr Random else if v = ''round_robin'' then Inr RoundRobin
      else if v = ''sequential'' then Inr Sequential else Inl (ef (''unknown policy '' @ quote v)))"

fun health_options :: "(string \<Rightarrow> dname res) \<Rightarrow> (string \<Rightarrow> err) \<Rightarrow> string list \<Rightarrow> forward \<Rightarrow> forward res" where
  "health_options name_of ef [] f = Inr f"
| "health_options name_of ef (o' # rest) f =
     (if o' = ''no_rec'' then health_options name_of ef rest (f\<lparr>fw_health_no_rec := True\<rparr>)
      else if o' = ''domain'' then
        (case rest of
           [] \<Rightarrow> Inl (ef ''health_check domain needs a name'')
         | d # rest' \<Rightarrow> rbind (name_of d) (\<lambda>n. health_options name_of ef rest' (f\<lparr>fw_health_domain := n\<rparr>)))
      else Inl (ef (''health_check: unknown option '' @ o')))"

definition rcodes_line :: "(string \<Rightarrow> err) \<Rightarrow> string \<Rightarrow> string list \<Rightarrow> rcode list res" where
  "rcodes_line ef which a =
     try_flat_map (\<lambda>r. rbind (ok_or (ef (which @ '': unknown rcode '' @ r)) (rcode_from_str r)) (\<lambda>rc. Inr [rc])) a"

definition forward_line ::
    "'net forward_parsers \<Rightarrow> (string \<Rightarrow> err) \<Rightarrow> err \<Rightarrow> string \<Rightarrow> string list \<Rightarrow> forward_options \<Rightarrow> forward_options res" where
  "forward_line ps ef arg_e v a op =
     (let one = (\<lambda>k. if length a \<noteq> 1 then Inl arg_e else k (hd a)) in
      if v = ''except'' then
        rbind (try_flat_map (normalize_zone (fp_from_ascii ps) (fp_api ps)) a) (\<lambda>zs.
          Inr (fo_map (\<lambda>f. f\<lparr>fw_ignored := fw_ignored f @ zs\<rparr>) op))
      else if v = ''force_tcp'' then Inr (fo_map (\<lambda>f. f\<lparr>fw_force_tcp := True\<rparr>) op)
      else if v = ''prefer_udp'' then Inr (fo_map (\<lambda>f. f\<lparr>fw_prefer_udp := True\<rparr>) op)
      else if v = ''expire'' then one (\<lambda>x. rbind (fp_parse_duration ps x) (\<lambda>d. Inr (op\<lparr>fo_expire := d\<rparr>)))
      else if v = ''max_fails'' then
        one (\<lambda>x. rbind (ok_or (ef (''bad max_fails '' @ x)) (parse_u32 x)) (\<lambda>n. Inr (fo_map (\<lambda>f. f\<lparr>fw_max_fails := of_nat n\<rparr>) op)))
      else if v = ''tls'' then rbind (tls_line arg_e a) (\<lambda>t. Inr (op\<lparr>fo_tls_files := Some t\<rparr>))
      else if v = ''tls_servername'' then one (\<lambda>x. Inr (fo_map (\<lambda>f. f\<lparr>fw_tls_server_name := Some x\<rparr>) op))
      else if v = ''policy'' then one (\<lambda>x. rbind (policy_line ef x) (\<lambda>p. Inr (fo_map (\<lambda>f. f\<lparr>fw_policy := p\<rparr>) op)))
      else if v = ''health_check'' then
        (case a of
           [] \<Rightarrow> Inl arg_e
         | d # rest \<Rightarrow>
             rbind (fp_parse_duration ps d) (\<lambda>iv.
             rbind (health_options (name_from_str (fp_from_ascii ps)) ef rest ((fo_forward op)\<lparr>fw_health_interval := iv\<rparr>)) (\<lambda>f.
             Inr (op\<lparr>fo_forward := f\<rparr>))))
      else if v = ''max_concurrent'' then
        one (\<lambda>x. rbind (ok_or (ef (''bad max_concurrent '' @ x)) (parse_unsigned USIZE_MAX x)) (\<lambda>n.
          Inr (fo_map (\<lambda>f. f\<lparr>fw_max_concurrent := n\<rparr>) op)))
      else if v = ''next'' \<or> v = ''failover'' then
        (if a = [] then Inl arg_e
         else rbind (rcodes_line ef v a) (\<lambda>rcs. Inr (fo_map (\<lambda>f.
           if v = ''next'' then f\<lparr>fw_next_rcodes := fw_next_rcodes f @ rcs\<rparr>
           else f\<lparr>fw_failover_rcodes := fw_failover_rcodes f @ rcs\<rparr>) op)))
      else Inl (ef (''unknown property '' @ quote v)))"

definition forward_property ::
    "'net forward_parsers \<Rightarrow> forward_options \<Rightarrow> 's controller \<Rightarrow> forward_options res \<times> 's controller" where
  "forward_property ps = line_property forward_reads (forward_line ps)"

definition proxy_new :: "(string \<Rightarrow> string res) \<Rightarrow> upstream \<Rightarrow> tls_config option \<Rightarrow> string option \<Rightarrow> nat \<Rightarrow> proxy res" where
  "proxy_new server_name u tls sname expire =
     rbind (ok_or (''upstream '' @ up_addr u @ '' is not an IP address'') (parse_socket_addr (up_addr u))) (\<lambda>addr.
     rbind (case (sname, up_transport u) of
              (Some n, _) \<Rightarrow> (case server_name n of Inr x \<Rightarrow> Inr (Some x) | Inl _ \<Rightarrow> Inl (''bad tls_servername '' @ n))
            | (None, UTls) \<Rightarrow> Inr (Some (show_ip (sa_ip addr)))
            | _ \<Rightarrow> Inr None) (\<lambda>sni.
     Inr \<lparr>px_addr = addr, px_addr_str = up_addr u, px_transport = up_transport u, px_tls = tls,
          px_tls_server_name = sni, px_expire = expire\<rparr>))"

definition forward_tls :: "'net forward_parsers \<Rightarrow> string \<Rightarrow> upstream list \<Rightarrow> forward_options \<Rightarrow> tls_config option res" where
  "forward_tls ps root ups op =
     (if list_ex (\<lambda>u. up_transport u = UTls) ups \<or> fo_tls_files op \<noteq> None then
        (case (case fo_tls_files op of Some t \<Rightarrow> t | None \<Rightarrow> (None, None, None)) of (cert, key, ca) \<Rightarrow>
           rbind (fp_client_config ps (map_option (path_join root) ca)
               (case (cert, key) of (Some cc, Some kk) \<Rightarrow> Some (path_join root cc, path_join root kk) | _ \<Rightarrow> None))
             (\<lambda>cfg. Inr (Some cfg)))
      else Inr None)"

definition forward_upstream ::
    "'net forward_parsers \<Rightarrow> (string \<Rightarrow> err) \<Rightarrow> forward \<Rightarrow> nat \<Rightarrow> upstream \<Rightarrow> proxy list res" where
  "forward_upstream ps ef f expire u =
     (if up_transport u = UDns \<or> up_transport u = UTls
      then rbind (proxy_new (fp_server_name ps) u (fw_tls_config f) (fw_tls_server_name f) expire) (\<lambda>p. Inr [p])
      else Inl (ef (''forward: unsupported upstream transport '' @ upstream_as_str (up_transport u) @ ''://'')))"

definition forward_finish ::
    "'net forward_parsers \<Rightarrow> (string \<Rightarrow> err) \<Rightarrow> string \<Rightarrow> upstream list \<Rightarrow> forward_options \<Rightarrow> forward res" where
  "forward_finish ps ef root ups op =
     rbind (forward_tls ps root ups op) (\<lambda>tls.
     (let f = (case tls of Some t \<Rightarrow> (fo_forward op)\<lparr>fw_tls_config := Some t\<rparr> | None \<Rightarrow> fo_forward op) in
      rbind (try_flat_map (forward_upstream ps ef f (fo_expire op)) ups) (\<lambda>proxies.
      if length proxies > 15 \<and> fw_policy f \<noteq> Sequential then Inl (ef ''more than 15 TOs configured'')
      else Inr (f\<lparr>fw_proxies := proxies\<rparr>))))"

definition forward_from :: "'net forward_parsers \<Rightarrow> string \<Rightarrow> string res" where
  "forward_from ps z =
     rbind (normalize_zone (fp_from_ascii ps) (fp_api ps) z) (\<lambda>zs.
       ok_or ''called `Option::unwrap()` on a `None` value'' (first zs))"

definition forward_parse :: "'net forward_parsers \<Rightarrow> 's controller \<Rightarrow> forward res \<times> 's controller" where
  "forward_parse ps c =
     (case ctl_disp remaining_args_until_brace c of (as, c1) \<Rightarrow>
        if length as < 2 then (Inl (ctl_arg_err c1), c1)
        else (case rbind (forward_from ps (hd as)) (\<lambda>from.
                 rbind (parse_host_port_or_file (fp_read_file ps) (tl as)) (\<lambda>ups.
                 if ups = [] then Inl (ctl_errf c1 ''no upstream servers'') else Inr (from, ups))) of
            Inl e \<Rightarrow> (Inl e, c1)
          | Inr (from, ups) \<Rightarrow>
              (case block_loop (forward_property ps)
                      \<lparr>fo_forward = forward_default from, fo_expire = 10 * SECOND, fo_tls_files = None\<rparr> c1 of
                 (Inl e, c2) \<Rightarrow> (Inl e, c2)
               | (Inr op, c2) \<Rightarrow> (forward_finish ps (ctl_errf c2) (sc_root (ct_config c2)) ups op, c2))))"

text \<open>One occurrence of the directive: the \<open>n\<close>-th handler works on the \<open>n\<close>-th state.\<close>

definition forward_body ::
    "'net forward_parsers \<Rightarrow> (nat \<Rightarrow> 's forward_env) \<Rightarrow> nat \<Rightarrow> 's controller \<Rightarrow> nat res \<times> 's controller" where
  "forward_body ps envs n c =
     (case forward_parse ps c of
        (Inl e, c1) \<Rightarrow> (Inl e, c1)
      | (Inr f, c1) \<Rightarrow> (Inr (n + 1), add_plugin (''forward'', forward_serve (envs n) f) c1))"

definition forward_setup :: "'net forward_parsers \<Rightarrow> (nat \<Rightarrow> 's forward_env) \<Rightarrow> 's setup_fn" where
  "forward_setup ps envs c =
     (case next_loop (forward_body ps envs) 0 c of (r, c') \<Rightarrow> (rbind r (\<lambda>_. Inr ()), c'))"

section \<open>Contracts\<close>

interpretation forward_block: block_property "forward_property ps"
  unfolding forward_property_def
  by (rule line_property_block) (simp add: forward_line_def is_ok_def Let_def)

lemma forward_parse_frame:
  assumes "forward_parse ps c = (r, c')"
  shows "appends_plugins c c'" "is_ok r \<Longrightarrow> left_over (ct_dispenser c') \<le> left_over (ct_dispenser c)"
proof -
  obtain as c1 where a: "ctl_disp remaining_args_until_brace c = (as, c1)"
    by (cases "ctl_disp remaining_args_until_brace c")
  note l1 = left_over_disp [OF a left_over_until_brace] and a1 = appends_disp [OF a]
  have "c' = c1 \<or> (\<exists>op r2. block_loop (forward_property ps) op c1 = (r2, c') \<and> (is_ok r \<longrightarrow> is_ok r2))"
    using assms a by (fastforce simp: forward_parse_def split: prod.splits sum.splits if_splits)
  then show "appends_plugins c c'" "is_ok r \<Longrightarrow> left_over (ct_dispenser c') \<le> left_over (ct_dispenser c)"
    using l1 a1 forward_block.loop_frame forward_block.loop_forward
    by (metis appends_refl appends_trans, metis le_trans)
qed

lemma forward_body_frame:
  assumes "forward_body ps envs n c = (r, c')"
  shows "appends_plugins c c'" "is_ok r \<Longrightarrow> left_over (ct_dispenser c') \<le> left_over (ct_dispenser c)"
proof -
  obtain r1 c1 where p: "forward_parse ps c = (r1, c1)" by (cases "forward_parse ps c")
  note f = forward_parse_frame [OF p]
  show "appends_plugins c c'"
    using assms p f(1) by (auto simp: forward_body_def split: sum.splits intro: appends_steps)
  show "left_over (ct_dispenser c') \<le> left_over (ct_dispenser c)" if "is_ok r"
    using assms p f(2) that by (auto simp: forward_body_def add_plugin_def split: sum.splits)
qed

interpretation forward_directive: directive_body "forward_body ps envs"
  by unfold_locales (auto dest: forward_body_frame)

interpretation forward_setup: setup_function "forward_setup ps envs"
  by (rule setup_functionI) (auto simp: forward_setup_def split: prod.splits intro: forward_directive.next_loop_appends)

lemma req_matches_set_id: "req_matches req m \<Longrightarrow> req_matches req (m\<lparr>m_id := m_id (rq_msg req)\<rparr>)"
  by (auto simp: req_matches_def split: if_splits option.splits)

lemma req_matches_id: "req_matches req m \<Longrightarrow> m_id m = m_id (rq_msg req)"
  by (simp add: req_matches_def split: if_splits)

text \<open>A round of the outer loop in which an upstream is tried.\<close>

lemma forward_loop_step:
  assumes "\<not> fe_now env s \<ge> deadline"
    and "pick_proxy (proxy_down (fw_max_fails f) (fe_get env s)) ps tried i = (Some p, tried', i')"
    and "connect_until env f p req deadline s = (x, s1)"
  shows "forward_loop env f ps deadline req tried i a s =
    (case x of
       Inl e \<Rightarrow>
         forward_loop env f ps deadline req tried' i'
           (a\<lparr>at_fails := at_fails a + 1, at_last_err := Some (px_addr_str (fw_proxies f ! p) @ '': '' @ e)\<rparr>)
           (fs_upd env (\<lambda>st. start_health_check p (add_fail p st)) s1)
     | Inr resp \<Rightarrow>
         if \<not> req_matches req resp then
           forward_loop env f ps deadline req tried' i'
             (a\<lparr>at_last_err := Some (''upstream '' @ px_addr_str (fw_proxies f ! p) @ '' returned mismatched response''),
                at_fails := at_fails a + 1\<rparr>) s1
         else if m_rcode resp \<in> set (fw_failover_rcodes f) \<and> i' < length ps
         then forward_loop env f ps deadline req tried' i' (a\<lparr>at_reply := Some resp\<rparr>) (fs_upd env (set_fails p 0) s1)
         else (Inr (resp\<lparr>m_id := m_id (rq_msg req)\<rparr>), fs_upd env (set_fails p 0) s1))"
  using assms by (subst forward_loop.simps) (auto simp: Let_def split: sum.splits)

lemma forward_loop_end:
  assumes "fe_now env s \<ge> deadline \<or> fst (pick_proxy (proxy_down (fw_max_fails f) (fe_get env s)) ps tried i) = None"
  shows "forward_loop env f ps deadline req tried i a s = (Inl a, s)"
  using assms by (subst forward_loop.simps) (auto split: prod.splits)

lemma forward_loop_matches:
  assumes "forward_loop env f ps deadline req tried i a s = (r, s')"
    and "\<And>m. at_reply a = Some m \<Longrightarrow> req_matches req m"
  shows "(\<forall>m. r = Inr m \<longrightarrow> req_matches req m) \<and> (\<forall>a' m. r = Inl a' \<longrightarrow> at_reply a' = Some m \<longrightarrow> req_matches req m)"
  using assms
proof (induction env f ps deadline req tried i a s rule: forward_loop.induct)
  case (1 env f ps deadline req tried i a s)
  obtain pk tried' i' where p: "pick_proxy (proxy_down (fw_max_fails f) (fe_get env s)) ps tried i = (pk, tried', i')"
    by (cases "pick_proxy (proxy_down (fw_max_fails f) (fe_get env s)) ps tried i")
  show ?case
  proof (cases "fe_now env s \<ge> deadline \<or> pk = None")
    case True
    with "1.prems" p show ?thesis using forward_loop_end [of deadline env s f ps tried i req a] by auto
  next
    case False
    then obtain q where pk: "pk = Some q" and now: "\<not> fe_now env s \<ge> deadline" by auto
    obtain x s1 where c: "connect_until env f q req deadline s = (x, s1)" by (cases "connect_until env f q req deadline s")
    note IH = "1.IH" [OF now p [symmetric] pk refl c [symmetric]]
    note step = forward_loop_step [OF now p [unfolded pk] c, of a]
    show ?thesis
    proof (cases x)
      case (Inl e)
      with IH(1) [OF Inl] "1.prems" step show ?thesis by simp
    next
      case (Inr resp)
      consider (wrong) "\<not> req_matches req resp"
        | (failover) "req_matches req resp" "m_rcode resp \<in> set (fw_failover_rcodes f) \<and> i' < length ps"
        | (answer) "req_matches req resp" "\<not> (m_rcode resp \<in> set (fw_failover_rcodes f) \<and> i' < length ps)" by blast
      then show ?thesis
      proof cases
        case wrong
        with IH(2) [OF Inr wrong] Inr "1.prems" step show ?thesis by simp
      next
        case failover
        with IH(3) [OF Inr _ refl failover(2)] Inr "1.prems"(1) step show ?thesis by simp
      next
        case answer
        with Inr "1.prems"(1) step have "r = Inr (resp\<lparr>m_id := m_id (rq_msg req)\<rparr>)" by simp
        with answer(1) show ?thesis by (simp add: req_matches_set_id)
      qed
    qed
  qed
qed

lemma forward_query_matches:
  assumes "forward_query env f req s = (Replied r, s')"
  shows "\<exists>m. r = RMsg m \<and> req_matches req m"
proof -
  obtain ps s0 where l: "policy_list env f s = (ps, s0)" by (cases "policy_list env f s")
  let ?dl = "case rq_deadline req of Some d \<Rightarrow> min d (fe_now env s0 + 5 * SECOND) | None \<Rightarrow> fe_now env s0 + 5 * SECOND"
  obtain x s1 where run: "forward_loop env f ps ?dl req False 0 \<lparr>at_last_err = None, at_fails = 0, at_reply = None\<rparr> s0 = (x, s1)"
    by (cases "forward_loop env f ps ?dl req False 0 \<lparr>at_last_err = None, at_fails = 0, at_reply = None\<rparr> s0")
  from forward_loop_matches [OF run] have
    ok: "\<forall>m. x = Inr m \<longrightarrow> req_matches req m" "\<forall>a' m. x = Inl a' \<longrightarrow> at_reply a' = Some m \<longrightarrow> req_matches req m" by simp_all
  show ?thesis
  proof (cases x)
    case (Inl a)
    with assms l run ok(2) show ?thesis
      by (auto simp: forward_query_def Let_def intro: req_matches_set_id split: option.splits if_splits)
  next
    case (Inr m)
    with assms l run ok(1) show ?thesis by (auto simp: forward_query_def Let_def)
  qed
qed

lemma forward_keeps_id:
  assumes "keeps_id (nx_serve nx)"
  shows "keeps_id (\<lambda>req s. forward_serve env f req nx s)"
proof -
  have named: "keeps_id (\<lambda>req s. nx_serve nx (snd (req_name req)) s)" by (rule keeps_id_same [OF assms]) simp
  have q: "m_id m = m_id (rq_msg req)" if "forward_query env f (snd (req_name req)) s = (Replied (RMsg m), s')" for req s m s'
    using forward_query_matches [OF that] req_matches_id by force
  show ?thesis
    unfolding keeps_id_def
  proof (intro allI conjI impI)
    fix req s
    note n = named [unfolded keeps_id_def, rule_format]
    show "m_id (rq_msg (fst (snd (forward_serve env f req nx s)))) = m_id (rq_msg req)"
      using n by (auto simp: forward_serve_def case_prod_beta Let_def split: outcome.splits reply.splits)
    show "m_id m = m_id (rq_msg req)" if "fst (forward_serve env f req nx s) = Replied (RMsg m)" for m
    proof -
      have "(\<exists>s1. fst (nx_serve nx (snd (req_name req)) s1) = Replied (RMsg m))
          \<or> (\<exists>s1 s2. forward_query env f (snd (req_name req)) s1 = (Replied (RMsg m), s2))"
        using that by (auto simp: forward_serve_def Let_def split: prod.splits outcome.splits reply.splits if_splits)
      with n q show ?thesis by blast
    qed
  qed
qed

interpretation forward_handler: id_keeping_handler "forward_serve env f"
  by unfold_locales (rule forward_keeps_id)

section \<open>The order of the upstreams\<close>

lemma pick_proxy_up:
  assumes "i \<le> k" "k < length ps" "\<not> down (ps ! k)" "\<And>j. i \<le> j \<Longrightarrow> j < k \<Longrightarrow> down (ps ! j)"
  shows "pick_proxy down ps tried i = (Some (ps ! k), tried, k + 1)"
  using assms
proof (induction "k - i" arbitrary: i)
  case 0
  then show ?case by (subst pick_proxy.simps) simp
next
  case (Suc n)
  then have "down (ps ! i)" "i < length ps" by auto
  moreover have "\<not> list_all down ps" using Suc.prems by (auto simp: list_all_length)
  moreover have "pick_proxy down ps tried (i + 1) = (Some (ps ! k), tried, k + 1)"
    using Suc.hyps(1) [of "i + 1"] Suc.hyps(2) Suc.prems by simp
  ultimately show ?case by (subst pick_proxy.simps) simp
qed

lemma pick_proxy_all_down:
  assumes "list_all down ps" "i < length ps"
  shows "pick_proxy down ps False i = (Some (last ps), True, 0)"
  using assms
proof (induction "length ps - i" arbitrary: i)
  case (Suc n)
  then have d: "down (ps ! i)" by (simp add: list_all_length)
  show ?case
  proof (cases "i + 1 = length ps")
    case True
    then have "last ps = ps ! i" using Suc.prems(2) by (metis add_diff_cancel_right' last_conv_nth list.size(3) not_less_zero)
    with True d Suc.prems show ?thesis by (subst pick_proxy.simps) simp
  next
    case False
    with Suc have "pick_proxy down ps False (i + 1) = (Some (last ps), True, 0)" by simp
    with False d Suc.prems show ?thesis by (subst pick_proxy.simps) simp
  qed
qed simp

lemma pick_proxy_tried: "list_all down ps \<Longrightarrow> fst (pick_proxy down ps True i) = None"
proof (induction "length ps - i" arbitrary: i)
  case 0
  then show ?case by (subst pick_proxy.simps) simp
next
  case (Suc n)
  then have "down (ps ! i)" by (simp add: list_all_length)
  with Suc show ?case by (subst pick_proxy.simps) simp
qed

lemma round_robin_list:
  assumes "n > 0"
  shows "distinct (map (\<lambda>i. (start + i) mod n) [0..<n])" "set (map (\<lambda>i. (start + i) mod n) [0..<n]) = {..<n}"
proof -
  have le: "i = j" if "i \<le> j" "j < n" "(start + i) mod n = (start + j) mod n" for i j
    using that mod_eq_dvd_iff_nat [of "start + i" "start + j" n] by (auto dest: dvd_imp_le)
  have inj: "inj_on (\<lambda>i. (start + i) mod n) {..<n}"
    by (rule inj_onI) (metis le lessThan_iff nat_le_linear)
  then show "distinct (map (\<lambda>i. (start + i) mod n) [0..<n])" by (simp add: distinct_map lessThan_atLeast0)
  have "(\<lambda>i. (start + i) mod n) ` {..<n} \<subseteq> {..<n}" using assms by auto
  with inj have "(\<lambda>i. (start + i) mod n) ` {..<n} = {..<n}" by (intro endo_inj_surj) auto
  then show "set (map (\<lambda>i. (start + i) mod n) [0..<n]) = {..<n}" by (simp add: lessThan_atLeast0)
qed

section \<open>Steps of the health checks\<close>

text \<open>
  The atomic steps on the counters of the upstreams: a query that failed counts the failure and then
  starts a check, one that was answered resets the count, and a task takes its next step.
\<close>

inductive forward_step :: "forward_state \<Rightarrow> forward_state \<Rightarrow> bool" where
  count_failure: "forward_step st (add_fail p st)"
| start_check: "forward_step st (start_health_check p st)"
| answered: "forward_step st (set_fails p 0 st)"
| task: "(p, ph) \<in> set (fs_tasks st) \<Longrightarrow> forward_step st (health_step p ph probe_ok st)"

inductive_cases forward_stepE: "forward_step st st'"

definition checks_ok :: "forward_state \<Rightarrow> bool" where
  "checks_ok st \<longleftrightarrow> distinct (map fst (fs_tasks st)) \<and> (\<forall>p. fs_probing st p \<longleftrightarrow> p \<in> fst ` set (fs_tasks st))"

definition forward_state_new :: forward_state where
  "forward_state_new = \<lparr>fs_fails = (\<lambda>_. 0), fs_probing = (\<lambda>_. False), fs_pool = (\<lambda>_. []), fs_concurrent = 0, fs_rr = 0, fs_tasks = []\<rparr>"

lemma count_list_distinct: "distinct xs \<Longrightarrow> count_list xs x = (if x \<in> set xs then 1 else 0)"
  by (induction xs) auto

lemma checks_ok_new: "checks_ok forward_state_new"
  by (simp add: checks_ok_def forward_state_new_def)

lemma set_fails_fields [simp]:
  "fs_tasks (set_fails p n st) = fs_tasks st" "fs_probing (set_fails p n st) = fs_probing st"
  "fs_tasks (add_fail p st) = fs_tasks st" "fs_probing (add_fail p st) = fs_probing st"
  "fs_probing (set_phase p ph st) = fs_probing st"
  by (simp_all add: set_fails_def add_fail_def set_phase_def)

lemma set_phase_keys [simp]: "map fst (fs_tasks (set_phase p ph st)) = map fst (fs_tasks st)"
  by (simp add: set_phase_def)

lemma checks_ok_keys:
  "map fst (fs_tasks st') = map fst (fs_tasks st) \<Longrightarrow> fs_probing st' = fs_probing st \<Longrightarrow> checks_ok st \<Longrightarrow> checks_ok st'"
  by (simp add: checks_ok_def flip: set_map)

lemma checks_ok_start: "checks_ok st \<Longrightarrow> checks_ok (start_health_check p st)"
  by (auto simp: checks_ok_def start_health_check_def)

lemma checks_ok_step: "forward_step st st' \<Longrightarrow> checks_ok st \<Longrightarrow> checks_ok st'"
proof (induction rule: forward_step.induct)
  case (task p ph st probe_ok)
  then show ?case
  proof (cases ph)
    case Finishing
    with task.prems show ?thesis by (force simp: checks_ok_def distinct_map_filter)
  qed (auto intro: checks_ok_keys)
qed (auto intro: checks_ok_keys checks_ok_start)

section \<open>Properties\<close>

text \<open>The environment of the examples: the shared state is the plugin's own, and every exchange gives what \<open>answer\<close> says.\<close>

definition plain_forward_env :: "message res \<Rightarrow> forward_state forward_env" where
  "plain_forward_env answer = \<lparr>fe_get = (\<lambda>s. s), fe_put = (\<lambda>st s. st), fe_now = (\<lambda>_. 0), fe_shuffle = (\<lambda>ps s. (ps, s)),
     fe_to_vec = (\<lambda>_. Inr [0, 0]), fe_from_bytes = (\<lambda>_. answer), fe_udp = (\<lambda>_ _ s. (([[0, 0]], ''i/o timeout''), s)),
     fe_dial = (\<lambda>_ _ s. (Inr 0, s)), fe_stream = (\<lambda>_ b s. (Inr b, s)), fe_cut = (\<lambda>_ _ _ _. None)\<rparr>"

definition loopback_proxy :: "string \<Rightarrow> proxy" where
  "loopback_proxy a = \<lparr>px_addr = \<lparr>sa_ip = V4 [127, 0, 0, 1], sa_port = 53\<rparr>, px_addr_str = a, px_transport = UDns,
     px_tls = None, px_tls_server_name = None, px_expire = 0\<rparr>"

definition forward_to :: "string list \<Rightarrow> forward" where
  "forward_to as = (forward_default ''.'')\<lparr>fw_proxies := map loopback_proxy as, fw_policy := Sequential\<rparr>"

lemma plain_connect:
  assumes "p < length as" "m_truncated (case answer of Inr m \<Rightarrow> m | Inl _ \<Rightarrow> message_new) = False" "rq_proto req = Udp"
  shows "connect_until (plain_forward_env answer) (forward_to as) p req d st = (answer, st)"
  using assms
  by (cases answer) (auto simp: connect_until_def plain_forward_env_def forward_connect_def proxy_exchange_def udp_exchange_def
      same_id_def forward_to_def forward_default_def loopback_proxy_def Let_def)

text \<open>C17: A forwarded answer belongs to the query: whatever the upstreams send, the message that forward answers with
  is a response with the query's id, name, type and class; a response that does not match is never passed on.\<close>

theorem forward_reply_matches:
  assumes "forward_query env f req s = (Replied r, s')"
  shows "\<exists>m. r = RMsg m \<and> req_matches req m"
  using assms by (rule forward_query_matches)

theorem forward_reply_matches_witness:
  "\<exists>m s'. forward_query (plain_forward_env (Inr (new_reply (query_for ''a.'' RT_A)))) (forward_to [''u'']) (query_for ''a.'' RT_A)
      forward_state_new = (Replied (RMsg m), s') \<and> req_matches (query_for ''a.'' RT_A) m"
proof -
  let ?e = "plain_forward_env (Inr (new_reply (query_for ''a.'' RT_A)))" and ?f = "forward_to [''u'']" and ?q = "query_for ''a.'' RT_A"
  have pk: "pick_proxy (proxy_down (fw_max_fails ?f) (fe_get ?e forward_state_new)) [0] False 0 = (Some 0, False, 1)"
    by (subst pick_proxy.simps) (simp add: proxy_down_def forward_state_new_def forward_to_def forward_default_def plain_forward_env_def)
  have now: "\<not> fe_now ?e forward_state_new \<ge> 5 * SECOND" by (simp add: plain_forward_env_def SECOND_def)
  have c: "connect_until ?e ?f 0 ?q (5 * SECOND) forward_state_new = (Inr (new_reply ?q), forward_state_new)"
    by (rule plain_connect) (simp_all add: query_for_def request_new_def)
  have q: "forward_query ?e ?f ?q forward_state_new =
      (Replied (RMsg ((new_reply ?q)\<lparr>m_id := 7\<rparr>)), fs_upd ?e (set_fails 0 0) forward_state_new)"
    using forward_loop_step [OF now pk c, of "\<lparr>at_last_err = None, at_fails = 0, at_reply = None\<rparr>"]
    by (simp add: forward_query_def policy_list_def forward_to_def forward_default_def plain_forward_env_def new_reply_matches
        query_for_def [of "''a.''"] request_new_def Let_def)
  from forward_reply_matches [OF this] show ?thesis using q by blast
qed

text \<open>Upstreams are tried in the order of the policy: round robin gives every upstream once, starting one further for
  every query; and the first upstream of the list that is not down is asked first, whose matching answer is the reply,
  with no other upstream asked, unless its response code is one to fail over.\<close>

lemma forward_first_healthy:
  assumes "k < length ps" "\<not> proxy_down (fw_max_fails f) (fe_get env s) (ps ! k)"
    and "\<forall>j < k. proxy_down (fw_max_fails f) (fe_get env s) (ps ! j)" "fe_now env s < deadline"
    and "connect_until env f (ps ! k) req deadline s = (Inr resp, s1)" "req_matches req resp"
    and "m_rcode resp \<notin> set (fw_failover_rcodes f)"
  shows "forward_loop env f ps deadline req False 0 a s = (Inr (resp\<lparr>m_id := m_id (rq_msg req)\<rparr>), fs_upd env (set_fails (ps ! k) 0) s1)
    \<and> (fw_policy f = RoundRobin \<longrightarrow> fw_proxies f \<noteq> [] \<longrightarrow>
        (case policy_list env f s of (qs, _) \<Rightarrow> distinct qs \<and> set qs = {..<length (fw_proxies f)}
           \<and> hd qs = fs_rr (fe_get env s) mod length (fw_proxies f)))"
proof -
  have pk: "pick_proxy (proxy_down (fw_max_fails f) (fe_get env s)) ps False 0 = (Some (ps ! k), False, k + 1)"
    using assms(1-3) by (intro pick_proxy_up) auto
  have "forward_loop env f ps deadline req False 0 a s = (Inr (resp\<lparr>m_id := m_id (rq_msg req)\<rparr>), fs_upd env (set_fails (ps ! k) 0) s1)"
    using forward_loop_step [OF _ pk assms(5)] assms(4,6,7) by simp
  moreover have "fw_policy f = RoundRobin \<longrightarrow> fw_proxies f \<noteq> [] \<longrightarrow>
        (case policy_list env f s of (qs, _) \<Rightarrow> distinct qs \<and> set qs = {..<length (fw_proxies f)}
           \<and> hd qs = fs_rr (fe_get env s) mod length (fw_proxies f))"
  proof (intro impI)
    assume rr: "fw_policy f = RoundRobin" and ne: "fw_proxies f \<noteq> []"
    then have m: "max (length (fw_proxies f)) (Suc 0) = length (fw_proxies f)" "0 < length (fw_proxies f)" by (cases "fw_proxies f"; simp)+
    from rr ne m(2) round_robin_list [of "length (fw_proxies f)"] show "case policy_list env f s of (qs, _) \<Rightarrow>
        distinct qs \<and> set qs = {..<length (fw_proxies f)} \<and> hd qs = fs_rr (fe_get env s) mod length (fw_proxies f)"
      by (simp add: policy_list_def Let_def hd_map m del: set_map)
  qed
  ultimately show ?thesis by blast
qed

text \<open>When every upstream is down only one is tried: the loop that picks an upstream takes the last one of the list,
  starts over and then finds none, so that after that upstream's failure the query fails with its error, although
  the list is said to be tried once more from the start.\<close>

lemma forward_all_down:
  assumes "ps \<noteq> []" "list_all (proxy_down (fw_max_fails f) (fe_get env s)) ps" "fe_now env s < deadline"
    and "connect_until env f (last ps) req deadline s = (Inl e, s1)"
    and "s2 = fs_upd env (\<lambda>st. start_health_check (last ps) (add_fail (last ps) st)) s1"
    and "list_all (proxy_down (fw_max_fails f) (fe_get env s2)) ps"
  shows "forward_loop env f ps deadline req False 0 a s =
    (Inl (a\<lparr>at_fails := at_fails a + 1, at_last_err := Some (px_addr_str (fw_proxies f ! last ps) @ '': '' @ e)\<rparr>), s2)"
proof -
  have "pick_proxy (proxy_down (fw_max_fails f) (fe_get env s)) ps False 0 = (Some (last ps), True, 0)"
    using assms(1,2) by (intro pick_proxy_all_down) auto
  from forward_loop_step [OF _ this assms(4)] assms(3,5) forward_loop_end [OF disjI2 [OF pick_proxy_tried [OF assms(6)]]]
  show ?thesis by simp
qed

text \<open>C18: An upstream has at most one health check: from the initial state, in whatever order failures are counted, checks
  are started, answers arrive and the tasks take their steps, every upstream has at most one task, and its flag
  says whether it has one.\<close>

theorem forward_single_check:
  assumes "forward_step\<^sup>*\<^sup>* forward_state_new st"
  shows "length (filter (\<lambda>t. fst t = p) (fs_tasks st)) = (if fs_probing st p then 1 else 0)"
proof -
  have "checks_ok st" using assms by (induction rule: rtranclp_induct) (auto intro: checks_ok_step checks_ok_new)
  then have d: "distinct (map fst (fs_tasks st))" and p: "fs_probing st p \<longleftrightarrow> p \<in> set (map fst (fs_tasks st))"
    by (simp_all add: checks_ok_def)
  have "length (filter (\<lambda>t. fst t = p) (fs_tasks st)) = count_list (map fst (fs_tasks st)) p"
    by (simp add: count_list_eq_length_filter filter_map o_def eq_commute)
  with d p show ?thesis by (simp add: count_list_distinct)
qed

theorem forward_single_check_witness:
  "\<exists>st. forward_step\<^sup>*\<^sup>* forward_state_new st \<and> fs_probing st 0 \<and> length (filter (\<lambda>t. fst t = 0) (fs_tasks st)) = 1"
proof -
  let ?st = "start_health_check 0 (start_health_check 0 (add_fail 0 forward_state_new))"
  have r: "forward_step\<^sup>*\<^sup>* forward_state_new ?st"
    by (meson count_failure start_check rtranclp.rtrancl_refl rtranclp.rtrancl_into_rtrancl)
  have "fs_probing ?st 0" by (simp add: start_health_check_def)
  with forward_single_check [OF r, of 0] r show ?thesis by (intro exI [of _ ?st]) simp
qed

text \<open>A health check can be lost: a failure that is counted after a check has decided to end and before it has
  cleared its flag finds the flag set and starts no check, so that with \<open>max_fails 1\<close> the upstream is down with no check
  running, and as long as another upstream is up nothing asks it again.\<close>

lemma forward_lost_check:
  "\<exists>st. forward_step\<^sup>*\<^sup>* forward_state_new st \<and> proxy_down 1 st p \<and> \<not> fs_probing st p \<and> fs_tasks st = []
     \<and> pick_proxy (proxy_down 1 st) [p, Suc p] tried 0 = (Some (Suc p), tried, 2)"
proof -
  let ?s1 = "start_health_check p (add_fail p forward_state_new)"
  let ?s2 = "health_step p Sleeping True ?s1"
  let ?s3 = "health_step p Probing True ?s2"
  let ?s4 = "start_health_check p (add_fail p ?s3)"
  let ?s5 = "health_step p Finishing True ?s4"
  note defs = start_health_check_def add_fail_def set_fails_def set_phase_def forward_state_new_def
  have t: "(p, Sleeping) \<in> set (fs_tasks ?s1)" "(p, Probing) \<in> set (fs_tasks ?s2)" "(p, Finishing) \<in> set (fs_tasks ?s4)"
    by (simp_all add: defs)
  have "forward_step\<^sup>*\<^sup>* forward_state_new ?s1" by (meson count_failure start_check rtranclp.rtrancl_refl rtranclp.rtrancl_into_rtrancl)
  also have "forward_step\<^sup>*\<^sup>* ?s1 ?s3" by (meson task t(1,2) rtranclp.rtrancl_refl rtranclp.rtrancl_into_rtrancl)
  also have "forward_step\<^sup>*\<^sup>* ?s3 ?s4" by (meson count_failure start_check rtranclp.rtrancl_refl rtranclp.rtrancl_into_rtrancl)
  also have "forward_step\<^sup>*\<^sup>* ?s4 ?s5" by (meson task t(3) rtranclp.rtrancl_refl rtranclp.rtrancl_into_rtrancl)
  finally have r: "forward_step\<^sup>*\<^sup>* forward_state_new ?s5" .
  have d: "proxy_down 1 ?s5 p" "\<not> proxy_down 1 ?s5 (Suc p)" "\<not> fs_probing ?s5 p" "fs_tasks ?s5 = []"
    by (simp_all add: defs proxy_down_def)
  have "pick_proxy (proxy_down 1 ?s5) [p, Suc p] tried 0 = (Some ([p, Suc p] ! 1), tried, 1 + 1)"
    using d(1,2) by (intro pick_proxy_up) (auto simp: less_Suc_eq)
  with r d show ?thesis by (intro exI [of _ ?s5]) simp
qed

end
