(* ===== verification/Answer_Plugins.thy ===== *)
theory Answer_Plugins
  imports Block_Setup
begin

text \<open>
  Plugins that answer queries or change answers with little configuration, each from its file under
  \<open>src/plugins\<close>: \<open>local\<close>, \<open>loadbalance\<close>, \<open>erratic\<close>, \<open>dns64\<close>, \<open>autopath\<close> and \<open>loop\<close>.

  Random choices, files, timers, networks and the queries a plugin sends to its own server are
  arguments. State behind atomics and locks is a part of the shared state, reached by an accessor.

  Shown here: every setup keeps the contract of \<open>setup_function\<close> and every handler but that of
  \<open>autopath\<close>, which may pass on the reply to a query of its own, keeps the id; balancing permutes the
  sections and keeps CNAME records in front, and the weighted choice is proportional to the weights;
  addresses are embedded as RFC 6052 lays them out; a probe is a loop from its third arrival on.
\<close>

section \<open>local\<close>

definition local_zones :: "string list" where
  "local_zones = [''localhost.'', ''0.in-addr.arpa.'', ''127.in-addr.arpa.'', ''255.in-addr.arpa.'']"

definition LOCAL_TTL :: u32 where "LOCAL_TTL = 604800"

definition local_soa :: "dname \<Rightarrow> rr" where
  "local_soa origin = from_rdata origin LOCAL_TTL (RD_SOA \<lparr>soa_mname = ''localhost.'', soa_rname = ''root.localhost.'',
     soa_serial = 1, soa_refresh = 0, soa_retry = 0, soa_expire = 0, soa_minimum = LOCAL_TTL\<rparr>)"

definition local_a :: "dname \<Rightarrow> rr" where
  "local_a n = from_rdata n LOCAL_TTL (RD_A [127, 0, 0, 1])"

definition local_aaaa :: "dname \<Rightarrow> rr" where
  "local_aaaa n = from_rdata n LOCAL_TTL (RD_AAAA (replicate 15 0 @ [1]))"

text \<open>\<open>Name::trim_to\<close>: the last labels of a name, with its own spelling.\<close>

definition trim_to :: "nat \<Rightarrow> dname \<Rightarrow> dname" where
  "trim_to n d =
     (let ls = filter (\<lambda>l. l \<noteq> []) (split_char (CHR ''.'') d) in
      join_with ''.'' (drop (length ls - n) ls) @ ''.'')"

definition local_apex :: "rtype \<Rightarrow> string \<Rightarrow> dname \<Rightarrow> message \<Rightarrow> message" where
  "local_apex qt lname qn m =
     (if qt = RT_A \<and> lname = ''localhost.'' then add_answer (local_a qn) m
      else if qt = RT_AAAA \<and> lname = ''localhost.'' then add_answer (local_aaaa qn) m
      else if qt = RT_SOA then add_answer (local_soa qn) m
      else if qt = RT_NS then add_answer (from_rdata qn LOCAL_TTL (RD_NS ''localhost.'')) m
      else add_name_server (local_soa qn) m)"

definition local_nxdomain :: "dname \<Rightarrow> message \<Rightarrow> message" where
  "local_nxdomain z m = (add_name_server (local_soa z) m)\<lparr>m_rcode := NXDomain\<rparr>"

definition local_in_zone :: "rtype \<Rightarrow> string \<Rightarrow> dname \<Rightarrow> dname \<Rightarrow> message \<Rightarrow> message" where
  "local_in_zone qt lname qn zone_name m =
     (let m1 = (if lname \<in> set local_zones then local_apex qt lname qn m
                else if lname = ''1.0.0.127.in-addr.arpa.'' then
                  (if qt = RT_PTR then add_answer (from_rdata qn LOCAL_TTL (RD_PTR ''localhost.'')) m
                   else add_name_server (local_soa zone_name) m)
                else m)
      in if m_answers m1 = [] \<and> m_name_servers m1 = [] then local_nxdomain zone_name m1 else m1)"

definition local_serve :: "'s handler" where
  "local_serve req nx s =
     (case req_name req of (lname, req1) \<Rightarrow>
        (let qt = qtype req1; qn = qname req1; m = new_reply req1 in
         if length lname > length ''localhost.'' \<and> starts_with lname ''localhost.'' then
           (Replied (RMsg (if qt = RT_A then add_answer (local_a qn) m
                           else if qt = RT_AAAA then add_answer (local_aaaa qn) m
                           else add_name_server (local_soa qn) m)), req1, s)
         else (case zones_match local_zones lname of
             None \<Rightarrow> nx_serve nx req1 s
           | Some zone \<Rightarrow> (Replied (RMsg (local_in_zone qt lname qn (trim_to (count_labels zone) qn) m)), req1, s))))"

definition setup_local :: "'s setup_fn" where
  "setup_local = single_setup ''local'' (no_args_body (''local'', local_serve))"

section \<open>loadbalance\<close>

type_synonym weights = "string \<rightharpoonup> (ip_addr \<rightharpoonup> u8)"

datatype 's lb_policy = LbRoundRobin | LbWeighted "'s \<Rightarrow> weights"

text \<open>
  The random number generator: \<open>lb_shuffle\<close> is \<open>SliceRandom::shuffle\<close>, \<open>lb_pick\<close> is \<open>gen_range(0..total)\<close>.
\<close>

record 's lb_rng =
  lb_shuffle :: "rr list \<Rightarrow> 's \<Rightarrow> rr list \<times> 's"
  lb_pick :: "nat \<Rightarrow> 's \<Rightarrow> nat \<times> 's"

definition is_addr :: "rr \<Rightarrow> bool" where
  "is_addr r \<longleftrightarrow> rr_type r = RT_A \<or> rr_type r = RT_AAAA"

text \<open>The equality of \<open>Record\<close>, as RFC 2136 has it: the time to live and the case of the name do not count.\<close>

definition rr_equal :: "rr \<Rightarrow> rr \<Rightarrow> bool" where
  "rr_equal r f \<longleftrightarrow> to_ascii_lowercase (rr_name r) = to_ascii_lowercase (rr_name f) \<and> rr_type r = rr_type f \<and>
     rr_class r = rr_class f \<and> rr_data r = rr_data f"

fun position_where :: "('a \<Rightarrow> bool) \<Rightarrow> 'a list \<Rightarrow> nat option" where
  "position_where p [] = None"
| "position_where p (x # xs) = (if p x then Some 0 else map_option Suc (position_where p xs))"

definition swap_first :: "nat \<Rightarrow> 'a list \<Rightarrow> 'a list" where
  "swap_first pos xs = xs[0 := xs ! pos, pos := xs ! 0]"

definition shuffle_section :: "'s lb_rng \<Rightarrow> rr list \<Rightarrow> rr option \<Rightarrow> 's \<Rightarrow> rr list \<times> 's" where
  "shuffle_section rng records fst_rr s =
     (let cname = filter (\<lambda>r. rr_type r = RT_CNAME) records;
          addr = filter is_addr records;
          mx = filter (\<lambda>r. rr_type r = RT_MX) records;
          rest = filter (\<lambda>r. rr_type r \<noteq> RT_CNAME \<and> \<not> is_addr r \<and> rr_type r \<noteq> RT_MX) records in
      case lb_shuffle rng addr s of (addr1, s1) \<Rightarrow>
      case lb_shuffle rng mx s1 of (mx1, s2) \<Rightarrow>
        (let addr2 = (case fst_rr of
               None \<Rightarrow> addr1
             | Some f \<Rightarrow> (case position_where (\<lambda>r. rr_equal r f) addr1 of Some pos \<Rightarrow> swap_first pos addr1 | None \<Rightarrow> addr1))
         in (cname @ addr2 @ mx1 @ rest, s2)))"

fun candidate :: "(ip_addr \<rightharpoonup> u8) \<Rightarrow> rr \<Rightarrow> (rr \<times> u8) option" where
  "candidate tb r =
     (case rr_data r of
        Some (RD_A a) \<Rightarrow> Some (r, case tb (V4 a) of Some w \<Rightarrow> w | None \<Rightarrow> 1)
      | Some (RD_AAAA a) \<Rightarrow> Some (r, case tb (V6 a) of Some w \<Rightarrow> w | None \<Rightarrow> 1)
      | _ \<Rightarrow> None)"

fun pick_weighted :: "nat \<Rightarrow> (rr \<times> u8) list \<Rightarrow> rr option" where
  "pick_weighted pick [] = None"
| "pick_weighted pick ((r, w) # cs) = (if pick < unat w then Some r else pick_weighted (pick - unat w) cs)"

definition weighted_first :: "'s lb_rng \<Rightarrow> weights \<Rightarrow> string \<Rightarrow> rr list \<Rightarrow> 's \<Rightarrow> rr option \<times> 's" where
  "weighted_first rng w qn answers s =
     (case w (to_ascii_lowercase qn) of
        None \<Rightarrow> (None, s)
      | Some tb \<Rightarrow>
          (let cs = List.map_filter (candidate tb) answers; total = sum_list (map (\<lambda>c. unat (snd c)) cs) in
           if cs = [] \<or> total = 0 then (None, s)
           else (case lb_pick rng total s of (pick, s1) \<Rightarrow> (pick_weighted pick cs, s1))))"

definition lb_balance :: "'s lb_rng \<Rightarrow> 's lb_policy \<Rightarrow> string \<Rightarrow> message \<Rightarrow> 's \<Rightarrow> message \<times> 's" where
  "lb_balance rng pol qn m s =
     (case (case pol of LbRoundRobin \<Rightarrow> (None, s) | LbWeighted w \<Rightarrow> weighted_first rng (w s) qn (m_answers m) s) of
        (f, s1) \<Rightarrow>
          (case shuffle_section rng (m_answers m) f s1 of (as, s2) \<Rightarrow>
             (case shuffle_section rng (m_additionals m) None s2 of (xs, s3) \<Rightarrow>
                (m\<lparr>m_answers := as, m_additionals := xs\<rparr>, s3))))"

definition loadbalance_serve :: "'s lb_rng \<Rightarrow> 's lb_policy \<Rightarrow> 's handler" where
  "loadbalance_serve rng pol req nx s =
     (case req_name req of (qn, req1) \<Rightarrow>
        on_reply (nx_serve nx req1 s) (\<lambda>r req2 s2.
          (case r of
             RMsg m \<Rightarrow> (case lb_balance rng pol qn m s2 of (m', s3) \<Rightarrow> (Replied (RMsg m'), req2, s3))
           | _ \<Rightarrow> (Replied r, req2, s2))))"

text \<open>The weight file, line by line: the weights read so far and the domain the next weights belong to.\<close>

definition weight_line :: "string \<Rightarrow> nat \<Rightarrow> string \<Rightarrow> weights \<times> string option \<Rightarrow> (weights \<times> string option) res" where
  "weight_line path ln line0 st =
     (case st of (w, cur) \<Rightarrow>
        (let line = trim (hd (split_char (CHR ''#'') line0));
             at = path @ '':'' @ show_nat (ln + 1) @ '': '' in
         if line = [] then Inr (w, cur)
         else (case split_whitespace line of
             [d] \<Rightarrow> Inr (w, Some (fqdn d))
           | [a, b] \<Rightarrow>
               rbind (ok_or (at @ ''bad IP '' @ a) (parse_ip a)) (\<lambda>ip.
               rbind (ok_or (at @ ''bad weight '' @ b) (parse_u8 b)) (\<lambda>n.
               rbind (ok_or (at @ ''weight before any domain'') cur) (\<lambda>d.
               Inr (w(d \<mapsto> (case w d of Some tb \<Rightarrow> tb | None \<Rightarrow> Map.empty)(ip \<mapsto> of_nat n)), cur))))
           | _ \<Rightarrow> Inl (at @ ''unexpected line''))))"

fun weight_lines :: "string \<Rightarrow> nat \<Rightarrow> string list \<Rightarrow> weights \<times> string option \<Rightarrow> weights res" where
  "weight_lines path ln [] st = Inr (fst st)"
| "weight_lines path ln (l # ls) st = rbind (weight_line path ln l st) (weight_lines path (ln + 1) ls)"

definition parse_weight_file :: "(string \<Rightarrow> string res) \<Rightarrow> string \<Rightarrow> weights res" where
  "parse_weight_file rd path = rbind (rd path) (\<lambda>t. weight_lines path 0 (lines t) (Map.empty, None))"

record 's lb_env =
  le_rng :: "'s lb_rng"
  le_parse_duration :: "string \<Rightarrow> nat res"
  le_read :: "string \<Rightarrow> string res"
  le_reloaded :: "'s \<Rightarrow> weights option"
  le_spawn :: "string \<Rightarrow> nat \<Rightarrow> 's hook"
  le_cancel :: "'s hook"

definition lb_line :: "(string \<Rightarrow> nat res) \<Rightarrow> (string \<Rightarrow> err) \<Rightarrow> err \<Rightarrow> string \<Rightarrow> string list \<Rightarrow> nat \<Rightarrow> nat res" where
  "lb_line parse_duration ef arg_e v a reload =
     (if v = ''reload'' then (if length a \<noteq> 1 then Inl arg_e else parse_duration (hd a))
      else Inl (ef (''unknown property '' @ quote v)))"

definition lb_property :: "(string \<Rightarrow> nat res) \<Rightarrow> nat \<Rightarrow> 's controller \<Rightarrow> nat res \<times> 's controller" where
  "lb_property parse_duration = line_property (\<lambda>v. v = ''reload'') (lb_line parse_duration)"

definition lb_weighted :: "'s lb_env \<Rightarrow> string \<Rightarrow> 's setup_fn" where
  "lb_weighted env file_arg c =
     (let path = path_join (sc_root (ct_config c)) file_arg in
      case block_loop (lb_property (le_parse_duration env)) (30 * SECOND) c of
        (Inl e, c1) \<Rightarrow> (Inl e, c1)
      | (Inr reload, c1) \<Rightarrow>
          (case parse_weight_file (le_read env) path of
             Inl e \<Rightarrow> (Inl (ctl_errf c1 e), c1)
           | Inr w0 \<Rightarrow>
               (let c2 = (if reload \<noteq> 0 then on_startup (le_spawn env path reload) (on_shutdown (le_cancel env) c1) else c1);
                    cur = (\<lambda>s. case le_reloaded env s of Some w \<Rightarrow> w | None \<Rightarrow> w0)
                in (Inr (), add_plugin (''loadbalance'', loadbalance_serve (le_rng env) (LbWeighted cur)) c2))))"

definition lb_body :: "'s lb_env \<Rightarrow> 's setup_fn" where
  "lb_body env c =
     (case ctl_disp remaining_args_until_brace c of (as, c1) \<Rightarrow>
        (case as of
           [] \<Rightarrow> (Inr (), add_plugin (''loadbalance'', loadbalance_serve (le_rng env) LbRoundRobin) c1)
         | p # rest \<Rightarrow>
             if p = ''round_robin'' then
               (if rest \<noteq> [] then (Inl (ctl_arg_err c1), c1)
                else (Inr (), add_plugin (''loadbalance'', loadbalance_serve (le_rng env) LbRoundRobin) c1))
             else if p = ''weighted'' then
               (case rest of
                  [] \<Rightarrow> (Inl (ctl_errf c1 ''missing weight file argument''), c1)
                | file_arg # _ \<Rightarrow> lb_weighted env file_arg c1)
             else (Inl (ctl_errf c1 (''unknown policy: '' @ p)), c1)))"

definition loadbalance_setup :: "'s lb_env \<Rightarrow> 's setup_fn" where
  "loadbalance_setup env = single_setup ''loadbalance'' (lb_body env)"

text \<open>A round of the reload task: the weights are replaced when the file has changed and can be read.\<close>

definition lb_tick :: "(string \<Rightarrow> string res) \<Rightarrow> string \<Rightarrow> nat option \<Rightarrow> nat option \<times> weights \<Rightarrow> nat option \<times> weights" where
  "lb_tick rd path now st =
     (case st of (last_mtime, w) \<Rightarrow>
        if now \<noteq> last_mtime then (now, case parse_weight_file rd path of Inr w' \<Rightarrow> w' | Inl _ \<Rightarrow> w) else (last_mtime, w))"

section \<open>erratic\<close>

record erratic =
  er_drop :: nat
  er_truncate :: nat
  er_delay :: nat
  er_duration :: nat
  er_large :: bool

text \<open>The counter of the queries, the sleep, and \<open>Name::from_ascii\<close> of a label followed by \<open>append_domain\<close>.\<close>

record 's erratic_env =
  ee_count :: "'s \<Rightarrow> nat"
  ee_set_count :: "nat \<Rightarrow> 's \<Rightarrow> 's"
  ee_sleep :: "nat \<Rightarrow> 's \<Rightarrow> 's"
  ee_prepend :: "string \<Rightarrow> dname \<Rightarrow> dname res"

definition every :: "nat \<Rightarrow> nat \<Rightarrow> bool" where
  "every k n \<longleftrightarrow> k > 0 \<and> n mod k = 0"

definition erratic_soa :: "dname \<Rightarrow> rr" where
  "erratic_soa z = from_rdata z 0 (RD_SOA \<lparr>soa_mname = ''sns.dns.icann.org.'', soa_rname = ''noc.dns.icann.org.'',
     soa_serial = 2018050825, soa_refresh = 7200, soa_retry = 3600, soa_expire = 1209600, soa_minimum = 3600\<rparr>)"

definition xfr_records :: "(string \<Rightarrow> dname \<Rightarrow> dname res) \<Rightarrow> dname \<Rightarrow> bool \<Rightarrow> rr list" where
  "xfr_records prepend zone close =
     (let n = (\<lambda>l. case prepend l zone of Inr x \<Rightarrow> x | Inl _ \<Rightarrow> zone) in
      [erratic_soa zone, from_rdata zone 0 (RD_NS (n ''b'')), from_rdata zone 0 (RD_NS (n ''a'')),
       from_rdata (n ''a'') 0 (RD_AAAA ([0x20, 0x01, 0x0b, 0xd8] @ replicate 11 0 @ [0x53])),
       from_rdata (n ''b'') 0 (RD_AAAA ([0x20, 0x01, 0x05, 0x00] @ replicate 11 0 @ [0x54]))]
      @ (if close then [erratic_soa zone] else []))"

definition erratic_answer :: "(string \<Rightarrow> dname \<Rightarrow> dname res) \<Rightarrow> erratic \<Rightarrow> bool \<Rightarrow> request \<Rightarrow> reply" where
  "erratic_answer prepend e trunc req =
     (let qn = qname req; m = (new_reply req)\<lparr>m_authoritative := True, m_truncated := trunc\<rparr> in
      if qtype req = RT_A then
        RMsg (foldl (\<lambda>m r. add_answer r m) m
          (replicate (if er_large e then 30 else 1) (from_rdata qn 0 (RD_A [192, 0, 2, 53]))))
      else if qtype req = RT_AAAA then
        RMsg (add_answer (from_rdata qn 0 (RD_AAAA ([0x20, 0x01, 0x0d, 0xb8] @ replicate 11 0 @ [0x53]))) m)
      else if qtype req = RT_AXFR then
        RMulti [foldl (\<lambda>m r. add_answer r m) ((new_reply req)\<lparr>m_authoritative := True\<rparr>) (xfr_records prepend qn (\<not> trunc))]
      else RRcode ServFail)"

definition erratic_serve :: "'s erratic_env \<Rightarrow> erratic \<Rightarrow> 's handler" where
  "erratic_serve env e req nx s =
     (let n = ee_count env s; s1 = ee_set_count env ((n + 1) mod 2 ^ 64) s in
      if every (er_drop e) n then (Replied RDrop, req, s1)
      else (let s2 = (if every (er_delay e) n then ee_sleep env (er_duration e) s1 else s1) in
        (Replied (erratic_answer (ee_prepend env) e (every (er_truncate e) n) req), req, s2)))"

definition erratic_autopath :: "string list" where
  "erratic_autopath = [''a.example.org.'', ''b.example.org.'', []]"

definition erratic_ready :: "'s erratic_env \<Rightarrow> 's \<Rightarrow> bool" where
  "erratic_ready env s \<longleftrightarrow> 3 \<le> ee_count env s \<and> ee_count env s < 5"

definition erratic_amount :: "(string \<Rightarrow> err) \<Rightarrow> string list \<Rightarrow> nat res" where
  "erratic_amount ef a =
     (let q = (\<lambda>v. ef (''illegal amount value given '' @ [CHR 0x22] @ v @ [CHR 0x22])) in
      rbind (case a of v # _ \<Rightarrow> ok_or (q v) (parse_u64 v) | [] \<Rightarrow> Inr 2) (\<lambda>n.
      if n = 0 then Inl (q ''0'') else Inr n))"

definition erratic_line ::
    "(string \<Rightarrow> nat res) \<Rightarrow> (string \<Rightarrow> err) \<Rightarrow> err \<Rightarrow> string \<Rightarrow> string list \<Rightarrow> erratic \<Rightarrow> erratic res" where
  "erratic_line parse_duration ef arg_e v a e =
     (if v = ''drop'' \<or> v = ''truncate'' \<or> v = ''delay'' then
        rbind (erratic_amount ef a) (\<lambda>n.
        rbind (if v = ''drop'' then Inr (e\<lparr>er_drop := n\<rparr>)
               else if v = ''truncate'' then Inr (e\<lparr>er_truncate := n\<rparr>)
               else (case a of
                   _ # d # _ \<Rightarrow> rbind (parse_duration d) (\<lambda>x. Inr (e\<lparr>er_delay := n, er_duration := x\<rparr>))
                 | _ \<Rightarrow> Inr (e\<lparr>er_delay := n\<rparr>))) (\<lambda>e'.
        if length a > 2 \<or> (v \<noteq> ''delay'' \<and> length a > 1) then Inl arg_e else Inr e'))
      else if v = ''large'' then Inr (e\<lparr>er_large := True\<rparr>)
      else Inl (ef (''unknown property '' @ quote v)))"

definition erratic_property :: "(string \<Rightarrow> nat res) \<Rightarrow> erratic \<Rightarrow> 's controller \<Rightarrow> erratic res \<times> 's controller" where
  "erratic_property parse_duration =
     line_property (\<lambda>v. v \<in> {''drop'', ''truncate'', ''delay''}) (erratic_line parse_duration)"

definition erratic_body :: "(string \<Rightarrow> nat res) \<Rightarrow> 's erratic_env \<Rightarrow> 's setup_fn" where
  "erratic_body parse_duration env c =
     (case block_loop (erratic_property parse_duration)
             \<lparr>er_drop = 0, er_truncate = 0, er_delay = 0, er_duration = 100000000, er_large = False\<rparr> c of
        (Inl e, c1) \<Rightarrow> (Inl e, c1)
      | (Inr e, c1) \<Rightarrow> (Inr (), add_plugin (''erratic'', erratic_serve env e) c1))"

definition erratic_setup :: "(string \<Rightarrow> nat res) \<Rightarrow> 's erratic_env \<Rightarrow> 's setup_fn" where
  "erratic_setup parse_duration env = single_setup ''erratic'' (erratic_body parse_duration env)"

section \<open>dns64\<close>

record dns64 =
  d6_zones :: "string list"
  d6_network :: "u8 list"
  d6_prefix_len :: nat
  d6_translate_all :: bool
  d6_allow_ipv4 :: bool

definition dns64_synth :: "dns64 \<Rightarrow> u8 list \<Rightarrow> u8 list" where
  "dns64_synth d v4 =
     (let p = be_word (d6_network d) :: 128 word; v = ucast (be_word v4 :: 32 word) :: 128 word; len = d6_prefix_len d in
      be_octets 16
        (if len = 32 then p OR push_bit 64 v
         else if len = 40 then p OR push_bit 64 (drop_bit 8 v) OR push_bit 48 (v AND 0xff)
         else if len = 48 then p OR push_bit 64 (drop_bit 16 v) OR push_bit 40 (v AND 0xffff)
         else if len = 56 then p OR push_bit 64 (drop_bit 24 v) OR push_bit 32 (v AND 0xffffff)
         else if len = 64 then p OR push_bit 24 v
         else p OR v))"

definition dns64_ttl_cap :: "message \<Rightarrow> u32" where
  "dns64_ttl_cap m =
     (case first (List.map_filter (\<lambda>r. case rr_data r of
                    Some (RD_SOA so) \<Rightarrow> Some (min (rr_ttl r) (soa_minimum so)) | _ \<Rightarrow> None) (m_name_servers m)) of
        Some t \<Rightarrow> t | None \<Rightarrow> - 1)"

definition synth_rr :: "dns64 \<Rightarrow> u32 \<Rightarrow> rr \<Rightarrow> rr option" where
  "synth_rr d cap a =
     (case rr_data a of
        Some (RD_A v4) \<Rightarrow> Some (from_rdata (rr_name a) (min (rr_ttl a) cap) (RD_AAAA (dns64_synth d v4)))
      | Some (RD_CNAME _) \<Rightarrow> Some a
      | _ \<Rightarrow> None)"

definition dns64_translate :: "dns64 \<Rightarrow> message \<Rightarrow> message \<Rightarrow> message" where
  "dns64_translate d m a_resp =
     (let syn = List.map_filter (synth_rr d (dns64_ttl_cap m)) (m_answers a_resp) in
      if syn = [] then m
      else m\<lparr>m_rcode := NoError, m_name_servers := [],
             m_answers := (if d6_translate_all d then filter (\<lambda>r. rr_type r \<noteq> RT_AAAA) (m_answers m) else []) @ syn\<rparr>)"

definition dns64_serve :: "(request \<Rightarrow> dname \<Rightarrow> rtype \<Rightarrow> 's \<Rightarrow> message res \<times> 's) \<Rightarrow> dns64 \<Rightarrow> 's handler" where
  "dns64_serve self_look d req nx s =
     (case req_name req of (name, req1) \<Rightarrow>
        if qtype req1 \<noteq> RT_AAAA \<or> zones_match (d6_zones d) name = None then nx_serve nx req1 s
        else if \<not> d6_allow_ipv4 d \<and> is_v4 (req_ip req1) then nx_serve nx req1 s
        else on_reply (nx_serve nx req1 s) (\<lambda>r req2 s2.
          (case reply_msg r of
             None \<Rightarrow> (Replied r, req2, s2)
           | Some m \<Rightarrow>
               if m_rcode m = NXDomain \<or> (list_ex (\<lambda>a. rr_type a = RT_AAAA) (m_answers m) \<and> \<not> d6_translate_all d)
               then (Replied r, req2, s2)
               else (case self_look req2 (qname req2) RT_A s2 of
                   (Inl _, s3) \<Rightarrow> (Replied r, req2, s3)
                 | (Inr a_resp, s3) \<Rightarrow> (Replied (reply_map_msg (\<lambda>m. dns64_translate d m a_resp) r), req2, s3)))))"

text \<open>\<open>parse_net\<close> is the parser of \<open>Ipv6Net\<close>: the network's octets and the length of the prefix.\<close>

definition dns64_line ::
    "(string \<Rightarrow> (u8 list \<times> nat) res) \<Rightarrow> (string \<Rightarrow> err) \<Rightarrow> err \<Rightarrow> string \<Rightarrow> string list \<Rightarrow> dns64 \<Rightarrow> dns64 res" where
  "dns64_line parse_net ef arg_e v a d =
     (if v = ''prefix'' then
        (if length a \<noteq> 1 then Inl arg_e
         else (case parse_net (hd a) of
             Inl e \<Rightarrow> Inl (ef (''invalid prefix '' @ hd a @ '': '' @ e))
           | Inr (net, len) \<Rightarrow>
               if len \<notin> {32, 40, 48, 56, 64, 96} then Inl (ef ''dns64: prefix length must be one of 32, 40, 48, 56, 64 or 96'')
               else Inr (d\<lparr>d6_network := net, d6_prefix_len := len\<rparr>)))
      else if v = ''translate_all'' then Inr (d\<lparr>d6_translate_all := True\<rparr>)
      else if v = ''allow_ipv4'' then Inr (d\<lparr>d6_allow_ipv4 := True\<rparr>)
      else Inl (ef (''unknown property '' @ quote v)))"

definition dns64_property ::
    "(string \<Rightarrow> (u8 list \<times> nat) res) \<Rightarrow> dns64 \<Rightarrow> 's controller \<Rightarrow> dns64 res \<times> 's controller" where
  "dns64_property parse_net = line_property (\<lambda>v. v = ''prefix'') (dns64_line parse_net)"

definition dns64_body ::
    "(string \<Rightarrow> dname res) \<Rightarrow> 'net ipnet_api \<Rightarrow> (string \<Rightarrow> (u8 list \<times> nat) res)
     \<Rightarrow> (request \<Rightarrow> dname \<Rightarrow> rtype \<Rightarrow> 's \<Rightarrow> message res \<times> 's) \<Rightarrow> 's setup_fn" where
  "dns64_body from_ascii api parse_net self_look c =
     (case ctl_disp remaining_args_until_brace c of (as, c1) \<Rightarrow>
      case controller_origins from_ascii api c1 as of
        Inl e \<Rightarrow> (Inl e, c1)
      | Inr zones \<Rightarrow>
          (case block_loop (dns64_property parse_net)
                  \<lparr>d6_zones = zones, d6_network = [0x00, 0x64, 0xff, 0x9b] @ replicate 12 0, d6_prefix_len = 96,
                   d6_translate_all = False, d6_allow_ipv4 = False\<rparr> c1 of
             (Inl e, c2) \<Rightarrow> (Inl e, c2)
           | (Inr d, c2) \<Rightarrow> (Inr (), add_plugin (''dns64'', dns64_serve self_look d) c2)))"

definition dns64_setup ::
    "(string \<Rightarrow> dname res) \<Rightarrow> 'net ipnet_api \<Rightarrow> (string \<Rightarrow> (u8 list \<times> nat) res)
     \<Rightarrow> (request \<Rightarrow> dname \<Rightarrow> rtype \<Rightarrow> 's \<Rightarrow> message res \<times> 's) \<Rightarrow> 's setup_fn" where
  "dns64_setup from_ascii api parse_net self_look = single_setup ''dns64'' (dns64_body from_ascii api parse_net self_look)"

section \<open>autopath\<close>

datatype ap_source = ApStatic "string list" | ApPlugin string

text \<open>
  The search path of a sibling plugin (\<open>Handler::autopath\<close>, once the wiring has found it), and the
  clock and random id of a new question.
\<close>

record 's autopath_env =
  ae_from_ascii :: "string \<Rightarrow> dname res"
  ae_plugin_path :: "string \<Rightarrow> request \<Rightarrow> 's \<Rightarrow> string list option"
  ae_now :: "'s \<Rightarrow> nat"
  ae_random_id :: "'s \<Rightarrow> u16"

definition search_path :: "'s autopath_env \<Rightarrow> ap_source \<Rightarrow> request \<Rightarrow> 's \<Rightarrow> string list option" where
  "search_path env src req s =
     (case src of ApStatic sp \<Rightarrow> Some sp | ApPlugin n \<Rightarrow> ae_plugin_path env n req s)"

definition search_line :: "string \<Rightarrow> string list option" where
  "search_line line0 =
     (let line = trim line0 in
      case (case strip_prefix line ''search'' of Some r \<Rightarrow> Some r | None \<Rightarrow> strip_prefix line ''domain'') of
        None \<Rightarrow> None
      | Some rest \<Rightarrow>
          if rest \<noteq> [] \<and> is_whitespace (hd rest) then Some (map fqdn (split_whitespace rest)) else None)"

definition search_from_resolv :: "string \<Rightarrow> string list" where
  "search_from_resolv text = foldl (\<lambda>out l. case search_line l of Some ds \<Rightarrow> ds | None \<Rightarrow> out) [] (lines text)"

definition autopath_candidate :: "string \<Rightarrow> string \<Rightarrow> string" where
  "autopath_candidate base d = (if d = [] then base @ ''.'' else join [base] d)"

definition with_cname :: "request \<Rightarrow> dname \<Rightarrow> message \<Rightarrow> message" where
  "with_cname req cname m =
     (let ttl = (case m_answers m of [] \<Rightarrow> 0 | _ \<Rightarrow> Min (rr_ttl ` set (m_answers m)));
          out = (new_reply req)\<lparr>m_authoritative := m_authoritative m, m_recursion_available := m_recursion_available m\<rparr>
      in out\<lparr>m_answers := from_rdata (qname req) ttl (RD_CNAME cname) # m_answers m,
             m_name_servers := m_name_servers m,
             m_additionals := filter (\<lambda>r. rr_type r \<noteq> RT_OPT) (m_additionals m)\<rparr>)"

text \<open>The loop over the search path; \<open>first_reply\<close> is the reply for the name as it was asked.\<close>

fun autopath_loop ::
    "'s autopath_env \<Rightarrow> string \<Rightarrow> string \<Rightarrow> request \<Rightarrow> 's next_plugin \<Rightarrow> reply option \<Rightarrow> string list \<Rightarrow> 's \<Rightarrow> 's served" where
  "autopath_loop env qn base req nx first_reply [] s =
     (case first_reply of
        Some (RMsg m) \<Rightarrow> (Replied (RMsg (m\<lparr>m_id := m_id (rq_msg req)\<rparr>)), req, s)
      | Some r \<Rightarrow> (Replied r, req, s)
      | None \<Rightarrow> nx_serve nx req s)"
| "autopath_loop env qn base req nx first_reply (d # ds) s =
     (let cand = autopath_candidate base d in
      case ae_from_ascii env cand of
        Inl _ \<Rightarrow> autopath_loop env qn base req nx first_reply ds s
      | Inr cname \<Rightarrow>
          (case nx_serve nx (new_with_question (ae_now env s) (ae_random_id env s) req cname (qtype req)) s of
             (Replied r, _, s1) \<Rightarrow>
               (case r of
                  RMsg m \<Rightarrow>
                    if m_rcode m = NoError then
                      (if cand = qn then (Replied (RMsg m), req, s1) else (Replied (RMsg (with_cname req cname m)), req, s1))
                    else autopath_loop env qn base req nx (if first_reply = None \<and> cand = qn then Some r else first_reply) ds s1
                | _ \<Rightarrow> autopath_loop env qn base req nx (if first_reply = None \<and> cand = qn then Some r else first_reply) ds s1)
           | (out, _, s1) \<Rightarrow> (out, req, s1)))"

definition autopath_serve :: "'s autopath_env \<Rightarrow> string list \<Rightarrow> ap_source \<Rightarrow> 's handler" where
  "autopath_serve env zones src req nx s =
     (case req_name req of (qn, req1) \<Rightarrow>
        if zones_match zones qn = None then nx_serve nx req1 s
        else (case search_path env src req1 s of
            None \<Rightarrow> nx_serve nx req1 s
          | Some [] \<Rightarrow> nx_serve nx req1 s
          | Some (d # ds) \<Rightarrow>
              if d = [] \<or> \<not> is_subdomain d qn \<or> qn = d then nx_serve nx req1 s
              else (let base = (case trim_zone qn d of Some b \<Rightarrow> b | None \<Rightarrow> []) in
                if base = [] then nx_serve nx req1 s
                else autopath_loop env qn base req1 nx None (d # ds) s)))"

definition autopath_body ::
    "(string \<Rightarrow> dname res) \<Rightarrow> 'net ipnet_api \<Rightarrow> (string \<Rightarrow> string res) \<Rightarrow> 's autopath_env \<Rightarrow> 's setup_fn" where
  "autopath_body from_ascii api rd env c =
     (case ctl_disp remaining_args c of (as, c1) \<Rightarrow>
        if as = [] then (Inl (ctl_arg_err c1), c1)
        else (case controller_origins from_ascii api c1 (butlast as) of
            Inl e \<Rightarrow> (Inl e, c1)
          | Inr zones \<Rightarrow>
              (case (case strip_prefix (last as) ''@'' of
                 Some p \<Rightarrow> if p = ''kubernetes'' \<or> p = ''erratic'' then Inr (ApPlugin p)
                           else Inl (ctl_errf c1 (''unknown plugin for autopath: @'' @ p))
               | None \<Rightarrow>
                   (let path = path_join (sc_root (ct_config c1)) (last as) in
                    case rd path of
                      Inl e \<Rightarrow> Inl (ctl_errf c1 (''reading '' @ path @ '': '' @ e))
                    | Inr t \<Rightarrow> Inr (ApStatic (search_from_resolv t @ [[]])))) of
                 Inl e \<Rightarrow> (Inl e, c1)
               | Inr src \<Rightarrow> (Inr (), add_plugin (''autopath'', autopath_serve env zones src) c1))))"

definition autopath_setup ::
    "(string \<Rightarrow> dname res) \<Rightarrow> 'net ipnet_api \<Rightarrow> (string \<Rightarrow> string res) \<Rightarrow> 's autopath_env \<Rightarrow> 's setup_fn" where
  "autopath_setup from_ascii api rd env = single_setup ''autopath'' (autopath_body from_ascii api rd env)"

section \<open>loop\<close>

text \<open>The probe names with the number of their arrivals, and whether the check is off.\<close>

record loop_state =
  lp_probes :: "(string \<times> u32) list"
  lp_off :: bool

definition loop_new :: "string list \<Rightarrow> string \<Rightarrow> loop_state" where
  "loop_new labels zone =
     \<lparr>lp_probes = map (\<lambda>i. (join [labels ! (2 * i), labels ! (2 * i + 1)] zone, 0)) [0..<3], lp_off = False\<rparr>"

fun count_probe :: "string \<Rightarrow> (string \<times> u32) list \<Rightarrow> bool \<times> (string \<times> u32) list" where
  "count_probe n [] = (False, [])"
| "count_probe n ((q, seen) # ps) =
     (if q = n then (seen + 1 > 2, (q, seen + 1) # ps)
      else (case count_probe n ps of (b, ps') \<Rightarrow> (b, (q, seen) # ps')))"

definition looped :: "string \<Rightarrow> loop_state \<Rightarrow> bool \<times> loop_state" where
  "looped n st = (case count_probe n (lp_probes st) of (b, ps) \<Rightarrow> (b, st\<lparr>lp_probes := ps\<rparr>))"

text \<open>\<open>std::process::exit(1)\<close> is the outcome \<open>Panicked\<close> with a text of its own: nothing runs after it.\<close>

definition loop_serve :: "('s \<Rightarrow> loop_state) \<Rightarrow> (loop_state \<Rightarrow> 's \<Rightarrow> 's) \<Rightarrow> 's handler" where
  "loop_serve get put req nx s =
     (if lp_off (get s) then nx_serve nx req s
      else if qtype req = RT_HINFO then
        (case req_name req of (name, req1) \<Rightarrow>
           (case looped name (get s) of (b, st) \<Rightarrow>
              if b then (Panicked ''exit(1)'', req1, put st s) else nx_serve nx req1 (put st s)))
      else nx_serve nx req s)"

definition loop_addr :: "'s server_config \<Rightarrow> string" where
  "loop_addr cfg =
     (let h0 = (case sc_listen_hosts cfg of h # _ \<Rightarrow> h | [] \<Rightarrow> ''127.0.0.1'');
          host = (if h0 = ''0.0.0.0'' \<or> h0 = ''::'' then ''127.0.0.1'' else h0) in
      if CHR '':'' \<in> set host then ''['' @ host @ '']:'' @ show_nat (sc_port cfg) else host @ '':'' @ show_nat (sc_port cfg))"

text \<open>
  The environment: where the probes are kept, the random labels drawn, a probe sent (\<open>None\<close> when it
  cannot be encoded, else whether an answer came in time), the sleep, and the spawning of a task.
\<close>

record 's loop_env =
  lo_get :: "'s \<Rightarrow> loop_state"
  lo_put :: "loop_state \<Rightarrow> 's \<Rightarrow> 's"
  lo_labels :: "string list"
  lo_send :: "string \<Rightarrow> string \<Rightarrow> 's \<Rightarrow> bool option \<times> 's"
  lo_sleep :: "nat \<Rightarrow> 's \<Rightarrow> 's"
  lo_spawn :: "('s \<Rightarrow> 's) \<Rightarrow> 's hook"

fun probe_loop :: "'s loop_env \<Rightarrow> string \<Rightarrow> string list \<Rightarrow> 's \<Rightarrow> 's" where
  "probe_loop env addr [] s = s"
| "probe_loop env addr (q # qs) s =
     (case lo_send env addr q s of
        (Some False, s1) \<Rightarrow> probe_loop env addr qs (lo_sleep env SECOND s1)
      | (_, s1) \<Rightarrow> s1)"

definition loop_task :: "'s loop_env \<Rightarrow> string \<Rightarrow> 's \<Rightarrow> 's" where
  "loop_task env addr s =
     (let s1 = probe_loop env addr (map fst (lp_probes (lo_get env s))) (lo_sleep env SECOND s);
          s2 = lo_sleep env (30 * SECOND) s1
      in lo_put env ((lo_get env s2)\<lparr>lp_off := True\<rparr>) s2)"

definition loop_args :: "'s setup_fn" where
  "loop_args c =
     (case ctl_disp next_arg c of (True, c1) \<Rightarrow> (Inl (ctl_arg_err c1), c1) | (False, c1) \<Rightarrow> (Inr (), c1))"

text \<open>The probes are made when the block is set up; here they enter the state when the server starts.\<close>

definition loop_setup :: "'s loop_env \<Rightarrow> 's setup_fn" where
  "loop_setup env c =
     (case single_setup ''loop'' loop_args c of
        (Inl e, c1) \<Rightarrow> (Inl e, c1)
      | (Inr _, c1) \<Rightarrow>
          (let addr = loop_addr (ct_config c1) in
           (Inr (), on_startup (\<lambda>s. lo_spawn env (loop_task env addr) (lo_put env (loop_new (lo_labels env) (sc_zone (ct_config c1))) s))
                      (add_plugin (''loop'', loop_serve (lo_get env) (lo_put env)) c1))))"

section \<open>The handlers and the setups keep their contracts\<close>

interpretation setup_local: setup_function setup_local
  unfolding setup_local_def by (rule single_setup_function [OF no_args_body_appends])

lemma m_id_local_in_zone [simp]: "m_id (local_in_zone qt l qn z m) = m_id m"
  by (simp add: local_in_zone_def local_apex_def local_nxdomain_def Let_def message_defs)

lemma m_id_add [simp]: "m_id (add_answer r m) = m_id m" "m_id (add_name_server r m) = m_id m"
  by (simp_all add: message_defs)

lemma local_keeps_id:
  assumes "keeps_id (nx_serve nx)"
  shows "keeps_id (\<lambda>req s. local_serve req nx s)"
proof -
  have named: "keeps_id (\<lambda>req s. nx_serve nx (snd (req_name req)) s)" by (rule keeps_id_same [OF assms]) simp
  show ?thesis
    using named
    by (simp add: keeps_id_def local_serve_def case_prod_beta Let_def split: option.splits)
qed

interpretation local_handler: id_keeping_handler local_serve
  by unfold_locales (rule local_keeps_id)

lemma m_id_lb_balance: "m_id (fst (lb_balance rng pol qn m s)) = m_id m"
  by (simp add: lb_balance_def case_prod_beta)

lemma loadbalance_keeps_id:
  assumes "keeps_id (nx_serve nx)"
  shows "keeps_id (\<lambda>req s. loadbalance_serve rng pol req nx s)"
proof -
  have named: "keeps_id (\<lambda>req s. nx_serve nx (snd (req_name req)) s)" by (rule keeps_id_same [OF assms]) simp
  show ?thesis
    using named m_id_lb_balance [of rng pol]
    by (auto simp: keeps_id_def loadbalance_serve_def on_reply_def case_prod_beta split: outcome.splits reply.splits)
qed

interpretation loadbalance_handler: id_keeping_handler "loadbalance_serve rng pol"
  by unfold_locales (rule loadbalance_keeps_id)

lemma erratic_keeps_id: "keeps_id (\<lambda>req s. erratic_serve env e req nx s)"
  unfolding keeps_id_def erratic_serve_def erratic_answer_def Let_def fold_add_answer by (auto simp: message_defs)

interpretation erratic_handler: id_keeping_handler "erratic_serve env e"
  by unfold_locales (rule erratic_keeps_id)

lemma m_id_dns64_translate [simp]: "m_id (dns64_translate d m a) = m_id m"
  by (simp add: dns64_translate_def Let_def)

lemma dns64_keeps_id:
  assumes "keeps_id (nx_serve nx)"
  shows "keeps_id (\<lambda>req s. dns64_serve look d req nx s)"
proof -
  have named: "keeps_id (\<lambda>req s. nx_serve nx (snd (req_name req)) s)" by (rule keeps_id_same [OF assms]) simp
  show ?thesis
    using named
    by (auto simp: keeps_id_def dns64_serve_def on_reply_def case_prod_beta split: outcome.splits option.splits sum.splits)
qed

interpretation dns64_handler: id_keeping_handler "dns64_serve look d"
  by unfold_locales (rule dns64_keeps_id)

text \<open>\<open>autopath\<close> does not keep the contract of a handler: the reply to a candidate that is the name as it was asked is
  passed on with the id of the question the plugin made up; the server puts the id of the query back after
  the plugins in front of it have seen the reply.\<close>

lemma autopath_fresh_id:
  assumes "ae_from_ascii env (autopath_candidate base d) = Inr cname" "autopath_candidate base d = qn"
    and "nx_serve nx (new_with_question (ae_now env s) (ae_random_id env s) req cname (qtype req)) s = (Replied (RMsg m), req2, s')"
    and "m_rcode m = NoError" "keeps_id (nx_serve nx)"
  shows "autopath_loop env qn base req nx fr (d # ds) s = (Replied (RMsg m), req, s') \<and> m_id m = ae_random_id env s"
proof -
  have "m_id (rq_msg (new_with_question now rid r n t)) = rid" for now rid r n t
    by (simp add: new_with_question_def request_new_def Let_def message_defs split: option.splits)
  then show ?thesis using assms keeps_idD(2) [OF assms(5,3), of m] by simp
qed

lemma loop_keeps_id:
  assumes "keeps_id (nx_serve nx)"
  shows "keeps_id (\<lambda>req s. loop_serve get put req nx s)"
proof -
  have "m_id (rq_msg (fst (snd (nx_serve nx (snd (req_name req)) s)))) = m_id (rq_msg req) \<and>
      (\<forall>m. fst (nx_serve nx (snd (req_name req)) s) = Replied (RMsg m) \<longrightarrow> m_id m = m_id (rq_msg req))" for req s
    using assms by (simp add: keeps_id_def)
  with assms show ?thesis by (auto simp: keeps_id_def loop_serve_def case_prod_beta)
qed

interpretation loop_handler: id_keeping_handler "loop_serve get put"
  by unfold_locales (rule loop_keeps_id)

interpretation lb_block: block_property "lb_property parse_duration"
  unfolding lb_property_def by (rule line_property_block) (simp add: lb_line_def is_ok_def)

interpretation erratic_block: block_property "erratic_property parse_duration"
  unfolding erratic_property_def by (rule line_property_block) (simp add: erratic_line_def is_ok_def)

interpretation dns64_block: block_property "dns64_property parse_net"
  unfolding dns64_property_def by (rule line_property_block) (simp add: dns64_line_def is_ok_def)

lemma lb_weighted_appends:
  assumes "lb_weighted env f c = (r, c')"
  shows "appends_plugins c c'"
proof -
  let ?pf = "lb_property (le_parse_duration env)"
  obtain r1 c1 where b: "block_loop ?pf (30 * SECOND) c = (r1, c1)" by (cases "block_loop ?pf (30 * SECOND) c")
  have "appends_plugins c c1" using lb_block.loop_frame [OF b] by (rule appends_refl)
  with assms b show ?thesis
    by (auto simp: lb_weighted_def Let_def split: prod.splits sum.splits if_splits intro: appends_steps)
qed

lemma lb_body_appends:
  assumes "lb_body env c = (r, c')"
  shows "appends_plugins c c'"
proof -
  obtain as c1 where a: "ctl_disp remaining_args_until_brace c = (as, c1)"
    by (cases "ctl_disp remaining_args_until_brace c")
  have c1: "appends_plugins c c1" using a by (rule appends_disp)
  show ?thesis
  proof (cases "\<exists>f. lb_weighted env f c1 = (r, c')")
    case True
    then show ?thesis using c1 lb_weighted_appends appends_trans by blast
  next
    case False
    with assms a c1 show ?thesis
      by (auto simp: lb_body_def split: prod.splits list.splits if_splits intro: appends_steps)
  qed
qed

interpretation loadbalance_setup: setup_function "loadbalance_setup env"
  unfolding loadbalance_setup_def by (rule single_setup_function [OF lb_body_appends])

lemma erratic_body_appends:
  assumes "erratic_body parse_duration env c = (r, c')"
  shows "appends_plugins c c'"
proof -
  let ?e = "\<lparr>er_drop = 0, er_truncate = 0, er_delay = 0, er_duration = 100000000, er_large = False\<rparr>"
  obtain r1 c1 where b: "block_loop (erratic_property parse_duration) ?e c = (r1, c1)"
    by (cases "block_loop (erratic_property parse_duration) ?e c")
  have "appends_plugins c c1" using erratic_block.loop_frame [OF b] by (rule appends_refl)
  with assms b show ?thesis by (auto simp: erratic_body_def split: sum.splits intro: appends_steps)
qed

interpretation erratic_setup: setup_function "erratic_setup parse_duration env"
  unfolding erratic_setup_def by (rule single_setup_function [OF erratic_body_appends])

lemma dns64_body_appends:
  assumes "dns64_body from_ascii api parse_net look c = (r, c')"
  shows "appends_plugins c c'"
proof -
  obtain as c1 where a: "ctl_disp remaining_args_until_brace c = (as, c1)"
    by (cases "ctl_disp remaining_args_until_brace c")
  have c1: "appends_plugins c c1" using a by (rule appends_disp)
  have b: "appends_plugins c c2" if "block_loop (dns64_property parse_net) d c1 = (r2, c2)" for d r2 c2
    using c1 appends_refl dns64_block.loop_frame [OF that] by (blast intro: appends_trans)
  show ?thesis
    using assms a c1 by (auto simp: dns64_body_def split: prod.splits sum.splits intro: appends_steps dest!: b)
qed

interpretation dns64_setup: setup_function "dns64_setup from_ascii api parse_net look"
  unfolding dns64_setup_def by (rule single_setup_function [OF dns64_body_appends])

lemma autopath_body_appends:
  assumes "autopath_body from_ascii api rd env c = (r, c')"
  shows "appends_plugins c c'"
proof -
  obtain as c1 where a: "ctl_disp remaining_args c = (as, c1)" by (cases "ctl_disp remaining_args c")
  have "appends_plugins c c1" using a by (rule appends_disp)
  with assms a show ?thesis
    by (auto simp: autopath_body_def Let_def split: if_splits sum.splits intro: appends_steps)
qed

interpretation autopath_setup: setup_function "autopath_setup from_ascii api rd env"
  unfolding autopath_setup_def by (rule single_setup_function [OF autopath_body_appends])

lemma loop_args_appends: "loop_args c = (r, c') \<Longrightarrow> appends_plugins c c'"
  by (auto simp: loop_args_def split: prod.splits bool.splits intro: appends_disp)

interpretation loop_setup: setup_function "loop_setup env"
proof (rule setup_functionI)
  fix c r c'
  assume run: "loop_setup env c = (r, c')"
  obtain r1 c1 where b: "single_setup ''loop'' loop_args c = (r1, c1)" by (cases "single_setup ''loop'' loop_args c")
  have "appends_plugins c c1" using single_setup_appends [OF _ b] loop_args_appends by blast
  with run b show "appends_plugins c c'" by (auto simp: loop_setup_def Let_def split: sum.splits intro: appends_steps)
qed

section \<open>Lemmas\<close>

subsection \<open>Balancing\<close>

lemma position_where_Some: "position_where p xs = Some i \<Longrightarrow> i < length xs \<and> p (xs ! i)"
  by (induction xs arbitrary: i) (auto split: if_splits)

lemma mset_swap_first: "pos < length xs \<Longrightarrow> mset (swap_first pos xs) = mset xs"
  unfolding swap_first_def by (rule mset_swap) auto

lemma mset_filter_split: "mset (filter p xs) + mset (filter (\<lambda>x. \<not> p x) xs) = mset xs"
  by simp

lemma shuffle_section_shape:
  assumes law: "\<And>xs s. mset (fst (lb_shuffle rng xs s)) = mset xs"
    and run: "shuffle_section rng records f s = (out, s')"
  obtains addr mx where "out = filter (\<lambda>r. rr_type r = RT_CNAME) records @ addr @ mx
      @ filter (\<lambda>r. rr_type r \<noteq> RT_CNAME \<and> \<not> is_addr r \<and> rr_type r \<noteq> RT_MX) records"
    "mset addr = mset (filter is_addr records)" "mset mx = mset (filter (\<lambda>r. rr_type r = RT_MX) records)"
proof -
  obtain addr1 s1 where a: "lb_shuffle rng (filter is_addr records) s = (addr1, s1)"
    by (cases "lb_shuffle rng (filter is_addr records) s")
  obtain mx1 s2 where m: "lb_shuffle rng (filter (\<lambda>r. rr_type r = RT_MX) records) s1 = (mx1, s2)"
    by (cases "lb_shuffle rng (filter (\<lambda>r. rr_type r = RT_MX) records) s1")
  have ms: "mset addr1 = mset (filter is_addr records)" "mset mx1 = mset (filter (\<lambda>r. rr_type r = RT_MX) records)"
    using law [of "filter is_addr records" s] law [of "filter (\<lambda>r. rr_type r = RT_MX) records" s1] a m by auto
  show thesis
    using run a m ms
    by (auto simp: shuffle_section_def Let_def mset_swap_first split: option.splits
        dest!: position_where_Some intro!: that)
qed

lemma shuffle_section_mset:
  assumes "\<And>xs s. mset (fst (lb_shuffle rng xs s)) = mset xs"
    and "shuffle_section rng records f s = (out, s')"
  shows "mset out = mset records"
proof (rule shuffle_section_shape [OF assms])
  fix addr mx
  assume o: "out = filter (\<lambda>r. rr_type r = RT_CNAME) records @ addr @ mx
      @ filter (\<lambda>r. rr_type r \<noteq> RT_CNAME \<and> \<not> is_addr r \<and> rr_type r \<noteq> RT_MX) records"
    and ms: "mset addr = mset (filter is_addr records)" "mset mx = mset (filter (\<lambda>r. rr_type r = RT_MX) records)"
  have "mset (filter (\<lambda>r. rr_type r = RT_CNAME) records) + (mset (filter is_addr records)
      + (mset (filter (\<lambda>r. rr_type r = RT_MX) records)
      + mset (filter (\<lambda>r. rr_type r \<noteq> RT_CNAME \<and> \<not> is_addr r \<and> rr_type r \<noteq> RT_MX) records))) = mset records"
    by (induction records) (auto simp: is_addr_def)
  with o ms show ?thesis by simp
qed

lemma shuffle_section_cnames:
  assumes "\<And>xs s. mset (fst (lb_shuffle rng xs s)) = mset xs"
    and "shuffle_section rng records f s = (out, s')"
  shows "takeWhile (\<lambda>r. rr_type r = RT_CNAME) out = filter (\<lambda>r. rr_type r = RT_CNAME) records"
proof (rule shuffle_section_shape [OF assms])
  fix addr mx
  let ?rest = "filter (\<lambda>r. rr_type r \<noteq> RT_CNAME \<and> \<not> is_addr r \<and> rr_type r \<noteq> RT_MX) records"
  assume o: "out = filter (\<lambda>r. rr_type r = RT_CNAME) records @ addr @ mx @ ?rest"
    and ms: "mset addr = mset (filter is_addr records)" "mset mx = mset (filter (\<lambda>r. rr_type r = RT_MX) records)"
  have "rr_type r \<noteq> RT_CNAME" if "r \<in> set (addr @ mx @ ?rest)" for r
    using that mset_eq_setD [OF ms(1)] mset_eq_setD [OF ms(2)] by (auto simp: is_addr_def)
  then have "takeWhile (\<lambda>r. rr_type r = RT_CNAME) (addr @ mx @ ?rest) = []"
    by (cases "addr @ mx @ ?rest") auto
  moreover have "takeWhile (\<lambda>r. rr_type r = RT_CNAME) (filter (\<lambda>r. rr_type r = RT_CNAME) records @ ys) =
      filter (\<lambda>r. rr_type r = RT_CNAME) records @ takeWhile (\<lambda>r. rr_type r = RT_CNAME) ys" for ys
    by (rule takeWhile_append2) simp
  ultimately show ?thesis by (simp only: o append_Nil2)
qed

lemma picks_shift:
  "{p. p < w + t \<and> (if p < w then x = r else q (p - w))} =
     (if x = r then {p. p < w} else {}) \<union> (\<lambda>p. p + w) ` {p. p < (t :: nat) \<and> q p}"
proof -
  have "p \<in> (\<lambda>p. p + w) ` {p. p < t \<and> q p}" if "p < w + t" "\<not> p < w" "q (p - w)" for p
    using that by (intro image_eqI [of _ _ "p - w"]) auto
  then show ?thesis by (auto split: if_splits)
qed

lemma card_picks:
  "card {p. p < sum_list (map (\<lambda>c. unat (snd c)) cs) \<and> pick_weighted p cs = Some r} =
     sum_list (map (\<lambda>c. if fst c = r then unat (snd c) else 0) cs)"
proof (induction cs)
  case (Cons c cs)
  obtain x w where c: "c = (x, w)" by (cases c)
  let ?t = "sum_list (map (\<lambda>c. unat (snd c)) cs)"
  let ?rest = "(\<lambda>p. p + unat w) ` {p. p < ?t \<and> pick_weighted p cs = Some r}"
  have "{p. p < unat w + ?t \<and> pick_weighted p (c # cs) = Some r} =
      {p. p < unat w + ?t \<and> (if p < unat w then x = r else pick_weighted (p - unat w) cs = Some r)}"
    by (auto simp: c split: if_splits)
  also have "\<dots> = (if x = r then {p. p < unat w} else {}) \<union> ?rest" by (rule picks_shift)
  finally have s: "{p. p < sum_list (map (\<lambda>c. unat (snd c)) (c # cs)) \<and> pick_weighted p (c # cs) = Some r} =
      (if x = r then {p. p < unat w} else {}) \<union> ?rest" by (simp add: c)
  have "card ?rest = card {p. p < ?t \<and> pick_weighted p cs = Some r}"
    by (rule card_image) (simp add: inj_on_def)
  moreover have "card ((if x = r then {p. p < unat w} else {}) \<union> ?rest) =
      card (if x = r then {p. p < unat w} else {}) + card ?rest"
    by (rule card_Un_disjoint) auto
  ultimately show ?case unfolding s using Cons.IH by (simp add: c)
qed simp

subsection \<open>Addresses in words\<close>

lemma bit_be_word:
  "bit (be_word os :: 'a::len word) n \<longleftrightarrow>
     n < LENGTH('a) \<and> n < 8 * length os \<and> bit (os ! (length os - 1 - n div 8)) (n mod 8)"
proof (induction os arbitrary: n rule: rev_induct)
  case Nil
  show ?case by (simp add: be_word_def)
next
  case (snoc o8 os)
  have step: "be_word (os @ [o8]) = (push_bit 8 (be_word os) OR ucast o8 :: 'a word)" by (simp add: be_word_def)
  have high: "bit o8 n \<Longrightarrow> n < 8" using bit_imp_le_length [of o8 n] by simp
  show ?case
  proof (cases "n < 8")
    case True
    then show ?thesis by (auto simp: step bit_simps nth_append)
  next
    case False
    then have "(n - 8) mod 8 = n mod 8" "(n - 8) div 8 = n div 8 - 1" "n div 8 \<ge> 1"
      by (auto simp: le_mod_geq le_div_geq)
    moreover have "length os - Suc (n div 8 - 1) = length os - n div 8" using False by (simp add: le_div_geq)
    moreover have "n - 8 < 8 * length os \<longleftrightarrow> n < 8 + 8 * length os" "n < LENGTH('a) \<Longrightarrow> n - 8 < LENGTH('a)"
      using False by linarith+
    ultimately show ?thesis
      using False high by (auto simp: step bit_simps snoc.IH nth_append)
  qed
qed

text \<open>What the words of octets have in common with the lists: concatenation, ends and zeros.\<close>

lemma be_word_append: "be_word (xs @ ys) = (push_bit (8 * length ys) (be_word xs) OR be_word ys :: 'a::len word)"
proof (induction ys rule: rev_induct)
  case (snoc y ys)
  have "be_word (xs @ ys @ [y]) = (push_bit 8 (be_word (xs @ ys)) OR ucast y :: 'a word)" by (simp add: be_word_def)
  also have "\<dots> = push_bit 8 (push_bit (8 * length ys) (be_word xs)) OR (push_bit 8 (be_word ys) OR ucast y)"
    by (simp only: snoc.IH push_bit_or or.assoc)
  also have "push_bit 8 (be_word ys) OR ucast y = (be_word (ys @ [y]) :: 'a word)" by (simp add: be_word_def)
  finally show ?case by (simp add: add.commute)
qed (simp add: be_word_def)

lemma be_word_zeros [simp]: "be_word (replicate n 0) = 0"
  by (induction n) (simp_all add: be_word_def)

lemma be_word_drop:
  "8 * (length xs + length ys) \<le> LENGTH('a) \<Longrightarrow> drop_bit (8 * length ys) (be_word (xs @ ys)) = (be_word xs :: 'a::len word)"
  by (rule bit_eqI) (auto simp: bit_simps bit_be_word nth_append div_add1_eq)

lemma be_word_take: "take_bit (8 * length ys) (be_word (xs @ ys)) = (be_word ys :: 'a::len word)"
  by (rule bit_eqI) (auto simp: bit_simps bit_be_word nth_append)

lemma be_word_ucast:
  "8 * length os \<le> LENGTH('b) \<Longrightarrow> ucast (be_word os :: 'b::len word) = (be_word os :: 'a::len word)"
  by (rule bit_eqI) (auto simp: bit_simps bit_be_word)

lemma be_octets_be_word:
  assumes "8 * length os \<le> LENGTH('a)"
  shows "be_octets (length os) (be_word os :: 'a::len word) = os"
proof (rule nth_equalityI)
  fix i
  assume "i < length (be_octets (length os) (be_word os :: 'a word))"
  then have i: "i < length os" by (simp add: be_octets_def)
  show "be_octets (length os) (be_word os :: 'a word) ! i = os ! i"
  proof (rule bit_eqI)
    fix n
    assume "possible_bit TYPE(8 word) n"
    then have n: "n < 8" by (simp add: possible_bit_word)
    have "(8 * (length os - Suc i) + n) div 8 = length os - Suc i" "(8 * (length os - Suc i) + n) mod 8 = n" using n by auto
    moreover have "8 * (length os - Suc i) + n < 8 * length os" using n i by linarith
    ultimately show "bit (be_octets (length os) (be_word os :: 'a word) ! i) n = bit (os ! i) n"
      using i n assms by (simp add: be_octets_def rev_nth bit_simps bit_be_word)
  qed
qed (simp add: be_octets_def)

subsection \<open>The layout of RFC 6052\<close>

text \<open>
  Section 2.2 of the RFC: the octets of the address follow the prefix, octet 8 is zero and skipped
  when the prefix leaves room for it, and zeros fill the rest.
\<close>

definition rfc6052 :: "nat \<Rightarrow> u8 list \<Rightarrow> u8 list \<Rightarrow> u8 list" where
  "rfc6052 len net v4 =
     (let os = take (len div 8) net @ v4 in
      if len \<le> 64 then take 8 os @ [0] @ drop 8 os @ replicate (11 - len div 8) 0 else os)"

lemma and_low_octets:
  "(w :: 128 word) AND 0xff = take_bit 8 w" "w AND 0xffff = take_bit 16 w" "w AND 0xffffff = take_bit 24 w"
  by (simp_all add: take_bit_eq_mask mask_eq_exp_minus_1)

lemma v4_word: "length v4 = 4 \<Longrightarrow> ucast (be_word v4 :: 32 word) = (be_word v4 :: 128 word)"
  by (rule be_word_ucast) simp

lemma v4_parts:
  fixes a b c e :: u8
  shows "drop_bit 8 (be_word [a, b, c, e]) = (be_word [a, b, c] :: 128 word)" "take_bit 8 (be_word [a, b, c, e]) = (be_word [e] :: 128 word)"
    "drop_bit 16 (be_word [a, b, c, e]) = (be_word [a, b] :: 128 word)" "take_bit 16 (be_word [a, b, c, e]) = (be_word [c, e] :: 128 word)"
    "drop_bit 24 (be_word [a, b, c, e]) = (be_word [a] :: 128 word)" "take_bit 24 (be_word [a, b, c, e]) = (be_word [b, c, e] :: 128 word)"
  using be_word_drop [where 'a = 128, of "[a, b, c]" "[e]"] be_word_take [where 'a = 128, of "[e]" "[a, b, c]"]
    be_word_drop [where 'a = 128, of "[a, b]" "[c, e]"] be_word_take [where 'a = 128, of "[c, e]" "[a, b]"]
    be_word_drop [where 'a = 128, of "[a]" "[b, c, e]"] be_word_take [where 'a = 128, of "[b, c, e]" "[a]"]
  by simp_all

lemma length_4_cases: "length xs = 4 \<Longrightarrow> \<exists>a b c d. xs = [a, b, c, d]"
  by (auto simp: numeral_eq_Suc length_Suc_conv)

lemma be_word_zero_octet [simp]: "be_word [0] = 0"
  by (simp add: be_word_def)

lemma be_word_around_zero:
  "be_word (xs @ 0 # ys @ replicate n 0) =
     (push_bit (8 * (1 + length ys + n)) (be_word xs) OR push_bit (8 * n) (be_word ys) :: 'a::len word)"
proof -
  have "be_word (0 # ys @ replicate n 0) = (push_bit (8 * n) (be_word ys) :: 'a word)"
    using be_word_append [of "[0]" "ys @ replicate n 0", where 'a = 'a] by (simp add: be_word_append)
  then show ?thesis by (simp add: be_word_append)
qed

lemmas be_word_layouts =
  be_word_around_zero [of "[a, b, c, e]" "[]"] be_word_around_zero [of "[a, b, c]" "[e]"]
  be_word_around_zero [of "[a, b]" "[c, e]"] be_word_around_zero [of "[a]" "[b, c, e]"]
  be_word_around_zero [of "[]" "[a, b, c, e]"] for a b c e

lemma be_word_Nil [simp]: "be_word [] = 0"
  by (simp add: be_word_def)

lemma prefix_word:
  assumes "length net = 16" "drop k net = replicate (16 - k) 0" "k \<le> 16"
  shows "be_word net = push_bit (8 * (16 - k)) (be_word (take k net) :: 128 word)"
proof -
  have "be_word net = (be_word (take k net @ drop k net) :: 128 word)" by simp
  also have "\<dots> = push_bit (8 * (16 - k)) (be_word (take k net))" by (simp only: be_word_append assms(2)) simp
  finally show ?thesis .
qed

lemma dns64_synth_layout:
  assumes net: "length (d6_network d) = 16" "drop k (d6_network d) = replicate (16 - k) 0"
    and len: "d6_prefix_len d = 8 * k" "k \<in> {4, 5, 6, 7, 8, 12}" and v4: "length v4 = 4"
  shows "dns64_synth d v4 = rfc6052 (d6_prefix_len d) (d6_network d) v4"
proof -
  obtain a b c e where v: "v4 = [a, b, c, e]" using length_4_cases [OF v4] by blast
  let ?p = "take k (d6_network d)" and ?os = "rfc6052 (8 * k) (d6_network d) v4"
  have p: "length ?p = k" using net(1) len(2) by auto
  have w: "be_word (d6_network d) = push_bit (8 * (16 - k)) (be_word ?p :: 128 word)"
    using net len(2) by (intro prefix_word) auto
  have L: "length ?os = 16" using p len(2) by (auto simp: rfc6052_def v)
  have "dns64_synth d v4 = be_octets 16 (be_word ?os :: 128 word)"
    using len(2) p
    by (auto simp: dns64_synth_def rfc6052_def len(1) v w Let_def v4_word and_low_octets v4_parts be_word_append be_word_layouts [simplified] or.assoc)
  also have "\<dots> = ?os" using be_octets_be_word [where 'a = 128, of ?os] L by simp
  finally show ?thesis by (simp add: len(1))
qed

subsection \<open>Probes\<close>

lemma count_probe_lookup:
  "count_probe n ps = (b, ps') \<Longrightarrow>
     map_of ps' m = (if m = n then map_option (\<lambda>k. k + 1) (map_of ps n) else map_of ps m) \<and>
     b = (case map_of ps n of None \<Rightarrow> False | Some k \<Rightarrow> k + 1 > 2)"
  by (induction n ps arbitrary: b ps' rule: count_probe.induct) (auto split: if_splits prod.splits)

lemma looped_lookup:
  "map_of (lp_probes (snd (looped n st))) m =
     (if m = n then map_option (\<lambda>k. k + 1) (map_of (lp_probes st) n) else map_of (lp_probes st) m)"
  "fst (looped n st) = (case map_of (lp_probes st) n of None \<Rightarrow> False | Some k \<Rightarrow> k + 1 > 2)"
  using count_probe_lookup [of n "lp_probes st" _ _ m]
  by (auto simp: looped_def split: prod.splits)

text \<open>The state after the probes have seen the HINFO queries for the names of a list, in this order.\<close>

definition loop_arrivals :: "loop_state \<Rightarrow> string list \<Rightarrow> loop_state" where
  "loop_arrivals st ns = foldl (\<lambda>st n. snd (looped n st)) st ns"

lemma loop_arrivals_lookup:
  "map_of (lp_probes (loop_arrivals st ns)) n =
     map_option (\<lambda>k. k + of_nat (count_list ns n)) (map_of (lp_probes st) n)"
proof (induction ns rule: rev_induct)
  case (snoc m ns)
  have "loop_arrivals st (ns @ [m]) = snd (looped m (loop_arrivals st ns))" by (simp add: loop_arrivals_def)
  then have "map_of (lp_probes (loop_arrivals st (ns @ [m]))) n = (if n = m
      then map_option (\<lambda>k. k + 1) (map_of (lp_probes (loop_arrivals st ns)) n) else map_of (lp_probes (loop_arrivals st ns)) n)"
    by (simp add: looped_lookup(1))
  then show ?case unfolding snoc.IH by (cases "map_of (lp_probes st) n") (auto simp: add.assoc)
qed (simp add: loop_arrivals_def option.map_ident)

lemma map_of_map_const: "map_of (map (\<lambda>i. (f i, z)) xs) n = (if n \<in> f ` set xs then Some z else None)"
  by (induction xs) auto

lemma loop_new_lookup:
  "map_of (lp_probes (loop_new labels zone)) n = (if n \<in> fst ` set (lp_probes (loop_new labels zone)) then Some 0 else None)"
  by (simp add: loop_new_def map_of_map_const image_image)

lemma of_nat_past_two: "c < 2 ^ 32 - 1 \<Longrightarrow> (of_nat c + 1 :: u32) > 2 \<longleftrightarrow> 2 \<le> c"
  by (auto simp: word_less_nat_alt unat_word_ariths unat_of_nat)

section \<open>Properties\<close>

text \<open>Load balancing loses no record and invents none: with any generator that shuffles, the answer and the
  additional section are permuted, CNAME records stay in front in their order, and nothing else of the
  message changes.\<close>

lemma balance_permutes:
  assumes "\<And>xs s. mset (fst (lb_shuffle rng xs s)) = mset xs" and "lb_balance rng pol qn m s = (m', s')"
  shows "mset (m_answers m') = mset (m_answers m) \<and> mset (m_additionals m') = mset (m_additionals m) \<and>
    takeWhile (\<lambda>r. rr_type r = RT_CNAME) (m_answers m') = filter (\<lambda>r. rr_type r = RT_CNAME) (m_answers m) \<and>
    m'\<lparr>m_answers := m_answers m, m_additionals := m_additionals m\<rparr> = m"
  using assms(2) shuffle_section_mset [OF assms(1), of "m_answers m"] shuffle_section_cnames [OF assms(1), of "m_answers m"]
    shuffle_section_mset [OF assms(1), of "m_additionals m"]
  by (auto simp: lb_balance_def split: prod.splits)

definition rev_rng :: "unit lb_rng" where
  "rev_rng = \<lparr>lb_shuffle = (\<lambda>xs s. (rev xs, s)), lb_pick = (\<lambda>t s. (t - 1, s))\<rparr>"

definition balanced_message :: message where
  "balanced_message = message_new\<lparr>m_answers := [from_rdata ''a.'' 5 (RD_A [192, 0, 2, 1]),
     from_rdata ''www.'' 5 (RD_CNAME ''a.''), from_rdata ''a.'' 5 (RD_A [192, 0, 2, 2])]\<rparr>"

text \<open>The weighted choice is proportional: of the numbers below the total weight that the generator can draw,
  exactly as many choose a record as the weights of its occurrences add up to.\<close>

lemma weighted_pick_proportional:
  "card {p. p < sum_list (map (\<lambda>c. unat (snd c)) cs) \<and> pick_weighted p cs = Some r} =
     sum_list (map (\<lambda>c. if fst c = r then unat (snd c) else 0) cs)"
  by (rule card_picks)

text \<open>An IPv4 address is embedded in the prefix as RFC 6052 lays it out, for each of the six lengths a
  prefix may have, octet 8 included.\<close>

lemma dns64_layout:
  assumes "length (d6_network d) = 16" "drop (d6_prefix_len d div 8) (d6_network d) = replicate (16 - d6_prefix_len d div 8) 0"
    and "d6_prefix_len d \<in> {32, 40, 48, 56, 64, 96}" and "length v4 = 4"
  shows "dns64_synth d v4 = rfc6052 (d6_prefix_len d) (d6_network d) v4"
  using assms by (intro dns64_synth_layout [where k = "d6_prefix_len d div 8"]) auto

definition long_prefix :: dns64 where
  "long_prefix = \<lparr>d6_zones = [''.''], d6_network = [0x20, 1, 0xd, 0xb8, 1] @ replicate 11 0, d6_prefix_len = 40,
     d6_translate_all = False, d6_allow_ipv4 = False\<rparr>"

text \<open>Among any arrivals, in any order, exactly the third and later ones of one probe are taken for a loop: one
  name coming back is a loop, retries with other names and foreign names are not.\<close>

lemma loop_third_arrival:
  assumes "length ns < 2 ^ 32 - 1"
  shows "fst (looped n (loop_arrivals (loop_new labels zone) ns)) \<longleftrightarrow>
    n \<in> fst ` set (lp_probes (loop_new labels zone)) \<and> 2 \<le> count_list ns n"
proof -
  have "count_list ns n < 2 ^ 32 - 1" using assms count_le_length [of ns n] by simp
  then show ?thesis
    using of_nat_past_two [of "count_list ns n"] by (simp add: looped_lookup(2) loop_arrivals_lookup loop_new_lookup)
qed

end
