(* ===== verification/View.thy ===== *)
theory View
  imports Block_Setup Replacer
begin

text \<open>
  The \<open>view\<close> plugin, \<open>src/plugins/view.rs\<close>: a server block answers only the requests for which every
  expression of its view is true. The file has a lexer, a precedence-climbing parser, a check of the
  parsed expression and an evaluator.

  Floating point numbers are a type variable with the operations of \<open>num_api\<close>; regular expressions,
  networks, the printing of tokens, record types and classes and the encoded size of a request are the
  fields of \<open>view_env\<close>. Identifiers are ASCII. The parser's position in the token vector is the list of
  the tokens from there on; like the code's \<open>next\<close>, \<open>advance\<close> stays on the last token. The recursive
  descent runs on fuel, \<open>None\<close> being its exhaustion, with a bound on the depth linear in the number of
  tokens.

  Shown here: the fuel \<open>view_parse\<close> starts with always suffices, so that every text is either an
  expression or an error; expressions are read back from their text, printed with as few parentheses
  as the precedences allow.
\<close>

section \<open>Tokens\<close>

datatype 'f vtok =
    TNum 'f | TStr string | TIdent string | TOp string
  | TLParen | TRParen | TLBracket | TRBracket | TComma | TEof

record 'f num_api =
  nu_parse :: "string \<Rightarrow> 'f option"
  nu_of :: "nat \<Rightarrow> 'f"
  nu_show :: "'f \<Rightarrow> string"
  nu_zero :: "'f \<Rightarrow> bool"
  nu_neg :: "'f \<Rightarrow> 'f"
  nu_add :: "'f \<Rightarrow> 'f \<Rightarrow> 'f"
  nu_sub :: "'f \<Rightarrow> 'f \<Rightarrow> 'f"
  nu_mul :: "'f \<Rightarrow> 'f \<Rightarrow> 'f"
  nu_div :: "'f \<Rightarrow> 'f \<Rightarrow> 'f"
  nu_rem :: "'f \<Rightarrow> 'f \<Rightarrow> 'f"
  nu_eq :: "'f \<Rightarrow> 'f \<Rightarrow> bool"
  nu_lt :: "'f \<Rightarrow> 'f \<Rightarrow> bool"
  nu_le :: "'f \<Rightarrow> 'f \<Rightarrow> bool"

definition is_alpha :: "char \<Rightarrow> bool" where
  "is_alpha c \<longleftrightarrow> is_ascii_upper c \<or> is_ascii_lower c"

definition num_char :: "char \<Rightarrow> bool" where
  "num_char c \<longleftrightarrow> is_ascii_digit c \<or> c = CHR ''.''"

definition ident_char :: "char \<Rightarrow> bool" where
  "ident_char c \<longleftrightarrow> is_alpha c \<or> is_ascii_digit c \<or> c = CHR ''_'' \<or> c = CHR ''.''"

definition unescape :: "char \<Rightarrow> char" where
  "unescape c = (if c = CHR ''n'' then CHR 0x0A else if c = CHR ''t'' then CHR 0x09 else c)"

text \<open>The rest of a string literal up to its closing quote, and what follows.\<close>

fun lex_str :: "char \<Rightarrow> string \<Rightarrow> (string \<times> string) option" where
  "lex_str q [] = None"
| "lex_str q [c] = (if c = q then Some ([], []) else None)"
| "lex_str q (c # d # ds) =
     (if c = q then Some ([], d # ds)
      else if c = CHR 0x5C then map_option (apfst ((#) (unescape d))) (lex_str q ds)
      else map_option (apfst ((#) c)) (lex_str q (d # ds)))"

lemma lex_str_shorter: "lex_str q cs = Some (v, rest) \<Longrightarrow> length rest < length cs"
  by (induction q cs arbitrary: v rule: lex_str.induct) (auto split: if_splits simp: less_SucI)

definition word_tok :: "string \<Rightarrow> 'f vtok" where
  "word_tok t =
     (if t = ''and'' then TOp ''&&'' else if t = ''or'' then TOp ''||'' else if t = ''not'' then TOp ''!''
      else if t \<in> {''in'', ''matches'', ''contains'', ''startsWith'', ''endsWith''} then TOp t else TIdent t)"

definition two_char_ops :: "string set" where
  "two_char_ops = {''=='', ''!='', ''<='', ''>='', ''&&'', ''||''}"

definition one_char_ops :: string where
  "one_char_ops = ''<>!+-*/%''"

definition punct :: "char \<Rightarrow> 'f vtok option" where
  "punct c =
     (if c = CHR ''('' then Some TLParen else if c = CHR '')'' then Some TRParen
      else if c = CHR ''['' then Some TLBracket else if c = CHR '']'' then Some TRBracket
      else if c = CHR '','' then Some TComma else None)"

function vlex :: "'f num_api \<Rightarrow> string \<Rightarrow> 'f vtok list res" where
  "vlex nu [] = Inr [TEof]"
| "vlex nu (c # cs) =
     (if is_whitespace c then vlex nu cs
      else (case punct c of
          Some t \<Rightarrow> rbind (vlex nu cs) (\<lambda>ts. Inr (t # ts))
        | None \<Rightarrow>
            if c = CHR 0x27 \<or> c = CHR 0x22 then
              (case lex_str c cs of
                 None \<Rightarrow> Inl ''unterminated string''
               | Some (v, rest) \<Rightarrow> rbind (vlex nu rest) (\<lambda>ts. Inr (TStr v # ts)))
            else if is_ascii_digit c then
              (let t = c # takeWhile num_char cs in
               case nu_parse nu t of
                 None \<Rightarrow> Inl (''bad number '' @ t)
               | Some x \<Rightarrow> rbind (vlex nu (dropWhile num_char cs)) (\<lambda>ts. Inr (TNum x # ts)))
            else if is_alpha c \<or> c = CHR ''_'' then
              rbind (vlex nu (dropWhile ident_char cs)) (\<lambda>ts. Inr (word_tok (c # takeWhile ident_char cs) # ts))
            else if take 2 (c # cs) \<in> two_char_ops then
              rbind (vlex nu (drop 1 cs)) (\<lambda>ts. Inr (TOp (take 2 (c # cs)) # ts))
            else if c \<in> set one_char_ops then rbind (vlex nu cs) (\<lambda>ts. Inr (TOp [c] # ts))
            else Inl (''unexpected character '' @ quote [c])))"
  by pat_completeness auto
termination
  by (relation "measure (\<lambda>(nu, s). length s)")
    (auto simp: length_dropWhile_le le_imp_less_Suc less_SucI dest: lex_str_shorter)

section \<open>The parser\<close>

datatype 'f vexpr =
    ENum 'f | EStr string | EBool bool | EList "'f vexpr list" | ECall string "'f vexpr list"
  | EUnary string "'f vexpr" | EBinary string "'f vexpr" "'f vexpr"

definition prec :: "string \<Rightarrow> nat" where
  "prec op =
     (if op = ''||'' then 1 else if op = ''&&'' then 2
      else if op \<in> {''=='', ''!='', ''<'', ''>'', ''<='', ''>='', ''in'', ''matches'', ''contains'', ''startsWith'', ''endsWith''} then 3
      else if op \<in> {''+'', ''-''} then 4 else if op \<in> {''*'', ''/'', ''%''} then 5 else 0)"

fun advance :: "'f vtok list \<Rightarrow> 'f vtok list" where
  "advance [t] = [t]"
| "advance ts = tl ts"

type_synonym ('f, 'a) parsed = "('a \<times> 'f vtok list) res option"

fun pbind :: "('f, 'a) parsed \<Rightarrow> ('a \<Rightarrow> 'f vtok list \<Rightarrow> ('f, 'b) parsed) \<Rightarrow> ('f, 'b) parsed" where
  "pbind None g = None"
| "pbind (Some (Inl e)) g = Some (Inl e)"
| "pbind (Some (Inr (x, ts))) g = g x ts"

definition pexpect :: "('f vtok \<Rightarrow> string) \<Rightarrow> 'f vtok \<Rightarrow> 'f vtok list \<Rightarrow> 'a \<Rightarrow> ('f, 'a) parsed" where
  "pexpect dbg t ts x =
     (if hd ts = t then Some (Inr (x, advance ts))
      else Some (Inl (''expected '' @ dbg t @ '', got '' @ dbg (hd ts))))"

text \<open>
  The methods call each other; here each takes the parser \<open>pe\<close> of the subexpressions, by their least
  precedence, as an argument, and \<open>parse_expr\<close> passes itself on with less fuel.
\<close>

primrec parse_items ::
    "(nat \<Rightarrow> 'f vtok list \<Rightarrow> ('f, 'f vexpr) parsed) \<Rightarrow> nat \<Rightarrow> 'f vexpr list \<Rightarrow> 'f vtok list \<Rightarrow> ('f, 'f vexpr list) parsed" where
  "parse_items pe 0 acc ts = None"
| "parse_items pe (Suc k) acc ts =
     pbind (pe 1 ts) (\<lambda>e ts1.
       if hd ts1 = TComma then parse_items pe k (acc @ [e]) (advance ts1) else Some (Inr (acc @ [e], ts1)))"

text \<open>The items between brackets or parentheses, none when the closing token comes first.\<close>

definition parse_seq ::
    "(nat \<Rightarrow> 'f vtok list \<Rightarrow> ('f, 'f vexpr) parsed) \<Rightarrow> nat \<Rightarrow> 'f vtok \<Rightarrow> 'f vtok list \<Rightarrow> ('f, 'f vexpr list) parsed" where
  "parse_seq pe k close ts = (if hd ts \<noteq> close then parse_items pe k [] ts else Some (Inr ([], ts)))"

definition parse_primary ::
    "(nat \<Rightarrow> 'f vtok list \<Rightarrow> ('f, 'f vexpr) parsed) \<Rightarrow> ('f vtok \<Rightarrow> string) \<Rightarrow> nat \<Rightarrow> 'f vtok list \<Rightarrow> ('f, 'f vexpr) parsed" where
  "parse_primary pe dbg k ts =
     (let ts1 = advance ts in
      case hd ts of
        TNum x \<Rightarrow> Some (Inr (ENum x, ts1))
      | TStr s \<Rightarrow> Some (Inr (EStr s, ts1))
      | TLParen \<Rightarrow> pbind (pe 1 ts1) (\<lambda>e ts2. pexpect dbg TRParen ts2 e)
      | TLBracket \<Rightarrow>
          pbind (parse_seq pe k TRBracket ts1) (\<lambda>items ts2. pexpect dbg TRBracket ts2 (EList items))
      | TIdent i \<Rightarrow>
          if i = ''true'' then Some (Inr (EBool True, ts1))
          else if i = ''false'' then Some (Inr (EBool False, ts1))
          else if hd ts1 = TLParen then
            pbind (parse_seq pe k TRParen (advance ts1)) (\<lambda>as ts3. pexpect dbg TRParen ts3 (ECall i as))
          else Some (Inr (ECall i [], ts1))
      | t \<Rightarrow> Some (Inl (''unexpected token '' @ dbg t)))"

primrec parse_unary ::
    "(nat \<Rightarrow> 'f vtok list \<Rightarrow> ('f, 'f vexpr) parsed) \<Rightarrow> ('f vtok \<Rightarrow> string) \<Rightarrow> nat \<Rightarrow> 'f vtok list \<Rightarrow> ('f, 'f vexpr) parsed" where
  "parse_unary pe dbg 0 ts = None"
| "parse_unary pe dbg (Suc k) ts =
     (case hd ts of
        TOp op \<Rightarrow>
          if op = ''!'' \<or> op = ''-''
          then pbind (parse_unary pe dbg k (advance ts)) (\<lambda>e ts1. Some (Inr (EUnary op e, ts1)))
          else parse_primary pe dbg k ts
      | _ \<Rightarrow> parse_primary pe dbg k ts)"

primrec expr_loop ::
    "(nat \<Rightarrow> 'f vtok list \<Rightarrow> ('f, 'f vexpr) parsed) \<Rightarrow> nat \<Rightarrow> nat \<Rightarrow> 'f vexpr \<Rightarrow> 'f vtok list \<Rightarrow> ('f, 'f vexpr) parsed" where
  "expr_loop pe 0 m lhs ts = None"
| "expr_loop pe (Suc k) m lhs ts =
     (case hd ts of
        TOp op \<Rightarrow>
          if prec op \<ge> m \<and> prec op > 0
          then pbind (pe (prec op + 1) (advance ts)) (\<lambda>rhs ts1. expr_loop pe k m (EBinary op lhs rhs) ts1)
          else Some (Inr (lhs, ts))
      | _ \<Rightarrow> Some (Inr (lhs, ts)))"

primrec parse_expr :: "('f vtok \<Rightarrow> string) \<Rightarrow> nat \<Rightarrow> nat \<Rightarrow> 'f vtok list \<Rightarrow> ('f, 'f vexpr) parsed" where
  "parse_expr dbg 0 m ts = None"
| "parse_expr dbg (Suc n) m ts = pbind (parse_unary (parse_expr dbg n) dbg n ts) (expr_loop (parse_expr dbg n) n m)"

definition FUNCS :: "string list" where
  "FUNCS = [''name'', ''type'', ''class'', ''proto'', ''size'', ''port'', ''id'', ''opcode'', ''do'', ''bufsize'',
     ''client_ip'', ''server_ip'', ''server_port'', ''metadata'', ''incidr'']"

text \<open>The check of the functions and of the regular expressions that are literals.\<close>

fun validate :: "(string \<Rightarrow> (string \<Rightarrow> bool) res) \<Rightarrow> 'f vexpr \<Rightarrow> unit res"
  and validate_all :: "(string \<Rightarrow> (string \<Rightarrow> bool) res) \<Rightarrow> 'f vexpr list \<Rightarrow> unit res" where
  "validate rx (ECall f as) = (if f \<notin> set FUNCS then Inl (''unknown function '' @ f) else validate_all rx as)"
| "validate rx (EUnary op a) = validate rx a"
| "validate rx (EBinary op a b) =
     rbind (case b of
        EStr s \<Rightarrow> if op = ''matches'' then (case rx s of Inl e \<Rightarrow> Inl (''bad regex '' @ s @ '': '' @ e) | Inr _ \<Rightarrow> Inr ()) else Inr ()
      | _ \<Rightarrow> Inr ()) (\<lambda>_. rbind (validate rx a) (\<lambda>_. validate rx b))"
| "validate rx (EList es) = validate_all rx es"
| "validate rx (ENum x) = Inr ()"
| "validate rx (EStr s) = Inr ()"
| "validate rx (EBool b) = Inr ()"
| "validate_all rx [] = Inr ()"
| "validate_all rx (e # es) = rbind (validate rx e) (\<lambda>_. validate_all rx es)"

record ('f, 'net) view_env =
  ve_num :: "'f num_api"
  ve_regex :: "string \<Rightarrow> (string \<Rightarrow> bool) res"
  ve_net :: "'net ipnet_api"
  ve_type_str :: "rtype \<Rightarrow> string"
  ve_class_str :: "dclass \<Rightarrow> string"
  ve_req_len :: "request \<Rightarrow> nat"
  ve_debug :: "'f vtok \<Rightarrow> string"

definition expr_fuel :: "'f vtok list \<Rightarrow> nat" where
  "expr_fuel ts = Suc (length ts)"

definition view_parse :: "('f, 'net) view_env \<Rightarrow> string \<Rightarrow> 'f vexpr res option" where
  "view_parse env s =
     (case vlex (ve_num env) s of
        Inl e \<Rightarrow> Some (Inl e)
      | Inr toks \<Rightarrow>
          (case parse_expr (ve_debug env) (expr_fuel toks) 1 toks of
             None \<Rightarrow> None
           | Some (Inl e) \<Rightarrow> Some (Inl e)
           | Some (Inr (e, ts)) \<Rightarrow>
               if hd ts \<noteq> TEof then Some (Inl (''unexpected trailing token '' @ ve_debug env (hd ts)))
               else Some (rbind (validate (ve_regex env) e) (\<lambda>_. Inr e))))"

section \<open>Evaluation\<close>

datatype 'f vval = VNum 'f | VStr string | VBool bool | VList "'f vval list"

fun truthy :: "'f num_api \<Rightarrow> 'f vval \<Rightarrow> bool" where
  "truthy nu (VBool b) = b"
| "truthy nu (VNum n) = (\<not> nu_zero nu n)"
| "truthy nu (VStr s) = (s \<noteq> [])"
| "truthy nu (VList l) = (l \<noteq> [])"

fun value_str :: "'f num_api \<Rightarrow> 'f vval \<Rightarrow> string" where
  "value_str nu (VStr s) = s"
| "value_str nu (VNum n) = nu_show nu n"
| "value_str nu (VBool b) = show_bool b"
| "value_str nu (VList _) = []"

text \<open>The equality of values that Rust derives, with the one of \<open>f64\<close> on numbers.\<close>

fun value_eq :: "'f num_api \<Rightarrow> 'f vval \<Rightarrow> 'f vval \<Rightarrow> bool"
  and values_eq :: "'f num_api \<Rightarrow> 'f vval list \<Rightarrow> 'f vval list \<Rightarrow> bool" where
  "value_eq nu (VNum x) (VNum y) = nu_eq nu x y"
| "value_eq nu (VStr x) (VStr y) = (x = y)"
| "value_eq nu (VBool x) (VBool y) = (x = y)"
| "value_eq nu (VList xs) (VList ys) = values_eq nu xs ys"
| "value_eq nu _ _ = False"
| "values_eq nu [] [] = True"
| "values_eq nu (x # xs) (y # ys) = (value_eq nu x y \<and> values_eq nu xs ys)"
| "values_eq nu _ _ = False"

definition compare_op :: "'f num_api \<Rightarrow> string \<Rightarrow> 'f \<Rightarrow> 'f \<Rightarrow> bool" where
  "compare_op nu op x y =
     (if op = ''<'' then nu_lt nu x y else if op = ''>'' then nu_lt nu y x
      else if op = ''<='' then nu_le nu x y else nu_le nu y x)"

definition arith_op :: "'f num_api \<Rightarrow> string \<Rightarrow> 'f \<Rightarrow> 'f \<Rightarrow> 'f" where
  "arith_op nu op x y =
     (if op = ''+'' then nu_add nu x y else if op = ''-'' then nu_sub nu x y
      else if op = ''*'' then nu_mul nu x y else if op = ''/'' then nu_div nu x y else nu_rem nu x y)"

definition eval_unary :: "'f num_api \<Rightarrow> string \<Rightarrow> 'f vval \<Rightarrow> 'f vval res" where
  "eval_unary nu op v =
     (if op = ''!'' then Inr (VBool (\<not> truthy nu v))
      else if op = ''-'' then (case v of VNum n \<Rightarrow> Inr (VNum (nu_neg nu n)) | _ \<Rightarrow> Inl ''unary minus on non-number'')
      else Inl ''bad unary op'')"

definition eval_binary :: "('f, 'net) view_env \<Rightarrow> string \<Rightarrow> 'f vval \<Rightarrow> 'f vval \<Rightarrow> 'f vval res" where
  "eval_binary env op l r =
     (let nu = ve_num env; str = value_str nu in
      if op = ''=='' then Inr (VBool (value_eq nu l r))
      else if op = ''!='' then Inr (VBool (\<not> value_eq nu l r))
      else if op \<in> {''<'', ''>'', ''<='', ''>=''} then
        (case (l, r) of (VNum x, VNum y) \<Rightarrow> Inr (VBool (compare_op nu op x y)) | _ \<Rightarrow> Inl ''comparison on non-numbers'')
      else if op \<in> {''+'', ''-'', ''*'', ''/'', ''%''} then
        (case (l, r) of
           (VNum x, VNum y) \<Rightarrow> Inr (VNum (arith_op nu op x y))
         | (VStr x, VStr y) \<Rightarrow> if op = ''+'' then Inr (VStr (x @ y)) else Inl ''arithmetic on non-numbers''
         | _ \<Rightarrow> Inl ''arithmetic on non-numbers'')
      else if op = ''in'' then
        (case r of
           VList items \<Rightarrow> Inr (VBool (list_ex (\<lambda>i. value_eq nu i l) items))
         | VStr s \<Rightarrow> Inr (VBool (contains_sub s (str l)))
         | _ \<Rightarrow> Inl (quote ''in'' @ '' needs a list''))
      else if op = ''matches'' then
        Inr (VBool (case ve_regex env (str r) of Inr re \<Rightarrow> re (str l) | Inl _ \<Rightarrow> False))
      else if op = ''contains'' then Inr (VBool (contains_sub (str l) (str r)))
      else if op = ''startsWith'' then Inr (VBool (starts_with (str l) (str r)))
      else if op = ''endsWith'' then Inr (VBool (ends_with (str l) (str r)))
      else Inl (''bad op '' @ op))"

fun opcode_number :: "opcode \<Rightarrow> nat" where
  "opcode_number OpQuery = 0"
| "opcode_number OpStatus = 2"
| "opcode_number OpNotify = 4"
| "opcode_number OpUpdate = 5"

definition incidr :: "'net ipnet_api \<Rightarrow> string \<Rightarrow> string \<Rightarrow> bool res" where
  "incidr api ip cidr =
     rbind (ok_or (''incidr: bad ip '' @ ip) (parse_ip ip)) (\<lambda>a.
     case net_parse api cidr of Inl _ \<Rightarrow> Inl (''incidr: bad cidr '' @ cidr) | Inr net \<Rightarrow> Inr (net_contains api net a))"

definition eval_call :: "('f, 'net) view_env \<Rightarrow> request \<Rightarrow> string \<Rightarrow> 'f vval list \<Rightarrow> 'f vval res" where
  "eval_call env req f argv =
     (let nu = ve_num env; num = (\<lambda>n. Inr (VNum (nu_of nu n)));
          arg = (\<lambda>i. if i < length argv then value_str nu (argv ! i) else []) in
      if f = ''name'' then Inr (VStr (name_uncached req))
      else if f = ''type'' then Inr (VStr (ve_type_str env (qtype req)))
      else if f = ''class'' then Inr (VStr (ve_class_str env (qclass req)))
      else if f = ''proto'' then Inr (VStr (proto_str req))
      else if f = ''size'' then num (ve_req_len env req)
      else if f = ''port'' then num (req_port req)
      else if f = ''id'' then num (unat (m_id (rq_msg req)))
      else if f = ''opcode'' then num (opcode_number (m_opcode (rq_msg req)))
      else if f = ''do'' then Inr (VBool (do_bit req))
      else if f = ''bufsize'' then num (req_size req)
      else if f = ''client_ip'' then Inr (VStr (show_ip (req_ip req)))
      else if f = ''server_ip'' then Inr (VStr (show_ip (local_ip req)))
      else if f = ''server_port'' then num (local_port req)
      else if f = ''metadata'' then Inr (VStr (case rq_metadata req (arg 0) of Some v \<Rightarrow> v | None \<Rightarrow> []))
      else if f = ''incidr'' then rbind (incidr (ve_net env) (arg 0) (arg 1)) (\<lambda>b. Inr (VBool b))
      else Inl (''unknown function '' @ f))"

fun eval :: "('f, 'net) view_env \<Rightarrow> request \<Rightarrow> 'f vexpr \<Rightarrow> 'f vval res"
  and eval_all :: "('f, 'net) view_env \<Rightarrow> request \<Rightarrow> 'f vexpr list \<Rightarrow> 'f vval list res" where
  "eval env req (ENum x) = Inr (VNum x)"
| "eval env req (EStr s) = Inr (VStr s)"
| "eval env req (EBool b) = Inr (VBool b)"
| "eval env req (EList es) = rbind (eval_all env req es) (\<lambda>vs. Inr (VList vs))"
| "eval env req (EUnary op a) = rbind (eval env req a) (eval_unary (ve_num env) op)"
| "eval env req (EBinary op a b) =
     (if op = ''&&'' then
        rbind (eval env req a) (\<lambda>l. if truthy (ve_num env) l
          then rbind (eval env req b) (\<lambda>r. Inr (VBool (truthy (ve_num env) r))) else Inr (VBool False))
      else if op = ''||'' then
        rbind (eval env req a) (\<lambda>l. if truthy (ve_num env) l
          then Inr (VBool True) else rbind (eval env req b) (\<lambda>r. Inr (VBool (truthy (ve_num env) r))))
      else rbind (eval env req a) (\<lambda>l. rbind (eval env req b) (eval_binary env op l)))"
| "eval env req (ECall f as) = rbind (eval_all env req as) (eval_call env req f)"
| "eval_all env req [] = Inr []"
| "eval_all env req (e # es) = rbind (eval env req e) (\<lambda>v. rbind (eval_all env req es) (\<lambda>vs. Inr (v # vs)))"

definition expression_eval :: "('f, 'net) view_env \<Rightarrow> request \<Rightarrow> 'f vexpr \<Rightarrow> bool" where
  "expression_eval env req e = (case eval env req e of Inr v \<Rightarrow> truthy (ve_num env) v | Inl _ \<Rightarrow> False)"

section \<open>Setup\<close>

definition view_line ::
    "('f, 'net) view_env \<Rightarrow> (string \<Rightarrow> err) \<Rightarrow> err \<Rightarrow> string \<Rightarrow> string list \<Rightarrow> 'f vexpr list \<Rightarrow> 'f vexpr list res" where
  "view_line env ef arg_e v a exprs =
     (if v = ''expr'' then
        (if a = [] then Inl arg_e
         else (let text = join_with '' '' a in
           case view_parse env text of
             None \<Rightarrow> Inl ''out of fuel''
           | Some (Inl e) \<Rightarrow> Inl (ef (''expr '' @ text @ '': '' @ e))
           | Some (Inr e) \<Rightarrow> Inr (exprs @ [e])))
      else Inl (ef (''unknown property '' @ quote v)))"

definition view_property ::
    "('f, 'net) view_env \<Rightarrow> 'f vexpr list \<Rightarrow> 's controller \<Rightarrow> 'f vexpr list res \<times> 's controller" where
  "view_property env = line_property (\<lambda>v. v = ''expr'') (view_line env)"

definition view_body :: "('f, 'net) view_env \<Rightarrow> 's setup_fn" where
  "view_body env c =
     (case ctl_disp remaining_args_until_brace c of (as, c1) \<Rightarrow>
        if length as \<noteq> 1 then (Inl (ctl_arg_err c1), c1)
        else (case block_loop (view_property env) [] c1 of
            (Inl e, c2) \<Rightarrow> (Inl e, c2)
          | (Inr exprs, c2) \<Rightarrow>
              if exprs = [] then (Inl (ctl_errf c2 ''at least one expr is required''), c2)
              else (Inr (), on_config (\<lambda>g. g\<lparr>sc_view_name := hd as,
                     sc_filter := Some (\<lambda>req. list_all (expression_eval env req) exprs)\<rparr>) c2)))"

definition view_setup :: "('f, 'net) view_env \<Rightarrow> 's setup_fn" where
  "view_setup env = single_setup ''view'' (view_body env)"

section \<open>The parser ends\<close>

text \<open>The token lists of the lexer: not empty, with the end mark last.\<close>

definition ended :: "'f vtok list \<Rightarrow> bool" where
  "ended ts \<longleftrightarrow> ts \<noteq> [] \<and> last ts = TEof"

lemma advance_ended: "ended ts \<Longrightarrow> hd ts \<noteq> TEof \<Longrightarrow> ended (advance ts) \<and> length (advance ts) < length ts"
  by (cases ts rule: advance.cases) (auto simp: ended_def)

lemma pbind_Inr: "pbind a g = Some (Inr y) \<longleftrightarrow> (\<exists>x ts. a = Some (Inr (x, ts)) \<and> g x ts = Some (Inr y))"
  by (cases "(a, g)" rule: pbind.cases) auto

lemma pbind_None: "pbind a g = None \<longleftrightarrow> a = None \<or> (\<exists>x ts. a = Some (Inr (x, ts)) \<and> g x ts = None)"
  by (cases "(a, g)" rule: pbind.cases) auto

lemma pexpect_Inr: "pexpect dbg t ts x = Some (Inr (y, ts')) \<longleftrightarrow> hd ts = t \<and> y = x \<and> ts' = advance ts"
  by (auto simp: pexpect_def)

lemma pexpect_total: "pexpect dbg t ts x \<noteq> None"
  by (simp add: pexpect_def)

text \<open>What the methods rely on when they parse a subexpression: tokens are consumed.\<close>

locale sub_parser =
  fixes pe :: "nat \<Rightarrow> 'f vtok list \<Rightarrow> ('f, 'f vexpr) parsed"
  assumes consumes: "pe m ts = Some (Inr (e, ts')) \<Longrightarrow> ended ts \<Longrightarrow> ended ts' \<and> length ts' < length ts"
begin

lemma items_consumes:
  "parse_items pe k acc ts = Some (Inr (es, ts')) \<Longrightarrow> ended ts \<Longrightarrow> ended ts' \<and> length ts' < length ts"
proof (induction k arbitrary: acc ts)
  case (Suc k)
  from Suc.prems obtain e ts1 where e: "pe 1 ts = Some (Inr (e, ts1))"
    and rest: "(if hd ts1 = TComma then parse_items pe k (acc @ [e]) (advance ts1) else Some (Inr (acc @ [e], ts1))) = Some (Inr (es, ts'))"
    by (auto simp: pbind_Inr)
  from consumes [OF e Suc.prems(2)] have t1: "ended ts1" "length ts1 < length ts" by auto
  show ?case
  proof (cases "hd ts1 = TComma")
    case True
    with rest t1 advance_ended [of ts1] Suc.IH [of "acc @ [e]" "advance ts1"] show ?thesis by fastforce
  next
    case False
    with rest t1 show ?thesis by simp
  qed
qed simp

lemma seq_consumes:
  "parse_seq pe k close ts = Some (Inr (es, ts')) \<Longrightarrow> ended ts \<Longrightarrow> ended ts' \<and> length ts' \<le> length ts"
  using items_consumes [of k "[]" ts es ts'] by (auto simp: parse_seq_def split: if_splits)

lemma primary_consumes:
  assumes run: "parse_primary pe dbg k ts = Some (Inr (e, ts'))" and ts: "ended ts"
  shows "ended ts' \<and> length ts' < length ts"
proof -
  have "hd ts \<noteq> TEof" using run by (auto simp: parse_primary_def)
  then have a: "ended (advance ts)" "length (advance ts) < length ts" using advance_ended [OF ts] by auto
  have step: "ended (advance us) \<and> length (advance us) < length ts" if "ended us" "length us \<le> length (advance ts)" "hd us \<noteq> TEof" for us
    using advance_ended [OF that(1,3)] that(2) a(2) by auto
  have seq: "ended (advance us) \<and> length (advance us) < length ts"
    if "parse_seq pe k close vs = Some (Inr (es, us))" "hd us = close" "close \<noteq> TEof" "ended vs" "length vs \<le> length (advance ts)" for close vs es us
    using seq_consumes [OF that(1,4)] that step [of us] by simp
  show ?thesis
  proof (cases "hd ts")
    case TLParen
    with run obtain us where "pe 1 (advance ts) = Some (Inr (e, us))" "hd us = TRParen" "ts' = advance us"
      by (auto simp: parse_primary_def pbind_Inr pexpect_Inr)
    with consumes [OF this(1) a(1)] step [of us] show ?thesis by simp
  next
    case TLBracket
    with run seq [of TRBracket "advance ts"] a show ?thesis by (auto simp: parse_primary_def pbind_Inr pexpect_Inr)
  next
    case (TIdent i)
    have "hd (advance ts) = TLParen \<Longrightarrow> ended (advance (advance ts)) \<and> length (advance (advance ts)) \<le> length (advance ts)"
      using advance_ended [OF a(1)] by auto
    with run TIdent seq [of TRParen "advance (advance ts)"] a show ?thesis
      by (auto simp: parse_primary_def Let_def pbind_Inr pexpect_Inr split: if_splits)
  qed (use run a in \<open>simp_all add: parse_primary_def\<close>)
qed

lemma unary_consumes:
  "parse_unary pe dbg k ts = Some (Inr (e, ts')) \<Longrightarrow> ended ts \<Longrightarrow> ended ts' \<and> length ts' < length ts"
proof (induction k arbitrary: ts e)
  case (Suc k)
  show ?case
  proof (cases "\<exists>op. hd ts = TOp op \<and> (op = ''!'' \<or> op = ''-'')")
    case True
    with Suc.prems obtain e1 where "parse_unary pe dbg k (advance ts) = Some (Inr (e1, ts'))" by (auto simp: pbind_Inr)
    with Suc.IH True advance_ended [OF Suc.prems(2)] show ?thesis by fastforce
  next
    case False
    with Suc.prems have "parse_primary pe dbg k ts = Some (Inr (e, ts'))" by (auto split: vtok.splits)
    with primary_consumes Suc.prems(2) show ?thesis by blast
  qed
qed simp

lemma loop_consumes:
  "expr_loop pe k m l ts = Some (Inr (e, ts')) \<Longrightarrow> ended ts \<Longrightarrow> ended ts' \<and> length ts' \<le> length ts"
proof (induction k arbitrary: l ts)
  case (Suc k)
  show ?case
  proof (cases "\<exists>op. hd ts = TOp op \<and> prec op \<ge> m \<and> prec op > 0")
    case True
    then obtain op where op: "hd ts = TOp op" "prec op \<ge> m" "prec op > 0" by blast
    with Suc.prems obtain rhs ts1 where r: "pe (prec op + 1) (advance ts) = Some (Inr (rhs, ts1))"
      "expr_loop pe k m (EBinary op l rhs) ts1 = Some (Inr (e, ts'))" by (auto simp: pbind_Inr)
    have a: "ended (advance ts)" "length (advance ts) < length ts" using advance_ended [OF Suc.prems(2)] op by auto
    from Suc.IH [OF r(2)] consumes [OF r(1) a(1)] a(2) show ?thesis by auto
  next
    case False
    with Suc.prems show ?thesis by (auto split: vtok.splits)
  qed
qed simp

end

lemma parse_expr_sub_parser: "sub_parser (parse_expr dbg n)"
proof (induction n)
  case (Suc n)
  show ?case
  proof
    fix m e and ts ts' :: "'a vtok list"
    assume "parse_expr dbg (Suc n) m ts = Some (Inr (e, ts'))" "ended ts"
    then show "ended ts' \<and> length ts' < length ts"
      using sub_parser.unary_consumes [OF Suc.IH] sub_parser.loop_consumes [OF Suc.IH] by (fastforce simp: pbind_Inr)
  qed
qed (simp add: sub_parser_def)

interpretation sub: sub_parser "parse_expr dbg n"
  by (rule parse_expr_sub_parser)

text \<open>Enough fuel for the subexpressions and one more than the tokens for each loop is enough.\<close>

locale total_sub_parser = sub_parser +
  fixes n :: nat
  assumes total: "ended ts \<Longrightarrow> length ts < n \<Longrightarrow> pe m ts \<noteq> None"
begin

lemma items_total: "ended ts \<Longrightarrow> length ts < n \<Longrightarrow> length ts \<le> k \<Longrightarrow> parse_items pe k acc ts \<noteq> None"
proof (induction k arbitrary: acc ts)
  case (Suc k)
  have "parse_items pe k (acc @ [e]) (advance ts1) \<noteq> None" if "pe 1 ts = Some (Inr (e, ts1))" "hd ts1 = TComma" for e ts1
    using consumes [OF that(1) Suc.prems(1)] advance_ended [of ts1] that(2) Suc.prems by (intro Suc.IH) auto
  with total [of ts 1] Suc.prems show ?case by (auto simp: pbind_None iff del: not_None_eq split: if_splits)
qed (simp add: ended_def)

lemma primary_total:
  assumes "ended ts" "length ts \<le> n" "length ts \<le> Suc k"
  shows "parse_primary pe dbg k ts \<noteq> None"
proof -
  have a: "ended (advance ts)" "length (advance ts) < n" "length (advance ts) \<le> k" if "hd ts \<noteq> TEof"
    using advance_ended [OF assms(1) that] assms(2,3) by auto
  have seq: "parse_seq pe k close us \<noteq> None" if "ended us" "length us < n" "length us \<le> k" for close us
    using items_total [OF that] by (simp add: parse_seq_def)
  have call: "parse_seq pe k TRParen (advance (advance ts)) \<noteq> None" if "hd ts \<noteq> TEof" "hd (advance ts) = TLParen"
    using advance_ended [OF a(1) [OF that(1)]] a [OF that(1)] that(2) by (intro seq) auto
  show ?thesis
    using a total [of "advance ts" 1] seq [of "advance ts" TRBracket] call
    by (auto simp: parse_primary_def Let_def pbind_None pexpect_total iff del: not_None_eq split: vtok.splits)
qed

lemma unary_total: "ended ts \<Longrightarrow> length ts \<le> n \<Longrightarrow> length ts \<le> k \<Longrightarrow> parse_unary pe dbg k ts \<noteq> None"
proof (induction k arbitrary: ts)
  case (Suc k)
  show ?case
  proof (cases "\<exists>op. hd ts = TOp op \<and> (op = ''!'' \<or> op = ''-'')")
    case True
    then have "parse_unary pe dbg k (advance ts) \<noteq> None" using advance_ended [OF Suc.prems(1)] Suc.prems by (intro Suc.IH) auto
    with True show ?thesis by (auto simp: pbind_None iff del: not_None_eq)
  next
    case False
    have "parse_primary pe dbg k ts \<noteq> None" by (rule primary_total [OF Suc.prems])
    with False show ?thesis by (simp split: vtok.splits)
  qed
qed (simp add: ended_def)

lemma loop_total: "ended ts \<Longrightarrow> length ts < n \<Longrightarrow> length ts \<le> k \<Longrightarrow> expr_loop pe k m l ts \<noteq> None"
proof (induction k arbitrary: l ts)
  case (Suc k)
  have a: "ended (advance ts)" "length (advance ts) < length ts" if "hd ts = TOp op" for op
    using advance_ended [OF Suc.prems(1)] that by auto
  have "pe (prec op + 1) (advance ts) \<noteq> None" if "hd ts = TOp op" for op
    using a [OF that] Suc.prems by (intro total) auto
  moreover have "expr_loop pe k m (EBinary op l rhs) ts1 \<noteq> None"
    if "hd ts = TOp op" "pe (prec op + 1) (advance ts) = Some (Inr (rhs, ts1))" for op rhs ts1
    using a [OF that(1)] consumes [OF that(2)] Suc.prems by (intro Suc.IH) auto
  ultimately show ?case by (auto simp: pbind_None iff del: not_None_eq split: vtok.splits)
qed (simp add: ended_def)

end

lemma parse_expr_total: "ended ts \<Longrightarrow> length ts < n \<Longrightarrow> parse_expr dbg n m ts \<noteq> None"
proof (induction n arbitrary: m ts)
  case (Suc n)
  have t: "total_sub_parser (parse_expr dbg n) n" by unfold_locales (rule Suc.IH)
  have "parse_unary (parse_expr dbg n) dbg n ts \<noteq> None"
    using Suc.prems by (intro total_sub_parser.unary_total [OF t]) auto
  moreover have "expr_loop (parse_expr dbg n) n m e ts1 \<noteq> None"
    if "parse_unary (parse_expr dbg n) dbg n ts = Some (Inr (e, ts1))" for e ts1
    using sub.unary_consumes [OF that] Suc.prems by (intro total_sub_parser.loop_total [OF t]) auto
  ultimately show ?case by (auto simp: pbind_None iff del: not_None_eq)
qed (simp add: ended_def)

interpretation sub: total_sub_parser "parse_expr dbg n" n
  by unfold_locales (rule parse_expr_total)

lemma vlex_ended: "vlex nu s = Inr ts \<Longrightarrow> ended ts"
proof (induction nu s arbitrary: ts rule: vlex.induct)
  case (2 nu c cs)
  have cons: "ended us \<Longrightarrow> ended (t # us)" for t and us :: "'a vtok list" by (auto simp: ended_def)
  from 2 show ?case
    by (auto simp: Let_def iff del: not_None_eq split: if_splits option.splits intro!: cons)
qed (auto simp: ended_def)

section \<open>More fuel changes nothing\<close>

definition agrees :: "(nat \<Rightarrow> 'f vtok list \<Rightarrow> ('f, 'f vexpr) parsed) \<Rightarrow> (nat \<Rightarrow> 'f vtok list \<Rightarrow> ('f, 'f vexpr) parsed) \<Rightarrow> bool" where
  "agrees pe pe' \<longleftrightarrow> (\<forall>m ts r. pe m ts = Some r \<longrightarrow> pe' m ts = Some r)"

lemma pbind_mono:
  assumes "pbind a g = Some r" "\<And>r. a = Some r \<Longrightarrow> a' = Some r" "\<And>x ts r. g x ts = Some r \<Longrightarrow> g' x ts = Some r"
  shows "pbind a' g' = Some r"
  using assms by (cases "(a, g)" rule: pbind.cases) auto

lemma items_mono: "agrees pe pe' \<Longrightarrow> k \<le> k' \<Longrightarrow> parse_items pe k acc ts = Some r \<Longrightarrow> parse_items pe' k' acc ts = Some r"
proof (induction k arbitrary: k' acc ts r)
  case (Suc k)
  then obtain j where j: "k' = Suc j" "k \<le> j" by (cases k') auto
  from Suc.prems(3) show ?case
    unfolding j(1) parse_items.simps
    by (rule pbind_mono) (use Suc.prems(1) Suc.IH [OF Suc.prems(1) j(2)] in \<open>auto simp: agrees_def split: if_splits\<close>)
qed simp

lemma seq_mono: "agrees pe pe' \<Longrightarrow> k \<le> k' \<Longrightarrow> parse_seq pe k c ts = Some r \<Longrightarrow> parse_seq pe' k' c ts = Some r"
  by (auto simp: parse_seq_def items_mono split: if_splits)

lemma primary_mono:
  assumes "agrees pe pe'" "k \<le> k'" "parse_primary pe dbg k ts = Some r"
  shows "parse_primary pe' dbg k' ts = Some r"
proof -
  have "pe 1 us = Some r \<Longrightarrow> pe' 1 us = Some r" for us r using assms(1) by (simp add: agrees_def)
  with assms show ?thesis
    by (auto simp: parse_primary_def Let_def split: vtok.splits if_splits elim!: pbind_mono intro: seq_mono)
qed

lemma unary_mono: "agrees pe pe' \<Longrightarrow> k \<le> k' \<Longrightarrow> parse_unary pe dbg k ts = Some r \<Longrightarrow> parse_unary pe' dbg k' ts = Some r"
proof (induction k arbitrary: k' ts r)
  case (Suc k)
  then obtain j where j: "k' = Suc j" "k \<le> j" by (cases k') auto
  from Suc.prems(3) Suc.IH [OF Suc.prems(1) j(2)] primary_mono [OF Suc.prems(1) j(2)] show ?case
    by (auto simp: j(1) split: vtok.splits if_splits elim!: pbind_mono)
qed simp

lemma loop_mono: "agrees pe pe' \<Longrightarrow> k \<le> k' \<Longrightarrow> expr_loop pe k m l ts = Some r \<Longrightarrow> expr_loop pe' k' m l ts = Some r"
proof (induction k arbitrary: k' l ts r)
  case (Suc k)
  then obtain j where j: "k' = Suc j" "k \<le> j" by (cases k') auto
  from Suc.prems(1) have "pe i us = Some r \<Longrightarrow> pe' i us = Some r" for i us r by (simp add: agrees_def)
  with Suc.prems(3) Suc.IH [OF Suc.prems(1) j(2)] show ?case
    by (auto simp: j(1) split: vtok.splits if_splits elim!: pbind_mono)
qed simp

lemma parse_expr_mono: "n \<le> n' \<Longrightarrow> agrees (parse_expr dbg n) (parse_expr dbg n')"
proof (induction n arbitrary: n')
  case (Suc n)
  then obtain j where j: "n' = Suc j" "n \<le> j" by (cases n') auto
  note ih = Suc.IH [OF j(2)]
  show ?case
    unfolding agrees_def j(1) parse_expr.simps
    by (auto elim!: pbind_mono intro: unary_mono [OF ih j(2)] loop_mono [OF ih j(2)])
qed (simp add: agrees_def)

section \<open>Reading an expression back\<close>

subsection \<open>What the methods return, whatever the fuel\<close>

definition reads_expr :: "('f vtok \<Rightarrow> string) \<Rightarrow> nat \<Rightarrow> 'f vtok list \<Rightarrow> ('f vexpr \<times> 'f vtok list) res \<Rightarrow> bool" where
  "reads_expr dbg m ts r \<longleftrightarrow> (\<exists>n. parse_expr dbg n m ts = Some r)"

definition reads_unary :: "('f vtok \<Rightarrow> string) \<Rightarrow> 'f vtok list \<Rightarrow> ('f vexpr \<times> 'f vtok list) res \<Rightarrow> bool" where
  "reads_unary dbg ts r \<longleftrightarrow> (\<exists>n. parse_unary (parse_expr dbg n) dbg n ts = Some r)"

definition reads_loop :: "('f vtok \<Rightarrow> string) \<Rightarrow> nat \<Rightarrow> 'f vexpr \<Rightarrow> 'f vtok list \<Rightarrow> ('f vexpr \<times> 'f vtok list) res \<Rightarrow> bool" where
  "reads_loop dbg m l ts r \<longleftrightarrow> (\<exists>n. expr_loop (parse_expr dbg n) n m l ts = Some r)"

definition reads_items :: "('f vtok \<Rightarrow> string) \<Rightarrow> 'f vexpr list \<Rightarrow> 'f vtok list \<Rightarrow> ('f vexpr list \<times> 'f vtok list) res \<Rightarrow> bool" where
  "reads_items dbg acc ts r \<longleftrightarrow> (\<exists>n. parse_items (parse_expr dbg n) n acc ts = Some r)"

lemmas reads_defs = reads_expr_def reads_unary_def reads_loop_def reads_items_def

lemmas fuel_mono =
  parse_expr_mono [unfolded agrees_def, rule_format] unary_mono [OF parse_expr_mono] loop_mono [OF parse_expr_mono]
  items_mono [OF parse_expr_mono]

lemma reads_exprI: "reads_unary dbg ts (Inr (e, ts1)) \<Longrightarrow> reads_loop dbg m e ts1 r \<Longrightarrow> reads_expr dbg m ts r"
proof -
  assume "reads_unary dbg ts (Inr (e, ts1))" "reads_loop dbg m e ts1 r"
  then obtain i j where i: "parse_unary (parse_expr dbg i) dbg i ts = Some (Inr (e, ts1))"
    and j: "expr_loop (parse_expr dbg j) j m e ts1 = Some r" by (auto simp: reads_defs)
  have "parse_unary (parse_expr dbg (max i j)) dbg (max i j) ts = Some (Inr (e, ts1))"
    "expr_loop (parse_expr dbg (max i j)) (max i j) m e ts1 = Some r"
    by (rule fuel_mono(2) [OF _ _ i] fuel_mono(3) [OF _ _ j]; simp)+
  then have "parse_expr dbg (Suc (max i j)) m ts = Some r" by simp
  then show ?thesis unfolding reads_defs by blast
qed

lemma reads_loop_stop: "(case hd ts of TOp op \<Rightarrow> prec op < m | _ \<Rightarrow> True) \<Longrightarrow> reads_loop dbg m l ts (Inr (l, ts))"
  unfolding reads_defs by (rule exI [of _ 1]) (auto split: vtok.splits)

lemma reads_loop_step:
  assumes "reads_expr dbg (prec op + 1) ts (Inr (rhs, ts1))" "reads_loop dbg m (EBinary op l rhs) ts1 r"
    and "m \<le> prec op" "0 < prec op" "ts \<noteq> []"
  shows "reads_loop dbg m l (TOp op # ts) r"
proof -
  from assms(1,2) obtain i j where i: "parse_expr dbg i (prec op + 1) ts = Some (Inr (rhs, ts1))"
    and j: "expr_loop (parse_expr dbg j) j m (EBinary op l rhs) ts1 = Some r" by (auto simp: reads_defs)
  have "parse_expr dbg (Suc (max i j)) (prec op + 1) ts = Some (Inr (rhs, ts1))" by (rule fuel_mono(1) [OF _ i]) simp
  moreover have "expr_loop (parse_expr dbg (Suc (max i j))) (max i j) m (EBinary op l rhs) ts1 = Some r"
    by (rule fuel_mono(3) [OF _ _ j]) auto
  moreover have "advance (TOp op # ts) = ts" using assms(5) by (cases ts) auto
  ultimately have "expr_loop (parse_expr dbg (Suc (max i j))) (Suc (max i j)) m l (TOp op # ts) = Some r"
    using assms(3,4) by (simp del: parse_expr.simps)
  then show ?thesis unfolding reads_defs by blast
qed

lemma reads_unary_op:
  assumes "reads_unary dbg ts (Inr (e, ts1))" "op = ''!'' \<or> op = ''-''" "ts \<noteq> []"
  shows "reads_unary dbg (TOp op # ts) (Inr (EUnary op e, ts1))"
proof -
  from assms(1) obtain i where i: "parse_unary (parse_expr dbg i) dbg i ts = Some (Inr (e, ts1))" by (auto simp: reads_defs)
  have "parse_unary (parse_expr dbg (Suc i)) dbg i ts = Some (Inr (e, ts1))" by (rule fuel_mono(2) [OF _ _ i]) auto
  moreover have "advance (TOp op # ts) = ts" using assms(3) by (cases ts) auto
  ultimately have "parse_unary (parse_expr dbg (Suc i)) dbg (Suc i) (TOp op # ts) = Some (Inr (EUnary op e, ts1))"
    using assms(2) by (auto simp del: parse_expr.simps)
  then show ?thesis unfolding reads_defs by blast
qed

text \<open>Items, with their closing token, read by the loop.\<close>

lemma reads_items_last:
  assumes "reads_expr dbg 1 ts (Inr (e, ts1))" "hd ts1 \<noteq> TComma"
  shows "reads_items dbg acc ts (Inr (acc @ [e], ts1))"
proof -
  from assms(1) obtain i where i: "parse_expr dbg i 1 ts = Some (Inr (e, ts1))" by (auto simp: reads_defs)
  have "parse_expr dbg (Suc i) 1 ts = Some (Inr (e, ts1))" by (rule fuel_mono(1) [OF _ i]) simp
  with assms(2) have "parse_items (parse_expr dbg (Suc i)) (Suc i) acc ts = Some (Inr (acc @ [e], ts1))"
    by (simp del: parse_expr.simps)
  then show ?thesis unfolding reads_defs by blast
qed

lemma reads_items_more:
  assumes "reads_expr dbg 1 ts (Inr (e, TComma # ts1))" "reads_items dbg (acc @ [e]) ts1 r" "ts1 \<noteq> []"
  shows "reads_items dbg acc ts r"
proof -
  from assms(1,2) obtain i j where i: "parse_expr dbg i 1 ts = Some (Inr (e, TComma # ts1))"
    and j: "parse_items (parse_expr dbg j) j (acc @ [e]) ts1 = Some r" by (auto simp: reads_defs)
  have "parse_expr dbg (Suc (max i j)) 1 ts = Some (Inr (e, TComma # ts1))" by (rule fuel_mono(1) [OF _ i]) simp
  moreover have "parse_items (parse_expr dbg (Suc (max i j))) (max i j) (acc @ [e]) ts1 = Some r"
    by (rule fuel_mono(4) [OF _ _ j]) auto
  moreover have "advance (TComma # ts1) = ts1" using assms(3) by (cases ts1) auto
  ultimately have "parse_items (parse_expr dbg (Suc (max i j))) (Suc (max i j)) acc ts = Some r"
    by (simp del: parse_expr.simps)
  then show ?thesis unfolding reads_defs by blast
qed

text \<open>A primary expression, read with fuel \<open>n\<close> for its parts.\<close>

lemma reads_unary_primary:
  assumes "parse_primary (parse_expr dbg n) dbg n ts = Some r"
    and "\<And>op. hd ts = TOp op \<Longrightarrow> op \<noteq> ''!'' \<and> op \<noteq> ''-''"
  shows "reads_unary dbg ts r"
proof -
  have "parse_primary (parse_expr dbg (Suc n)) dbg n ts = Some r"
    by (rule primary_mono [OF parse_expr_mono _ assms(1)]) auto
  then have "parse_unary (parse_expr dbg (Suc n)) dbg (Suc n) ts = Some r"
    using assms(2) by (auto simp del: parse_expr.simps split: vtok.splits)
  then show ?thesis unfolding reads_defs by blast
qed

lemma advance_Cons: "ts \<noteq> [] \<Longrightarrow> advance (t # ts) = ts"
  by (cases ts) auto

lemma reads_paren:
  assumes "reads_expr dbg 1 ts (Inr (e, TRParen # rest))" "ts \<noteq> []" "rest \<noteq> []"
  shows "reads_unary dbg (TLParen # ts) (Inr (e, rest))"
proof -
  from assms(1) obtain i where "parse_expr dbg i 1 ts = Some (Inr (e, TRParen # rest))" by (auto simp: reads_defs)
  then have "parse_primary (parse_expr dbg i) dbg i (TLParen # ts) = Some (Inr (e, rest))"
    using assms(2,3) by (simp add: parse_primary_def advance_Cons pexpect_def)
  then show ?thesis by (rule reads_unary_primary) simp
qed

definition reads_seq :: "('f vtok \<Rightarrow> string) \<Rightarrow> 'f vtok \<Rightarrow> 'f vtok list \<Rightarrow> 'f vexpr list \<Rightarrow> 'f vtok list \<Rightarrow> bool" where
  "reads_seq dbg c ts es rest \<longleftrightarrow> (\<exists>n. parse_seq (parse_expr dbg n) n c ts = Some (Inr (es, c # rest)))"

lemma reads_list:
  assumes "reads_seq dbg TRBracket ts es rest" "ts \<noteq> []" "rest \<noteq> []"
  shows "reads_unary dbg (TLBracket # ts) (Inr (EList es, rest))"
proof -
  from assms(1) obtain i where "parse_seq (parse_expr dbg i) i TRBracket ts = Some (Inr (es, TRBracket # rest))"
    by (auto simp: reads_seq_def)
  then have "parse_primary (parse_expr dbg i) dbg i (TLBracket # ts) = Some (Inr (EList es, rest))"
    using assms(2,3) by (simp add: parse_primary_def advance_Cons pexpect_def)
  then show ?thesis by (rule reads_unary_primary) simp
qed

lemma reads_call:
  assumes "reads_seq dbg TRParen ts es rest" "ts \<noteq> []" "rest \<noteq> []" "f \<noteq> ''true''" "f \<noteq> ''false''"
  shows "reads_unary dbg (TIdent f # TLParen # ts) (Inr (ECall f es, rest))"
proof -
  from assms(1) obtain i where "parse_seq (parse_expr dbg i) i TRParen ts = Some (Inr (es, TRParen # rest))"
    by (auto simp: reads_seq_def)
  then have "parse_primary (parse_expr dbg i) dbg i (TIdent f # TLParen # ts) = Some (Inr (ECall f es, rest))"
    using assms(2-5) by (simp add: parse_primary_def advance_Cons pexpect_def)
  then show ?thesis by (rule reads_unary_primary) simp
qed

subsection \<open>Printing\<close>

text \<open>
  The tokens of an expression where an operator of precedence below \<open>p\<close> needs parentheses; binary
  operators associate to the left.
\<close>

fun etoks :: "nat \<Rightarrow> 'f vexpr \<Rightarrow> 'f vtok list"
  and etoks_all :: "'f vexpr list \<Rightarrow> 'f vtok list" where
  "etoks p (ENum x) = [TNum x]"
| "etoks p (EStr s) = [TStr s]"
| "etoks p (EBool b) = [TIdent (show_bool b)]"
| "etoks p (EList es) = TLBracket # etoks_all es @ [TRBracket]"
| "etoks p (ECall f es) = TIdent f # TLParen # etoks_all es @ [TRParen]"
| "etoks p (EUnary op e) = TOp op # etoks 6 e"
| "etoks p (EBinary op a b) =
     (let body = etoks (prec op) a @ TOp op # etoks (prec op + 1) b in
      if prec op < p then TLParen # body @ [TRParen] else body)"
| "etoks_all [] = []"
| "etoks_all [e] = etoks 1 e"
| "etoks_all (e # es) = etoks 1 e @ TComma # etoks_all es"

definition num_text :: "'f num_api \<Rightarrow> 'f \<Rightarrow> bool" where
  "num_text nu x \<longleftrightarrow> (case nu_show nu x of [] \<Rightarrow> False | c # cs \<Rightarrow> is_ascii_digit c \<and> list_all num_char cs)
     \<and> nu_parse nu (nu_show nu x) = Some x"

text \<open>The expressions the parser can return, with numbers that are read back from their text.\<close>

fun printable :: "'f num_api \<Rightarrow> 'f vexpr \<Rightarrow> bool"
  and printable_all :: "'f num_api \<Rightarrow> 'f vexpr list \<Rightarrow> bool" where
  "printable nu (ENum x) = num_text nu x"
| "printable nu (EStr s) = True"
| "printable nu (EBool b) = True"
| "printable nu (EList es) = printable_all nu es"
| "printable nu (ECall f es) = (f \<in> set FUNCS \<and> printable_all nu es)"
| "printable nu (EUnary op e) = ((op = ''!'' \<or> op = ''-'') \<and> printable nu e)"
| "printable nu (EBinary op a b) = (0 < prec op \<and> printable nu a \<and> printable nu b)"
| "printable_all nu [] = True"
| "printable_all nu (e # es) = (printable nu e \<and> printable_all nu es)"

definition op_prec :: "'f vtok list \<Rightarrow> nat" where
  "op_prec ts = (case hd ts of TOp op \<Rightarrow> prec op | _ \<Rightarrow> 0)"

lemma prec_le: "prec op \<le> 5"
  by (simp add: prec_def)

lemma FUNCS_no_bool: "f \<in> set FUNCS \<Longrightarrow> f \<noteq> ''true'' \<and> f \<noteq> ''false''"
  by (auto simp: FUNCS_def)

lemma reads_loop_prec: "op_prec ts < m \<Longrightarrow> reads_loop dbg m l ts (Inr (l, ts))"
  by (rule reads_loop_stop) (auto simp: op_prec_def split: vtok.splits)

lemma etoks_not_Nil [simp]: "etoks p e \<noteq> []"
  by (cases e) (auto simp: Let_def)

lemma hd_etoks_all: "es \<noteq> [] \<Longrightarrow> hd (etoks_all es @ ts) = hd (etoks 1 (hd es))"
  by (cases es rule: etoks_all.cases) auto

lemma hd_etoks: "hd (etoks p e) \<notin> {TRParen, TRBracket, TComma, TEof}"
proof (induction e arbitrary: p)
  case (EBinary op a b)
  from EBinary.IH(1) [of "prec op"] show ?case by (simp add: Let_def hd_append)
qed auto

lemma reads_binary:
  assumes "0 < prec op" "m \<le> prec op" "op_prec rest \<le> prec op" "rest \<noteq> []" "reads_loop dbg m (EBinary op a b) rest r"
    and a: "\<And>rest r. op_prec rest \<le> prec op \<Longrightarrow> rest \<noteq> [] \<Longrightarrow> reads_loop dbg m a rest r \<Longrightarrow> reads_expr dbg m (etoks (prec op) a @ rest) r"
    and b: "\<And>rest r. op_prec rest \<le> prec op + 1 \<Longrightarrow> rest \<noteq> [] \<Longrightarrow> reads_loop dbg (prec op + 1) b rest r
      \<Longrightarrow> reads_expr dbg (prec op + 1) (etoks (prec op + 1) b @ rest) r"
  shows "reads_expr dbg m ((etoks (prec op) a @ TOp op # etoks (prec op + 1) b) @ rest) r"
proof -
  have "reads_expr dbg (prec op + 1) (etoks (prec op + 1) b @ rest) (Inr (b, rest))"
    using assms(3,4) by (intro b reads_loop_prec) auto
  then have "reads_loop dbg m a (TOp op # etoks (prec op + 1) b @ rest) r"
    using assms(1,2,5) by (intro reads_loop_step) auto
  then have "reads_expr dbg m (etoks (prec op) a @ TOp op # etoks (prec op + 1) b @ rest) r"
    by (intro a) (simp_all add: op_prec_def)
  then show ?thesis by simp
qed

lemma reads_seq_items: "reads_items dbg [] ts (Inr (es, c # rest)) \<Longrightarrow> hd ts \<noteq> c \<Longrightarrow> reads_seq dbg c ts es rest"
  by (auto simp: reads_seq_def reads_defs parse_seq_def)

text \<open>
  Reading the tokens of an expression gives it back and goes on with what follows; when they are a
  unit, so does the method for unary expressions.
\<close>

definition unit_at :: "nat \<Rightarrow> 'f vexpr \<Rightarrow> bool" where
  "unit_at p e \<longleftrightarrow> (case e of EBinary op _ _ \<Rightarrow> prec op < p | _ \<Rightarrow> True)"

definition reads_back :: "('f vtok \<Rightarrow> string) \<Rightarrow> nat \<Rightarrow> 'f vexpr \<Rightarrow> bool" where
  "reads_back dbg p e \<longleftrightarrow>
     (\<forall>m rest r. 1 \<le> m \<longrightarrow> m \<le> p \<longrightarrow> op_prec rest \<le> p \<longrightarrow> rest \<noteq> [] \<longrightarrow> reads_loop dbg m e rest r
        \<longrightarrow> reads_expr dbg m (etoks p e @ rest) r) \<and>
     (unit_at p e \<longrightarrow> (\<forall>rest. rest \<noteq> [] \<longrightarrow> reads_unary dbg (etoks p e @ rest) (Inr (e, rest))))"

definition reads_all :: "('f vtok \<Rightarrow> string) \<Rightarrow> 'f vexpr list \<Rightarrow> bool" where
  "reads_all dbg es \<longleftrightarrow> (\<forall>acc c rest. c = TRParen \<or> c = TRBracket \<longrightarrow>
     reads_items dbg acc (etoks_all es @ c # rest) (Inr (acc @ es, c # rest)))"

lemma reads_backD:
  "reads_back dbg p e \<Longrightarrow> 1 \<le> m \<Longrightarrow> m \<le> p \<Longrightarrow> op_prec rest \<le> p \<Longrightarrow> rest \<noteq> [] \<Longrightarrow> reads_loop dbg m e rest r
     \<Longrightarrow> reads_expr dbg m (etoks p e @ rest) r"
  by (simp add: reads_back_def)

lemma reads_allD:
  "reads_all dbg es \<Longrightarrow> c = TRParen \<or> c = TRBracket \<Longrightarrow> reads_items dbg acc (etoks_all es @ c # rest) (Inr (acc @ es, c # rest))"
  unfolding reads_all_def by blast

lemma reads_back_unit:
  "(\<And>rest. rest \<noteq> [] \<Longrightarrow> reads_unary dbg (etoks p e @ rest) (Inr (e, rest))) \<Longrightarrow> reads_back dbg p e"
  by (auto simp: reads_back_def intro: reads_exprI)

lemma reads_all_seq:
  assumes "es \<noteq> [] \<Longrightarrow> reads_all dbg es" "c = TRParen \<or> c = TRBracket"
  shows "reads_seq dbg c (etoks_all es @ c # rest) es rest"
proof (cases "es = []")
  case True
  then show ?thesis by (simp add: reads_seq_def parse_seq_def)
next
  case False
  with assms have "reads_items dbg [] (etoks_all es @ c # rest) (Inr (es, c # rest))"
    using reads_allD [of dbg es c "[]" rest] by simp
  moreover have "hd (etoks_all es @ c # rest) \<noteq> c" using hd_etoks [of 1 "hd es"] assms(2) False by (auto simp: hd_etoks_all)
  ultimately show ?thesis by (rule reads_seq_items)
qed

lemma reads_first_item:
  "reads_back dbg 1 e \<Longrightarrow> op_prec rest = 0 \<Longrightarrow> rest \<noteq> [] \<Longrightarrow> reads_expr dbg 1 (etoks 1 e @ rest) (Inr (e, rest))"
  by (rule reads_backD) (auto intro: reads_loop_prec)

lemma reads_etoks_binary:
  assumes "0 < prec op" "reads_back dbg (prec op) a" "reads_back dbg (prec op + 1) b"
  shows "reads_back dbg p (EBinary op a b)"
proof -
  let ?body = "etoks (prec op) a @ TOp op # etoks (prec op + 1) b"
  have body: "reads_expr dbg m (?body @ rest) r"
    if "1 \<le> m" "m \<le> prec op" "op_prec rest \<le> prec op" "rest \<noteq> []" "reads_loop dbg m (EBinary op a b) rest r" for m rest r
    using that by (intro reads_binary [OF assms(1)]) (blast intro: reads_backD [OF assms(2)] reads_backD [OF assms(3)] le_add2 le_refl)+
  show ?thesis
  proof (cases "prec op < p")
    case True
    show ?thesis
    proof (rule reads_back_unit)
      fix rest :: "'a vtok list"
      assume "rest \<noteq> []"
      have "reads_expr dbg 1 (?body @ TRParen # rest) (Inr (EBinary op a b, TRParen # rest))"
        using assms(1) by (intro body reads_loop_prec) (auto simp: op_prec_def)
      from reads_paren [OF this] \<open>rest \<noteq> []\<close> True show "reads_unary dbg (etoks p (EBinary op a b) @ rest) (Inr (EBinary op a b, rest))"
        by (simp add: Let_def)
    qed
  next
    case False
    with body show ?thesis by (auto simp: reads_back_def unit_at_def Let_def)
  qed
qed

lemma reads_etoks:
  "printable nu e \<Longrightarrow> reads_back dbg p e"
  "printable_all nu es \<Longrightarrow> es \<noteq> [] \<Longrightarrow> reads_all dbg es"
proof (induction p e and es rule: etoks_etoks_all.induct)
  case (1 p x)
  show ?case
    by (rule reads_back_unit, rule reads_unary_primary [where n = 0]) (auto simp: parse_primary_def advance_Cons)
next
  case (2 p s)
  show ?case
    by (rule reads_back_unit, rule reads_unary_primary [where n = 0]) (auto simp: parse_primary_def advance_Cons)
next
  case (3 p b)
  show ?case
    by (rule reads_back_unit, rule reads_unary_primary [where n = 0])
      (auto simp: parse_primary_def advance_Cons show_bool_def)
next
  case (4 p es)
  with reads_all_seq [of es dbg TRBracket] show ?case by (intro reads_back_unit) (auto intro!: reads_list)
next
  case (5 p f es)
  with reads_all_seq [of es dbg TRParen] FUNCS_no_bool [of f] show ?case by (intro reads_back_unit) (auto intro!: reads_call)
next
  case (6 p op e)
  then have "reads_back dbg 6 e" by simp
  moreover have "unit_at 6 e" using le_less_trans [OF prec_le, of 6] by (simp add: unit_at_def split: vexpr.splits)
  ultimately show ?case
    using 6 by (intro reads_back_unit) (auto simp: reads_back_def intro!: reads_unary_op)
next
  case (7 p op a b)
  then show ?case by (intro reads_etoks_binary) auto
next
  case (9 e)
  then have e: "reads_back dbg 1 e" by simp
  show ?case
    unfolding reads_all_def etoks_all.simps
  proof (intro allI impI)
    fix acc :: "'a vexpr list" and c :: "'a vtok" and rest
    assume c: "c = TRParen \<or> c = TRBracket"
    then have "op_prec (c # rest) = 0" "hd (c # rest) \<noteq> TComma" by (auto simp: op_prec_def)
    then show "reads_items dbg acc (etoks 1 e @ c # rest) (Inr (acc @ [e], c # rest))"
      using reads_first_item [OF e] by (intro reads_items_last) auto
  qed
next
  case (10 e e2 es)
  then have e: "reads_back dbg 1 e" and es: "reads_all dbg (e2 # es)" by auto
  show ?case
    unfolding reads_all_def
  proof (intro allI impI)
    fix acc :: "'a vexpr list" and c :: "'a vtok" and rest
    assume c: "c = TRParen \<or> c = TRBracket"
    show "reads_items dbg acc (etoks_all (e # e2 # es) @ c # rest) (Inr (acc @ e # e2 # es, c # rest))"
    proof (rule reads_items_more)
      show "reads_expr dbg 1 (etoks_all (e # e2 # es) @ c # rest) (Inr (e, TComma # etoks_all (e2 # es) @ c # rest))"
        using reads_first_item [OF e, of "TComma # etoks_all (e2 # es) @ c # rest"] by (simp add: op_prec_def)
      show "reads_items dbg (acc @ [e]) (etoks_all (e2 # es) @ c # rest) (Inr (acc @ e # e2 # es, c # rest))"
        using reads_allD [OF es c, of "acc @ [e]" rest] by simp
    qed simp
  qed
qed auto

subsection \<open>Text\<close>

definition str_escape :: "char \<Rightarrow> string" where
  "str_escape c = (if c = CHR 0x27 \<or> c = CHR 0x5C then [CHR 0x5C, c] else [c])"

fun tok_text :: "'f num_api \<Rightarrow> 'f vtok \<Rightarrow> string" where
  "tok_text nu (TNum x) = nu_show nu x"
| "tok_text nu (TStr s) = [CHR 0x27] @ concat (map str_escape s) @ [CHR 0x27]"
| "tok_text nu (TIdent i) = i"
| "tok_text nu (TOp op) = op"
| "tok_text nu TLParen = ''(''"
| "tok_text nu TRParen = '')''"
| "tok_text nu TLBracket = ''[''"
| "tok_text nu TRBracket = '']''"
| "tok_text nu TComma = '',''"
| "tok_text nu TEof = []"

text \<open>The text of an expression: its tokens, each with a space after it.\<close>

definition render :: "'f num_api \<Rightarrow> 'f vexpr \<Rightarrow> string" where
  "render nu e = concat (map (\<lambda>t. tok_text nu t @ '' '') (etoks 1 e))"

definition word_ok :: "string \<Rightarrow> bool" where
  "word_ok w \<longleftrightarrow> (case w of [] \<Rightarrow> False | c # cs \<Rightarrow> (is_alpha c \<or> c = CHR ''_'') \<and> list_all ident_char cs)"

definition op_ok :: "string \<Rightarrow> bool" where
  "op_ok op \<longleftrightarrow> 0 < prec op \<or> op = ''!''"

fun tok_ok :: "'f num_api \<Rightarrow> 'f vtok \<Rightarrow> bool" where
  "tok_ok nu (TNum x) = num_text nu x"
| "tok_ok nu (TIdent i) = (word_ok i \<and> word_tok i = (TIdent i :: unit vtok))"
| "tok_ok nu (TOp op) = op_ok op"
| "tok_ok nu TEof = False"
| "tok_ok nu _ = True"

lemma lex_str_escaped: "lex_str (CHR 0x27) (concat (map str_escape s) @ CHR 0x27 # rest) = Some (s, rest)"
proof (induction s)
  case Nil
  show ?case by (cases rest) auto
next
  case (Cons c s)
  obtain d ds where d: "concat (map str_escape s) @ CHR 0x27 # rest = d # ds"
    by (cases "concat (map str_escape s) @ CHR 0x27 # rest") auto
  have e: "lex_str (CHR 0x27) (d # ds) = Some (s, rest)" using Cons.IH by (simp only: d)
  have "concat (map str_escape (c # s)) @ CHR 0x27 # rest = str_escape c @ d # ds" by (simp add: d)
  moreover have "lex_str (CHR 0x27) (str_escape c @ d # ds) = Some (c # s, rest)"
    using e by (auto simp: str_escape_def unescape_def)
  ultimately show ?case by (simp only:)
qed

declare vlex.simps(2) [simp del]

lemma vlex_space [simp]: "vlex nu (CHR '' '' # cs) = vlex nu cs"
  by (simp add: vlex.simps(2) is_whitespace_def)

lemma takeWhile_then_space:
  "list_all p xs \<Longrightarrow> \<not> p (CHR '' '') \<Longrightarrow> takeWhile p (xs @ CHR '' '' # cs) = xs \<and> dropWhile p (xs @ CHR '' '' # cs) = CHR '' '' # cs"
  by (simp add: list_all_iff)

lemma space_not [simp]: "\<not> num_char (CHR '' '')" "\<not> ident_char (CHR '' '')"
  by (simp_all add: num_char_def ident_char_def is_alpha_def is_ascii_digit_def is_ascii_upper_def is_ascii_lower_def)

lemma punct_None: "c \<notin> set ''()[],'' \<Longrightarrow> punct c = None"
  by (simp add: punct_def)

lemma symbol_char:
  assumes "c \<in> set ''=!<>&|+-*/%''"
  shows "\<not> is_whitespace c" "c \<notin> set ''()[],''" "c \<noteq> CHR 0x27" "c \<noteq> CHR 0x22" "\<not> is_ascii_digit c" "\<not> is_alpha c" "c \<noteq> CHR ''_''"
proof -
  have "list_all (\<lambda>c. \<not> is_whitespace c \<and> c \<notin> set ''()[],'' \<and> c \<noteq> CHR 0x27 \<and> c \<noteq> CHR 0x22 \<and> \<not> is_ascii_digit c
      \<and> \<not> is_alpha c \<and> c \<noteq> CHR ''_'') ''=!<>&|+-*/%''" by code_simp
  with assms show "\<not> is_whitespace c" "c \<notin> set ''()[],''" "c \<noteq> CHR 0x27" "c \<noteq> CHR 0x22" "\<not> is_ascii_digit c" "\<not> is_alpha c" "c \<noteq> CHR ''_''"
    unfolding list_all_iff by blast+
qed

lemma vlex_num:
  assumes "num_text nu x"
  shows "vlex nu (nu_show nu x @ CHR '' '' # cs) = rbind (vlex nu cs) (\<lambda>ts. Inr (TNum x # ts))"
proof -
  obtain c ds where t: "nu_show nu x = c # ds" "is_ascii_digit c" "list_all num_char ds" "nu_parse nu (c # ds) = Some x"
    using assms by (auto simp: num_text_def split: list.splits)
  have c: "\<not> is_whitespace c" "c \<notin> set ''()[],''" "c \<noteq> CHR 0x27" "c \<noteq> CHR 0x22"
    using t(2) by (auto simp: is_whitespace_def is_ascii_digit_def)
  show ?thesis using t c takeWhile_then_space [OF t(3)] by (simp add: vlex.simps(2) [of nu c] Let_def punct_None)
qed

lemma vlex_word:
  assumes "word_ok w"
  shows "vlex nu (w @ CHR '' '' # cs) = rbind (vlex nu cs) (\<lambda>ts. Inr (word_tok w # ts))"
proof -
  obtain c ds where w: "w = c # ds" "is_alpha c \<or> c = CHR ''_''" "list_all ident_char ds"
    using assms by (auto simp: word_ok_def split: list.splits)
  have c: "\<not> is_whitespace c" "c \<notin> set ''()[],''" "c \<noteq> CHR 0x27" "c \<noteq> CHR 0x22" "\<not> is_ascii_digit c"
    using w(2) by (auto simp: is_whitespace_def is_ascii_digit_def is_alpha_def is_ascii_upper_def is_ascii_lower_def)
  show ?thesis using w c takeWhile_then_space [OF w(3)] by (simp add: vlex.simps(2) [of nu c] punct_None)
qed

definition symbol_ops :: "string set" where
  "symbol_ops = two_char_ops \<union> (\<lambda>c. [c]) ` set one_char_ops"

lemma vlex_symbol:
  assumes "op \<in> symbol_ops"
  shows "vlex nu (op @ CHR '' '' # cs) = rbind (vlex nu cs) (\<lambda>ts. Inr (TOp op # ts))"
proof -
  from assms consider a b where "op = [a, b]" "[a, b] \<in> two_char_ops" | c where "op = [c]" "c \<in> set one_char_ops"
    by (auto simp: symbol_ops_def two_char_ops_def)
  then show ?thesis
  proof cases
    case 1
    then have "a \<in> set ''=!<>&|+-*/%''" by (auto simp: two_char_ops_def)
    from symbol_char [OF this] 1 show ?thesis by (simp add: vlex.simps(2) [of nu a] punct_None del: set_simps)
  next
    case 2
    then have "c \<in> set ''=!<>&|+-*/%''" by (auto simp: one_char_ops_def)
    moreover have "[c, CHR '' ''] \<notin> two_char_ops" by (simp add: two_char_ops_def)
    ultimately show ?thesis using symbol_char [of c] 2 by (simp add: vlex.simps(2) [of nu c] punct_None del: set_simps)
  qed
qed

definition word_ops :: "string set" where
  "word_ops = {''in'', ''matches'', ''contains'', ''startsWith'', ''endsWith''}"

lemma op_ok_cases: "op_ok op \<Longrightarrow> op \<in> symbol_ops \<or> op \<in> word_ops"
  by (auto simp: op_ok_def prec_def symbol_ops_def word_ops_def two_char_ops_def one_char_ops_def split: if_splits)

lemma vlex_op:
  assumes "op_ok op"
  shows "vlex nu (op @ CHR '' '' # cs) = rbind (vlex nu cs) (\<lambda>ts. Inr (TOp op # ts))"
proof (cases "op \<in> symbol_ops")
  case True
  then show ?thesis by (rule vlex_symbol)
next
  case False
  then have "op \<in> word_ops" using op_ok_cases [OF assms] by blast
  moreover have "\<forall>w \<in> word_ops. word_ok w" unfolding word_ops_def by code_simp
  ultimately show ?thesis using vlex_word [of op nu cs] by (auto simp: word_ops_def word_tok_def)
qed

lemma word_tok_ident: "word_tok i = (TIdent i :: unit vtok) \<Longrightarrow> word_tok i = TIdent i"
  by (auto simp: word_tok_def split: if_splits)

lemma vlex_punct: "punct c = Some t \<Longrightarrow> vlex nu (c # cs) = rbind (vlex nu cs) (\<lambda>ts. Inr (t # ts))"
  by (subst vlex.simps(2)) (auto simp: punct_def is_whitespace_def split: if_splits)

lemma vlex_tok:
  assumes "tok_ok nu t"
  shows "vlex nu (tok_text nu t @ CHR '' '' # cs) = rbind (vlex nu cs) (\<lambda>ts. Inr (t # ts))"
proof (cases t)
  case (TStr s)
  have "vlex nu (tok_text nu (TStr s) @ CHR '' '' # cs) = rbind (vlex nu (CHR '' '' # cs)) (\<lambda>ts. Inr (TStr s # ts))"
    using lex_str_escaped [of s "CHR '' '' # cs"] by (simp add: vlex.simps(2) [of nu "CHR 0x27"] is_whitespace_def punct_def del: lex_str.simps)
  with TStr show ?thesis by (simp only: vlex_space)
qed (use assms vlex_num [of nu] vlex_word [of _ nu cs] vlex_op [of _ nu cs] in
    \<open>auto simp: vlex_punct punct_def word_tok_ident\<close>)

lemma vlex_toks: "list_all (tok_ok nu) ts \<Longrightarrow> vlex nu (concat (map (\<lambda>t. tok_text nu t @ '' '') ts)) = Inr (ts @ [TEof])"
proof (induction ts)
  case (Cons t ts)
  then show ?case using vlex_tok [of nu t "concat (map (\<lambda>t. tok_text nu t @ '' '') ts)"] by simp
qed simp

lemma FUNCS_ok: "f \<in> set FUNCS \<Longrightarrow> word_ok f \<and> word_tok f = (TIdent f :: unit vtok)"
proof -
  have "list_all (\<lambda>f. word_ok f \<and> word_tok f = (TIdent f :: unit vtok)) FUNCS" by code_simp
  then show "f \<in> set FUNCS \<Longrightarrow> word_ok f \<and> word_tok f = (TIdent f :: unit vtok)" unfolding list_all_iff by blast
qed

lemma etoks_ok:
  "printable nu e \<Longrightarrow> list_all (tok_ok nu) (etoks p e)"
  "printable_all nu es \<Longrightarrow> list_all (tok_ok nu) (etoks_all es)"
proof (induction p e and es rule: etoks_etoks_all.induct)
  case (3 p b)
  have "word_ok ''true''" "word_ok ''false''" by code_simp+
  then show ?case by (cases b) (simp_all add: show_bool_def word_tok_def)
next
  case (6 p op e)
  then show ?case by (auto simp: op_ok_def prec_def)
qed (auto simp: FUNCS_ok op_ok_def Let_def)

lemma parse_etoks:
  assumes "printable nu e"
  shows "parse_expr dbg (expr_fuel (etoks 1 e @ [TEof])) 1 (etoks 1 e @ [TEof]) = Some (Inr (e, [TEof]))"
proof -
  let ?ts = "etoks 1 e @ [TEof]"
  have "reads_expr dbg 1 ?ts (Inr (e, [TEof]))"
    using reads_first_item [OF reads_etoks(1) [OF assms], of "[TEof]"] by (simp add: op_prec_def)
  then obtain n where n: "parse_expr dbg n 1 ?ts = Some (Inr (e, [TEof]))" by (auto simp: reads_defs)
  have "parse_expr dbg (expr_fuel ?ts) 1 ?ts \<noteq> None" by (rule parse_expr_total) (auto simp: ended_def expr_fuel_def)
  then obtain r where r: "parse_expr dbg (expr_fuel ?ts) 1 ?ts = Some r" by blast
  let ?k = "max n (expr_fuel ?ts)"
  have "parse_expr dbg ?k 1 ?ts = Some (Inr (e, [TEof]))" "parse_expr dbg ?k 1 ?ts = Some r"
    by (rule fuel_mono(1) [OF _ n] fuel_mono(1) [OF _ r]; simp)+
  with r show ?thesis by simp
qed

section \<open>The setup keeps its contract\<close>

interpretation view_block: block_property "view_property env"
  unfolding view_property_def by (rule line_property_block) (simp add: view_line_def is_ok_def)

lemma view_body_appends:
  assumes "view_body env c = (r, c')"
  shows "appends_plugins c c'"
proof -
  obtain as c1 where a: "ctl_disp remaining_args_until_brace c = (as, c1)"
    by (cases "ctl_disp remaining_args_until_brace c")
  obtain r2 c2 where b: "block_loop (view_property env) [] c1 = (r2, c2)" by (cases "block_loop (view_property env) [] c1")
  have c1: "appends_plugins c c1" using a by (rule appends_disp)
  moreover have "appends_plugins c c2"
    using c1 appends_refl view_block.loop_frame [OF b] by (blast intro: appends_trans)
  ultimately show ?thesis
    using assms a b by (auto simp: view_body_def split: if_splits sum.splits intro: appends_steps)
qed

interpretation view_setup: setup_function "view_setup env"
  unfolding view_setup_def by (rule single_setup_function [OF view_body_appends])

section \<open>Properties\<close>

text \<open>C34: The parser of view expressions ends on every text: with fuel one above the number of the tokens the recursive
  descent never runs out, so that a text is either an expression or refused.\<close>

theorem view_parse_ends: "view_parse env s \<noteq> None"
proof -
  have "parse_expr dbg (expr_fuel ts) 1 ts \<noteq> None" if "vlex (ve_num env) s = Inr ts" for dbg ts
    using vlex_ended [OF that] by (intro parse_expr_total) (simp_all add: expr_fuel_def)
  then show ?thesis
    by (auto simp: view_parse_def iff del: not_None_eq split: sum.splits option.splits)
qed

text \<open>C33: An expression is read back from its text, printed with parentheses only where an operator binds less than its
  place needs: precedences, left associativity, unary operators, lists, calls, strings and words
  are read as they are meant.\<close>

theorem view_parse_render:
  assumes "printable (ve_num env) e" "validate (ve_regex env) e = Inr ()"
  shows "view_parse env (render (ve_num env) e) = Some (Inr e)"
  using assms parse_etoks [OF assms(1)] vlex_toks [OF etoks_ok(1) [OF assms(1), of 1]]
  by (simp add: view_parse_def render_def)

definition nat_num :: "nat num_api" where
  "nat_num = \<lparr>nu_parse = parse_u16, nu_of = id, nu_show = show_nat, nu_zero = (\<lambda>n. n = 0), nu_neg = id, nu_add = (+), nu_sub = (-),
     nu_mul = (*), nu_div = (div), nu_rem = (mod), nu_eq = (=), nu_lt = (<), nu_le = (\<le>)\<rparr>"

definition plain_view :: "(nat, unit) view_env" where
  "plain_view = \<lparr>ve_num = nat_num, ve_regex = (\<lambda>s. Inr (\<lambda>t. s = t)), ve_net = world_net, ve_type_str = (\<lambda>_. ''A''),
     ve_class_str = (\<lambda>_. ''IN''), ve_req_len = (\<lambda>_. 29), ve_debug = (\<lambda>_. ''token'')\<rparr>"

definition split_view :: "nat vexpr" where
  "split_view = EBinary ''&&'' (EBinary ''||'' (EBinary ''=='' (ECall ''port'' []) (ENum 53)) (ECall ''do'' []))
     (EUnary ''!'' (EBinary ''in'' (ECall ''type'' []) (EList [EStr ''A'', EStr ''AAAA''])))"

theorem view_parse_render_witness:
  "view_parse plain_view ''( port ( ) == 53 || do ( ) ) && ! ( type ( ) in [ 'A' , 'AAAA' ] ) '' = Some (Inr split_view)"
proof -
  have n: "show_nat 53 = ''53''" by (simp add: show_nat.simps digit_char_def char_of_def bit_0)
  have "num_text nat_num 53" using parse_show_nat [of 53 65535] by (simp add: num_text_def nat_num_def n is_ascii_digit_def num_char_def)
  then have p: "printable (ve_num plain_view) split_view"
    by (simp add: split_view_def plain_view_def prec_def FUNCS_def)
  have v: "validate (ve_regex plain_view) split_view = Inr ()" by (simp add: split_view_def plain_view_def FUNCS_def)
  from view_parse_render [OF p v] show ?thesis
    by (simp add: render_def split_view_def plain_view_def nat_num_def n Let_def prec_def str_escape_def)
qed

end
