(* ===== verification/Zone_Transfer.thy ===== *)
theory Zone_Transfer
  imports Zone Block_Setup Replacer
begin

text \<open>
  The plugins around a zone's records: \<open>file\<close> (\<open>src/plugins/file/mod.rs\<close>) serves zones from files,
  \<open>transfer\<close> (\<open>src/plugins/transfer.rs\<close>) sends them out, \<open>secondary\<close> (\<open>src/plugins/secondary.rs\<close>)
  copies them from a primary and keeps them fresh.

  Files, the parser of zone files, sockets, the clock, random numbers and the encoded length of a
  record are arguments. The zones behind \<open>ArcSwap\<close> and the flags behind atomics are parts of the shared
  state. The handlers \<open>transfer\<close> takes records from are wired to it after the setup; here they are its
  sources. The refresh task of a secondary zone is a state machine whose states are the places where it
  waits.

  Shown here: the messages of a transfer carry the records between two copies of the SOA record, within
  the size limit; the zone a secondary builds from them holds the same record sets and serial;
  serials are compared as RFC 1982 asks, around the wrap; a zone whose check fails
  at or after its expiry time is not served until a check is good.
\<close>

section \<open>file\<close>

record file_zone =
  fz_origin :: string
  fz_path :: string
  fz_loaded :: zone

record file_plugin =
  fp_zones :: "file_zone list"
  fp_names :: "string list"

text \<open>\<open>fl_stored\<close> is what the reload task has stored for the zone at a position, when it has.\<close>

record 's file_env =
  fl_zone_env :: "'s zone_env"
  fl_stored :: "nat \<Rightarrow> 's \<Rightarrow> zone option"
  fl_store :: "nat \<Rightarrow> zone \<Rightarrow> 's \<Rightarrow> 's"
  fl_notify :: "string \<Rightarrow> 's \<Rightarrow> 's"
  fl_read :: "string \<Rightarrow> string res"
  fl_parse :: "string \<Rightarrow> string \<Rightarrow> zone res"
  fl_parse_duration :: "string \<Rightarrow> nat res"
  fl_spawn :: "(nat \<times> file_zone \<times> nat) list \<Rightarrow> 's hook"
  fl_cancel :: "'s hook"

fun find_index :: "('a \<Rightarrow> bool) \<Rightarrow> 'a list \<Rightarrow> nat option" where
  "find_index p [] = None"
| "find_index p (x # xs) = (if p x then Some 0 else map_option Suc (find_index p xs))"

definition file_current :: "'s file_env \<Rightarrow> file_plugin \<Rightarrow> nat \<Rightarrow> 's \<Rightarrow> zone" where
  "file_current env f i s = (case fl_stored env i s of Some z \<Rightarrow> z | None \<Rightarrow> fz_loaded (fp_zones f ! i))"

definition file_find :: "file_plugin \<Rightarrow> string \<Rightarrow> nat option" where
  "file_find f qn =
     (case zones_match (fp_names f) qn of
        None \<Rightarrow> None
      | Some z \<Rightarrow> find_index (\<lambda>fz. fz_origin fz = z) (fp_zones f))"

definition file_transfer :: "'s file_env \<Rightarrow> file_plugin \<Rightarrow> string \<Rightarrow> 's \<Rightarrow> rr list option" where
  "file_transfer env f zn s =
     map_option (\<lambda>i. all_records (file_current env f i s)) (find_index (\<lambda>fz. fz_origin fz = zn) (fp_zones f))"

definition file_serve :: "'s file_env \<Rightarrow> file_plugin \<Rightarrow> 's handler" where
  "file_serve env f req nx s =
     (case req_name req of (qn, req1) \<Rightarrow>
        (case file_find f qn of
           None \<Rightarrow> nx_serve nx req1 s
         | Some i \<Rightarrow>
             if m_opcode (rq_msg req1) = OpNotify then (Replied (RMsg (new_reply req1)), req1, s)
             else (case zone_lookup (fl_zone_env env) (file_current env f i s) req1 True s of
                 (m, s1) \<Rightarrow> (Replied (RMsg m), req1, s1))))"

definition file_load :: "'s file_env \<Rightarrow> string \<Rightarrow> string \<Rightarrow> zone res" where
  "file_load env path origin =
     (case fl_read env path of
        Inl e \<Rightarrow> Inl (''opening '' @ path @ '': '' @ e)
      | Inr t \<Rightarrow> fl_parse env t origin)"

definition file_line :: "(string \<Rightarrow> nat res) \<Rightarrow> (string \<Rightarrow> err) \<Rightarrow> err \<Rightarrow> string \<Rightarrow> string list \<Rightarrow> nat \<Rightarrow> nat res" where
  "file_line parse_duration ef arg_e v a reload =
     (if v = ''reload'' then (if length a \<noteq> 1 then Inl arg_e else parse_duration (hd a))
      else if v = ''upstream'' then Inr reload
      else Inl (ef (''unknown property '' @ quote v)))"

definition file_property :: "(string \<Rightarrow> nat res) \<Rightarrow> nat \<Rightarrow> 's controller \<Rightarrow> nat res \<times> 's controller" where
  "file_property parse_duration = line_property (\<lambda>v. v = ''reload'' \<or> v = ''upstream'') (file_line parse_duration)"

text \<open>The zones loaded so far and those to watch, with their reload interval.\<close>

fun file_origins ::
    "'s file_env \<Rightarrow> string \<Rightarrow> nat \<Rightarrow> string list \<Rightarrow> file_zone list \<times> (nat \<times> file_zone \<times> nat) list
     \<Rightarrow> (file_zone list \<times> (nat \<times> file_zone \<times> nat) list) res" where
  "file_origins env path reload [] st = Inr st"
| "file_origins env path reload (o1 # os) (zs, watched) =
     (case file_load env path o1 of
        Inl e \<Rightarrow> Inl e
      | Inr z \<Rightarrow>
          (let fz = \<lparr>fz_origin = o1, fz_path = path, fz_loaded = z\<rparr> in
           file_origins env path reload os
             (zs @ [fz], if reload \<noteq> 0 then watched @ [(length zs, fz, reload)] else watched)))"

definition file_body ::
    "(string \<Rightarrow> dname res) \<Rightarrow> 'net ipnet_api \<Rightarrow> 's file_env \<Rightarrow> file_zone list \<times> (nat \<times> file_zone \<times> nat) list \<Rightarrow> 's controller
     \<Rightarrow> (file_zone list \<times> (nat \<times> file_zone \<times> nat) list) res \<times> 's controller" where
  "file_body from_ascii api env st c =
     (case ctl_disp remaining_args_until_brace c of (as, c1) \<Rightarrow>
        (case as of
           [] \<Rightarrow> (Inl (ctl_arg_err c1), c1)
         | f # rest \<Rightarrow>
             (let path = path_join (sc_root (ct_config c1)) f in
              case controller_origins from_ascii api c1 rest of
                Inl e \<Rightarrow> (Inl e, c1)
              | Inr origins \<Rightarrow>
                  (case block_loop (file_property (fl_parse_duration env)) (60 * SECOND) c1 of
                     (Inl e, c2) \<Rightarrow> (Inl e, c2)
                   | (Inr reload, c2) \<Rightarrow>
                       (case file_origins env path reload origins st of
                          Inl e \<Rightarrow> (Inl (ctl_errf c2 e), c2)
                        | Inr st' \<Rightarrow> (Inr st', c2))))))"

definition file_setup :: "(string \<Rightarrow> dname res) \<Rightarrow> 'net ipnet_api \<Rightarrow> 's file_env \<Rightarrow> 's setup_fn" where
  "file_setup from_ascii api env c =
     (case next_loop (file_body from_ascii api env) ([], []) c of
        (Inl e, c1) \<Rightarrow> (Inl e, c1)
      | (Inr (zs, watched), c1) \<Rightarrow>
          (let c2 = add_plugin (''file'', file_serve env \<lparr>fp_zones = zs, fp_names = map fz_origin zs\<rparr>) c1 in
           (Inr (), if watched = [] then c2 else on_shutdown (fl_cancel env) (on_startup (fl_spawn env watched) c2))))"

text \<open>A round of the task that watches a zone: its last modification time, the present one, the shared state.\<close>

definition file_tick :: "'s file_env \<Rightarrow> file_plugin \<Rightarrow> nat \<Rightarrow> nat option \<Rightarrow> nat option \<times> 's \<Rightarrow> nat option \<times> 's" where
  "file_tick env f i mtime st =
     (case st of (last_mtime, s) \<Rightarrow>
        if mtime = last_mtime then (last_mtime, s)
        else (mtime,
          (case file_load env (fz_path (fp_zones f ! i)) (fz_origin (fp_zones f ! i)) of
             Inr z \<Rightarrow>
               if zn_serial z \<noteq> zn_serial (file_current env f i s)
               then fl_notify env (fz_origin (fp_zones f ! i)) (fl_store env i z s) else s
           | Inl _ \<Rightarrow> s)))"

section \<open>transfer\<close>

definition MSG_LIMIT :: nat where "MSG_LIMIT = 60000"

record 's transfer =
  tf_zones :: "string list"
  tf_to :: "socket_addr list"
  tf_any :: bool
  tf_sources :: "(string \<Rightarrow> 's \<Rightarrow> rr list option) list"

definition transfer_allowed :: "'s transfer \<Rightarrow> ip_addr \<Rightarrow> bool" where
  "transfer_allowed t ip \<longleftrightarrow> tf_any t \<or> list_ex (\<lambda>a. sa_ip a = ip) (tf_to t)"

definition transfer_records :: "'s transfer \<Rightarrow> string \<Rightarrow> 's \<Rightarrow> rr list option" where
  "transfer_records t zn s = first (List.map_filter (\<lambda>h. h zn s) (tf_sources t))"

definition serial_of :: "rr list \<Rightarrow> u32 option" where
  "serial_of rs = first (List.map_filter soa_serial_of rs)"

text \<open>A fresh message of a transfer: authoritative, without EDNS.\<close>

definition xfr_reply :: "request \<Rightarrow> message" where
  "xfr_reply req = (new_reply req)\<lparr>m_authoritative := True, m_edns := None\<rparr>"

type_synonym packing = "message \<times> nat \<times> message list"

definition xfr_push :: "(rr \<Rightarrow> nat) \<Rightarrow> request \<Rightarrow> packing \<Rightarrow> rr \<Rightarrow> packing" where
  "xfr_push rr_len req st r =
     (case st of (cur, sz, out) \<Rightarrow>
        if sz + rr_len r > MSG_LIMIT \<and> m_answers cur \<noteq> []
        then (add_answer r (xfr_reply req), 12 + 64 + rr_len r, out @ [cur])
        else (add_answer r cur, sz + rr_len r, out))"

fun remove_first :: "('a \<Rightarrow> bool) \<Rightarrow> 'a list \<Rightarrow> ('a \<times> 'a list) option" where
  "remove_first p [] = None"
| "remove_first p (x # xs) = (if p x then Some (x, xs) else map_option (apsnd ((#) x)) (remove_first p xs))"

definition strip_questions :: "message list \<Rightarrow> message list" where
  "strip_questions ms = (case ms of [] \<Rightarrow> [] | m # rest \<Rightarrow> m # map (\<lambda>m. m\<lparr>m_queries := []\<rparr>) rest)"

definition build_messages :: "(rr \<Rightarrow> nat) \<Rightarrow> request \<Rightarrow> rr list \<Rightarrow> message list" where
  "build_messages rr_len req records =
     (case remove_first (\<lambda>r. rr_type r = RT_SOA) records of
        None \<Rightarrow> []
      | Some (soa, rest) \<Rightarrow>
          (case foldl (xfr_push rr_len req) (xfr_reply req, 12 + 64, []) (soa # rest @ [soa]) of
             (cur, _, out) \<Rightarrow> strip_questions (out @ [cur])))"

definition with_soa :: "rr list \<Rightarrow> message \<Rightarrow> message" where
  "with_soa records m =
     (case first (filter (\<lambda>r. rr_type r = RT_SOA) records) of Some soa \<Rightarrow> add_answer soa m | None \<Rightarrow> m)"

definition transfer_serve :: "(rr \<Rightarrow> nat) \<Rightarrow> 's transfer \<Rightarrow> 's handler" where
  "transfer_serve rr_len t req nx s =
     (if qtype req \<noteq> RT_AXFR \<and> qtype req \<noteq> RT_IXFR then nx_serve nx req s
      else (case req_name req of (qn, req1) \<Rightarrow>
        (case zones_match (tf_zones t) qn of
           None \<Rightarrow> nx_serve nx req1 s
         | Some zn \<Rightarrow>
             if zn \<noteq> qn then nx_serve nx req1 s
             else if \<not> transfer_allowed t (req_ip req1)
             then (Replied (RMsg ((new_reply req1)\<lparr>m_rcode := Refused\<rparr>)), req1, s)
             else (case transfer_records t zn s of
                 None \<Rightarrow> nx_serve nx req1 s
               | Some records \<Rightarrow>
                   (let same = (qtype req1 = RT_IXFR \<and> (case (serial_of (m_name_servers (rq_msg req1)), serial_of records) of
                           (Some cs, Some ours) \<Rightarrow> cs = ours | _ \<Rightarrow> False));
                        m = (new_reply req1)\<lparr>m_authoritative := True\<rparr> in
                    if same then (Replied (RMsg (with_soa records m)), req1, s)
                    else if rq_proto req1 = Udp then (Replied (RMsg (with_soa records (m\<lparr>m_truncated := True\<rparr>))), req1, s)
                    else (Replied (RMulti (build_messages rr_len req1 records)), req1, s))))))"

text \<open>NOTIFY: the targets of the live instances that have the zone, and the message.\<close>

definition notify_targets :: "'s transfer list \<Rightarrow> string \<Rightarrow> socket_addr list" where
  "notify_targets live zone0 =
     (let zn = fqdn zone0 in concat (map tf_to (filter (\<lambda>t. zones_match (tf_zones t) zn = Some zn) live)))"

definition notify_message :: "u16 \<Rightarrow> dname \<Rightarrow> message" where
  "notify_message i n = add_query \<lparr>q_name = n, q_type = RT_SOA, q_class = DC_IN\<rparr>
     (message_new\<lparr>m_id := i, m_opcode := OpNotify, m_type := MtQuery, m_authoritative := True\<rparr>)"

record transfer_options =
  to_addrs :: "socket_addr list"
  to_any :: bool
  to_seen :: bool

fun transfer_hosts :: "(string \<Rightarrow> err) \<Rightarrow> string list \<Rightarrow> transfer_options \<Rightarrow> transfer_options res" where
  "transfer_hosts ef [] opts = Inr opts"
| "transfer_hosts ef (h # hs) opts =
     (if h = ''*'' then transfer_hosts ef hs (opts\<lparr>to_any := True\<rparr>)
      else rbind (host_port h 53) (\<lambda>hp.
           rbind (ok_or (ef (''to: '' @ h @ '' is not an IP address'')) (parse_socket_addr hp)) (\<lambda>sa.
           transfer_hosts ef hs (opts\<lparr>to_addrs := to_addrs opts @ [sa]\<rparr>))))"

definition transfer_line ::
    "(string \<Rightarrow> err) \<Rightarrow> err \<Rightarrow> string \<Rightarrow> string list \<Rightarrow> transfer_options \<Rightarrow> transfer_options res" where
  "transfer_line ef arg_e v a opts =
     (if v = ''to'' then (if a = [] then Inl arg_e else transfer_hosts ef a (opts\<lparr>to_seen := True\<rparr>))
      else Inl (ef (''unknown property '' @ quote v)))"

definition transfer_property :: "transfer_options \<Rightarrow> 's controller \<Rightarrow> transfer_options res \<times> 's controller" where
  "transfer_property = line_property (\<lambda>v. v = ''to'') transfer_line"

definition transfer_body ::
    "(string \<Rightarrow> dname res) \<Rightarrow> 'net ipnet_api \<Rightarrow> (rr \<Rightarrow> nat) \<Rightarrow> (string \<Rightarrow> 's \<Rightarrow> rr list option) list \<Rightarrow> unit \<Rightarrow> 's controller
     \<Rightarrow> unit res \<times> 's controller" where
  "transfer_body from_ascii api rr_len sources u c =
     (case ctl_disp remaining_args_until_brace c of (as, c1) \<Rightarrow>
        (case controller_origins from_ascii api c1 as of
           Inl e \<Rightarrow> (Inl e, c1)
         | Inr zs \<Rightarrow>
             (case block_loop transfer_property \<lparr>to_addrs = [], to_any = False, to_seen = False\<rparr> c1 of
                (Inl e, c2) \<Rightarrow> (Inl e, c2)
              | (Inr opts, c2) \<Rightarrow>
                  if \<not> to_seen opts then (Inl (ctl_errf c2 (quote ''to'' @ '' is required'')), c2)
                  else (Inr (), add_plugin (''transfer'', transfer_serve rr_len
                         \<lparr>tf_zones = zs, tf_to = to_addrs opts, tf_any = to_any opts, tf_sources = sources\<rparr>) c2))))"

definition transfer_setup ::
    "(string \<Rightarrow> dname res) \<Rightarrow> 'net ipnet_api \<Rightarrow> (rr \<Rightarrow> nat) \<Rightarrow> (string \<Rightarrow> 's \<Rightarrow> rr list option) list \<Rightarrow> 's setup_fn" where
  "transfer_setup from_ascii api rr_len sources = next_loop (transfer_body from_ascii api rr_len sources) ()"

section \<open>secondary\<close>

record sec_zone =
  sz_origin :: string
  sz_primaries :: "socket_addr list"

text \<open>The transferred zone, whether it has expired, and the permit that a NOTIFY leaves.\<close>

record sec_state =
  ss_zone :: "zone option"
  ss_expired :: bool
  ss_kick :: bool

definition sec_state_new :: sec_state where
  "sec_state_new = \<lparr>ss_zone = None, ss_expired = False, ss_kick = False\<rparr>"

text \<open>
  \<open>sn_open\<close> connects to a primary and sends it a query: the messages that come back in order, each read
  or failed to be read, and the error of the stream after them. \<open>sn_exchange\<close> is one exchange over TCP.
\<close>

record 's sec_env =
  sn_get :: "nat \<Rightarrow> 's \<Rightarrow> sec_state"
  sn_put :: "nat \<Rightarrow> sec_state \<Rightarrow> 's \<Rightarrow> 's"
  sn_open :: "socket_addr \<Rightarrow> message \<Rightarrow> 's \<Rightarrow> (message res list \<times> err) res \<times> 's"
  sn_exchange :: "socket_addr \<Rightarrow> message \<Rightarrow> 's \<Rightarrow> message res \<times> 's"
  sn_show :: "socket_addr \<Rightarrow> string"
  sn_from_ascii :: "string \<Rightarrow> dname res"
  sn_random_id :: "'s \<Rightarrow> u16"
  sn_now :: "'s \<Rightarrow> nat"
  sn_zone_env :: "'s zone_env"
  sn_notify :: "string \<Rightarrow> 's \<Rightarrow> 's"
  sn_spawn :: "sec_zone list \<Rightarrow> 's hook"
  sn_cancel :: "'s hook"

definition query_message :: "u16 \<Rightarrow> dname \<Rightarrow> rtype \<Rightarrow> message" where
  "query_message i n t = add_query \<lparr>q_name = n, q_type = t, q_class = DC_IN\<rparr> (message_new\<lparr>m_id := i\<rparr>)"

text \<open>The answers of a message up to the second SOA record: whether it came, the records, the SOA records seen.\<close>

fun axfr_answers :: "nat \<Rightarrow> rr list \<Rightarrow> rr list \<Rightarrow> bool \<times> rr list \<times> nat" where
  "axfr_answers seen acc [] = (False, acc, seen)"
| "axfr_answers seen acc (r # rs) =
     (if rr_type r = RT_SOA then
        (if seen + 1 = 2 then (True, acc, 2) else axfr_answers (seen + 1) (acc @ [r]) rs)
      else axfr_answers seen (acc @ [r]) rs)"

fun axfr_read :: "string \<Rightarrow> err \<Rightarrow> nat \<Rightarrow> rr list \<Rightarrow> message res list \<Rightarrow> rr list res" where
  "axfr_read p eof seen acc [] = Inl eof"
| "axfr_read p eof seen acc (Inl e # ms) = Inl e"
| "axfr_read p eof seen acc (Inr m # ms) =
     (if m_rcode m \<noteq> NoError then Inl (''axfr from '' @ p @ '': '' @ rcode_str (m_rcode m))
      else (case axfr_answers seen acc (m_answers m) of
          (True, acc', _) \<Rightarrow> Inr acc'
        | (False, acc', seen') \<Rightarrow>
            if m_answers m = [] then Inl (''axfr from '' @ p @ '': empty message before final SOA'')
            else axfr_read p eof seen' acc' ms))"

definition axfr :: "'s sec_env \<Rightarrow> socket_addr \<Rightarrow> string \<Rightarrow> 's \<Rightarrow> rr list res \<times> 's" where
  "axfr env p origin s =
     (case sn_from_ascii env origin of
        Inl e \<Rightarrow> (Inl e, s)
      | Inr n \<Rightarrow>
          (case sn_open env p (query_message (sn_random_id env s) n RT_AXFR) s of
             (Inl e, s1) \<Rightarrow> (Inl e, s1)
           | (Inr (ms, eof), s1) \<Rightarrow> (axfr_read (sn_show env p) eof 0 [] ms, s1)))"

definition primary_serial :: "'s sec_env \<Rightarrow> socket_addr \<Rightarrow> string \<Rightarrow> 's \<Rightarrow> u32 res \<times> 's" where
  "primary_serial env p origin s =
     (case sn_from_ascii env origin of
        Inl e \<Rightarrow> (Inl e, s)
      | Inr n \<Rightarrow>
          (case sn_exchange env p (query_message (sn_random_id env s) n RT_SOA) s of
             (Inl e, s1) \<Rightarrow> (Inl e, s1)
           | (Inr m, s1) \<Rightarrow>
               (if m_rcode m \<noteq> NoError then Inl (''soa query to '' @ sn_show env p @ '': '' @ rcode_str (m_rcode m))
                else ok_or (''no SOA in answer from '' @ sn_show env p) (serial_of (m_answers m)), s1)))"

definition serial_less :: "u32 \<Rightarrow> u32 \<Rightarrow> bool" where
  "serial_less a b = (if a < b then b - a \<le> 2147483647 else a - b > 2147483647)"

fun transfer_in :: "'s sec_env \<Rightarrow> nat \<Rightarrow> string \<Rightarrow> err option \<Rightarrow> socket_addr list \<Rightarrow> 's \<Rightarrow> unit res \<times> 's" where
  "transfer_in env i origin last_err [] s = (Inl (case last_err of Some e \<Rightarrow> e | None \<Rightarrow> ''no primaries''), s)"
| "transfer_in env i origin last_err (p # ps) s =
     (case axfr env p origin s of
        (Inl e, s1) \<Rightarrow> transfer_in env i origin (Some e) ps s1
      | (Inr records, s1) \<Rightarrow>
          (case from_records (sn_zone_env env) origin records of
             Inl e \<Rightarrow> (Inl e, s1)
           | Inr z \<Rightarrow> (Inr (), sn_notify env origin (sn_put env i ((sn_get env i s1)\<lparr>ss_zone := Some z, ss_expired := False\<rparr>) s1))))"

fun should_transfer :: "'s sec_env \<Rightarrow> nat \<Rightarrow> string \<Rightarrow> u32 option \<Rightarrow> err option \<Rightarrow> socket_addr list \<Rightarrow> 's \<Rightarrow> bool res \<times> 's" where
  "should_transfer env i origin cur last_err [] s = (Inl (case last_err of Some e \<Rightarrow> e | None \<Rightarrow> ''no primaries''), s)"
| "should_transfer env i origin cur last_err (p # ps) s =
     (case primary_serial env p origin s of
        (Inl e, s1) \<Rightarrow> should_transfer env i origin cur (Some e) ps s1
      | (Inr sr, s1) \<Rightarrow>
          (Inr (case cur of None \<Rightarrow> True | Some c \<Rightarrow> serial_less c sr \<or> ss_expired (sn_get env i s1)), s1))"

record timers =
  tm_refresh :: nat
  tm_retry :: nat
  tm_expire :: nat

text \<open>The fields of a SOA record are signed there; less than a second counts as one.\<close>

definition timer_secs :: "u32 \<Rightarrow> nat" where
  "timer_secs v = nat (max (sint v) 1) * SECOND"

definition sec_timers :: "sec_state \<Rightarrow> timers" where
  "sec_timers st =
     (case Option.bind (Option.bind (ss_zone st) zone_soa) rr_data of
        Some (RD_SOA d) \<Rightarrow> \<lparr>tm_refresh = timer_secs (soa_refresh d), tm_retry = timer_secs (soa_retry d), tm_expire = timer_secs (soa_expire d)\<rparr>
      | _ \<Rightarrow> \<lparr>tm_refresh = timer_secs 3600, tm_retry = timer_secs 600, tm_expire = timer_secs 604800\<rparr>)"

text \<open>
  The places where the task waits: after a failed first transfer, with the delay before the next one,
  and in the refresh loop, with the time of the last good check, whether the last one failed and the
  timers read before waiting. It wakes up when it is cancelled or when its sleep is over or a NOTIFY came.
\<close>

datatype sec_phase = Initial nat | Refreshing nat bool timers | Stopped

datatype wake = Cancelled | Due

definition sec_refreshing :: "'s sec_env \<Rightarrow> nat \<Rightarrow> nat \<Rightarrow> bool \<Rightarrow> 's \<Rightarrow> sec_phase" where
  "sec_refreshing env i last_good failing s = Refreshing last_good failing (sec_timers (sn_get env i s))"

definition sec_initial :: "'s sec_env \<Rightarrow> nat \<Rightarrow> sec_zone \<Rightarrow> nat \<Rightarrow> 's \<Rightarrow> sec_phase \<times> 's" where
  "sec_initial env i z backoff s =
     (case transfer_in env i (sz_origin z) None (sz_primaries z) s of
        (Inr _, s1) \<Rightarrow> (sec_refreshing env i (sn_now env s1) False s1, s1)
      | (Inl _, s1) \<Rightarrow> (Initial backoff, s1))"

definition sec_check :: "'s sec_env \<Rightarrow> nat \<Rightarrow> sec_zone \<Rightarrow> 's \<Rightarrow> bool \<times> 's" where
  "sec_check env i z s =
     (case should_transfer env i (sz_origin z) (map_option zn_serial (ss_zone (sn_get env i s))) None (sz_primaries z) s of
        (Inr True, s1) \<Rightarrow> (case transfer_in env i (sz_origin z) None (sz_primaries z) s1 of (r, s2) \<Rightarrow> (is_ok r, s2))
      | (Inr False, s1) \<Rightarrow> (True, s1)
      | (Inl _, s1) \<Rightarrow> (False, s1))"

fun sec_wake :: "'s sec_env \<Rightarrow> nat \<Rightarrow> sec_zone \<Rightarrow> wake \<Rightarrow> sec_phase \<times> 's \<Rightarrow> sec_phase \<times> 's" where
  "sec_wake env i z Cancelled (ph, s) = (Stopped, s)"
| "sec_wake env i z Due (Stopped, s) = (Stopped, s)"
| "sec_wake env i z Due (Initial backoff, s) = sec_initial env i z (min (2 * backoff) (10 * SECOND)) s"
| "sec_wake env i z Due (Refreshing last_good failing tm, s) =
     (case sec_check env i z s of (good, s1) \<Rightarrow>
        if good then (sec_refreshing env i (sn_now env s1) False s1, s1)
        else (let s2 = (if sn_now env s1 - last_good \<ge> tm_expire tm
                        then sn_put env i ((sn_get env i s1)\<lparr>ss_expired := True\<rparr>) s1 else s1) in
          (sec_refreshing env i last_good True s2, s2)))"

definition sec_start :: "'s sec_env \<Rightarrow> nat \<Rightarrow> sec_zone \<Rightarrow> 's \<Rightarrow> sec_phase \<times> 's" where
  "sec_start env i z s = sec_initial env i z 250000000 s"

text \<open>How long it waits, for random numbers drawn below 2000 and 5000 milliseconds.\<close>

fun sec_wait :: "nat \<Rightarrow> nat \<Rightarrow> sec_phase \<Rightarrow> nat" where
  "sec_wait j2 j5 (Initial backoff) = backoff"
| "sec_wait j2 j5 (Refreshing _ failing tm) = (if failing then tm_retry tm + j2 else tm_refresh tm + j5)"
| "sec_wait j2 j5 Stopped = 0"

definition secondary_transfer :: "'s sec_env \<Rightarrow> sec_zone list \<Rightarrow> string \<Rightarrow> 's \<Rightarrow> rr list option" where
  "secondary_transfer env zs zn s =
     (case find_index (\<lambda>z. sz_origin z = zn) zs of
        None \<Rightarrow> None
      | Some i \<Rightarrow> if ss_expired (sn_get env i s) then None else map_option all_records (ss_zone (sn_get env i s)))"

definition secondary_serve :: "'s sec_env \<Rightarrow> sec_zone list \<Rightarrow> 's handler" where
  "secondary_serve env zs req nx s =
     (case req_name req of (qn, req1) \<Rightarrow>
        (case Option.bind (zones_match (map sz_origin zs) qn) (\<lambda>zn. find_index (\<lambda>z. sz_origin z = zn) zs) of
           None \<Rightarrow> nx_serve nx req1 s
         | Some i \<Rightarrow>
             let st = sn_get env i s; fail = (Replied (RMsg ((new_reply req1)\<lparr>m_rcode := ServFail\<rparr>)), req1, s) in
             if m_opcode (rq_msg req1) = OpNotify then
               (Replied (RMsg (new_reply req1)), req1,
                if list_ex (\<lambda>p. sa_ip p = req_ip req1) (sz_primaries (zs ! i)) then sn_put env i (st\<lparr>ss_kick := True\<rparr>) s else s)
             else (case ss_zone st of
                 None \<Rightarrow> fail
               | Some zone \<Rightarrow>
                   if ss_expired st then fail
                   else (case zone_lookup (sn_zone_env env) zone req1 True s of (m, s1) \<Rightarrow> (Replied (RMsg m), req1, s1)))))"

fun sec_primaries :: "(string \<Rightarrow> err) \<Rightarrow> string list \<Rightarrow> socket_addr list \<Rightarrow> socket_addr list res" where
  "sec_primaries ef [] ps = Inr ps"
| "sec_primaries ef (h # hs) ps =
     rbind (host_port h 53) (\<lambda>hp.
     rbind (ok_or (ef (''primary '' @ h @ '' is not an IP address'')) (parse_socket_addr hp)) (\<lambda>sa.
     sec_primaries ef hs (ps @ [sa])))"

definition sec_line ::
    "(string \<Rightarrow> err) \<Rightarrow> err \<Rightarrow> string \<Rightarrow> string list \<Rightarrow> socket_addr list \<Rightarrow> socket_addr list res" where
  "sec_line ef arg_e v a ps =
     (if v = ''transfer'' then
        (if length a < 2 \<or> hd a \<noteq> ''from'' then Inl (ef ''transfer from ADDRESS... expected'') else sec_primaries ef (tl a) ps)
      else if v = ''upstream'' then Inr ps
      else Inl (ef (''unknown property '' @ quote v)))"

definition sec_property :: "socket_addr list \<Rightarrow> 's controller \<Rightarrow> socket_addr list res \<times> 's controller" where
  "sec_property = line_property (\<lambda>v. v = ''transfer'' \<or> v = ''upstream'') sec_line"

definition sec_body ::
    "(string \<Rightarrow> dname res) \<Rightarrow> 'net ipnet_api \<Rightarrow> sec_zone list \<Rightarrow> 's controller \<Rightarrow> sec_zone list res \<times> 's controller" where
  "sec_body from_ascii api zs c =
     (case ctl_disp remaining_args_until_brace c of (as, c1) \<Rightarrow>
        (case controller_origins from_ascii api c1 as of
           Inl e \<Rightarrow> (Inl e, c1)
         | Inr origins \<Rightarrow>
             (case block_loop sec_property [] c1 of
                (Inl e, c2) \<Rightarrow> (Inl e, c2)
              | (Inr ps, c2) \<Rightarrow>
                  if ps = [] then (Inl (ctl_errf c2 (''secondary: '' @ quote ''transfer from'' @ '' is required'')), c2)
                  else (Inr (zs @ map (\<lambda>o1. \<lparr>sz_origin = o1, sz_primaries = ps\<rparr>) origins), c2))))"

definition secondary_setup :: "(string \<Rightarrow> dname res) \<Rightarrow> 'net ipnet_api \<Rightarrow> 's sec_env \<Rightarrow> 's setup_fn" where
  "secondary_setup from_ascii api env c =
     (case next_loop (sec_body from_ascii api) [] c of
        (Inl e, c1) \<Rightarrow> (Inl e, c1)
      | (Inr zs, c1) \<Rightarrow>
          (Inr (), on_startup (sn_spawn env zs) (on_shutdown (sn_cancel env)
             (add_plugin (''secondary'', secondary_serve env zs) c1))))"

section \<open>The handlers and the setups keep their contracts\<close>

lemma file_keeps_id:
  assumes "keeps_id (nx_serve nx)"
  shows "keeps_id (\<lambda>req s. file_serve env f req nx s)"
proof -
  have named: "keeps_id (\<lambda>req s. nx_serve nx (snd (req_name req)) s)" by (rule keeps_id_same [OF assms]) simp
  show ?thesis
    using named by (auto simp: keeps_id_def file_serve_def case_prod_beta zone_lookup_id split: option.splits)
qed

interpretation file_handler: id_keeping_handler "file_serve env f"
  by unfold_locales (rule file_keeps_id)

lemma m_id_with_soa [simp]: "m_id (with_soa rs m) = m_id m"
  by (simp add: with_soa_def message_defs split: option.splits)

lemma transfer_keeps_id:
  assumes "keeps_id (nx_serve nx)"
  shows "keeps_id (\<lambda>req s. transfer_serve rr_len t req nx s)"
proof -
  have named: "keeps_id (\<lambda>req s. nx_serve nx (snd (req_name req)) s)" by (rule keeps_id_same [OF assms]) simp
  show ?thesis
    using named assms
    by (auto simp: keeps_id_def transfer_serve_def case_prod_beta Let_def split: option.splits)
qed

interpretation transfer_handler: id_keeping_handler "transfer_serve rr_len t"
  by unfold_locales (rule transfer_keeps_id)

lemma secondary_keeps_id:
  assumes "keeps_id (nx_serve nx)"
  shows "keeps_id (\<lambda>req s. secondary_serve env zs req nx s)"
proof -
  have named: "keeps_id (\<lambda>req s. nx_serve nx (snd (req_name req)) s)" by (rule keeps_id_same [OF assms]) simp
  show ?thesis
    using named by (auto simp: keeps_id_def secondary_serve_def case_prod_beta Let_def zone_lookup_id split: option.splits)
qed

interpretation secondary_handler: id_keeping_handler "secondary_serve env zs"
  by unfold_locales (rule secondary_keeps_id)

interpretation file_block: block_property "file_property parse_duration"
  unfolding file_property_def by (rule line_property_block) (simp add: file_line_def is_ok_def)

interpretation transfer_block: block_property transfer_property
  unfolding transfer_property_def by (rule line_property_block) (simp add: transfer_line_def is_ok_def)

interpretation sec_block: block_property sec_property
  unfolding sec_property_def by (rule line_property_block) (simp add: sec_line_def is_ok_def)

text \<open>A body that reads its arguments, then a block, and leaves the cursor after it.\<close>

lemma file_body_frame:
  assumes "file_body from_ascii api env st c = (r, c')"
  shows "appends_plugins c c'" "is_ok r \<Longrightarrow> left_over (ct_dispenser c') \<le> left_over (ct_dispenser c)"
proof -
  let ?pf = "file_property (fl_parse_duration env)"
  obtain as c1 where a: "ctl_disp remaining_args_until_brace c = (as, c1)"
    by (cases "ctl_disp remaining_args_until_brace c")
  obtain r2 c2 where b: "block_loop ?pf (60 * SECOND) c1 = (r2, c2)" by (cases "block_loop ?pf (60 * SECOND) c1")
  note st = args_block_steps [OF a file_block.block_property_axioms b]
  show "appends_plugins c c'"
    using assms a b st(1,2) by (auto simp: file_body_def Let_def split: list.splits sum.splits)
  show "left_over (ct_dispenser c') \<le> left_over (ct_dispenser c)" if "is_ok r"
    using assms a b st(3) that by (auto simp: file_body_def Let_def split: list.splits sum.splits)
qed

lemma transfer_body_frame:
  assumes "transfer_body from_ascii api rr_len sources u c = (r, c')"
  shows "appends_plugins c c'" "is_ok r \<Longrightarrow> left_over (ct_dispenser c') \<le> left_over (ct_dispenser c)"
proof -
  let ?op = "\<lparr>to_addrs = [], to_any = False, to_seen = False\<rparr>"
  obtain as c1 where a: "ctl_disp remaining_args_until_brace c = (as, c1)"
    by (cases "ctl_disp remaining_args_until_brace c")
  obtain r2 c2 where b: "block_loop transfer_property ?op c1 = (r2, c2)" by (cases "block_loop transfer_property ?op c1")
  note st = args_block_steps [OF a transfer_block.block_property_axioms b]
  show "appends_plugins c c'"
    using assms a b st(1,2) by (auto simp: transfer_body_def split: sum.splits if_splits intro: appends_steps)
  show "left_over (ct_dispenser c') \<le> left_over (ct_dispenser c)" if "is_ok r"
    using assms a b st(3) that by (auto simp: transfer_body_def add_plugin_def split: sum.splits if_splits)
qed

lemma sec_body_frame:
  assumes "sec_body from_ascii api zs c = (r, c')"
  shows "appends_plugins c c'" "is_ok r \<Longrightarrow> left_over (ct_dispenser c') \<le> left_over (ct_dispenser c)"
proof -
  obtain as c1 where a: "ctl_disp remaining_args_until_brace c = (as, c1)"
    by (cases "ctl_disp remaining_args_until_brace c")
  obtain r2 c2 where b: "block_loop sec_property [] c1 = (r2, c2)" by (cases "block_loop sec_property [] c1")
  note st = args_block_steps [OF a sec_block.block_property_axioms b]
  show "appends_plugins c c'"
    using assms a b st(1,2) by (auto simp: sec_body_def split: sum.splits if_splits)
  show "left_over (ct_dispenser c') \<le> left_over (ct_dispenser c)" if "is_ok r"
    using assms a b st(3) that by (auto simp: sec_body_def split: sum.splits if_splits)
qed

interpretation file_directive: directive_body "file_body from_ascii api env"
  by unfold_locales (auto dest: file_body_frame)

interpretation transfer_directive: directive_body "transfer_body from_ascii api rr_len sources"
  by unfold_locales (auto dest: transfer_body_frame)

interpretation sec_directive: directive_body "sec_body from_ascii api"
  by unfold_locales (auto dest: sec_body_frame)

interpretation file_setup: setup_function "file_setup from_ascii api env"
proof (rule setup_functionI)
  fix c r c'
  assume run: "file_setup from_ascii api env c = (r, c')"
  obtain r1 c1 where l: "next_loop (file_body from_ascii api env) ([], []) c = (r1, c1)"
    by (cases "next_loop (file_body from_ascii api env) ([], []) c")
  from file_directive.next_loop_appends [OF l] run l show "appends_plugins c c'"
    by (auto simp: file_setup_def Let_def split: sum.splits prod.splits if_splits intro: appends_steps)
qed

interpretation transfer_setup: setup_function "transfer_setup from_ascii api rr_len sources"
  by (rule setup_functionI) (auto simp: transfer_setup_def intro: transfer_directive.next_loop_appends)

interpretation secondary_setup: setup_function "secondary_setup from_ascii api env"
proof (rule setup_functionI)
  fix c r c'
  assume run: "secondary_setup from_ascii api env c = (r, c')"
  obtain r1 c1 where l: "next_loop (sec_body from_ascii api) [] c = (r1, c1)" by (cases "next_loop (sec_body from_ascii api) [] c")
  from sec_directive.next_loop_appends [OF l] run l show "appends_plugins c c'"
    by (auto simp: secondary_setup_def split: sum.splits intro: appends_steps)
qed

section \<open>The messages of a transfer\<close>

definition msg_size :: "(rr \<Rightarrow> nat) \<Rightarrow> message \<Rightarrow> nat" where
  "msg_size rr_len m = 12 + 64 + sum_list (map rr_len (m_answers m))"

text \<open>A message a transfer sends: it answers the request, has a record, and is within the limit or has only one.\<close>

definition xfr_message :: "(rr \<Rightarrow> nat) \<Rightarrow> request \<Rightarrow> message \<Rightarrow> bool" where
  "xfr_message rr_len req m \<longleftrightarrow>
     m_id m = m_id (rq_msg req) \<and> m_rcode m = NoError \<and> m_answers m \<noteq> [] \<and>
     (msg_size rr_len m \<le> MSG_LIMIT \<or> length (m_answers m) = 1)"

lemma xfr_reply_fields [simp]:
  "m_id (xfr_reply req) = m_id (rq_msg req)" "m_rcode (xfr_reply req) = NoError" "m_answers (xfr_reply req) = []"
  by (simp_all add: xfr_reply_def)

lemma xfr_push_state:
  assumes "xfr_push rr_len req (cur, sz, out) r = (cur', sz', out')"
    and "sz = msg_size rr_len cur" "m_id cur = m_id (rq_msg req)" "m_rcode cur = NoError"
    and "m_answers cur = [] \<or> xfr_message rr_len req cur" "\<forall>m \<in> set out. xfr_message rr_len req m"
  shows "sz' = msg_size rr_len cur'" "xfr_message rr_len req cur'" "\<forall>m \<in> set out'. xfr_message rr_len req m"
    "concat (map m_answers out') @ m_answers cur' = concat (map m_answers out) @ m_answers cur @ [r]"
  using assms
  by (auto simp: xfr_push_def xfr_message_def msg_size_def add_answer_def Suc_le_eq split: if_splits)

lemma xfr_push_all:
  assumes "foldl (xfr_push rr_len req) (cur, sz, out) rs = (cur', sz', out')" "rs \<noteq> []"
    and "sz = msg_size rr_len cur" "m_id cur = m_id (rq_msg req)" "m_rcode cur = NoError"
    and "m_answers cur = [] \<or> xfr_message rr_len req cur" "\<forall>m \<in> set out. xfr_message rr_len req m"
  shows "(\<forall>m \<in> set (out' @ [cur']). xfr_message rr_len req m) \<and>
    concat (map m_answers (out' @ [cur'])) = concat (map m_answers out) @ m_answers cur @ rs"
  using assms
proof (induction rs arbitrary: cur sz out)
  case (Cons r rs)
  obtain cur1 sz1 out1 where p: "xfr_push rr_len req (cur, sz, out) r = (cur1, sz1, out1)" by (metis prod.exhaust)
  note st = xfr_push_state [OF p Cons.prems(3-7)]
  show ?case
  proof (cases "rs = []")
    case True
    with Cons.prems(1) p st show ?thesis by auto
  next
    case False
    have "m_id cur1 = m_id (rq_msg req)" "m_rcode cur1 = NoError" using st(2) by (auto simp: xfr_message_def)
    with Cons.IH [of cur1 sz1 out1] Cons.prems(1) False p st show ?thesis by auto
  qed
qed simp

lemma strip_questions_fields:
  "map m_answers (strip_questions ms) = map m_answers ms"
  "(\<forall>m \<in> set (strip_questions ms). xfr_message rr_len req m) \<longleftrightarrow> (\<forall>m \<in> set ms. xfr_message rr_len req m)"
  by (cases ms; simp add: strip_questions_def xfr_message_def msg_size_def o_def)+

lemma build_messages_spec:
  assumes "remove_first (\<lambda>r. rr_type r = RT_SOA) records = Some (soa, rest)"
  shows "(\<forall>m \<in> set (build_messages rr_len req records). xfr_message rr_len req m) \<and>
    concat (map m_answers (build_messages rr_len req records)) = soa # rest @ [soa]"
proof -
  obtain cur sz out where f: "foldl (xfr_push rr_len req) (xfr_reply req, 12 + 64, []) (soa # rest @ [soa]) = (cur, sz, out)"
    by (metis prod.exhaust)
  have "(\<forall>m \<in> set (out @ [cur]). xfr_message rr_len req m) \<and> concat (map m_answers (out @ [cur])) = soa # rest @ [soa]"
    using xfr_push_all [OF f] by (simp add: msg_size_def)
  moreover have "build_messages rr_len req records = strip_questions (out @ [cur])"
    using assms f by (simp add: build_messages_def)
  ultimately show ?thesis using strip_questions_fields by metis
qed

text \<open>Reading them.\<close>

lemma axfr_answers_append:
  "axfr_answers seen acc (xs @ ys) =
     (case axfr_answers seen acc xs of (True, acc', n) \<Rightarrow> (True, acc', n) | (False, acc', n) \<Rightarrow> axfr_answers n acc' ys)"
  by (induction seen acc xs rule: axfr_answers.induct) auto

lemma axfr_read_messages:
  assumes "\<forall>m \<in> set ms. m_rcode m = NoError \<and> m_answers m \<noteq> []"
  shows "axfr_read p eof seen acc (map Inr ms) =
    (case axfr_answers seen acc (concat (map m_answers ms)) of (True, acc', _) \<Rightarrow> Inr acc' | _ \<Rightarrow> Inl eof)"
  using assms
  by (induction ms arbitrary: seen acc) (auto simp: axfr_answers_append split: prod.splits bool.splits)

lemma axfr_answers_no_soa:
  "\<forall>r \<in> set rs. rr_type r \<noteq> RT_SOA \<Longrightarrow> axfr_answers seen acc rs = (False, acc @ rs, seen)"
  by (induction rs arbitrary: acc) auto

lemma axfr_read_transfer:
  assumes "rr_type soa = RT_SOA" "\<forall>r \<in> set rest. rr_type r \<noteq> RT_SOA"
  shows "axfr_read p eof 0 [] (map Inr (build_messages rr_len req (soa # rest))) = Inr (soa # rest)"
proof -
  have rm: "remove_first (\<lambda>r. rr_type r = RT_SOA) (soa # rest) = Some (soa, rest)" using assms(1) by simp
  note b = build_messages_spec [OF rm, of rr_len req]
  have "\<forall>m \<in> set (build_messages rr_len req (soa # rest)). m_rcode m = NoError \<and> m_answers m \<noteq> []"
    using b by (simp add: xfr_message_def)
  from axfr_read_messages [OF this] b assms show ?thesis
    by (simp add: axfr_answers_append axfr_answers_no_soa)
qed

section \<open>A zone from its own records\<close>

text \<open>The signatures at a name, and which record goes where.\<close>

definition sigs_at :: "(string \<times> name_data) list \<Rightarrow> string \<Rightarrow> rtype \<Rightarrow> rr list" where
  "sigs_at names owner t =
     (case map_of names owner of None \<Rightarrow> [] | Some nd \<Rightarrow> unwrap_or [] (map_of (nd_rrsigs nd) t))"

definition covers :: "rtype \<Rightarrow> rr \<Rightarrow> bool" where
  "covers t r \<longleftrightarrow> (case rr_data r of Some (RD_RRSIG c _) \<Rightarrow> c = t | _ \<Rightarrow> False)"

definition set_member :: "string \<Rightarrow> string \<Rightarrow> rtype \<Rightarrow> rr \<Rightarrow> bool" where
  "set_member origin owner t r \<longleftrightarrow>
     is_subdomain origin owner \<and> name_str (rr_name r) = owner \<and> rr_type r = t \<and> \<not> is_rrsig r"

definition sig_member :: "string \<Rightarrow> string \<Rightarrow> rtype \<Rightarrow> rr \<Rightarrow> bool" where
  "sig_member origin owner t r \<longleftrightarrow> is_subdomain origin owner \<and> name_str (rr_name r) = owner \<and> covers t r"

lemma covers_rrsig: "covers t r \<Longrightarrow> is_rrsig r"
  by (auto simp: covers_def is_rrsig_def split: option.splits rdata.splits)

lemma sigs_at_add_record:
  assumes "sorted_keys names"
  shows "sigs_at (fst (add_record origin r (names, sg))) owner t =
    sigs_at names owner t @ (if sig_member origin owner t r then [r] else [])"
proof (cases "is_rrsig r")
  case True
  then obtain c d where r: "rr_data r = Some (RD_RRSIG c d)" by (auto simp: is_rrsig_def split: option.splits rdata.splits)
  with True assms show ?thesis
    by (auto simp: add_record_shape sigs_at_def sig_member_def covers_def map_of_upsert_sorted map_of_upsert
        name_data_default_def unwrap_or_def split: option.splits)
next
  case False
  with covers_rrsig [of t r] assms show ?thesis
    by (auto simp: add_record_shape sigs_at_def sig_member_def map_of_upsert_sorted name_data_default_def unwrap_or_def split: option.splits)
qed

text \<open>What the record sets are after some records, in terms of those records.\<close>

lemma sets_of_records:
  assumes "sorted_keys names"
  shows "rrset_at (fst (foldl (\<lambda>st r. add_record origin r st) (names, sg) rs)) owner t =
      foldl (\<lambda>acc r. add_rr r acc) (rrset_at names owner t) (filter (set_member origin owner t) rs) \<and>
    sigs_at (fst (foldl (\<lambda>st r. add_record origin r st) (names, sg) rs)) owner t =
      sigs_at names owner t @ filter (sig_member origin owner t) rs"
  using assms
proof (induction rs arbitrary: names sg)
  case (Cons r rs)
  obtain names' sg' where st: "add_record origin r (names, sg) = (names', sg')" by (metis prod.exhaust)
  have s: "sorted_keys names'" using add_record_sorted [OF Cons.prems, of origin r sg] st by simp
  from Cons.IH [OF s, of sg'] show ?case
    using rrset_at_add_record [OF Cons.prems, of origin r sg owner t] sigs_at_add_record [OF Cons.prems, of origin r sg owner t]
    by (auto simp: st set_member_def)
qed simp

lemma add_rr_distinct: "distinct (map rr_data acc) \<Longrightarrow> distinct (map rr_data (foldl (\<lambda>acc r. add_rr r acc) acc rs))"
proof (induction rs arbitrary: acc)
  case (Cons r rs)
  then have "distinct (map rr_data (add_rr r acc))" by (auto simp: add_rr_def list_ex_iff)
  with Cons.IH show ?case by simp
qed simp

lemma add_rr_all: "distinct (map rr_data (acc @ rs)) \<Longrightarrow> foldl (\<lambda>acc r. add_rr r acc) acc rs = acc @ rs"
proof (induction rs arbitrary: acc)
  case (Cons r rs)
  then have "add_rr r acc = acc @ [r]" by (auto simp: add_rr_def list_ex_iff image_iff)
  with Cons.IH [of "acc @ [r]"] Cons.prems show ?case by simp
qed simp

lemma add_rr_subset: "set (foldl (\<lambda>acc r. add_rr r acc) acc rs) \<subseteq> set acc \<union> set rs"
proof (induction rs arbitrary: acc)
  case (Cons r rs)
  have "set (add_rr r acc) \<subseteq> insert r (set acc)" by (auto simp: add_rr_def)
  with Cons.IH [of "add_rr r acc"] show ?case by auto
qed simp

text \<open>Every name has data, every set of it a record, and each type one set.\<close>

definition nd_ok :: "name_data \<Rightarrow> bool" where
  "nd_ok nd \<longleftrightarrow> distinct (map fst (nd_rrsets nd)) \<and> distinct (map fst (nd_rrsigs nd)) \<and>
     (\<forall>(t, rs) \<in> set (nd_rrsets nd). rs \<noteq> []) \<and> (\<forall>(t, rs) \<in> set (nd_rrsigs nd). rs \<noteq> []) \<and>
     (nd_rrsets nd \<noteq> [] \<or> nd_rrsigs nd \<noteq> [])"

lemma upsert_keys: "fst ` set (upsert k d f xs) = insert k (fst ` set xs)"
  by (induction k d f xs rule: upsert.induct) auto

lemma distinct_upsert: "distinct (map fst xs) \<Longrightarrow> distinct (map fst (upsert k d f xs))"
proof (induction k d f xs rule: upsert.induct)
  case (2 k d f j v xs)
  have "fst ` set (upsert k d f xs) = insert k (fst ` set xs)" by (rule upsert_keys)
  with 2 show ?case by auto
qed simp

lemma upsert_nonempty [simp]: "upsert k d f xs \<noteq> []"
  by (cases "(k, d, f, xs)" rule: upsert.cases) auto

lemma upsert_values: "\<forall>(j, v) \<in> set xs. P v \<Longrightarrow> P (f d) \<Longrightarrow> (\<And>v. P v \<Longrightarrow> P (f v)) \<Longrightarrow> \<forall>(j, v) \<in> set (upsert k d f xs). P v"
  by (induction k d f xs rule: upsert.induct) auto

lemma add_record_nd_ok:
  assumes "sorted_keys names" "\<forall>n nd. map_of names n = Some nd \<longrightarrow> nd_ok nd"
  shows "\<forall>n nd. map_of (fst (add_record origin r (names, sg))) n = Some nd \<longrightarrow> nd_ok nd"
proof -
  let ?old = "\<lambda>n. unwrap_or name_data_default (map_of names n)"
  have old: "distinct (map fst (nd_rrsets (?old n)))" "distinct (map fst (nd_rrsigs (?old n)))"
    "\<forall>(t, rs) \<in> set (nd_rrsets (?old n)). rs \<noteq> []" "\<forall>(t, rs) \<in> set (nd_rrsigs (?old n)). rs \<noteq> []" for n
    using assms(2) [rule_format, of n] by (cases "map_of names n"; simp add: nd_ok_def name_data_default_def unwrap_or_def)+
  let ?add = "\<lambda>rs. if list_ex (\<lambda>x. rr_data x = rr_data r) rs then rs else rs @ [r]"
  have vals: "\<forall>(t, rs) \<in> set (upsert k [] (\<lambda>v. v @ [r]) (nd_rrsigs (?old n))). rs \<noteq> []"
    "\<forall>(t, rs) \<in> set (upsert k [] ?add (nd_rrsets (?old n))). rs \<noteq> []" for n k
    using old(3,4) [of n] by (intro upsert_values [where P = "\<lambda>v. v \<noteq> []"]; simp)+
  have "nd_ok ((?old n)\<lparr>nd_rrsigs := upsert k [] (\<lambda>v. v @ [r]) (nd_rrsigs (?old n))\<rparr>)"
    "nd_ok ((?old n)\<lparr>nd_rrsets := upsert k [] ?add (nd_rrsets (?old n))\<rparr>)" for n k
    using old [of n] vals [of k n] by (simp_all add: nd_ok_def distinct_upsert)
  then show ?thesis
    using assms(2) by (simp add: add_record_shape map_of_upsert_sorted [OF assms(1)] del: upsert.simps)
qed

lemma add_records_nd_ok:
  assumes "sorted_keys names" "\<forall>n nd. map_of names n = Some nd \<longrightarrow> nd_ok nd"
  shows "\<forall>n nd. map_of (fst (foldl (\<lambda>st r. add_record origin r st) (names, sg) rs)) n = Some nd \<longrightarrow> nd_ok nd"
  using assms
proof (induction rs arbitrary: names sg)
  case (Cons r rs)
  obtain names' sg' where st: "add_record origin r (names, sg) = (names', sg')" by (metis prod.exhaust)
  have "sorted_keys names'" "\<forall>n nd. map_of names' n = Some nd \<longrightarrow> nd_ok nd"
    using add_record_sorted [OF Cons.prems(1), of origin r sg] add_record_nd_ok [OF Cons.prems, of origin r sg] st by auto
  from Cons.IH [OF this, of sg'] st show ?case by simp
qed simp

text \<open>The parts of a zone that was built from records.\<close>

lemma from_records_sets:
  assumes "from_records env origin recs = Inr z"
  shows "sorted_keys (zn_names z)" "\<forall>n nd. map_of (zn_names z) n = Some nd \<longrightarrow> nd_ok nd"
    "rrset_at (zn_names z) owner t = foldl (\<lambda>acc r. add_rr r acc) [] (filter (set_member (zn_origin z) owner t) recs)"
    "sigs_at (zn_names z) owner t = filter (sig_member (zn_origin z) owner t) recs"
proof -
  note p = from_records_parts [OF assms]
  show "sorted_keys (zn_names z)" using add_records [of "[]" "fqdn origin" False recs] p(2) by simp
  show "\<forall>n nd. map_of (zn_names z) n = Some nd \<longrightarrow> nd_ok nd" using add_records_nd_ok [of "[]" "fqdn origin" False recs] p(2) by simp
  show "rrset_at (zn_names z) owner t = foldl (\<lambda>acc r. add_rr r acc) [] (filter (set_member (zn_origin z) owner t) recs)"
    "sigs_at (zn_names z) owner t = filter (sig_member (zn_origin z) owner t) recs"
    using sets_of_records [of "[]" "fqdn origin" False recs owner t] p(1,2) by (simp_all add: rrset_at_def sigs_at_def)
qed

lemma rrset_member:
  assumes "from_records env origin recs = Inr z" "r \<in> set (rrset_at (zn_names z) owner t)"
  shows "set_member (zn_origin z) owner t r \<and> r \<in> set recs"
  using assms(2) add_rr_subset [of "[]" "filter (set_member (zn_origin z) owner t) recs"]
  by (auto simp: from_records_sets(3) [OF assms(1)])

lemma sorted_keys_distinct:
  fixes xs :: "('k::linorder \<times> 'v) list"
  shows "sorted_keys xs \<Longrightarrow> distinct (map fst xs)"
  by (simp add: strict_sorted_iff)

lemma covers_unique: "covers t r \<Longrightarrow> covers u r \<Longrightarrow> t = u"
  by (auto simp: covers_def split: option.splits rdata.splits)

lemma member_exclusive: "sig_member origin owner u r \<Longrightarrow> \<not> set_member origin owner t r"
  using covers_rrsig by (auto simp: sig_member_def set_member_def)

lemma member_unique:
  "set_member origin owner u r \<Longrightarrow> set_member origin owner t r \<Longrightarrow> u = t"
  "sig_member origin owner u r \<Longrightarrow> sig_member origin owner t r \<Longrightarrow> u = t"
  using covers_unique by (auto simp: sig_member_def set_member_def)

lemma zone_entry:
  assumes z: "from_records env origin recs = Inr z" and nd: "(n, nd) \<in> set (zn_names z)"
  shows "map_of (zn_names z) n = Some nd" "nd_ok nd"
    "(t, rs) \<in> set (nd_rrsets nd) \<Longrightarrow> rs = rrset_at (zn_names z) n t"
    "(t, rs) \<in> set (nd_rrsigs nd) \<Longrightarrow> rs = sigs_at (zn_names z) n t"
proof -
  show m: "map_of (zn_names z) n = Some nd"
    using nd from_records_sets(1) [OF z] sorted_keys_distinct by (intro map_of_is_SomeI) auto
  show ok: "nd_ok nd" using from_records_sets(2) [OF z] m by blast
  show "rs = rrset_at (zn_names z) n t" if "(t, rs) \<in> set (nd_rrsets nd)"
    using that ok m by (simp add: rrset_at_def nd_ok_def unwrap_or_def)
  show "rs = sigs_at (zn_names z) n t" if "(t, rs) \<in> set (nd_rrsigs nd)"
    using that ok m by (simp add: sigs_at_def nd_ok_def unwrap_or_def)
qed

lemma concat_map_unique:
  assumes "distinct (map fst xs)" "\<And>k v. (k, v) \<in> set xs \<Longrightarrow> k \<noteq> j \<Longrightarrow> h (k, v) = []"
  shows "concat (map h xs) = (case map_of xs j of None \<Rightarrow> [] | Some v \<Rightarrow> h (j, v))"
  using assms
proof (induction xs)
  case (Cons x xs)
  obtain k v where x: "x = (k, v)" by (cases x)
  have ih: "concat (map h xs) = (case map_of xs j of None \<Rightarrow> [] | Some v \<Rightarrow> h (j, v))" using Cons by (intro Cons.IH) auto
  have "map_of xs k = None" using Cons.prems(1) by (auto simp: x map_of_eq_None_iff)
  with ih Cons.prems(2) [of k v] show ?case by (cases "k = j") (auto simp: x)
qed simp

text \<open>The records of the sections of a name, and of them those of one set.\<close>

definition name_records :: "string \<Rightarrow> string \<times> name_data \<Rightarrow> rr list" where
  "name_records origin = (\<lambda>(name, nd).
     concat (map (\<lambda>(t, rs). if t = RT_SOA \<and> name = origin then [] else rs) (nd_rrsets nd)) @ concat (map snd (nd_rrsigs nd)))"

lemma all_records_alt:
  "all_records z = (case zone_soa z of Some soa \<Rightarrow> [soa] | None \<Rightarrow> []) @ concat (map (name_records (zn_origin z)) (zn_names z))"
  by (simp add: all_records_def name_records_def)

lemma name_records_owner:
  assumes z: "from_records env origin recs = Inr z" and n: "(n, nd) \<in> set (zn_names z)" and r: "r \<in> set (name_records (zn_origin z) (n, nd))"
  shows "is_subdomain (zn_origin z) n" "name_str (rr_name r) = n" "r \<in> set recs"
    "\<not> is_rrsig r \<Longrightarrow> r \<in> set (rrset_at (zn_names z) n (rr_type r)) \<and> \<not> (rr_type r = RT_SOA \<and> n = zn_origin z)"
proof -
  consider t rs where "(t, rs) \<in> set (nd_rrsets nd)" "r \<in> set rs" "\<not> (t = RT_SOA \<and> n = zn_origin z)"
    | t rs where "(t, rs) \<in> set (nd_rrsigs nd)" "r \<in> set rs"
    using r by (auto simp: name_records_def split: if_splits)
  then have "is_subdomain (zn_origin z) n \<and> name_str (rr_name r) = n \<and> r \<in> set recs \<and>
      (\<not> is_rrsig r \<longrightarrow> r \<in> set (rrset_at (zn_names z) n (rr_type r)) \<and> \<not> (rr_type r = RT_SOA \<and> n = zn_origin z))"
  proof cases
    case 1
    with zone_entry(3) [OF z n 1(1)] rrset_member [OF z, of r n t] show ?thesis by (auto simp: set_member_def)
  next
    case 2
    then have "r \<in> set (filter (sig_member (zn_origin z) n t) recs)"
      using zone_entry(4) [OF z n 2(1)] from_records_sets(4) [OF z, of n t] by simp
    then show ?thesis using covers_rrsig [of t r] by (auto simp: sig_member_def)
  qed
  then show "is_subdomain (zn_origin z) n" "name_str (rr_name r) = n" "r \<in> set recs"
    "\<not> is_rrsig r \<Longrightarrow> r \<in> set (rrset_at (zn_names z) n (rr_type r)) \<and> \<not> (rr_type r = RT_SOA \<and> n = zn_origin z)"
    by blast+
qed

lemma filter_name_records:
  assumes z: "from_records env origin recs = Inr z" and n: "(owner, nd) \<in> set (zn_names z)"
  shows "filter (set_member (zn_origin z) owner t) (name_records (zn_origin z) (owner, nd)) =
      (if t = RT_SOA \<and> owner = zn_origin z then [] else rrset_at (zn_names z) owner t)"
    "filter (sig_member (zn_origin z) owner t) (name_records (zn_origin z) (owner, nd)) = sigs_at (zn_names z) owner t"
proof -
  note e = zone_entry [OF z n]
  let ?sets = "\<lambda>(t, rs). if t = RT_SOA \<and> owner = zn_origin z then [] else rs"
  have mem: "set_member (zn_origin z) owner u r" if "(u, rs) \<in> set (nd_rrsets nd)" "r \<in> set rs" for u rs r
    using e(3) [OF that(1)] rrset_member [OF z] that(2) by blast
  have smem: "sig_member (zn_origin z) owner u r" if "(u, rs) \<in> set (nd_rrsigs nd)" "r \<in> set rs" for u rs r
    using e(4) [OF that(1)] from_records_sets(4) [OF z] that(2) by auto
  have d: "distinct (map fst (nd_rrsets nd))" "distinct (map fst (nd_rrsigs nd))" using e(2) by (auto simp: nd_ok_def)
  have none: "filter (set_member (zn_origin z) owner t) (concat (map snd (nd_rrsigs nd))) = []"
    "filter (sig_member (zn_origin z) owner t) (concat (map ?sets (nd_rrsets nd))) = []"
    using mem smem member_exclusive [of "zn_origin z" owner] by (auto simp: filter_empty_conv split: if_splits) blast+
  have "filter (set_member (zn_origin z) owner t) (concat (map ?sets (nd_rrsets nd))) =
      concat (map (\<lambda>p. filter (set_member (zn_origin z) owner t) (?sets p)) (nd_rrsets nd))"
    by (simp add: filter_concat o_def)
  also have "\<dots> = (case map_of (nd_rrsets nd) t of None \<Rightarrow> [] | Some rs \<Rightarrow> filter (set_member (zn_origin z) owner t) (?sets (t, rs)))"
    using mem member_unique(1) by (intro concat_map_unique [OF d(1)]) (auto simp: filter_empty_conv, blast+)
  also have "\<dots> = (if t = RT_SOA \<and> owner = zn_origin z then [] else rrset_at (zn_names z) owner t)"
    using mem [OF map_of_SomeD] by (auto simp: rrset_at_def e(1) unwrap_or_def filter_id_conv split: option.splits)
  finally show "filter (set_member (zn_origin z) owner t) (name_records (zn_origin z) (owner, nd)) =
      (if t = RT_SOA \<and> owner = zn_origin z then [] else rrset_at (zn_names z) owner t)"
    using none(1) by (simp add: name_records_def)
  have "filter (sig_member (zn_origin z) owner t) (concat (map snd (nd_rrsigs nd))) =
      concat (map (\<lambda>p. filter (sig_member (zn_origin z) owner t) (snd p)) (nd_rrsigs nd))"
    by (simp add: filter_concat o_def)
  also have "\<dots> = (case map_of (nd_rrsigs nd) t of None \<Rightarrow> [] | Some rs \<Rightarrow> filter (sig_member (zn_origin z) owner t) (snd (t, rs)))"
    using smem member_unique(2) by (intro concat_map_unique [OF d(2)]) (auto simp: filter_empty_conv, blast+)
  also have "\<dots> = sigs_at (zn_names z) owner t"
    using smem [OF map_of_SomeD] by (auto simp: sigs_at_def e(1) unwrap_or_def filter_id_conv split: option.splits)
  finally show "filter (sig_member (zn_origin z) owner t) (name_records (zn_origin z) (owner, nd)) = sigs_at (zn_names z) owner t"
    using none(2) by (simp add: name_records_def)
qed

text \<open>The apex SOA record leads, and is the only one when the records have none below the apex.\<close>

lemma zone_soa_rrset: "zone_soa z = first (rrset_at (zn_names z) (zn_origin z) RT_SOA)"
  by (auto simp: zone_soa_def first_soa_def rrset_at_def unwrap_or_def split: option.splits)

lemma zone_soa_member:
  assumes "from_records env origin recs = Inr z" "zone_soa z = Some soa"
  shows "set_member (zn_origin z) (zn_origin z) RT_SOA soa" "soa \<in> set recs"
  using rrset_member [OF assms(1)] assms(2) first_SomeD [of _ soa] by (auto simp: zone_soa_rrset)

lemma filter_all_records:
  assumes z: "from_records env origin recs = Inr z" and soa: "zone_soa z = Some soa"
  shows "filter (set_member (zn_origin z) owner t) (all_records z) =
      (if t = RT_SOA \<and> owner = zn_origin z then [soa] else rrset_at (zn_names z) owner t)"
    "filter (sig_member (zn_origin z) owner t) (all_records z) = sigs_at (zn_names z) owner t"
proof -
  note d = sorted_keys_distinct [OF from_records_sets(1) [OF z]]
  have one: "filter P (concat (map (name_records (zn_origin z)) (zn_names z))) =
      (case map_of (zn_names z) owner of None \<Rightarrow> [] | Some nd \<Rightarrow> filter P (name_records (zn_origin z) (owner, nd)))"
    if "\<And>r. P r \<Longrightarrow> name_str (rr_name r) = owner" for P
  proof -
    have "filter P (concat (map (name_records (zn_origin z)) (zn_names z))) =
        concat (map (\<lambda>p. filter P (name_records (zn_origin z) p)) (zn_names z))" by (simp add: filter_concat o_def)
    also have "\<dots> = (case map_of (zn_names z) owner of None \<Rightarrow> [] | Some nd \<Rightarrow> filter P (name_records (zn_origin z) (owner, nd)))"
      using name_records_owner(2) [OF z] that by (intro concat_map_unique [OF d]) (auto simp: filter_empty_conv)
    finally show ?thesis .
  qed
  note m = zone_soa_member [OF z soa] and f = filter_name_records [OF z map_of_SomeD]
  show "filter (set_member (zn_origin z) owner t) (all_records z) =
      (if t = RT_SOA \<and> owner = zn_origin z then [soa] else rrset_at (zn_names z) owner t)"
    using m(1) one [of "set_member (zn_origin z) owner t"] f(1) [of owner _ t]
    by (auto simp: all_records_alt soa set_member_def rrset_at_def split: option.splits)
  have "\<not> sig_member (zn_origin z) owner t soa" using m(1) covers_rrsig by (auto simp: set_member_def sig_member_def)
  then show "filter (sig_member (zn_origin z) owner t) (all_records z) = sigs_at (zn_names z) owner t"
    using one [of "sig_member (zn_origin z) owner t"] f(2) [of owner _ t]
    by (auto simp: all_records_alt soa sig_member_def sigs_at_def split: option.splits)
qed

lemma all_records_owners:
  assumes z: "from_records env origin recs = Inr z" and soa: "zone_soa z = Some soa"
  shows "{name_str (rr_name r) | r. r \<in> set (all_records z) \<and> is_subdomain (zn_origin z) (name_str (rr_name r))} = fst ` set (zn_names z)"
proof (intro equalityI subsetI)
  fix n
  assume "n \<in> {name_str (rr_name r) | r. r \<in> set (all_records z) \<and> is_subdomain (zn_origin z) (name_str (rr_name r))}"
  then obtain r where r: "r \<in> set (all_records z)" "n = name_str (rr_name r)" by blast
  show "n \<in> fst ` set (zn_names z)"
  proof (cases "r = soa")
    case True
    have "soa \<in> set (rrset_at (zn_names z) (zn_origin z) RT_SOA)" using soa first_SomeD by (auto simp: zone_soa_rrset)
    then have "map_of (zn_names z) (zn_origin z) \<noteq> None" by (cases "map_of (zn_names z) (zn_origin z)") (simp_all add: rrset_at_def)
    moreover have "n = zn_origin z" using zone_soa_member(1) [OF z soa] r True by (simp add: set_member_def)
    ultimately show ?thesis by (simp add: map_of_eq_None_iff)
  next
    case False
    then obtain m nd where "(m, nd) \<in> set (zn_names z)" "r \<in> set (name_records (zn_origin z) (m, nd))"
      using r(1) by (auto simp: all_records_alt soa)
    with name_records_owner(2) [OF z this] r(2) show ?thesis by force
  qed
next
  fix n
  assume "n \<in> fst ` set (zn_names z)"
  then obtain nd where nd: "(n, nd) \<in> set (zn_names z)" by auto
  note ok = zone_entry(2) [OF z nd]
  have "\<exists>r \<in> set (all_records z). name_str (rr_name r) = n \<and> is_subdomain (zn_origin z) n"
  proof (cases "name_records (zn_origin z) (n, nd) = []")
    case False
    then obtain r where "r \<in> set (name_records (zn_origin z) (n, nd))" by (metis hd_in_set)
    with name_records_owner(1,2) [OF z nd this] nd show ?thesis by (auto simp: all_records_alt)
  next
    case True
    then have "n = zn_origin z" using ok by (auto simp: name_records_def nd_ok_def neq_Nil_conv split: if_splits)
    with zone_soa_member(1) [OF z soa] show ?thesis by (auto simp: all_records_alt soa set_member_def)
  qed
  then show "n \<in> {name_str (rr_name r) | r. r \<in> set (all_records z) \<and> is_subdomain (zn_origin z) (name_str (rr_name r))}" by blast
qed

text \<open>Two zones that hold the same: names, nodes, serial, record sets and signatures.\<close>

definition same_data :: "zone \<Rightarrow> zone \<Rightarrow> bool" where
  "same_data z z' \<longleftrightarrow> zn_serial z' = zn_serial z \<and> zone_soa z' = zone_soa z \<and> map fst (zn_names z') = map fst (zn_names z) \<and>
     zn_nodes z' = zn_nodes z \<and> (\<forall>owner t. sigs_at (zn_names z') owner t = sigs_at (zn_names z) owner t) \<and>
     (\<forall>owner t. \<not> (t = RT_SOA \<and> owner = zn_origin z) \<longrightarrow> rrset_at (zn_names z') owner t = rrset_at (zn_names z) owner t)"

lemma sorted_keys_same:
  fixes xs :: "('k::linorder \<times> 'v) list"
  assumes "sorted_keys xs" "sorted_keys ys" "fst ` set xs = fst ` set ys"
  shows "map fst xs = map fst ys"
  using assms by (intro strict_sorted_equal) auto

lemma from_all_records:
  assumes z: "from_records env origin recs = Inr z"
  shows "\<exists>z'. from_records env origin (all_records z) = Inr z' \<and> same_data z z'"
proof -
  note p = from_records_parts [OF z]
  obtain soa where soa: "zone_soa z = Some soa" "soa_serial_of soa = Some (zn_serial z)" using p(4) by blast
  let ?names = "fst (foldl (\<lambda>st r. add_record (zn_origin z) r st) ([], False) (all_records z))"
  have set: "rrset_at ?names owner t = (if t = RT_SOA \<and> owner = zn_origin z then [soa] else rrset_at (zn_names z) owner t)" for owner t
  proof -
    have "distinct (map rr_data (rrset_at (zn_names z) owner t))"
      unfolding from_records_sets(3) [OF z] by (rule add_rr_distinct) simp
    then have "foldl (\<lambda>acc r. add_rr r acc) [] (filter (set_member (zn_origin z) owner t) (all_records z)) =
        filter (set_member (zn_origin z) owner t) (all_records z)"
      unfolding filter_all_records(1) [OF z soa(1)] by (simp add: add_rr_all [of "[]", simplified])
    then show ?thesis
      using sets_of_records [of "[]" "zn_origin z" False "all_records z" owner t] filter_all_records(1) [OF z soa(1), of owner t]
      by (simp add: rrset_at_def)
  qed
  have sig: "sigs_at ?names owner t = sigs_at (zn_names z) owner t" for owner t
    using sets_of_records [of "[]" "zn_origin z" False "all_records z" owner t] filter_all_records(2) [OF z soa(1), of owner t]
    by (simp add: sigs_at_def)
  have keys: "map fst ?names = map fst (zn_names z)"
    using add_records [of "[]" "zn_origin z" False "all_records z"] all_records_owners [OF z soa(1)]
    by (intro sorted_keys_same from_records_sets(1) [OF z]) auto
  have first: "first_soa ?names (zn_origin z) = Some soa"
    using set [of "zn_origin z" RT_SOA]
    by (auto simp: first_soa_def rrset_at_def unwrap_or_def split: option.splits)
  obtain on where on: "zv_from_ascii env (fqdn origin) = Inr on" using z by (auto simp: from_records_def Let_def split: sum.splits)
  obtain z' where z': "from_records env origin (all_records z) = Inr z'"
    using on first soa(2) p(1) by (simp add: from_records_def Let_def case_prod_beta)
  note p' = from_records_parts [OF z']
  have n: "zn_names z' = ?names" and o: "zn_origin z' = zn_origin z" using p' p(1) by simp_all
  have "zone_soa z' = Some soa" using first by (simp add: zone_soa_def n o)
  then have "zn_serial z' = zn_serial z" using p'(4) soa(2) by simp
  moreover have "zn_nodes z' = zn_nodes z" using p'(3) p(1,3) keys n by simp
  ultimately show ?thesis
    using z' \<open>zone_soa z' = Some soa\<close> soa(1) set sig keys by (auto simp: same_data_def n)
qed

lemma all_records_soa_first:
  assumes z: "from_records env origin recs = Inr z" and soa: "zone_soa z = Some soa"
    and apex: "\<And>r. r \<in> set recs \<Longrightarrow> rr_type r = RT_SOA \<Longrightarrow> name_str (rr_name r) = zn_origin z \<and> \<not> is_rrsig r"
  shows "\<exists>rest. all_records z = soa # rest \<and> rr_type soa = RT_SOA \<and> (\<forall>r \<in> set rest. rr_type r \<noteq> RT_SOA)"
proof -
  have "rr_type r \<noteq> RT_SOA" if "r \<in> set (concat (map (name_records (zn_origin z)) (zn_names z)))" for r
  proof -
    from that obtain n nd where n: "(n, nd) \<in> set (zn_names z)" "r \<in> set (name_records (zn_origin z) (n, nd))" by auto
    note o = name_records_owner [OF z n]
    show ?thesis using o(2-4) apex [of r] by blast
  qed
  then show ?thesis using zone_soa_member(1) [OF z soa] by (auto simp: all_records_alt soa set_member_def)
qed

section \<open>Serials\<close>

lemma serial_less_add:
  assumes "0 < n" "n < (2147483648 :: u32)"
  shows "serial_less a (a + n) \<and> \<not> serial_less (a + n) a"
proof -
  have n: "0 < unat n" "unat n < 2147483648" using assms by (simp_all add: word_less_nat_alt unat_gt_0)
  have "unat a < 2 ^ LENGTH(32)" by (rule unsigned_less)
  then have a: "unat a < 4294967296" by simp
  show ?thesis
  proof (cases "unat a + unat n < 4294967296")
    case True
    then have u: "unat (a + n) = unat a + unat n" by (simp add: unat_word_ariths)
    have l: "a < a + n" using n by (simp add: word_less_nat_alt u)
    have "unat (a + n - a) = unat n" by simp
    with l n show ?thesis by (simp add: serial_less_def word_less_nat_alt word_le_nat_alt)
  next
    case False
    then have u: "unat (a + n) = unat a + unat n - 4294967296" using a n
      by (simp add: unat_word_ariths mod_if)
    have l: "a + n < a" using n False by (simp add: word_less_nat_alt u)
    have "unat (a - (a + n)) = unat a - unat (a + n)" by (rule unat_sub) (use l in simp)
    then have "unat (a - (a + n)) = 4294967296 - unat n" using a n False by (simp add: u)
    with l n show ?thesis by (simp add: serial_less_def word_less_nat_alt word_le_nat_alt) linarith
  qed
qed

section \<open>Properties\<close>

text \<open>C20: A zone survives a transfer: what a secondary reads from the messages the primary's transfer plugin builds are the
  zone's records, whatever the size of the messages, and the zone it builds from them has the same
  names, nodes, serial, record sets and signatures, provided no SOA record lies below the apex.\<close>

theorem zone_transfer_roundtrip:
  assumes z: "from_records env origin recs = Inr z"
    and apex: "\<forall>r \<in> set recs. rr_type r = RT_SOA \<longrightarrow> name_str (rr_name r) = zn_origin z \<and> \<not> is_rrsig r"
  shows "axfr_read p eof 0 [] (map Inr (build_messages rr_len req (all_records z))) = Inr (all_records z) \<and>
    (\<exists>z'. from_records env origin (all_records z) = Inr z' \<and> same_data z z')"
proof -
  obtain soa where soa: "zone_soa z = Some soa" using from_records_parts(4) [OF z] by blast
  obtain rest where "all_records z = soa # rest" "rr_type soa = RT_SOA" "\<forall>r \<in> set rest. rr_type r \<noteq> RT_SOA"
    using all_records_soa_first [OF z soa] apex by blast
  with axfr_read_transfer [of soa rest] from_all_records [OF z] show ?thesis by simp
qed

theorem zone_transfer_roundtrip_witness:
  "axfr_read ''192.0.2.1:53'' ''eof'' 0 [] (map Inr (build_messages (\<lambda>_. 59950) (query_for ''example.org.'' RT_AXFR) (all_records sample_zone)))
     = Inr (all_records sample_zone) \<and>
   (\<exists>z'. from_records plain_zone_env ''example.org.'' (all_records sample_zone) = Inr z' \<and> same_data sample_zone z')"
  by (rule zone_transfer_roundtrip [OF sample_zone_records]) (code_simp)

text \<open>The messages of a transfer carry the SOA record, the other records in their order and the SOA record again; each
  answers the request, has a record, and stays within the size limit unless it has only one.\<close>

lemma transfer_messages_bounded:
  assumes "remove_first (\<lambda>r. rr_type r = RT_SOA) records = Some (soa, rest)"
  shows "concat (map m_answers (build_messages rr_len req records)) = soa # rest @ [soa] \<and>
    (\<forall>m \<in> set (build_messages rr_len req records). m_id m = m_id (rq_msg req) \<and> m_answers m \<noteq> [] \<and>
       (12 + 64 + sum_list (map rr_len (m_answers m)) \<le> MSG_LIMIT \<or> length (m_answers m) = 1))"
  using build_messages_spec [OF assms, of rr_len req] by (simp add: xfr_message_def msg_size_def)

definition apex_soa :: rr where
  "apex_soa = from_rdata ''.'' 5 (RD_SOA \<lparr>soa_mname = ''m.'', soa_rname = ''r.'', soa_serial = 1, soa_refresh = 1, soa_retry = 1, soa_expire = 1, soa_minimum = 1\<rparr>)"

definition three_records :: "rr list" where
  "three_records = [from_rdata ''a.'' 5 (RD_A [192, 0, 2, 1]), apex_soa, from_rdata ''b.'' 5 (RD_A [192, 0, 2, 2])]"

text \<open>Serial numbers are compared around the wrap: a serial less than 2^31 ahead is newer and never older.\<close>

lemma serial_less_wraps:
  assumes "0 < n" "n < (2147483648 :: u32)"
  shows "serial_less a (a + n) \<and> \<not> serial_less (a + n) a"
  by (rule serial_less_add [OF assms])

text \<open>The network and the NOTIFY messages of the primaries leave the plugin's own state of a zone alone.\<close>

definition sec_env_ok :: "'s sec_env \<Rightarrow> nat \<Rightarrow> bool" where
  "sec_env_ok env i \<longleftrightarrow> (\<forall>st s. sn_get env i (sn_put env i st s) = st)
     \<and> (\<forall>p m s. sn_get env i (snd (sn_exchange env p m s)) = sn_get env i s)
     \<and> (\<forall>p m s. sn_get env i (snd (sn_open env p m s)) = sn_get env i s)
     \<and> (\<forall>z s. sn_get env i (sn_notify env z s) = sn_get env i s)"

lemma primary_serial_get: "sec_env_ok env i \<Longrightarrow> primary_serial env p origin s = (r, s') \<Longrightarrow> sn_get env i s' = sn_get env i s"
  by (auto simp: primary_serial_def sec_env_ok_def split: sum.splits prod.splits) (metis snd_conv)+

lemma axfr_get: "sec_env_ok env i \<Longrightarrow> axfr env p origin s = (r, s') \<Longrightarrow> sn_get env i s' = sn_get env i s"
  by (auto simp: axfr_def sec_env_ok_def split: sum.splits prod.splits) (metis snd_conv)+

lemma transfer_in_get:
  assumes "sec_env_ok env i" "transfer_in env i origin le ps s = (r, s')"
  shows "case r of Inl _ \<Rightarrow> sn_get env i s' = sn_get env i s | Inr _ \<Rightarrow> \<not> ss_expired (sn_get env i s') \<and> ss_zone (sn_get env i s') \<noteq> None"
  using assms(2)
proof (induction ps arbitrary: le s)
  case (Cons p ps)
  obtain a s1 where a: "axfr env p origin s = (a, s1)" by (metis prod.exhaust)
  show ?case
  proof (cases a)
    case (Inl e)
    with Cons.prems a have "transfer_in env i origin (Some e) ps s1 = (r, s')" by simp
    from Cons.IH [OF this] axfr_get [OF assms(1) a] show ?thesis by (simp split: sum.splits)
  next
    case (Inr rs)
    with Cons.prems a axfr_get [OF assms(1) a] assms(1) show ?thesis by (auto simp: sec_env_ok_def split: sum.splits)
  qed
qed (auto)

lemma should_transfer_get:
  assumes "sec_env_ok env i" "should_transfer env i origin cur le ps s = (r, s')"
  shows "sn_get env i s' = sn_get env i s \<and> (r = Inr False \<longrightarrow> \<not> ss_expired (sn_get env i s) \<and> cur \<noteq> None)"
  using assms(2)
proof (induction ps arbitrary: le s)
  case (Cons p ps)
  obtain a s1 where a: "primary_serial env p origin s = (a, s1)" by (metis prod.exhaust)
  show ?case
  proof (cases a)
    case (Inl e)
    with Cons.prems a have "should_transfer env i origin cur (Some e) ps s1 = (r, s')" by simp
    from Cons.IH [OF this] primary_serial_get [OF assms(1) a] show ?thesis by simp
  next
    case (Inr n)
    with Cons.prems a primary_serial_get [OF assms(1) a] show ?thesis by (auto split: option.splits)
  qed
qed auto

text \<open>A good check leaves a zone that is served; a failed one leaves the zone as it is.\<close>

lemma sec_check_get:
  assumes "sec_env_ok env i" "sec_check env i z s = (good, s')"
  shows "if good then \<not> ss_expired (sn_get env i s') \<and> ss_zone (sn_get env i s') \<noteq> None else sn_get env i s' = sn_get env i s"
proof -
  obtain r s1 where r: "should_transfer env i (sz_origin z) (map_option zn_serial (ss_zone (sn_get env i s))) None (sz_primaries z) s = (r, s1)"
    by (metis prod.exhaust)
  obtain t s2 where t: "transfer_in env i (sz_origin z) None (sz_primaries z) s1 = (t, s2)" by (metis prod.exhaust)
  from should_transfer_get [OF assms(1) r] transfer_in_get [OF assms(1) t] assms(2) r t
  show ?thesis by (cases r; cases t) (auto simp: sec_check_def split: if_splits bool.splits)
qed


text \<open>What may happen to a zone while no check of it is good: a check fails, or the rest of the program, queries among it, changes the
  state without touching the zone and its mark.\<close>

inductive sec_unlucky :: "'s sec_env \<Rightarrow> nat \<Rightarrow> sec_zone \<Rightarrow> sec_phase \<times> 's \<Rightarrow> sec_phase \<times> 's \<Rightarrow> bool" for env i z where
  failed_check: "sec_check env i z s = (False, s1) \<Longrightarrow> sec_wake env i z Due (Refreshing last_good failing tm, s) = st' \<Longrightarrow>
     sec_unlucky env i z (Refreshing last_good failing tm, s) st'"
| elsewhere: "ss_zone (sn_get env i s') = ss_zone (sn_get env i s) \<Longrightarrow> ss_expired (sn_get env i s') = ss_expired (sn_get env i s) \<Longrightarrow>
     sec_unlucky env i z (ph, s) (ph, s')"

lemma sec_failed_expired:
  assumes "sec_env_ok env i" "sec_check env i z s = (False, s1)" "sec_wake env i z Due (Refreshing last_good failing tm, s) = (ph, s')"
  shows "ss_expired (sn_get env i s') \<longleftrightarrow> ss_expired (sn_get env i s) \<or> sn_now env s1 - last_good \<ge> tm_expire tm"
  using sec_check_get [OF assms(1,2)] assms by (auto simp: Let_def sec_env_ok_def)

lemma sec_unlucky_expired:
  assumes "sec_env_ok env i" "(sec_unlucky env i z)\<^sup>*\<^sup>* st st'" "ss_expired (sn_get env i (snd st))"
  shows "ss_expired (sn_get env i (snd st'))"
  using assms(2,3)
proof (induction rule: rtranclp_induct)
  case (step st1 st2)
  from step.hyps(2) step.IH [OF step.prems] show ?case
  proof (cases rule: sec_unlucky.cases)
    case (failed_check s s1 last_good failing tm)
    obtain ph' s' where "st2 = (ph', s')" by (cases st2)
    with failed_check sec_failed_expired [OF assms(1) failed_check(2)] step.IH [OF step.prems] show ?thesis by auto
  qed auto
qed simp

lemma secondary_serve_expired:
  assumes "req_name req = (qn, req1)" "zones_match (map sz_origin zs) qn = Some zn" "find_index (\<lambda>z. sz_origin z = zn) zs = Some i"
    and "m_opcode (rq_msg req) \<noteq> OpNotify" "ss_expired (sn_get env i s)"
  shows "secondary_serve env zs req nx s = (Replied (RMsg ((new_reply req1)\<lparr>m_rcode := ServFail\<rparr>)), req1, s)"
proof -
  have "rq_msg req1 = rq_msg req" using assms(1) req_name_frame(1) [of req] by simp
  with assms show ?thesis by (simp add: secondary_serve_def Let_def split: option.splits)
qed

text \<open>C21: An expired secondary zone is not served: when a check of the zone fails and the last good one is at least the expiry time of
  the zone's SOA ago, then from the end of that check on, through further failed checks and whatever else changes the state
  without touching the zone, every query in the zone other than NOTIFY is answered with SERVFAIL, whatever follows the
  plugin, and the zone is not transferred out, until a check is good, after which the zone has a copy and is not expired. Expiry takes effect
  only with such a failed check; it is assumed that network exchanges do not touch the state of the zone.\<close>

theorem secondary_expiry:
  assumes "sec_env_ok env i"
    and "sec_check env i z s = (False, s1)" "sn_now env s1 - last_good \<ge> tm_expire tm"
    and "sec_wake env i z Due (Refreshing last_good failing tm, s) = st1" "(sec_unlucky env i z)\<^sup>*\<^sup>* st1 (ph, s')"
    and "zones_match (map sz_origin zs) qn = Some (sz_origin z)" "find_index (\<lambda>y. sz_origin y = sz_origin z) zs = Some i"
    and "req_name req = (qn, req1)" "m_opcode (rq_msg req) \<noteq> OpNotify"
  shows "secondary_serve env zs req nx s' = (Replied (RMsg ((new_reply req1)\<lparr>m_rcode := ServFail\<rparr>)), req1, s')
    \<and> secondary_transfer env zs (sz_origin z) s' = None
    \<and> (\<forall>s2. sec_check env i z s' = (True, s2) \<longrightarrow> \<not> ss_expired (sn_get env i s2) \<and> ss_zone (sn_get env i s2) \<noteq> None)"
proof -
  obtain ph1 t1 where st1: "st1 = (ph1, t1)" by (cases st1)
  have "ss_expired (sn_get env i t1)"
    using sec_failed_expired [OF assms(1,2) assms(4) [unfolded st1]] assms(3) by blast
  then have x: "ss_expired (sn_get env i s')"
    using sec_unlucky_expired [OF assms(1,5)] by (simp add: st1)
  have "secondary_serve env zs req nx s' = (Replied (RMsg ((new_reply req1)\<lparr>m_rcode := ServFail\<rparr>)), req1, s')"
    by (rule secondary_serve_expired [OF assms(8,6,7,9) x])
  moreover have "secondary_transfer env zs (sz_origin z) s' = None" using assms(7) x by (simp add: secondary_transfer_def)
  ultimately show ?thesis using sec_check_get [OF assms(1)] by fastforce
qed

definition lonely_env :: "(sec_state \<times> nat) sec_env" where
  "lonely_env = \<lparr>sn_get = (\<lambda>_. fst), sn_put = (\<lambda>_ st s. (st, snd s)), sn_open = (\<lambda>_ _ s. (Inl ''refused'', s)),
     sn_exchange = (\<lambda>_ _ s. (Inl ''refused'', s)), sn_show = (\<lambda>_. ''primary''), sn_from_ascii = Inr, sn_random_id = (\<lambda>_. 7),
     sn_now = snd, sn_zone_env = \<lparr>zv_from_ascii = Inr, zv_name_key = (\<lambda>n. [n]), zv_nsec3_hash = (\<lambda>_ _. None),
       zv_read_name = (\<lambda>_. None), zv_show_rr = (\<lambda>_. []), zv_self_lookup = (\<lambda>_ _ _ s. (Inl ''no server'', s))\<rparr>,
     sn_notify = (\<lambda>_ s. s), sn_spawn = (\<lambda>_ s. (Inr (), s)), sn_cancel = (\<lambda>s. (Inr (), s))\<rparr>"

theorem secondary_expiry_witness:
  "\<exists>ph s'. sec_wake lonely_env 0 \<lparr>sz_origin = ''a.'', sz_primaries = [\<lparr>sa_ip = V4 [192, 0, 2, 1], sa_port = 53\<rparr>]\<rparr> Due
      (Refreshing 0 False \<lparr>tm_refresh = 1, tm_retry = 1, tm_expire = 5\<rparr>, (sec_state_new, 10)) = (ph, s')
    \<and> (\<exists>m req1. (\<forall>nx. secondary_serve lonely_env [\<lparr>sz_origin = ''a.'', sz_primaries = [\<lparr>sa_ip = V4 [192, 0, 2, 1], sa_port = 53\<rparr>]\<rparr>] (query_for ''b.a.'' RT_A) nx s'
          = (Replied (RMsg m), req1, s')) \<and> m_rcode m = ServFail)"
proof -
  let ?z = "\<lparr>sz_origin = ''a.'', sz_primaries = [\<lparr>sa_ip = V4 [192, 0, 2, 1], sa_port = 53\<rparr>]\<rparr>" and ?t = "\<lparr>tm_refresh = 1, tm_retry = 1, tm_expire = 5\<rparr>"
  let ?q = "query_for ''b.a.'' RT_A"
  have c: "sec_check lonely_env 0 ?z (sec_state_new, 10) = (False, (sec_state_new, 10))"
    by (simp add: sec_check_def primary_serial_def lonely_env_def sec_state_new_def)
  obtain ph s' where w: "sec_wake lonely_env 0 ?z Due (Refreshing 0 False ?t, (sec_state_new, 10)) = (ph, s')" by (metis prod.exhaust)
  have ok: "sec_env_ok lonely_env 0" by (simp add: sec_env_ok_def lonely_env_def)
  have "fst (req_name ?q) = ''b.a.''" by code_simp
  then have n: "req_name ?q = (''b.a.'', snd (req_name ?q))" by (metis prod.collapse)
  have z: "zones_match (map sz_origin [?z]) ''b.a.'' = Some (sz_origin ?z)" "find_index (\<lambda>y. sz_origin y = sz_origin ?z) [?z] = Some 0" by code_simp+
  have o: "m_opcode (rq_msg ?q) \<noteq> OpNotify" by code_simp
  have t: "tm_expire ?t \<le> sn_now lonely_env (sec_state_new, 10) - 0" by (simp add: lonely_env_def)
  from secondary_expiry [OF ok c t w rtranclp.rtrancl_refl z n o] w show ?thesis by fastforce
qed

end
