(* ===== verification/Auto.thy ===== *)
theory Auto
  imports Zone_Transfer
begin

text \<open>
  The \<open>auto\<close> plugin, \<open>src/plugins/auto.rs\<close>: every file of a directory whose name an expression matches is a zone,
  under the origin a template makes of the groups of the match.

  The directory, as one walk sees it, is a list of the names of its files with what reading each gives; the
  matching of regular expressions, parsing a zone file, what is stored and the notification of secondaries are arguments.

  Shown here: what is served after a walk, by origin, in terms of the files alone and of the zones served
  before; the zones stay within the ones the plugin is responsible for; the handler keeps the id and the setup only appends.
\<close>

record 'r auto =
  au_zones :: "string list"
  au_directory :: string
  au_re :: 'r
  au_template :: string
  au_initial :: "(string \<times> zone) list"

text \<open>
  \<open>au_initial\<close> is what the walk of the setup has loaded. \<open>av_stored\<close> is what a later walk has stored,
  when one has; \<open>av_read_dir\<close> gives the regular files of a directory, or nothing when it cannot be read; \<open>av_parse\<close> is \<open>Zone::parse\<close> on a text, an origin and a path.
\<close>

record ('r, 's) auto_env =
  av_zone_env :: "'s zone_env"
  av_captures :: "'r \<Rightarrow> string \<Rightarrow> string option list option"
  av_read_dir :: "string \<Rightarrow> 's \<Rightarrow> (string \<times> string res) list option"
  av_parse :: "string \<Rightarrow> string \<Rightarrow> string \<Rightarrow> zone res"
  av_stored :: "'s \<Rightarrow> (string \<times> zone) list option"
  av_store :: "(string \<times> zone) list \<Rightarrow> 's \<Rightarrow> 's"
  av_notify :: "string \<Rightarrow> 's \<Rightarrow> 's"

section \<open>Walking the directory\<close>

definition auto_origin :: "string \<Rightarrow> string option list \<Rightarrow> string" where
  "auto_origin template caps =
     fqdn (foldl (\<lambda>og i. case caps ! i of Some m \<Rightarrow> replace_all (''{'' @ show_nat i @ ''}'') m og | None \<Rightarrow> og) template [0..<length caps])"

text \<open>The zone of a file: its origin and what parsing gives; nothing when the file is skipped.\<close>

definition auto_file :: "('r, 's) auto_env \<Rightarrow> 'r auto \<Rightarrow> string \<times> string res \<Rightarrow> (string \<times> zone) option" where
  "auto_file env a file_entry =
     (case file_entry of (fname, txt) \<Rightarrow>
        (case av_captures env (au_re a) fname of
           None \<Rightarrow> None
         | Some caps \<Rightarrow>
             (let origin = auto_origin (au_template a) caps in
              if zones_match (au_zones a) origin = None then None
              else (case txt of
                  Inl _ \<Rightarrow> None
                | Inr t \<Rightarrow>
                    (case av_parse env t origin (path_join (au_directory a) fname) of
                       Inl _ \<Rightarrow> None
                     | Inr z \<Rightarrow> Some (origin, z))))))"

text \<open>A step of the loop: the zones of the next map, and the origins whose secondaries are told.\<close>

definition auto_entry ::
    "('r, 's) auto_env \<Rightarrow> 'r auto \<Rightarrow> (string \<times> zone) list \<Rightarrow> (string \<times> zone) list \<times> string list \<Rightarrow> string \<times> string res
     \<Rightarrow> (string \<times> zone) list \<times> string list" where
  "auto_entry env a cur st file_entry =
     (case st of (nxt, told) \<Rightarrow>
        (case auto_file env a file_entry of
           None \<Rightarrow> (nxt, told)
         | Some (origin, z) \<Rightarrow>
             (case map_of cur origin of
                None \<Rightarrow> (upsert origin z (\<lambda>_. z) nxt, told)
              | Some old \<Rightarrow>
                  if zn_serial old \<noteq> zn_serial z then (upsert origin z (\<lambda>_. z) nxt, told @ [origin])
                  else (upsert origin old (\<lambda>_. old) nxt, told))))"

definition auto_scan :: "('r, 's) auto_env \<Rightarrow> 'r auto \<Rightarrow> (string \<times> zone) list \<Rightarrow> (string \<times> string res) list \<Rightarrow> (string \<times> zone) list \<times> string list" where
  "auto_scan env a cur files = foldl (auto_entry env a cur) ([], []) (sort_key fst files)"

definition auto_loaded :: "('r, 's) auto_env \<Rightarrow> 'r auto \<Rightarrow> 's \<Rightarrow> (string \<times> zone) list" where
  "auto_loaded env a s = (case av_stored env s of Some m \<Rightarrow> m | None \<Rightarrow> au_initial a)"

definition auto_walk :: "('r, 's) auto_env \<Rightarrow> 'r auto \<Rightarrow> 's \<Rightarrow> 's" where
  "auto_walk env a s =
     (case av_read_dir env (au_directory a) s of
        None \<Rightarrow> s
      | Some files \<Rightarrow>
          (case auto_scan env a (auto_loaded env a s) files of (nxt, told) \<Rightarrow>
             av_store env nxt (foldl (\<lambda>s og. av_notify env og s) s told)))"

section \<open>Handler\<close>

definition auto_transfer :: "('r, 's) auto_env \<Rightarrow> 'r auto \<Rightarrow> string \<Rightarrow> 's \<Rightarrow> rr list option" where
  "auto_transfer env a zn s = map_option all_records (map_of (auto_loaded env a s) zn)"

definition auto_serve :: "('r, 's) auto_env \<Rightarrow> 'r auto \<Rightarrow> 's handler" where
  "auto_serve env a req nx s =
     (case req_name req of (qn, req1) \<Rightarrow>
        (case Option.bind (zones_match (map fst (auto_loaded env a s)) qn) (map_of (auto_loaded env a s)) of
           None \<Rightarrow> nx_serve nx req1 s
         | Some z \<Rightarrow> (case zone_lookup (av_zone_env env) z req1 True s of (m, s1) \<Rightarrow> (Replied (RMsg m), req1, s1))))"

section \<open>Setup\<close>

text \<open>The directory, the expression, the template and the interval, as the lines of the block leave them.\<close>

record 'r auto_options =
  ao_directory :: "string option"
  ao_re :: 'r
  ao_template :: string
  ao_reload :: nat

text \<open>\<open>an_spawn\<close> makes the task that walks at every interval until it is cancelled; \<open>an_read_dir\<close> is the directory as the setup sees it.\<close>

record ('r, 's, 'net) auto_parse =
  an_new :: "string \<Rightarrow> 'r res"
  an_default_re :: 'r
  an_from_ascii :: "string \<Rightarrow> dname res"
  an_api :: "'net ipnet_api"
  an_parse_duration :: "string \<Rightarrow> nat res"
  an_read_dir :: "string \<Rightarrow> (string \<times> string res) list option"
  an_spawn :: "'r auto \<Rightarrow> nat \<Rightarrow> 's hook"
  an_cancel :: "'s hook"

definition auto_line ::
    "('r, 's, 'net) auto_parse \<Rightarrow> string \<Rightarrow> (string \<Rightarrow> err) \<Rightarrow> err \<Rightarrow> string \<Rightarrow> string list \<Rightarrow> 'r auto_options \<Rightarrow> 'r auto_options res" where
  "auto_line ps root ef arg_e v a o1 =
     (if v = ''directory'' then
        (case a of
           [d] \<Rightarrow> Inr (o1\<lparr>ao_directory := Some (path_join root d)\<rparr>)
         | [d, rx, t] \<Rightarrow>
             (case an_new ps rx of
                Inl e \<Rightarrow> Inl (ef (''invalid regexp '' @ rx @ '': '' @ e))
              | Inr r \<Rightarrow> Inr (o1\<lparr>ao_directory := Some (path_join root d), ao_re := r, ao_template := t\<rparr>))
         | _ \<Rightarrow> Inl (ef ''directory needs DIR [REGEXP TEMPLATE]''))
      else if v = ''reload'' then
        (if length a \<noteq> 1 then Inl arg_e else rbind (an_parse_duration ps (hd a)) (\<lambda>n. Inr (o1\<lparr>ao_reload := n\<rparr>)))
      else if v = ''upstream'' then Inr o1
      else Inl (ef (''unknown property '' @ quote v)))"

definition auto_property ::
    "('r, 's, 'net) auto_parse \<Rightarrow> string \<Rightarrow> 'r auto_options \<Rightarrow> 's controller \<Rightarrow> 'r auto_options res \<times> 's controller" where
  "auto_property ps root = line_property (\<lambda>v. v \<in> {''directory'', ''reload'', ''upstream''}) (auto_line ps root)"

definition auto_body :: "('r, 's, 'net) auto_parse \<Rightarrow> ('r, 's) auto_env \<Rightarrow> 's setup_fn" where
  "auto_body ps env c =
     (case ctl_disp remaining_args_until_brace c of (as, c1) \<Rightarrow>
        (case controller_origins (an_from_ascii ps) (an_api ps) c1 as of
           Inl e \<Rightarrow> (Inl e, c1)
         | Inr zones \<Rightarrow>
             (case block_loop (auto_property ps (sc_root (ct_config c1)))
                     \<lparr>ao_directory = None, ao_re = an_default_re ps, ao_template = ''{1}'', ao_reload = 60 * SECOND\<rparr> c1 of
                (Inl e, c2) \<Rightarrow> (Inl e, c2)
              | (Inr o1, c2) \<Rightarrow>
                  (case ao_directory o1 of
                     None \<Rightarrow> (Inl (ctl_errf c2 ''directory is required''), c2)
                   | Some d \<Rightarrow>
                       (let a0 = \<lparr>au_zones = zones, au_directory = d, au_re = ao_re o1, au_template = ao_template o1, au_initial = []\<rparr>;
                            a = (case an_read_dir ps d of None \<Rightarrow> a0 | Some files \<Rightarrow> a0\<lparr>au_initial := fst (auto_scan env a0 [] files)\<rparr>);
                            c3 = add_plugin (''auto'', auto_serve env a) c2 in
                        (Inr (), if ao_reload o1 = 0 then c3
                           else on_shutdown (an_cancel ps) (on_startup (an_spawn ps a (ao_reload o1)) c3)))))))"

definition auto_setup :: "('r, 's, 'net) auto_parse \<Rightarrow> ('r, 's) auto_env \<Rightarrow> 's setup_fn" where
  "auto_setup ps env = single_setup ''auto'' (auto_body ps env)"

section \<open>Contracts\<close>

lemma auto_keeps_id:
  assumes "keeps_id (nx_serve nx)"
  shows "keeps_id (\<lambda>req s. auto_serve env a req nx s)"
proof -
  have named: "keeps_id (\<lambda>req s. nx_serve nx (snd (req_name req)) s)" by (rule keeps_id_same [OF assms]) simp
  show ?thesis
    using named by (auto simp: keeps_id_def auto_serve_def case_prod_beta zone_lookup_id split: option.splits)
qed

interpretation auto_handler: id_keeping_handler "auto_serve env a"
  by unfold_locales (rule auto_keeps_id)

interpretation auto_block: block_property "auto_property ps root"
  unfolding auto_property_def by (rule line_property_block) (simp add: auto_line_def is_ok_def)

lemma auto_body_appends: "auto_body ps env c = (r, c') \<Longrightarrow> appends_plugins c c'"
proof -
  assume run: "auto_body ps env c = (r, c')"
  obtain as c1 where a: "ctl_disp remaining_args_until_brace c = (as, c1)"
    by (cases "ctl_disp remaining_args_until_brace c")
  note st = args_block_steps [OF a auto_block.block_property_axioms]
  show ?thesis
    using run a appends_disp [OF a]
    by (auto simp: auto_body_def Let_def split: sum.splits prod.splits option.splits if_splits dest: st(2) intro!: appends_steps)
qed

interpretation auto_setup: setup_function "auto_setup ps env"
  unfolding auto_setup_def by (rule single_setup_function [OF auto_body_appends])

section \<open>What is served after a walk\<close>

text \<open>The zone the files hold for an origin: of the last file, by name, that has one.\<close>

definition zone_of_files :: "('r, 's) auto_env \<Rightarrow> 'r auto \<Rightarrow> (string \<times> string res) list \<Rightarrow> string \<Rightarrow> zone option" where
  "zone_of_files env a files og = map_of (rev (List.map_filter (auto_file env a) (sort_key fst files))) og"

definition newer :: "(string \<times> zone) list \<Rightarrow> string \<Rightarrow> zone \<Rightarrow> zone" where
  "newer cur og z = (case map_of cur og of Some old \<Rightarrow> if zn_serial old = zn_serial z then old else z | None \<Rightarrow> z)"

lemma auto_entries_map:
  "map_of (fst (foldl (auto_entry env a cur) ([], []) es)) og = map_option (newer cur og) (map_of (rev (List.map_filter (auto_file env a) es)) og)"
proof (induction es rule: rev_induct)
  case (snoc e es)
  have "map_of (fst (auto_entry env a cur st e)) og =
      (case auto_file env a e of Some (og', z) \<Rightarrow> if og' = og then Some (newer cur og z) else map_of (fst st) og | None \<Rightarrow> map_of (fst st) og)" for st
    by (cases st) (auto simp: auto_entry_def newer_def map_of_upsert split: option.split)
  with snoc show ?case by (auto simp: map_filter_simps map_filter_append split: option.split)
qed (simp add: map_filter_simps)

lemma auto_entries_told:
  "set (snd (foldl (auto_entry env a cur) ([], []) es)) =
    {og. \<exists>old z. map_of cur og = Some old \<and> Some (og, z) \<in> auto_file env a ` set es \<and> zn_serial z \<noteq> zn_serial old}"
proof (induction es rule: rev_induct)
  case (snoc e es)
  obtain nxt told where st: "foldl (auto_entry env a cur) ([], []) es = (nxt, told)" by (cases "foldl (auto_entry env a cur) ([], []) es")
  have step: "set (snd (auto_entry env a cur (nxt, told) e)) =
      set told \<union> {og. \<exists>old z. map_of cur og = Some old \<and> auto_file env a e = Some (og, z) \<and> zn_serial z \<noteq> zn_serial old}"
    by (auto simp: auto_entry_def split: option.split)
  show ?case using snoc st step by auto
qed simp

lemma auto_file_zone: "auto_file env a e = Some (og, z) \<Longrightarrow> zones_match (au_zones a) og \<noteq> None"
  by (auto simp: auto_file_def Let_def split: prod.splits option.splits if_splits sum.splits)

lemma auto_scan_zones: "map_of (fst (auto_scan env a cur files)) og = Some z \<Longrightarrow> zones_match (au_zones a) og \<noteq> None"
  by (auto simp: auto_scan_def auto_entries_map in_map_filter dest!: map_of_SomeD dest: auto_file_zone)

lemma notify_all:
  assumes "\<And>og s. seen (av_notify env og s) = seen s @ [og]"
  shows "seen (foldl (\<lambda>s og. av_notify env og s) s told) = seen s @ told"
  using assms by (induction told arbitrary: s) simp_all

text \<open>C31: After a walk over a directory that can be read, an origin is served exactly when it is among the plugin's
  zones and some file gives a zone for it; it is the zone of the last such file by name, except that the zone
  served before is kept when the serials agree; a zone without such a file, be it gone or no longer readable, is not served any more. The
  walk sends notifications for exactly those origins that were served before and have a file with another serial: whatever \<open>seen\<close> lists of the
  notifications in the order in which they are sent, which storing zones leaves alone, the walk adds to it some for each of these origins and
  none for others. It is assumed that what is stored is read back.\<close>

theorem auto_walk_serves:
  assumes "av_read_dir env (au_directory a) s = Some files"
    and stored: "\<And>m s. av_stored env (av_store env m s) = Some m"
    and seen: "\<And>og s. seen (av_notify env og s) = seen s @ [og]" "\<And>m s. seen (av_store env m s) = seen s"
  shows "map_of (auto_loaded env a (auto_walk env a s)) og =
      (case zone_of_files env a files og of
         None \<Rightarrow> None
       | Some z \<Rightarrow> Some (case map_of (auto_loaded env a s) og of Some old \<Rightarrow> if zn_serial old = zn_serial z then old else z | None \<Rightarrow> z)) \<and>
    (og \<in> dom (map_of (auto_loaded env a (auto_walk env a s))) \<longrightarrow> zones_match (au_zones a) og \<noteq> None) \<and>
    (\<exists>told. seen (auto_walk env a s) = seen s @ told \<and>
      set told = {o1. \<exists>old z. map_of (auto_loaded env a s) o1 = Some old \<and> Some (o1, z) \<in> auto_file env a ` set files \<and> zn_serial z \<noteq> zn_serial old})"
proof (intro conjI)
  let ?cur = "auto_loaded env a s"
  have loaded: "auto_loaded env a (auto_walk env a s) = fst (auto_scan env a ?cur files)"
    using assms(1,2) by (auto simp: auto_walk_def auto_loaded_def [of env a "av_store _ _ _"] split: prod.splits)
  show "map_of (auto_loaded env a (auto_walk env a s)) og =
      (case zone_of_files env a files og of
         None \<Rightarrow> None
       | Some z \<Rightarrow> Some (case map_of ?cur og of Some old \<Rightarrow> if zn_serial old = zn_serial z then old else z | None \<Rightarrow> z))"
    "og \<in> dom (map_of (auto_loaded env a (auto_walk env a s))) \<longrightarrow> zones_match (au_zones a) og \<noteq> None"
    unfolding loaded
    by (auto simp: auto_scan_def auto_entries_map zone_of_files_def newer_def split: option.splits
        dest: auto_scan_zones [unfolded auto_scan_def])
  have "seen (auto_walk env a s) = seen s @ snd (auto_scan env a ?cur files)"
    using assms(1) notify_all [of seen env, OF seen(1)] seen(2) by (simp add: auto_walk_def split: prod.splits)
  moreover have "set (snd (auto_scan env a ?cur files)) =
      {o1. \<exists>old z. map_of ?cur o1 = Some old \<and> Some (o1, z) \<in> auto_file env a ` set files \<and> zn_serial z \<noteq> zn_serial old}"
    unfolding auto_scan_def auto_entries_told by simp
  ultimately show "\<exists>told. seen (auto_walk env a s) = seen s @ told \<and>
      set told = {o1. \<exists>old z. map_of ?cur o1 = Some old \<and> Some (o1, z) \<in> auto_file env a ` set files \<and> zn_serial z \<noteq> zn_serial old}" by blast
qed

text \<open>A directory with a zone file, a file that does not parse and one whose name is no zone.\<close>

definition small_dir :: "(string \<times> string res) list" where
  "small_dir = [(''db.b'', Inr ''new''), (''db.a'', Inr ''''), (''notes'', Inr ''text'')]"

definition dir_zone :: "string \<Rightarrow> u32 \<Rightarrow> zone" where
  "dir_zone og n = \<lparr>zn_origin = og, zn_origin_name = og, zn_names = [], zn_nodes = {}, zn_nsec_chain = [], zn_nsec3 = None, zn_serial = n,
     zn_signed = False, zn_path = None\<rparr>"

definition dir_env :: "(unit, (string \<times> zone) list option \<times> string list) auto_env" where
  "dir_env = \<lparr>av_zone_env = \<lparr>zv_from_ascii = Inr, zv_name_key = (\<lambda>_. []), zv_nsec3_hash = (\<lambda>_ _. None), zv_read_name = (\<lambda>_. None),
       zv_show_rr = (\<lambda>_. []), zv_self_lookup = (\<lambda>_ _ _ s. (Inl [], s))\<rparr>,
     av_captures = (\<lambda>_ f. if starts_with f ''db.'' then Some [Some f, Some (drop 3 f)] else None),
     av_read_dir = (\<lambda>_ _. Some small_dir),
     av_parse = (\<lambda>t og _. if t = [] then Inl ''no SOA'' else Inr (dir_zone og (of_nat (length t)))),
     av_stored = fst, av_store = (\<lambda>m s. (Some m, snd s)), av_notify = (\<lambda>og s. (fst s, snd s @ [og]))\<rparr>"

definition dir_auto :: "unit auto" where
  "dir_auto = \<lparr>au_zones = [''.''], au_directory = ''/zones'', au_re = (), au_template = ''{1}'',
     au_initial = [(''a.'', dir_zone ''a.'' 1), (''b.'', dir_zone ''b.'' 2)]\<rparr>"

theorem auto_walk_serves_witness:
  "map_of (auto_loaded dir_env dir_auto (auto_walk dir_env dir_auto (None, []))) ''b.'' = Some (dir_zone ''b.'' 3) \<and>
   map_of (auto_loaded dir_env dir_auto (auto_walk dir_env dir_auto (None, []))) ''a.'' = None \<and>
   set (snd (auto_walk dir_env dir_auto (None, []))) = {''b.''}"
proof -
  let ?s = "(None, [])"
  have r: "av_read_dir dir_env (au_directory dir_auto) ?s = Some small_dir" and st: "\<And>m s. av_stored dir_env (av_store dir_env m s) = Some m"
    and seen: "\<And>og s. snd (av_notify dir_env og s) = snd s @ [og]" "\<And>m s. snd (av_store dir_env m s) = snd s"
    by (simp_all add: dir_env_def)
  have files: "zone_of_files dir_env dir_auto small_dir ''b.'' = Some (dir_zone ''b.'' 3)" "zone_of_files dir_env dir_auto small_dir ''a.'' = None"
    by code_simp+
  have cur: "auto_loaded dir_env dir_auto ?s = [(''a.'', dir_zone ''a.'' 1), (''b.'', dir_zone ''b.'' 2)]" by (simp add: auto_loaded_def dir_auto_def dir_env_def)
  have f: "map (auto_file dir_env dir_auto) small_dir = [Some (''b.'', dir_zone ''b.'' 3), None, None]" by code_simp
  have "auto_file dir_env dir_auto ` set small_dir = {Some (''b.'', dir_zone ''b.'' 3), None}"
    by (metis (no_types, lifting) f insert_absorb2 list.set(1,2) list.set_map)
  then show ?thesis
    using auto_walk_serves [of dir_env dir_auto ?s small_dir snd "''b.''", OF r st seen]
      auto_walk_serves [of dir_env dir_auto ?s small_dir snd "''a.''", OF r st seen] files
    by (auto simp: dir_zone_def cur)
qed

end
