(* ===== verification/Kube_Store.thy ===== *)
theory Kube_Store
  imports Chain "HOL-Library.AList"
begin

text \<open>
  The index of the Kubernetes objects, \<open>src/plugins/kubernetes/store.rs\<close>: conversion of the objects of
  the API, the indexes by address, and the loop that keeps them current from the events of a watch.

  A hash map that the code iterates over is an association list with distinct keys, whose order stands
  for the iteration order, which Rust leaves open; the other maps are functions. The objects of
  \<open>k8s_openapi\<close> are records of the fields the code reads, with nested optional parts that are read only through
  \<open>and_then\<close> flattened into one. Each operation takes the write locks of the
  maps it changes before it changes them and each map has one watcher that writes to it, so an
  operation is one step; the events of the watchers may interleave in any order. A look-up by address reads the
  index and then the objects, under one read lock after the other; here it is one step, and an event between
  the two reads is left out. The histogram of the
  latencies is not modelled.

  Shown here: whatever the events, the index of endpoint addresses is exact and the indexes of
  service and pod addresses point at objects that have the address; they are exact as long as no two objects
  share an address, and lose a live object when two do; after a relist the services are those of the list.
\<close>

section \<open>The index\<close>

record kport =
  kp_name :: string
  kp_protocol :: string
  kp_port :: u16

record endpoint =
  ep_ips :: "ip_addr list"
  ep_hostname :: "string option"
  ep_pod_name :: "string option"
  ep_ready :: bool
  ep_ports :: "kport list"

record svc =
  svc_name :: string
  svc_namespace :: string
  svc_cluster_ips :: "ip_addr list"
  svc_headless :: bool
  svc_external_name :: "string option"
  svc_ports :: "kport list"
  svc_publish_not_ready :: bool
  svc_external_ips :: "ip_addr list"
  svc_external_hosts :: "string list"

record pod_info =
  pi_name :: string
  pi_namespace :: string
  pi_ips :: "ip_addr list"

type_synonym kkey = "string \<times> string"

type_synonym slices = "(string \<times> endpoint list) list"

definition svc_key :: "svc \<Rightarrow> kkey" where
  "svc_key s = (svc_namespace s, svc_name s)"

record kstore =
  ks_services :: "(kkey \<times> svc) list"
  ks_svc_by_ip :: "ip_addr \<rightharpoonup> kkey"
  ks_ext_by_ip :: "ip_addr \<rightharpoonup> kkey"
  ks_endpoints :: "(kkey \<times> slices) list"
  ks_ep_by_ip :: "ip_addr \<rightharpoonup> kkey list"
  ks_pods :: "(kkey \<times> pod_info) list"
  ks_pod_by_ip :: "ip_addr \<rightharpoonup> kkey"
  ks_namespaces :: "string list"
  ks_services_synced :: bool
  ks_endpoints_synced :: bool
  ks_pods_synced :: bool
  ks_namespaces_synced :: bool

definition kstore_new :: kstore where
  "kstore_new = \<lparr>ks_services = [], ks_svc_by_ip = Map.empty, ks_ext_by_ip = Map.empty, ks_endpoints = [],
     ks_ep_by_ip = Map.empty, ks_pods = [], ks_pod_by_ip = Map.empty, ks_namespaces = [], ks_services_synced = False,
     ks_endpoints_synced = False, ks_pods_synced = False, ks_namespaces_synced = False\<rparr>"

subsection \<open>Queries\<close>

definition store_service :: "string \<Rightarrow> string \<Rightarrow> kstore \<Rightarrow> svc option" where
  "store_service ns name st = map_of (ks_services st) (ns, name)"

definition services_in :: "string \<Rightarrow> kstore \<Rightarrow> svc list" where
  "services_in ns st = filter (\<lambda>s. ns = ''*'' \<or> svc_namespace s = ns) (map snd (ks_services st))"

definition service_by_ip :: "ip_addr \<Rightarrow> kstore \<Rightarrow> svc option" where
  "service_by_ip ip st = Option.bind (ks_svc_by_ip st ip) (map_of (ks_services st))"

definition service_by_external_ip :: "ip_addr \<Rightarrow> kstore \<Rightarrow> svc option" where
  "service_by_external_ip ip st = Option.bind (ks_ext_by_ip st ip) (map_of (ks_services st))"

definition store_endpoints :: "string \<Rightarrow> string \<Rightarrow> kstore \<Rightarrow> endpoint list" where
  "store_endpoints ns name st =
     (case map_of (ks_endpoints st) (ns, name) of Some sl \<Rightarrow> concat (map snd sl) | None \<Rightarrow> [])"

definition services_by_endpoint_ip :: "ip_addr \<Rightarrow> kstore \<Rightarrow> kkey list" where
  "services_by_endpoint_ip ip st = values_of (ks_ep_by_ip st) ip"

definition pod_by_ip :: "ip_addr \<Rightarrow> kstore \<Rightarrow> pod_info option" where
  "pod_by_ip ip st = Option.bind (ks_pod_by_ip st ip) (map_of (ks_pods st))"

definition namespace_exists :: "string \<Rightarrow> kstore \<Rightarrow> bool" where
  "namespace_exists ns st \<longleftrightarrow> ns \<in> set (ks_namespaces st)"

definition store_synced :: "bool \<Rightarrow> bool \<Rightarrow> kstore \<Rightarrow> bool" where
  "store_synced pods eps st \<longleftrightarrow> ks_services_synced st \<and> ks_namespaces_synced st \<and>
     (\<not> eps \<or> ks_endpoints_synced st) \<and> (\<not> pods \<or> ks_pods_synced st)"

section \<open>Objects of the API\<close>

record object_meta =
  om_name :: "string option"
  om_generate_name :: "string option"
  om_namespace :: "string option"
  om_labels :: "string \<rightharpoonup> string"

text \<open>\<open>ResourceExt::name_any\<close>.\<close>

definition name_any :: "object_meta \<Rightarrow> string" where
  "name_any m = (case om_name m of Some n \<Rightarrow> n | None \<Rightarrow> (case om_generate_name m of Some n \<Rightarrow> n | None \<Rightarrow> []))"

definition or_default :: "string option \<Rightarrow> string" where
  "or_default x = (case x of Some v \<Rightarrow> v | None \<Rightarrow> [])"

record api_port =
  ap_name :: "string option"
  ap_protocol :: "string option"
  ap_port :: "int option"

record api_spec =
  as_type :: "string option"
  as_cluster_ips :: "string list option"
  as_cluster_ip :: "string option"
  as_ports :: "api_port list option"
  as_external_ips :: "string list option"
  as_external_name :: "string option"
  as_publish_not_ready :: "bool option"

record api_ingress =
  ai_ip :: "string option"
  ai_hostname :: "string option"

record api_service =
  sv_meta :: object_meta
  sv_spec :: "api_spec option"
  sv_ingress :: "api_ingress list option"

record api_ref =
  ref_kind :: "string option"
  ref_name :: "string option"

record api_endpoint =
  ae_addresses :: "string list"
  ae_hostname :: "string option"
  ae_target :: "api_ref option"
  ae_ready :: "bool option"

record api_slice =
  sl_meta :: object_meta
  sl_ports :: "api_port list option"
  sl_endpoints :: "api_endpoint list"

record api_address =
  ad_ip :: string
  ad_hostname :: "string option"
  ad_target :: "api_ref option"

record api_subset =
  su_ports :: "api_port list option"
  su_addresses :: "api_address list option"
  su_not_ready :: "api_address list option"

record api_endpoints =
  es_meta :: object_meta
  es_subsets :: "api_subset list option"

record api_pod =
  pd_meta :: object_meta
  pd_phase :: "string option"
  pd_pod_ips :: "string list option"
  pd_pod_ip :: "string option"

record api_namespace =
  ns_meta :: object_meta

text \<open>\<open>u16::try_from\<close> of an \<open>i32\<close>.\<close>

definition port_u16 :: "int \<Rightarrow> u16 option" where
  "port_u16 p = (if 0 \<le> p \<and> p < 65536 then Some (word_of_int p) else None)"

definition kport_of :: "api_port \<Rightarrow> kport option" where
  "kport_of p = map_option (\<lambda>n. \<lparr>kp_name = or_default (ap_name p),
     kp_protocol = (case ap_protocol p of Some x \<Rightarrow> x | None \<Rightarrow> ''TCP''), kp_port = n\<rparr>) (Option.bind (ap_port p) port_u16)"

definition kports_of :: "api_port list option \<Rightarrow> kport list" where
  "kports_of ps = List.map_filter kport_of (case ps of Some l \<Rightarrow> l | None \<Rightarrow> [])"

definition addrs_of :: "string list option \<Rightarrow> ip_addr list" where
  "addrs_of l = List.map_filter parse_ip (case l of Some x \<Rightarrow> x | None \<Rightarrow> [])"

definition pod_ref :: "api_ref option \<Rightarrow> string option" where
  "pod_ref r = Option.bind r (\<lambda>x. if ref_kind x = Some ''Pod'' then ref_name x else None)"

fun push_ingress :: "ip_addr list \<times> string list \<Rightarrow> api_ingress \<Rightarrow> ip_addr list \<times> string list" where
  "push_ingress (ips, hosts) i =
     (ips @ (case Option.bind (ai_ip i) parse_ip of Some ip \<Rightarrow> [ip] | None \<Rightarrow> []),
      hosts @ (case ai_hostname i of Some h \<Rightarrow> [h] | None \<Rightarrow> []))"

definition convert_service :: "api_service \<Rightarrow> svc option" where
  "convert_service s =
     (case (om_namespace (sv_meta s), sv_spec s) of
        (Some ns, Some spec) \<Rightarrow>
          (let ty = (case as_type spec of Some t \<Rightarrow> t | None \<Rightarrow> ''ClusterIP'');
               ips0 = addrs_of (as_cluster_ips spec);
               ips = (if ips0 = [] then (case Option.bind (as_cluster_ip spec) parse_ip of Some ip \<Rightarrow> [ip] | None \<Rightarrow> []) else ips0);
               ext = foldl push_ingress (addrs_of (as_external_ips spec), []) (case sv_ingress s of Some l \<Rightarrow> l | None \<Rightarrow> [])
           in Some \<lparr>svc_name = name_any (sv_meta s), svc_namespace = ns, svc_cluster_ips = ips,
                svc_headless = (as_cluster_ip spec = Some ''None'' \<or> (ips = [] \<and> ty \<noteq> ''ExternalName'')),
                svc_external_name = (if ty = ''ExternalName'' then as_external_name spec else None),
                svc_ports = kports_of (as_ports spec),
                svc_publish_not_ready = (case as_publish_not_ready spec of Some b \<Rightarrow> b | None \<Rightarrow> False),
                svc_external_ips = fst ext, svc_external_hosts = snd ext\<rparr>)
      | _ \<Rightarrow> None)"

section \<open>Changes\<close>

definition del_ips :: "ip_addr list \<Rightarrow> (ip_addr \<rightharpoonup> 'k) \<Rightarrow> (ip_addr \<rightharpoonup> 'k)" where
  "del_ips ips m = foldl (\<lambda>m ip. m(ip := None)) m ips"

definition put_ips :: "'k \<Rightarrow> ip_addr list \<Rightarrow> (ip_addr \<rightharpoonup> 'k) \<Rightarrow> (ip_addr \<rightharpoonup> 'k)" where
  "put_ips k ips m = foldl (\<lambda>m ip. m(ip \<mapsto> k)) m ips"

text \<open>Taking a service out of the indexes, with the addresses of the entry the store has for its key.\<close>

definition forget_service :: "kkey \<Rightarrow> kstore \<Rightarrow> kstore" where
  "forget_service k st =
     (case map_of (ks_services st) k of
        None \<Rightarrow> st
      | Some old \<Rightarrow> st\<lparr>ks_svc_by_ip := del_ips (svc_cluster_ips old) (ks_svc_by_ip st),
                       ks_ext_by_ip := del_ips (svc_external_ips old) (ks_ext_by_ip st)\<rparr>)"

definition apply_service :: "api_service \<Rightarrow> kstore \<Rightarrow> kstore" where
  "apply_service s st =
     (case convert_service s of
        None \<Rightarrow> st
      | Some v \<Rightarrow>
          (let st1 = forget_service (svc_key v) st in
           st1\<lparr>ks_svc_by_ip := put_ips (svc_key v) (svc_cluster_ips v) (ks_svc_by_ip st1),
               ks_ext_by_ip := put_ips (svc_key v) (svc_external_ips v) (ks_ext_by_ip st1),
               ks_services := AList.update (svc_key v) v (ks_services st1)\<rparr>))"

definition remove_service :: "kkey \<Rightarrow> kstore \<Rightarrow> kstore" where
  "remove_service k st = (let st1 = forget_service k st in st1\<lparr>ks_services := AList.delete k (ks_services st1)\<rparr>)"

definition delete_service :: "api_service \<Rightarrow> kstore \<Rightarrow> kstore" where
  "delete_service s = remove_service (or_default (om_namespace (sv_meta s)), name_any (sv_meta s))"

definition has_ip :: "ip_addr \<Rightarrow> endpoint list \<Rightarrow> bool" where
  "has_ip ip es \<longleftrightarrow> list_ex (\<lambda>e. ip \<in> set (ep_ips e)) es"

definition drop_ep_ip :: "'k \<Rightarrow> endpoint list \<Rightarrow> (ip_addr \<rightharpoonup> 'k list) \<Rightarrow> ip_addr \<Rightarrow> (ip_addr \<rightharpoonup> 'k list)" where
  "drop_ep_ip k others b ip =
     (if has_ip ip others then b
      else (case b ip of
          None \<Rightarrow> b
        | Some ks \<Rightarrow> (let ks' = removeAll k ks in if ks' = [] then b(ip := None) else b(ip \<mapsto> ks'))))"

definition add_ep_ip :: "'k \<Rightarrow> (ip_addr \<rightharpoonup> 'k list) \<Rightarrow> ip_addr \<Rightarrow> (ip_addr \<rightharpoonup> 'k list)" where
  "add_ep_ip k b ip = b(ip \<mapsto> List.insert k (values_of b ip))"

definition set_slice :: "kkey \<Rightarrow> string \<Rightarrow> endpoint list \<Rightarrow> kstore \<Rightarrow> kstore" where
  "set_slice k sn eps st =
     (let sl0 = (case map_of (ks_endpoints st) k of Some x \<Rightarrow> x | None \<Rightarrow> []);
          sl = AList.delete sn sl0;
          b1 = (case map_of sl0 sn of
                  None \<Rightarrow> ks_ep_by_ip st
                | Some old \<Rightarrow> foldl (\<lambda>b e. foldl (drop_ep_ip k (concat (map snd sl) @ eps)) b (ep_ips e)) (ks_ep_by_ip st) old);
          b2 = foldl (\<lambda>b e. foldl (add_ep_ip k) b (ep_ips e)) b1 eps
      in st\<lparr>ks_ep_by_ip := b2,
            ks_endpoints := (if eps = [] then (if sl = [] then AList.delete k (ks_endpoints st) else AList.update k sl (ks_endpoints st))
                             else AList.update k (AList.update sn eps sl) (ks_endpoints st))\<rparr>)"

definition slice_service :: "api_slice \<Rightarrow> kkey option" where
  "slice_service s =
     map_option (\<lambda>n. (or_default (om_namespace (sl_meta s)), n)) (om_labels (sl_meta s) ''kubernetes.io/service-name'')"

definition slice_endpoints :: "api_slice \<Rightarrow> endpoint list" where
  "slice_endpoints s = map (\<lambda>e. \<lparr>ep_ips = List.map_filter parse_ip (ae_addresses e), ep_hostname = ae_hostname e,
     ep_pod_name = pod_ref (ae_target e), ep_ready = (case ae_ready e of Some b \<Rightarrow> b | None \<Rightarrow> True),
     ep_ports = kports_of (sl_ports s)\<rparr>) (sl_endpoints s)"

definition apply_slice :: "api_slice \<Rightarrow> kstore \<Rightarrow> kstore" where
  "apply_slice s st =
     (case slice_service s of None \<Rightarrow> st | Some k \<Rightarrow> set_slice k (name_any (sl_meta s)) (slice_endpoints s) st)"

definition delete_slice :: "api_slice \<Rightarrow> kstore \<Rightarrow> kstore" where
  "delete_slice s st = (case slice_service s of None \<Rightarrow> st | Some k \<Rightarrow> set_slice k (name_any (sl_meta s)) [] st)"

definition address_endpoint :: "kport list \<Rightarrow> bool \<Rightarrow> api_address \<Rightarrow> endpoint" where
  "address_endpoint ports ready a = \<lparr>ep_ips = (case parse_ip (ad_ip a) of Some ip \<Rightarrow> [ip] | None \<Rightarrow> []),
     ep_hostname = ad_hostname a, ep_pod_name = pod_ref (ad_target a), ep_ready = ready, ep_ports = ports\<rparr>"

definition subset_endpoints :: "api_subset \<Rightarrow> endpoint list" where
  "subset_endpoints u =
     (let ports = kports_of (su_ports u) in
      map (address_endpoint ports True) (case su_addresses u of Some l \<Rightarrow> l | None \<Rightarrow> [])
      @ map (address_endpoint ports False) (case su_not_ready u of Some l \<Rightarrow> l | None \<Rightarrow> []))"

definition endpoints_key :: "api_endpoints \<Rightarrow> kkey" where
  "endpoints_key e = (or_default (om_namespace (es_meta e)), name_any (es_meta e))"

definition apply_endpoints :: "api_endpoints \<Rightarrow> kstore \<Rightarrow> kstore" where
  "apply_endpoints e = set_slice (endpoints_key e) ''endpoints''
     (concat (map subset_endpoints (case es_subsets e of Some l \<Rightarrow> l | None \<Rightarrow> [])))"

definition delete_endpoints :: "api_endpoints \<Rightarrow> kstore \<Rightarrow> kstore" where
  "delete_endpoints e = set_slice (endpoints_key e) ''endpoints'' []"

definition remove_pod :: "kkey \<Rightarrow> kstore \<Rightarrow> kstore" where
  "remove_pod k st =
     (case map_of (ks_pods st) k of
        None \<Rightarrow> st
      | Some old \<Rightarrow> st\<lparr>ks_pods := AList.delete k (ks_pods st), ks_pod_by_ip := del_ips (pi_ips old) (ks_pod_by_ip st)\<rparr>)"

definition pod_key :: "api_pod \<Rightarrow> kkey" where
  "pod_key p = (or_default (om_namespace (pd_meta p)), name_any (pd_meta p))"

definition pod_addrs :: "api_pod \<Rightarrow> ip_addr list" where
  "pod_addrs p =
     (let ips = addrs_of (pd_pod_ips p) in
      if ips = [] then (case Option.bind (pd_pod_ip p) parse_ip of Some ip \<Rightarrow> [ip] | None \<Rightarrow> []) else ips)"

definition apply_pod :: "api_pod \<Rightarrow> kstore \<Rightarrow> kstore" where
  "apply_pod p st =
     (let k = pod_key p; ips = pod_addrs p; phase = or_default (pd_phase p); st1 = remove_pod k st in
      if ips = [] \<or> phase = ''Succeeded'' \<or> phase = ''Failed'' then st1
      else st1\<lparr>ks_pod_by_ip := put_ips k ips (ks_pod_by_ip st1),
               ks_pods := AList.update k \<lparr>pi_name = snd k, pi_namespace = fst k, pi_ips = ips\<rparr> (ks_pods st1)\<rparr>)"

definition delete_pod :: "api_pod \<Rightarrow> kstore \<Rightarrow> kstore" where
  "delete_pod p = remove_pod (pod_key p)"

definition apply_namespace :: "api_namespace \<Rightarrow> kstore \<Rightarrow> kstore" where
  "apply_namespace n st = st\<lparr>ks_namespaces := List.insert (name_any (ns_meta n)) (ks_namespaces st)\<rparr>"

definition delete_namespace :: "api_namespace \<Rightarrow> kstore \<Rightarrow> kstore" where
  "delete_namespace n st = st\<lparr>ks_namespaces := removeAll (name_any (ns_meta n)) (ks_namespaces st)\<rparr>"

section \<open>Watches\<close>

definition retain_services :: "kkey set \<Rightarrow> kstore \<Rightarrow> kstore" where
  "retain_services seen st = foldl (\<lambda>st k. remove_service k st) st (filter (\<lambda>k. k \<notin> seen) (map fst (ks_services st)))"

definition retain_slices :: "kkey set \<Rightarrow> kstore \<Rightarrow> kstore" where
  "retain_slices seen st =
     foldl (\<lambda>st (k, sl). set_slice k sl [] st) st
       (filter (\<lambda>(k, sl). (fst k, sl) \<notin> seen) (concat (map (\<lambda>(k, sls). map (\<lambda>(sl, _). (k, sl)) sls) (ks_endpoints st))))"

definition retain_endpoints :: "kkey set \<Rightarrow> kstore \<Rightarrow> kstore" where
  "retain_endpoints seen st =
     foldl (\<lambda>st k. set_slice k ''endpoints'' [] st) st (filter (\<lambda>k. k \<notin> seen) (map fst (ks_endpoints st)))"

definition retain_pods :: "kkey set \<Rightarrow> kstore \<Rightarrow> kstore" where
  "retain_pods seen st = foldl (\<lambda>st k. remove_pod k st) st (filter (\<lambda>k. k \<notin> seen) (map fst (ks_pods st)))"

definition retain_namespaces :: "kkey set \<Rightarrow> kstore \<Rightarrow> kstore" where
  "retain_namespaces seen st = st\<lparr>ks_namespaces := filter (\<lambda>n. ([], n) \<in> seen) (ks_namespaces st)\<rparr>"

datatype 'k watch_event = WInit | WInitApply 'k | WInitDone | WApply 'k | WDelete 'k

text \<open>What \<open>watch_loop\<close> is called with for a kind of object.\<close>

record 'k watcher =
  wa_meta :: "'k \<Rightarrow> object_meta"
  wa_apply :: "'k \<Rightarrow> kstore \<Rightarrow> kstore"
  wa_delete :: "'k \<Rightarrow> kstore \<Rightarrow> kstore"
  wa_retain :: "kkey set \<Rightarrow> kstore \<Rightarrow> kstore"
  wa_mark :: "kstore \<Rightarrow> kstore"

definition key_of :: "object_meta \<Rightarrow> kkey" where
  "key_of m = (or_default (om_namespace m), or_default (om_name m))"

fun watch_step :: "'k watcher \<Rightarrow> kkey set \<times> kstore \<Rightarrow> 'k watch_event \<Rightarrow> kkey set \<times> kstore" where
  "watch_step w (seen, st) WInit = ({}, st)"
| "watch_step w (seen, st) (WInitApply obj) = (insert (key_of (wa_meta w obj)) seen, wa_apply w obj st)"
| "watch_step w (seen, st) WInitDone = (seen, wa_mark w (wa_retain w seen st))"
| "watch_step w (seen, st) (WApply obj) = (seen, wa_apply w obj st)"
| "watch_step w (seen, st) (WDelete obj) = (seen, wa_delete w obj st)"

definition service_watcher :: "api_service watcher" where
  "service_watcher = \<lparr>wa_meta = sv_meta, wa_apply = apply_service, wa_delete = delete_service,
     wa_retain = retain_services, wa_mark = (\<lambda>st. st\<lparr>ks_services_synced := True\<rparr>)\<rparr>"

definition namespace_watcher :: "api_namespace watcher" where
  "namespace_watcher = \<lparr>wa_meta = ns_meta, wa_apply = apply_namespace, wa_delete = delete_namespace,
     wa_retain = retain_namespaces, wa_mark = (\<lambda>st. st\<lparr>ks_namespaces_synced := True\<rparr>)\<rparr>"

definition slice_watcher :: "api_slice watcher" where
  "slice_watcher = \<lparr>wa_meta = sl_meta, wa_apply = apply_slice, wa_delete = delete_slice,
     wa_retain = retain_slices, wa_mark = (\<lambda>st. st\<lparr>ks_endpoints_synced := True\<rparr>)\<rparr>"

definition endpoints_watcher :: "api_endpoints watcher" where
  "endpoints_watcher = \<lparr>wa_meta = es_meta, wa_apply = apply_endpoints, wa_delete = delete_endpoints,
     wa_retain = retain_endpoints, wa_mark = (\<lambda>st. st\<lparr>ks_endpoints_synced := True\<rparr>)\<rparr>"

definition pod_watcher :: "api_pod watcher" where
  "pod_watcher = \<lparr>wa_meta = pd_meta, wa_apply = apply_pod, wa_delete = delete_pod,
     wa_retain = retain_pods, wa_mark = (\<lambda>st. st\<lparr>ks_pods_synced := True\<rparr>)\<rparr>"

text \<open>
  \<open>start\<close>: the watchers of the options, with those of the endpoints chosen by the discovery. What the
  options do not watch counts as synced.
\<close>

record watch_options =
  wo_watch_pods :: bool
  wo_watch_endpoints :: bool

record watchers =
  ws_services :: "kkey set"
  ws_namespaces :: "kkey set"
  ws_endpoints :: "kkey set"
  ws_pods :: "kkey set"
  ws_store :: kstore

definition start_watchers :: "watch_options \<Rightarrow> kstore \<Rightarrow> watchers" where
  "start_watchers opts st = \<lparr>ws_services = {}, ws_namespaces = {}, ws_endpoints = {}, ws_pods = {},
     ws_store = st\<lparr>ks_endpoints_synced := (ks_endpoints_synced st \<or> \<not> wo_watch_endpoints opts),
                    ks_pods_synced := (ks_pods_synced st \<or> \<not> wo_watch_pods opts)\<rparr>\<rparr>"

datatype kube_event =
    ServiceEvent "api_service watch_event" | NamespaceEvent "api_namespace watch_event"
  | SliceEvent "api_slice watch_event" | EndpointsEvent "api_endpoints watch_event" | PodEvent "api_pod watch_event"

text \<open>The events that can arise: the endpoints are watched as slices when the server has them.\<close>

fun event_ok :: "watch_options \<Rightarrow> bool \<Rightarrow> kube_event \<Rightarrow> bool" where
  "event_ok opts have_slices (SliceEvent _) \<longleftrightarrow> wo_watch_endpoints opts \<and> have_slices"
| "event_ok opts have_slices (EndpointsEvent _) \<longleftrightarrow> wo_watch_endpoints opts \<and> \<not> have_slices"
| "event_ok opts have_slices (PodEvent _) \<longleftrightarrow> wo_watch_pods opts"
| "event_ok opts have_slices _ \<longleftrightarrow> True"

fun kube_step :: "watchers \<Rightarrow> kube_event \<Rightarrow> watchers" where
  "kube_step ws (ServiceEvent ev) =
     (case watch_step service_watcher (ws_services ws, ws_store ws) ev of (x, st) \<Rightarrow> ws\<lparr>ws_services := x, ws_store := st\<rparr>)"
| "kube_step ws (NamespaceEvent ev) =
     (case watch_step namespace_watcher (ws_namespaces ws, ws_store ws) ev of (x, st) \<Rightarrow> ws\<lparr>ws_namespaces := x, ws_store := st\<rparr>)"
| "kube_step ws (SliceEvent ev) =
     (case watch_step slice_watcher (ws_endpoints ws, ws_store ws) ev of (x, st) \<Rightarrow> ws\<lparr>ws_endpoints := x, ws_store := st\<rparr>)"
| "kube_step ws (EndpointsEvent ev) =
     (case watch_step endpoints_watcher (ws_endpoints ws, ws_store ws) ev of (x, st) \<Rightarrow> ws\<lparr>ws_endpoints := x, ws_store := st\<rparr>)"
| "kube_step ws (PodEvent ev) =
     (case watch_step pod_watcher (ws_pods ws, ws_store ws) ev of (x, st) \<Rightarrow> ws\<lparr>ws_pods := x, ws_store := st\<rparr>)"

section \<open>Indexes by address\<close>

text \<open>An index of objects by address is sound when it points at objects that have the address, exact when it has all of them.\<close>

definition index_sound :: "('o \<Rightarrow> ip_addr list) \<Rightarrow> ('k \<times> 'o) list \<Rightarrow> (ip_addr \<rightharpoonup> 'k) \<Rightarrow> bool" where
  "index_sound ips objs m \<longleftrightarrow> (\<forall>ip k. m ip = Some k \<longrightarrow> (\<exists>x. map_of objs k = Some x \<and> ip \<in> set (ips x)))"

definition index_exact :: "('o \<Rightarrow> ip_addr list) \<Rightarrow> ('k \<times> 'o) list \<Rightarrow> (ip_addr \<rightharpoonup> 'k) \<Rightarrow> bool" where
  "index_exact ips objs m \<longleftrightarrow> (\<forall>ip k. m ip = Some k \<longleftrightarrow> (\<exists>x. map_of objs k = Some x \<and> ip \<in> set (ips x)))"

definition unshared :: "('o \<Rightarrow> ip_addr list) \<Rightarrow> ('k \<times> 'o) list \<Rightarrow> bool" where
  "unshared ips objs \<longleftrightarrow> (\<forall>k k' x x' ip. map_of objs k = Some x \<longrightarrow> map_of objs k' = Some x' \<longrightarrow>
     ip \<in> set (ips x) \<longrightarrow> ip \<in> set (ips x') \<longrightarrow> k = k')"

definition held_ips :: "('o \<Rightarrow> ip_addr list) \<Rightarrow> ('k \<times> 'o) list \<Rightarrow> 'k \<Rightarrow> ip_addr list" where
  "held_ips ips objs k = (case map_of objs k of Some x \<Rightarrow> ips x | None \<Rightarrow> [])"

lemma del_ips_apply: "del_ips ips m ip = (if ip \<in> set ips then None else m ip)"
  unfolding del_ips_def by (induction ips arbitrary: m) auto

lemma put_ips_apply: "put_ips k ips m ip = (if ip \<in> set ips then Some k else m ip)"
  unfolding put_ips_def by (induction ips arbitrary: m) auto

lemma held_ips_iff: "ip \<in> set (held_ips ips objs k) \<longleftrightarrow> (\<exists>x. map_of objs k = Some x \<and> ip \<in> set (ips x))"
  by (cases "map_of objs k") (simp_all add: held_ips_def)

lemma index_sound_update:
  "index_sound ips objs m \<Longrightarrow>
   index_sound ips (AList.update k v objs) (put_ips k (ips v) (del_ips (held_ips ips objs k) m))"
  unfolding index_sound_def put_ips_apply del_ips_apply held_ips_iff update_conv' by (metis fun_upd_other fun_upd_same option.discI option.inject)

lemma index_sound_delete:
  "index_sound ips objs m \<Longrightarrow> index_sound ips (AList.delete k objs) (del_ips (held_ips ips objs k) m)"
  unfolding index_sound_def del_ips_apply held_ips_iff delete_conv' by (metis fun_upd_other option.discI)

lemma index_exact_update:
  assumes e: "index_exact ips objs m" and u: "unshared ips objs" "unshared ips (AList.update k v objs)"
  shows "index_exact ips (AList.update k v objs) (put_ips k (ips v) (del_ips (held_ips ips objs k) m))"
proof -
  have "put_ips k (ips v) (del_ips (held_ips ips objs k) m) ip = Some k' \<longleftrightarrow>
      (\<exists>x. map_of (AList.update k v objs) k' = Some x \<and> ip \<in> set (ips x))" (is "?l \<longleftrightarrow> ?r") for ip k'
  proof
    have "index_sound ips objs m" using e by (simp add: index_exact_def index_sound_def)
    then show "?l \<Longrightarrow> ?r" using index_sound_update [of ips objs m k v] by (simp add: index_sound_def)
    assume ?r
    then obtain x where x: "map_of (AList.update k v objs) k' = Some x" "ip \<in> set (ips x)" by blast
    show ?l
    proof (cases "k' = k")
      case False
      have v: "map_of (AList.update k v objs) k = Some v" by (simp add: update_conv')
      from False x have o: "map_of objs k' = Some x" by (simp add: update_conv')
      with e x have "m ip = Some k'" by (auto simp: index_exact_def)
      moreover have "ip \<notin> set (ips v)" using u(2) x v False unfolding unshared_def by blast
      moreover have "ip \<notin> set (held_ips ips objs k)"
        using u(1) x(2) o False unfolding unshared_def held_ips_iff by blast
      ultimately show ?thesis by (simp add: put_ips_apply del_ips_apply)
    qed (use x in \<open>simp add: update_conv' put_ips_apply\<close>)
  qed
  then show ?thesis unfolding index_exact_def by blast
qed

lemma index_exact_delete:
  "index_exact ips objs m \<Longrightarrow> unshared ips objs \<Longrightarrow>
   index_exact ips (AList.delete k objs) (del_ips (held_ips ips objs k) m)"
  unfolding index_exact_def held_ips_iff del_ips_apply delete_conv' unshared_def
  by (metis fun_upd_other fun_upd_same option.discI)

section \<open>The index of endpoint addresses\<close>

definition slice_ips :: "slices \<Rightarrow> ip_addr set" where
  "slice_ips sl = {ip. has_ip ip (concat (map snd sl))}"

definition ep_index_ok :: "kstore \<Rightarrow> bool" where
  "ep_index_ok st \<longleftrightarrow>
     (\<forall>k sl. map_of (ks_endpoints st) k = Some sl \<longrightarrow> distinct (map fst sl)) \<and>
     (\<forall>ip k. k \<in> set (values_of (ks_ep_by_ip st) ip) \<longleftrightarrow> (\<exists>sl. map_of (ks_endpoints st) k = Some sl \<and> ip \<in> slice_ips sl))"

lemma has_ip_append [simp]: "has_ip ip (xs @ ys) \<longleftrightarrow> has_ip ip xs \<or> has_ip ip ys"
  by (simp add: has_ip_def)

lemma has_ip_Nil [simp]: "\<not> has_ip ip []"
  by (simp add: has_ip_def)

lemma has_ip_concat: "has_ip ip (concat (map snd sl)) \<longleftrightarrow> (\<exists>p \<in> set sl. has_ip ip (snd p))"
  by (induction sl) auto

lemma removeAll_Nil_iff: "removeAll k xs = [] \<longleftrightarrow> set xs \<subseteq> {k}"
  by (induction xs) auto

lemma set_drop_ep_ip:
  "set (values_of (drop_ep_ip k others b ip') ip) =
   set (values_of b ip) - (if ip = ip' \<and> \<not> has_ip ip others then {k} else {})"
  by (auto simp: drop_ep_ip_def values_of_def Let_def removeAll_Nil_iff split: option.splits)

lemma set_add_ep_ip: "set (values_of (add_ep_ip k b ip') ip) = (if ip = ip' then {k} else {}) \<union> set (values_of b ip)"
  by (auto simp: add_ep_ip_def values_of_def)

lemma set_drop_ep_ips:
  "set (values_of (foldl (drop_ep_ip k others) b ips) ip) =
   set (values_of b ip) - (if ip \<in> set ips \<and> \<not> has_ip ip others then {k} else {})"
  by (induction ips arbitrary: b) (auto simp: set_drop_ep_ip)

lemma set_drop_endpoints:
  "set (values_of (foldl (\<lambda>b e. foldl (drop_ep_ip k others) b (ep_ips e)) b es) ip) =
   set (values_of b ip) - (if has_ip ip es \<and> \<not> has_ip ip others then {k} else {})"
  by (induction es arbitrary: b) (auto simp: set_drop_ep_ips has_ip_def)

lemma set_add_ep_ips:
  "set (values_of (foldl (add_ep_ip k) b ips) ip) = (if ip \<in> set ips then {k} else {}) \<union> set (values_of b ip)"
  by (induction ips arbitrary: b) (auto simp: set_add_ep_ip)

lemma set_add_endpoints:
  "set (values_of (foldl (\<lambda>b e. foldl (add_ep_ip k) b (ep_ips e)) b es) ip) =
   (if has_ip ip es then {k} else {}) \<union> set (values_of b ip)"
  by (induction es arbitrary: b) (auto simp: set_add_ep_ips has_ip_def)

lemma slice_ips_delete:
  assumes "distinct (map fst sl)"
  shows "slice_ips sl = slice_ips (AList.delete sn sl) \<union> {ip. \<exists>old. map_of sl sn = Some old \<and> has_ip ip old}"
proof -
  have "(\<exists>p \<in> set sl. fst p = sn \<and> has_ip ip (snd p)) \<longleftrightarrow> (\<exists>old. map_of sl sn = Some old \<and> has_ip ip old)" for ip
    using assms by force
  moreover have "has_ip ip (concat (map snd (AList.delete sn sl))) \<longleftrightarrow> (\<exists>p \<in> set sl. fst p \<noteq> sn \<and> has_ip ip (snd p))" for ip
    unfolding has_ip_concat AList.delete_eq by force
  ultimately show ?thesis unfolding slice_ips_def has_ip_concat [of _ sl] by blast
qed

lemma slice_ips_update:
  assumes "sn \<notin> fst ` set sl"
  shows "slice_ips (AList.update sn es sl) = slice_ips sl \<union> {ip. has_ip ip es}"
  using assms by (induction sl) (auto simp: slice_ips_def)

lemma set_slice_frame [simp]:
  "ks_services (set_slice k sn eps st) = ks_services st" "ks_svc_by_ip (set_slice k sn eps st) = ks_svc_by_ip st"
  "ks_ext_by_ip (set_slice k sn eps st) = ks_ext_by_ip st" "ks_pods (set_slice k sn eps st) = ks_pods st"
  "ks_pod_by_ip (set_slice k sn eps st) = ks_pod_by_ip st" "ks_namespaces (set_slice k sn eps st) = ks_namespaces st"
  by (simp_all add: set_slice_def Let_def)

definition slices_of :: "kstore \<Rightarrow> kkey \<Rightarrow> slices" where
  "slices_of st k = (case map_of (ks_endpoints st) k of Some sl \<Rightarrow> sl | None \<Rightarrow> [])"

lemma ep_index_ok_iff:
  "ep_index_ok st \<longleftrightarrow> (\<forall>k. distinct (map fst (slices_of st k))) \<and>
     (\<forall>ip k. k \<in> set (values_of (ks_ep_by_ip st) ip) \<longleftrightarrow> ip \<in> slice_ips (slices_of st k))"
proof -
  have "(\<exists>sl. map_of (ks_endpoints st) k = Some sl \<and> ip \<in> slice_ips sl) \<longleftrightarrow> ip \<in> slice_ips (slices_of st k)" for ip k
    by (cases "map_of (ks_endpoints st) k") (simp_all add: slices_of_def slice_ips_def)
  moreover have "(\<forall>sl. map_of (ks_endpoints st) k = Some sl \<longrightarrow> distinct (map fst sl)) \<longleftrightarrow> distinct (map fst (slices_of st k))" for k
    by (cases "map_of (ks_endpoints st) k") (simp_all add: slices_of_def)
  ultimately show ?thesis unfolding ep_index_ok_def by simp
qed

lemma slices_of_set_slice:
  "slices_of (set_slice k sn eps st) k' =
     (if k' = k then (let sl = AList.delete sn (slices_of st k) in if eps = [] then sl else AList.update sn eps sl)
      else slices_of st k')"
  by (simp add: slices_of_def set_slice_def Let_def update_conv' delete_conv')

lemma slice_ips_set_slice:
  assumes "distinct (map fst (slices_of st k))"
  shows "slice_ips (slices_of (set_slice k sn eps st) k) =
    slice_ips (AList.delete sn (slices_of st k)) \<union> {ip. has_ip ip eps}"
proof (cases "eps = []")
  case False
  then show ?thesis by (simp add: slices_of_set_slice slice_ips_update delete_notin_dom)
qed (simp add: slices_of_set_slice)

lemma ep_by_ip_set_slice:
  "set (values_of (ks_ep_by_ip (set_slice k sn eps st)) ip) =
     (if has_ip ip eps then {k} else {}) \<union>
     (set (values_of (ks_ep_by_ip st) ip) -
       (if (\<exists>old. map_of (slices_of st k) sn = Some old \<and> has_ip ip old) \<and>
           \<not> (ip \<in> slice_ips (AList.delete sn (slices_of st k)) \<or> has_ip ip eps) then {k} else {}))"
proof (cases "map_of (slices_of st k) sn")
  case None
  then show ?thesis by (simp add: set_slice_def Let_def slices_of_def [symmetric] set_add_endpoints)
next
  case (Some old)
  then show ?thesis
    by (simp add: set_slice_def Let_def slices_of_def [symmetric] set_add_endpoints set_drop_endpoints slice_ips_def)
qed

lemma ep_index_set_slice:
  assumes "ep_index_ok st"
  shows "ep_index_ok (set_slice k sn eps st)"
proof -
  from assms have d: "distinct (map fst (slices_of st k'))"
    and i: "k' \<in> set (values_of (ks_ep_by_ip st) ip) \<longleftrightarrow> ip \<in> slice_ips (slices_of st k')" for k' ip
    unfolding ep_index_ok_iff by blast+
  have "distinct (map fst (slices_of (set_slice k sn eps st) k'))" for k'
    using d [of k] d [of k'] by (simp add: slices_of_set_slice Let_def distinct_update distinct_delete)
  moreover have "k' \<in> set (values_of (ks_ep_by_ip (set_slice k sn eps st)) ip) \<longleftrightarrow>
      ip \<in> slice_ips (slices_of (set_slice k sn eps st) k')" for k' ip
  proof (cases "k' = k")
    case True
    then show ?thesis
      using slice_ips_delete [OF d [of k], of sn] by (auto simp: ep_by_ip_set_slice slice_ips_set_slice [OF d] i)
  next
    case False
    then show ?thesis by (simp add: ep_by_ip_set_slice slices_of_set_slice i)
  qed
  ultimately show ?thesis unfolding ep_index_ok_iff by blast
qed

section \<open>The invariant of the store\<close>

definition keyed :: "('o \<Rightarrow> 'k) \<Rightarrow> ('k \<times> 'o) list \<Rightarrow> bool" where
  "keyed key objs \<longleftrightarrow> distinct (map fst objs) \<and> (\<forall>k x. map_of objs k = Some x \<longrightarrow> key x = k)"

lemma keyed_update: "keyed key objs \<Longrightarrow> key x = k \<Longrightarrow> keyed key (AList.update k x objs)"
  by (simp add: keyed_def distinct_update update_conv')

lemma keyed_delete: "keyed key objs \<Longrightarrow> keyed key (AList.delete k objs)"
  by (simp add: keyed_def distinct_delete delete_conv')

lemma keyed_lookup: "keyed key objs \<Longrightarrow> map_of objs k = Some x \<Longrightarrow> key x = k"
  by (simp add: keyed_def)

definition pod_info_key :: "pod_info \<Rightarrow> kkey" where
  "pod_info_key p = (pi_namespace p, pi_name p)"

definition kstore_ok :: "kstore \<Rightarrow> bool" where
  "kstore_ok st \<longleftrightarrow> keyed svc_key (ks_services st) \<and> keyed pod_info_key (ks_pods st) \<and>
     index_sound svc_cluster_ips (ks_services st) (ks_svc_by_ip st) \<and>
     index_sound svc_external_ips (ks_services st) (ks_ext_by_ip st) \<and>
     index_sound pi_ips (ks_pods st) (ks_pod_by_ip st) \<and> ep_index_ok st"

lemma kstore_ok_new: "kstore_ok kstore_new"
  by (simp add: kstore_ok_def kstore_new_def keyed_def index_sound_def ep_index_ok_def)

lemma forget_service_alt:
  "forget_service k st = st\<lparr>ks_svc_by_ip := del_ips (held_ips svc_cluster_ips (ks_services st) k) (ks_svc_by_ip st),
     ks_ext_by_ip := del_ips (held_ips svc_external_ips (ks_services st) k) (ks_ext_by_ip st)\<rparr>"
  by (simp add: forget_service_def held_ips_def del_ips_def split: option.split)

lemma ep_index_frame:
  "ks_endpoints st' = ks_endpoints st \<Longrightarrow> ks_ep_by_ip st' = ks_ep_by_ip st \<Longrightarrow> ep_index_ok st' = ep_index_ok st"
  by (simp add: ep_index_ok_def)

lemma apply_service_ok: "kstore_ok st \<Longrightarrow> kstore_ok (apply_service s st)"
  by (cases "convert_service s")
    (simp_all add: apply_service_def kstore_ok_def forget_service_alt Let_def keyed_update index_sound_update ep_index_ok_def)

lemma remove_service_ok: "kstore_ok st \<Longrightarrow> kstore_ok (remove_service k st)"
  by (simp add: remove_service_def kstore_ok_def forget_service_alt Let_def keyed_delete index_sound_delete ep_index_ok_def)

lemma set_slice_ok: "kstore_ok st \<Longrightarrow> kstore_ok (set_slice k sn eps st)"
  by (simp add: kstore_ok_def ep_index_set_slice)

lemma remove_pod_alt:
  "remove_pod k st = st\<lparr>ks_pods := AList.delete k (ks_pods st),
     ks_pod_by_ip := del_ips (held_ips pi_ips (ks_pods st) k) (ks_pod_by_ip st)\<rparr>"
proof (cases "map_of (ks_pods st) k")
  case None
  then have "k \<notin> fst ` set (ks_pods st)" by (simp add: map_of_eq_None_iff)
  with None show ?thesis by (simp add: remove_pod_def held_ips_def del_ips_def)
qed (simp add: remove_pod_def held_ips_def)

lemma remove_pod_ok: "kstore_ok st \<Longrightarrow> kstore_ok (remove_pod k st)"
  by (simp add: remove_pod_alt kstore_ok_def keyed_delete index_sound_delete ep_index_ok_def)

lemma update_delete_same: "map_of (AList.delete k objs) k = None"
  by (simp add: delete_conv')

lemma apply_pod_ok:
  assumes "kstore_ok st"
  shows "kstore_ok (apply_pod p st)"
proof -
  let ?st = "remove_pod (pod_key p) st" and ?x = "\<lparr>pi_name = snd (pod_key p), pi_namespace = fst (pod_key p), pi_ips = pod_addrs p\<rparr>"
  have ok: "kstore_ok ?st" by (rule remove_pod_ok [OF assms])
  have "held_ips pi_ips (ks_pods ?st) (pod_key p) = []" by (simp add: remove_pod_alt held_ips_def update_delete_same)
  then have "index_sound pi_ips (AList.update (pod_key p) ?x (ks_pods ?st)) (put_ips (pod_key p) (pod_addrs p) (ks_pod_by_ip ?st))"
    using index_sound_update [of pi_ips "ks_pods ?st" "ks_pod_by_ip ?st" "pod_key p" ?x] ok by (simp add: kstore_ok_def del_ips_def)
  moreover have "keyed pod_info_key (AList.update (pod_key p) ?x (ks_pods ?st))"
    using ok by (simp add: kstore_ok_def keyed_update pod_info_key_def)
  ultimately show ?thesis using ok by (simp add: apply_pod_def Let_def kstore_ok_def ep_index_ok_def)
qed

lemma foldl_ok:
  assumes "\<And>x st. kstore_ok st \<Longrightarrow> kstore_ok (f st x)" "kstore_ok st"
  shows "kstore_ok (foldl f st xs)"
  using assms(2) by (induction xs arbitrary: st) (simp_all add: assms(1))
text \<open>What a watcher must keep; the loop then keeps it, whatever the events.\<close>

locale index_watcher =
  fixes w :: "'k watcher"
  assumes apply_keeps: "kstore_ok st \<Longrightarrow> kstore_ok (wa_apply w obj st)"
    and delete_keeps: "kstore_ok st \<Longrightarrow> kstore_ok (wa_delete w obj st)"
    and retain_keeps: "kstore_ok st \<Longrightarrow> kstore_ok (wa_retain w seen st)"
    and mark_keeps: "kstore_ok (wa_mark w st) = kstore_ok st"
begin

lemma step_keeps: "kstore_ok st \<Longrightarrow> watch_step w (seen, st) ev = (seen', st') \<Longrightarrow> kstore_ok st'"
  by (cases ev) (auto simp: apply_keeps delete_keeps retain_keeps mark_keeps)

end

lemma kstore_ok_flags [simp]:
  "kstore_ok (st\<lparr>ks_services_synced := a\<rparr>) = kstore_ok st" "kstore_ok (st\<lparr>ks_endpoints_synced := a\<rparr>) = kstore_ok st"
  "kstore_ok (st\<lparr>ks_pods_synced := a\<rparr>) = kstore_ok st" "kstore_ok (st\<lparr>ks_namespaces_synced := a\<rparr>) = kstore_ok st"
  "kstore_ok (st\<lparr>ks_namespaces := ns\<rparr>) = kstore_ok st"
  by (simp_all add: kstore_ok_def ep_index_ok_def)

interpretation service_watch: index_watcher service_watcher
  by unfold_locales
    (simp_all add: service_watcher_def apply_service_ok delete_service_def remove_service_ok retain_services_def foldl_ok)

interpretation namespace_watch: index_watcher namespace_watcher
  by unfold_locales (simp_all add: namespace_watcher_def apply_namespace_def delete_namespace_def retain_namespaces_def)

interpretation slice_watch: index_watcher slice_watcher
  by unfold_locales
    (auto simp: slice_watcher_def apply_slice_def delete_slice_def retain_slices_def set_slice_ok intro!: foldl_ok split: option.split)

interpretation endpoints_watch: index_watcher endpoints_watcher
  by unfold_locales
    (simp_all add: endpoints_watcher_def apply_endpoints_def delete_endpoints_def retain_endpoints_def set_slice_ok foldl_ok)

interpretation pod_watch: index_watcher pod_watcher
  by unfold_locales (simp_all add: pod_watcher_def apply_pod_ok delete_pod_def remove_pod_ok retain_pods_def foldl_ok)

lemma kube_step_ok: "kstore_ok (ws_store ws) \<Longrightarrow> kstore_ok (ws_store (kube_step ws ev))"
  by (cases ev) (auto split: prod.split dest: service_watch.step_keeps namespace_watch.step_keeps slice_watch.step_keeps
      endpoints_watch.step_keeps pod_watch.step_keeps)

lemma kube_run_ok: "kstore_ok (ws_store ws) \<Longrightarrow> kstore_ok (ws_store (foldl kube_step ws evs))"
  by (induction evs arbitrary: ws) (simp_all add: kube_step_ok)

lemma kube_start_ok: "kstore_ok (ws_store (start_watchers opts kstore_new))"
  by (simp add: start_watchers_def kstore_ok_new)

lemma index_lookup:
  assumes "keyed key objs" "index_sound ips objs m" "Option.bind (m ip) (map_of objs) = Some x"
  shows "map_of objs (key x) = Some x \<and> ip \<in> set (ips x)"
proof -
  obtain k where k: "m ip = Some k" "map_of objs k = Some x" using assms(3) by (auto simp: bind_eq_Some_conv)
  with assms(2) have "ip \<in> set (ips x)" unfolding index_sound_def by fastforce
  with k keyed_lookup [OF assms(1) k(2)] show ?thesis by simp
qed

lemma service_by_ipD:
  assumes "kstore_ok st" "service_by_ip ip st = Some v"
  shows "store_service (svc_namespace v) (svc_name v) st = Some v \<and> ip \<in> set (svc_cluster_ips v)"
  using index_lookup [of svc_key "ks_services st" svc_cluster_ips "ks_svc_by_ip st" ip v] assms
  by (simp add: kstore_ok_def service_by_ip_def store_service_def svc_key_def)

lemma service_by_external_ipD:
  assumes "kstore_ok st" "service_by_external_ip ip st = Some v"
  shows "store_service (svc_namespace v) (svc_name v) st = Some v \<and> ip \<in> set (svc_external_ips v)"
  using index_lookup [of svc_key "ks_services st" svc_external_ips "ks_ext_by_ip st" ip v] assms
  by (simp add: kstore_ok_def service_by_external_ip_def store_service_def svc_key_def)

lemma pod_by_ipD:
  assumes "kstore_ok st" "pod_by_ip ip st = Some p"
  shows "map_of (ks_pods st) (pi_namespace p, pi_name p) = Some p \<and> ip \<in> set (pi_ips p)"
  using index_lookup [of pod_info_key "ks_pods st" pi_ips "ks_pod_by_ip st" ip p] assms
  by (simp add: kstore_ok_def pod_by_ip_def pod_info_key_def)

lemma services_by_endpoint_ip_iff:
  assumes "kstore_ok st"
  shows "k \<in> set (services_by_endpoint_ip ip st) \<longleftrightarrow> has_ip ip (store_endpoints (fst k) (snd k) st)"
proof -
  have "store_endpoints (fst k) (snd k) st = concat (map snd (slices_of st k))"
    by (simp add: store_endpoints_def slices_of_def split: option.split)
  moreover have "k \<in> set (values_of (ks_ep_by_ip st) ip) \<longleftrightarrow> ip \<in> slice_ips (slices_of st k)"
    using assms unfolding kstore_ok_def ep_index_ok_iff by blast
  ultimately show ?thesis by (simp add: services_by_endpoint_ip_def slice_ips_def)
qed

section \<open>The services as a map\<close>

text \<open>
  The specification of the watch of the services: a map from keys to services, with the keys seen since the
  last relist began. The indexes and the other watchers do not show.
\<close>

fun spec_step :: "kkey set \<times> (kkey \<rightharpoonup> svc) \<Rightarrow> api_service watch_event \<Rightarrow> kkey set \<times> (kkey \<rightharpoonup> svc)" where
  "spec_step (seen, m) WInit = ({}, m)"
| "spec_step (seen, m) (WInitApply s) = (insert (key_of (sv_meta s)) seen,
     (case convert_service s of Some v \<Rightarrow> m(svc_key v \<mapsto> v) | None \<Rightarrow> m))"
| "spec_step (seen, m) WInitDone = (seen, m |` seen)"
| "spec_step (seen, m) (WApply s) = (seen, (case convert_service s of Some v \<Rightarrow> m(svc_key v \<mapsto> v) | None \<Rightarrow> m))"
| "spec_step (seen, m) (WDelete s) = (seen, m((or_default (om_namespace (sv_meta s)), name_any (sv_meta s)) := None))"

definition abs_services :: "watchers \<Rightarrow> kkey set \<times> (kkey \<rightharpoonup> svc)" where
  "abs_services ws = (ws_services ws, map_of (ks_services (ws_store ws)))"

fun service_events :: "kube_event list \<Rightarrow> api_service watch_event list" where
  "service_events [] = []"
| "service_events (ServiceEvent ev # evs) = ev # service_events evs"
| "service_events (_ # evs) = service_events evs"

lemma services_apply_service:
  "map_of (ks_services (apply_service s st)) =
     (case convert_service s of Some v \<Rightarrow> (map_of (ks_services st))(svc_key v \<mapsto> v) | None \<Rightarrow> map_of (ks_services st))"
  by (simp add: apply_service_def forget_service_alt Let_def update_conv' split: option.split)

lemma services_remove_service: "map_of (ks_services (remove_service k st)) = (map_of (ks_services st))(k := None)"
  by (simp add: remove_service_def forget_service_alt Let_def delete_conv')

lemma services_remove_all:
  "map_of (ks_services (foldl (\<lambda>st k. remove_service k st) st ks)) = map_of (ks_services st) |` (- set ks)"
  by (induction ks arbitrary: st) (auto simp: services_remove_service restrict_map_def fun_eq_iff)

lemma services_retain: "map_of (ks_services (retain_services seen st)) = map_of (ks_services st) |` seen"
proof
  fix k
  show "map_of (ks_services (retain_services seen st)) k = (map_of (ks_services st) |` seen) k"
    by (cases "k \<in> fst ` set (ks_services st)")
      (simp_all add: retain_services_def services_remove_all restrict_map_def map_of_eq_None_iff [THEN iffD2])
qed

lemma services_set_slices [simp]: "ks_services (foldl (\<lambda>st (k, sl). set_slice k sl eps st) st xs) = ks_services st"
  by (induction xs arbitrary: st) (auto split: prod.split)

lemma services_set_slices' [simp]: "ks_services (foldl (\<lambda>st k. set_slice k sn eps st) st xs) = ks_services st"
  by (induction xs arbitrary: st) auto

lemma services_remove_pod [simp]: "ks_services (remove_pod k st) = ks_services st"
  by (simp add: remove_pod_alt)

lemma services_remove_pods [simp]: "ks_services (foldl (\<lambda>st k. remove_pod k st) st ks) = ks_services st"
  by (induction ks arbitrary: st) auto

lemma abs_service_step: "abs_services (kube_step ws (ServiceEvent ev)) = spec_step (abs_services ws) ev"
  by (cases ev) (simp_all add: abs_services_def service_watcher_def services_apply_service delete_service_def
      services_remove_service services_retain)

lemma abs_other_step: "(\<And>ev. e \<noteq> ServiceEvent ev) \<Longrightarrow> abs_services (kube_step ws e) = abs_services ws"
proof (cases e)
  case (NamespaceEvent ev)
  then show ?thesis by (cases ev) (simp_all add: abs_services_def namespace_watcher_def apply_namespace_def
        delete_namespace_def retain_namespaces_def)
next
  case (SliceEvent ev)
  then show ?thesis by (cases ev) (simp_all add: abs_services_def slice_watcher_def apply_slice_def
        delete_slice_def retain_slices_def split: option.split)
next
  case (EndpointsEvent ev)
  then show ?thesis by (cases ev) (simp_all add: abs_services_def endpoints_watcher_def apply_endpoints_def
        delete_endpoints_def retain_endpoints_def)
next
  case (PodEvent ev)
  then show ?thesis by (cases ev) (simp_all add: abs_services_def pod_watcher_def apply_pod_def
        delete_pod_def retain_pods_def Let_def)
qed auto

lemma abs_run: "abs_services (foldl kube_step ws evs) = foldl spec_step (abs_services ws) (service_events evs)"
proof (induction evs arbitrary: ws)
  case (Cons e evs)
  then show ?case by (cases e) (simp_all only: service_events.simps foldl_Cons abs_service_step abs_other_step kube_event.distinct not_False_eq_True)
qed simp

lemma spec_list:
  "foldl spec_step (seen, m) (map WInitApply objs) =
     (key_of ` sv_meta ` set objs \<union> seen, m ++ map_of (rev (map (\<lambda>v. (svc_key v, v)) (List.map_filter convert_service objs))))"
  by (induction objs arbitrary: seen m) (auto simp: map_filter_simps map_add_def fun_eq_iff split: option.split)

lemma convert_service_key:
  assumes "om_name (sv_meta s) \<noteq> None" "om_namespace (sv_meta s) \<noteq> None" "sv_spec s \<noteq> None"
  shows "\<exists>v. convert_service s = Some v \<and> svc_key v = key_of (sv_meta s)"
  using assms by (auto simp: convert_service_def key_of_def svc_key_def or_default_def name_any_def Let_def)

lemma listed_keys:
  assumes "\<forall>s \<in> set objs. om_name (sv_meta s) \<noteq> None \<and> om_namespace (sv_meta s) \<noteq> None \<and> sv_spec s \<noteq> None"
  shows "svc_key ` set (List.map_filter convert_service objs) = key_of ` sv_meta ` set objs"
  using assms
proof (induction objs)
  case (Cons s objs)
  then obtain v where "convert_service s = Some v" "svc_key v = key_of (sv_meta s)"
    using convert_service_key [of s] by (auto iff del: not_None_eq)
  with Cons show ?case by (simp add: map_filter_simps)
qed (simp add: map_filter_simps)

lemma restrict_add_dom: "(m ++ m') |` dom m' = m'"
  by (auto simp: restrict_map_def map_add_def fun_eq_iff split: option.split)
section \<open>Exactness and shared addresses\<close>

text \<open>
  The indexes of services and pods keep one key per address. They are exact while no two objects share an address;
  with a shared address, taking one object out takes the address of the other out too.
\<close>

lemma apply_service_exact:
  assumes "index_exact svc_cluster_ips (ks_services st) (ks_svc_by_ip st)" "unshared svc_cluster_ips (ks_services st)"
    and "unshared svc_cluster_ips (ks_services (apply_service s st))"
  shows "index_exact svc_cluster_ips (ks_services (apply_service s st)) (ks_svc_by_ip (apply_service s st))"
  using assms by (cases "convert_service s") (simp_all add: apply_service_def forget_service_alt Let_def index_exact_update)

lemma remove_service_exact:
  assumes "index_exact svc_cluster_ips (ks_services st) (ks_svc_by_ip st)" "unshared svc_cluster_ips (ks_services st)"
  shows "index_exact svc_cluster_ips (ks_services (remove_service k st)) (ks_svc_by_ip (remove_service k st))"
  using assms by (simp add: remove_service_def forget_service_alt Let_def index_exact_delete)

lemma remove_pod_exact:
  assumes "index_exact pi_ips (ks_pods st) (ks_pod_by_ip st)" "unshared pi_ips (ks_pods st)"
  shows "index_exact pi_ips (ks_pods (remove_pod k st)) (ks_pod_by_ip (remove_pod k st))"
  using assms by (simp add: remove_pod_alt index_exact_delete)

definition sample_meta :: "string \<Rightarrow> string \<Rightarrow> object_meta" where
  "sample_meta ns n = \<lparr>om_name = Some n, om_generate_name = None, om_namespace = Some ns,
     om_labels = [''kubernetes.io/service-name'' \<mapsto> ''web'']\<rparr>"

definition host_pod :: "string \<Rightarrow> api_pod" where
  "host_pod n = \<lparr>pd_meta = sample_meta ''default'' n, pd_phase = Some ''Running'', pd_pod_ips = Some [''10.0.0.1''], pd_pod_ip = None\<rparr>"

text \<open>Two pods on the network of their host: deleting one hides the other.\<close>

lemma pod_index_loses_live_pod:
  "let ws = foldl kube_step (start_watchers \<lparr>wo_watch_pods = True, wo_watch_endpoints = True\<rparr> kstore_new)
        [PodEvent (WApply (host_pod ''a'')), PodEvent (WApply (host_pod ''b'')), PodEvent (WDelete (host_pod ''a''))]
   in map fst (ks_pods (ws_store ws)) = [(''default'', ''b'')] \<and> pod_by_ip (V4 [10, 0, 0, 1]) (ws_store ws) = None"
  by code_simp

section \<open>Properties\<close>

text \<open>C22: Whatever the events of the watches and their order, the indexes of the store agree with its objects: a service has
  an endpoint with an address exactly if the index of endpoint addresses lists it, and a service or pod found by
  an address is an object of the store that has that address.\<close>

theorem kube_indexes_agree:
  fixes evs :: "kube_event list"
  assumes "st = ws_store (foldl kube_step (start_watchers opts kstore_new) evs)"
  shows "((ns, name) \<in> set (services_by_endpoint_ip ip st) \<longleftrightarrow> (\<exists>e \<in> set (store_endpoints ns name st). ip \<in> set (ep_ips e)))
    \<and> (service_by_ip ip st = Some v \<longrightarrow> store_service (svc_namespace v) (svc_name v) st = Some v \<and> ip \<in> set (svc_cluster_ips v))
    \<and> (service_by_external_ip ip st = Some v \<longrightarrow> store_service (svc_namespace v) (svc_name v) st = Some v \<and> ip \<in> set (svc_external_ips v))
    \<and> (pod_by_ip ip st = Some p \<longrightarrow> map_of (ks_pods st) (pi_namespace p, pi_name p) = Some p \<and> ip \<in> set (pi_ips p))"
proof -
  have ok: "kstore_ok st" unfolding assms by (intro kube_run_ok kube_start_ok)
  have "(ns, name) \<in> set (services_by_endpoint_ip ip st) \<longleftrightarrow> (\<exists>e \<in> set (store_endpoints ns name st). ip \<in> set (ep_ips e))"
    using services_by_endpoint_ip_iff [OF ok, of "(ns, name)" ip] by (simp add: has_ip_def list_ex_iff)
  then show ?thesis using service_by_ipD [OF ok] service_by_external_ipD [OF ok] pod_by_ipD [OF ok] by blast
qed

definition sample_service :: "string \<Rightarrow> string \<Rightarrow> api_service" where
  "sample_service n ip = \<lparr>sv_meta = sample_meta ''default'' n,
     sv_spec = Some \<lparr>as_type = None, as_cluster_ips = Some [ip], as_cluster_ip = Some ip, as_ports = None,
       as_external_ips = None, as_external_name = None, as_publish_not_ready = None\<rparr>, sv_ingress = None\<rparr>"

definition sample_slice :: "string \<Rightarrow> string list \<Rightarrow> api_slice" where
  "sample_slice n ips = \<lparr>sl_meta = sample_meta ''default'' n, sl_ports = None,
     sl_endpoints = [\<lparr>ae_addresses = ips, ae_hostname = None, ae_target = None, ae_ready = None\<rparr>]\<rparr>"

text \<open>A slice that is replaced, beside another one that still has its address.\<close>

definition sample_events :: "kube_event list" where
  "sample_events = [ServiceEvent (WApply (sample_service ''web'' ''10.96.0.10'')), SliceEvent (WApply (sample_slice ''s1'' [''10.1.0.1''])),
     SliceEvent (WApply (sample_slice ''s2'' [''10.1.0.1'', ''10.1.0.2''])), SliceEvent (WApply (sample_slice ''s1'' [''10.1.0.3'']))]"

definition sample_store :: kstore where
  "sample_store = ws_store (foldl kube_step (start_watchers \<lparr>wo_watch_pods = False, wo_watch_endpoints = True\<rparr> kstore_new) sample_events)"

theorem kube_indexes_agree_witness:
  "(''default'', ''web'') \<in> set (services_by_endpoint_ip (V4 [10, 1, 0, 1]) sample_store)
   \<and> (\<exists>v. service_by_ip (V4 [10, 96, 0, 10]) sample_store = Some v \<and>
        store_service (svc_namespace v) (svc_name v) sample_store = Some v \<and> V4 [10, 96, 0, 10] \<in> set (svc_cluster_ips v))"
proof -
  note agree = kube_indexes_agree [OF sample_store_def]
  have "\<exists>e \<in> set (store_endpoints ''default'' ''web'' sample_store). V4 [10, 1, 0, 1] \<in> set (ep_ips e)" by code_simp
  then have e: "(''default'', ''web'') \<in> set (services_by_endpoint_ip (V4 [10, 1, 0, 1]) sample_store)"
    using agree [of "''default''" "''web''" "V4 [10, 1, 0, 1]"] by blast
  have "\<not> Option.is_none (service_by_ip (V4 [10, 96, 0, 10]) sample_store)" by code_simp
  then obtain v where v: "service_by_ip (V4 [10, 96, 0, 10]) sample_store = Some v" by (auto simp: Option.is_none_def)
  with e agree [of "[]" "[]" "V4 [10, 96, 0, 10]" v] show ?thesis by blast
qed

text \<open>C23: After a relist of the services, whatever the other watches do meanwhile, the store has exactly the services of the list, the
  last one of each key, and nothing of what it had before.\<close>

theorem kube_relist:
  assumes "service_events evs = WInit # map WInitApply objs @ [WInitDone]"
    and "\<forall>s \<in> set objs. om_name (sv_meta s) \<noteq> None \<and> om_namespace (sv_meta s) \<noteq> None \<and> sv_spec s \<noteq> None"
  shows "store_service ns name (ws_store (foldl kube_step ws evs)) =
     map_of (rev (map (\<lambda>v. (svc_key v, v)) (List.map_filter convert_service objs))) (ns, name)"
proof -
  let ?m = "map_of (rev (map (\<lambda>v. (svc_key v, v)) (List.map_filter convert_service objs)))"
  let ?seen = "key_of ` sv_meta ` set objs"
  have "snd (abs_services (foldl kube_step ws evs)) = (snd (abs_services ws) ++ ?m) |` ?seen"
    unfolding abs_run assms(1) by (cases "abs_services ws") (simp add: spec_list)
  moreover have "dom ?m = ?seen"
    using listed_keys [OF assms(2)] by (simp add: dom_map_of_conv_image_fst image_image)
  ultimately have "snd (abs_services (foldl kube_step ws evs)) = ?m" using restrict_add_dom [of "snd (abs_services ws)" ?m] by simp
  then show ?thesis by (simp add: abs_services_def store_service_def)
qed

theorem kube_relist_witness:
  "map svc_name (services_in ''*'' sample_store) = [''web''] \<and>
   (let st = ws_store (foldl kube_step (start_watchers \<lparr>wo_watch_pods = False, wo_watch_endpoints = True\<rparr> sample_store)
        [ServiceEvent WInit, SliceEvent (WDelete (sample_slice ''s1'' [])), ServiceEvent (WInitApply (sample_service ''db'' ''10.96.0.11'')),
         ServiceEvent WInitDone])
    in store_service ''default'' ''web'' st = None \<and> store_service ''default'' ''db'' st = convert_service (sample_service ''db'' ''10.96.0.11''))"
proof -
  let ?evs = "[ServiceEvent WInit, SliceEvent (WDelete (sample_slice ''s1'' [])), ServiceEvent (WInitApply (sample_service ''db'' ''10.96.0.11'')),
         ServiceEvent WInitDone]"
  let ?objs = "[sample_service ''db'' ''10.96.0.11'']"
  let ?m = "map_of (rev (map (\<lambda>v. (svc_key v, v)) (List.map_filter convert_service ?objs)))"
  have "service_events ?evs = WInit # map WInitApply ?objs @ [WInitDone]" by simp
  then have r: "store_service ns name (ws_store (foldl kube_step ws ?evs)) = ?m (ns, name)" for ns name ws
    by (rule kube_relist) (simp add: sample_service_def sample_meta_def)
  have "?m (''default'', ''web'') = None" "?m (''default'', ''db'') = convert_service (sample_service ''db'' ''10.96.0.11'')"
    "map svc_name (services_in ''*'' sample_store) = [''web'']"
    by code_simp+
  then show ?thesis by (simp only: Let_def r simp_thms)
qed

end
