(* ===== verification/Kubernetes.thy ===== *)
theory Kubernetes
  imports Kube_Store Answer_Plugins
begin

text \<open>
  The \<open>kubernetes\<close> plugin, \<open>src/plugins/kubernetes/mod.rs\<close>: the names of the cluster zone, the records of
  services, endpoints and pods, reverse look-ups, the handler and the setup, over the store of \<open>Kube_Store\<close>.

  The store is a part of the shared state. The client of the API, the clock, the interfaces of the
  host and the name parser are arguments. A panic (the weight of an SRV record divides by the
  number of endpoints as an \<open>u16\<close>) is the left value \<open>Panic\<close> beside the errors.

  Shown here: names of the schema are read back; a query for a service with a cluster address gets exactly its
  addresses; the name a reverse query gives resolves to the address asked for; with verified pods a
  pod's name resolves only while such a pod is known.
\<close>

datatype pod_mode = PodDisabled | PodInsecure | PodVerified

record kubernetes =
  kb_zones :: "string list"
  kb_primary_zone :: string
  kb_namespaces :: "string list"
  kb_pod_mode :: pod_mode
  kb_endpoint_pod_names :: bool
  kb_ttl :: u32
  kb_watch_endpoints :: bool
  kb_fallthrough :: "string list option"
  kb_ignore_empty_service :: bool
  kb_local_ips :: "ip_addr list"
  kb_autopath_search :: "string list"

record 's kube_env =
  kn_from_ascii :: "string \<Rightarrow> dname res"
  kn_store :: "'s \<Rightarrow> kstore"
  kn_timestamp :: "'s \<Rightarrow> int"
  kn_self_lookup :: "request \<Rightarrow> dname \<Rightarrow> rtype \<Rightarrow> 's \<Rightarrow> message res \<times> 's"

datatype fault = Fault err | Panic string

section \<open>Names of the schema\<close>

datatype parsed =
    PApex | PDns | PNsDns | PDnsVersion | PSvcRoot | PNsSvcRoot string
  | PSvc string string "string option" "string option" "string option"
  | PPodRoot | PNsPodRoot string | PPod string string | PInvalid

definition parse_name :: "string \<Rightarrow> parsed" where
  "parse_name rel =
     (if rel = [] then PApex
      else (case rev (split_char (CHR ''.'') rel) of
          [a] \<Rightarrow>
            (if a = ''dns'' then PDns else if a = ''dns-version'' then PDnsVersion
             else if a = ''svc'' then PSvcRoot else if a = ''pod'' then PPodRoot else PInvalid)
        | [a, ns] \<Rightarrow>
            (if a = ''dns'' \<and> ns = ''ns'' then PNsDns else if a = ''svc'' then PNsSvcRoot ns
             else if a = ''pod'' then PNsPodRoot ns else PInvalid)
        | [a, ns, x] \<Rightarrow>
            (if a = ''svc'' then PSvc ns x None None None else if a = ''pod'' then PPod ns x else PInvalid)
        | [a, ns, x, ep] \<Rightarrow>
            (if a = ''svc'' \<and> \<not> starts_with ep ''_'' then PSvc ns x (Some ep) None None else PInvalid)
        | [a, ns, x, proto, port] \<Rightarrow>
            (if a = ''svc'' \<and> starts_with proto ''_'' \<and> starts_with port ''_'' then PSvc ns x None (Some (tl port)) (Some (tl proto))
             else if a = ''svc'' \<and> (port = ''*'' \<or> port = ''any'') \<and> starts_with proto ''_'' then PSvc ns x None (Some ''*'') (Some (tl proto))
             else PInvalid)
        | _ \<Rightarrow> PInvalid))"

definition is_wild :: "string \<Rightarrow> bool" where
  "is_wild s \<longleftrightarrow> s = ''*'' \<or> s = ''any''"

definition swap_char :: "char \<Rightarrow> char \<Rightarrow> string \<Rightarrow> string" where
  "swap_char a b s = map (\<lambda>c. if c = a then b else c) s"

fun dashed :: "ip_addr \<Rightarrow> string" where
  "dashed (V4 o4) = swap_char (CHR ''.'') (CHR ''-'') (show_ipv4 o4)"
| "dashed (V6 o6) = swap_char (CHR '':'') (CHR ''-'') (show_ipv6 o6)"

definition undash :: "string \<Rightarrow> ip_addr option" where
  "undash s =
     (case parse_ipv4 (swap_char (CHR ''-'') (CHR ''.'') s) of
        Some v4 \<Rightarrow> Some v4
      | None \<Rightarrow> parse_ipv6 (swap_char (CHR ''-'') (CHR '':'') s))"

section \<open>Records\<close>

definition kube_name :: "'s kube_env \<Rightarrow> kubernetes \<Rightarrow> string list \<Rightarrow> dname" where
  "kube_name env k labels = (case kn_from_ascii env (join labels (kb_primary_zone k)) of Inr n \<Rightarrow> n | Inl _ \<Rightarrow> ''.'')"

definition endpoint_hostname :: "kubernetes \<Rightarrow> endpoint \<Rightarrow> string" where
  "endpoint_hostname k e =
     (case ep_hostname e of
        Some h \<Rightarrow> h
      | None \<Rightarrow>
          (case (if kb_endpoint_pod_names k then ep_pod_name e else None) of
             Some p \<Rightarrow> p
           | None \<Rightarrow> (case first (ep_ips e) of Some ip \<Rightarrow> dashed ip | None \<Rightarrow> [])))"

definition namespace_exposed :: "kubernetes \<Rightarrow> kstore \<Rightarrow> string \<Rightarrow> bool" where
  "namespace_exposed k st ns \<longleftrightarrow> (kb_namespaces k = [] \<or> ns \<in> set (kb_namespaces k)) \<and> namespace_exists ns st"

definition kube_soa :: "'s kube_env \<Rightarrow> kubernetes \<Rightarrow> string \<Rightarrow> 's \<Rightarrow> rr" where
  "kube_soa env k zone s =
     (let z = (case kn_from_ascii env zone of Inr n \<Rightarrow> n | Inl _ \<Rightarrow> ''.'');
          under = (\<lambda>ls. case kn_from_ascii env (join ls zone) of Inr n \<Rightarrow> n | Inl _ \<Rightarrow> z) in
      from_rdata z (kb_ttl k) (RD_SOA \<lparr>soa_mname = under [''ns'', ''dns''], soa_rname = under [''hostmaster''],
        soa_serial = word_of_int (kn_timestamp env s), soa_refresh = 7200, soa_retry = 1800, soa_expire = 86400,
        soa_minimum = kb_ttl k\<rparr>))"

definition kube_nxdomain :: "'s kube_env \<Rightarrow> kubernetes \<Rightarrow> request \<Rightarrow> string \<Rightarrow> 's \<Rightarrow> message" where
  "kube_nxdomain env k req zone s =
     add_name_server (kube_soa env k zone s) ((new_reply req)\<lparr>m_authoritative := True, m_rcode := NXDomain\<rparr>)"

definition kube_nodata :: "'s kube_env \<Rightarrow> kubernetes \<Rightarrow> request \<Rightarrow> string \<Rightarrow> 's \<Rightarrow> message" where
  "kube_nodata env k req zone s = add_name_server (kube_soa env k zone s) ((new_reply req)\<lparr>m_authoritative := True\<rparr>)"

fun addr_record :: "u32 \<Rightarrow> dname \<Rightarrow> rtype \<Rightarrow> ip_addr \<Rightarrow> rr option" where
  "addr_record ttl name qt (V4 v) = (if qt = RT_A \<or> qt = RT_ANY then Some (from_rdata name ttl (RD_A v)) else None)"
| "addr_record ttl name qt (V6 v) = (if qt = RT_AAAA \<or> qt = RT_ANY then Some (from_rdata name ttl (RD_AAAA v)) else None)"

definition addr_records :: "kubernetes \<Rightarrow> dname \<Rightarrow> ip_addr list \<Rightarrow> rtype \<Rightarrow> rr list" where
  "addr_records k name ips qt = List.map_filter (addr_record (kb_ttl k) name qt) ips"

text \<open>The order of \<open>IpAddr\<close>: IPv4 before IPv6, then by the octets.\<close>

fun ip_rank :: "ip_addr \<Rightarrow> nat" where
  "ip_rank (V4 v) = foldl (\<lambda>a b. 256 * a + unat b) 0 v"
| "ip_rank (V6 v) = 2 ^ 32 + foldl (\<lambda>a b. 256 * a + unat b) 0 v"

definition ns_addrs :: "'s kube_env \<Rightarrow> kubernetes \<Rightarrow> kstore \<Rightarrow> rtype \<Rightarrow> rr list" where
  "ns_addrs env k st qt =
     (let ips = concat (map (\<lambda>lip. concat (map (\<lambda>(ns, name). case store_service ns name st of
                  Some v \<Rightarrow> svc_cluster_ips v | None \<Rightarrow> []) (services_by_endpoint_ip lip st))) (kb_local_ips k));
          ips1 = (if ips = [] then kb_local_ips k else ips)
      in addr_records k (kube_name env k [''ns'', ''dns'']) (remdups_adj (sort_key ip_rank ips1)) qt)"

definition ready_endpoints :: "kstore \<Rightarrow> svc \<Rightarrow> endpoint list" where
  "ready_endpoints st v = filter (\<lambda>e. ep_ready e \<or> svc_publish_not_ready v) (store_endpoints (svc_namespace v) (svc_name v) st)"

definition eq_ignore_case :: "string \<Rightarrow> string \<Rightarrow> bool" where
  "eq_ignore_case a b \<longleftrightarrow> to_ascii_lowercase a = to_ascii_lowercase b"

definition port_matches :: "kport \<Rightarrow> string option \<Rightarrow> string option \<Rightarrow> bool" where
  "port_matches p port protocol \<longleftrightarrow>
     (case port of
        None \<Rightarrow> True
      | Some po \<Rightarrow> (is_wild po \<or> eq_ignore_case (kp_name p) po) \<and>
          (case protocol of Some pr \<Rightarrow> is_wild pr \<or> eq_ignore_case (kp_protocol p) pr | None \<Rightarrow> True))"

type_synonym service_answer = "rr list \<times> rr list \<times> bool"

text \<open>The names and filters of a query inside a service: the query name, the endpoint, the port and the protocol.\<close>

record service_query =
  sq_qname :: dname
  sq_endpoint :: "string option"
  sq_port :: "string option"
  sq_protocol :: "string option"
  sq_qtype :: rtype

definition external_records ::
    "'s kube_env \<Rightarrow> kubernetes \<Rightarrow> request \<Rightarrow> string \<Rightarrow> service_query \<Rightarrow> 's \<Rightarrow> (fault + service_answer) \<times> 's" where
  "external_records env k req ext q s =
     (if sq_endpoint q \<noteq> None \<or> sq_port q \<noteq> None then (Inr ([], [], False), s)
      else (case kn_from_ascii env (fqdn ext) of
          Inl e \<Rightarrow> (Inl (Fault (''bad externalName '' @ ext @ '': '' @ e)), s)
        | Inr target \<Rightarrow>
            (let cname = from_rdata (sq_qname q) (kb_ttl k) (RD_CNAME target) in
             if sq_qtype q \<notin> {RT_CNAME, RT_A, RT_AAAA, RT_ANY} then (Inr ([], [], True), s)
             else if sq_qtype q \<in> {RT_A, RT_AAAA} \<and> \<not> is_subdomain (kb_primary_zone k) (name_str target) then
               (case kn_self_lookup env req target (sq_qtype q) s of
                  (Inr m, s1) \<Rightarrow> (Inr (cname # m_answers m, [], True), s1)
                | (Inl _, s1) \<Rightarrow> (Inr ([cname], [], True), s1))
             else (Inr ([cname], [], True), s))))"

definition wanted_endpoint :: "kubernetes \<Rightarrow> service_query \<Rightarrow> endpoint \<Rightarrow> bool" where
  "wanted_endpoint k q e =
     (case sq_endpoint q of Some w \<Rightarrow> is_wild w \<or> eq_ignore_case w (endpoint_hostname k e) | None \<Rightarrow> True)"

definition endpoint_records ::
    "'s kube_env \<Rightarrow> kubernetes \<Rightarrow> svc \<Rightarrow> service_query \<Rightarrow> u16 \<Rightarrow> endpoint \<Rightarrow> fault + (rr list \<times> rr list)" where
  "endpoint_records env k v q n e =
     (let svc_nm = kube_name env k [svc_name v, svc_namespace v, ''svc''];
          ep_nm = kube_name env k [endpoint_hostname k e, svc_name v, svc_namespace v, ''svc''] in
      if sq_qtype q = RT_SRV then
        (let ps = filter (\<lambda>p. port_matches p (sq_port q) (sq_protocol q)) (ep_ports e);
             srv_nm = (if sq_port q \<noteq> None then sq_qname q else svc_nm) in
         if ps \<noteq> [] \<and> n = 0 then Inl (Panic ''attempt to divide by zero'')
         else Inr (map (\<lambda>p. from_rdata srv_nm (kb_ttl k) (RD_SRV 0 (100 div n) (kp_port p) ep_nm)) ps,
                   concat (map (\<lambda>_. addr_records k ep_nm (ep_ips e) RT_ANY) ps)))
      else if sq_qtype q \<in> {RT_A, RT_AAAA, RT_ANY} \<and> sq_port q = None then
        Inr (addr_records k (if sq_endpoint q \<noteq> None then sq_qname q else svc_nm) (ep_ips e) (sq_qtype q), [])
      else Inr ([], []))"

fun endpoint_loop ::
    "'s kube_env \<Rightarrow> kubernetes \<Rightarrow> svc \<Rightarrow> service_query \<Rightarrow> u16 \<Rightarrow> service_answer \<Rightarrow> endpoint list \<Rightarrow> fault + service_answer" where
  "endpoint_loop env k v q n acc [] = Inr acc"
| "endpoint_loop env k v q n (ans, ext, found) (e # es) =
     (if wanted_endpoint k q e then
        rbind (endpoint_records env k v q n e) (\<lambda>(a, x). endpoint_loop env k v q n (ans @ a, ext @ x, True) es)
      else endpoint_loop env k v q n (ans, ext, found) es)"

definition headless_records ::
    "'s kube_env \<Rightarrow> kubernetes \<Rightarrow> kstore \<Rightarrow> svc \<Rightarrow> service_query \<Rightarrow> fault + service_answer" where
  "headless_records env k st v q =
     (let eps = ready_endpoints st v in
      if kb_ignore_empty_service k \<and> eps = [] \<and> svc_headless v then Inr ([], [], False)
      else rbind (endpoint_loop env k v q (of_nat (max (length eps) 1)) ([], [], False) eps) (\<lambda>(ans, ext, found).
        Inr (ans, ext, \<not> ((sq_endpoint q \<noteq> None \<and> \<not> found) \<or> (sq_port q \<noteq> None \<and> ans = [] \<and> sq_qtype q = RT_SRV)))))"

definition cluster_records :: "'s kube_env \<Rightarrow> kubernetes \<Rightarrow> kstore \<Rightarrow> svc \<Rightarrow> service_query \<Rightarrow> service_answer" where
  "cluster_records env k st v q =
     (let svc_nm = kube_name env k [svc_name v, svc_namespace v, ''svc''];
          ps = filter (\<lambda>p. port_matches p (sq_port q) (sq_protocol q)) (svc_ports v) in
      if kb_ignore_empty_service k \<and> ready_endpoints st v = [] then ([], [], False)
      else if sq_qtype q = RT_SRV then
        (if sq_port q \<noteq> None \<and> ps = [] then ([], [], False)
         else (map (\<lambda>p. from_rdata (if sq_port q \<noteq> None then sq_qname q else svc_nm) (kb_ttl k)
                    (RD_SRV 0 100 (kp_port p) svc_nm)) ps,
               addr_records k svc_nm (svc_cluster_ips v) RT_ANY, True))
      else if sq_port q \<noteq> None then ([], [], ps \<noteq> [])
      else if sq_qtype q \<in> {RT_A, RT_AAAA, RT_ANY} then (addr_records k svc_nm (svc_cluster_ips v) (sq_qtype q), [], True)
      else ([], [], True))"

definition service_records ::
    "'s kube_env \<Rightarrow> kubernetes \<Rightarrow> request \<Rightarrow> svc \<Rightarrow> service_query \<Rightarrow> 's \<Rightarrow> (fault + service_answer) \<times> 's" where
  "service_records env k req v q s =
     (case svc_external_name v of
        Some ext \<Rightarrow> external_records env k req ext q s
      | None \<Rightarrow>
          if svc_headless v \<or> sq_endpoint q \<noteq> None then (headless_records env k (kn_store env s) v q, s)
          else (Inr (cluster_records env k (kn_store env s) v q), s))"

fun services_loop ::
    "'s kube_env \<Rightarrow> kubernetes \<Rightarrow> request \<Rightarrow> service_query \<Rightarrow> service_answer \<Rightarrow> svc list \<Rightarrow> 's \<Rightarrow> (fault + service_answer) \<times> 's" where
  "services_loop env k req q acc [] s = (Inr acc, s)"
| "services_loop env k req q (ans, ext, found) (v # vs) s =
     (case service_records env k req v q s of
        (Inl f, s1) \<Rightarrow> (Inl f, s1)
      | (Inr (a, x, fnd), s1) \<Rightarrow> services_loop env k req q (ans @ a, ext @ x, found \<or> fnd) vs s1)"

section \<open>Answers\<close>

definition matching_services :: "kubernetes \<Rightarrow> kstore \<Rightarrow> string \<Rightarrow> string \<Rightarrow> svc list" where
  "matching_services k st ns service =
     (if is_wild service then
        filter (\<lambda>v. namespace_exposed k st (svc_namespace v)) (services_in (if is_wild ns then ''*'' else ns) st)
      else if is_wild ns then
        filter (\<lambda>v. svc_name v = service \<and> namespace_exposed k st (svc_namespace v)) (services_in ''*'' st)
      else (case store_service ns service st of Some v \<Rightarrow> [v] | None \<Rightarrow> []))"

definition with_answers :: "rr list \<Rightarrow> rr list \<Rightarrow> message \<Rightarrow> message" where
  "with_answers ans ext m = foldl (\<lambda>m r. add_additional r m) (foldl (\<lambda>m r. add_answer r m) m ans) ext"

definition apex_answer :: "'s kube_env \<Rightarrow> kubernetes \<Rightarrow> request \<Rightarrow> string \<Rightarrow> message \<Rightarrow> 's \<Rightarrow> message" where
  "apex_answer env k req zone m s =
     (if qtype req = RT_SOA \<or> qtype req = RT_ANY then add_answer (kube_soa env k zone s) m
      else if qtype req = RT_NS then
        with_answers [from_rdata (qname req) (kb_ttl k) (RD_NS (kube_name env k [''ns'', ''dns'']))]
          (ns_addrs env k (kn_store env s) RT_ANY) m
      else add_name_server (kube_soa env k zone s) m)"

definition pod_address :: "kubernetes \<Rightarrow> kstore \<Rightarrow> string \<Rightarrow> string \<Rightarrow> ip_addr option" where
  "pod_address k st ns pod =
     (if kb_pod_mode k = PodDisabled then None
      else if \<not> is_wild ns \<and> kb_namespaces k \<noteq> [] \<and> ns \<notin> set (kb_namespaces k) then None
      else (case undash pod of
          None \<Rightarrow> None
        | Some ip \<Rightarrow>
            if kb_pod_mode k = PodInsecure then Some ip
            else (case pod_by_ip ip st of
                Some p \<Rightarrow> if is_wild ns \<or> pi_namespace p = ns then Some ip else None
              | None \<Rightarrow> None)))"

definition answer_or_nodata :: "'s kube_env \<Rightarrow> kubernetes \<Rightarrow> request \<Rightarrow> string \<Rightarrow> rr list \<Rightarrow> rr list \<Rightarrow> message \<Rightarrow> 's \<Rightarrow> message" where
  "answer_or_nodata env k req zone ans ext m s =
     (if ans = [] then kube_nodata env k req zone s else with_answers ans ext m)"

definition serve_forward ::
    "'s kube_env \<Rightarrow> kubernetes \<Rightarrow> request \<Rightarrow> string \<Rightarrow> string \<Rightarrow> 's \<Rightarrow> (fault + message option) \<times> 's" where
  "serve_forward env k req name zone s =
     (let rel = (case trim_zone name zone of Some r \<Rightarrow> r | None \<Rightarrow> []);
          st = kn_store env s;
          m = (new_reply req)\<lparr>m_authoritative := True\<rparr>;
          nodata = kube_nodata env k req zone s in
      case parse_name rel of
        PApex \<Rightarrow> (Inr (Some (apex_answer env k req zone m s)), s)
      | PDns \<Rightarrow> (Inr (Some nodata), s)
      | PSvcRoot \<Rightarrow> (Inr (Some nodata), s)
      | PPodRoot \<Rightarrow> (Inr (Some nodata), s)
      | PNsDns \<Rightarrow> (Inr (Some (answer_or_nodata env k req zone (ns_addrs env k st (qtype req)) [] m s)), s)
      | PDnsVersion \<Rightarrow>
          (Inr (Some (if qtype req = RT_TXT \<or> qtype req = RT_ANY
             then add_answer (from_rdata (qname req) 28800 (RD_TXT [''1.1.0''])) m else nodata)), s)
      | PNsSvcRoot ns \<Rightarrow> (Inr (if is_wild ns \<or> namespace_exposed k st ns then Some nodata else None), s)
      | PNsPodRoot ns \<Rightarrow> (Inr (if is_wild ns \<or> namespace_exposed k st ns then Some nodata else None), s)
      | PSvc ns service endpoint port protocol \<Rightarrow>
          (let vs = matching_services k st ns service;
               q = \<lparr>sq_qname = qname req, sq_endpoint = endpoint, sq_port = port, sq_protocol = protocol, sq_qtype = qtype req\<rparr> in
           if (\<not> is_wild ns \<and> \<not> namespace_exposed k st ns) \<or> vs = [] then (Inr None, s)
           else (case services_loop env k req q ([], [], False) vs s of
               (Inl f, s1) \<Rightarrow> (Inl f, s1)
             | (Inr (ans, ext, found), s1) \<Rightarrow>
                 (Inr (if found then Some (answer_or_nodata env k req zone ans ext m s1) else None), s1)))
      | PPod ns pod \<Rightarrow>
          (Inr (case pod_address k st ns pod of
             None \<Rightarrow> None
           | Some ip \<Rightarrow> Some (answer_or_nodata env k req zone (addr_records k (qname req) [ip] (qtype req)) [] m s)), s)
      | PInvalid \<Rightarrow> (Inr None, s))"

definition reverse_targets :: "'s kube_env \<Rightarrow> kubernetes \<Rightarrow> kstore \<Rightarrow> ip_addr \<Rightarrow> dname list" where
  "reverse_targets env k st ip =
     (let ts = (case service_by_ip ip st of
            Some v \<Rightarrow> if namespace_exposed k st (svc_namespace v) then [kube_name env k [svc_name v, svc_namespace v, ''svc'']] else []
          | None \<Rightarrow> []) in
      if ts \<noteq> [] then ts
      else concat (map (\<lambda>(ns, name).
        if \<not> namespace_exposed k st ns then []
        else (case store_service ns name st of
            None \<Rightarrow> []
          | Some v \<Rightarrow> map (\<lambda>e. kube_name env k [endpoint_hostname k e, svc_name v, svc_namespace v, ''svc''])
              (filter (\<lambda>e. ip \<in> set (ep_ips e)) (ready_endpoints st v)))) (services_by_endpoint_ip ip st)))"

definition serve_reverse :: "'s kube_env \<Rightarrow> kubernetes \<Rightarrow> request \<Rightarrow> string \<Rightarrow> string \<Rightarrow> 's \<Rightarrow> message option" where
  "serve_reverse env k req name zone s =
     (case extract_address_from_reverse name of
        None \<Rightarrow> None
      | Some ip \<Rightarrow>
          (let ts = reverse_targets env k (kn_store env s) ip; m = (new_reply req)\<lparr>m_authoritative := True\<rparr> in
           if ts = [] then None
           else if qtype req = RT_PTR \<or> qtype req = RT_ANY then
             Some (foldl (\<lambda>m t. add_answer (from_rdata (qname req) (kb_ttl k) (RD_PTR t)) m) m ts)
           else Some (add_name_server (kube_soa env k zone s) m)))"

definition kubernetes_serve :: "'s kube_env \<Rightarrow> kubernetes \<Rightarrow> 's handler" where
  "kubernetes_serve env k req nx s =
     (case req_name req of (name, req1) \<Rightarrow>
        (case zones_match (kb_zones k) name of
           None \<Rightarrow> nx_serve nx req1 s
         | Some zone \<Rightarrow>
             if qclass req1 \<noteq> DC_IN then nx_serve nx req1 s
             else (case (if is_reverse zone \<noteq> 0 then (Inr (serve_reverse env k req1 name zone s), s)
                         else serve_forward env k req1 name zone s) of
                 (Inr (Some m), s1) \<Rightarrow> (Replied (RMsg m), req1, s1)
               | (Inr None, s1) \<Rightarrow>
                   (case Option.bind (kb_fallthrough k) (\<lambda>ft. zones_match ft name) of
                      Some _ \<Rightarrow> nx_serve nx req1 s1
                    | None \<Rightarrow> (Replied (RMsg (kube_nxdomain env k req1 zone s1)), req1, s1))
               | (Inl (Fault e), s1) \<Rightarrow> (Failed (plugin_error_new ''kubernetes'' e), req1, s1)
               | (Inl (Panic e), s1) \<Rightarrow> (Panicked e, req1, s1))))"

section \<open>What other plugins ask\<close>

definition kubernetes_ready :: "'s kube_env \<Rightarrow> kubernetes \<Rightarrow> 's \<Rightarrow> bool" where
  "kubernetes_ready env k s = store_synced (kb_pod_mode k = PodVerified) (kb_watch_endpoints k) (kn_store env s)"

definition kubernetes_autopath :: "'s kube_env \<Rightarrow> kubernetes \<Rightarrow> request \<Rightarrow> 's \<Rightarrow> string list option" where
  "kubernetes_autopath env k req s =
     (if kb_pod_mode k \<noteq> PodVerified then None
      else map_option (\<lambda>pod. [join [pi_namespace pod, ''svc''] (kb_primary_zone k), join [''svc''] (kb_primary_zone k), kb_primary_zone k]
             @ kb_autopath_search k @ [[]]) (pod_by_ip (req_ip req) (kn_store env s)))"

text \<open>\<open>ExternalService\<close> of \<open>plugin/mod.rs\<close>.\<close>

record external_service =
  xs_ips :: "ip_addr list"
  xs_hostnames :: "string list"
  xs_endpoints :: "(string \<times> ip_addr list) list"
  xs_ports :: "(string \<times> string \<times> u16) list"

definition external_addrs :: "'s kube_env \<Rightarrow> kubernetes \<Rightarrow> string \<Rightarrow> string \<Rightarrow> 's \<Rightarrow> external_service option" where
  "external_addrs env k ns service s =
     (let st = kn_store env s in
      if \<not> namespace_exposed k st ns then None
      else map_option (\<lambda>v. \<lparr>xs_ips = svc_external_ips v, xs_hostnames = svc_external_hosts v,
             xs_endpoints = (if svc_headless v then map (\<lambda>e. (endpoint_hostname k e, ep_ips e)) (ready_endpoints st v) else []),
             xs_ports = map (\<lambda>p. (kp_name p, kp_protocol p, kp_port p)) (svc_ports v)\<rparr>) (store_service ns service st))"

definition external_reverse :: "'s kube_env \<Rightarrow> ip_addr \<Rightarrow> 's \<Rightarrow> (string \<times> string) option" where
  "external_reverse env ip s = map_option (\<lambda>v. (svc_namespace v, svc_name v)) (service_by_external_ip ip (kn_store env s))"

section \<open>Setup\<close>

record kube_options =
  ko_kube :: kubernetes
  ko_endpoint :: "string option"
  ko_tls :: "(string \<times> string \<times> string) option"
  ko_kubeconfig :: "(string \<times> string option) option"
  ko_labels :: "string option"
  ko_namespace_labels :: "string option"
  ko_startup_timeout :: nat

definition on_kube :: "(kubernetes \<Rightarrow> kubernetes) \<Rightarrow> kube_options \<Rightarrow> kube_options" where
  "on_kube f op = op\<lparr>ko_kube := f (ko_kube op)\<rparr>"

definition kube_reads :: "string \<Rightarrow> bool" where
  "kube_reads v \<longleftrightarrow> 
     v \<in> {''endpoint'', ''tls'', ''kubeconfig'', ''namespaces'', ''namespace_labels'', ''labels'', ''pods'', ''ttl'', ''startup_timeout'',
          ''fallthrough'', ''ignore'', ''multicluster''}"

definition pods_line :: "(string \<Rightarrow> err) \<Rightarrow> string \<Rightarrow> kube_options \<Rightarrow> kube_options res" where
  "pods_line ef m op =
     (let put = (\<lambda>pm. Inr (on_kube (\<lambda>k. k\<lparr>kb_pod_mode := pm\<rparr>) op)) in
      if m = ''disabled'' then put PodDisabled else if m = ''insecure'' then put PodInsecure
      else if m = ''verified'' then put PodVerified else Inl (ef (''wrong value for pods: '' @ m)))"

definition kube_line ::
    "(string \<Rightarrow> dname res) \<Rightarrow> 'net ipnet_api \<Rightarrow> (string \<Rightarrow> nat res) \<Rightarrow> (string \<Rightarrow> err) \<Rightarrow> err \<Rightarrow> string \<Rightarrow> string list
     \<Rightarrow> kube_options \<Rightarrow> kube_options res" where
  "kube_line from_ascii api parse_duration ef arg_e v a op =
     (if v = ''endpoint'' then (if length a \<noteq> 1 then Inl arg_e else Inr (op\<lparr>ko_endpoint := Some (hd a)\<rparr>))
      else if v = ''tls'' then (case a of [x, y, z] \<Rightarrow> Inr (op\<lparr>ko_tls := Some (x, y, z)\<rparr>) | _ \<Rightarrow> Inl arg_e)
      else if v = ''kubeconfig'' then
        (case a of [f] \<Rightarrow> Inr (op\<lparr>ko_kubeconfig := Some (f, None)\<rparr>)
         | [f, ctx] \<Rightarrow> Inr (op\<lparr>ko_kubeconfig := Some (f, Some ctx)\<rparr>) | _ \<Rightarrow> Inl arg_e)
      else if v = ''namespaces'' then (if a = [] then Inl arg_e else Inr (on_kube (\<lambda>k. k\<lparr>kb_namespaces := a\<rparr>) op))
      else if v = ''namespace_labels'' then (if a = [] then Inl arg_e else Inr (op\<lparr>ko_namespace_labels := Some (join_with '' '' a)\<rparr>))
      else if v = ''labels'' then (if a = [] then Inl arg_e else Inr (op\<lparr>ko_labels := Some (join_with '' '' a)\<rparr>))
      else if v = ''pods'' then (if length a \<noteq> 1 then Inl arg_e else pods_line ef (hd a) op)
      else if v = ''ttl'' then
        (if length a \<noteq> 1 then Inl arg_e
         else rbind (ok_or (ef (''bad ttl '' @ hd a)) (parse_u32 (hd a))) (\<lambda>t.
           if t > 3600 then Inl (ef ''ttl must be in range [0, 3600]'')
           else Inr (on_kube (\<lambda>k. k\<lparr>kb_ttl := of_nat t\<rparr>) op)))
      else if v = ''noendpoints'' then Inr (on_kube (\<lambda>k. k\<lparr>kb_watch_endpoints := False\<rparr>) op)
      else if v = ''startup_timeout'' then
        (if length a \<noteq> 1 then Inl arg_e else rbind (parse_duration (hd a)) (\<lambda>d. Inr (op\<lparr>ko_startup_timeout := d\<rparr>)))
      else if v = ''fallthrough'' then
        rbind (if a = [] then Inr [''.''] else normalize_zones from_ascii api a) (\<lambda>z. Inr (on_kube (\<lambda>k. k\<lparr>kb_fallthrough := Some z\<rparr>) op))
      else if v = ''ignore'' then
        (if a \<noteq> [''empty_service''] then Inl (ef (''ignore: only '' @ quote ''empty_service'' @ '' is supported''))
         else Inr (on_kube (\<lambda>k. k\<lparr>kb_ignore_empty_service := True\<rparr>) op))
      else if v = ''multicluster'' then Inl (ef ''multicluster is not supported'')
      else Inl (ef (''unknown property '' @ quote v)))"

definition kube_property ::
    "(string \<Rightarrow> dname res) \<Rightarrow> 'net ipnet_api \<Rightarrow> (string \<Rightarrow> nat res) \<Rightarrow> kube_options \<Rightarrow> 's controller
     \<Rightarrow> kube_options res \<times> 's controller" where
  "kube_property from_ascii api parse_duration op c =
     (if ctl_val c = ''endpoint_pod_names'' then
        (case ctl_disp next_arg c of
           (True, c1) \<Rightarrow> (Inl (ctl_arg_err c1), c1)
         | (False, c1) \<Rightarrow> (Inr (on_kube (\<lambda>k. k\<lparr>kb_endpoint_pod_names := True\<rparr>) op), c1))
      else line_property kube_reads (kube_line from_ascii api parse_duration) op c)"

text \<open>
  What the setup needs besides the tokens: the addresses of the interfaces that are not loopback addresses, the text of
  \<open>/etc/resolv.conf\<close>, and the hook that makes the client, starts the watchers and waits for them.
\<close>

record ('s, 'net) kube_setup_env =
  ke_from_ascii :: "string \<Rightarrow> dname res"
  ke_api :: "'net ipnet_api"
  ke_parse_duration :: "string \<Rightarrow> nat res"
  ke_local_ips :: "ip_addr list"
  ke_resolv :: "string option"
  ke_env :: "'s kube_env"
  ke_startup :: "kube_options \<Rightarrow> string \<Rightarrow> 's hook"

definition kubernetes_new :: "string list \<Rightarrow> string \<Rightarrow> ip_addr list \<Rightarrow> string list \<Rightarrow> kubernetes" where
  "kubernetes_new zones primary ips search = \<lparr>kb_zones = zones, kb_primary_zone = primary, kb_namespaces = [], kb_pod_mode = PodDisabled,
     kb_endpoint_pod_names = False, kb_ttl = 5, kb_watch_endpoints = True, kb_fallthrough = None, kb_ignore_empty_service = False,
     kb_local_ips = ips, kb_autopath_search = search\<rparr>"

text \<open>Without any zone the index of the first one panics; that is the first error here.\<close>

definition kube_body :: "('s, 'net) kube_setup_env \<Rightarrow> 's setup_fn" where
  "kube_body env c =
     (case ctl_disp remaining_args_until_brace c of (as, c1) \<Rightarrow>
      case controller_origins (ke_from_ascii env) (ke_api env) c1 as of
        Inl e \<Rightarrow> (Inl e, c1)
      | Inr [] \<Rightarrow> (Inl ''index out of bounds: the len is 0 but the index is 0'', c1)
      | Inr (z # zs) \<Rightarrow>
          (let primary = (case find (\<lambda>z. is_reverse z = 0) (z # zs) of Some p \<Rightarrow> p | None \<Rightarrow> z);
               search = (case ke_resolv env of Some t \<Rightarrow> search_from_resolv t | None \<Rightarrow> []);
               op0 = \<lparr>ko_kube = kubernetes_new (z # zs) primary (ke_local_ips env) search, ko_endpoint = None, ko_tls = None,
                      ko_kubeconfig = None, ko_labels = None, ko_namespace_labels = None, ko_startup_timeout = 5 * SECOND\<rparr> in
           case block_loop (kube_property (ke_from_ascii env) (ke_api env) (ke_parse_duration env)) op0 c1 of
             (Inl e, c2) \<Rightarrow> (Inl e, c2)
           | (Inr op, c2) \<Rightarrow>
               (Inr (), on_startup (ke_startup env op (sc_root (ct_config c2)))
                  (add_plugin (''kubernetes'', kubernetes_serve (ke_env env) (ko_kube op)) c2))))"

definition kubernetes_setup :: "('s, 'net) kube_setup_env \<Rightarrow> 's setup_fn" where
  "kubernetes_setup env = single_setup ''kubernetes'' (kube_body env)"

text \<open>The options of the watchers, and when the hook stops waiting for them.\<close>

definition kube_watch_options :: "kubernetes \<Rightarrow> watch_options" where
  "kube_watch_options k = \<lparr>wo_watch_pods = (kb_pod_mode k = PodVerified), wo_watch_endpoints = kb_watch_endpoints k\<rparr>"

definition startup_done :: "kubernetes \<Rightarrow> kstore \<Rightarrow> nat \<Rightarrow> nat \<Rightarrow> bool" where
  "startup_done k st now deadline \<longleftrightarrow> store_synced (kb_pod_mode k = PodVerified) (kb_watch_endpoints k) st \<or> now \<ge> deadline"

section \<open>Contracts\<close>

lemma add_additional_fields [simp]:
  "m_id (add_additional r m) = m_id m" "m_answers (add_additional r m) = m_answers m" "m_rcode (add_additional r m) = m_rcode m"
  by (simp_all add: add_additional_def)

lemma fold_additionals [simp]:
  "m_id (foldl (\<lambda>m r. add_additional r m) m rs) = m_id m"
  "m_answers (foldl (\<lambda>m r. add_additional r m) m rs) = m_answers m"
  "m_rcode (foldl (\<lambda>m r. add_additional r m) m rs) = m_rcode m"
  by (induction rs arbitrary: m) simp_all

lemma with_answers_fields [simp]:
  "m_id (with_answers ans ext m) = m_id m" "m_answers (with_answers ans ext m) = m_answers m @ ans"
  "m_rcode (with_answers ans ext m) = m_rcode m"
  by (simp_all add: with_answers_def fold_add_answer)

lemma kube_reply_ids [simp]:
  "m_id (kube_nxdomain env k req zone s) = m_id (rq_msg req)" "m_id (kube_nodata env k req zone s) = m_id (rq_msg req)"
  by (simp_all add: kube_nxdomain_def kube_nodata_def)

lemma kube_nodata_fields [simp]:
  "m_answers (kube_nodata env k req zone s) = []" "m_rcode (kube_nodata env k req zone s) = NoError"
  by (simp_all add: kube_nodata_def add_name_server_def)

lemma answer_or_nodata_id [simp]:
  "m_id m = m_id (rq_msg req) \<Longrightarrow> m_id (answer_or_nodata env k req zone ans ext m s) = m_id (rq_msg req)"
  by (simp add: answer_or_nodata_def)

lemma apex_answer_id [simp]:
  "m_id m = m_id (rq_msg req) \<Longrightarrow> m_id (apex_answer env k req zone m s) = m_id (rq_msg req)"
  by (simp add: apex_answer_def)

lemma serve_forward_id: "fst (serve_forward env k req name zone s) = Inr (Some m) \<Longrightarrow> m_id m = m_id (rq_msg req)"
  by (auto simp: serve_forward_def Let_def split: parsed.splits if_splits prod.splits sum.splits option.splits)

lemma fold_ptr_id [simp]: "m_id (foldl (\<lambda>m t. add_answer (f t) m) m ts) = m_id m"
  by (induction ts arbitrary: m) simp_all

lemma serve_reverse_id: "serve_reverse env k req name zone s = Some m \<Longrightarrow> m_id m = m_id (rq_msg req)"
  by (auto simp: serve_reverse_def Let_def split: option.splits if_splits)

lemma kubernetes_keeps_id:
  assumes "keeps_id (nx_serve nx)"
  shows "keeps_id (\<lambda>req s. kubernetes_serve env k req nx s)"
proof -
  have named: "keeps_id (\<lambda>req s. nx_serve nx (snd (req_name req)) s)" by (rule keeps_id_same [OF assms]) simp
  note D = keeps_idD [OF named]
  show ?thesis
  proof (rule keeps_idI)
    fix req s out req' s'
    assume run: "kubernetes_serve env k req nx s = (out, req', s')"
    show "m_id (rq_msg req') = m_id (rq_msg req)"
      using run D(1) [of req] by (auto simp: kubernetes_serve_def case_prod_beta split: option.splits if_splits sum.splits fault.splits)
  next
    fix req s m req' s'
    assume run: "kubernetes_serve env k req nx s = (Replied (RMsg m), req', s')"
    show "m_id m = m_id (rq_msg req)"
      using run D(2) [of req]
      by (auto simp: kubernetes_serve_def case_prod_beta dest: serve_reverse_id serve_forward_id
          split: option.splits if_splits sum.splits fault.splits)
  qed
qed

interpretation kubernetes_handler: id_keeping_handler "kubernetes_serve env k"
  by unfold_locales (rule kubernetes_keeps_id)

lemma kube_line_block: "block_property (line_property kube_reads (kube_line from_ascii api parse_duration))"
  by (rule line_property_block) (simp add: kube_line_def is_ok_def)

lemma left_over_next_arg: "next_arg d = (b, d') \<Longrightarrow> left_over d' \<le> left_over d"
  by (auto simp: next_arg_def next_tok_def left_over_def split: if_splits)

interpretation kube_block: block_property "kube_property from_ascii api parse_duration"
proof
  fix a c r c'
  assume run: "kube_property from_ascii api parse_duration a c = (r, c')"
  note B = block_property.refuses_empty [OF kube_line_block] block_property.forward [OF kube_line_block]
    block_property.frame [OF kube_line_block]
  show "\<not> is_ok r" if "ctl_val c = []" using run that by (auto simp: kube_property_def dest: B(1))
  show "left_over (ct_dispenser c') \<le> left_over (ct_dispenser c)"
    using run by (auto simp: kube_property_def ctl_disp_def dest: B(2) left_over_next_arg split: if_splits prod.splits bool.splits)
  show "ct_config c' = ct_config c \<and> ct_directive c' = ct_directive c"
    using run by (auto simp: kube_property_def ctl_disp_def dest: B(3) split: if_splits prod.splits bool.splits)
qed

lemma kube_body_appends:
  assumes "kube_body env c = (r, c')"
  shows "appends_plugins c c'"
proof -
  let ?pf = "kube_property (ke_from_ascii env) (ke_api env) (ke_parse_duration env)"
  obtain as c1 where a: "ctl_disp remaining_args_until_brace c = (as, c1)"
    by (cases "ctl_disp remaining_args_until_brace c")
  have c1: "appends_plugins c c1" using a by (rule appends_disp)
  have b: "appends_plugins c c2" if "block_loop ?pf d c1 = (r2, c2)" for d r2 c2
    using c1 appends_refl kube_block.loop_frame [OF that] by (blast intro: appends_trans)
  show ?thesis
    using assms a c1
    by (auto simp: kube_body_def Let_def split: prod.splits sum.splits list.splits intro: appends_steps dest!: b)
qed

interpretation kubernetes_setup: setup_function "kubernetes_setup env"
  unfolding kubernetes_setup_def by (rule single_setup_function [OF kube_body_appends])

section \<open>Names of the schema, printed\<close>

fun parsed_labels :: "parsed \<Rightarrow> string list" where
  "parsed_labels PDns = [''dns'']"
| "parsed_labels PNsDns = [''ns'', ''dns'']"
| "parsed_labels PDnsVersion = [''dns-version'']"
| "parsed_labels PSvcRoot = [''svc'']"
| "parsed_labels (PNsSvcRoot ns) = [ns, ''svc'']"
| "parsed_labels (PSvc ns x None (Some port) (Some proto)) = [''_'' @ port, ''_'' @ proto, x, ns, ''svc'']"
| "parsed_labels (PSvc ns x (Some ep) _ _) = [ep, x, ns, ''svc'']"
| "parsed_labels (PSvc ns x _ _ _) = [x, ns, ''svc'']"
| "parsed_labels PPodRoot = [''pod'']"
| "parsed_labels (PNsPodRoot ns) = [ns, ''pod'']"
| "parsed_labels (PPod ns p) = [p, ns, ''pod'']"
| "parsed_labels _ = []"

text \<open>The meanings a name can have: an endpoint does not look like a port, and a port comes with its protocol.\<close>

fun parsed_wf :: "parsed \<Rightarrow> bool" where
  "parsed_wf (PSvc ns x None None None) \<longleftrightarrow> True"
| "parsed_wf (PSvc ns x (Some ep) None None) \<longleftrightarrow> \<not> starts_with ep ''_''"
| "parsed_wf (PSvc ns x None (Some port) (Some proto)) \<longleftrightarrow> True"
| "parsed_wf (PSvc ns x _ _ _) \<longleftrightarrow> False"
| "parsed_wf PInvalid \<longleftrightarrow> False"
| "parsed_wf _ \<longleftrightarrow> True"

lemma parsed_labels_Nil: "parsed_wf p \<Longrightarrow> parsed_labels p = [] \<longleftrightarrow> p = PApex"
  by (cases p rule: parsed_wf.cases) simp_all

lemma parse_name_labels:
  assumes "parsed_wf p" "list_all label_ok (parsed_labels p)"
  shows "parse_name (join_with ''.'' (parsed_labels p)) = p"
proof (cases "p = PApex")
  case False
  with assms(1) have n: "parsed_labels p \<noteq> []" by (simp add: parsed_labels_Nil)
  have "join_with ''.'' (parsed_labels p) \<noteq> []"
  proof
    assume "join_with ''.'' (parsed_labels p) = []"
    then have "parsed_labels p = [[]]" using split_join_labels [OF n assms(2)] by simp
    with assms(2) show False by (simp add: label_ok_def)
  qed
  with split_join_labels [OF n assms(2)] show ?thesis
    using assms(1) False by (cases p rule: parsed_wf.cases) (simp_all add: parse_name_def starts_with_def)
qed (simp add: parse_name_def)

section \<open>Services with a cluster address\<close>

text \<open>
  A service the plugin answers for by its cluster addresses: in the store, in an exposed namespace, with names
  that are lower-case labels, as those of Kubernetes objects are, and not the wildcards.
\<close>

definition plain_label :: "string \<Rightarrow> bool" where
  "plain_label l \<longleftrightarrow> label_ok l \<and> to_ascii_lowercase l = l \<and> \<not> is_wild l"

definition cluster_service :: "kubernetes \<Rightarrow> kstore \<Rightarrow> svc \<Rightarrow> bool" where
  "cluster_service k st v \<longleftrightarrow> store_service (svc_namespace v) (svc_name v) st = Some v \<and> plain_label (svc_name v) \<and>
     plain_label (svc_namespace v) \<and> namespace_exposed k st (svc_namespace v) \<and> svc_external_name v = None \<and>
     \<not> svc_headless v \<and> \<not> kb_ignore_empty_service k"

text \<open>The primary zone with its labels, and the name of a service in it.\<close>

definition cluster_zone :: "kubernetes \<Rightarrow> string list \<Rightarrow> bool" where
  "cluster_zone k zs \<longleftrightarrow> kb_primary_zone k = fq zs \<and> list_all label_ok zs \<and> lower_labels zs = zs \<and> is_reverse (fq zs) = 0"

definition svc_labels :: "svc \<Rightarrow> string list" where
  "svc_labels v = [svc_name v, svc_namespace v, ''svc'']"

definition svc_fqdn :: "string list \<Rightarrow> svc \<Rightarrow> string" where
  "svc_fqdn zs v = fq (svc_labels v @ zs)"

lemma svc_labels_ok:
  assumes "cluster_service k st v"
  shows "list_all label_ok (svc_labels v)" "lower_labels (svc_labels v) = svc_labels v"
proof -
  show "list_all label_ok (svc_labels v)"
    using assms by (simp add: cluster_service_def plain_label_def svc_labels_def label_ok_def)
  have "to_ascii_lowercase ''svc'' = ''svc''" by code_simp
  then show "lower_labels (svc_labels v) = svc_labels v"
    using assms by (simp add: cluster_service_def plain_label_def svc_labels_def)
qed

lemma parse_svc_name:
  assumes "cluster_service k st v"
  shows "parse_name (join_with ''.'' (svc_labels v)) = PSvc (svc_namespace v) (svc_name v) None None None"
  using parse_name_labels [of "PSvc (svc_namespace v) (svc_name v) None None None"] svc_labels_ok(1) [OF assms]
  by (simp add: svc_labels_def)

lemma kube_name_svc:
  assumes "cluster_service k st v" "cluster_zone k zs" "kn_from_ascii env (svc_fqdn zs v) = Inr (svc_fqdn zs v)"
  shows "kube_name env k [svc_name v, svc_namespace v, ''svc''] = svc_fqdn zs v"
  using assms join_fq [OF svc_labels_ok(1) [OF assms(1)], of zs]
  by (simp add: kube_name_def cluster_zone_def svc_fqdn_def svc_labels_def)

lemma serve_forward_service:
  assumes v: "cluster_service k (kn_store env s) v" and z: "cluster_zone k zs"
    and n: "kn_from_ascii env (svc_fqdn zs v) = Inr (svc_fqdn zs v)" and t: "qtype req \<in> {RT_A, RT_AAAA}"
  shows "serve_forward env k req (svc_fqdn zs v) (fq zs) s =
    (Inr (Some (answer_or_nodata env k req (fq zs) (addr_records k (svc_fqdn zs v) (svc_cluster_ips v) (qtype req)) []
       ((new_reply req)\<lparr>m_authoritative := True\<rparr>) s)), s)"
proof -
  have "trim_zone (svc_fqdn zs v) (fq zs) = Some (join_with ''.'' (svc_labels v))"
    unfolding svc_fqdn_def using trim_zone_fq [OF svc_labels_ok(1) [OF v] _ svc_labels_ok(2) [OF v], of zs] z
    by (simp add: cluster_zone_def)
  moreover have "matching_services k (kn_store env s) (svc_namespace v) (svc_name v) = [v]"
    using v by (simp add: matching_services_def cluster_service_def plain_label_def)
  ultimately show ?thesis
    using v t by (auto simp: serve_forward_def Let_def parse_svc_name [OF v] cluster_service_def plain_label_def
        service_records_def cluster_records_def kube_name_svc [OF v z n])
qed

text \<open>The record of an address and its type.\<close>

fun addr_type :: "ip_addr \<Rightarrow> rtype" where
  "addr_type (V4 _) = RT_A"
| "addr_type (V6 _) = RT_AAAA"

fun addr_data :: "ip_addr \<Rightarrow> rdata" where
  "addr_data (V4 a) = RD_A a"
| "addr_data (V6 a) = RD_AAAA a"

lemma addr_record_iff: "addr_record t n (addr_type ip) ip' = Some (from_rdata n t (addr_data ip)) \<longleftrightarrow> ip' = ip"
  by (cases ip; cases ip') (auto simp: from_rdata_def)

lemma addr_records_iff: "from_rdata n (kb_ttl k) (addr_data ip) \<in> set (addr_records k n ips (addr_type ip)) \<longleftrightarrow> ip \<in> set ips"
  by (auto simp: addr_records_def in_map_filter addr_record_iff)

lemma kubernetes_forward:
  assumes "zones_match (kb_zones k) (fst (req_name req)) = Some zone" "qclass (snd (req_name req)) = DC_IN" "is_reverse zone = 0"
    and "serve_forward env k (snd (req_name req)) (fst (req_name req)) zone s = (Inr (Some m), s1)"
  shows "kubernetes_serve env k req nx s = (Replied (RMsg m), snd (req_name req), s1)"
  using assms by (simp add: kubernetes_serve_def case_prod_beta)

lemma kube_service_addresses_spec:
  assumes v: "cluster_service k (kn_store env s) v" and z: "cluster_zone k zs"
    and n: "kn_from_ascii env (svc_fqdn zs v) = Inr (svc_fqdn zs v)"
    and q: "fst (req_name req) = svc_fqdn zs v" "zones_match (kb_zones k) (svc_fqdn zs v) = Some (fq zs)"
      "qclass (snd (req_name req)) = DC_IN" "qtype (snd (req_name req)) = addr_type ip"
  shows "\<exists>m. kubernetes_serve env k req nx s = (Replied (RMsg m), snd (req_name req), s) \<and> m_rcode m = NoError \<and>
    m_answers m = addr_records k (svc_fqdn zs v) (svc_cluster_ips v) (addr_type ip) \<and>
    (from_rdata (svc_fqdn zs v) (kb_ttl k) (addr_data ip) \<in> set (m_answers m) \<longleftrightarrow> ip \<in> set (svc_cluster_ips v))"
proof -
  let ?req = "snd (req_name req)" and ?rs = "addr_records k (svc_fqdn zs v) (svc_cluster_ips v) (addr_type ip)"
  let ?m = "answer_or_nodata env k ?req (fq zs) ?rs [] ((new_reply ?req)\<lparr>m_authoritative := True\<rparr>) s"
  have "qtype ?req \<in> {RT_A, RT_AAAA}" using q(4) by (cases ip) simp_all
  from serve_forward_service [OF v z n this] q z
  have "kubernetes_serve env k req nx s = (Replied (RMsg ?m), ?req, s)"
    by (intro kubernetes_forward) (simp_all add: cluster_zone_def)
  moreover have "m_answers ?m = ?rs" "m_rcode ?m = NoError" by (simp_all add: answer_or_nodata_def)
  ultimately show ?thesis using addr_records_iff [of "svc_fqdn zs v" k ip "svc_cluster_ips v"] by (intro exI [of _ ?m]) simp
qed

lemma extract_reverse: "ip_wf ip \<Longrightarrow> extract_address_from_reverse (reverse_name_str ip) = Some ip"
  using extract_reverse_v4 extract_reverse_v6 by (cases ip) (auto simp del: reverse_name_str.simps)

section \<open>Properties\<close>

text \<open>C24: Reverse and forward look-ups agree: whatever the events of the watches, a PTR query of class IN in a reverse zone for an address that the store
  has as the cluster address of a service gives the service's name in the primary zone, and a query of the address's type for that name gets the
  address. The service is neither headless nor an external name, its namespace is exposed, its name and namespace are lower-case labels
  other than the wildcards, and services without endpoints are not ignored (\<open>ignore empty_service\<close> is off); the name in the primary zone, whose labels
  are in lower case too, lies in no longer zone of the plugin, and the name parser accepts it.\<close>

theorem kube_reverse_forward:
  assumes st: "kn_store env s = ws_store (foldl kube_step (start_watchers opts kstore_new) evs)"
    and ip: "service_by_ip ip (kn_store env s) = Some v" "ip_wf ip"
    and v: "cluster_service k (kn_store env s) v" and z: "cluster_zone k zs"
    and n: "kn_from_ascii env (svc_fqdn zs v) = Inr (svc_fqdn zs v)"
    and r: "fst (req_name rev_req) = reverse_name_str ip" "zones_match (kb_zones k) (reverse_name_str ip) = Some rz" "is_reverse rz \<noteq> 0"
      "qclass (snd (req_name rev_req)) = DC_IN" "qtype (snd (req_name rev_req)) = RT_PTR"
    and f: "fst (req_name req) = svc_fqdn zs v" "zones_match (kb_zones k) (svc_fqdn zs v) = Some (fq zs)"
      "qclass (snd (req_name req)) = DC_IN" "qtype (snd (req_name req)) = addr_type ip"
  shows "\<exists>m m'. fst (kubernetes_serve env k rev_req nx s) = Replied (RMsg m) \<and>
      map rr_data (m_answers m) = [Some (RD_PTR (svc_fqdn zs v))] \<and>
      fst (kubernetes_serve env k req nx s) = Replied (RMsg m') \<and>
      from_rdata (svc_fqdn zs v) (kb_ttl k) (addr_data ip) \<in> set (m_answers m')"
proof -
  have "kstore_ok (kn_store env s)" unfolding st by (intro kube_run_ok kube_start_ok)
  then have i: "ip \<in> set (svc_cluster_ips v)" using service_by_ipD ip(1) by blast
  obtain m' where "kubernetes_serve env k req nx s = (Replied (RMsg m'), snd (req_name req), s)"
    and "from_rdata (svc_fqdn zs v) (kb_ttl k) (addr_data ip) \<in> set (m_answers m')"
    using kube_service_addresses_spec [OF v z n f, of nx] i by blast
  moreover have "reverse_targets env k (kn_store env s) ip = [svc_fqdn zs v]"
    using ip(1) v kube_name_svc [OF v z n] by (simp add: reverse_targets_def cluster_service_def)
  then obtain m where "serve_reverse env k (snd (req_name rev_req)) (reverse_name_str ip) rz s = Some m"
    and "map rr_data (m_answers m) = [Some (RD_PTR (svc_fqdn zs v))]"
    using r(5) extract_reverse [OF ip(2)] by (simp add: serve_reverse_def add_answer_def)
  ultimately show ?thesis using r by (simp add: kubernetes_serve_def case_prod_beta)
qed

text \<open>C25: With verified pods and no fallthrough, a pod's name gets an answer only while a pod with the address in the name is
  known in that namespace; the answer is that address, and every other such name does not exist.\<close>

theorem kube_pod_verified:
  assumes st: "kn_store env s = ws_store (foldl kube_step (start_watchers opts kstore_new) evs)"
    and k: "kb_pod_mode k = PodVerified" "kb_fallthrough k = None" and z: "list_all label_ok zs" "lower_labels zs = zs" "is_reverse (fq zs) = 0"
    and n: "plain_label ns" "label_ok pod" "to_ascii_lowercase pod = pod" "fst (req_name req) = fq ([pod, ns, ''pod''] @ zs)"
      "zones_match (kb_zones k) (fst (req_name req)) = Some (fq zs)" "qclass (snd (req_name req)) = DC_IN"
    and r: "fst (kubernetes_serve env k req nx s) = Replied (RMsg m)"
  shows "(m_rcode m = NXDomain \<and> m_answers m = []) \<or>
    (\<exists>ip p. undash pod = Some ip \<and> map_of (ks_pods (kn_store env s)) (ns, pi_name p) = Some p \<and> ip \<in> set (pi_ips p) \<and>
       m_rcode m = NoError \<and> m_answers m = addr_records k (qname (snd (req_name req))) [ip] (qtype (snd (req_name req))))"
proof -
  have ok: "kstore_ok (kn_store env s)" unfolding st by (intro kube_run_ok kube_start_ok)
  have "to_ascii_lowercase ''pod'' = ''pod''" by code_simp
  then have "trim_zone (fst (req_name req)) (fq zs) = Some (join_with ''.'' [pod, ns, ''pod''])"
    unfolding n(4) using n(1-3) z by (intro trim_zone_fq) (simp_all add: plain_label_def label_ok_def)
  moreover have "parse_name (join_with ''.'' [pod, ns, ''pod'']) = PPod ns pod"
    using parse_name_labels [of "PPod ns pod"] n(1-2) by (simp add: plain_label_def label_ok_def)
  ultimately have f: "fst (serve_forward env k (snd (req_name req)) (fst (req_name req)) (fq zs) s) =
      Inr (case pod_address k (kn_store env s) ns pod of None \<Rightarrow> None
        | Some ip \<Rightarrow> Some (answer_or_nodata env k (snd (req_name req)) (fq zs)
            (addr_records k (qname (snd (req_name req))) [ip] (qtype (snd (req_name req)))) []
            ((new_reply (snd (req_name req)))\<lparr>m_authoritative := True\<rparr>) s))" (is "_ = Inr ?m")
    by (simp add: serve_forward_def Let_def)
  show ?thesis
  proof (cases "pod_address k (kn_store env s) ns pod")
    case None
    with f r n(5,6) k(2) z(3) show ?thesis
      by (auto simp: kubernetes_serve_def case_prod_beta kube_nxdomain_def add_name_server_def split: if_splits)
  next
    case (Some ip)
    then obtain p where p: "undash pod = Some ip" "pod_by_ip ip (kn_store env s) = Some p" "pi_namespace p = ns"
      using k(1) n(1) by (auto simp: pod_address_def plain_label_def split: if_splits option.splits)
    from Some f r n(5,6) z(3) show ?thesis
      using p pod_by_ipD [OF ok p(2)]
      by (auto simp: kubernetes_serve_def case_prod_beta answer_or_nodata_def split: if_splits)
  qed
qed

definition sample_env :: "kstore kube_env" where
  "sample_env = \<lparr>kn_from_ascii = Inr, kn_store = (\<lambda>s. s), kn_timestamp = (\<lambda>_. 0), kn_self_lookup = (\<lambda>_ _ _ s. (Inl ''no server'', s))\<rparr>"

definition sample_kube :: kubernetes where
  "sample_kube = (kubernetes_new [''cluster.local.'', ''10.in-addr.arpa.''] ''cluster.local.'' [] [])\<lparr>kb_pod_mode := PodVerified\<rparr>"

definition cluster_events :: "kube_event list" where
  "cluster_events = sample_events @ [NamespaceEvent (WApply \<lparr>ns_meta = \<lparr>om_name = Some ''default'', om_generate_name = None,
     om_namespace = None, om_labels = Map.empty\<rparr>\<rparr>), PodEvent (WApply (host_pod ''a''))]"

definition cluster_store :: kstore where
  "cluster_store = ws_store (foldl kube_step (start_watchers \<lparr>wo_watch_pods = True, wo_watch_endpoints = True\<rparr> kstore_new) cluster_events)"

definition web_service :: svc where
  "web_service = \<lparr>svc_name = ''web'', svc_namespace = ''default'', svc_cluster_ips = [V4 [10, 96, 0, 10]], svc_headless = False,
     svc_external_name = None, svc_ports = [], svc_publish_not_ready = False, svc_external_ips = [], svc_external_hosts = []\<rparr>"

definition no_next :: "kstore next_plugin" where
  "no_next = next_of []"

lemma sample_cluster:
  "cluster_service sample_kube cluster_store web_service" "cluster_zone sample_kube [''cluster'', ''local'']"
  "svc_fqdn [''cluster'', ''local''] web_service = ''web.default.svc.cluster.local.''"
  "service_by_ip (V4 [10, 96, 0, 10]) cluster_store = Some web_service"
  by code_simp+

lemma sample_env_simps: "kn_store sample_env s = s" "kn_from_ascii sample_env n = Inr n"
  by (simp_all add: sample_env_def)

lemma sample_forward:
  "fst (req_name (query_for ''web.default.svc.cluster.local.'' RT_A)) = ''web.default.svc.cluster.local.''"
  "zones_match (kb_zones sample_kube) ''web.default.svc.cluster.local.'' = Some (fq [''cluster'', ''local''])"
  "qclass (snd (req_name (query_for ''web.default.svc.cluster.local.'' RT_A))) = DC_IN"
  "qtype (snd (req_name (query_for ''web.default.svc.cluster.local.'' RT_A))) = addr_type (V4 [10, 96, 0, 10])"
  by code_simp+

lemma sample_reverse:
  "ip_wf (V4 [10, 96, 0, 10])"
  "fst (req_name (query_for ''10.0.96.10.in-addr.arpa.'' RT_PTR)) = reverse_name_str (V4 [10, 96, 0, 10])"
  "zones_match (kb_zones sample_kube) (reverse_name_str (V4 [10, 96, 0, 10])) = Some ''10.in-addr.arpa.''"
  "is_reverse ''10.in-addr.arpa.'' \<noteq> 0"
  "qclass (snd (req_name (query_for ''10.0.96.10.in-addr.arpa.'' RT_PTR))) = DC_IN"
  "qtype (snd (req_name (query_for ''10.0.96.10.in-addr.arpa.'' RT_PTR))) = RT_PTR"
  by code_simp+

lemma sample_pod:
  "plain_label ''default''" "label_ok ''10-0-0-1''" "to_ascii_lowercase ''10-0-0-1'' = ''10-0-0-1''"
  "fst (req_name (query_for ''10-0-0-1.default.pod.cluster.local.'' RT_A)) = fq ([''10-0-0-1'', ''default'', ''pod''] @ [''cluster'', ''local''])"
  "zones_match (kb_zones sample_kube) (fst (req_name (query_for ''10-0-0-1.default.pod.cluster.local.'' RT_A))) = Some (fq [''cluster'', ''local''])"
  "qclass (snd (req_name (query_for ''10-0-0-1.default.pod.cluster.local.'' RT_A))) = DC_IN"
  by code_simp+

theorem kube_reverse_forward_witness:
  "\<exists>m m'. fst (kubernetes_serve sample_env sample_kube (query_for ''10.0.96.10.in-addr.arpa.'' RT_PTR) no_next cluster_store) = Replied (RMsg m) \<and>
      map rr_data (m_answers m) = [Some (RD_PTR ''web.default.svc.cluster.local.'')] \<and>
      fst (kubernetes_serve sample_env sample_kube (query_for ''web.default.svc.cluster.local.'' RT_A) no_next cluster_store) = Replied (RMsg m') \<and>
      from_rdata ''web.default.svc.cluster.local.'' (kb_ttl sample_kube) (RD_A [10, 96, 0, 10]) \<in> set (m_answers m')"
  using kube_reverse_forward [of sample_env cluster_store "\<lparr>wo_watch_pods = True, wo_watch_endpoints = True\<rparr>" cluster_events
      "V4 [10, 96, 0, 10]" web_service sample_kube "[''cluster'', ''local'']" "query_for ''10.0.96.10.in-addr.arpa.'' RT_PTR"
      "''10.in-addr.arpa.''" "query_for ''web.default.svc.cluster.local.'' RT_A" no_next,
      unfolded sample_env_simps sample_cluster addr_data.simps,
      OF cluster_store_def refl sample_reverse(1) sample_cluster(1,2) refl sample_reverse(2-) sample_forward] .

theorem kube_pod_verified_witness:
  "\<exists>m. fst (kubernetes_serve sample_env sample_kube (query_for ''10-0-0-1.default.pod.cluster.local.'' RT_A) no_next cluster_store) = Replied (RMsg m) \<and>
     (\<exists>p. map_of (ks_pods cluster_store) (''default'', pi_name p) = Some p \<and> V4 [10, 0, 0, 1] \<in> set (pi_ips p))"
proof -
  let ?req = "query_for ''10-0-0-1.default.pod.cluster.local.'' RT_A"
  have b: "map_option m_rcode (case fst (kubernetes_serve sample_env sample_kube ?req no_next cluster_store) of
      Replied (RMsg m) \<Rightarrow> Some m | _ \<Rightarrow> None) = Some NoError"
    and u: "undash ''10-0-0-1'' = Some (V4 [10, 0, 0, 1])"
    and z: "list_all label_ok [''cluster'', ''local'']" "lower_labels [''cluster'', ''local''] = [''cluster'', ''local'']"
      "is_reverse (fq [''cluster'', ''local'']) = 0"
    by code_simp+
  from b obtain m where m: "fst (kubernetes_serve sample_env sample_kube ?req no_next cluster_store) = Replied (RMsg m)" "m_rcode m = NoError"
    by (auto split: outcome.splits reply.splits)
  have k: "kb_pod_mode sample_kube = PodVerified" "kb_fallthrough sample_kube = None"
    by (simp_all add: sample_kube_def kubernetes_new_def)
  from m u show ?thesis
    using kube_pod_verified [of sample_env cluster_store "\<lparr>wo_watch_pods = True, wo_watch_endpoints = True\<rparr>" cluster_events,
        unfolded sample_env_simps, OF cluster_store_def k z sample_pod m(1)]
    by auto
qed

end
