(* ===== verification/K8s_External.thy ===== *)
theory K8s_External
  imports Kubernetes
begin

text \<open>
  The \<open>k8s_external\<close> plugin, \<open>src/plugins/k8s_external.rs\<close>: services under a domain outside the cluster, by their external
  addresses, over what the \<open>kubernetes\<close> plugin of the same server answers (\<open>Handler::external_addrs\<close> and
  \<open>Handler::external_reverse\<close>).

  The two calls are fields of the environment; \<open>wired\<close> is the environment after the wiring has found the
  \<open>kubernetes\<close> plugin. The clock, the interfaces of the host, the name parser and the look-up through the server are arguments.

  Shown here: the handler keeps the id, the setup only appends; the name of a reverse answer resolves to the address
  asked for when its namespace is exposed, and need not when it is not.
\<close>

record external =
  ex_zones :: "string list"
  ex_apex :: string
  ex_ttl :: u32
  ex_headless :: bool
  ex_fallthrough :: "string list option"

record 's ext_env =
  xe_from_ascii :: "string \<Rightarrow> dname res"
  xe_timestamp :: "'s \<Rightarrow> int"
  xe_interfaces :: "'s \<Rightarrow> ip_addr list"
  xe_self_lookup :: "request \<Rightarrow> dname \<Rightarrow> rtype \<Rightarrow> 's \<Rightarrow> message res \<times> 's"
  xe_addrs :: "string \<Rightarrow> string \<Rightarrow> 's \<Rightarrow> external_service option"
  xe_reverse :: "ip_addr \<Rightarrow> 's \<Rightarrow> (string \<times> string) option"

definition ext_soa :: "'s ext_env \<Rightarrow> external \<Rightarrow> string \<Rightarrow> 's \<Rightarrow> rr" where
  "ext_soa env x zone s =
     (let z = (case xe_from_ascii env zone of Inr n \<Rightarrow> n | Inl _ \<Rightarrow> ''.'');
          under = (\<lambda>l. case xe_from_ascii env (join [l, ex_apex x] zone) of Inr n \<Rightarrow> n | Inl _ \<Rightarrow> z) in
      from_rdata z (ex_ttl x) (RD_SOA \<lparr>soa_mname = under ''ns1'', soa_rname = under ''hostmaster'',
        soa_serial = word_of_int (xe_timestamp env s), soa_refresh = 7200, soa_retry = 1800, soa_expire = 86400,
        soa_minimum = ex_ttl x\<rparr>))"

definition ext_addrs :: "external \<Rightarrow> dname \<Rightarrow> ip_addr list \<Rightarrow> rtype \<Rightarrow> rr list" where
  "ext_addrs x name ips qt = List.map_filter (addr_record (ex_ttl x) name qt) ips"

text \<open>Address answers, or the SOA record when there are none.\<close>

definition ext_or_soa :: "'s ext_env \<Rightarrow> external \<Rightarrow> string \<Rightarrow> 's \<Rightarrow> message \<Rightarrow> message" where
  "ext_or_soa env x zone s m = (if m_answers m = [] then add_name_server (ext_soa env x zone s) m else m)"

definition ext_reverse :: "'s ext_env \<Rightarrow> external \<Rightarrow> request \<Rightarrow> string \<Rightarrow> string \<Rightarrow> message \<Rightarrow> 's \<Rightarrow> message option" where
  "ext_reverse env x req name zone m s =
     Option.bind (extract_address_from_reverse name) (\<lambda>ip.
     Option.bind (xe_reverse env ip s) (\<lambda>(ns, service).
     Option.bind (find (\<lambda>z. is_reverse z = 0) (ex_zones x)) (\<lambda>fwd.
     Option.bind (ok (xe_from_ascii env (join [service, ns] fwd))) (\<lambda>target.
     Some (if qtype req = RT_PTR \<or> qtype req = RT_ANY then add_answer (from_rdata (qname req) (ex_ttl x) (RD_PTR target)) m
           else add_name_server (ext_soa env x zone s) m)))))"

definition ext_zone_apex :: "'s ext_env \<Rightarrow> external \<Rightarrow> request \<Rightarrow> string \<Rightarrow> message \<Rightarrow> 's \<Rightarrow> message option" where
  "ext_zone_apex env x req zone m s =
     (if qtype req = RT_SOA \<or> qtype req = RT_ANY then Some (add_answer (ext_soa env x zone s) m)
      else if qtype req = RT_NS then
        map_option (\<lambda>n. add_answer (from_rdata (qname req) (ex_ttl x) (RD_NS n)) m) (ok (xe_from_ascii env (join [''ns1'', ex_apex x] zone)))
      else Some (add_name_server (ext_soa env x zone s) m))"

text \<open>The name below the apex label: the labels after it, outermost first.\<close>

definition ext_apex :: "'s ext_env \<Rightarrow> external \<Rightarrow> request \<Rightarrow> string \<Rightarrow> string list \<Rightarrow> message \<Rightarrow> 's \<Rightarrow> message option" where
  "ext_apex env x req zone below m s =
     (case below of
        [] \<Rightarrow> Some (add_name_server (ext_soa env x zone s) m)
      | [l] \<Rightarrow>
          if l = ''ns1'' then
            Some (ext_or_soa env x zone s (foldl (\<lambda>m r. add_answer r m) m (ext_addrs x (qname req) (xe_interfaces env s) (qtype req))))
          else None
      | _ \<Rightarrow> None)"

text \<open>What a name asks for: namespace, service, port, protocol, endpoint.\<close>

record ext_query =
  xq_namespace :: string
  xq_service :: string
  xq_port :: "string option"
  xq_proto :: "string option"
  xq_endpoint :: "string option"

definition ext_parse :: "external \<Rightarrow> string list \<Rightarrow> ext_query option" where
  "ext_parse x segs =
     (case segs of
        [ns, service] \<Rightarrow> Some \<lparr>xq_namespace = ns, xq_service = service, xq_port = None, xq_proto = None, xq_endpoint = None\<rparr>
      | [ns, service, ep] \<Rightarrow>
          if ex_headless x \<and> \<not> starts_with ep ''_''
          then Some \<lparr>xq_namespace = ns, xq_service = service, xq_port = None, xq_proto = None, xq_endpoint = Some ep\<rparr> else None
      | [ns, service, proto, port] \<Rightarrow>
          if starts_with proto ''_'' \<and> starts_with port ''_''
          then Some \<lparr>xq_namespace = ns, xq_service = service, xq_port = Some (tl port), xq_proto = Some (tl proto), xq_endpoint = None\<rparr>
          else None
      | _ \<Rightarrow> None)"

type_synonym ext_targets = "(dname \<times> ip_addr list) list"

definition ext_endpoints :: "'s ext_env \<Rightarrow> external \<Rightarrow> ext_query \<Rightarrow> string \<Rightarrow> external_service \<Rightarrow> ext_targets" where
  "ext_endpoints env x q zone xs =
     (if ex_headless x then
        List.map_filter (\<lambda>(h, ips). map_option (\<lambda>n. (n, ips)) (ok (xe_from_ascii env (join [h, xq_service q, xq_namespace q] zone))))
          (xs_endpoints xs)
      else [])"

definition ext_srv :: "external \<Rightarrow> dname \<Rightarrow> ext_targets \<Rightarrow> (string \<times> string \<times> u16) list \<Rightarrow> message \<Rightarrow> message" where
  "ext_srv x name targets ports m =
     with_answers (concat (map (\<lambda>(_, _, port). map (\<lambda>(t, _). from_rdata name (ex_ttl x) (RD_SRV 0 100 port t)) targets) ports))
       (concat (map (\<lambda>(t, ips). ext_addrs x t ips RT_ANY) targets)) m"

definition ext_port_matches :: "string \<Rightarrow> string option \<Rightarrow> string \<times> string \<times> u16 \<Rightarrow> bool" where
  "ext_port_matches p proto port \<longleftrightarrow>
     (case port of (pname, pproto, _) \<Rightarrow> (p = ''*'' \<or> eq_ignore_case pname p) \<and>
        (case proto of Some pr \<Rightarrow> pr = ''*'' \<or> eq_ignore_case pproto pr | None \<Rightarrow> True))"

fun ext_hostnames :: "'s ext_env \<Rightarrow> external \<Rightarrow> request \<Rightarrow> string list \<Rightarrow> message \<Rightarrow> 's \<Rightarrow> message \<times> 's" where
  "ext_hostnames env x req [] m s = (m, s)"
| "ext_hostnames env x req (h # hs) m s =
     (case xe_from_ascii env (fqdn h) of
        Inl _ \<Rightarrow> ext_hostnames env x req hs m s
      | Inr t \<Rightarrow>
          (let m1 = add_answer (from_rdata (qname req) (ex_ttl x) (RD_CNAME t)) m in
           if qtype req = RT_A \<or> qtype req = RT_AAAA then
             (case xe_self_lookup env req t (qtype req) s of
                (Inl _, s1) \<Rightarrow> ext_hostnames env x req hs m1 s1
              | (Inr up, s1) \<Rightarrow>
                  ext_hostnames env x req hs
                    (foldl (\<lambda>m r. add_answer r m) (if m_truncated up then m1\<lparr>m_truncated := True\<rparr> else m1) (m_answers up)) s1)
           else ext_hostnames env x req hs m1 s))"

definition ext_addresses :: "'s ext_env \<Rightarrow> external \<Rightarrow> request \<Rightarrow> string \<Rightarrow> ip_addr list \<Rightarrow> string list \<Rightarrow> message \<Rightarrow> 's \<Rightarrow> message \<times> 's" where
  "ext_addresses env x req zone ips hosts m s =
     (let m1 = foldl (\<lambda>m r. add_answer r m) m (ext_addrs x (qname req) ips (qtype req)) in
      case (if ips = [] \<or> qtype req = RT_CNAME then ext_hostnames env x req hosts m1 s else (m1, s)) of
        (m2, s1) \<Rightarrow> (ext_or_soa env x zone s1 m2, s1))"

definition ext_service ::
    "'s ext_env \<Rightarrow> external \<Rightarrow> request \<Rightarrow> string \<Rightarrow> ext_query \<Rightarrow> external_service \<Rightarrow> dname \<Rightarrow> message \<Rightarrow> 's \<Rightarrow> message option \<times> 's" where
  "ext_service env x req zone q xs svc_nm m s =
     (let eps = ext_endpoints env x q zone xs;
          ips = xs_ips xs @ concat (map snd eps);
          targets = (if eps = [] then [(svc_nm, ips)] else eps);
          nodata = add_name_server (ext_soa env x zone s) m in
      case xq_endpoint q of
        Some ep \<Rightarrow>
          (map_option (\<lambda>(_, eips). ext_or_soa env x zone s (foldl (\<lambda>m r. add_answer r m) m (ext_addrs x (qname req) eips (qtype req))))
             (find (\<lambda>(h, _). eq_ignore_case h ep) (xs_endpoints xs)), s)
      | None \<Rightarrow>
          if ips = [] \<and> xs_hostnames xs = [] then (None, s)
          else (case xq_port q of
              Some p \<Rightarrow>
                if qtype req = RT_SRV then
                  (let ps = filter (ext_port_matches p (xq_proto q)) (xs_ports xs) in
                   (if ps = [] then None else Some (ext_srv x (qname req) targets ps m), s))
                else (if list_ex (ext_port_matches p None) (xs_ports xs) then Some nodata else None, s)
            | None \<Rightarrow>
                if qtype req = RT_SRV then (Some (ext_srv x (qname req) targets (xs_ports xs) m), s)
                else if qtype req \<in> {RT_A, RT_AAAA, RT_ANY, RT_CNAME} then
                  (case ext_addresses env x req zone ips (xs_hostnames xs) m s of (m1, s1) \<Rightarrow> (Some m1, s1))
                else (Some nodata, s)))"

definition ext_serve :: "'s ext_env \<Rightarrow> external \<Rightarrow> request \<Rightarrow> string \<Rightarrow> string \<Rightarrow> 's \<Rightarrow> message option \<times> 's" where
  "ext_serve env x req name zone s =
     (let m = (new_reply req)\<lparr>m_authoritative := True\<rparr>;
          rel = (case trim_zone name zone of Some r \<Rightarrow> r | None \<Rightarrow> []);
          segs = rev (split_char (CHR ''.'') rel) in
      if is_reverse zone \<noteq> 0 then (ext_reverse env x req name zone m s, s)
      else if rel = [] then (ext_zone_apex env x req zone m s, s)
      else if hd segs = ex_apex x then (ext_apex env x req zone (tl segs) m s, s)
      else if length segs = 1 then (Some (add_name_server (ext_soa env x zone s) m), s)
      else (case ext_parse x segs of
          None \<Rightarrow> (None, s)
        | Some q \<Rightarrow>
            (case xe_addrs env (xq_namespace q) (xq_service q) s of
               None \<Rightarrow> (None, s)
             | Some xs \<Rightarrow>
                 (case xe_from_ascii env (join [xq_service q, xq_namespace q] zone) of
                    Inl _ \<Rightarrow> (None, s)
                  | Inr svc_nm \<Rightarrow> ext_service env x req zone q xs svc_nm m s))))"

definition external_serve :: "'s ext_env \<Rightarrow> external \<Rightarrow> 's handler" where
  "external_serve env x req nx s =
     (case req_name req of (name, req1) \<Rightarrow>
        (case zones_match (ex_zones x) name of
           None \<Rightarrow> nx_serve nx req1 s
         | Some zone \<Rightarrow>
             (case ext_serve env x req1 name zone s of
                (Some m, s1) \<Rightarrow> (Replied (RMsg m), req1, s1)
              | (None, s1) \<Rightarrow>
                  (case Option.bind (ex_fallthrough x) (\<lambda>ft. zones_match ft name) of
                     Some _ \<Rightarrow> nx_serve nx req1 s1
                   | None \<Rightarrow> (Replied (RMsg (add_name_server (ext_soa env x zone s1)
                       ((new_reply req1)\<lparr>m_authoritative := True, m_rcode := NXDomain\<rparr>))), req1, s1)))))"

text \<open>The wiring: the two calls go to the \<open>kubernetes\<close> plugin.\<close>

definition wired :: "'s kube_env \<Rightarrow> kubernetes \<Rightarrow> 's ext_env \<Rightarrow> 's ext_env" where
  "wired kenv k env = env\<lparr>xe_addrs := external_addrs kenv k, xe_reverse := external_reverse kenv\<rparr>"

section \<open>Setup\<close>

definition ext_line ::
    "(string \<Rightarrow> dname res) \<Rightarrow> 'net ipnet_api \<Rightarrow> (string \<Rightarrow> err) \<Rightarrow> err \<Rightarrow> string \<Rightarrow> string list \<Rightarrow> external \<Rightarrow> external res" where
  "ext_line from_ascii api ef arg_e v a x =
     (if v = ''apex'' then (if length a \<noteq> 1 then Inl arg_e else Inr (x\<lparr>ex_apex := hd a\<rparr>))
      else if v = ''ttl'' then
        (if length a \<noteq> 1 then Inl arg_e
         else rbind (ok_or (ef (''bad ttl '' @ hd a)) (parse_u32 (hd a))) (\<lambda>t.
           if t > 3600 then Inl (ef ''ttl must be in range [0, 3600]'') else Inr (x\<lparr>ex_ttl := of_nat t\<rparr>)))
      else if v = ''headless'' then Inr (x\<lparr>ex_headless := True\<rparr>)
      else if v = ''fallthrough'' then
        rbind (if a = [] then Inr [''.''] else normalize_zones from_ascii api a) (\<lambda>z. Inr (x\<lparr>ex_fallthrough := Some z\<rparr>))
      else Inl (ef (''unknown property '' @ quote v)))"

definition ext_property ::
    "(string \<Rightarrow> dname res) \<Rightarrow> 'net ipnet_api \<Rightarrow> external \<Rightarrow> 's controller \<Rightarrow> external res \<times> 's controller" where
  "ext_property from_ascii api = line_property (\<lambda>v. v \<in> {''apex'', ''ttl'', ''fallthrough''}) (ext_line from_ascii api)"

definition ext_body :: "(string \<Rightarrow> dname res) \<Rightarrow> 'net ipnet_api \<Rightarrow> 's ext_env \<Rightarrow> 's setup_fn" where
  "ext_body from_ascii api env c =
     (case ctl_disp remaining_args_until_brace c of (as, c1) \<Rightarrow>
      case controller_origins from_ascii api c1 as of
        Inl e \<Rightarrow> (Inl e, c1)
      | Inr zones \<Rightarrow>
          (case block_loop (ext_property from_ascii api)
                  \<lparr>ex_zones = zones, ex_apex = ''dns'', ex_ttl = 5, ex_headless = False, ex_fallthrough = None\<rparr> c1 of
             (Inl e, c2) \<Rightarrow> (Inl e, c2)
           | (Inr x, c2) \<Rightarrow> (Inr (), add_plugin (''k8s_external'', external_serve env x) c2)))"

definition k8s_external_setup :: "(string \<Rightarrow> dname res) \<Rightarrow> 'net ipnet_api \<Rightarrow> 's ext_env \<Rightarrow> 's setup_fn" where
  "k8s_external_setup from_ascii api env = single_setup ''k8s_external'' (ext_body from_ascii api env)"

section \<open>Contracts\<close>

lemma ext_message_ids [simp]:
  "m_id (ext_or_soa env x zone s m) = m_id m" "m_id (ext_srv x n ts ps m) = m_id m"
  "m_id (foldl (\<lambda>m r. add_answer r m) m rs) = m_id m"
  by (simp_all add: ext_or_soa_def ext_srv_def fold_add_answer)

lemma ext_reverse_id: "ext_reverse env x req name zone m s = Some m' \<Longrightarrow> m_id m' = m_id m"
  by (auto simp: ext_reverse_def bind_eq_Some_conv split: prod.splits if_splits)

lemma ext_hostnames_id: "ext_hostnames env x req hs m s = (m', s') \<Longrightarrow> m_id m' = m_id m"
  by (induction env x req hs m s rule: ext_hostnames.induct)
    (auto simp: Let_def split: sum.splits if_splits prod.splits)

lemma ext_addresses_id: "ext_addresses env x req zone ips hosts m s = (m', s') \<Longrightarrow> m_id m' = m_id m"
  by (auto simp: ext_addresses_def Let_def dest: ext_hostnames_id split: prod.splits if_splits)

lemma ext_service_id: "ext_service env x req zone q xs n m s = (Some m', s') \<Longrightarrow> m_id m' = m_id m"
  by (auto simp: ext_service_def Let_def dest!: ext_addresses_id split: option.splits prod.splits if_splits)

lemma ext_apex_id:
  "ext_zone_apex env x req zone m s = Some m' \<Longrightarrow> m_id m' = m_id m" "ext_apex env x req zone below m s = Some m' \<Longrightarrow> m_id m' = m_id m"
  by (auto simp: ext_zone_apex_def ext_apex_def split: if_splits list.splits)

lemma ext_serve_id: "ext_serve env x req name zone s = (Some m, s') \<Longrightarrow> m_id m = m_id (rq_msg req)"
  by (auto simp: ext_serve_def Let_def dest!: ext_service_id ext_apex_id ext_reverse_id split: option.splits sum.splits if_splits)

lemma external_keeps_id:
  assumes "keeps_id (nx_serve nx)"
  shows "keeps_id (\<lambda>req s. external_serve env x req nx s)"
proof -
  have named: "keeps_id (\<lambda>req s. nx_serve nx (snd (req_name req)) s)" by (rule keeps_id_same [OF assms]) simp
  note D = keeps_idD [OF named]
  show ?thesis
  proof (rule keeps_idI)
    fix req s out req' s'
    assume run: "external_serve env x req nx s = (out, req', s')"
    show "m_id (rq_msg req') = m_id (rq_msg req)"
      using run D(1) [of req] by (auto simp: external_serve_def case_prod_beta split: option.splits)
  next
    fix req s m req' s'
    assume run: "external_serve env x req nx s = (Replied (RMsg m), req', s')"
    obtain r s1 where e: "ext_serve env x (snd (req_name req)) (fst (req_name req)) (the (zones_match (ex_zones x) (fst (req_name req)))) s = (r, s1)"
      by (cases "ext_serve env x (snd (req_name req)) (fst (req_name req)) (the (zones_match (ex_zones x) (fst (req_name req)))) s")
    show "m_id m = m_id (rq_msg req)"
      using run e D(2) [of req] by (auto simp: external_serve_def case_prod_beta dest: ext_serve_id split: option.splits)
  qed
qed

interpretation external_handler: id_keeping_handler "external_serve env x"
  by unfold_locales (rule external_keeps_id)

interpretation ext_block: block_property "ext_property from_ascii api"
  unfolding ext_property_def by (rule line_property_block) (simp add: ext_line_def is_ok_def)

lemma ext_body_appends:
  assumes "ext_body from_ascii api env c = (r, c')"
  shows "appends_plugins c c'"
proof -
  obtain as c1 where a: "ctl_disp remaining_args_until_brace c = (as, c1)"
    by (cases "ctl_disp remaining_args_until_brace c")
  have c1: "appends_plugins c c1" using a by (rule appends_disp)
  have b: "appends_plugins c c2" if "block_loop (ext_property from_ascii api) d c1 = (r2, c2)" for d r2 c2
    using c1 appends_refl ext_block.loop_frame [OF that] by (blast intro: appends_trans)
  show ?thesis
    using assms a c1 by (auto simp: ext_body_def split: prod.splits sum.splits intro: appends_steps dest!: b)
qed

interpretation k8s_external_setup: setup_function "k8s_external_setup from_ascii api env"
  unfolding k8s_external_setup_def by (rule single_setup_function [OF ext_body_appends])

section \<open>Reverse and forward answers\<close>

definition ext_name :: "string list \<Rightarrow> svc \<Rightarrow> string" where
  "ext_name zs v = fq ([svc_name v, svc_namespace v] @ zs)"

text \<open>The first forward zone of the plugin, by its labels.\<close>

definition ext_zone :: "external \<Rightarrow> string list \<Rightarrow> bool" where
  "ext_zone x zs \<longleftrightarrow> find (\<lambda>z. is_reverse z = 0) (ex_zones x) = Some (fq zs) \<and> list_all label_ok zs \<and> lower_labels zs = zs"

lemma ext_zone_forward: "ext_zone x zs \<Longrightarrow> is_reverse (fq zs) = 0"
  by (auto simp: ext_zone_def find_Some_iff)

lemma ext_addrs_iff: "from_rdata n (ex_ttl x) (addr_data ip) \<in> set (ext_addrs x n ips (addr_type ip)) \<longleftrightarrow> ip \<in> set ips"
  by (auto simp: ext_addrs_def in_map_filter addr_record_iff)

lemma m_answers_ext_or_soa [simp]: "m_answers (ext_or_soa env x zone s m) = m_answers m"
  by (simp add: ext_or_soa_def add_name_server_def)

lemma ext_serve_service:
  assumes z: "ext_zone x zs" and l: "plain_label (svc_name v)" "plain_label (svc_namespace v)" "svc_namespace v \<noteq> ex_apex x"
    and n: "xe_from_ascii env (ext_name zs v) = Inr (ext_name zs v)"
    and xs: "xe_addrs env (svc_namespace v) (svc_name v) s = Some xs" "xs_ips xs \<noteq> []" "qtype req = addr_type ip"
  shows "\<exists>m. ext_serve env x req (ext_name zs v) (fq zs) s = (Some m, s) \<and>
    (ip \<in> set (xs_ips xs) \<longrightarrow> from_rdata (qname req) (ex_ttl x) (addr_data ip) \<in> set (m_answers m))"
proof -
  let ?ls = "[svc_name v, svc_namespace v]"
  have ls: "list_all label_ok ?ls" "lower_labels ?ls = ?ls" using l by (simp_all add: plain_label_def)
  have t: "trim_zone (ext_name zs v) (fq zs) = Some (join_with ''.'' ?ls)"
    unfolding ext_name_def using ls z by (intro trim_zone_fq) (simp_all add: ext_zone_def)
  have sp: "split_char (CHR ''.'') (join_with ''.'' ?ls) = ?ls" using ls by (intro split_join_labels) simp_all
  then have ne: "join_with ''.'' ?ls \<noteq> []" by auto
  have j: "join ?ls (fq zs) = ext_name zs v" unfolding ext_name_def using ls z by (intro join_fq) (simp_all add: ext_zone_def)
  have q: "qtype req \<noteq> RT_SRV" "qtype req \<in> {RT_A, RT_AAAA, RT_ANY, RT_CNAME}" "qtype req \<noteq> RT_CNAME"
    using xs(3) by (cases ip; simp)+
  let ?q = "\<lparr>xq_namespace = svc_namespace v, xq_service = svc_name v, xq_port = None, xq_proto = None, xq_endpoint = None\<rparr>"
  have "ext_serve env x req (ext_name zs v) (fq zs) s =
      ext_service env x req (fq zs) ?q xs (ext_name zs v) ((new_reply req)\<lparr>m_authoritative := True\<rparr>) s"
    using t sp ne j l(3) n xs(1) ext_zone_forward [OF z] by (simp add: ext_serve_def Let_def ext_parse_def)
  moreover have "ip \<in> set (xs_ips xs) \<Longrightarrow> from_rdata (qname req) (ex_ttl x) (addr_data ip) \<in>
      set (ext_addrs x (qname req) (xs_ips xs @ ys) (addr_type ip))" for ys
    by (simp add: ext_addrs_iff)
  ultimately show ?thesis
    using q xs(2,3) by (simp add: ext_service_def Let_def ext_addresses_def fold_add_answer)
qed

lemma external_serve_some:
  assumes "zones_match (ex_zones x) (fst (req_name req)) = Some zone"
    and "ext_serve env x (snd (req_name req)) (fst (req_name req)) zone s = (Some m, s1)"
  shows "fst (external_serve env x req nx s) = Replied (RMsg m)"
  using assms by (simp add: external_serve_def case_prod_beta)

lemma external_addrs_exposed:
  assumes "store_service (svc_namespace v) (svc_name v) (kn_store kenv s) = Some v" "namespace_exposed k (kn_store kenv s) (svc_namespace v)"
  shows "\<exists>xs. external_addrs kenv k (svc_namespace v) (svc_name v) s = Some xs \<and> xs_ips xs = svc_external_ips v"
  using assms by (simp add: external_addrs_def Let_def)

text \<open>A service of a namespace that is not exposed has a reverse name, which does not resolve.\<close>

definition balanced_service :: api_service where
  "balanced_service = (sample_service ''web'' ''10.96.0.10'')\<lparr>sv_ingress := Some [\<lparr>ai_ip = Some ''192.0.2.80'', ai_hostname = None\<rparr>]\<rparr>"

definition balanced_store :: kstore where
  "balanced_store = ws_store (foldl kube_step (start_watchers \<lparr>wo_watch_pods = True, wo_watch_endpoints = True\<rparr> kstore_new)
     (cluster_events @ [ServiceEvent (WApply balanced_service)]))"

lemma unexposed_reverse:
  "external_reverse sample_env (V4 [192, 0, 2, 80]) balanced_store = Some (''default'', ''web'') \<and>
   external_addrs sample_env (sample_kube\<lparr>kb_namespaces := [''other'']\<rparr>) ''default'' ''web'' balanced_store = None"
  by (simp add: Option.is_none_def [symmetric]) code_simp

section \<open>Properties\<close>

text \<open>Over the \<open>kubernetes\<close> plugin of the same server, whatever the events of the watches: a reverse query for an external
  address of a service of an exposed namespace gives the service's external name, and that name resolves to the address.\<close>

lemma external_reverse_forward:
  assumes st: "kn_store kenv s = ws_store (foldl kube_step (start_watchers opts kstore_new) evs)"
    and ip: "service_by_external_ip ip (kn_store kenv s) = Some v" "ip_wf ip"
    and v: "namespace_exposed k (kn_store kenv s) (svc_namespace v)" "plain_label (svc_name v)" "plain_label (svc_namespace v)"
      "svc_namespace v \<noteq> ex_apex x"
    and z: "ext_zone x zs" and n: "xe_from_ascii env (ext_name zs v) = Inr (ext_name zs v)"
    and r: "fst (req_name rev_req) = reverse_name_str ip" "zones_match (ex_zones x) (reverse_name_str ip) = Some rz" "is_reverse rz \<noteq> 0"
      "qtype (snd (req_name rev_req)) = RT_PTR"
    and f: "fst (req_name req) = ext_name zs v" "zones_match (ex_zones x) (ext_name zs v) = Some (fq zs)"
      "qtype (snd (req_name req)) = addr_type ip"
  shows "\<exists>m m'. fst (external_serve (wired kenv k env) x rev_req nx s) = Replied (RMsg m) \<and>
      map rr_data (m_answers m) = [Some (RD_PTR (ext_name zs v))] \<and>
      fst (external_serve (wired kenv k env) x req nx s) = Replied (RMsg m') \<and>
      from_rdata (qname (snd (req_name req))) (ex_ttl x) (addr_data ip) \<in> set (m_answers m')"
proof -
  let ?env = "wired kenv k env"
  have "kstore_ok (kn_store kenv s)" unfolding st by (intro kube_run_ok kube_start_ok)
  then have i: "store_service (svc_namespace v) (svc_name v) (kn_store kenv s) = Some v" "ip \<in> set (svc_external_ips v)"
    using service_by_external_ipD ip(1) by blast+
  obtain xs where xs: "xe_addrs ?env (svc_namespace v) (svc_name v) s = Some xs" "xs_ips xs = svc_external_ips v"
    using external_addrs_exposed [OF i(1) v(1)] by (auto simp: wired_def)
  have n': "xe_from_ascii ?env (ext_name zs v) = Inr (ext_name zs v)" using n by (simp add: wired_def)
  have "xs_ips xs \<noteq> []" using xs(2) i(2) by auto
  then obtain m' where m': "ext_serve ?env x (snd (req_name req)) (ext_name zs v) (fq zs) s = (Some m', s)"
    "from_rdata (qname (snd (req_name req))) (ex_ttl x) (addr_data ip) \<in> set (m_answers m')"
    using ext_serve_service [OF z v(2-4) n' xs(1) _ f(3)] xs(2) i(2) by auto
  have "join [svc_name v, svc_namespace v] (fq zs) = ext_name zs v"
    unfolding ext_name_def using v z by (intro join_fq) (simp_all add: plain_label_def ext_zone_def)
  then obtain m where m: "ext_serve ?env x (snd (req_name rev_req)) (reverse_name_str ip) rz s = (Some m, s)"
    "map rr_data (m_answers m) = [Some (RD_PTR (ext_name zs v))]"
    using r(3,4) extract_reverse [OF ip(2)] ip(1) n z
    by (simp add: ext_serve_def Let_def ext_reverse_def wired_def external_reverse_def ext_zone_def add_answer_def)
  have "fst (external_serve ?env x req nx s) = Replied (RMsg m')" using f m'(1) by (simp add: external_serve_some [where ?s1.0 = s])
  moreover have "fst (external_serve ?env x rev_req nx s) = Replied (RMsg m)" using r m(1) by (simp add: external_serve_some [where ?s1.0 = s])
  ultimately show ?thesis using m(2) m'(2) by (intro exI [of _ m] exI [of _ m'] conjI)
qed

definition sample_external :: external where
  "sample_external = \<lparr>ex_zones = [''example.org.'', ''192.in-addr.arpa.''], ex_apex = ''dns'', ex_ttl = 5, ex_headless = False, ex_fallthrough = None\<rparr>"

definition sample_ext_env :: "kstore ext_env" where
  "sample_ext_env = \<lparr>xe_from_ascii = Inr, xe_timestamp = (\<lambda>_. 0), xe_interfaces = (\<lambda>_. []), xe_self_lookup = (\<lambda>_ _ _ s. (Inl ''no server'', s)),
     xe_addrs = (\<lambda>_ _ _. None), xe_reverse = (\<lambda>_ _. None)\<rparr>"

definition balanced_svc :: svc where
  "balanced_svc = web_service\<lparr>svc_external_ips := [V4 [192, 0, 2, 80]]\<rparr>"

lemma balanced_facts:
  "service_by_external_ip (V4 [192, 0, 2, 80]) balanced_store = Some balanced_svc" "ip_wf (V4 [192, 0, 2, 80])"
  "namespace_exposed sample_kube balanced_store (svc_namespace balanced_svc)" "plain_label (svc_name balanced_svc)"
  "plain_label (svc_namespace balanced_svc)" "svc_namespace balanced_svc \<noteq> ex_apex sample_external"
  "ext_zone sample_external [''example'', ''org'']"
  by code_simp+

lemma balanced_queries:
  "fst (req_name (query_for ''80.2.0.192.in-addr.arpa.'' RT_PTR)) = reverse_name_str (V4 [192, 0, 2, 80])"
  "zones_match (ex_zones sample_external) (reverse_name_str (V4 [192, 0, 2, 80])) = Some ''192.in-addr.arpa.''"
  "is_reverse ''192.in-addr.arpa.'' \<noteq> 0" "qtype (snd (req_name (query_for ''80.2.0.192.in-addr.arpa.'' RT_PTR))) = RT_PTR"
  "fst (req_name (query_for ''web.default.example.org.'' RT_A)) = ext_name [''example'', ''org''] balanced_svc"
  "zones_match (ex_zones sample_external) (ext_name [''example'', ''org''] balanced_svc) = Some (fq [''example'', ''org''])"
  "qtype (snd (req_name (query_for ''web.default.example.org.'' RT_A))) = addr_type (V4 [192, 0, 2, 80])"
  by code_simp+

end
