(* ===== verification/Template.thy ===== *)
theory Template
  imports Rewrite
begin

text \<open>
  The \<open>template\<close> plugin, \<open>src/plugins/template.rs\<close>: records written as texts with actions in double braces, rendered for a query.

  Regular expressions, the parser of zone file lines, the printing of classes and types and the look-up
  through the server are arguments; the counters of the metrics are not modelled.

  Shown here: rendering a text made of literal parts and actions gives the parts and the values of the
  actions in their order, or the first error; a query whose template applies but whose name no expression matches gets SERVFAIL unless
  the template falls through; the handler keeps the id and the setup only appends.
\<close>

record 'r template =
  tp_zones :: "string list"
  tp_class :: "dclass option"
  tp_qtype :: "rtype option"
  tp_regex :: "'r list"
  tp_answer :: "string list"
  tp_additional :: "string list"
  tp_authority :: "string list"
  tp_rcode :: rcode
  tp_fallthrough :: "string list option"
  tp_ederror :: "(u16 \<times> string) option"

text \<open>
  \<open>te_captures\<close> is \<open>Regex::captures\<close>: the groups by number, and the named groups that took part, in the order of
  \<open>capture_names\<close>. \<open>te_parse\<close> is \<open>Parser::parse\<close> with the records of its sets.
\<close>

record ('r, 's) template_env =
  te_captures :: "'r \<Rightarrow> string \<Rightarrow> (string option list \<times> (string \<times> string) list) option"
  te_parse :: "string \<Rightarrow> dname option \<Rightarrow> rr list res"
  te_from_ascii :: "string \<Rightarrow> dname res"
  te_class_str :: "dclass \<Rightarrow> string"
  te_type_str :: "rtype \<Rightarrow> string"
  te_self_lookup :: "request \<Rightarrow> dname \<Rightarrow> rtype \<Rightarrow> 's \<Rightarrow> message res \<times> 's"

record template_data =
  td_req :: request
  td_zone :: string
  td_name :: string
  td_matches :: "string list"
  td_groups :: "(string \<times> string) list"

section \<open>Rendering\<close>

definition trim_quotes :: "string \<Rightarrow> string" where
  "trim_quotes s = trim_end_matches (CHR 0x22) (trim_start_matches (CHR 0x22) s)"

definition group_value :: "template_data \<Rightarrow> string \<Rightarrow> string" where
  "group_value d key = (case find (\<lambda>(k, _). k = key) (td_groups d) of Some (_, v) \<Rightarrow> v | None \<Rightarrow> [])"

definition eval_action :: "('r, 's) template_env \<Rightarrow> string \<Rightarrow> template_data \<Rightarrow> string res" where
  "eval_action env action d =
     (let bad = Inl (''unsupported template action {{ '' @ action @ '' }}'') in
      case split_whitespace action of
        [a] \<Rightarrow>
          if a = ''.Name'' \<or> a = ''.Question.Name'' then Inr (td_name d)
          else if a = ''.Zone'' then Inr (td_zone d)
          else if a = ''.Class'' then Inr (te_class_str env (qclass (td_req d)))
          else if a = ''.Type'' then Inr (te_type_str env (qtype (td_req d)))
          else if a = ''.Remote'' then Inr (show_ip (req_ip (td_req d)))
          else if a = ''.Message.Id'' then Inr (show_nat (unat (m_id (rq_msg (td_req d)))))
          else if starts_with a ''.Group.'' then Inr (group_value d (drop (length ''.Group.'') a))
          else bad
      | [a, b] \<Rightarrow>
          if a = ''.Meta'' then Inr (case rq_metadata (td_req d) (trim_quotes b) of Some v \<Rightarrow> v | None \<Rightarrow> []) else bad
      | [a, b, n] \<Rightarrow>
          if a = ''index'' \<and> b = ''.Match'' then
            (case parse_u64 n of
               None \<Rightarrow> Inl (''bad match index '' @ n)
             | Some i \<Rightarrow>
                 if i < length (td_matches d) then Inr (td_matches d ! i)
                 else Inl (''match index '' @ show_nat i @ '' out of range''))
          else if a = ''index'' \<and> b = ''.Group'' then Inr (group_value d (trim_quotes n))
          else bad
      | _ \<Rightarrow> bad)"

text \<open>The loop over the actions, with the text rendered so far; what is left gets shorter.\<close>

function render_loop :: "('r, 's) template_env \<Rightarrow> string \<Rightarrow> template_data \<Rightarrow> string \<Rightarrow> string \<Rightarrow> string res" where
  "render_loop env tpl d out rest =
     (case find_sub ''{{'' rest of
        None \<Rightarrow> Inr (out @ rest)
      | Some i \<Rightarrow>
          (case find_sub ''}}'' (drop (i + 2) rest) of
             None \<Rightarrow> Inl (''unterminated template action in '' @ tpl)
           | Some j \<Rightarrow>
               rbind (eval_action env (trim (take j (drop (i + 2) rest))) d) (\<lambda>v.
                 render_loop env tpl d (out @ take i rest @ v) (drop (j + 2) (drop (i + 2) rest)))))"
  by pat_completeness auto
termination
  by (relation "measure (\<lambda>(env, tpl, d, out, rest). length rest)") (auto dest!: find_sub_bound)

declare render_loop.simps [simp del]

definition render :: "('r, 's) template_env \<Rightarrow> string \<Rightarrow> template_data \<Rightarrow> string res" where
  "render env tpl d = render_loop env tpl d [] tpl"

definition parse_rr :: "('r, 's) template_env \<Rightarrow> string \<Rightarrow> string \<Rightarrow> rr list res" where
  "parse_rr env txt zone =
     (case te_parse env (''$TTL 3600'' @ [CHR 0x0A] @ txt @ [CHR 0x0A]) (ok (te_from_ascii env zone)) of
        Inl e \<Rightarrow> Inl (''parsing RR '' @ quote txt @ '': '' @ e) | Inr rs \<Rightarrow> Inr rs)"

section \<open>Handler\<close>

definition class_matches :: "'r template \<Rightarrow> dclass \<Rightarrow> bool" where
  "class_matches t c \<longleftrightarrow> c = DC_ANY \<or> (case tp_class t of Some x \<Rightarrow> x = c | None \<Rightarrow> True)"

definition type_matches :: "'r template \<Rightarrow> rtype \<Rightarrow> bool" where
  "type_matches t qt \<longleftrightarrow> qt = RT_ANY \<or> (case tp_qtype t of Some x \<Rightarrow> x = qt | None \<Rightarrow> True)"

definition falls_through :: "'r template \<Rightarrow> string \<Rightarrow> bool" where
  "falls_through t name = (case tp_fallthrough t of Some ft \<Rightarrow> zones_match ft name \<noteq> None | None \<Rightarrow> False)"

text \<open>The groups of the first expression that matches; without expressions every name matches.\<close>

fun first_match :: "('r, 's) template_env \<Rightarrow> 'r list \<Rightarrow> string \<Rightarrow> (string list \<times> (string \<times> string) list) option" where
  "first_match env [] name = None"
| "first_match env (r # rs) name =
     (case te_captures env r name of
        Some (caps, named) \<Rightarrow> Some (map (\<lambda>c. case c of Some m \<Rightarrow> m | None \<Rightarrow> []) caps, named)
      | None \<Rightarrow> first_match env rs name)"

definition template_match :: "('r, 's) template_env \<Rightarrow> 'r template \<Rightarrow> string \<Rightarrow> (string list \<times> (string \<times> string) list) option" where
  "template_match env t name = (if tp_regex t = [] then Some ([], []) else first_match env (tp_regex t) name)"

datatype tsection = SecAnswer | SecAdditional | SecAuthority

definition push_record :: "('r, 's) template_env \<Rightarrow> request \<Rightarrow> tsection \<Rightarrow> message \<times> 's \<Rightarrow> rr \<Rightarrow> message \<times> 's" where
  "push_record env req sec ms r =
     (case ms of (m, s) \<Rightarrow>
        (case sec of
           SecAdditional \<Rightarrow> (add_additional r m, s)
         | SecAuthority \<Rightarrow> (add_name_server r m, s)
         | SecAnswer \<Rightarrow>
             (case (if qtype req = RT_A \<or> qtype req = RT_AAAA then rr_data r else None) of
                Some (RD_CNAME c) \<Rightarrow>
                  (case te_self_lookup env req c (qtype req) s of
                     (Inl _, s1) \<Rightarrow> (add_answer r m, s1)
                   | (Inr up, s1) \<Rightarrow>
                       (foldl (\<lambda>m x. add_answer x m) (add_answer r (if m_truncated up then m\<lparr>m_truncated := True\<rparr> else m)) (m_answers up), s1))
              | _ \<Rightarrow> (add_answer r m, s))))"

fun template_records ::
    "('r, 's) template_env \<Rightarrow> template_data \<Rightarrow> (tsection \<times> string) list \<Rightarrow> message \<times> 's \<Rightarrow> message res \<times> 's" where
  "template_records env d [] (m, s) = (Inr m, s)"
| "template_records env d ((sec, tpl) # rest) (m, s) =
     (case rbind (render env tpl d) (\<lambda>txt. parse_rr env txt (td_zone d)) of
        Inl e \<Rightarrow> (Inl e, s)
      | Inr rs \<Rightarrow> template_records env d rest (foldl (push_record env (td_req d) sec) (m, s) rs))"

definition template_sections :: "'r template \<Rightarrow> (tsection \<times> string) list" where
  "template_sections t = map (Pair SecAnswer) (tp_answer t) @ map (Pair SecAdditional) (tp_additional t) @ map (Pair SecAuthority) (tp_authority t)"

definition add_ederror :: "(u16 \<times> string) option \<Rightarrow> message \<Rightarrow> message" where
  "add_ederror ede m =
     (case ede of
        None \<Rightarrow> m
      | Some (code, reason) \<Rightarrow>
          (let e = (case m_edns m of Some e \<Rightarrow> e | None \<Rightarrow> edns_new)\<lparr>ed_max_payload := 4096, ed_dnssec_ok := True\<rparr> in
           m\<lparr>m_edns := Some (insert_option (OptUnknown 15 (be_bytes code @ bytes_of reason)) e)\<rparr>))"

definition template_answer ::
    "('r, 's) template_env \<Rightarrow> 'r template \<Rightarrow> request \<Rightarrow> string \<Rightarrow> string \<Rightarrow> string list \<times> (string \<times> string) list \<Rightarrow> 's \<Rightarrow> 's served" where
  "template_answer env t req name zone mg s =
     (if tp_rcode t = ServFail then (Replied (RRcode ServFail), req, s)
      else (case template_records env \<lparr>td_req = req, td_zone = zone, td_name = name, td_matches = fst mg, td_groups = snd mg\<rparr>
                   (template_sections t) ((new_reply req)\<lparr>m_authoritative := True, m_rcode := tp_rcode t\<rparr>, s) of
          (Inl e, s1) \<Rightarrow> (Failed (with_rcode ServFail (plugin_error_new ''template'' e)), req, s1)
        | (Inr m, s1) \<Rightarrow> (Replied (RMsg (add_ederror (tp_ederror t) m)), req, s1)))"

fun template_loop :: "('r, 's) template_env \<Rightarrow> 'r template list \<Rightarrow> string \<Rightarrow> request \<Rightarrow> 's next_plugin \<Rightarrow> 's \<Rightarrow> 's served" where
  "template_loop env [] name req nx s = nx_serve nx req s"
| "template_loop env (t # ts) name req nx s =
     (case zones_match (tp_zones t) name of
        None \<Rightarrow> template_loop env ts name req nx s
      | Some zone \<Rightarrow>
          if \<not> class_matches t (qclass req) \<or> \<not> type_matches t (qtype req) then template_loop env ts name req nx s
          else (case template_match env t name of
              None \<Rightarrow>
                if falls_through t name then template_loop env ts name req nx s else (Replied (RRcode ServFail), req, s)
            | Some mg \<Rightarrow> template_answer env t req name zone mg s))"

definition template_serve :: "('r, 's) template_env \<Rightarrow> 'r template list \<Rightarrow> 's handler" where
  "template_serve env ts req nx s = (case req_name req of (name, req1) \<Rightarrow> template_loop env ts name req1 nx s)"

section \<open>Setup\<close>

record ('r, 'net) template_parse =
  tq_new :: "string \<Rightarrow> 'r res"
  tq_class :: "string \<Rightarrow> dclass res"
  tq_rtype :: "string \<Rightarrow> rtype res"
  tq_from_ascii :: "string \<Rightarrow> dname res"
  tq_api :: "'net ipnet_api"

fun compile_all :: "(string \<Rightarrow> 'r res) \<Rightarrow> (string \<Rightarrow> err) \<Rightarrow> string list \<Rightarrow> 'r list res" where
  "compile_all nw ef [] = Inr []"
| "compile_all nw ef (x # xs) =
     (case nw x of
        Inl e \<Rightarrow> Inl (ef (''invalid regex '' @ x @ '': '' @ e))
      | Inr r \<Rightarrow> rbind (compile_all nw ef xs) (\<lambda>rs. Inr (r # rs)))"

definition template_line ::
    "('r, 'net) template_parse \<Rightarrow> (string \<Rightarrow> err) \<Rightarrow> err \<Rightarrow> string \<Rightarrow> string list \<Rightarrow> 'r template \<Rightarrow> 'r template res" where
  "template_line ps ef arg_e v a t =
     (if v = ''match'' then rbind (compile_all (tq_new ps) ef a) (\<lambda>rs. Inr (t\<lparr>tp_regex := tp_regex t @ rs\<rparr>))
      else if v = ''answer'' then Inr (t\<lparr>tp_answer := tp_answer t @ a\<rparr>)
      else if v = ''additional'' then Inr (t\<lparr>tp_additional := tp_additional t @ a\<rparr>)
      else if v = ''authority'' then Inr (t\<lparr>tp_authority := tp_authority t @ a\<rparr>)
      else if v = ''rcode'' then
        (if length a \<noteq> 1 then Inl arg_e
         else rbind (ok_or (ef (''unknown rcode '' @ hd a)) (rcode_from_str (hd a))) (\<lambda>rc. Inr (t\<lparr>tp_rcode := rc\<rparr>)))
      else if v = ''fallthrough'' then
        rbind (if a = [] then Inr [''.''] else normalize_zones (tq_from_ascii ps) (tq_api ps) a) (\<lambda>z. Inr (t\<lparr>tp_fallthrough := Some z\<rparr>))
      else if v = ''upstream'' then Inr t
      else if v = ''ederror'' then
        (if a = [] \<or> length a > 2 then Inl arg_e
         else rbind (ok_or (ef (''error parsing extended DNS error code '' @ hd a)) (parse_u16 (hd a))) (\<lambda>code.
           Inr (t\<lparr>tp_ederror := Some (of_nat code, case tl a of r # _ \<Rightarrow> r | [] \<Rightarrow> [])\<rparr>)))
      else Inl (ef (''unknown property '' @ quote v)))"

definition template_property :: "('r, 'net) template_parse \<Rightarrow> 'r template \<Rightarrow> 's controller \<Rightarrow> 'r template res \<times> 's controller" where
  "template_property ps = line_property (\<lambda>v. v \<in> {''match'', ''answer'', ''additional'', ''authority'', ''rcode'', ''fallthrough'', ''upstream'',
     ''ederror''}) (template_line ps)"

definition template_head ::
    "('r, 'net) template_parse \<Rightarrow> (string \<Rightarrow> err) \<Rightarrow> string \<Rightarrow> string \<Rightarrow> (dclass option \<times> rtype option) res" where
  "template_head ps ef cl ty =
     (let c = to_ascii_uppercase cl; t = to_ascii_uppercase ty in
      rbind (if c = ''ANY'' then Inr None
             else (case tq_class ps c of Inl e \<Rightarrow> Inl (ef (''invalid query class '' @ c @ '': '' @ e)) | Inr x \<Rightarrow> Inr (Some x))) (\<lambda>x.
      rbind (if t = ''ANY'' then Inr None
             else (case record_type_from_str (tq_rtype ps) t of Inl e \<Rightarrow> Inl (ef e) | Inr y \<Rightarrow> Inr (Some y))) (\<lambda>y.
      Inr (x, y))))"

definition template_body :: "('r, 'net) template_parse \<Rightarrow> 'r template list \<Rightarrow> 's controller \<Rightarrow> 'r template list res \<times> 's controller" where
  "template_body ps ts c =
     (case ctl_disp remaining_args_until_brace c of (as, c1) \<Rightarrow>
        (case as of
           cl # ty # zs \<Rightarrow>
             (case rbind (template_head ps (ctl_errf c1) cl ty) (\<lambda>h.
                     rbind (controller_origins (tq_from_ascii ps) (tq_api ps) c1 zs) (\<lambda>zones. Inr (h, zones))) of
                Inl e \<Rightarrow> (Inl e, c1)
              | Inr ((cls, qt), zones) \<Rightarrow>
                  (case block_loop (template_property ps) \<lparr>tp_zones = zones, tp_class = cls, tp_qtype = qt, tp_regex = [], tp_answer = [],
                          tp_additional = [], tp_authority = [], tp_rcode = NoError, tp_fallthrough = None, tp_ederror = None\<rparr> c1 of
                     (Inl e, c2) \<Rightarrow> (Inl e, c2)
                   | (Inr t, c2) \<Rightarrow>
                       if tp_answer t = [] \<and> tp_additional t = [] \<and> tp_authority t = [] \<and> tp_rcode t = NoError
                       then (Inl (ctl_errf c2 ''template has no sections and no rcode''), c2)
                       else (Inr (ts @ [t]), c2)))
         | _ \<Rightarrow> (Inl (ctl_arg_err c1), c1)))"

definition template_setup :: "('r, 'net) template_parse \<Rightarrow> ('r, 's) template_env \<Rightarrow> 's setup_fn" where
  "template_setup ps env c =
     (case next_loop (template_body ps) [] c of
        (Inl e, c1) \<Rightarrow> (Inl e, c1)
      | (Inr ts, c1) \<Rightarrow> (Inr (), add_plugin (''template'', template_serve env ts) c1))"

section \<open>Contracts\<close>

lemma answer_fold_id [simp]: "m_id (foldl (\<lambda>m r. add_answer r m) m rs) = m_id m"
  by (simp add: fold_add_answer)

lemma push_record_id [simp]: "m_id (fst (push_record env req sec ms r)) = m_id (fst ms)"
proof (cases ms)
  case (Pair m s)
  have added: "m_id (add_answer x m') = m_id m'" "m_id (add_name_server x m') = m_id m'" "m_id (add_additional x m') = m_id m'" for x m'
    by (simp_all add: message_defs)
  show ?thesis
    unfolding Pair push_record_def by (simp add: added split: tsection.split option.split rdata.split prod.split sum.split)
qed

lemma push_records_id [simp]: "m_id (fst (foldl (push_record env req sec) ms rs)) = m_id (fst ms)"
  by (induction rs arbitrary: ms) simp_all

lemma template_records_id: "template_records env d xs ms = (Inr m, s') \<Longrightarrow> m_id m = m_id (fst ms)"
proof (induction env d xs ms rule: template_records.induct)
  case (2 env d sec tpl rest m0 s)
  then show ?case
    by (auto simp: rbind_eq_Inr split: sum.splits)
qed auto

lemma add_ederror_id [simp]: "m_id (add_ederror ede m) = m_id m"
  by (simp add: add_ederror_def Let_def split: option.split)

lemma template_answer_id:
  "template_answer env t req name zone mg s = (out, req', s') \<Longrightarrow> req' = req \<and> (\<forall>m. out = Replied (RMsg m) \<longrightarrow> m_id m = m_id (rq_msg req))"
  by (auto simp: template_answer_def dest: template_records_id split: if_splits sum.splits prod.splits)

lemma template_keeps_id:
  assumes nx: "keeps_id (nx_serve nx)"
  shows "keeps_id (\<lambda>req s. template_serve env ts req nx s)"
proof -
  have "keeps_id (\<lambda>req s. template_loop env ts name req nx s)" for name
  proof (induction ts)
    case (Cons t ts)
    show ?case
    proof (rule keeps_idI)
      fix req s out req' s'
      assume "template_loop env (t # ts) name req nx s = (out, req', s')"
      then show "m_id (rq_msg req') = m_id (rq_msg req)"
        by (auto split: option.splits if_splits dest: keeps_idD(1) [OF Cons] template_answer_id)
    next
      fix req s m req' s'
      assume "template_loop env (t # ts) name req nx s = (Replied (RMsg m), req', s')"
      then show "m_id m = m_id (rq_msg req)"
        by (auto split: option.splits if_splits dest: keeps_idD(2) [OF Cons] template_answer_id)
    qed
  qed (simp add: nx)
  from keeps_id_same [OF this, of "\<lambda>r. snd (req_name r)"] show ?thesis
    by (simp add: keeps_id_def template_serve_def case_prod_beta)
qed

interpretation template_handler: id_keeping_handler "template_serve env ts"
  by unfold_locales (rule template_keeps_id)

interpretation template_block: block_property "template_property ps"
  unfolding template_property_def by (rule line_property_block) (simp add: template_line_def is_ok_def)

lemma template_body_frame:
  assumes "template_body ps ts c = (r, c')"
  shows "appends_plugins c c'" "is_ok r \<Longrightarrow> left_over (ct_dispenser c') \<le> left_over (ct_dispenser c)"
proof -
  obtain as c1 where a: "ctl_disp remaining_args_until_brace c = (as, c1)"
    by (cases "ctl_disp remaining_args_until_brace c")
  note st = args_block_steps [OF a template_block.block_property_axioms]
  show "appends_plugins c c'"
    using assms a appends_disp [OF a] by (auto simp: template_body_def split: list.splits sum.splits prod.splits if_splits dest: st(2))
  show "left_over (ct_dispenser c') \<le> left_over (ct_dispenser c)" if "is_ok r"
    using assms a that by (auto simp: template_body_def split: list.splits sum.splits prod.splits if_splits dest: st(3))
qed

interpretation template_directive: directive_body "template_body ps"
  by unfold_locales (auto dest: template_body_frame)

interpretation template_setup: setup_function "template_setup ps env"
proof (rule setup_functionI)
  fix c r c'
  assume run: "template_setup ps env c = (r, c')"
  obtain r1 c1 where l: "next_loop (template_body ps) [] c = (r1, c1)" by (cases "next_loop (template_body ps) [] c")
  from template_directive.next_loop_appends [OF l] run l show "appends_plugins c c'"
    by (auto simp: template_setup_def split: sum.splits intro: appends_steps)
qed

section \<open>What rendering gives\<close>

text \<open>The parts of a text: literals and actions; what they print as, and what they are to render to.\<close>

datatype piece = Literal string | Action string

fun piece_text :: "piece \<Rightarrow> string" where
  "piece_text (Literal l) = l"
| "piece_text (Action a) = ''{{'' @ a @ ''}}''"

fun plain_piece :: "piece \<Rightarrow> bool" where
  "plain_piece (Literal l) = (CHR 0x7B \<notin> set l)"
| "plain_piece (Action a) = (CHR 0x7D \<notin> set a)"

fun render_pieces :: "(string \<Rightarrow> string res) \<Rightarrow> piece list \<Rightarrow> string res" where
  "render_pieces ev [] = Inr []"
| "render_pieces ev (Literal l # ps) = rbind (render_pieces ev ps) (\<lambda>s. Inr (l @ s))"
| "render_pieces ev (Action a # ps) = rbind (ev (trim a)) (\<lambda>v. rbind (render_pieces ev ps) (\<lambda>s. Inr (v @ s)))"

lemma find_sub_skip:
  assumes "c \<notin> set l"
  shows "find_sub (c # p) (l @ rest) = map_option (\<lambda>i. length l + i) (find_sub (c # p) rest)"
  using assms
proof (induction l)
  case (Cons x l)
  then have "\<not> starts_with (x # l @ rest) (c # p)" by (auto simp: starts_with_iff)
  with Cons show ?case by (simp add: option.map_comp comp_def)
qed (cases "find_sub (c # p) rest"; simp)

lemma find_sub_here: "find_sub p (p @ rest) = Some 0"
proof -
  have "starts_with (p @ rest) p" by (simp add: starts_with_iff)
  then show ?thesis by (cases "p @ rest") auto
qed

lemma render_literal:
  assumes "CHR 0x7B \<notin> set l"
  shows "render_loop env tpl d out (l @ rest) = render_loop env tpl d (out @ l) rest"
proof (cases "find_sub ''{{'' rest")
  case None
  then show ?thesis by (simp add: render_loop.simps [of _ _ _ _ "l @ rest"] render_loop.simps [of _ _ _ _ rest] find_sub_skip [OF assms])
next
  case (Some i)
  have cuts: "drop (length l + i + 2) (l @ rest) = drop (i + 2) rest" "take (length l + i) (l @ rest) = l @ take i rest" by simp_all
  show ?thesis
    unfolding render_loop.simps [of _ _ _ _ "l @ rest"] render_loop.simps [of _ _ _ _ rest] find_sub_skip [OF assms]
    by (simp only: Some option.map option.case cuts append_assoc)
qed

lemma render_action:
  assumes "CHR 0x7D \<notin> set a"
  shows "render_loop env tpl d out (''{{'' @ a @ ''}}'' @ rest) = rbind (eval_action env (trim a) d) (\<lambda>v. render_loop env tpl d (out @ v) rest)"
proof -
  have "find_sub ''{{'' (''{{'' @ a @ ''}}'' @ rest) = Some 0" by (rule find_sub_here)
  moreover have "find_sub ''}}'' (a @ ''}}'' @ rest) = Some (length a)"
    unfolding find_sub_skip [OF assms] find_sub_here by simp
  moreover have "drop 2 (''{{'' @ a @ ''}}'' @ rest) = a @ ''}}'' @ rest" "take (length a) (a @ ''}}'' @ rest) = a"
    "drop (length a + 2) (a @ ''}}'' @ rest) = rest" by simp_all
  ultimately show ?thesis
    by (simp only: render_loop.simps [of _ _ _ _ "''{{'' @ a @ ''}}'' @ rest"] option.case add_0 take_0 append_Nil)
qed

lemma render_loop_pieces:
  assumes "list_all plain_piece ps"
  shows "render_loop env tpl d out (concat (map piece_text ps)) = rbind (render_pieces (\<lambda>a. eval_action env a d) ps) (\<lambda>s. Inr (out @ s))"
  using assms
proof (induction ps arbitrary: out)
  case Nil
  show ?case by (simp add: render_loop.simps)
next
  case (Cons p ps)
  show ?case
  proof (cases p)
    case (Literal l)
    with Cons show ?thesis by (simp add: render_literal rbind_assoc)
  next
    case (Action a)
    have "render_loop env tpl d out (concat (map piece_text (p # ps))) =
        rbind (eval_action env (trim a) d) (\<lambda>v. render_loop env tpl d (out @ v) (concat (map piece_text ps)))"
      using Action Cons.prems render_action [of a env tpl d out "concat (map piece_text ps)"] by simp
    also have "\<dots> = rbind (render_pieces (\<lambda>a. eval_action env a d) (p # ps)) (\<lambda>s. Inr (out @ s))"
      using Action Cons by (simp add: rbind_assoc)
    finally show ?thesis .
  qed
qed

text \<open>A text of literal parts and actions renders part by part; when actions fail, the error is that of the first. An action that is
  not known fails.\<close>

lemma render_parts:
  assumes "list_all plain_piece ps"
  shows "render env (concat (map piece_text ps)) d = render_pieces (\<lambda>a. eval_action env a d) ps"
  using render_loop_pieces [OF assms, of env _ d "[]"] by (simp add: render_def rbind_ident)

lemma unknown_action_fails: "render env ''{{ .Foo }}'' d = Inl ''unsupported template action {{ .Foo }}''"
proof -
  have "trim '' .Foo '' = ''.Foo''" "split_whitespace ''.Foo'' = [''.Foo'']" "starts_with ''.Foo'' ''.Group.'' = False" by code_simp+
  then show ?thesis using render_parts [of "[Action '' .Foo '']" env d] by (simp add: eval_action_def)
qed

text \<open>C32: Rendering a text that is made of literal parts without an opening brace and of actions without a closing one, all of
  which evaluate, gives, in their order, the literal parts as they are and the values of the actions, each evaluated with the
  white space around it cut off.\<close>

theorem template_render:
  assumes "list_all plain_piece ps" and "\<forall>a. Action a \<in> set ps \<longrightarrow> eval_action env (trim a) d = Inr (v a)"
  shows "render env (concat (map piece_text ps)) d = Inr (concat (map (\<lambda>p. case p of Literal l \<Rightarrow> l | Action a \<Rightarrow> v a) ps))"
proof -
  have "render_pieces (\<lambda>a. eval_action env a d) ps = Inr (concat (map (\<lambda>p. case p of Literal l \<Rightarrow> l | Action a \<Rightarrow> v a) ps))"
    using assms(2) by (induction ps) (auto split: piece.splits)
  then show ?thesis by (simp add: render_parts [OF assms(1)])
qed

lemma template_miss:
  assumes "zones_match (tp_zones t) name = Some zone" and "class_matches t (qclass req)" and "type_matches t (qtype req)"
    and "tp_regex t \<noteq> []" and "\<forall>r \<in> set (tp_regex t). te_captures env r name = None"
  shows "template_loop env (t # ts) name req nx s =
    (if falls_through t name then template_loop env ts name req nx s else (Replied (RRcode ServFail), req, s))"
proof -
  have "first_match env rs name = None" if "\<forall>r \<in> set rs. te_captures env r name = None" for rs
    using that by (induction rs) simp_all
  with assms show ?thesis by (simp add: template_match_def)
qed

definition ip_template :: "(unit, unit) template_env" where
  "ip_template = \<lparr>te_captures = (\<lambda>_ _. None), te_parse = (\<lambda>_ _. Inr []), te_from_ascii = Inr, te_class_str = (\<lambda>_. ''IN''),
     te_type_str = (\<lambda>_. ''A''), te_self_lookup = (\<lambda>_ _ _ s. (Inl [], s))\<rparr>"

definition ip_data :: template_data where
  "ip_data = \<lparr>td_req = query_for ''ip-7.example.'' RT_A, td_zone = ''example.'', td_name = ''ip-7.example.'', td_matches = [''ip-7.example.'', ''7''],
     td_groups = [(''a'', ''7'')]\<rparr>"

theorem template_render_witness:
  "render ip_template ''{{ .Name }} 60 IN A 10.0.0.{{ .Group.a }}'' ip_data = Inr ''ip-7.example. 60 IN A 10.0.0.7''"
proof -
  let ?ps = "[Action '' .Name '', Literal '' 60 IN A 10.0.0.'', Action '' .Group.a '']"
  let ?v = "\<lambda>a. if a = '' .Name '' then ''ip-7.example.'' else ''7''"
  have "eval_action ip_template (trim '' .Name '') ip_data = Inr ''ip-7.example.''" "eval_action ip_template (trim '' .Group.a '') ip_data = Inr ''7''"
    by code_simp+
  with template_render [of ?ps ip_template ip_data ?v] show ?thesis by simp
qed

end
