(* ===== verification/Dnssec.thy ===== *)
theory Dnssec
  imports Cache Block_Setup
begin

text \<open>
  The \<open>dnssec\<close> plugin, \<open>src/plugins/dnssec/mod.rs\<close> and \<open>keys.rs\<close>: keys from files, signatures over sets of records, and
  the signing of responses on their way to the client, with denials made up for the name that was asked.

  Cryptography, base64, the encodings of \<open>hickory_proto\<close>, the hash of a set, the files, the clock and the
  least-recently-used map of signatures are arguments; the counters of the metrics are not modelled. A record
  type without a constructor of its own is \<open>RT_Unknown\<close> with its number.

  Shown here: \<open>rrsets\<close> cuts a section into its sets; every set of a signed section is followed by signatures made by the keys of the
  plugin over that set, or over a signed set with the same hash, and each is valid for two more days; a denial never lists the type that was asked for.
\<close>

section \<open>Keys\<close>

datatype algorithm = ECDSAP256SHA256 | ECDSAP384SHA384 | ED25519

record dnskey =
  ky_zone_key :: bool
  ky_secure_entry :: bool
  ky_revoked :: bool
  ky_algorithm :: algorithm
  ky_public :: "u8 list"

record 'p dns_key =
  dk_name :: string
  dk_algorithm :: algorithm
  dk_pair :: 'p
  dk_dnskey :: dnskey
  dk_tag :: u16
  dk_ksk :: bool

text \<open>
  The crates: \<open>cy_num_labels\<close> and \<open>cy_is_wildcard\<close> of a name; \<open>cy_tbs\<close>, what is to be signed; \<open>cy_sign\<close>; \<open>cy_rrsig\<close> and \<open>cy_expiration\<close>, the
  data of a signature and its expiration; \<open>cy_dnskey\<close>, the data of a key; making and decoding pairs of keys.
\<close>

record 'p crypto =
  cy_num_labels :: "dname \<Rightarrow> nat"
  cy_is_wildcard :: "dname \<Rightarrow> bool"
  cy_tbs :: "dname \<Rightarrow> dclass \<Rightarrow> nat \<Rightarrow> rtype \<Rightarrow> algorithm \<Rightarrow> u32 \<Rightarrow> u32 \<Rightarrow> u32 \<Rightarrow> u16 \<Rightarrow> dname \<Rightarrow> rr list \<Rightarrow> u8 list res"
  cy_sign :: "'p \<Rightarrow> algorithm \<Rightarrow> u8 list \<Rightarrow> u8 list res"
  cy_rrsig :: "rtype \<Rightarrow> algorithm \<Rightarrow> nat \<Rightarrow> u32 \<Rightarrow> u32 \<Rightarrow> u32 \<Rightarrow> u16 \<Rightarrow> dname \<Rightarrow> u8 list \<Rightarrow> u8 list"
  cy_expiration :: "u8 list \<Rightarrow> u32"
  cy_dnskey :: "dnskey \<Rightarrow> u8 list"
  cy_to_dnskey :: "'p \<Rightarrow> algorithm \<Rightarrow> dnskey res"
  cy_key_tag :: "dnskey \<Rightarrow> u16 res"
  cy_ecdsa :: "algorithm \<Rightarrow> u8 list \<Rightarrow> u8 list \<Rightarrow> 'p res"
  cy_ed25519 :: "u8 list \<Rightarrow> u8 list \<Rightarrow> 'p res"
  cy_decode_pem :: "u8 list \<Rightarrow> algorithm \<Rightarrow> 'p res"
  cy_decode_pkcs8 :: "u8 list \<Rightarrow> algorithm \<Rightarrow> 'p res"
  cy_base64 :: "string \<Rightarrow> u8 list res"

definition dnskey_record :: "'p crypto \<Rightarrow> 'p dns_key \<Rightarrow> dname \<Rightarrow> u32 \<Rightarrow> rr" where
  "dnskey_record cy k owner ttl = from_rdata owner ttl (RD_Other RT_DNSKEY (cy_dnskey cy (dk_dnskey k)))"

definition sign_rrset :: "'p crypto \<Rightarrow> 'p dns_key \<Rightarrow> rr list \<Rightarrow> dname \<Rightarrow> u32 \<Rightarrow> u32 \<Rightarrow> rr res" where
  "sign_rrset cy k rs signer inception expiration =
     (case rs of
        [] \<Rightarrow> Inl ''empty rrset''
      | r # _ \<Rightarrow>
          (let name = rr_name r; n = cy_num_labels cy name; labels = (if cy_is_wildcard cy name then n - 1 else n);
               ttl = Min (rr_ttl ` set rs) in
           case cy_tbs cy name DC_IN labels (rr_type r) (dk_algorithm k) ttl expiration inception (dk_tag k) signer rs of
             Inl e \<Rightarrow> Inl (''tbs: '' @ e)
           | Inr tbs \<Rightarrow>
               (case cy_sign cy (dk_pair k) (dk_algorithm k) tbs of
                  Inl e \<Rightarrow> Inl (''sign: '' @ e)
                | Inr sig \<Rightarrow> Inr (from_rdata name ttl (RD_RRSIG (rr_type r)
                    (cy_rrsig cy (rr_type r) (dk_algorithm k) labels ttl expiration inception (dk_tag k) signer sig))))))"

definition key_build :: "'p crypto \<Rightarrow> 'p \<Rightarrow> algorithm \<Rightarrow> string \<Rightarrow> bool \<Rightarrow> 'p dns_key res" where
  "key_build cy pair alg name ksk =
     (case cy_to_dnskey cy pair alg of
        Inl e \<Rightarrow> Inl (''dnskey: '' @ e)
      | Inr dk0 \<Rightarrow>
          (let dk = (if ksk then \<lparr>ky_zone_key = True, ky_secure_entry = True, ky_revoked = False, ky_algorithm = alg, ky_public = ky_public dk0\<rparr>
                     else dk0) in
           case cy_key_tag cy dk of
             Inl e \<Rightarrow> Inl (''key tag: '' @ e)
           | Inr tag \<Rightarrow>
               Inr \<lparr>dk_name = fqdn name, dk_algorithm = alg, dk_pair = pair, dk_dnskey = dk, dk_tag = tag, dk_ksk = ksk\<rparr>))"

definition parse_algorithm :: "nat \<Rightarrow> algorithm res" where
  "parse_algorithm n =
     (if n = 13 then Inr ECDSAP256SHA256
      else if n = 14 then Inr ECDSAP384SHA384
      else if n = 15 then Inr ED25519
      else if n = 8 \<or> n = 10
      then Inl (''RSA keys (algorithm '' @ show_nat n @ '') are not supported by this build; use ECDSA (13/14) or ED25519 (15)'')
      else Inl (''unsupported DNSSEC algorithm '' @ show_nat n))"

record key_files =
  kf_read :: "string \<Rightarrow> u8 list res"
  kf_read_text :: "string \<Rightarrow> string res"
  kf_exists :: "string \<Rightarrow> bool"
  kf_file_stem :: "string \<Rightarrow> string option"

definition reading :: "string \<Rightarrow> 'a res \<Rightarrow> 'a res" where
  "reading p r = (case r of Inl _ \<Rightarrow> Inl (''reading '' @ p) | Inr x \<Rightarrow> Inr x)"

fun key_lines :: "'p crypto \<Rightarrow> string \<Rightarrow> string list \<Rightarrow> (string \<times> nat \<times> nat \<times> u8 list) res" where
  "key_lines cy p [] = Inl (p @ '': no DNSKEY record found'')"
| "key_lines cy p (l # ls) =
     (let line = trim (hd (split_char (CHR '';'') l)); toks = split_whitespace line; i = length (takeWhile (\<lambda>t. t \<noteq> ''DNSKEY'') toks) in
      if line = [] then key_lines cy p ls
      else if i = length toks then key_lines cy p ls
      else if length toks < i + 4 then Inl (p @ '': malformed DNSKEY line'')
      else rbind (parse_radix 10 65535 (toks ! (i + 1))) (\<lambda>flags.
           rbind (parse_radix 10 255 (toks ! (i + 3))) (\<lambda>alg.
             (case cy_base64 cy (concat (drop (i + 4) toks)) of
                Inl e \<Rightarrow> Inl (p @ '': bad base64: '' @ e)
              | Inr public \<Rightarrow> Inr (hd toks, flags, alg, public)))))"

definition parse_key_file :: "'p crypto \<Rightarrow> key_files \<Rightarrow> string \<Rightarrow> (string \<times> nat \<times> nat \<times> u8 list) res" where
  "parse_key_file cy fs p = rbind (reading p (kf_read_text fs p)) (\<lambda>t. key_lines cy p (lines t))"

text \<open>The lines of a private key: the last algorithm and the last key count.\<close>

fun private_lines :: "'p crypto \<Rightarrow> string \<Rightarrow> nat option \<times> u8 list option \<Rightarrow> string list \<Rightarrow> (nat option \<times> u8 list option) res" where
  "private_lines cy p st [] = Inr st"
| "private_lines cy p (alg, key) (l # ls) =
     (case find_char (CHR '':'') l of
        None \<Rightarrow> private_lines cy p (alg, key) ls
      | Some i \<Rightarrow>
          (let k = trim (take i l); v = trim (drop (i + 1) l) in
           if k = ''Algorithm'' then private_lines cy p (Option.bind (first (split_whitespace v)) parse_u8, key) ls
           else if k = ''PrivateKey'' then
             (case cy_base64 cy v of
                Inl e \<Rightarrow> Inl (p @ '': bad base64: '' @ e)
              | Inr b \<Rightarrow> private_lines cy p (alg, Some b) ls)
           else private_lines cy p (alg, key) ls))"

definition parse_private_file :: "'p crypto \<Rightarrow> key_files \<Rightarrow> string \<Rightarrow> (nat \<times> u8 list) res" where
  "parse_private_file cy fs p =
     rbind (reading p (kf_read_text fs p)) (\<lambda>t.
       rbind (private_lines cy p (None, None) (lines t)) (\<lambda>st.
         (case st of (Some a, Some k) \<Rightarrow> Inr (a, k) | _ \<Rightarrow> Inl (p @ '': missing Algorithm or PrivateKey''))))"

fun pem_try :: "'p crypto \<Rightarrow> key_files \<Rightarrow> string \<Rightarrow> (algorithm \<Rightarrow> 'p res) \<Rightarrow> algorithm list \<Rightarrow> 'p dns_key res" where
  "pem_try cy fs p dec [] = Inl (p @ '': not a supported ECDSA/ED25519 private key'')"
| "pem_try cy fs p dec (a # as) =
     (case dec a of
        Inr pair \<Rightarrow> key_build cy pair a (case kf_file_stem fs p of Some s \<Rightarrow> s | None \<Rightarrow> ''.'') True
      | Inl _ \<Rightarrow> pem_try cy fs p dec as)"

definition load_pem :: "'p crypto \<Rightarrow> key_files \<Rightarrow> string \<Rightarrow> 'p dns_key res" where
  "load_pem cy fs p =
     rbind (reading p (kf_read fs p)) (\<lambda>bytes.
       pem_try cy fs p ((if take 5 bytes = replicate 5 0x2D then cy_decode_pem cy else cy_decode_pkcs8 cy) bytes)
         [ECDSAP256SHA256, ECDSAP384SHA384, ED25519])"

definition key_pair :: "'p crypto \<Rightarrow> string \<Rightarrow> algorithm \<Rightarrow> u8 list \<Rightarrow> u8 list \<Rightarrow> 'p res" where
  "key_pair cy base alg private public =
     (case alg of
        ED25519 \<Rightarrow> (case cy_ed25519 cy private public of Inl e \<Rightarrow> Inl (base @ '': bad ED25519 key: '' @ e) | Inr kp \<Rightarrow> Inr kp)
      | _ \<Rightarrow> (case cy_ecdsa cy alg private (4 # public) of Inl e \<Rightarrow> Inl (base @ '': bad ECDSA key: '' @ e) | Inr kp \<Rightarrow> Inr kp))"

definition load_pair :: "'p crypto \<Rightarrow> key_files \<Rightarrow> string \<Rightarrow> string \<Rightarrow> 'p dns_key res" where
  "load_pair cy fs p base =
     (let key_file = base @ ''.key''; private_file = base @ ''.private'' in
      if \<not> kf_exists fs key_file \<and> \<not> kf_exists fs private_file then
        (if kf_exists fs p then load_pem cy fs p else Inl (''key files '' @ key_file @ '' / '' @ private_file @ '' not found''))
      else rbind (parse_key_file cy fs key_file) (\<lambda>(name, flags, alg_num, public).
           rbind (parse_private_file cy fs private_file) (\<lambda>(alg_num2, private).
             if alg_num \<noteq> alg_num2
             then Inl (base @ '': algorithm mismatch between .key ('' @ show_nat alg_num @ '') and .private ('' @ show_nat alg_num2 @ '')'')
             else rbind (parse_algorithm alg_num) (\<lambda>alg.
                  rbind (key_pair cy base alg private public) (\<lambda>pair.
                    key_build cy pair alg name (odd flags))))))"

definition load_key :: "'p crypto \<Rightarrow> key_files \<Rightarrow> string \<Rightarrow> 'p dns_key res" where
  "load_key cy fs p =
     (case strip_suffix p ''.key'' of
        Some b \<Rightarrow> load_pair cy fs p b
      | None \<Rightarrow>
          (case strip_suffix p ''.private'' of
             Some b \<Rightarrow> load_pair cy fs p b
           | None \<Rightarrow> if ends_with p ''.pem'' then load_pem cy fs p else load_pair cy fs p p))"

section \<open>Sets of records\<close>

definition RT_SIG :: rtype where "RT_SIG = RT_Unknown 24"
definition RT_TSIG :: rtype where "RT_TSIG = RT_Unknown 250"
definition LOC :: rtype where "LOC = RT_Unknown 29"
definition CERT :: rtype where "CERT = RT_Unknown 37"
definition SSHFP :: rtype where "SSHFP = RT_Unknown 44"
definition TLSA :: rtype where "TLSA = RT_Unknown 52"
definition HIP :: rtype where "HIP = RT_Unknown 55"
definition OPENPGPKEY :: rtype where "OPENPGPKEY = RT_Unknown 61"
definition SPF :: rtype where "SPF = RT_Unknown 99"

lemmas type_numbers = RT_SIG_def RT_TSIG_def LOC_def CERT_def SSHFP_def TLSA_def HIP_def OPENPGPKEY_def SPF_def

definition zone_bitmap :: "rtype list" where
  "zone_bitmap = [RT_A, RT_HINFO, RT_TXT, RT_AAAA, LOC, RT_SRV, CERT, SSHFP, RT_RRSIG, RT_NSEC, TLSA, HIP, OPENPGPKEY, SPF]"

definition apex_bitmap :: "rtype list" where
  "apex_bitmap = [RT_A, RT_NS, RT_SOA, RT_HINFO, RT_MX, RT_TXT, RT_AAAA, LOC, RT_SRV, CERT, SSHFP, RT_RRSIG, RT_NSEC, RT_DNSKEY, TLSA, HIP,
     OPENPGPKEY, SPF]"

definition delegation_bitmap :: "rtype list" where
  "delegation_bitmap = [RT_A, RT_NS, RT_HINFO, RT_TXT, RT_AAAA, LOC, RT_SRV, CERT, SSHFP, RT_RRSIG, RT_NSEC, TLSA, HIP, OPENPGPKEY, SPF]"

definition unsigned_type :: "rtype \<Rightarrow> bool" where
  "unsigned_type t \<longleftrightarrow> t = RT_OPT \<or> t = RT_RRSIG \<or> t = RT_TSIG \<or> t = RT_SIG"

definition rrset_key :: "rr \<Rightarrow> string \<times> rtype" where
  "rrset_key r = (name_str (rr_name r), rr_type r)"

text \<open>The map and the order of its keys: an association list in the order of insertion. \<open>or_default().push\<close> on it.\<close>

fun push_under :: "'k \<Rightarrow> 'v \<Rightarrow> ('k \<times> 'v list) list \<Rightarrow> ('k \<times> 'v list) list" where
  "push_under k v [] = [(k, [v])]"
| "push_under k v ((j, vs) # m) = (if j = k then (j, vs @ [v]) # m else (j, vs) # push_under k v m)"

definition rrsets :: "rr list \<Rightarrow> rr list list" where
  "rrsets rs = map snd (foldl (\<lambda>m r. if unsigned_type (rr_type r) then m else push_under (rrset_key r) r m) [] rs)"

section \<open>Signing responses\<close>

definition incep_expir :: "64 word \<Rightarrow> u32 \<times> u32" where
  "incep_expir now = (ucast (now - 3 * 3600), ucast (now + 8 * 86400))"

definition CACHE_MARGIN :: "64 word" where "CACHE_MARGIN = 2 * 86400"

record 'p dnssec =
  dn_zones :: "string list"
  dn_keys :: "'p dns_key list"

record ('p, 's) dnssec_env =
  dv_crypto :: "'p crypto"
  dv_hash :: "rr list \<Rightarrow> string \<Rightarrow> 64 word"
  dv_get :: "64 word \<Rightarrow> 's \<Rightarrow> rr list option \<times> 's"
  dv_put :: "64 word \<Rightarrow> rr list \<Rightarrow> 's \<Rightarrow> 's"
  dv_now :: "'s \<Rightarrow> 64 word"
  dv_from_ascii :: "string \<Rightarrow> dname res"
  dv_labels :: "dname \<Rightarrow> u8 list list"
  dv_from_labels :: "u8 list list \<Rightarrow> dname res"

definition valid_at :: "'p crypto \<Rightarrow> rr list \<Rightarrow> 64 word \<Rightarrow> bool" where
  "valid_at cy sigs t \<longleftrightarrow>
     list_all (\<lambda>r. case rr_data r of Some (RD_RRSIG _ d) \<Rightarrow> ucast (cy_expiration cy d) > t | _ \<Rightarrow> True) sigs"

definition zone_name :: "('p, 's) dnssec_env \<Rightarrow> string \<Rightarrow> dname" where
  "zone_name env zone = (case dv_from_ascii env zone of Inr n \<Rightarrow> n | Inl _ \<Rightarrow> ''.'')"

definition make_sigs :: "('p, 's) dnssec_env \<Rightarrow> 'p dnssec \<Rightarrow> rr list \<Rightarrow> string \<Rightarrow> 64 word \<Rightarrow> rr list" where
  "make_sigs env d rs zone now =
     (case incep_expir now of (incep, expir) \<Rightarrow>
        List.map_filter (\<lambda>k. ok (sign_rrset (dv_crypto env) k rs (zone_name env zone) incep expir)) (dn_keys d))"

definition sign_set :: "('p, 's) dnssec_env \<Rightarrow> 'p dnssec \<Rightarrow> rr list \<Rightarrow> string \<Rightarrow> 64 word \<Rightarrow> 's \<Rightarrow> rr list \<times> 's" where
  "sign_set env d rs zone now s =
     (let key = dv_hash env rs zone in
      case dv_get env key s of (found, s1) \<Rightarrow>
        (case found of
           Some sigs \<Rightarrow>
             if valid_at (dv_crypto env) sigs (now + CACHE_MARGIN) then (sigs, s1)
             else (let sigs = make_sigs env d rs zone now in (sigs, dv_put env key sigs s1))
         | None \<Rightarrow> (let sigs = make_sigs env d rs zone now in (sigs, dv_put env key sigs s1))))"

text \<open>\<open>Message::insert_answers\<close> panics when there are answers already.\<close>

definition insert_answers :: "rr list \<Rightarrow> message \<Rightarrow> message res" where
  "insert_answers rs m = (if m_answers m = [] then Inr (m\<lparr>m_answers := rs\<rparr>) else Inl ''assertion failed: self.answers.is_empty()'')"

text \<open>The types of the denial, and the name after the one that was asked for.\<close>

definition nsec_filter :: "resp_type \<Rightarrow> rtype \<Rightarrow> rtype list \<Rightarrow> rtype list" where
  "nsec_filter kind qt v =
     (if (kind = R_NoError \<or> kind = R_NameError) \<and> qt \<noteq> RT_NSEC then filter (\<lambda>t. t \<noteq> qt) v else v)"

definition nsec_types :: "request \<Rightarrow> string \<Rightarrow> resp_type \<Rightarrow> rtype list" where
  "nsec_types req zone kind =
     (if name_uncached req = zone then nsec_filter kind (qtype req) apex_bitmap
      else if kind = R_Delegation \<or> qtype req = RT_DS then delegation_bitmap
      else nsec_filter kind (qtype req) zone_bitmap)"

definition nsec_next :: "('p, 's) dnssec_env \<Rightarrow> request \<Rightarrow> string \<Rightarrow> resp_type \<Rightarrow> dname" where
  "nsec_next env req zone kind =
     (let q = qname req; labels = dv_labels env q;
          below = (case dv_from_labels env ([0] # labels) of Inr n \<Rightarrow> n | Inl _ \<Rightarrow> q) in
      if name_uncached req \<noteq> zone \<and> kind = R_Delegation then
        (case labels of
           [] \<Rightarrow> below
         | l # ls \<Rightarrow> (case dv_from_labels env ((l @ [0]) # ls) of Inr n \<Rightarrow> n | Inl _ \<Rightarrow> below))
      else below)"

definition dn_nsec :: "('p, 's) dnssec_env \<Rightarrow> 'p dnssec \<Rightarrow> request \<Rightarrow> string \<Rightarrow> resp_type \<Rightarrow> u32 \<Rightarrow> 64 word \<Rightarrow> 's \<Rightarrow> rr list \<times> 's" where
  "dn_nsec env d req zone kind ttl now s =
     (let nsec = from_rdata (qname req) ttl (RD_NSEC (nsec_next env req zone kind) (nsec_types req zone kind)) in
      case sign_set env d [nsec] zone now s of (sigs, s1) \<Rightarrow> (nsec # sigs, s1))"

fun sign_sets :: "('p, 's) dnssec_env \<Rightarrow> 'p dnssec \<Rightarrow> string \<Rightarrow> 64 word \<Rightarrow> rr list list \<Rightarrow> 's \<Rightarrow> rr list \<times> 's" where
  "sign_sets env d zone now [] s = ([], s)"
| "sign_sets env d zone now (rs # rss) s =
     (case sign_set env d rs zone now s of (sigs, s1) \<Rightarrow>
        (case sign_sets env d zone now rss s1 of (out, s2) \<Rightarrow> (rs @ sigs @ out, s2)))"

definition sign_section :: "('p, 's) dnssec_env \<Rightarrow> 'p dnssec \<Rightarrow> rr list \<Rightarrow> string \<Rightarrow> 64 word \<Rightarrow> 's \<Rightarrow> rr list \<times> 's" where
  "sign_section env d recs zone now s =
     (case sign_sets env d zone now (rrsets recs) s of (out, s1) \<Rightarrow> (out @ filter (\<lambda>r. unsigned_type (rr_type r)) recs, s1))"

definition sign_apex :: "('p, 's) dnssec_env \<Rightarrow> 'p dnssec \<Rightarrow> string \<Rightarrow> message \<Rightarrow> 64 word \<Rightarrow> 's \<Rightarrow> message \<times> 's" where
  "sign_apex env d zone m now s =
     (let ks = map (\<lambda>k. dnskey_record (dv_crypto env) k (zone_name env zone) 3600) (dn_keys d) in
      case sign_set env d ks zone now s of (sigs, s1) \<Rightarrow>
        (m\<lparr>m_rcode := NoError, m_answers := ks @ sigs, m_name_servers := [], m_authoritative := True\<rparr>, s1))"

definition sign_referral :: "('p, 's) dnssec_env \<Rightarrow> 'p dnssec \<Rightarrow> request \<Rightarrow> string \<Rightarrow> message \<Rightarrow> 64 word \<Rightarrow> 's \<Rightarrow> message \<times> 's" where
  "sign_referral env d req zone m now s =
     (let ttl = (case m_name_servers m of r # _ \<Rightarrow> rr_ttl r | [] \<Rightarrow> 3600);
          ds = filter (\<lambda>r. rr_type r = RT_DS) (m_name_servers m) in
      case (if ds = [] then dn_nsec env d req zone R_Delegation ttl now s else sign_set env d ds zone now s) of (add, s1) \<Rightarrow>
        (m\<lparr>m_name_servers := m_name_servers m @ add\<rparr>, s1))"

definition sign_denial ::
    "('p, 's) dnssec_env \<Rightarrow> 'p dnssec \<Rightarrow> request \<Rightarrow> string \<Rightarrow> resp_type \<Rightarrow> message \<Rightarrow> 64 word \<Rightarrow> 's \<Rightarrow> message res \<times> 's" where
  "sign_denial env d req zone kind m now s =
     (case m_name_servers m of
        [soa] \<Rightarrow>
          if rr_type soa \<noteq> RT_SOA then (Inr m, s)
          else (case sign_set env d [soa] zone now s of (sigs, s1) \<Rightarrow>
            (case dn_nsec env d req zone kind (rr_ttl soa) now s1 of (nsec, s2) \<Rightarrow>
              (if qtype req = RT_NSEC then insert_answers nsec (m\<lparr>m_rcode := NoError, m_name_servers := []\<rparr>)
               else Inr (m\<lparr>m_rcode := NoError, m_name_servers := soa # sigs @ nsec\<rparr>), s2)))
      | _ \<Rightarrow> (Inr m, s))"

definition sign_success :: "('p, 's) dnssec_env \<Rightarrow> 'p dnssec \<Rightarrow> string \<Rightarrow> message \<Rightarrow> 64 word \<Rightarrow> 's \<Rightarrow> message \<times> 's" where
  "sign_success env d zone m now s =
     (case sign_section env d (m_answers m) zone now s of (answers, s1) \<Rightarrow>
        (case sign_section env d (m_name_servers m) zone now s1 of (auth, s2) \<Rightarrow>
           (case sign_section env d (m_additionals m) zone now s2 of (extra, s3) \<Rightarrow>
              (m\<lparr>m_answers := answers, m_name_servers := auth, m_additionals := extra\<rparr>, s3))))"

definition sign_response_at :: "('p, 's) dnssec_env \<Rightarrow> 'p dnssec \<Rightarrow> request \<Rightarrow> string \<Rightarrow> message \<Rightarrow> 64 word \<Rightarrow> 's \<Rightarrow> message res \<times> 's" where
  "sign_response_at env d req zone m now s =
     (if qtype req = RT_DNSKEY \<and> name_uncached req = zone then apfst Inr (sign_apex env d zone m now s)
      else (case typify m of
          R_Delegation \<Rightarrow> apfst Inr (sign_referral env d req zone m now s)
        | R_NameError \<Rightarrow> sign_denial env d req zone R_NameError m now s
        | R_NoError \<Rightarrow> sign_denial env d req zone R_NoError m now s
        | R_Success \<Rightarrow> apfst Inr (sign_success env d zone m now s)
        | _ \<Rightarrow> (Inr m, s)))"

definition dnssec_reply :: "('p, 's) dnssec_env \<Rightarrow> 'p dnssec \<Rightarrow> string \<Rightarrow> reply \<Rightarrow> request \<Rightarrow> 's \<Rightarrow> 's served" where
  "dnssec_reply env d zone r req s =
     (case reply_msg r of
        Some m \<Rightarrow>
          if m_rcode m = NoError \<or> m_rcode m = NXDomain then
            (case sign_response_at env d req zone m (dv_now env s) s of
               (Inl e, s1) \<Rightarrow> (Panicked e, req, s1)
             | (Inr m', s1) \<Rightarrow> (Replied (reply_map_msg (\<lambda>_. m') r), req, s1))
          else (Replied r, req, s)
      | None \<Rightarrow> (Replied r, req, s))"

definition dnssec_serve :: "('p, 's) dnssec_env \<Rightarrow> 'p dnssec \<Rightarrow> 's handler" where
  "dnssec_serve env d req nx s =
     (case req_name req of (name, req1) \<Rightarrow>
        (case zones_match (dn_zones d) name of
           None \<Rightarrow> nx_serve nx req1 s
         | Some zone \<Rightarrow>
             if qtype req1 = RT_DNSKEY \<and> name = zone then
               (case sign_response_at env d req1 zone (new_reply req1) (dv_now env s) s of
                  (Inl e, s1) \<Rightarrow> (Panicked e, req1, s1)
                | (Inr m, s1) \<Rightarrow> (Replied (RMsg m), req1, s1))
             else if \<not> do_bit req1 then nx_serve nx req1 s
             else on_reply (nx_serve nx req1 s) (dnssec_reply env d zone)))"

section \<open>Setup\<close>

record ('p, 's, 'net) dnssec_parse =
  dq_files :: key_files
  dq_from_ascii :: "string \<Rightarrow> dname res"
  dq_api :: "'net ipnet_api"
  dq_env :: "nat \<Rightarrow> ('p, 's) dnssec_env"

text \<open>\<open>dq_env\<close> makes the environment of a plugin whose map of signatures has the given capacity.\<close>

fun load_keys :: "(string \<Rightarrow> 'p dns_key res) \<Rightarrow> (string \<Rightarrow> err) \<Rightarrow> string \<Rightarrow> string list \<Rightarrow> 'p dns_key list \<Rightarrow> 'p dns_key list res" where
  "load_keys ld ef root [] ks = Inr ks"
| "load_keys ld ef root (k # rest) ks =
     (case ld (path_join root k) of Inl e \<Rightarrow> Inl (ef e) | Inr x \<Rightarrow> load_keys ld ef root rest (ks @ [x]))"

definition dnssec_line ::
    "(string \<Rightarrow> 'p dns_key res) \<Rightarrow> string \<Rightarrow> (string \<Rightarrow> err) \<Rightarrow> err \<Rightarrow> string \<Rightarrow> string list \<Rightarrow> 'p dns_key list \<times> nat \<Rightarrow> ('p dns_key list \<times> nat) res" where
  "dnssec_line ld root ef arg_e v a st =
     (case st of (ks, cap) \<Rightarrow>
        if v = ''key'' then
          (if length a < 2 \<or> hd a \<noteq> ''file'' then Inl (ef ''key file KEY... expected'')
           else rbind (load_keys ld ef root (tl a) ks) (\<lambda>ks'. Inr (ks', cap)))
        else if v = ''cache_capacity'' then
          (if length a \<noteq> 1 then Inl arg_e
           else rbind (ok_or (ef (''bad cache_capacity '' @ hd a)) (parse_u64 (hd a))) (\<lambda>n. Inr (ks, n)))
        else Inl (ef (''unknown property '' @ quote v)))"

definition dnssec_property ::
    "(string \<Rightarrow> 'p dns_key res) \<Rightarrow> string \<Rightarrow> 'p dns_key list \<times> nat \<Rightarrow> 's controller \<Rightarrow> ('p dns_key list \<times> nat) res \<times> 's controller" where
  "dnssec_property ld root = line_property (\<lambda>v. v \<in> {''key'', ''cache_capacity''}) (dnssec_line ld root)"

definition dnssec_body :: "'p crypto \<Rightarrow> ('p, 's, 'net) dnssec_parse \<Rightarrow> 's setup_fn" where
  "dnssec_body cy ps c =
     (case ctl_disp remaining_args_until_brace c of (as, c1) \<Rightarrow>
        (case controller_origins (dq_from_ascii ps) (dq_api ps) c1 as of
           Inl e \<Rightarrow> (Inl e, c1)
         | Inr zones \<Rightarrow>
             (case block_loop (dnssec_property (load_key cy (dq_files ps)) (sc_root (ct_config c1))) ([], 10000) c1 of
                (Inl e, c2) \<Rightarrow> (Inl e, c2)
              | (Inr (ks, cap), c2) \<Rightarrow>
                  if ks = [] then (Inl (ctl_errf c2 ''no keys specified''), c2)
                  else (Inr (), add_plugin (''dnssec'', dnssec_serve (dq_env ps (max cap 1)) \<lparr>dn_zones = zones, dn_keys = ks\<rparr>) c2))))"

definition dnssec_setup :: "'p crypto \<Rightarrow> ('p, 's, 'net) dnssec_parse \<Rightarrow> 's setup_fn" where
  "dnssec_setup cy ps = single_setup ''dnssec'' (dnssec_body cy ps)"

section \<open>Contracts\<close>

lemma sign_response_id:
  assumes "sign_response_at env d req zone m now s = (Inr m', s')"
  shows "m_id m' = m_id m"
proof -
  have ids: "m_id (fst (sign_apex env d zone m now s)) = m_id m" "m_id (fst (sign_referral env d req zone m now s)) = m_id m"
    "m_id (fst (sign_success env d zone m now s)) = m_id m"
    by (simp_all add: sign_apex_def sign_referral_def sign_success_def Let_def case_prod_beta)
  have denial: "sign_denial env d req zone kind m now s = (Inr m', s') \<Longrightarrow> m_id m' = m_id m" for kind
    by (auto simp: sign_denial_def insert_answers_def case_prod_beta split: list.splits if_splits)
  show ?thesis
    using assms ids by (auto dest: denial simp: sign_response_at_def apfst_def map_prod_def case_prod_beta split: if_splits resp_type.splits)
qed

lemma dnssec_reply_id:
  assumes "dnssec_reply env d zone r req s = (out, req', s')"
  shows "req' = req" "out = Replied (RMsg m) \<Longrightarrow> \<exists>m0. r = RMsg m0 \<and> m_id m = m_id m0"
proof -
  show "req' = req" using assms by (auto simp: dnssec_reply_def split: option.splits if_splits prod.splits sum.splits)
  show "\<exists>m0. r = RMsg m0 \<and> m_id m = m_id m0" if "out = Replied (RMsg m)"
  proof (cases "reply_msg r")
    case (Some m1)
    with assms that show ?thesis
      by (auto simp: dnssec_reply_def split: if_splits prod.splits sum.splits dest!: sign_response_id)
  qed (use assms that in \<open>auto simp: dnssec_reply_def\<close>)
qed

lemma dnssec_keeps_id:
  assumes nx: "keeps_id (nx_serve nx)"
  shows "keeps_id (\<lambda>req s. dnssec_serve env d req nx s)"
proof -
  have named: "keeps_id (\<lambda>req s. nx_serve nx (snd (req_name req)) s)" by (rule keeps_id_same [OF nx]) simp
  have signed: "keeps_id (\<lambda>req s. on_reply (nx_serve nx (snd (req_name req)) s) (dnssec_reply env d zone))" for zone
  proof (rule keeps_idI)
    fix req s out req' s'
    assume run: "on_reply (nx_serve nx (snd (req_name req)) s) (dnssec_reply env d zone) = (out, req', s')"
    obtain o1 req1 s1 where n: "nx_serve nx (snd (req_name req)) s = (o1, req1, s1)" by (cases "nx_serve nx (snd (req_name req)) s")
    show "m_id (rq_msg req') = m_id (rq_msg req)"
      using run keeps_idD(1) [OF named n] by (auto simp: on_reply_def n split: outcome.splits dest: dnssec_reply_id(1))
  next
    fix req s m req' s'
    assume run: "on_reply (nx_serve nx (snd (req_name req)) s) (dnssec_reply env d zone) = (Replied (RMsg m), req', s')"
    obtain o1 req1 s1 where n: "nx_serve nx (snd (req_name req)) s = (o1, req1, s1)" by (cases "nx_serve nx (snd (req_name req)) s")
    from run obtain r where r: "o1 = Replied r" "dnssec_reply env d zone r req1 s1 = (Replied (RMsg m), req', s')"
      by (auto simp: on_reply_def n split: outcome.splits)
    from dnssec_reply_id(2) [OF r(2) refl] obtain m0 where "r = RMsg m0" "m_id m = m_id m0" by blast
    with r(1) keeps_idD(2) [OF named n] show "m_id m = m_id (rq_msg req)" by simp
  qed
  show ?thesis
    using named signed
    by (auto simp: keeps_id_def dnssec_serve_def case_prod_beta [of _ "req_name _"] dest!: sign_response_id
        split: option.splits prod.splits sum.splits)
qed

interpretation dnssec_handler: id_keeping_handler "dnssec_serve env d"
  by unfold_locales (rule dnssec_keeps_id)

interpretation dnssec_block: block_property "dnssec_property ld root"
  unfolding dnssec_property_def by (rule line_property_block) (auto simp: dnssec_line_def is_ok_def split: prod.splits)

lemma dnssec_body_appends: "dnssec_body cy ps c = (r, c') \<Longrightarrow> appends_plugins c c'"
proof -
  assume run: "dnssec_body cy ps c = (r, c')"
  obtain as c1 where a: "ctl_disp remaining_args_until_brace c = (as, c1)"
    by (cases "ctl_disp remaining_args_until_brace c")
  note st = args_block_steps [OF a dnssec_block.block_property_axioms]
  show ?thesis
    using run a appends_disp [OF a]
    by (auto simp: dnssec_body_def split: sum.splits prod.splits if_splits dest: st(2) intro!: appends_steps)
qed

interpretation dnssec_setup: setup_function "dnssec_setup cy ps"
  unfolding dnssec_setup_def by (rule single_setup_function [OF dnssec_body_appends])

section \<open>The sets of a section\<close>

text \<open>The keys in the order in which they are first seen.\<close>

fun first_seen :: "'a list \<Rightarrow> 'a list \<Rightarrow> 'a list" where
  "first_seen seen [] = seen"
| "first_seen seen (x # xs) = first_seen (if x \<in> set seen then seen else seen @ [x]) xs"

lemma push_under_map:
  "distinct (map fst m) \<Longrightarrow>
    push_under k v m = (if k \<in> fst ` set m then map (\<lambda>(j, vs). (j, if j = k then vs @ [v] else vs)) m else m @ [(k, [v])])"
proof (induction m)
  case (Cons e m)
  obtain j vs where e: "e = (j, vs)" by (cases e)
  have "map (\<lambda>(j, vs). (j, if j = k then vs @ [v] else vs)) m = m" if "k \<notin> fst ` set m"
    using that by (induction m) auto
  with Cons e show ?case by auto
qed simp

lemma push_all:
  assumes "distinct ks" "f ` set old = set ks"
  shows "foldl (\<lambda>m x. push_under (f x) x m) (map (\<lambda>k. (k, filter (\<lambda>x. f x = k) old)) ks) xs =
    map (\<lambda>k. (k, filter (\<lambda>x. f x = k) (old @ xs))) (first_seen ks (map f xs))"
  using assms
proof (induction xs arbitrary: ks old)
  case (Cons x xs)
  let ?m = "\<lambda>ks old. map (\<lambda>k. (k, filter (\<lambda>x. f x = k) old)) ks"
  have d: "distinct (map fst (?m ks old))" using Cons.prems by (simp add: comp_def)
  have step: "push_under (f x) x (?m ks old) = ?m (if f x \<in> set ks then ks else ks @ [f x]) (old @ [x])"
  proof (cases "f x \<in> set ks")
    case False
    then have "\<forall>k \<in> set ks. f x \<noteq> k" "\<forall>k \<in> f ` set old. f x \<noteq> k" unfolding Cons.prems(2) by auto
    then have "\<forall>y \<in> set old. f y \<noteq> f x" "\<forall>k \<in> set ks. f x \<noteq> k" by auto
    then show ?thesis using False unfolding push_under_map [OF d] by (auto simp: image_image)
  qed (unfold push_under_map [OF d], auto simp: image_image)
  define ks' where "ks' = (if f x \<in> set ks then ks else ks @ [f x])"
  have next_keys: "distinct ks'" "f ` set (old @ [x]) = set ks'" using Cons.prems by (auto simp: ks'_def)
  have "first_seen ks (map f (x # xs)) = first_seen ks' (map f xs)" by (simp add: ks'_def)
  with Cons.IH [OF next_keys] step show ?case by (simp only: foldl_Cons ks'_def [symmetric] append_assoc append.simps)
qed simp

lemma rrsets_filter:
  "rrsets rs = (let xs = filter (\<lambda>r. \<not> unsigned_type (rr_type r)) rs in
     map (\<lambda>k. filter (\<lambda>r. rrset_key r = k) xs) (first_seen [] (map rrset_key xs)))"
proof -
  let ?xs = "filter (\<lambda>r. \<not> unsigned_type (rr_type r)) rs"
  have skip: "foldl (\<lambda>m r. if p r then m else g r m) m rs = foldl (\<lambda>m r. g r m) m (filter (\<lambda>r. \<not> p r) rs)" for p g m and rs :: "rr list"
    by (induction rs arbitrary: m) simp_all
  have "foldl (\<lambda>m r. push_under (rrset_key r) r m) [] ?xs =
      map (\<lambda>k. (k, filter (\<lambda>r. rrset_key r = k) ?xs)) (first_seen [] (map rrset_key ?xs))"
    using push_all [of "[]" rrset_key "[]" ?xs] by simp
  then show ?thesis by (simp add: rrsets_def skip Let_def comp_def)
qed

lemma first_seen_set [simp]: "set (first_seen seen xs) = set seen \<union> set xs"
  by (induction seen xs rule: first_seen.induct) auto

lemma first_seen_distinct: "distinct seen \<Longrightarrow> distinct (first_seen seen xs)"
  by (induction seen xs rule: first_seen.induct) auto

section \<open>What the signatures are over\<close>

text \<open>
  What the plugin relies on: \<open>peek\<close>, the map behind \<open>get\<close> and \<open>put\<close>, is read by \<open>get\<close> and only loses entries
  besides the one that \<open>put\<close> writes; a signature's data give back its expiration. Nothing is assumed of the hash.
\<close>

definition signing_laws :: "('p, 's) dnssec_env \<Rightarrow> ('s \<Rightarrow> 64 word \<Rightarrow> rr list option) \<Rightarrow> bool" where
  "signing_laws env peek \<longleftrightarrow>
     (\<forall>k s. fst (dv_get env k s) = peek s k \<and> peek (snd (dv_get env k s)) = peek s) \<and>
     (\<forall>k v s j. peek (dv_put env k v s) j \<in> (if j = k then {Some v} else {peek s j, None})) \<and>
     (\<forall>t a l ttl ex inc tag n sig. cy_expiration (dv_crypto env) (cy_rrsig (dv_crypto env) t a l ttl ex inc tag n sig) = ex)"

lemma signing_lawsD:
  assumes "signing_laws env peek"
  shows "fst (dv_get env k s) = peek s k" "peek (snd (dv_get env k s)) = peek s"
    "peek (dv_put env k v s) j \<in> (if j = k then {Some v} else {peek s j, None})"
    "cy_expiration (dv_crypto env) (cy_rrsig (dv_crypto env) t a l ttl ex inc tag n sig) = ex"
proof -
  note L = assms [unfolded signing_laws_def]
  show "fst (dv_get env k s) = peek s k" "peek (snd (dv_get env k s)) = peek s" using L [THEN conjunct1] by simp_all
  show "peek (dv_put env k v s) j \<in> (if j = k then {Some v} else {peek s j, None})"
    by (rule L [THEN conjunct2, THEN conjunct1, rule_format])
  show "cy_expiration (dv_crypto env) (cy_rrsig (dv_crypto env) t a l ttl ex inc tag n sig) = ex"
    by (rule L [THEN conjunct2, THEN conjunct2, rule_format])
qed

text \<open>Every entry of the map was made from one of the sets \<open>U\<close> that have been signed, with its zone, and is found under the hash of that set.\<close>

definition sigs_ok ::
    "('p, 's) dnssec_env \<Rightarrow> 'p dnssec \<Rightarrow> ('s \<Rightarrow> 64 word \<Rightarrow> rr list option) \<Rightarrow> (rr list \<times> string) set \<Rightarrow> 's \<Rightarrow> bool" where
  "sigs_ok env d peek U s \<longleftrightarrow>
     (\<forall>h sigs. peek s h = Some sigs \<longrightarrow> (\<exists>(rs, zone) \<in> U. dv_hash env rs zone = h \<and> (\<exists>t. sigs = make_sigs env d rs zone t)))"

text \<open>
  What the signatures after a set are: those that the keys of the plugin gave, at some time \<open>t\<close>, for a set among \<open>U\<close> with the same hash
  as this one (itself, unless two sets of \<open>U\<close> share a hash), one by every key if every key can sign it, and all expire more than two days from now.
\<close>

definition good_sigs :: "('p, 's) dnssec_env \<Rightarrow> 'p dnssec \<Rightarrow> (rr list \<times> string) set \<Rightarrow> string \<Rightarrow> 64 word \<Rightarrow> rr list \<Rightarrow> rr list \<Rightarrow> bool" where
  "good_sigs env d U zone now rs sigs \<longleftrightarrow>
     (\<exists>rs' zone' t. (rs', zone') \<in> U \<and> dv_hash env rs' zone' = dv_hash env rs zone \<and>
        (let sign = (\<lambda>k. sign_rrset (dv_crypto env) k rs' (zone_name env zone') (fst (incep_expir t)) (snd (incep_expir t))) in
         (\<forall>sig. sig \<in> set sigs \<longleftrightarrow> (\<exists>k \<in> set (dn_keys d). sign k = Inr sig)) \<and>
         ((\<forall>k \<in> set (dn_keys d). \<exists>sig. sign k = Inr sig) \<longrightarrow> length sigs = length (dn_keys d)))) \<and>
     (\<forall>sig \<in> set sigs. \<exists>t dat. rr_data sig = Some (RD_RRSIG t dat) \<and> now + 2 * 86400 < ucast (cy_expiration (dv_crypto env) dat))"

lemma sign_rrset_expiration:
  assumes "signing_laws env peek" "sign_rrset (dv_crypto env) k rs signer inc ex = Inr r"
  shows "\<exists>t dat. rr_data r = Some (RD_RRSIG t dat) \<and> cy_expiration (dv_crypto env) dat = ex"
proof -
  from assms(2) signing_lawsD(4) [OF assms(1)] show ?thesis by (auto simp: sign_rrset_def Let_def split: list.splits sum.splits)
qed

lemma ucast_ucast_take: "(ucast (ucast w :: u32) :: 64 word) = take_bit 32 w"
  by (simp add: word_eq_iff_unsigned unsigned_ucast_eq unsigned_take_bit_eq)

lemma make_sigs_valid:
  assumes "signing_laws env peek" "now < 2 ^ 32 - 8 * 86400"
  shows "valid_at (dv_crypto env) (make_sigs env d rs zone now) (now + CACHE_MARGIN)"
proof -
  have big: "now + 691200 < 2 ^ 32" and lt: "now + 172800 < now + 691200"
    using assms(2) by (simp_all add: word_less_nat_alt unat_plus_if_size word_size)
  have e: "ucast (ucast (now + 691200) :: u32) = now + 691200"
    using big by (simp add: ucast_ucast_take word_unat_eq_iff unsigned_take_bit_eq take_bit_nat_eq_self word_less_nat_alt)
  have "\<exists>t dat. rr_data r = Some (RD_RRSIG t dat) \<and> ucast (cy_expiration (dv_crypto env) dat) > now + CACHE_MARGIN"
    if "r \<in> set (make_sigs env d rs zone now)" for r
  proof -
    from that obtain k where "sign_rrset (dv_crypto env) k rs (zone_name env zone) (ucast (now - 3 * 3600)) (ucast (now + 8 * 86400)) = Inr r"
      by (auto simp: make_sigs_def incep_expir_def in_map_filter elim!: ok.elims)
    from sign_rrset_expiration [OF assms(1) this] e lt show ?thesis by (auto simp: CACHE_MARGIN_def)
  qed
  then show ?thesis unfolding valid_at_def list_all_iff by (fastforce split: option.split rdata.split)
qed

lemma make_sigs_good:
  assumes "signing_laws env peek" "(rs', zone') \<in> U" "dv_hash env rs' zone' = dv_hash env rs zone"
    and "sigs = make_sigs env d rs' zone' t" "valid_at (dv_crypto env) sigs (now + CACHE_MARGIN)"
  shows "good_sigs env d U zone now rs sigs"
proof -
  let ?sign = "\<lambda>k. sign_rrset (dv_crypto env) k rs' (zone_name env zone') (fst (incep_expir t)) (snd (incep_expir t))"
  have sigs: "sigs = List.map_filter (\<lambda>k. ok (?sign k)) (dn_keys d)" using assms(4) by (simp add: make_sigs_def case_prod_beta)
  have mem: "sig \<in> set sigs \<longleftrightarrow> (\<exists>k \<in> set (dn_keys d). ?sign k = Inr sig)" for sig
    unfolding sigs in_map_filter by (auto elim!: ok.elims) (metis ok.simps(2))
  have len: "length (List.map_filter f ks) = length ks" if "\<forall>k \<in> set ks. f k \<noteq> None" for f :: "'a dns_key \<Rightarrow> rr option" and ks
    using that by (induction ks) (auto simp: map_filter_simps)
  have "length sigs = length (dn_keys d)" if "\<forall>k \<in> set (dn_keys d). \<exists>sig. ?sign k = Inr sig"
    unfolding sigs using that by (intro len) auto
  moreover have "\<exists>t dat. rr_data sig = Some (RD_RRSIG t dat) \<and> now + 2 * 86400 < ucast (cy_expiration (dv_crypto env) dat)" if "sig \<in> set sigs" for sig
  proof -
    from that mem obtain k where "?sign k = Inr sig" by blast
    from sign_rrset_expiration [OF assms(1) this] obtain ty dat where d: "rr_data sig = Some (RD_RRSIG ty dat)" by blast
    with assms(5) that have "now + CACHE_MARGIN < ucast (cy_expiration (dv_crypto env) dat)" by (auto simp: valid_at_def list_all_iff)
    with d show ?thesis by (simp add: CACHE_MARGIN_def)
  qed
  ultimately show ?thesis unfolding good_sigs_def Let_def using mem assms(2,3) by blast
qed

lemma sign_set_good:
  assumes laws: "signing_laws env peek" and s: "sigs_ok env d peek U s" and now: "now < 2 ^ 32 - 8 * 86400"
    and U: "(rs, zone) \<in> U" and run: "sign_set env d rs zone now s = (sigs, s')"
  shows "good_sigs env d U zone now rs sigs" "sigs_ok env d peek U s'"
proof -
  let ?h = "dv_hash env rs zone"
  obtain found s1 where g: "dv_get env ?h s = (found, s1)" by (cases "dv_get env ?h s")
  have get: "found = peek s ?h" "peek s1 = peek s" using signing_lawsD(1,2) [OF laws, of ?h s] by (simp_all add: g)
  have put: "peek (dv_put env ?h v s1) j \<in> (if j = ?h then {Some v} else {peek s1 j, None})" for v j
    by (rule signing_lawsD(3) [OF laws])
  have ok1: "sigs_ok env d peek U s1" using s by (simp add: sigs_ok_def get(2))
  have made: "sigs_ok env d peek U (dv_put env ?h (make_sigs env d rs zone now) s1)"
    unfolding sigs_ok_def
  proof (intro allI impI)
    fix h v
    assume v: "peek (dv_put env ?h (make_sigs env d rs zone now) s1) h = Some v"
    show "\<exists>(rs, zone) \<in> U. dv_hash env rs zone = h \<and> (\<exists>t. v = make_sigs env d rs zone t)"
    proof (cases "h = ?h")
      case True
      with put [of "make_sigs env d rs zone now" h] v U show ?thesis by auto
    next
      case False
      with put [of "make_sigs env d rs zone now" h] v have "peek s1 h = Some v" by auto
      with ok1 show ?thesis unfolding sigs_ok_def by blast
    qed
  qed
  have fresh: "good_sigs env d U zone now rs (make_sigs env d rs zone now)"
    by (rule make_sigs_good [OF laws U refl refl make_sigs_valid [OF laws now]])
  have old: "good_sigs env d U zone now rs v" if "found = Some v" "valid_at (dv_crypto env) v (now + CACHE_MARGIN)" for v
    using s that make_sigs_good [OF laws _ _ _ that(2)] unfolding sigs_ok_def get(1) by blast
  show "good_sigs env d U zone now rs sigs"
    using run g fresh old by (auto simp: sign_set_def Let_def split: option.splits if_splits)
  show "sigs_ok env d peek U s'"
    using run g made ok1 by (auto simp: sign_set_def Let_def split: option.splits if_splits)
qed

lemma sign_sets_good:
  assumes laws: "signing_laws env peek" and now: "now < 2 ^ 32 - 8 * 86400"
  shows "sigs_ok env d peek U s \<Longrightarrow> \<forall>rs \<in> set rss. (rs, zone) \<in> U \<Longrightarrow> sign_sets env d zone now rss s = (out, s') \<Longrightarrow>
    sigs_ok env d peek U s' \<and> (\<exists>sigss. list_all2 (good_sigs env d U zone now) rss sigss \<and> out = concat (map2 (@) rss sigss))"
proof (induction rss arbitrary: s s' out)
  case (Cons rs rss)
  obtain sigs s1 where s1: "sign_set env d rs zone now s = (sigs, s1)" by (cases "sign_set env d rs zone now s")
  obtain out2 s2 where s2: "sign_sets env d zone now rss s1 = (out2, s2)" by (cases "sign_sets env d zone now rss s1")
  have U: "(rs, zone) \<in> U" "\<forall>rs \<in> set rss. (rs, zone) \<in> U" using Cons.prems(2) by simp_all
  note g = sign_set_good [OF laws Cons.prems(1) now U(1) s1]
  from Cons.IH [OF g(2) U(2) s2] obtain sigss where rest: "list_all2 (good_sigs env d U zone now) rss sigss" "out2 = concat (map2 (@) rss sigss)"
    and ok2: "sigs_ok env d peek U s2" by blast
  have "list_all2 (good_sigs env d U zone now) (rs # rss) (sigs # sigss)" "out = concat (map2 (@) (rs # rss) (sigs # sigss))"
    using Cons.prems(3) s1 s2 g(1) rest by auto
  with ok2 Cons.prems(3) s1 s2 show ?case by auto
qed simp

section \<open>Properties\<close>

text \<open>The set of an owner and a type in a section, and a section whose sets are each followed by their signatures.\<close>

definition set_of :: "rr list \<Rightarrow> string \<times> rtype \<Rightarrow> rr list" where
  "set_of recs k = filter (\<lambda>r. \<not> unsigned_type (rr_type r) \<and> (name_str (rr_name r), rr_type r) = k) recs"

definition set_keys :: "rr list \<Rightarrow> (string \<times> rtype) list" where
  "set_keys recs = first_seen [] (map (\<lambda>r. (name_str (rr_name r), rr_type r)) (filter (\<lambda>r. \<not> unsigned_type (rr_type r)) recs))"

definition signed_section :: "('p, 's) dnssec_env \<Rightarrow> 'p dnssec \<Rightarrow> (rr list \<times> string) set \<Rightarrow> string \<Rightarrow> 64 word \<Rightarrow> rr list \<Rightarrow> rr list \<Rightarrow> bool" where
  "signed_section env d U zone now recs out \<longleftrightarrow>
     (\<exists>sigss. list_all2 (\<lambda>k sigs. good_sigs env d U zone now (set_of recs k) sigs) (set_keys recs) sigss \<and>
        out = concat (map2 (\<lambda>k sigs. set_of recs k @ sigs) (set_keys recs) sigss) @ filter (\<lambda>r. unsigned_type (rr_type r)) recs)"

lemma rrsets_keys: "rrsets recs = map (set_of recs) (set_keys recs)"
proof -
  have key: "rrset_key = (\<lambda>r. (name_str (rr_name r), rr_type r))" by (rule ext) (simp add: rrset_key_def)
  have "set_of recs k = filter (\<lambda>r. rrset_key r = k) (filter (\<lambda>r. \<not> unsigned_type (rr_type r)) recs)" for k
    by (simp add: set_of_def key conj_commute)
  then show ?thesis unfolding rrsets_filter by (simp add: set_keys_def key Let_def)
qed

lemma sign_section_good:
  assumes "signing_laws env peek" "sigs_ok env d peek U s" "now < 2 ^ 32 - 8 * 86400"
    and "\<forall>k \<in> set (set_keys recs). (set_of recs k, zone) \<in> U" and run: "sign_section env d recs zone now s = (out, s')"
  shows "signed_section env d U zone now recs out" "sigs_ok env d peek U s'"
proof -
  obtain o1 s1 where r: "sign_sets env d zone now (rrsets recs) s = (o1, s1)" by (cases "sign_sets env d zone now (rrsets recs) s")
  have "\<forall>rs \<in> set (rrsets recs). (rs, zone) \<in> U" using assms(4) by (simp add: rrsets_keys)
  from sign_sets_good [OF assms(1,3,2) this r] obtain sigss where ok: "sigs_ok env d peek U s1"
    and g: "list_all2 (good_sigs env d U zone now) (rrsets recs) sigss" "o1 = concat (map2 (@) (rrsets recs) sigss)" by blast
  have two: "map2 (@) (map (set_of recs) ks) ss = map2 (\<lambda>k s. set_of recs k @ s) ks ss" for ks ss
    by (simp add: zip_map1 case_prod_beta comp_def)
  have "list_all2 (\<lambda>k sigs. good_sigs env d U zone now (set_of recs k) sigs) (set_keys recs) sigss"
    "out = concat (map2 (\<lambda>k sigs. set_of recs k @ sigs) (set_keys recs) sigss) @ filter (\<lambda>r. unsigned_type (rr_type r)) recs"
    using g run r unfolding sign_section_def rrsets_keys list.rel_map two by simp_all
  then show "signed_section env d U zone now recs out" unfolding signed_section_def by blast
  show "sigs_ok env d peek U s'" using ok run r by (simp add: sign_section_def)
qed

text \<open>C26: A positive answer to a query in the plugin's zones, not for DNSKEY, with the DO bit, comes with signatures: in each section the sets of
  records, by owner and type in the order in which they first appear, are each followed by the signatures that the
  plugin's keys gave for that set, or for another signed set with the same 64-bit hash, under which the plugin keeps signatures; a key whose
  signing fails is left out, and every key has its signature when none fails; all expire more than two days from now; records
  that cannot be signed stand at the end. What the map of signatures holds under a hash stays signatures of a set with that hash. The map
  is any that returns what was put or loses it, and the time is at least eight days before 2 ^ 32 seconds (the year 2106).\<close>

theorem dnssec_answers_signed:
  assumes laws: "signing_laws env peek" and ok: "sigs_ok env d peek U s1"
    and q: "req_name req = (name, req0)" "zones_match (dn_zones d) name = Some zone" "do_bit req0" "qtype req0 \<noteq> RT_DNSKEY"
    and nx: "nx_serve nx req0 s = (Replied (RMsg m), req1, s1)" "qtype req1 \<noteq> RT_DNSKEY"
    and m: "m_opcode m = OpQuery" "m_rcode m = NoError" "m_answers m \<noteq> []"
    and now: "dv_now env s1 < 2 ^ 32 - 8 * 86400"
    and U: "\<forall>recs \<in> {m_answers m, m_name_servers m, m_additionals m}. \<forall>k \<in> set (set_keys recs). (set_of recs k, zone) \<in> U"
  shows "\<exists>m' s'. dnssec_serve env d req nx s = (Replied (RMsg m'), req1, s') \<and> sigs_ok env d peek U s' \<and>
    signed_section env d U zone (dv_now env s1) (m_answers m) (m_answers m') \<and>
    signed_section env d U zone (dv_now env s1) (m_name_servers m) (m_name_servers m') \<and>
    signed_section env d U zone (dv_now env s1) (m_additionals m) (m_additionals m')"
proof -
  let ?now = "dv_now env s1"
  obtain a sa where a: "sign_section env d (m_answers m) zone ?now s1 = (a, sa)" by (cases "sign_section env d (m_answers m) zone ?now s1")
  obtain n sn where n: "sign_section env d (m_name_servers m) zone ?now sa = (n, sn)" by (cases "sign_section env d (m_name_servers m) zone ?now sa")
  obtain x sx where x: "sign_section env d (m_additionals m) zone ?now sn = (x, sx)" by (cases "sign_section env d (m_additionals m) zone ?now sn")
  note ga = sign_section_good [OF laws ok now _ a]
  note gn = sign_section_good [OF laws ga(2) now _ n]
  note gx = sign_section_good [OF laws gn(2) now _ x]
  have "typify m = R_Success" using m by (simp add: typify_def)
  then have "dnssec_serve env d req nx s = (Replied (RMsg (m\<lparr>m_answers := a, m_name_servers := n, m_additionals := x\<rparr>)), req1, sx)"
    using q nx m a n x by (simp add: dnssec_serve_def on_reply_def dnssec_reply_def sign_response_at_def sign_success_def)
  then show ?thesis using ga(1) gn(1) gx U by auto
qed

lemma asked_type_denied:
  assumes "kind \<in> {R_NoError, R_NameError}" "qtype req \<noteq> RT_NSEC"
  shows "qtype req \<notin> set (nsec_types req zone kind)" "RT_NSEC \<in> set (nsec_types req zone kind)"
proof -
  have bitmaps: "RT_DS \<notin> set delegation_bitmap" "\<forall>b \<in> {zone_bitmap, apex_bitmap, delegation_bitmap}. RT_NSEC \<in> set b" by code_simp+
  have filtered: "nsec_filter kind (qtype req) b = filter (\<lambda>t. t \<noteq> qtype req) b" for b
    using assms by (auto simp: nsec_filter_def)
  show "qtype req \<notin> set (nsec_types req zone kind)" "RT_NSEC \<in> set (nsec_types req zone kind)"
    using assms bitmaps unfolding nsec_types_def filtered by auto
qed

text \<open>C27: A denial for a query in the plugin's zones with the DO bit and of a type other than NSEC and DNSKEY, a message with one SOA record in its
  authority section, goes out as a message without an error: the SOA with its signatures and an NSEC record of the
  name that was asked for, which does not list the type that was asked for, with its signatures. The signatures are those of the plugin's
  keys for these sets, or for another signed set with the same 64-bit hash, a key whose signing fails being left out, and expire
  more than two days from now, under the conditions on map and time of the positive answers.\<close>

theorem dnssec_denial_signed:
  assumes laws: "signing_laws env peek" and ok: "sigs_ok env d peek U s1"
    and q: "req_name req = (name, req0)" "zones_match (dn_zones d) name = Some zone" "do_bit req0" "qtype req0 \<noteq> RT_DNSKEY"
    and nx: "nx_serve nx req0 s = (Replied (RMsg m), req1, s1)" "qtype req1 \<notin> {RT_DNSKEY, RT_NSEC}"
    and m: "m_opcode m = OpQuery" "m_rcode m = NXDomain \<or> m_rcode m = NoError \<and> m_answers m = []"
    and soa: "m_name_servers m = [soa]" "rr_type soa = RT_SOA"
    and now: "dv_now env s1 < 2 ^ 32 - 8 * 86400"
    and U: "([soa], zone) \<in> U" "([from_rdata (qname req1) (rr_ttl soa) (RD_NSEC (nsec_next env req1 zone (typify m)) (nsec_types req1 zone (typify m)))], zone) \<in> U"
  shows "\<exists>m' s' sigs nsec nsigs nxt types. dnssec_serve env d req nx s = (Replied (RMsg m'), req1, s') \<and> sigs_ok env d peek U s' \<and>
    m_rcode m' = NoError \<and> m_answers m' = m_answers m \<and> m_name_servers m' = soa # sigs @ nsec # nsigs \<and>
    nsec = from_rdata (qname req1) (rr_ttl soa) (RD_NSEC nxt types) \<and> qtype req1 \<notin> set types \<and> RT_NSEC \<in> set types \<and>
    good_sigs env d U zone (dv_now env s1) [soa] sigs \<and> good_sigs env d U zone (dv_now env s1) [nsec] nsigs"
proof -
  let ?now = "dv_now env s1"
  obtain kind where kind: "typify m = kind" "kind \<in> {R_NoError, R_NameError}" using m soa by (auto simp: typify_def)
  let ?nsec = "from_rdata (qname req1) (rr_ttl soa) (RD_NSEC (nsec_next env req1 zone kind) (nsec_types req1 zone kind))"
  obtain sigs sa where a: "sign_set env d [soa] zone ?now s1 = (sigs, sa)" by (cases "sign_set env d [soa] zone ?now s1")
  obtain nsigs sn where n: "sign_set env d [?nsec] zone ?now sa = (nsigs, sn)" by (cases "sign_set env d [?nsec] zone ?now sa")
  note ga = sign_set_good [OF laws ok now U(1) a]
  note gn = sign_set_good [OF laws ga(2) now U(2) [unfolded kind(1)] n]
  have "sign_response_at env d req1 zone m ?now s1 = sign_denial env d req1 zone kind m ?now s1"
    using kind nx(2) by (auto simp: sign_response_at_def)
  then have "dnssec_serve env d req nx s = (Replied (RMsg (m\<lparr>m_rcode := NoError, m_name_servers := soa # sigs @ ?nsec # nsigs\<rparr>)), req1, sn)"
    using q nx m(2) soa a n by (auto simp: dnssec_serve_def on_reply_def dnssec_reply_def sign_denial_def dn_nsec_def Let_def)
  moreover note ga(1) gn asked_type_denied [OF kind(2), of req1 zone]
  ultimately show ?thesis using nx(2) by (intro exI conjI) (assumption | simp)+
qed

text \<open>A key without secrets, a map that forgets nothing, and the hash that serves when each plugin signs the sets named.\<close>

definition toy_crypto :: "unit crypto" where
  "toy_crypto = \<lparr>cy_num_labels = count_labels, cy_is_wildcard = (\<lambda>n. starts_with n ''*.''), cy_tbs = (\<lambda>_ _ _ _ _ _ _ _ _ _ _. Inr [1]),
     cy_sign = (\<lambda>_ _ b. Inr b), cy_rrsig = (\<lambda>_ _ _ _ ex _ _ _ _. replicate (unat ex) 0), cy_expiration = (\<lambda>b. of_nat (length b)),
     cy_dnskey = ky_public, cy_to_dnskey = (\<lambda>_ _. Inl []), cy_key_tag = (\<lambda>_. Inr 7), cy_ecdsa = (\<lambda>_ _ _. Inr ()), cy_ed25519 = (\<lambda>_ _. Inr ()),
     cy_decode_pem = (\<lambda>_ _. Inr ()), cy_decode_pkcs8 = (\<lambda>_ _. Inr ()), cy_base64 = (\<lambda>_. Inr [])\<rparr>"

definition toy_signing :: "(rr list \<Rightarrow> 64 word) \<Rightarrow> (unit, 64 word \<Rightarrow> rr list option) dnssec_env" where
  "toy_signing h = \<lparr>dv_crypto = toy_crypto, dv_hash = (\<lambda>rs _. h rs), dv_get = (\<lambda>k m. (m k, m)), dv_put = (\<lambda>k v m. m(k \<mapsto> v)),
     dv_now = (\<lambda>_. 1000), dv_from_ascii = Inr, dv_labels = (\<lambda>_. []), dv_from_labels = (\<lambda>_. Inr ''x.'')\<rparr>"

definition toy_dnssec :: "unit dnssec" where
  "toy_dnssec = \<lparr>dn_zones = [''a.''], dn_keys = [\<lparr>dk_name = ''a.'', dk_algorithm = ED25519, dk_pair = (), dk_dnskey = \<lparr>ky_zone_key = True,
     ky_secure_entry = True, ky_revoked = False, ky_algorithm = ED25519, ky_public = [1]\<rparr>, dk_tag = 7, dk_ksk = True\<rparr>]\<rparr>"

definition do_query :: request where
  "do_query = (let q = query_for ''a.'' RT_A in q\<lparr>rq_msg := (rq_msg q)\<lparr>m_edns := Some (edns_new\<lparr>ed_dnssec_ok := True\<rparr>)\<rparr>\<rparr>)"

definition soa_of_a :: rr where
  "soa_of_a = from_rdata ''a.'' 60 (RD_SOA \<lparr>soa_mname = ''a.'', soa_rname = ''a.'', soa_serial = 1, soa_refresh = 1, soa_retry = 1, soa_expire = 1,
     soa_minimum = 1\<rparr>)"

definition denied :: message where
  "denied = (new_reply do_query)\<lparr>m_rcode := NXDomain, m_name_servers := [soa_of_a]\<rparr>"

definition soa_hash :: "rr list \<Rightarrow> 64 word" where
  "soa_hash rs = (if rs = [soa_of_a] then 0 else 1)"

definition answering :: "message \<Rightarrow> 's next_plugin" where
  "answering m = \<lparr>nx_names = [], nx_serve = (\<lambda>req s. (Replied (RMsg m), req, s))\<rparr>"

lemma toy_laws: "signing_laws (toy_signing h) (\<lambda>m. m)"
  by (auto simp: signing_laws_def toy_signing_def toy_crypto_def case_prod_beta)

lemma do_query_facts:
  "\<exists>req0. req_name do_query = (''a.'', req0) \<and> zones_match (dn_zones toy_dnssec) ''a.'' = Some ''a.'' \<and> do_bit req0 \<and> qtype req0 = RT_A"
proof -
  have "fst (req_name do_query) = ''a.''" "do_bit (snd (req_name do_query))" "qtype (snd (req_name do_query)) = RT_A"
    "zones_match (dn_zones toy_dnssec) ''a.'' = Some ''a.''" by code_simp+
  then show ?thesis by (cases "req_name do_query") simp
qed

theorem dnssec_answers_signed_witness:
  "\<exists>m' req' s'. dnssec_serve (toy_signing (\<lambda>_. 0)) toy_dnssec do_query (answering a_response) Map.empty = (Replied (RMsg m'), req', s') \<and>
     signed_section (toy_signing (\<lambda>_. 0)) toy_dnssec {([from_rdata ''a.'' 300 (RD_A [192, 0, 2, 9])], ''a.'')} ''a.'' 1000 (m_answers a_response) (m_answers m')"
proof -
  let ?U = "{([from_rdata ''a.'' 300 (RD_A [192, 0, 2, 9])], ''a.'')}"
  obtain req0 where q: "req_name do_query = (''a.'', req0)" "zones_match (dn_zones toy_dnssec) ''a.'' = Some ''a.''" "do_bit req0" "qtype req0 = RT_A"
    using do_query_facts by blast
  have m: "m_opcode a_response = OpQuery" "m_rcode a_response = NoError" "m_name_servers a_response = []" "m_additionals a_response = []"
    "m_answers a_response = [from_rdata ''a.'' 300 (RD_A [192, 0, 2, 9])]" by code_simp+
  have k: "set_keys [from_rdata ''a.'' 300 (RD_A [192, 0, 2, 9])] = [(''a.'', RT_A)]"
    "set_of [from_rdata ''a.'' 300 (RD_A [192, 0, 2, 9])] (''a.'', RT_A) = [from_rdata ''a.'' 300 (RD_A [192, 0, 2, 9])]" by code_simp+
  have nil: "set_keys [] = []" by (simp add: set_keys_def)
  have ok: "sigs_ok (toy_signing (\<lambda>_. 0)) toy_dnssec (\<lambda>m. m) ?U Map.empty" by (simp add: sigs_ok_def)
  have nx: "nx_serve (answering a_response) req0 Map.empty = (Replied (RMsg a_response), req0, Map.empty)" by (simp add: answering_def)
  have now: "dv_now (toy_signing (\<lambda>_. 0)) Map.empty = 1000" by (simp add: toy_signing_def)
  from dnssec_answers_signed [OF toy_laws ok q(1,2,3) _ nx, unfolded now] q(4) m k nil show ?thesis
    by (auto simp: word_less_nat_alt)
qed

theorem dnssec_denial_signed_witness:
  "\<exists>m' req' s' sigs nsigs nsec. dnssec_serve (toy_signing soa_hash) toy_dnssec do_query (answering denied) Map.empty = (Replied (RMsg m'), req', s') \<and>
     m_rcode m' = NoError \<and> m_name_servers m' = soa_of_a # sigs @ nsec # nsigs \<and> rr_type nsec = RT_NSEC"
proof -
  let ?h = soa_hash and ?s = "Map.empty"
  obtain req0 where q: "req_name do_query = (''a.'', req0)" "zones_match (dn_zones toy_dnssec) ''a.'' = Some ''a.''" "do_bit req0" "qtype req0 = RT_A"
    using do_query_facts by blast
  let ?nsec = "from_rdata (qname req0) (rr_ttl soa_of_a) (RD_NSEC (nsec_next (toy_signing ?h) req0 ''a.'' (typify denied)) (nsec_types req0 ''a.'' (typify denied)))"
  let ?U = "{([soa_of_a], ''a.''), ([?nsec], ''a.'')}"
  have m: "m_opcode denied = OpQuery" "m_rcode denied = NXDomain" "m_name_servers denied = [soa_of_a]" "rr_type soa_of_a = RT_SOA" by code_simp+
  note laws = toy_laws [of ?h]
  have ok: "sigs_ok (toy_signing ?h) toy_dnssec (\<lambda>m. m) ?U ?s" by (simp add: sigs_ok_def)
  have nx: "nx_serve (answering denied) req0 ?s = (Replied (RMsg denied), req0, ?s)" by (simp add: answering_def)
  have now: "dv_now (toy_signing ?h) ?s < 2 ^ 32 - 8 * 86400" by (simp add: toy_signing_def word_less_nat_alt)
  from dnssec_denial_signed [OF laws ok q(1,2,3) _ nx _ m(1) _ m(3,4) now] q(4) m(2)
  obtain m' s' sigs nsigs nxt types where "dnssec_serve (toy_signing ?h) toy_dnssec do_query (answering denied) ?s = (Replied (RMsg m'), req0, s')"
    "m_rcode m' = NoError" "m_name_servers m' = soa_of_a # sigs @ from_rdata (qname req0) (rr_ttl soa_of_a) (RD_NSEC nxt types) # nsigs"
    by auto
  moreover have "rr_type (from_rdata (qname req0) (rr_ttl soa_of_a) (RD_NSEC nxt types)) = RT_NSEC" by simp
  ultimately show ?thesis by blast
qed

text \<open>
  A name counts its labels without a leading asterisk already (\<open>Name::num_labels\<close>); \<open>sign_rrset\<close> takes off another one, so that the
  label count in the signature of a wildcard is one less than the number of labels below the asterisk.
\<close>

lemma wildcard_label_count:
  assumes "cy_is_wildcard cy (rr_name r)" "rr_name r = ''*.'' @ p" "cy_num_labels cy (''*.'' @ p) = cy_num_labels cy p"
    and "sign_rrset cy k (r # rs) signer inc ex = Inr sig"
  shows "\<exists>ttl b. rr_data sig = Some (RD_RRSIG (rr_type r)
    (cy_rrsig cy (rr_type r) (dk_algorithm k) (cy_num_labels cy p - 1) ttl ex inc (dk_tag k) signer b))"
proof -
  have "cy_num_labels cy (rr_name r) = cy_num_labels cy p" using assms(2,3) by simp
  with assms(1,4) show ?thesis by (auto simp: sign_rrset_def Let_def split: sum.splits intro!: exI)
qed

text \<open>A query for the NSEC record itself whose answer is a name error at the end of an alias: the plugin panics.\<close>

lemma nsec_query_panics:
  assumes "typify m = R_NameError" "m_answers m \<noteq> []" "m_name_servers m = [soa]" "rr_type soa = RT_SOA" "qtype req = RT_NSEC"
  shows "fst (sign_response_at env d req zone m now s) = Inl ''assertion failed: self.answers.is_empty()''"
  using assms by (simp add: sign_response_at_def sign_denial_def insert_answers_def case_prod_beta)

end
