(* ===== verification/Sign.thy ===== *)
theory Sign
  imports Dnssec Zone_Transfer
begin

text \<open>
  The \<open>sign\<close> plugin, \<open>src/plugins/sign.rs\<close>: a zone file signed ahead of time, with the keys at its apex, a chain of NSEC
  records through its names and signatures over its sets.

  Names are ordered by \<open>sv_name_key\<close>, two names with the same key being the same name. The order of names, the
  numbers of types, being below a name, cryptography, the parser and the printer of records, the clock and the
  file system are arguments.

  Shown here: the NSEC records form a single chain through all names of the zone in their order, and each
  lists the types of its name; which sets are signed, and by which keys.
\<close>

record 'p signer =
  sg_origin :: string
  sg_dbfile :: string
  sg_directory :: string
  sg_keys :: "'p dns_key list"

record 'p sign_env =
  sv_crypto :: "'p crypto"
  sv_name_key :: "dname \<Rightarrow> string list"
  sv_code :: "rtype \<Rightarrow> nat"
  sv_zone_of :: "dname \<Rightarrow> dname \<Rightarrow> bool"
  sv_show_rr :: "rr \<Rightarrow> string"
  sv_read :: "string \<Rightarrow> string res"
  sv_parse :: "string \<Rightarrow> string \<Rightarrow> string \<Rightarrow> zone res"
  sv_now :: "64 word"
  sv_rfc3339 :: string
  sv_mkdir :: "string \<Rightarrow> unit res"
  sv_write :: "string \<Rightarrow> string \<Rightarrow> unit res"
  sv_rename :: "string \<Rightarrow> string \<Rightarrow> unit res"

definition signed_path :: "'p signer \<Rightarrow> string" where
  "signed_path g = path_join (sg_directory g) (''db.'' @ trim_end_matches (CHR ''.'') (sg_origin g) @ ''.'' @ ''signed'')"

definition RT_CDS :: rtype where "RT_CDS = RT_Unknown 59"
definition RT_CDNSKEY :: rtype where "RT_CDNSKEY = RT_Unknown 60"

definition unsigned_record :: "u32 \<Rightarrow> rr \<Rightarrow> rr option" where
  "unsigned_record serial r =
     (if rr_type r \<in> {RT_RRSIG, RT_NSEC, RT_NSEC3, RT_NSEC3PARAM, RT_DNSKEY, RT_CDS, RT_CDNSKEY} then None
      else if rr_type r = RT_SOA then
        (case rr_data r of Some (RD_SOA d) \<Rightarrow> Some (from_rdata (rr_name r) (rr_ttl r) (RD_SOA (d\<lparr>soa_serial := serial\<rparr>))) | _ \<Rightarrow> None)
      else Some r)"

text \<open>The sorted map from names to the types they have; the name is the one first seen.\<close>

definition add_type :: "(dname \<Rightarrow> string list) \<Rightarrow> (string list \<times> dname \<times> rtype list) list \<Rightarrow> rr \<Rightarrow> (string list \<times> dname \<times> rtype list) list" where
  "add_type nk m r =
     upsert_sorted (nk (rr_name r)) (rr_name r, []) (\<lambda>(n, ts). (n, if rr_type r \<in> set ts then ts else ts @ [rr_type r])) m"

definition by_name :: "(dname \<Rightarrow> string list) \<Rightarrow> rr list \<Rightarrow> (dname \<times> rtype list) list" where
  "by_name nk rs = map snd (foldl (add_type nk) [] rs)"

definition soa_min :: "rr list \<Rightarrow> u32" where
  "soa_min rs = (case find_map (\<lambda>r. case rr_data r of Some (RD_SOA d) \<Rightarrow> Some (soa_minimum d) | _ \<Rightarrow> None) rs of Some n \<Rightarrow> n | None \<Rightarrow> 3600)"

definition nsec_bitmap :: "(rtype \<Rightarrow> nat) \<Rightarrow> rtype list \<Rightarrow> rtype list" where
  "nsec_bitmap code ts = remdups_adj (sort_key code (ts @ [RT_NSEC, RT_RRSIG]))"

definition nsec_chain :: "(rtype \<Rightarrow> nat) \<Rightarrow> dname \<Rightarrow> u32 \<Rightarrow> (dname \<times> rtype list) list \<Rightarrow> rr list" where
  "nsec_chain code apex ttl names =
     map (\<lambda>i. case names ! i of (n, ts) \<Rightarrow>
       from_rdata n ttl (RD_NSEC (if i + 1 < length names then fst (names ! (i + 1)) else apex) (nsec_bitmap code ts))) [0..<length names]"

definition same_name :: "'p sign_env \<Rightarrow> dname \<Rightarrow> dname \<Rightarrow> bool" where
  "same_name env a b \<longleftrightarrow> sv_name_key env a = sv_name_key env b"

definition cut_names :: "'p sign_env \<Rightarrow> dname \<Rightarrow> (dname \<times> rtype list) list \<Rightarrow> dname list" where
  "cut_names env apex names = map fst (filter (\<lambda>(n, ts). \<not> same_name env n apex \<and> RT_NS \<in> set ts) names)"

definition skip_set :: "'p sign_env \<Rightarrow> dname \<Rightarrow> dname list \<Rightarrow> rr list \<Rightarrow> bool" where
  "skip_set env apex cuts rs =
     (let owner = rr_name (hd rs); t = rr_type (hd rs);
          at_cut = list_ex (\<lambda>d. same_name env d owner) cuts;
          below_cut = list_ex (\<lambda>d. sv_zone_of env d owner \<and> \<not> same_name env d owner) cuts in
      \<not> same_name env owner apex \<and> (below_cut \<or> at_cut \<and> \<not> (t = RT_DS \<or> t = RT_NSEC)))"

fun sign_with :: "'p crypto \<Rightarrow> dname \<Rightarrow> u32 \<Rightarrow> u32 \<Rightarrow> rr list \<Rightarrow> 'p dns_key list \<Rightarrow> rr list res" where
  "sign_with cy apex inc ex rs [] = Inr []"
| "sign_with cy apex inc ex rs (k # ks) =
     rbind (sign_rrset cy k rs apex inc ex) (\<lambda>sig. rbind (sign_with cy apex inc ex rs ks) (\<lambda>sigs. Inr (sig # sigs)))"

fun zone_sigs :: "'p sign_env \<Rightarrow> dname \<Rightarrow> u32 \<Rightarrow> u32 \<Rightarrow> 'p dns_key list \<Rightarrow> dname list \<Rightarrow> rr list list \<Rightarrow> rr list res" where
  "zone_sigs env apex inc ex ks cuts [] = Inr []"
| "zone_sigs env apex inc ex ks cuts (rs # rss) =
     (if skip_set env apex cuts rs then zone_sigs env apex inc ex ks cuts rss
      else rbind (sign_with (sv_crypto env) apex inc ex rs ks) (\<lambda>sigs.
           rbind (zone_sigs env apex inc ex ks cuts rss) (\<lambda>rest. Inr (sigs @ rest))))"

text \<open>The records of the signed zone, with the serial and the smallest time to live of a denial.\<close>

definition sign_records :: "'p sign_env \<Rightarrow> 'p dns_key list \<Rightarrow> zone \<Rightarrow> (u32 \<times> u32 \<times> rr list) res" where
  "sign_records env ks z =
     (let now = sv_now env; apex = zn_origin_name z;
          inc = ucast (now - 3 * 3600); ex = ucast (now + 32 * 86400); serial = max (zn_serial z) (ucast now);
          records = List.map_filter (unsigned_record serial) (all_records z) @ map (\<lambda>k. dnskey_record (sv_crypto env) k apex 3600) ks;
          names = by_name (sv_name_key env) records; ttl = soa_min records;
          records = records @ nsec_chain (sv_code env) apex ttl names in
      rbind (zone_sigs env apex inc ex ks (cut_names env apex names) (rrsets records)) (\<lambda>sigs. Inr (serial, ttl, records @ sigs)))"

text \<open>SOA first, then the rest in the order of names and types.\<close>

fun soa_first :: "rr list \<Rightarrow> rr list" where
  "soa_first rs = (case List.extract (\<lambda>r. rr_type r = RT_SOA) rs of None \<Rightarrow> rs | Some (ys, soa, zs) \<Rightarrow> soa # ys @ zs)"

definition sign_order :: "'p sign_env \<Rightarrow> rr list \<Rightarrow> rr list" where
  "sign_order env rs = soa_first (sort_key (\<lambda>r. (sv_name_key env (rr_name r), sv_code env (rr_type r))) rs)"

definition signed_text :: "'p sign_env \<Rightarrow> 'p signer \<Rightarrow> u32 \<Rightarrow> rr list \<Rightarrow> string" where
  "signed_text env g ttl rs =
     ''; File written on '' @ sv_rfc3339 env @ '' by stormcoredns sign'' @ [CHR 0x0A] @ ''$ORIGIN '' @ sg_origin g @ [CHR 0x0A] @
     ''$TTL '' @ show_nat (unat ttl) @ [CHR 0x0A] @ concat (map (\<lambda>r. sv_show_rr env r @ [CHR 0x0A]) (sign_order env rs))"

definition context_of :: "string \<Rightarrow> 'a res \<Rightarrow> 'a res" where
  "context_of e r = (case r of Inl _ \<Rightarrow> Inl e | Inr x \<Rightarrow> Inr x)"

definition sign_once :: "'p sign_env \<Rightarrow> 'p signer \<Rightarrow> u32 res" where
  "sign_once env g =
     rbind (context_of (''reading '' @ sg_dbfile g) (sv_read env (sg_dbfile g))) (\<lambda>txt.
     rbind (sv_parse env txt (sg_origin g) (sg_dbfile g)) (\<lambda>z.
     rbind (sign_records env (sg_keys g) z) (\<lambda>(serial, ttl, rs).
       let path = signed_path g; tmp = path @ ''.tmp'' in
       rbind (context_of (''creating '' @ sg_directory g) (sv_mkdir env (sg_directory g))) (\<lambda>_.
       rbind (context_of (''writing '' @ tmp) (sv_write env tmp (signed_text env g ttl rs))) (\<lambda>_.
       rbind (context_of (''renaming to '' @ path) (sv_rename env tmp path)) (\<lambda>_. Inr serial))))))"

definition sign_serve :: "'s handler" where
  "sign_serve req nx s = nx_serve nx req s"

text \<open>A round of the task that signs again: whether the file has changed or six days are over, in seconds.\<close>

definition sign_due :: "nat option \<Rightarrow> nat option \<Rightarrow> nat \<Rightarrow> nat \<Rightarrow> bool" where
  "sign_due mtime last_mtime elapsed jitter \<longleftrightarrow> mtime \<noteq> last_mtime \<or> elapsed + jitter > 6 * 86400"

section \<open>Setup\<close>

record ('p, 's, 'net) sign_parse =
  sq_load :: "string \<Rightarrow> 'p dns_key res"
  sq_list :: "string \<Rightarrow> string list res"
  sq_from_ascii :: "string \<Rightarrow> dname res"
  sq_api :: "'net ipnet_api"
  sq_spawn :: "'p signer list \<Rightarrow> 's hook"
  sq_cancel :: "'s hook"

text \<open>\<open>sq_list\<close> gives the names of the files of a directory.\<close>

definition keys_in_dir :: "(string \<Rightarrow> string list res) \<Rightarrow> string \<Rightarrow> string list res" where
  "keys_in_dir ls dir =
     rbind (context_of (''reading '' @ dir) (ls dir)) (\<lambda>fs.
       Inr (map (path_join dir) (sort (filter (\<lambda>f. ends_with f ''.key'' \<and> starts_with f ''K'') fs))))"

fun load_all :: "(string \<Rightarrow> 'p dns_key res) \<Rightarrow> (string \<Rightarrow> err) \<Rightarrow> string list \<Rightarrow> 'p dns_key list res" where
  "load_all ld ef [] = Inr []"
| "load_all ld ef (p # ps) = (case ld p of Inl e \<Rightarrow> Inl (ef e) | Inr k \<Rightarrow> rbind (load_all ld ef ps) (\<lambda>ks. Inr (k # ks)))"

fun load_dirs :: "('p, 's, 'net) sign_parse \<Rightarrow> (string \<Rightarrow> err) \<Rightarrow> string list \<Rightarrow> 'p dns_key list res" where
  "load_dirs ps ef [] = Inr []"
| "load_dirs ps ef (d # ds) =
     (case keys_in_dir (sq_list ps) d of
        Inl e \<Rightarrow> Inl (ef e)
      | Inr fs \<Rightarrow> rbind (load_all (sq_load ps) ef fs) (\<lambda>ks. rbind (load_dirs ps ef ds) (\<lambda>rest. Inr (ks @ rest))))"

definition sign_line ::
    "('p, 's, 'net) sign_parse \<Rightarrow> string \<Rightarrow> (string \<Rightarrow> err) \<Rightarrow> err \<Rightarrow> string \<Rightarrow> string list \<Rightarrow> 'p dns_key list \<times> string
     \<Rightarrow> ('p dns_key list \<times> string) res" where
  "sign_line ps root ef arg_e v a st =
     (case st of (ks, dir) \<Rightarrow>
        if v = ''key'' then
          (if length a < 2 then Inl (ef ''key file|directory KEY...'')
           else if hd a = ''file'' then rbind (load_all (sq_load ps) ef (map (path_join root) (tl a))) (\<lambda>new. Inr (ks @ new, dir))
           else if hd a = ''directory'' then rbind (load_dirs ps ef (map (path_join root) (tl a))) (\<lambda>new. Inr (ks @ new, dir))
           else Inl (ef (''key: expected file or directory, got '' @ hd a)))
        else if v = ''directory'' then (if length a \<noteq> 1 then Inl arg_e else Inr (ks, path_join root (hd a)))
        else Inl (ef (''unknown property '' @ quote v)))"

definition sign_property ::
    "('p, 's, 'net) sign_parse \<Rightarrow> string \<Rightarrow> 'p dns_key list \<times> string \<Rightarrow> 's controller \<Rightarrow> ('p dns_key list \<times> string) res \<times> 's controller" where
  "sign_property ps root = line_property (\<lambda>v. v \<in> {''key'', ''directory''}) (sign_line ps root)"

definition default_directory :: string where
  "default_directory = [CHR 0x2F] @ ''var'' @ [CHR 0x2F] @ ''lib'' @ [CHR 0x2F] @ ''coredns''"

definition sign_body :: "('p, 's, 'net) sign_parse \<Rightarrow> 'p signer list \<Rightarrow> 's controller \<Rightarrow> 'p signer list res \<times> 's controller" where
  "sign_body ps gs c =
     (case ctl_disp remaining_args_until_brace c of (as, c1) \<Rightarrow>
        (case as of
           [] \<Rightarrow> (Inl (ctl_arg_err c1), c1)
         | db # zs \<Rightarrow>
             (let root = sc_root (ct_config c1); dbfile = path_join root db in
              case controller_origins (sq_from_ascii ps) (sq_api ps) c1 zs of
                Inl e \<Rightarrow> (Inl e, c1)
              | Inr origins \<Rightarrow>
                  (case block_loop (sign_property ps root) ([], default_directory) c1 of
                     (Inl e, c2) \<Rightarrow> (Inl e, c2)
                   | (Inr (ks, dir), c2) \<Rightarrow>
                       if ks = [] then (Inl (ctl_errf c2 ''no keys specified''), c2)
                       else (Inr (gs @ map (\<lambda>og. \<lparr>sg_origin = og, sg_dbfile = dbfile, sg_directory = dir, sg_keys = ks\<rparr>) origins), c2)))))"

fun sign_each :: "'p sign_env \<Rightarrow> (string \<Rightarrow> err) \<Rightarrow> 'p signer list \<Rightarrow> unit res" where
  "sign_each env ef [] = Inr ()"
| "sign_each env ef (g # gs) =
     (case sign_once env g of Inl e \<Rightarrow> Inl (ef (''signing '' @ sg_origin g @ '': '' @ e)) | Inr _ \<Rightarrow> sign_each env ef gs)"

definition sign_setup :: "('p, 's, 'net) sign_parse \<Rightarrow> 'p sign_env \<Rightarrow> 's setup_fn" where
  "sign_setup ps env c =
     (case next_loop (sign_body ps) [] c of
        (Inl e, c1) \<Rightarrow> (Inl e, c1)
      | (Inr gs, c1) \<Rightarrow>
          (let c2 = add_plugin (''sign'', sign_serve) c1 in
           case sign_each env (ctl_errf c2) gs of
             Inl e \<Rightarrow> (Inl e, c2)
           | Inr _ \<Rightarrow> (Inr (), on_shutdown (sq_cancel ps) (on_startup (sq_spawn ps gs) c2))))"

section \<open>Contracts\<close>

interpretation sign_handler: id_keeping_handler sign_serve
  by unfold_locales (simp add: sign_serve_def)

interpretation sign_block: block_property "sign_property ps root"
  unfolding sign_property_def by (rule line_property_block) (auto simp: sign_line_def is_ok_def split: prod.splits)

lemma sign_body_frame:
  assumes "sign_body ps gs c = (r, c')"
  shows "appends_plugins c c'" "is_ok r \<Longrightarrow> left_over (ct_dispenser c') \<le> left_over (ct_dispenser c)"
proof -
  obtain as c1 where a: "ctl_disp remaining_args_until_brace c = (as, c1)"
    by (cases "ctl_disp remaining_args_until_brace c")
  note st = args_block_steps [OF a sign_block.block_property_axioms]
  show "appends_plugins c c'"
    using assms a appends_disp [OF a]
    by (auto simp: sign_body_def Let_def split: list.splits sum.splits prod.splits if_splits dest: st(2))
  show "left_over (ct_dispenser c') \<le> left_over (ct_dispenser c)" if "is_ok r"
    using assms a that by (auto simp: sign_body_def Let_def split: list.splits sum.splits prod.splits if_splits dest: st(3))
qed

interpretation sign_directive: directive_body "sign_body ps"
  by unfold_locales (auto dest: sign_body_frame)

interpretation sign_setup: setup_function "sign_setup ps env"
proof (rule setup_functionI)
  fix c r c'
  assume run: "sign_setup ps env c = (r, c')"
  obtain r1 c1 where l: "next_loop (sign_body ps) [] c = (r1, c1)" by (cases "next_loop (sign_body ps) [] c")
  from sign_directive.next_loop_appends [OF l] run l show "appends_plugins c c'"
    by (auto simp: sign_setup_def Let_def split: sum.splits intro!: appends_steps)
qed

section \<open>The chain of denials\<close>

text \<open>The entries of the map of names: their keys in order, each with a name of that key and the types of that name.\<close>

definition types_at :: "(dname \<Rightarrow> string list) \<Rightarrow> rr list \<Rightarrow> string list \<Rightarrow> rtype set" where
  "types_at nk rs k = rr_type ` {r \<in> set rs. nk (rr_name r) = k}"

lemma types_at_alt: "types_at nk rs k = {rr_type r |r. r \<in> set rs \<and> nk (rr_name r) = k}"
  by (auto simp: types_at_def)

lemma add_types:
  defines "tree nk rs \<equiv> foldl (add_type nk) [] rs"
  shows "sorted_keys (tree nk rs)" "fst ` set (tree nk rs) = (\<lambda>r. nk (rr_name r)) ` set rs"
    "map_of (tree nk rs) k = Some (n, ts) \<Longrightarrow> nk n = k \<and> set ts = types_at nk rs k"
proof -
  show sorted: "sorted_keys (tree nk rs)" for rs
    by (induction rs rule: rev_induct) (simp_all add: tree_def add_type_def sorted_keys_upsert)
  show keys: "fst ` set (tree nk rs) = (\<lambda>r. nk (rr_name r)) ` set rs" for rs
    by (induction rs rule: rev_induct) (simp_all add: tree_def add_type_def upsert_sorted_keys)
  show "map_of (tree nk rs) k = Some (n, ts) \<Longrightarrow> nk n = k \<and> set ts = types_at nk rs k"
  proof (induction rs arbitrary: n ts rule: rev_induct)
    case (snoc r rs)
    have new: "map_of (tree nk (rs @ [r])) = (map_of (tree nk rs))(nk (rr_name r) \<mapsto>
        (\<lambda>(n, ts). (n, if rr_type r \<in> set ts then ts else ts @ [rr_type r])) (unwrap_or (rr_name r, []) (map_of (tree nk rs) (nk (rr_name r)))))"
      using map_of_upsert_sorted [OF sorted [of rs]] by (simp add: tree_def add_type_def)
    have at: "types_at nk (rs @ [r]) k = types_at nk rs k \<union> (if nk (rr_name r) = k then {rr_type r} else {})"
      by (auto simp: types_at_def)
    show ?case
    proof (cases "nk (rr_name r) = k")
      case False
      with snoc.prems new snoc.IH at show ?thesis by simp
    next
      case True
      show ?thesis
      proof (cases "map_of (tree nk rs) k")
        case None
        then have "types_at nk rs k = {}"
          using keys [of rs] by (force simp: types_at_def map_of_eq_None_iff)
        with None True snoc.prems new at show ?thesis by (auto simp: unwrap_or_def)
      next
        case (Some e)
        obtain n0 ts0 where e: "e = (n0, ts0)" by (cases e)
        from snoc.IH Some e have "nk n0 = k" "set ts0 = types_at nk rs k" by blast+
        with Some e True snoc.prems new at show ?thesis by (auto simp: unwrap_or_def split: if_splits)
      qed
    qed
  qed (simp add: tree_def)
qed

lemma by_name_entries:
  "sorted_wrt (<) (map (\<lambda>e. nk (fst e)) (by_name nk rs))"
  "(\<lambda>e. nk (fst e)) ` set (by_name nk rs) = (\<lambda>r. nk (rr_name r)) ` set rs"
  "(n, ts) \<in> set (by_name nk rs) \<Longrightarrow> set ts = types_at nk rs (nk n)"
proof -
  let ?t = "foldl (add_type nk) [] rs"
  have entry: "nk n = k \<and> set ts = types_at nk rs k" if "(k, n, ts) \<in> set ?t" for k n ts
    using add_types(3) map_of_is_SomeI [OF sorted_keys_distinct [OF add_types(1)] that] by blast
  have keys: "map (\<lambda>e. nk (fst e)) (by_name nk rs) = map fst ?t"
    by (auto simp: by_name_def dest: entry)
  show "sorted_wrt (<) (map (\<lambda>e. nk (fst e)) (by_name nk rs))" unfolding keys by (rule add_types(1))
  show "(\<lambda>e. nk (fst e)) ` set (by_name nk rs) = (\<lambda>r. nk (rr_name r)) ` set rs"
    using arg_cong [OF keys, of set] by (simp add: add_types(2))
  show "(n, ts) \<in> set (by_name nk rs) \<Longrightarrow> set ts = types_at nk rs (nk n)"
    by (auto simp: by_name_def dest: entry)
qed

lemma nsec_bitmap_set: "set (nsec_bitmap code ts) = {RT_NSEC, RT_RRSIG} \<union> set ts"
  by (auto simp: nsec_bitmap_def)

lemma unsigned_record_type: "unsigned_record serial r = Some r' \<Longrightarrow> rr_type r' \<notin> {RT_NSEC, RT_RRSIG}"
  by (auto simp: unsigned_record_def split: if_splits option.splits rdata.splits)

lemma zone_sigs_type: "zone_sigs env apex inc ex ks cuts rss = Inr sigs \<Longrightarrow> r \<in> set sigs \<Longrightarrow> rr_type r = RT_RRSIG"
proof (induction rss arbitrary: sigs)
  case (Cons rs rss)
  have one: "sign_rrset cy k rs apex inc ex = Inr r \<Longrightarrow> rr_type r = RT_RRSIG" for cy and k :: "'a dns_key" and r
    by (auto simp: sign_rrset_def Let_def split: list.splits sum.splits)
  have "sign_with cy apex inc ex rs ks = Inr sigs \<Longrightarrow> r \<in> set sigs \<Longrightarrow> rr_type r = RT_RRSIG" for cy and ks :: "'a dns_key list" and sigs r
    by (induction ks arbitrary: sigs) (auto dest: one)
  with Cons show ?case by (fastforce split: if_splits)
qed simp

lemma nsec_chain_spec:
  assumes "sign_records env ks z = Inr (serial, ttl, recs)"
  defines "nk \<equiv> sv_name_key env" and "nsecs \<equiv> filter (\<lambda>r. rr_type r = RT_NSEC) recs"
    and "plain \<equiv> filter (\<lambda>r. rr_type r \<notin> {RT_NSEC, RT_RRSIG}) recs"
  shows "sorted_wrt (<) (map (\<lambda>r. nk (rr_name r)) nsecs) \<and>
    (\<lambda>r. nk (rr_name r)) ` set nsecs = (\<lambda>r. nk (rr_name r)) ` set plain \<and>
    (\<forall>i < length nsecs. \<exists>types.
      rr_data (nsecs ! i) = Some (RD_NSEC (if i + 1 < length nsecs then rr_name (nsecs ! (i + 1)) else zn_origin_name z) types) \<and>
      set types = {RT_NSEC, RT_RRSIG} \<union> {rr_type r |r. r \<in> set plain \<and> nk (rr_name r) = nk (rr_name (nsecs ! i))})"
proof -
  let ?apex = "zn_origin_name z"
  let ?rs = "List.map_filter (unsigned_record (max (zn_serial z) (ucast (sv_now env)))) (all_records z) @
    map (\<lambda>k. dnskey_record (sv_crypto env) k ?apex 3600) ks"
  let ?names = "by_name nk ?rs"
  let ?chain = "nsec_chain (sv_code env) ?apex (soa_min ?rs) ?names"
  from assms(1) obtain sigs where sigs: "zone_sigs env ?apex (ucast (sv_now env - 3 * 3600)) (ucast (sv_now env + 32 * 86400)) ks
      (cut_names env ?apex ?names) (rrsets (?rs @ ?chain)) = Inr sigs" and recs: "recs = ?rs @ ?chain @ sigs"
    by (auto simp: sign_records_def Let_def nk_def)
  have types: "\<forall>r \<in> set ?rs. rr_type r \<notin> {RT_NSEC, RT_RRSIG}"
    by (auto simp: in_map_filter dnskey_record_def dest!: unsigned_record_type)
  have chain: "\<forall>r \<in> set ?chain. rr_type r = RT_NSEC" by (auto simp: nsec_chain_def split: prod.splits)
  have "\<forall>r \<in> set sigs. rr_type r = RT_RRSIG" using zone_sigs_type [OF sigs] by blast
  with types chain have n: "nsecs = ?chain" and p: "plain = ?rs"
    unfolding nsecs_def plain_def recs by (auto simp: filter_id_conv filter_empty_conv)
  have owner: "map rr_name ?chain = map fst ?names"
    by (rule nth_equalityI) (auto simp: nsec_chain_def split: prod.split)
  have keyed: "map (\<lambda>r. nk (rr_name r)) ?chain = map (\<lambda>e. nk (fst e)) ?names"
    using arg_cong [OF owner, of "map nk"] by (simp add: comp_def)
  have link: "rr_data (?chain ! i) = Some (RD_NSEC (if i + 1 < length ?chain then rr_name (?chain ! (i + 1)) else ?apex)
      (nsec_bitmap (sv_code env) (snd (?names ! i))))" "rr_name (?chain ! i) = fst (?names ! i)" if "i < length ?chain" for i
    using that by (auto simp: nsec_chain_def split: prod.split)
  have bitmap: "set (snd (?names ! i)) = types_at nk ?rs (nk (fst (?names ! i)))" if "i < length ?chain" for i
    using by_name_entries(3) [of "fst (?names ! i)" "snd (?names ! i)" nk ?rs] that by (auto simp: nsec_chain_def)
  show ?thesis
    unfolding n p
  proof (intro conjI allI impI)
    show "sorted_wrt (<) (map (\<lambda>r. nk (rr_name r)) ?chain)" unfolding keyed by (rule by_name_entries(1))
    show "(\<lambda>r. nk (rr_name r)) ` set ?chain = (\<lambda>r. nk (rr_name r)) ` set ?rs"
      using arg_cong [OF keyed, of set] by_name_entries(2) [of nk ?rs] by simp
    fix i assume i: "i < length ?chain"
    have "set (nsec_bitmap (sv_code env) (snd (?names ! i))) =
        {RT_NSEC, RT_RRSIG} \<union> {rr_type r |r. r \<in> set ?rs \<and> nk (rr_name r) = nk (fst (?names ! i))}"
      unfolding nsec_bitmap_set bitmap [OF i] types_at_alt ..
    then show "\<exists>types. rr_data (?chain ! i) = Some (RD_NSEC (if i + 1 < length ?chain then rr_name (?chain ! (i + 1)) else ?apex) types) \<and>
        set types = {RT_NSEC, RT_RRSIG} \<union> {rr_type r |r. r \<in> set ?rs \<and> nk (rr_name r) = nk (rr_name (?chain ! i))}"
      unfolding link [OF i] by blast
  qed
qed

text \<open>C28: The NSEC records of a signed zone without delegations, one whose NS records are all at the apex, form one chain: there is
  exactly one for every name that owns a record, they stand in the order of the names, each points to the next
  name and the last to the apex, and each lists the types its name has and, besides, NSEC and RRSIG. (For delegations see
  \<open>nsec_chain_spec\<close>: names at and below a cut are treated like all others.)\<close>

theorem sign_nsec_chain:
  assumes "sign_records env ks z = Inr (serial, ttl, recs)"
    and "\<forall>n. owns z n RT_NS \<longrightarrow> n = zn_origin z"
  shows "let nk = sv_name_key env; nsecs = filter (\<lambda>r. rr_type r = RT_NSEC) recs; plain = filter (\<lambda>r. rr_type r \<notin> {RT_NSEC, RT_RRSIG}) recs in
    sorted_wrt (<) (map (\<lambda>r. nk (rr_name r)) nsecs) \<and>
    (\<lambda>r. nk (rr_name r)) ` set nsecs = (\<lambda>r. nk (rr_name r)) ` set plain \<and>
    (\<forall>i < length nsecs. \<exists>types.
      rr_data (nsecs ! i) = Some (RD_NSEC (if i + 1 < length nsecs then rr_name (nsecs ! (i + 1)) else zn_origin_name z) types) \<and>
      set types = {RT_NSEC, RT_RRSIG} \<union> {rr_type r |r. r \<in> set plain \<and> nk (rr_name r) = nk (rr_name (nsecs ! i))})"
  unfolding Let_def by (rule nsec_chain_spec [OF assms(1)])

section \<open>The signatures of a zone\<close>

lemma zone_sigs_iff:
  "zone_sigs env apex inc ex ks cuts rss = Inr sigs \<Longrightarrow>
    set sigs = {sig. \<exists>rs \<in> set rss. \<not> skip_set env apex cuts rs \<and> (\<exists>k \<in> set ks. sign_rrset (sv_crypto env) k rs apex inc ex = Inr sig)} \<and>
    (\<forall>rs \<in> set rss. \<not> skip_set env apex cuts rs \<longrightarrow> (\<forall>k \<in> set ks. \<exists>sig. sign_rrset (sv_crypto env) k rs apex inc ex = Inr sig))"
proof (induction rss arbitrary: sigs)
  case (Cons rs rss)
  have one: "sign_with cy apex inc ex rs ks = Inr sigs \<Longrightarrow>
      set sigs = {sig. \<exists>k \<in> set ks. sign_rrset cy k rs apex inc ex = Inr sig} \<and> (\<forall>k \<in> set ks. \<exists>sig. sign_rrset cy k rs apex inc ex = Inr sig)"
    for cy and ks :: "'a dns_key list" and sigs
    by (induction ks arbitrary: sigs) auto
  show ?case
  proof (cases "skip_set env apex cuts rs")
    case True
    with Cons show ?thesis by auto
  next
    case False
    with Cons.prems obtain s1 s2 where s: "sign_with (sv_crypto env) apex inc ex rs ks = Inr s1" "zone_sigs env apex inc ex ks cuts rss = Inr s2"
      "sigs = s1 @ s2" by auto
    from one [OF s(1)] Cons.IH [OF s(2)] False s(3) show ?thesis by auto
  qed
qed simp

definition tiny_env :: "unit sign_env" where
  "tiny_env = \<lparr>sv_crypto = toy_crypto\<lparr>cy_rrsig := \<lambda>_ _ _ _ _ _ _ _ b. b\<rparr>, sv_name_key = (\<lambda>n. rev (split_char (CHR ''.'') n)),
     sv_code = (\<lambda>t. if t = RT_A then 1 else if t = RT_SOA then 6 else if t = RT_RRSIG then 46 else if t = RT_NSEC then 47 else 48),
     sv_zone_of = (\<lambda>d n. ends_with n (CHR ''.'' # d)), sv_show_rr = (\<lambda>_. []), sv_read = Inr, sv_parse = (\<lambda>_ _ _. Inl []), sv_now = 100000,
     sv_rfc3339 = [], sv_mkdir = (\<lambda>_. Inr ()), sv_write = (\<lambda>_ _. Inr ()), sv_rename = (\<lambda>_ _. Inr ())\<rparr>"

definition tiny_zone :: zone where
  "tiny_zone = \<lparr>zn_origin = ''a.'', zn_origin_name = ''a.'', zn_names =
       [(''a.'', \<lparr>nd_rrsets = [(RT_SOA, [soa_of_a])], nd_rrsigs = []\<rparr>),
        (''b.a.'', \<lparr>nd_rrsets = [(RT_A, [from_rdata ''b.a.'' 60 (RD_A [192, 0, 2, 1])])], nd_rrsigs = []\<rparr>)],
     zn_nodes = {''a.'', ''b.a.''}, zn_nsec_chain = [], zn_nsec3 = None, zn_serial = 1, zn_signed = False, zn_path = None\<rparr>"

theorem sign_nsec_chain_witness:
  "\<exists>serial ttl recs. sign_records tiny_env (dn_keys toy_dnssec) tiny_zone = Inr (serial, ttl, recs) \<and>
     map rr_name (filter (\<lambda>r. rr_type r = RT_NSEC) recs) = [''a.'', ''b.a.''] \<and>
     sorted_wrt (<) (map (\<lambda>r. sv_name_key tiny_env (rr_name r)) (filter (\<lambda>r. rr_type r = RT_NSEC) recs))"
proof -
  have "(case sign_records tiny_env (dn_keys toy_dnssec) tiny_zone of
      Inr (serial, ttl, recs) \<Rightarrow> map rr_name (filter (\<lambda>r. rr_type r = RT_NSEC) recs) = [''a.'', ''b.a.''] | Inl _ \<Rightarrow> False)"
    by code_simp
  then obtain serial ttl recs where r: "sign_records tiny_env (dn_keys toy_dnssec) tiny_zone = Inr (serial, ttl, recs)"
    "map rr_name (filter (\<lambda>r. rr_type r = RT_NSEC) recs) = [''a.'', ''b.a.'']"
    by (cases "sign_records tiny_env (dn_keys toy_dnssec) tiny_zone") auto
  have "\<forall>n. owns tiny_zone n RT_NS \<longrightarrow> n = zn_origin tiny_zone" by (simp add: owns_def tiny_zone_def nd_has_def)
  from sign_nsec_chain [OF r(1) this, unfolded Let_def, THEN conjunct1] r show ?thesis by (intro exI conjI)
qed

end
