(* ===== verification/Etcd.thy ===== *)
theory Etcd
  imports Kubernetes
begin

text \<open>
  The \<open>etcd\<close> plugin, \<open>src/plugins/etcd.rs\<close>: records kept as services under keys of an etcd store, a key being the labels of a
  name in reverse order.

  The client of etcd, the decoding of a service from JSON, the hash of a key, names of \<open>hickory_proto\<close>, the self
  look-up, the clock and the files of the setup are arguments.

  Shown here: which services a name has in terms of the labels of their keys; the handler keeps the id and the
  setup only appends.
\<close>

section \<open>Services and keys\<close>

record eservice =
  es_host :: string
  es_port :: u16
  es_priority :: u16
  es_weight :: u16
  es_text :: string
  es_mail :: bool
  es_ttl :: u32
  es_targetstrip :: nat
  es_group :: string
  es_key :: string

record 'o etcd =
  et_zones :: "string list"
  et_path :: string
  et_endpoints :: "string list"
  et_options :: 'o
  et_fallthrough :: "string list option"

text \<open>
  \<open>ee_cached\<close> and \<open>ee_cache\<close> are the client behind the lock; \<open>ee_get\<close> asks for a key or, with the flag, for all
  keys that start with it, and gives keys and values; \<open>ee_hash\<close> is the default hasher on a key.
\<close>

record ('o, 'c, 's) etcd_env =
  ee_cached :: "'s \<Rightarrow> 'c option"
  ee_cache :: "'c \<Rightarrow> 's \<Rightarrow> 's"
  ee_connect :: "string list \<Rightarrow> 'o \<Rightarrow> 's \<Rightarrow> 'c res \<times> 's"
  ee_get :: "'c \<Rightarrow> string \<Rightarrow> bool \<Rightarrow> 's \<Rightarrow> (string \<times> u8 list) list res \<times> 's"
  ee_json :: "u8 list \<Rightarrow> eservice res"
  ee_hash :: "string \<Rightarrow> 64 word"
  ee_from_ascii :: "string \<Rightarrow> dname res"
  ee_append :: "dname \<Rightarrow> dname \<Rightarrow> dname res"
  ee_num_labels :: "dname \<Rightarrow> u8"
  ee_trim_to :: "dname \<Rightarrow> nat \<Rightarrow> dname"
  ee_timestamp :: "'s \<Rightarrow> int"
  ee_self_lookup :: "request \<Rightarrow> dname \<Rightarrow> rtype \<Rightarrow> 's \<Rightarrow> message res \<times> 's"

definition es_ip :: "eservice \<Rightarrow> ip_addr option" where
  "es_ip v = parse_ip (es_host v)"

definition es_ttl_or :: "eservice \<Rightarrow> u32" where
  "es_ttl_or v = (if es_ttl v = 0 then 300 else es_ttl v)"

definition es_priority_or :: "eservice \<Rightarrow> u16" where
  "es_priority_or v = (if es_priority v = 0 then 10 else es_priority v)"

definition target_name :: "('o, 'c, 's) etcd_env \<Rightarrow> eservice \<Rightarrow> dname \<Rightarrow> dname" where
  "target_name env v qn =
     (case rbind (ee_from_ascii env (show_hex (unat (ee_hash env (es_key v))))) (\<lambda>n. ee_append env n qn) of Inr n \<Rightarrow> n | Inl _ \<Rightarrow> qn)"

definition key_labels :: "string \<Rightarrow> string list" where
  "key_labels name = rev (filter (\<lambda>l. l \<noteq> []) (split_char (CHR ''.'') (trim_end_matches (CHR ''.'') name)))"

definition key_for :: "string \<Rightarrow> string \<Rightarrow> string" where
  "key_for path name =
     trim_end_matches (CHR 0x2F) path @ concat (map (\<lambda>l. CHR 0x2F # (if l = ''*'' \<or> l = ''any'' then ''*'' else l)) (key_labels name))"

definition etcd_client :: "('o, 'c, 's) etcd_env \<Rightarrow> 'o etcd \<Rightarrow> 's \<Rightarrow> 'c res \<times> 's" where
  "etcd_client env e s =
     (case ee_cached env s of
        Some c \<Rightarrow> (Inr c, s)
      | None \<Rightarrow>
          (case ee_connect env (et_endpoints e) (et_options e) s of
             (Inl er, s1) \<Rightarrow> (Inl (''connecting to etcd: '' @ er), s1)
           | (Inr c, s1) \<Rightarrow> (Inr c, ee_cache env c s1)))"

text \<open>The prefix to ask for and, for a key with asterisks, the pattern its keys are to fit.\<close>

definition key_query :: "string \<Rightarrow> bool \<Rightarrow> string \<times> string list option" where
  "key_query key exact =
     (case find_sub [CHR 0x2F, CHR ''*''] key of
        Some i \<Rightarrow> (take (i + 1) key, Some (split_char (CHR 0x2F) key))
      | None \<Rightarrow> (if exact then key else key @ [CHR 0x2F], None))"

definition key_fits :: "string \<Rightarrow> bool \<Rightarrow> string list option \<Rightarrow> string \<Rightarrow> bool" where
  "key_fits key exact pat k =
     ((exact \<and> pat = None \<longrightarrow> k = key) \<and>
      (case pat of
         None \<Rightarrow> True
       | Some p \<Rightarrow>
           (let parts = split_char (CHR 0x2F) k in
            length p \<le> length parts \<and> list_all2 (\<lambda>x y. x = ''*'' \<or> y = x) p (take (length p) parts))))"

definition decode_kv :: "('o, 'c, 's) etcd_env \<Rightarrow> string \<times> u8 list \<Rightarrow> eservice option" where
  "decode_kv env kv = (case kv of (k, v) \<Rightarrow> map_option (\<lambda>x. x\<lparr>es_key := k\<rparr>) (ok (ee_json env v)))"

definition fetch :: "('o, 'c, 's) etcd_env \<Rightarrow> 'c \<Rightarrow> string \<Rightarrow> bool \<Rightarrow> 's \<Rightarrow> (string \<times> u8 list) list res \<times> 's" where
  "fetch env c key below s =
     (case ee_get env c key below s of
        (Inl er, s1) \<Rightarrow> (Inl (''etcd get '' @ key @ '': '' @ er), s1)
      | (Inr kvs, s1) \<Rightarrow> (Inr kvs, s1))"

definition etcd_records :: "('o, 'c, 's) etcd_env \<Rightarrow> 'o etcd \<Rightarrow> string \<Rightarrow> bool \<Rightarrow> 's \<Rightarrow> eservice list res \<times> 's" where
  "etcd_records env e name exact s =
     (let key = key_for (et_path e) name in
      case etcd_client env e s of
        (Inl er, s1) \<Rightarrow> (Inl er, s1)
      | (Inr c, s1) \<Rightarrow>
          (case key_query key exact of (pre, pat) \<Rightarrow>
             (case fetch env c pre True s1 of
                (Inl er, s2) \<Rightarrow> (Inl er, s2)
              | (Inr kvs, s2) \<Rightarrow>
                  (let out = List.map_filter (decode_kv env) (filter (\<lambda>kv. key_fits key exact pat (fst kv)) kvs) in
                   if \<not> exact \<and> out = [] then
                     (case fetch env c key False s2 of
                        (Inl er, s3) \<Rightarrow> (Inl er, s3)
                      | (Inr kvs, s3) \<Rightarrow> (Inr (List.map_filter (decode_kv env) kvs), s3))
                   else (Inr out, s2)))))"

section \<open>Answers\<close>

definition etcd_soa :: "('o, 'c, 's) etcd_env \<Rightarrow> string \<Rightarrow> 's \<Rightarrow> rr" where
  "etcd_soa env zone s =
     (let z = (case ee_from_ascii env zone of Inr n \<Rightarrow> n | Inl _ \<Rightarrow> ''.'');
          under = (\<lambda>ls. case ee_from_ascii env (join ls zone) of Inr n \<Rightarrow> n | Inl _ \<Rightarrow> z) in
      from_rdata z 300 (RD_SOA \<lparr>soa_mname = under [''ns'', ''dns''], soa_rname = under [''hostmaster''],
        soa_serial = word_of_int (ee_timestamp env s), soa_refresh = 7200, soa_retry = 1800, soa_expire = 86400, soa_minimum = 30\<rparr>))"

definition host_name :: "('o, 'c, 's) etcd_env \<Rightarrow> eservice \<Rightarrow> dname res" where
  "host_name env v = ee_from_ascii env (fqdn (es_host v))"

definition ns_answer :: "('o, 'c, 's) etcd_env \<Rightarrow> string \<Rightarrow> dname \<Rightarrow> message \<Rightarrow> eservice \<Rightarrow> message" where
  "ns_answer env zone name m v =
     (case es_ip v of
        Some ip \<Rightarrow>
          (let target = target_name env v (case ee_from_ascii env (join [''ns'', ''dns''] zone) of Inr n \<Rightarrow> n | Inl _ \<Rightarrow> name) in
           add_additional (from_rdata target (es_ttl_or v) (addr_data ip)) (add_answer (from_rdata name (es_ttl_or v) (RD_NS target)) m))
      | None \<Rightarrow> (case host_name env v of Inr t \<Rightarrow> add_answer (from_rdata name (es_ttl_or v) (RD_NS t)) m | Inl _ \<Rightarrow> m))"

definition or_soa :: "rr \<Rightarrow> message \<Rightarrow> message" where
  "or_soa soa m = (if m_answers m = [] then add_name_server soa m else m)"

definition etcd_apex :: "('o, 'c, 's) etcd_env \<Rightarrow> 'o etcd \<Rightarrow> request \<Rightarrow> string \<Rightarrow> message \<Rightarrow> 's \<Rightarrow> message res \<times> 's" where
  "etcd_apex env e req zone m s =
     (if qtype req = RT_SOA \<or> qtype req = RT_ANY then (Inr (add_answer (etcd_soa env zone s) m), s)
      else if qtype req = RT_NS then
        (case etcd_records env e (join [''ns'', ''dns''] zone) False s of
           (Inl er, s1) \<Rightarrow> (Inl er, s1)
         | (Inr ns, s1) \<Rightarrow> (Inr (or_soa (etcd_soa env zone s1) (foldl (ns_answer env zone (qname req)) m ns)), s1))
      else (Inr (add_name_server (etcd_soa env zone s) m), s))"

text \<open>The answers of one service, by the type that was asked for; an error or a panic ends the query.\<close>

definition address_answer :: "('o, 'c, 's) etcd_env \<Rightarrow> request \<Rightarrow> message \<Rightarrow> eservice \<Rightarrow> 's \<Rightarrow> message res \<times> 's" where
  "address_answer env req m v s =
     (case es_ip v of
        Some ip \<Rightarrow> (Inr (case addr_record (es_ttl_or v) (qname req) (qtype req) ip of Some r \<Rightarrow> add_answer r m | None \<Rightarrow> m), s)
      | None \<Rightarrow>
          if es_host v = [] then (Inr m, s)
          else (case host_name env v of
              Inl e \<Rightarrow> (Inl e, s)
            | Inr t \<Rightarrow>
                (let m1 = add_answer (from_rdata (qname req) (es_ttl_or v) (RD_CNAME t)) m in
                 if qtype req = RT_ANY then (Inr m1, s)
                 else (case ee_self_lookup env req t (qtype req) s of
                     (Inl _, s1) \<Rightarrow> (Inr m1, s1)
                   | (Inr r, s1) \<Rightarrow> (Inr (foldl (\<lambda>m x. add_answer x m) m1 (m_answers r)), s1)))))"

fun address_answers :: "('o, 'c, 's) etcd_env \<Rightarrow> request \<Rightarrow> message \<Rightarrow> eservice list \<Rightarrow> 's \<Rightarrow> message res \<times> 's" where
  "address_answers env req m [] s = (Inr m, s)"
| "address_answers env req m (v # vs) s =
     (case address_answer env req m v s of
        (Inl e, s1) \<Rightarrow> (Inl e, s1)
      | (Inr m1, s1) \<Rightarrow> address_answers env req m1 vs s1)"

fun pure_answers :: "(message \<Rightarrow> eservice \<Rightarrow> fault + message) \<Rightarrow> message \<Rightarrow> eservice list \<Rightarrow> fault + message" where
  "pure_answers f m [] = Inr m"
| "pure_answers f m (v # vs) = rbind (f m v) (\<lambda>m1. pure_answers f m1 vs)"

definition named_host :: "('o, 'c, 's) etcd_env \<Rightarrow> eservice \<Rightarrow> fault + dname" where
  "named_host env v = (case host_name env v of Inl e \<Rightarrow> Inl (Fault e) | Inr n \<Rightarrow> Inr n)"

definition host_answer :: "('o, 'c, 's) etcd_env \<Rightarrow> request \<Rightarrow> (dname \<Rightarrow> rdata) \<Rightarrow> message \<Rightarrow> eservice \<Rightarrow> fault + message" where
  "host_answer env req mk m v = rbind (named_host env v) (\<lambda>t. Inr (add_answer (from_rdata (qname req) (es_ttl_or v) (mk t)) m))"

definition strip_target :: "('o, 'c, 's) etcd_env \<Rightarrow> nat \<Rightarrow> dname \<Rightarrow> dname" where
  "strip_target env n t =
     (if n > 0 then ee_trim_to env t (unat (ee_num_labels env t) - unat (of_nat n :: u8)) else t)"

definition srv_answer :: "('o, 'c, 's) etcd_env \<Rightarrow> request \<Rightarrow> u16 \<Rightarrow> message \<Rightarrow> eservice \<Rightarrow> fault + message" where
  "srv_answer env req n m v =
     (let name = qname req in
      rbind (case es_ip v of
          Some ip \<Rightarrow> (let t = target_name env v name in Inr (t, [from_rdata t (es_ttl_or v) (addr_data ip)]))
        | None \<Rightarrow> rbind (named_host env v) (\<lambda>t. Inr (strip_target env (es_targetstrip v) t, []))) (\<lambda>(target, extra).
        if es_weight v = 0 \<and> n = 0 then Inl (Panic ''attempt to divide by zero'')
        else (let weight = (if es_weight v = 0 then 100 div n else es_weight v);
                  m1 = add_answer (from_rdata name (es_ttl_or v) (RD_SRV (es_priority_or v) weight (es_port v) target)) m in
              Inr (foldl (\<lambda>m x. add_additional x m) m1 extra))))"

definition mx_answer :: "('o, 'c, 's) etcd_env \<Rightarrow> request \<Rightarrow> message \<Rightarrow> eservice \<Rightarrow> fault + message" where
  "mx_answer env req m v =
     (let name = qname req; mx = (\<lambda>t. add_answer (from_rdata name (es_ttl_or v) (RD_MX (es_priority_or v) t))) in
      case es_ip v of
        Some ip \<Rightarrow> (let t = target_name env v name in Inr (mx t (add_additional (from_rdata t (es_ttl_or v) (addr_data ip)) m)))
      | None \<Rightarrow> rbind (named_host env v) (\<lambda>t. Inr (mx t m)))"

definition type_answers :: "('o, 'c, 's) etcd_env \<Rightarrow> request \<Rightarrow> eservice list \<Rightarrow> message \<Rightarrow> fault + message" where
  "type_answers env req vs m =
     (let qt = qtype req in
      if qt = RT_CNAME then pure_answers (host_answer env req RD_CNAME) m (filter (\<lambda>v. es_ip v = None \<and> es_host v \<noteq> []) vs)
      else if qt = RT_SRV then pure_answers (srv_answer env req (of_nat (max (length vs) 1))) m vs
      else if qt = RT_MX then pure_answers (mx_answer env req) m (filter es_mail vs)
      else if qt = RT_TXT then
        Inr (foldl (\<lambda>m v. add_answer (from_rdata (qname req) (es_ttl_or v) (RD_TXT [es_text v])) m) m (filter (\<lambda>v. es_text v \<noteq> []) vs))
      else if qt = RT_PTR then pure_answers (host_answer env req RD_PTR) m (filter (\<lambda>v. es_host v \<noteq> []) vs)
      else Inr m)"

text \<open>\<open>Etcd::serve\<close>: no message when the name has no services.\<close>

definition etcd_answer :: "('o, 'c, 's) etcd_env \<Rightarrow> 'o etcd \<Rightarrow> request \<Rightarrow> string \<Rightarrow> string \<Rightarrow> 's \<Rightarrow> (fault + message option) \<times> 's" where
  "etcd_answer env e req name zone s =
     (let m = (new_reply req)\<lparr>m_authoritative := True\<rparr> in
      if name = zone then
        (case etcd_apex env e req zone m s of (Inl er, s1) \<Rightarrow> (Inl (Fault er), s1) | (Inr m1, s1) \<Rightarrow> (Inr (Some m1), s1))
      else (case etcd_records env e name False s of
          (Inl er, s1) \<Rightarrow> (Inl (Fault er), s1)
        | (Inr vs, s1) \<Rightarrow>
            if vs = [] then (Inr None, s1)
            else if qtype req \<in> {RT_A, RT_AAAA, RT_ANY} then
              (case address_answers env req m vs s1 of
                 (Inl er, s2) \<Rightarrow> (Inl (Fault er), s2)
               | (Inr m1, s2) \<Rightarrow> (Inr (Some (or_soa (etcd_soa env zone s2) m1)), s2))
            else (case type_answers env req vs m of
                Inl f \<Rightarrow> (Inl f, s1)
              | Inr m1 \<Rightarrow> (Inr (Some (or_soa (etcd_soa env zone s1) m1)), s1))))"

definition etcd_serve :: "('o, 'c, 's) etcd_env \<Rightarrow> 'o etcd \<Rightarrow> 's handler" where
  "etcd_serve env e req nx s =
     (case req_name req of (name, req1) \<Rightarrow>
        (case zones_match (et_zones e) name of
           None \<Rightarrow> nx_serve nx req1 s
         | Some zone \<Rightarrow>
             (case etcd_answer env e req1 name zone s of
                (Inr (Some m), s1) \<Rightarrow> (Replied (RMsg m), req1, s1)
              | (Inr None, s1) \<Rightarrow>
                  (case Option.bind (et_fallthrough e) (\<lambda>ft. zones_match ft name) of
                     Some _ \<Rightarrow> nx_serve nx req1 s1
                   | None \<Rightarrow>
                       (Replied (RMsg (add_name_server (etcd_soa env zone s1) ((new_reply req1)\<lparr>m_authoritative := True, m_rcode := NXDomain\<rparr>))),
                        req1, s1))
              | (Inl (Fault er), s1) \<Rightarrow> (Failed (plugin_error_new ''etcd'' er), req1, s1)
              | (Inl (Panic er), s1) \<Rightarrow> (Panicked er, req1, s1))))"

section \<open>Setup\<close>

text \<open>Connection options and TLS options of \<open>etcd_client\<close>; \<open>eq_read\<close> reads a file of keys or certificates.\<close>

record ('o, 't, 'net) etcd_parse =
  eq_new :: 'o
  eq_with_user :: "string \<Rightarrow> string \<Rightarrow> 'o \<Rightarrow> 'o"
  eq_with_tls :: "'t \<Rightarrow> 'o \<Rightarrow> 'o"
  eq_tls :: 't
  eq_ca :: "u8 list \<Rightarrow> 't \<Rightarrow> 't"
  eq_identity :: "u8 list \<Rightarrow> u8 list \<Rightarrow> 't \<Rightarrow> 't"
  eq_read :: "string \<Rightarrow> u8 list res"
  eq_from_ascii :: "string \<Rightarrow> dname res"
  eq_api :: "'net ipnet_api"

definition etcd_tls :: "('o, 't, 'net) etcd_parse \<Rightarrow> string \<Rightarrow> (string \<Rightarrow> err) \<Rightarrow> err \<Rightarrow> string list \<Rightarrow> 't res" where
  "etcd_tls ps root ef arg_e a =
     (let rd = (\<lambda>p. case eq_read ps (path_join root p) of Inl e \<Rightarrow> Inl (ef e) | Inr b \<Rightarrow> Inr b) in
      case a of
        [] \<Rightarrow> Inr (eq_tls ps)
      | [ca] \<Rightarrow> rbind (rd ca) (\<lambda>b. Inr (eq_ca ps b (eq_tls ps)))
      | cert # key # rest \<Rightarrow>
          if length rest > 1 then Inl arg_e
          else rbind (rd cert) (\<lambda>b1. rbind (rd key) (\<lambda>b2.
                 let t = eq_identity ps b1 b2 (eq_tls ps) in
                 (case rest of ca # _ \<Rightarrow> rbind (rd ca) (\<lambda>b. Inr (eq_ca ps b t)) | [] \<Rightarrow> Inr t))))"

definition etcd_line ::
    "('o, 't, 'net) etcd_parse \<Rightarrow> string \<Rightarrow> (string \<Rightarrow> err) \<Rightarrow> err \<Rightarrow> string \<Rightarrow> string list \<Rightarrow> 'o etcd \<Rightarrow> 'o etcd res" where
  "etcd_line ps root ef arg_e v a e =
     (if v = ''path'' then (if length a \<noteq> 1 then Inl arg_e else Inr (e\<lparr>et_path := hd a\<rparr>))
      else if v = ''endpoint'' then (if a = [] then Inl arg_e else Inr (e\<lparr>et_endpoints := a\<rparr>))
      else if v = ''credentials'' then
        (if length a \<noteq> 2 then Inl (ef ''credentials requires 2 arguments'')
         else Inr (e\<lparr>et_options := eq_with_user ps (a ! 0) (a ! 1) (et_options e)\<rparr>))
      else if v = ''tls'' then rbind (etcd_tls ps root ef arg_e a) (\<lambda>t. Inr (e\<lparr>et_options := eq_with_tls ps t (et_options e)\<rparr>))
      else if v = ''fallthrough'' then
        rbind (if a = [] then Inr [''.''] else normalize_zones (eq_from_ascii ps) (eq_api ps) a) (\<lambda>z. Inr (e\<lparr>et_fallthrough := Some z\<rparr>))
      else if v = ''upstream'' \<or> v = ''stubzones'' then Inr e
      else Inl (ef (''unknown property '' @ quote v)))"

definition etcd_property :: "('o, 't, 'net) etcd_parse \<Rightarrow> string \<Rightarrow> 'o etcd \<Rightarrow> 's controller \<Rightarrow> 'o etcd res \<times> 's controller" where
  "etcd_property ps root =
     line_property (\<lambda>v. v \<in> {''path'', ''endpoint'', ''credentials'', ''tls'', ''fallthrough'', ''upstream'', ''stubzones''}) (etcd_line ps root)"

definition etcd_body :: "('o, 't, 'net) etcd_parse \<Rightarrow> ('o, 'c, 's) etcd_env \<Rightarrow> 's setup_fn" where
  "etcd_body ps env c =
     (case ctl_disp remaining_args_until_brace c of (as, c1) \<Rightarrow>
        (case controller_origins (eq_from_ascii ps) (eq_api ps) c1 as of
           Inl e \<Rightarrow> (Inl e, c1)
         | Inr zones \<Rightarrow>
             (case block_loop (etcd_property ps (sc_root (ct_config c1))) \<lparr>et_zones = zones, et_path = [CHR 0x2F] @ ''skydns'',
                     et_endpoints = [''http:'' @ [CHR 0x2F, CHR 0x2F] @ ''localhost:2379''], et_options = eq_new ps, et_fallthrough = None\<rparr> c1 of
                (Inl e, c2) \<Rightarrow> (Inl e, c2)
              | (Inr e, c2) \<Rightarrow> (Inr (), add_plugin (''etcd'', etcd_serve env e) c2))))"

definition etcd_setup :: "('o, 't, 'net) etcd_parse \<Rightarrow> ('o, 'c, 's) etcd_env \<Rightarrow> 's setup_fn" where
  "etcd_setup ps env = single_setup ''etcd'' (etcd_body ps env)"

section \<open>Contracts\<close>

lemma etcd_added [simp]:
  "m_id (add_answer r m) = m_id m" "m_id (add_additional r m) = m_id m" "m_id (add_name_server r m) = m_id m"
  "m_id (foldl (\<lambda>m r. add_answer r m) m rs) = m_id m" "m_id (foldl (\<lambda>m r. add_additional r m) m rs) = m_id m"
proof -
  show add: "m_id (add_answer r m) = m_id m" "m_id (add_additional r m) = m_id m" "m_id (add_name_server r m) = m_id m" for m r
    by (simp_all add: message_defs)
  show "m_id (foldl (\<lambda>m r. add_answer r m) m rs) = m_id m" "m_id (foldl (\<lambda>m r. add_additional r m) m rs) = m_id m"
    by (induction rs arbitrary: m) (simp_all add: add)
qed

lemma or_soa_id [simp]: "m_id (or_soa soa m) = m_id m"
  by (simp add: or_soa_def)

lemma etcd_apex_id:
  assumes "etcd_apex env e req zone m s = (Inr m', s')"
  shows "m_id m' = m_id m"
proof -
  have "m_id (foldl (ns_answer env zone n) m vs) = m_id m" for n vs
    by (induction vs arbitrary: m) (simp_all add: ns_answer_def Let_def split: option.split sum.split)
  with assms show ?thesis by (auto simp: etcd_apex_def split: if_splits prod.splits sum.splits)
qed

lemma address_answers_id: "address_answers env req m vs s = (Inr m', s') \<Longrightarrow> m_id m' = m_id m"
proof (induction vs arbitrary: m s)
  case (Cons v vs)
  have step: "address_answer env req m v s = (Inr m1, s1) \<Longrightarrow> m_id m1 = m_id m" for m1 s1
    by (auto simp: address_answer_def Let_def split: option.splits if_splits sum.splits prod.splits)
  from Cons.prems obtain m1 s1 where m1: "address_answer env req m v s = (Inr m1, s1)" "address_answers env req m1 vs s1 = (Inr m', s')"
    by (auto split: prod.splits sum.splits)
  from Cons.IH [OF m1(2)] step [OF m1(1)] show ?case by simp
qed simp

lemma pure_answers_id:
  assumes "\<And>m v m1. f m v = Inr m1 \<Longrightarrow> m_id m1 = m_id m"
  shows "pure_answers f m vs = Inr m' \<Longrightarrow> m_id m' = m_id m"
proof (induction vs arbitrary: m)
  case (Cons v vs)
  from Cons.prems obtain m1 where m1: "f m v = Inr m1" "pure_answers f m1 vs = Inr m'" by auto
  from Cons.IH [OF m1(2)] assms [OF m1(1)] show ?case by simp
qed simp

lemma type_answers_id:
  assumes "type_answers env req vs m = Inr m'"
  shows "m_id m' = m_id m"
proof -
  have "m_id (foldl (\<lambda>m v. add_answer (g v) m) m vs) = m_id m" for g and vs :: "eservice list"
    by (induction vs arbitrary: m) simp_all
  moreover have steps: "host_answer env req mk m v = Inr m1 \<Longrightarrow> m_id m1 = m_id m" "mx_answer env req m v = Inr m1 \<Longrightarrow> m_id m1 = m_id m"
    "srv_answer env req n m v = Inr m1 \<Longrightarrow> m_id m1 = m_id m" for mk m v m1 n
    by (auto simp: host_answer_def mx_answer_def srv_answer_def Let_def split: option.splits if_splits)
  note pure = pure_answers_id [OF steps(1)] pure_answers_id [OF steps(2)] pure_answers_id [OF steps(3)]
  ultimately show ?thesis
    using assms unfolding type_answers_def Let_def by (auto split: if_split_asm dest: pure)
qed

lemma etcd_answer_id: "etcd_answer env e req name zone s = (Inr (Some m), s') \<Longrightarrow> m_id m = m_id (rq_msg req)"
  by (auto simp: etcd_answer_def Let_def split: if_splits prod.splits sum.splits
      dest!: etcd_apex_id address_answers_id type_answers_id)

lemma etcd_keeps_id:
  assumes nx: "keeps_id (nx_serve nx)"
  shows "keeps_id (\<lambda>req s. etcd_serve env e req nx s)"
proof -
  have named: "keeps_id (\<lambda>req s. nx_serve nx (snd (req_name req)) s)" by (rule keeps_id_same [OF nx]) simp
  then show ?thesis
    by (auto simp: keeps_id_def etcd_serve_def case_prod_beta [of _ "req_name _"] dest!: etcd_answer_id
        split: option.splits prod.splits sum.splits fault.splits)
qed

interpretation etcd_handler: id_keeping_handler "etcd_serve env e"
  by unfold_locales (rule etcd_keeps_id)

interpretation etcd_block: block_property "etcd_property ps root"
  unfolding etcd_property_def by (rule line_property_block) (simp add: etcd_line_def is_ok_def)

lemma etcd_body_appends: "etcd_body ps env c = (r, c') \<Longrightarrow> appends_plugins c c'"
proof -
  assume run: "etcd_body ps env c = (r, c')"
  obtain as c1 where a: "ctl_disp remaining_args_until_brace c = (as, c1)"
    by (cases "ctl_disp remaining_args_until_brace c")
  note st = args_block_steps [OF a etcd_block.block_property_axioms]
  show ?thesis
    using run a appends_disp [OF a]
    by (auto simp: etcd_body_def split: sum.splits prod.splits dest: st(2) intro!: appends_steps)
qed

interpretation etcd_setup: setup_function "etcd_setup ps env"
  unfolding etcd_setup_def by (rule single_setup_function [OF etcd_body_appends])

section \<open>The services of a name\<close>

text \<open>A key as its labels below the path.\<close>

definition key_text :: "string \<Rightarrow> string list \<Rightarrow> string" where
  "key_text base ls = base @ concat (map (\<lambda>l. CHR 0x2F # l) ls)"

abbreviation no_slash :: "string list \<Rightarrow> bool" where
  "no_slash ls \<equiv> \<forall>l \<in> set ls. CHR 0x2F \<notin> set l"

lemma segment_cut:
  assumes "CHR 0x2F \<notin> set k" "CHR 0x2F \<notin> set l" "k @ r1 = l @ CHR 0x2F # r2" "r1 = [] \<or> hd r1 = CHR 0x2F"
  shows "k = l \<and> r1 = CHR 0x2F # r2"
proof -
  let ?p = "\<lambda>c. c \<noteq> CHR 0x2F"
  have "r1 \<noteq> []" using assms(1,3) by (metis append_Nil2 in_set_conv_decomp)
  then have "takeWhile ?p (k @ r1) = k" using assms(1,4) by (cases r1) (auto simp: takeWhile_append)
  moreover have "takeWhile ?p (l @ CHR 0x2F # r2) = l" using assms(2) by (auto simp: takeWhile_append)
  ultimately have "k = l" using assms(3) by simp
  with assms(3) show ?thesis by simp
qed

lemma segments_start: "concat (map (\<lambda>l. CHR 0x2F # l) ls) = [] \<or> hd (concat (map (\<lambda>l. CHR 0x2F # l) ls)) = CHR 0x2F"
  by (cases ls) simp_all

lemma segments_below:
  assumes "no_slash ls" "no_slash ks"
  shows "(\<exists>r. concat (map (\<lambda>l. CHR 0x2F # l) ks) = concat (map (\<lambda>l. CHR 0x2F # l) ls) @ CHR 0x2F # r) \<longleftrightarrow>
    (\<exists>more. more \<noteq> [] \<and> ks = ls @ more)"
  using assms
proof (induction ls arbitrary: ks)
  case Nil
  show ?case by (cases ks) simp_all
next
  case (Cons l ls)
  let ?seg = "\<lambda>ls. concat (map (\<lambda>l. CHR 0x2F # l) ls)"
  show ?case
  proof (cases ks)
    case (Cons k ks')
    have hd: "\<exists>r2. ?seg ls @ CHR 0x2F # r = CHR 0x2F # r2" for r by (cases ls) simp_all
    have "(\<exists>r. ?seg (k # ks') = ?seg (l # ls) @ CHR 0x2F # r) \<longleftrightarrow> k = l \<and> (\<exists>r. ?seg ks' = ?seg ls @ CHR 0x2F # r)"
    proof (intro iffI conjI)
      assume "\<exists>r. ?seg (k # ks') = ?seg (l # ls) @ CHR 0x2F # r"
      then obtain r where r: "k @ ?seg ks' = l @ ?seg ls @ CHR 0x2F # r" by auto
      with hd obtain r2 where r2: "?seg ls @ CHR 0x2F # r = CHR 0x2F # r2" "k @ ?seg ks' = l @ CHR 0x2F # r2" by metis
      from Cons.prems \<open>ks = k # ks'\<close> segment_cut [OF _ _ r2(2) segments_start] have "k = l \<and> ?seg ks' = CHR 0x2F # r2" by auto
      with r2(1) show "k = l" "\<exists>r. ?seg ks' = ?seg ls @ CHR 0x2F # r" by metis+
    qed auto
    moreover have "no_slash ls" "no_slash ks'" using Cons.prems \<open>ks = k # ks'\<close> by auto
    ultimately show ?thesis using Cons.IH [of ks'] \<open>ks = k # ks'\<close> by auto
  qed simp
qed

lemma key_below:
  assumes "no_slash ls" "no_slash ks"
  shows "starts_with (key_text base ks) (key_text base ls @ [CHR 0x2F]) \<longleftrightarrow> (\<exists>more. more \<noteq> [] \<and> ks = ls @ more)"
  using segments_below [OF assms] by (simp add: starts_with_iff key_text_def)

lemma key_same:
  assumes "no_slash ls" "no_slash ks"
  shows "key_text base ks = key_text base ls \<longleftrightarrow> ks = ls"
proof
  assume eq: "key_text base ks = key_text base ls"
  have "\<exists>more. more \<noteq> [] \<and> ks @ [[]] = ls @ more"
    using key_below [of ls "ks @ [[]]" base] eq assms by (auto simp: key_text_def starts_with_iff)
  moreover have "\<exists>more. more \<noteq> [] \<and> ls @ [[]] = ks @ more"
    using key_below [of ks "ls @ [[]]" base] eq assms by (auto simp: key_text_def starts_with_iff)
  ultimately show "ks = ls" by (auto simp: append_eq_append_conv2 append_eq_Cons_conv Cons_eq_append_conv)
qed simp

text \<open>A store whose keys are paths of labels: the services of a name without wildcards are those of the keys strictly below the
  name's own, in the order of the store, whatever other names begin with the same letters; only when there are none, those of the key
  itself. Values that do not decode count for nothing.\<close>

lemma etcd_services_spec:
  assumes c: "etcd_client env e s = (Inr c, s1)"
    and store: "\<And>k below. ee_get env c k below s1 =
      (Inr (filter (\<lambda>kv. if below then starts_with (fst kv) k else fst kv = k) (map (\<lambda>(ls, v). (key_text base ls, v)) kvs)), s1)"
    and path: "base = trim_end_matches (CHR 0x2F) (et_path e)"
    and name: "no_slash (key_labels name)" "\<forall>l \<in> set (key_labels name). l \<noteq> ''*'' \<and> l \<noteq> ''any''"
      "find_sub [CHR 0x2F, CHR ''*''] (key_for (et_path e) name) = None"
    and keys: "\<forall>(ls, v) \<in> set kvs. no_slash ls"
  shows "etcd_records env e name False s =
    (let decode = List.map_filter (\<lambda>(ls, v). decode_kv env (key_text base ls, v));
         under = decode (filter (\<lambda>(ls, v). \<exists>more. more \<noteq> [] \<and> ls = key_labels name @ more) kvs) in
     (Inr (if under = [] then decode (filter (\<lambda>(ls, v). ls = key_labels name) kvs) else under), s1))"
proof -
  let ?ls = "key_labels name" and ?txt = "\<lambda>(ls, v). (key_text base ls, v)"
  have key: "key_for (et_path e) name = key_text base ?ls"
    using name(2) by (auto simp: key_for_def key_text_def path intro!: arg_cong [of _ _ concat] map_cong)
  have keyed: "filter (\<lambda>kv. P (fst kv)) (map ?txt kvs) = map ?txt (filter (\<lambda>(ls, v). Q ls) kvs)"
    if "\<And>ls. no_slash ls \<Longrightarrow> P (key_text base ls) = Q ls" for P Q
    unfolding filter_map using keys that by (auto simp: case_prod_beta intro!: arg_cong [of _ _ "map _"] filter_cong)
  have below: "filter (\<lambda>kv. starts_with (fst kv) (key_text base ?ls @ [CHR 0x2F])) (map ?txt kvs) =
      map ?txt (filter (\<lambda>(ls, v). \<exists>more. more \<noteq> [] \<and> ls = ?ls @ more) kvs)"
    by (rule keyed) (rule key_below [OF name(1)])
  have same: "filter (\<lambda>kv. fst kv = key_text base ?ls) (map ?txt kvs) = map ?txt (filter (\<lambda>(ls, v). ls = ?ls) kvs)"
    by (rule keyed) (rule key_same [OF name(1)])
  have decode: "List.map_filter (decode_kv env) (map ?txt xs) = List.map_filter (\<lambda>(ls, v). decode_kv env (key_text base ls, v)) xs" for xs
    by (induction xs) (simp_all add: map_filter_simps case_prod_beta split: option.split)
  have fits: "filter (\<lambda>kv. key_fits k False None (fst kv)) xs = xs" for k and xs :: "(string \<times> u8 list) list"
    by (simp add: key_fits_def)
  show ?thesis
    unfolding etcd_records_def Let_def key c prod.case sum.case key_query_def name(3) [unfolded key] option.case if_False
      fetch_def store if_True below same fits decode by simp
qed

text \<open>C29: A store whose keys are paths of labels without slashes: the services of a name without wildcards, whose labels have no slashes, are
  all services at the name and below, in the order of the store, whatever other names begin with the same letters, provided that not
  both the name itself and names below it have services. Values that do not decode count for nothing. (When both have some, the ones of the
  name itself are left out, see \<open>etcd_services_spec\<close>.)\<close>

theorem etcd_services:
  assumes c: "etcd_client env e s = (Inr c, s1)"
    and store: "\<And>k below. ee_get env c k below s1 =
      (Inr (filter (\<lambda>kv. if below then starts_with (fst kv) k else fst kv = k) (map (\<lambda>(ls, v). (key_text base ls, v)) kvs)), s1)"
    and path: "base = trim_end_matches (CHR 0x2F) (et_path e)"
    and name: "no_slash (key_labels name)" "\<forall>l \<in> set (key_labels name). l \<noteq> ''*'' \<and> l \<noteq> ''any''"
      "find_sub [CHR 0x2F, CHR ''*''] (key_for (et_path e) name) = None"
    and keys: "\<forall>(ls, v) \<in> set kvs. no_slash ls"
    and apart: "(\<forall>v. (key_labels name, v) \<in> set kvs \<longrightarrow> decode_kv env (key_text base (key_labels name), v) = None) \<or>
      (\<forall>more v. more \<noteq> [] \<longrightarrow> (key_labels name @ more, v) \<in> set kvs \<longrightarrow> decode_kv env (key_text base (key_labels name @ more), v) = None)"
  shows "etcd_records env e name False s =
    (Inr (List.map_filter (\<lambda>(ls, v). decode_kv env (key_text base ls, v)) (filter (\<lambda>(ls, v). prefix (key_labels name) ls) kvs)), s1)"
proof -
  let ?d = "\<lambda>(ls, v). decode_kv env (key_text base ls, v)" and ?ls = "key_labels name"
  have drop: "List.map_filter ?d (filter P xs) = List.map_filter ?d (filter Q xs)"
    if "\<forall>x \<in> set xs. P x \<noteq> Q x \<longrightarrow> ?d x = None" for P Q xs
    using that by (induction xs) (auto simp: map_filter_simps split: option.splits)
  have none: "List.map_filter ?d (filter P xs) = []" if "\<forall>x \<in> set xs. P x \<longrightarrow> ?d x = None" for P xs
    using that by (induction xs) (auto simp: map_filter_simps)
  note spec = etcd_services_spec [OF c store path name keys]
  from apart show ?thesis
  proof
    assume "\<forall>v. (?ls, v) \<in> set kvs \<longrightarrow> decode_kv env (key_text base ?ls, v) = None"
    then have "List.map_filter ?d (filter (\<lambda>(ls, v). ls = ?ls) kvs) = []"
      "List.map_filter ?d (filter (\<lambda>(ls, v). \<exists>more. more \<noteq> [] \<and> ls = ?ls @ more) kvs) = List.map_filter ?d (filter (\<lambda>(ls, v). prefix ?ls ls) kvs)"
      by (auto simp: prefix_def intro!: none drop)
    then show ?thesis unfolding spec Let_def by simp
  next
    assume "\<forall>more v. more \<noteq> [] \<longrightarrow> (?ls @ more, v) \<in> set kvs \<longrightarrow> decode_kv env (key_text base (?ls @ more), v) = None"
    then have "List.map_filter ?d (filter (\<lambda>(ls, v). \<exists>more. more \<noteq> [] \<and> ls = ?ls @ more) kvs) = []"
      "List.map_filter ?d (filter (\<lambda>(ls, v). ls = ?ls) kvs) = List.map_filter ?d (filter (\<lambda>(ls, v). prefix ?ls ls) kvs)"
      by (auto simp: prefix_def intro!: none drop)
    then show ?thesis unfolding spec Let_def by simp
  qed
qed

text \<open>A store with two services below a name, one of another name that begins alike, and one value that does not decode.\<close>

definition small_service :: "string \<Rightarrow> eservice" where
  "small_service h = \<lparr>es_host = h, es_port = 80, es_priority = 0, es_weight = 0, es_text = [], es_mail = False, es_ttl = 0, es_targetstrip = 0,
     es_group = [], es_key = []\<rparr>"

definition small_kvs :: "(string list \<times> u8 list) list" where
  "small_kvs = [([''org'', ''ex'', ''a''], [1]), ([''org'', ''ex'', ''b''], [2]), ([''org'', ''example'', ''c''], [3]), ([''org'', ''ex'', ''d''], [])]"

definition small_etcd :: "(unit, unit, unit) etcd_env" where
  "small_etcd = \<lparr>ee_cached = (\<lambda>_. Some ()), ee_cache = (\<lambda>_ s. s), ee_connect = (\<lambda>_ _ s. (Inr (), s)),
     ee_get = (\<lambda>_ k below s. (Inr (filter (\<lambda>kv. if below then starts_with (fst kv) k else fst kv = k)
        (map (\<lambda>(ls, v). (key_text [CHR 0x2F, CHR ''s''] ls, v)) small_kvs)), s)),
     ee_json = (\<lambda>b. case b of [] \<Rightarrow> Inl ''EOF'' | x # _ \<Rightarrow> Inr (small_service (''10.0.0.'' @ show_nat (unat x)))),
     ee_hash = (\<lambda>_. 0), ee_from_ascii = Inr, ee_append = (\<lambda>a b. Inr (a @ b)), ee_num_labels = (\<lambda>_. 0), ee_trim_to = (\<lambda>n _. n),
     ee_timestamp = (\<lambda>_. 0), ee_self_lookup = (\<lambda>_ _ _ s. (Inl [], s))\<rparr>"

definition small_plugin :: "unit etcd" where
  "small_plugin = \<lparr>et_zones = [''org.''], et_path = [CHR 0x2F, CHR ''s'', CHR 0x2F], et_endpoints = [], et_options = (), et_fallthrough = None\<rparr>"

theorem etcd_services_witness:
  "\<exists>vs. etcd_records small_etcd small_plugin ''ex.org.'' False () = (Inr vs, ()) \<and> map es_host vs = [''10.0.0.1'', ''10.0.0.2'']"
proof -
  let ?base = "[CHR 0x2F, CHR ''s'']"
  have c: "etcd_client small_etcd small_plugin () = (Inr (), ())" by (simp add: etcd_client_def small_etcd_def)
  have store: "\<And>k below. ee_get small_etcd () k below () =
      (Inr (filter (\<lambda>kv. if below then starts_with (fst kv) k else fst kv = k) (map (\<lambda>(ls, v). (key_text ?base ls, v)) small_kvs)), ())"
    by (simp add: small_etcd_def)
  have path: "?base = trim_end_matches (CHR 0x2F) (et_path small_plugin)" by code_simp
  have ls: "key_labels ''ex.org.'' = [''org'', ''ex'']" by code_simp
  have star: "find_sub [CHR 0x2F, CHR ''*''] (key_for (et_path small_plugin) ''ex.org.'') = None" by code_simp
  have keys: "\<forall>(ls, v) \<in> set small_kvs. no_slash ls" by (simp add: small_kvs_def)
  have apart: "\<forall>v. ([''org'', ''ex''], v) \<in> set small_kvs \<longrightarrow> decode_kv small_etcd (key_text ?base [''org'', ''ex''], v) = None" by (simp add: small_kvs_def)
  have under: "filter (\<lambda>(ls, v). prefix [''org'', ''ex''] ls) small_kvs =
      [([''org'', ''ex'', ''a''], [1]), ([''org'', ''ex'', ''b''], [2]), ([''org'', ''ex'', ''d''], [])]"
    by (simp add: small_kvs_def)
  have dec: "map es_host (List.map_filter (\<lambda>(ls, v). decode_kv small_etcd (key_text ?base ls, v))
      [([''org'', ''ex'', ''a''], [1]), ([''org'', ''ex'', ''b''], [2]), ([''org'', ''ex'', ''d''], [])]) = [''10.0.0.1'', ''10.0.0.2'']"
    by code_simp
  from etcd_services [OF c store path _ _ star keys, unfolded ls, OF _ _ disjI1 [OF apart], unfolded under] dec show ?thesis by simp
qed

end
