(* ===== verification/Cloud.thy ===== *)
theory Cloud
  imports Zone_Transfer
begin

text \<open>
  The machinery shared by the cloud back ends, \<open>src/plugins/cloud.rs\<close>, and one of them, \<open>src/plugins/route53.rs\<close>: hosted zones fetched as
  text at intervals, parsed and served like files.

  A round of fetching is a function from the provider's zone id to the text or an error. The zone parser, the HTTP
  requests, the environment, the files, the timer and the stored zones are arguments.

  Shown here: after any rounds a zone is the one last fetched and parsed, and between two rounds
  the plugin is ready exactly when every zone has been loaded at least once; the handler keeps the id and the setup only appends.
\<close>

section \<open>Zones\<close>

record cloud =
  cl_plugin :: string
  cl_ids :: "(string \<times> string) list"
  cl_fallthrough :: "string list option"
  cl_refresh :: nat

record cloud_state =
  cs_zones :: "(string \<times> zone) list"
  cs_synced :: bool

definition cloud_state_new :: cloud_state where
  "cloud_state_new = \<lparr>cs_zones = [], cs_synced = False\<rparr>"

definition cloud_names :: "cloud \<Rightarrow> string list" where
  "cloud_names c = map fst (cl_ids c)"

definition refresh_zone ::
    "(string \<Rightarrow> string \<Rightarrow> zone res) \<Rightarrow> (string \<Rightarrow> string res) \<Rightarrow> (string \<times> zone) list \<Rightarrow> string \<times> string \<Rightarrow> (string \<times> zone) list" where
  "refresh_zone parse fetch nxt oi =
     (case oi of (origin, ident) \<Rightarrow>
        (case rbind (fetch ident) (\<lambda>txt. parse txt origin) of
           Inr z \<Rightarrow> upsert origin z (\<lambda>_. z) nxt
         | Inl _ \<Rightarrow> nxt))"

definition fetch_zones ::
    "(string \<Rightarrow> string \<Rightarrow> zone res) \<Rightarrow> cloud \<Rightarrow> (string \<Rightarrow> string res) \<Rightarrow> cloud_state \<Rightarrow> (string \<times> zone) list" where
  "fetch_zones parse c fetch st = foldl (refresh_zone parse fetch) (cs_zones st) (cl_ids c)"

text \<open>The end of a round is two writes, and queries and readiness checks may come between them: the mark that all zones are loaded, then the zones.\<close>

definition mark_synced :: "cloud \<Rightarrow> (string \<times> zone) list \<Rightarrow> cloud_state \<Rightarrow> cloud_state" where
  "mark_synced c nxt st =
     (let loaded = list_all (\<lambda>(origin, _). map_of nxt origin \<noteq> None) (cl_ids c) in st\<lparr>cs_synced := cs_synced st \<or> loaded\<rparr>)"

definition store_zones :: "(string \<times> zone) list \<Rightarrow> cloud_state \<Rightarrow> cloud_state" where
  "store_zones nxt st = st\<lparr>cs_zones := nxt\<rparr>"

definition refresh_once ::
    "(string \<Rightarrow> string \<Rightarrow> zone res) \<Rightarrow> cloud \<Rightarrow> (string \<Rightarrow> string res) \<Rightarrow> cloud_state \<Rightarrow> cloud_state" where
  "refresh_once parse c fetch st =
     (let nxt = fetch_zones parse c fetch st in store_zones nxt (mark_synced c nxt st))"

record 's cloud_env =
  cv_zone_env :: "'s zone_env"
  cv_state :: "'s \<Rightarrow> cloud_state"

definition cloud_serve :: "'s cloud_env \<Rightarrow> cloud \<Rightarrow> 's handler" where
  "cloud_serve env c req nx s =
     (case req_name req of (qn, req1) \<Rightarrow>
        (case zones_match (cloud_names c) qn of
           None \<Rightarrow> nx_serve nx req1 s
         | Some zn \<Rightarrow>
             (case map_of (cs_zones (cv_state env s)) zn of
                Some z \<Rightarrow>
                  (case zone_lookup (cv_zone_env env) z req1 True s of (m, s1) \<Rightarrow>
                     if m_rcode m = NXDomain \<and> Option.bind (cl_fallthrough c) (\<lambda>ft. zones_match ft qn) \<noteq> None
                     then nx_serve nx req1 s1 else (Replied (RMsg m), req1, s1))
              | None \<Rightarrow> (Replied (RMsg ((new_reply req1)\<lparr>m_rcode := ServFail\<rparr>)), req1, s))))"

definition cloud_ready :: "'s cloud_env \<Rightarrow> 's \<Rightarrow> bool" where
  "cloud_ready env s = cs_synced (cv_state env s)"

definition cloud_transfer :: "'s cloud_env \<Rightarrow> string \<Rightarrow> 's \<Rightarrow> rr list option" where
  "cloud_transfer env zn s = map_option all_records (map_of (cs_zones (cv_state env s)) zn)"

text \<open>
  The end of the setup of each back end: the handler is added, the HTTP client built, and the task that fetches the zones at once
  and at every interval is started with the server and cancelled with it.
\<close>

definition cloud_start :: "unit res \<Rightarrow> (cloud \<Rightarrow> 's hook) \<Rightarrow> 's hook \<Rightarrow> 's cloud_env \<Rightarrow> cloud \<Rightarrow> 's setup_fn" where
  "cloud_start client spawn cancel env cl c =
     (let c1 = add_plugin (cl_plugin cl, cloud_serve env cl) c in
      case client of
        Inl e \<Rightarrow> (Inl (ctl_errf c1 e), c1)
      | Inr _ \<Rightarrow> (Inr (), on_shutdown cancel (on_startup (spawn cl) c1)))"

section \<open>Texts\<close>

fun zone_ids :: "string \<Rightarrow> string list \<Rightarrow> (string \<times> string) list res" where
  "zone_ids plugin [] = Inr []"
| "zone_ids plugin (a # as) =
     (case find_char (CHR '':'') a of
        None \<Rightarrow> Inl (''plugin/'' @ plugin @ '': invalid zone '' @ quote a @ '', expected ZONE:ID'')
      | Some i \<Rightarrow> rbind (zone_ids plugin as) (\<lambda>rest. Inr ((fqdn (take i a), drop (i + 1) a) # rest)))"

definition parse_zone_ids :: "string list \<Rightarrow> string \<Rightarrow> (string \<times> string) list res" where
  "parse_zone_ids zs plugin =
     rbind (zone_ids plugin zs) (\<lambda>ids. if ids = [] then Inl (''plugin/'' @ plugin @ '': no zones specified'') else Inr ids)"

definition open_tag :: "string \<Rightarrow> string" where "open_tag tag = CHR 0x3C # tag @ [CHR 0x3E]"
definition close_tag :: "string \<Rightarrow> string" where "close_tag tag = CHR 0x3C # CHR 0x2F # tag @ [CHR 0x3E]"

function xml_loop :: "string \<Rightarrow> string \<Rightarrow> string list" where
  "xml_loop tag rest =
     (case find_sub (open_tag tag) rest of
        None \<Rightarrow> []
      | Some i \<Rightarrow>
          (let aft = drop (i + length (open_tag tag)) rest in
           case find_sub (close_tag tag) aft of
             None \<Rightarrow> []
           | Some j \<Rightarrow> take j aft # xml_loop tag (drop (j + length (close_tag tag)) aft)))"
  by pat_completeness auto
termination
  by (relation "measure (\<lambda>(tag, rest). length rest)") (auto dest!: find_sub_bound simp: open_tag_def)

declare xml_loop.simps [simp del]

definition xml_tags :: "string \<Rightarrow> string \<Rightarrow> string list" where
  "xml_tags txt tag = xml_loop tag txt"

definition xml_unescape :: "string \<Rightarrow> string" where
  "xml_unescape s =
     replace_all (CHR 0x26 # ''amp;'') [CHR 0x26] (replace_all (CHR 0x26 # ''apos;'') [CHR 0x27] (replace_all (CHR 0x26 # ''quot;'') [CHR 0x22]
       (replace_all (CHR 0x26 # ''gt;'') [CHR 0x3E] (replace_all (CHR 0x26 # ''lt;'') [CHR 0x3C] s))))"

definition rr_line :: "string \<Rightarrow> nat \<Rightarrow> string \<Rightarrow> string \<Rightarrow> string" where
  "rr_line name ttl rt rd = fqdn name @ '' '' @ show_nat ttl @ '' IN '' @ rt @ '' '' @ rd @ [CHR 0x0A]"

text \<open>
  The loop over the pages of a zone: a request gives the text of a page and what to ask for next. A server
  that always names a next page keeps the loop going, which is the value \<open>None\<close>.
\<close>

partial_function (option) page_loop ::
    "('p \<Rightarrow> 's \<Rightarrow> (string \<times> 'p option) res \<times> 's) \<Rightarrow> string \<Rightarrow> 'p \<Rightarrow> 's \<Rightarrow> (string res \<times> 's) option" where
  "page_loop request out page s =
     (case request page s of
        (Inl e, s1) \<Rightarrow> Some (Inl e, s1)
      | (Inr (txt, nxt), s1) \<Rightarrow>
          (case nxt of
             None \<Rightarrow> Some (Inr (out @ txt), s1)
           | Some p \<Rightarrow> page_loop request (out @ txt) p s1))"

section \<open>route53\<close>

record credentials =
  cr_access_key :: string
  cr_secret_key :: string
  cr_session_token :: "string option"

definition trim_brackets :: "string \<Rightarrow> string" where
  "trim_brackets s =
     (let p = (\<lambda>c. c = CHR 0x5B \<or> c = CHR 0x5D) in rev (dropWhile p (rev (dropWhile p s))))"

text \<open>The lines of a profile: the last value of each key counts.\<close>

fun profile_lines ::
    "string \<Rightarrow> bool \<Rightarrow> string option \<times> string option \<times> string option \<Rightarrow> string list \<Rightarrow> string option \<times> string option \<times> string option" where
  "profile_lines profile inside st [] = st"
| "profile_lines profile inside (ak, sk, tok) (l # ls) =
     (let line = trim l in
      if starts_with line [CHR 0x5B] then profile_lines profile (trim (trim_brackets line) = profile) (ak, sk, tok) ls
      else if \<not> inside then profile_lines profile inside (ak, sk, tok) ls
      else (case find_char (CHR ''='') line of
          None \<Rightarrow> profile_lines profile inside (ak, sk, tok) ls
        | Some i \<Rightarrow>
            (let k = trim (take i line); v = trim (drop (i + 1) line) in
             profile_lines profile inside
               (if k = ''aws_access_key_id'' then (Some v, sk, tok)
                else if k = ''aws_secret_access_key'' then (ak, Some v, tok)
                else if k = ''aws_session_token'' then (ak, sk, Some v)
                else (ak, sk, tok)) ls)))"

definition profile_credentials :: "(string \<Rightarrow> string res) \<Rightarrow> string \<Rightarrow> string \<Rightarrow> credentials res" where
  "profile_credentials rd f profile =
     (case rd f of
        Inl e \<Rightarrow> Inl (''reading '' @ f @ '': '' @ e)
      | Inr txt \<Rightarrow>
          (case profile_lines profile False (None, None, None) (lines txt) of
             (Some a, Some s, tok) \<Rightarrow> Inr \<lparr>cr_access_key = a, cr_secret_key = s, cr_session_token = tok\<rparr>
           | _ \<Rightarrow> Inl (''profile '' @ profile @ '' not found in '' @ f)))"

definition first_tag :: "string \<Rightarrow> string \<Rightarrow> string option" where
  "first_tag txt tag = first (xml_tags txt tag)"

definition or_empty :: "string option \<Rightarrow> string" where
  "or_empty x = (case x of Some s \<Rightarrow> s | None \<Rightarrow> [])"

definition rrset_text :: "string \<Rightarrow> string" where
  "rrset_text rrset =
     (let name = or_empty (map_option xml_unescape (first_tag rrset ''Name'')); rt = or_empty (first_tag rrset ''Type'');
          ttl = (case Option.bind (first_tag rrset ''TTL'') parse_u32 of Some n \<Rightarrow> n | None \<Rightarrow> 300) in
      if first_tag rrset ''AliasTarget'' \<noteq> None then []
      else concat (map (\<lambda>v. rr_line (replace_all (CHR 0x5C # ''052'') ''*'' name) ttl rt (xml_unescape v)) (xml_tags rrset ''Value'')))"

definition page_text :: "string \<Rightarrow> string" where
  "page_text body = concat (map rrset_text (xml_tags body ''ResourceRecordSet''))"

definition next_page :: "string \<Rightarrow> (string \<times> string option) option" where
  "next_page body =
     (if first_tag body ''IsTruncated'' = Some ''true''
      then map_option (\<lambda>n. (xml_unescape n, first_tag body ''NextRecordType'')) (first_tag body ''NextRecordName'')
      else None)"

definition page_query :: "(string \<Rightarrow> string) \<Rightarrow> (string \<times> string option) option \<Rightarrow> string" where
  "page_query encode page =
     join_with [CHR 0x26] (sort (''maxitems=1000'' #
       (case page of
          None \<Rightarrow> []
        | Some (n, t) \<Rightarrow> (''name='' @ encode n) # (case t of Some ty \<Rightarrow> [''type='' @ ty] | None \<Rightarrow> []))))"

text \<open>
  What the requests use: the clock, the hash and its keyed form, hexadecimal and percent encoding, and the HTTP client, which
  gives whether the status was a success, the status and the body.
\<close>

record 's route53_env =
  rt_amz_date :: "'s \<Rightarrow> string"
  rt_date :: "'s \<Rightarrow> string"
  rt_sha256 :: "u8 list \<Rightarrow> u8 list"
  rt_hmac :: "u8 list \<Rightarrow> u8 list \<Rightarrow> u8 list"
  rt_hex :: "u8 list \<Rightarrow> string"
  rt_encode :: "string \<Rightarrow> string"
  rt_get :: "string \<Rightarrow> (string \<times> string) list \<Rightarrow> 's \<Rightarrow> (bool \<times> string \<times> string) res \<times> 's"

definition signing_headers :: "'s route53_env \<Rightarrow> credentials \<Rightarrow> string \<Rightarrow> 's \<Rightarrow> (string \<times> string) list" where
  "signing_headers env cr host s =
     sort_key fst ([(''host'', host), (''x-amz-content-sha256'', rt_hex env (rt_sha256 env [])), (''x-amz-date'', rt_amz_date env s)] @
       (case cr_session_token cr of Some t \<Rightarrow> [(''x-amz-security-token'', t)] | None \<Rightarrow> []))"

definition sign_v4 :: "'s route53_env \<Rightarrow> credentials \<Rightarrow> string \<Rightarrow> string \<Rightarrow> string \<Rightarrow> 's \<Rightarrow> (string \<times> string) list" where
  "sign_v4 env cr host path query s =
     (let nl = [CHR 0x0A]; sl = [CHR 0x2F];
          headers = signing_headers env cr host s;
          canonical_headers = concat (map (\<lambda>(k, v). k @ '':'' @ trim v @ nl) headers);
          signed_headers = join_with '';'' (map fst headers);
          canonical_request = ''GET'' @ nl @ path @ nl @ query @ nl @ canonical_headers @ nl @ signed_headers @ nl @ rt_hex env (rt_sha256 env []);
          scope = rt_date env s @ sl @ ''us-east-1'' @ sl @ ''route53'' @ sl @ ''aws4_request'';
          string_to_sign = ''AWS4-HMAC-SHA256'' @ nl @ rt_amz_date env s @ nl @ scope @ nl @ rt_hex env (rt_sha256 env (bytes_of canonical_request));
          k_date = rt_hmac env (bytes_of (''AWS4'' @ cr_secret_key cr)) (bytes_of (rt_date env s));
          k_region = rt_hmac env k_date (bytes_of ''us-east-1'');
          k_service = rt_hmac env k_region (bytes_of ''route53'');
          k_signing = rt_hmac env k_service (bytes_of ''aws4_request'');
          signature = rt_hex env (rt_hmac env k_signing (bytes_of string_to_sign));
          auth = ''AWS4-HMAC-SHA256 Credential='' @ cr_access_key cr @ sl @ scope @ '', SignedHeaders='' @ signed_headers @ '', Signature='' @ signature in
      filter (\<lambda>h. fst h \<noteq> ''host'') headers @ [(''authorization'', auth)])"

function trim_start_str :: "string \<Rightarrow> string \<Rightarrow> string" where
  "trim_start_str pat s = (if pat \<noteq> [] \<and> starts_with s pat then trim_start_str pat (drop (length pat) s) else s)"
  by pat_completeness auto
termination
  by (relation "measure (\<lambda>(pat, s). length s)") (auto simp: starts_with_iff)

declare trim_start_str.simps [simp del]

definition rrset_request ::
    "'s route53_env \<Rightarrow> credentials \<Rightarrow> string \<Rightarrow> string \<Rightarrow> (string \<times> string option) option \<Rightarrow> 's \<Rightarrow>
      (string \<times> (string \<times> string option) option option) res \<times> 's" where
  "rrset_request env cr endpoint zone_id page s =
     (let host = trim_end_matches (CHR 0x2F) (trim_start_str (''https:'' @ [CHR 0x2F, CHR 0x2F]) endpoint);
          path = [CHR 0x2F] @ ''2013-04-01'' @ [CHR 0x2F] @ ''hostedzone'' @ [CHR 0x2F] @ zone_id @ [CHR 0x2F] @ ''rrset'';
          query = page_query (rt_encode env) page in
      case rt_get env (''https:'' @ [CHR 0x2F, CHR 0x2F] @ host @ path @ ''?'' @ query) (sign_v4 env cr host path query s) s of
        (Inl e, s1) \<Rightarrow> (Inl e, s1)
      | (Inr (good, status, body), s1) \<Rightarrow>
          if \<not> good then (Inl (''route53 '' @ status @ '': '' @ take 300 body), s1)
          else (Inr (page_text body, map_option Some (next_page body)), s1))"

definition fetch_zone :: "'s route53_env \<Rightarrow> credentials \<Rightarrow> string \<Rightarrow> string \<Rightarrow> 's \<Rightarrow> (string res \<times> 's) option" where
  "fetch_zone env cr endpoint zone_id s = page_loop (rrset_request env cr endpoint zone_id) [] None s"

record route53_options =
  ro_creds :: "credentials option"
  ro_endpoint :: string
  ro_fallthrough :: "string list option"
  ro_refresh :: nat

text \<open>\<open>rp_spawn\<close> is the task that fetches the zones; \<open>rp_var\<close> is the environment.\<close>

record ('s, 'net) route53_parse =
  rp_from_ascii :: "string \<Rightarrow> dname res"
  rp_api :: "'net ipnet_api"
  rp_read :: "string \<Rightarrow> string res"
  rp_var :: "string \<Rightarrow> string option"
  rp_parse_duration :: "string \<Rightarrow> nat res"
  rp_client :: "unit res"
  rp_spawn :: "credentials \<Rightarrow> string \<Rightarrow> cloud \<Rightarrow> 's hook"
  rp_cancel :: "'s hook"

definition credentials_file :: "(string \<Rightarrow> string option) \<Rightarrow> string" where
  "credentials_file var = path_join (or_empty (var ''HOME'')) (''.aws'' @ [CHR 0x2F] @ ''credentials'')"

definition route53_line ::
    "('s, 'net) route53_parse \<Rightarrow> (string \<Rightarrow> err) \<Rightarrow> err \<Rightarrow> string \<Rightarrow> string list \<Rightarrow> route53_options \<Rightarrow> route53_options res" where
  "route53_line ps ef arg_e v a o1 =
     (if v = ''aws_access_key'' then
        (if length a \<noteq> 2 then Inl arg_e
         else Inr (o1\<lparr>ro_creds := Some \<lparr>cr_access_key = a ! 0, cr_secret_key = a ! 1, cr_session_token = None\<rparr>\<rparr>))
      else if v = ''aws_endpoint'' then (if length a \<noteq> 1 then Inl arg_e else Inr (o1\<lparr>ro_endpoint := hd a\<rparr>))
      else if v = ''credentials'' then
        (if a = [] \<or> length a > 2 then Inl arg_e
         else (case profile_credentials (rp_read ps) (case tl a of f # _ \<Rightarrow> f | [] \<Rightarrow> credentials_file (rp_var ps)) (hd a) of
             Inl e \<Rightarrow> Inl (ef e)
           | Inr cr \<Rightarrow> Inr (o1\<lparr>ro_creds := Some cr\<rparr>)))
      else if v = ''fallthrough'' then
        rbind (if a = [] then Inr [''.''] else normalize_zones (rp_from_ascii ps) (rp_api ps) a) (\<lambda>z. Inr (o1\<lparr>ro_fallthrough := Some z\<rparr>))
      else if v = ''refresh'' then
        (if length a \<noteq> 1 then Inl arg_e else rbind (rp_parse_duration ps (hd a)) (\<lambda>n. Inr (o1\<lparr>ro_refresh := n\<rparr>)))
      else Inl (ef (''unknown property '' @ quote v)))"

definition route53_property :: "('s, 'net) route53_parse \<Rightarrow> route53_options \<Rightarrow> 's controller \<Rightarrow> route53_options res \<times> 's controller" where
  "route53_property ps =
     line_property (\<lambda>v. v \<in> {''aws_access_key'', ''aws_endpoint'', ''credentials'', ''fallthrough'', ''refresh''}) (route53_line ps)"

definition default_credentials :: "('s, 'net) route53_parse \<Rightarrow> (string \<Rightarrow> err) \<Rightarrow> credentials res" where
  "default_credentials ps ef =
     (case (rp_var ps ''AWS_ACCESS_KEY_ID'', rp_var ps ''AWS_SECRET_ACCESS_KEY'') of
        (Some a, Some s) \<Rightarrow> Inr \<lparr>cr_access_key = a, cr_secret_key = s, cr_session_token = rp_var ps ''AWS_SESSION_TOKEN''\<rparr>
      | _ \<Rightarrow>
          (let f = (case rp_var ps ''AWS_SHARED_CREDENTIALS_FILE'' of Some x \<Rightarrow> x | None \<Rightarrow> credentials_file (rp_var ps));
               profile = (case rp_var ps ''AWS_PROFILE'' of Some x \<Rightarrow> x | None \<Rightarrow> ''default'') in
           case profile_credentials (rp_read ps) f profile of
             Inl e \<Rightarrow> Inl (ef (''no AWS credentials: use aws_access_key, credentials, AWS_ACCESS_KEY_ID/AWS_SECRET_ACCESS_KEY, '' @
               ''or a shared credentials file ('' @ e @ '')''))
           | Inr cr \<Rightarrow> Inr cr))"

definition route53_body :: "('s, 'net) route53_parse \<Rightarrow> 's cloud_env \<Rightarrow> 's setup_fn" where
  "route53_body ps env c =
     (case ctl_disp remaining_args_until_brace c of (as, c1) \<Rightarrow>
        (case parse_zone_ids as ''route53'' of
           Inl e \<Rightarrow> (Inl (ctl_errf c1 e), c1)
         | Inr ids \<Rightarrow>
             (case block_loop (route53_property ps) \<lparr>ro_creds = None, ro_endpoint = ''https:'' @ [CHR 0x2F, CHR 0x2F] @ ''route53.amazonaws.com'',
                     ro_fallthrough = None, ro_refresh = 60 * SECOND\<rparr> c1 of
                (Inl e, c2) \<Rightarrow> (Inl e, c2)
              | (Inr o1, c2) \<Rightarrow>
                  (case (case ro_creds o1 of Some cr \<Rightarrow> Inr cr | None \<Rightarrow> default_credentials ps (ctl_errf c2)) of
                     Inl e \<Rightarrow> (Inl e, c2)
                   | Inr cr \<Rightarrow>
                       cloud_start (rp_client ps) (rp_spawn ps cr (ro_endpoint o1)) (rp_cancel ps) env
                         \<lparr>cl_plugin = ''route53'', cl_ids = ids, cl_fallthrough = ro_fallthrough o1, cl_refresh = ro_refresh o1\<rparr> c2))))"

definition route53_setup :: "('s, 'net) route53_parse \<Rightarrow> 's cloud_env \<Rightarrow> 's setup_fn" where
  "route53_setup ps env = single_setup ''route53'' (route53_body ps env)"

section \<open>Contracts\<close>

lemma cloud_keeps_id:
  assumes "keeps_id (nx_serve nx)"
  shows "keeps_id (\<lambda>req s. cloud_serve env c req nx s)"
proof -
  have named: "keeps_id (\<lambda>req s. nx_serve nx (snd (req_name req)) s)" by (rule keeps_id_same [OF assms]) simp
  show ?thesis
    using named by (auto simp: keeps_id_def cloud_serve_def case_prod_beta zone_lookup_id split: option.splits)
qed

interpretation cloud_handler: id_keeping_handler "cloud_serve env c"
  by unfold_locales (rule cloud_keeps_id)

interpretation route53_block: block_property "route53_property ps"
  unfolding route53_property_def by (rule line_property_block) (simp add: route53_line_def is_ok_def)

lemma cloud_start_appends:
  assumes "cloud_start client spawn cancel env cl c = (r, c')" and "appends_plugins c0 c"
  shows "appends_plugins c0 c'"
  using assms by (auto simp: cloud_start_def Let_def split: sum.splits intro!: appends_steps)

lemma route53_body_appends: "route53_body ps env c = (r, c') \<Longrightarrow> appends_plugins c c'"
proof -
  assume run: "route53_body ps env c = (r, c')"
  obtain as c1 where a: "ctl_disp remaining_args_until_brace c = (as, c1)"
    by (cases "ctl_disp remaining_args_until_brace c")
  note st = args_block_steps [OF a route53_block.block_property_axioms]
  show ?thesis
    using run a appends_disp [OF a]
    by (auto simp: route53_body_def split: sum.splits prod.splits option.splits dest: st(2) elim!: cloud_start_appends intro!: appends_steps)
qed

interpretation route53_setup: setup_function "route53_setup ps env"
  unfolding route53_setup_def by (rule single_setup_function [OF route53_body_appends])

section \<open>Rounds\<close>

text \<open>The zones loaded in a round, and in a sequence of rounds, in the order of loading.\<close>

definition loaded_zone :: "(string \<Rightarrow> string \<Rightarrow> zone res) \<Rightarrow> (string \<Rightarrow> string res) \<Rightarrow> string \<times> string \<Rightarrow> (string \<times> zone) option" where
  "loaded_zone parse fetch oi =
     (case oi of (origin, ident) \<Rightarrow>
        (case rbind (fetch ident) (\<lambda>txt. parse txt origin) of Inr z \<Rightarrow> Some (origin, z) | Inl _ \<Rightarrow> None))"

definition cloud_loads :: "(string \<Rightarrow> string \<Rightarrow> zone res) \<Rightarrow> cloud \<Rightarrow> (string \<Rightarrow> string res) list \<Rightarrow> (string \<times> zone) list" where
  "cloud_loads parse c rounds = concat (map (\<lambda>fetch. List.map_filter (loaded_zone parse fetch) (cl_ids c)) rounds)"

abbreviation cloud_run :: "(string \<Rightarrow> string \<Rightarrow> zone res) \<Rightarrow> cloud \<Rightarrow> (string \<Rightarrow> string res) list \<Rightarrow> cloud_state" where
  "cloud_run parse c rounds \<equiv> foldl (\<lambda>st fetch. refresh_once parse c fetch st) cloud_state_new rounds"

lemma refresh_zones_map:
  "map_of (foldl (refresh_zone parse fetch) nxt ids) = map_of nxt ++ map_of (rev (List.map_filter (loaded_zone parse fetch) ids))"
proof (induction ids arbitrary: nxt)
  case (Cons oi ids)
  then show ?case
    by (auto simp: refresh_zone_def loaded_zone_def map_filter_simps map_of_upsert fun_eq_iff map_add_def
        split: prod.splits sum.splits option.splits)
qed (simp add: map_filter_simps)

lemma cloud_run_map: "map_of (cs_zones (cloud_run parse c rounds)) = map_of (rev (cloud_loads parse c rounds))"
  by (induction rounds rule: rev_induct) (simp_all add: cloud_state_new_def cloud_loads_def refresh_once_def fetch_zones_def mark_synced_def store_zones_def Let_def refresh_zones_map)

lemma map_of_rev_Some: "(\<exists>v. map_of (rev xs) k = Some v) \<longleftrightarrow> k \<in> fst ` set xs"
  by (metis domIff dom_map_of_conv_image_fst option.exhaust_sel option.distinct(1) set_rev)

lemma cloud_run_synced:
  assumes "cl_ids c \<noteq> []"
  shows "cs_synced (cloud_run parse c rounds) \<longleftrightarrow> set (cloud_names c) \<subseteq> fst ` set (cloud_loads parse c rounds)"
proof (induction rounds rule: rev_induct)
  case Nil
  then show ?case using assms by (simp add: cloud_state_new_def cloud_loads_def cloud_names_def)
next
  case (snoc f fs)
  let ?loaded = "\<lambda>rs. fst ` set (cloud_loads parse c rs)"
  have grow: "?loaded fs \<subseteq> ?loaded (fs @ [f])" by (auto simp: cloud_loads_def)
  have "list_all (\<lambda>(og, _). map_of (cs_zones (cloud_run parse c (fs @ [f]))) og \<noteq> None) (cl_ids c) \<longleftrightarrow>
      set (cloud_names c) \<subseteq> ?loaded (fs @ [f])"
    unfolding cloud_run_map cloud_names_def by (simp add: list_all_iff map_of_rev_Some image_subset_iff case_prod_beta)
  then have "cs_synced (cloud_run parse c (fs @ [f])) \<longleftrightarrow>
      cs_synced (cloud_run parse c fs) \<or> set (cloud_names c) \<subseteq> ?loaded (fs @ [f])"
    by (simp add: refresh_once_def mark_synced_def store_zones_def Let_def)
  with snoc grow show ?case by blast
qed

text \<open>Within a round nothing changes until its end, where the mark is set before the zones are stored.\<close>

definition within_round :: "(string \<Rightarrow> string \<Rightarrow> zone res) \<Rightarrow> cloud \<Rightarrow> (string \<Rightarrow> string res) list \<Rightarrow> cloud_state \<Rightarrow> bool" where
  "within_round parse c rounds st \<longleftrightarrow>
     st = cloud_run parse c rounds \<or> (\<exists>fetch. st = mark_synced c (fetch_zones parse c fetch (cloud_run parse c rounds)) (cloud_run parse c rounds))"

lemma within_round_zones: "within_round parse c rounds st \<Longrightarrow> cs_zones st = cs_zones (cloud_run parse c rounds)"
  by (auto simp: within_round_def mark_synced_def Let_def)

text \<open>C30: After any rounds of fetching, some of them failing for some zones, and until the next round has stored its zones, a query in a
  hosted zone is answered from the copy of the zone that was fetched and parsed last, NXDOMAIN going on to the rest of the chain when the
  name is in the fallthrough zones, and with SERVFAIL while there has been none; between two rounds the plugin is ready exactly when
  each of its zones has been loaded at least once, and then it has a copy to answer from. (At the end of the round that
  makes it ready it is so for a moment before it has the copies, see \<open>cloud_ready_early\<close>.)\<close>

theorem cloud_rounds:
  assumes "cl_ids c \<noteq> []" and "within_round parse c rounds (cv_state env s)"
    and "req_name req = (qn, req1)" and "zones_match (cloud_names c) qn = Some zn"
  shows "cloud_serve env c req nx s =
      (case map_of (rev (cloud_loads parse c rounds)) zn of
         Some z \<Rightarrow> (case zone_lookup (cv_zone_env env) z req1 True s of (m, s1) \<Rightarrow>
           if m_rcode m = NXDomain \<and> (\<exists>ft. cl_fallthrough c = Some ft \<and> zones_match ft qn \<noteq> None) then nx_serve nx req1 s1
           else (Replied (RMsg m), req1, s1))
       | None \<Rightarrow> (Replied (RMsg ((new_reply req1)\<lparr>m_rcode := ServFail\<rparr>)), req1, s))
    \<and> (cv_state env s = cloud_run parse c rounds \<longrightarrow>
        (cloud_ready env s \<longleftrightarrow> set (cloud_names c) \<subseteq> fst ` set (cloud_loads parse c rounds))
        \<and> (cloud_ready env s \<longrightarrow> (\<exists>z. map_of (rev (cloud_loads parse c rounds)) zn = Some z)))"
proof (intro conjI impI)
  have ft: "(\<exists>y. Option.bind (cl_fallthrough c) (\<lambda>ft. zones_match ft qn) = Some y) \<longleftrightarrow> (\<exists>ft. cl_fallthrough c = Some ft \<and> zones_match ft qn \<noteq> None)"
    by (auto simp: bind_eq_Some_conv)
  show "cloud_serve env c req nx s =
      (case map_of (rev (cloud_loads parse c rounds)) zn of
         Some z \<Rightarrow> (case zone_lookup (cv_zone_env env) z req1 True s of (m, s1) \<Rightarrow>
           if m_rcode m = NXDomain \<and> (\<exists>ft. cl_fallthrough c = Some ft \<and> zones_match ft qn \<noteq> None) then nx_serve nx req1 s1
           else (Replied (RMsg m), req1, s1))
       | None \<Rightarrow> (Replied (RMsg ((new_reply req1)\<lparr>m_rcode := ServFail\<rparr>)), req1, s))"
    by (simp add: cloud_serve_def assms(3,4) within_round_zones [OF assms(2)] cloud_run_map not_None_eq ft split: option.split)
  assume st: "cv_state env s = cloud_run parse c rounds"
  show ready: "cloud_ready env s \<longleftrightarrow> set (cloud_names c) \<subseteq> fst ` set (cloud_loads parse c rounds)"
    by (simp add: cloud_ready_def assms(1) st cloud_run_synced)
  show "\<exists>z. map_of (rev (cloud_loads parse c rounds)) zn = Some z" if "cloud_ready env s"
    using that zones_match_Some(1) [OF assms(4)] ready by (auto simp: map_of_rev_Some)
qed

text \<open>At the end of a first round that loads every zone the plugin is ready before it has any of them: a query that comes then gets SERVFAIL.\<close>

lemma cloud_ready_early:
  assumes "\<forall>(origin, ident) \<in> set (cl_ids c). \<exists>z. rbind (fetch ident) (\<lambda>txt. parse txt origin) = Inr z"
    and "cv_state env s = mark_synced c (fetch_zones parse c fetch cloud_state_new) cloud_state_new"
    and "req_name req = (qn, req1)" "zones_match (cloud_names c) qn = Some zn"
  shows "cloud_ready env s \<and> cloud_serve env c req nx s = (Replied (RMsg ((new_reply req1)\<lparr>m_rcode := ServFail\<rparr>)), req1, s)"
proof
  have "(og, idn) \<in> set (cl_ids c) \<Longrightarrow> og \<in> fst ` set (List.map_filter (loaded_zone parse fetch) (cl_ids c))" for og idn
    using assms(1) by (force simp: in_map_filter loaded_zone_def image_iff)
  then have "list_all (\<lambda>(og, _). map_of (fetch_zones parse c fetch cloud_state_new) og \<noteq> None) (cl_ids c)"
    by (auto simp: list_all_iff fetch_zones_def refresh_zones_map cloud_state_new_def map_of_rev_Some)
  then show "cloud_ready env s" by (simp add: cloud_ready_def assms(2) mark_synced_def)
  show "cloud_serve env c req nx s = (Replied (RMsg ((new_reply req1)\<lparr>m_rcode := ServFail\<rparr>)), req1, s)"
    by (simp add: cloud_serve_def assms mark_synced_def cloud_state_new_def Let_def)
qed

text \<open>Two hosted zones; the second cannot be fetched in the first and the third round.\<close>

definition two_zones :: cloud where
  "two_zones = \<lparr>cl_plugin = ''route53'', cl_ids = [(''a.'', ''1''), (''b.'', ''2'')], cl_fallthrough = None, cl_refresh = 60 * SECOND\<rparr>"

definition named_zone :: "string \<Rightarrow> string \<Rightarrow> zone res" where
  "named_zone txt origin = Inr (sample_zone\<lparr>zn_origin := txt @ origin\<rparr>)"

definition flaky :: "bool \<Rightarrow> string \<Rightarrow> string \<Rightarrow> string res" where
  "flaky up txt ident = (if ident = ''2'' \<and> \<not> up then Inl ''unavailable'' else Inr txt)"

definition flaky_rounds :: "(string \<Rightarrow> string res) list" where
  "flaky_rounds = [flaky False ''x'', flaky True ''y'', flaky False ''z'']"

definition two_zones_env :: "unit cloud_env" where
  "two_zones_env = \<lparr>cv_zone_env = plain_zone_env, cv_state = (\<lambda>_. cloud_run named_zone two_zones flaky_rounds)\<rparr>"

theorem cloud_rounds_witness:
  "cloud_ready two_zones_env () \<and> map_of (cs_zones (cloud_run named_zone two_zones [flaky False ''x''])) ''b.'' = None
    \<and> cloud_serve two_zones_env two_zones (query_for ''w.b.'' RT_A) (next_of []) () =
      (case zone_lookup plain_zone_env (sample_zone\<lparr>zn_origin := ''yb.''\<rparr>) (snd (req_name (query_for ''w.b.'' RT_A))) True () of
         (m, s1) \<Rightarrow> (Replied (RMsg m), snd (req_name (query_for ''w.b.'' RT_A)), s1))"
proof -
  let ?q = "query_for ''w.b.'' RT_A"
  have loads: "cloud_loads named_zone two_zones flaky_rounds =
      [(''a.'', sample_zone\<lparr>zn_origin := ''xa.''\<rparr>), (''a.'', sample_zone\<lparr>zn_origin := ''ya.''\<rparr>), (''b.'', sample_zone\<lparr>zn_origin := ''yb.''\<rparr>),
       (''a.'', sample_zone\<lparr>zn_origin := ''za.''\<rparr>)]"
    by (simp add: cloud_loads_def flaky_rounds_def two_zones_def map_filter_simps loaded_zone_def flaky_def named_zone_def)
  have ids: "cl_ids two_zones \<noteq> []" "cl_fallthrough two_zones = None" "set (cloud_names two_zones) = {''a.'', ''b.''}"
    by (auto simp: two_zones_def cloud_names_def)
  have st: "cv_state two_zones_env () = cloud_run named_zone two_zones flaky_rounds" by (simp add: two_zones_env_def)
  then have w: "within_round named_zone two_zones flaky_rounds (cv_state two_zones_env ())" by (simp add: within_round_def)
  have q: "req_name ?q = (fst (req_name ?q), snd (req_name ?q))" by simp
  have "fst (req_name ?q) = ''w.b.''" by code_simp
  moreover have "cloud_names two_zones = [''a.'', ''b.'']" by (simp add: two_zones_def cloud_names_def)
  moreover have "zones_match [''a.'', ''b.''] ''w.b.'' = Some ''b.''" by code_simp
  ultimately have zn: "zones_match (cloud_names two_zones) (fst (req_name ?q)) = Some ''b.''" by simp
  have first: "map_of (cs_zones (cloud_run named_zone two_zones [flaky False ''x''])) ''b.'' = None"
    unfolding cloud_run_map
    by (simp add: cloud_loads_def two_zones_def map_filter_simps loaded_zone_def flaky_def named_zone_def)
  from cloud_rounds [OF ids(1) w q zn, of "next_of []"] first st show ?thesis by (simp add: loads ids) (simp add: two_zones_env_def)
qed

section \<open>Pages\<close>

text \<open>The pages a server hands out, one after another, the last naming no next one.\<close>

inductive pages :: "('p \<Rightarrow> 's \<Rightarrow> (string \<times> 'p option) res \<times> 's) \<Rightarrow> 'p \<Rightarrow> 's \<Rightarrow> string list \<Rightarrow> 's \<Rightarrow> bool" for request where
  last_page: "request p s = (Inr (t, None), s1) \<Longrightarrow> pages request p s [t] s1"
| more_pages: "request p s = (Inr (t, Some q), s1) \<Longrightarrow> pages request q s1 ts s2 \<Longrightarrow> pages request p s (t # ts) s2"

lemma page_loop_reads: "pages request p s ts s2 \<Longrightarrow> page_loop request out p s = Some (Inr (out @ concat ts), s2)"
  by (induction arbitrary: out rule: pages.induct) (simp_all add: page_loop.simps)

lemma page_loop_read:
  assumes "page_loop request out p s = Some r" and "r = (Inr tx, s2)"
  shows "\<exists>ts. pages request p s ts s2 \<and> tx = out @ concat ts"
  using assms
proof (induction request out p s r arbitrary: tx s2 rule: page_loop.raw_induct [rotated, consumes 1])
  case (1 f rq ou pg st res)
  consider t where "rq pg st = (Inr (t, None), s2)" "tx = ou @ t"
    | t q s1 where "rq pg st = (Inr (t, Some q), s1)" "f rq (ou @ t) q s1 = Some res"
    using 1(2,3) by (auto split: prod.splits sum.splits option.splits)
  then show ?case
  proof cases
    case 1
    then show ?thesis using last_page by force
  next
    case 2
    from 1(1) [OF 2(2) 1(3)] obtain ts where "pages rq q s1 ts s2" "tx = (ou @ t) @ concat ts" by blast
    then show ?thesis using more_pages [of rq pg st t q s1 ts s2] 2(1) by (intro exI [of _ "t # ts"]) simp
  qed
qed

text \<open>A fetch gives a text exactly when the pages come to an end, and then it is the texts of all of them in order.\<close>

lemma page_loop_iff: "page_loop request [] p s = Some (Inr tx, s2) \<longleftrightarrow> (\<exists>ts. pages request p s ts s2 \<and> tx = concat ts)"
  using page_loop_reads [of request p s _ s2 "[]"] page_loop_read [of request "[]" p s "(Inr tx, s2)" tx s2] by auto

end
