(* ===== verification/Cloud_Json.thy ===== *)
theory Cloud_Json
  imports Cloud
begin

text \<open>
  The cloud back ends whose interfaces speak JSON, \<open>src/plugins/azure.rs\<close> and \<open>src/plugins/clouddns.rs\<close>: the tokens, the pages of record
  sets turned into the lines of a zone file, and the setups.

  A JSON object is the list of its entries in the order the map gives them. The HTTP client, the clocks, the decoding and
  printing of JSON, PEM files, the RSA signature and base64 are arguments.

  Shown here: the spelling of the names of the properties of an Azure record set does not matter; a token is used again until it
  expires; the lines that break a zone text; the setups only append.
\<close>

section \<open>JSON\<close>

text \<open>\<open>J_U64\<close> is a number that \<open>as_u64\<close> accepts, \<open>J_Number\<close> the text of any other.\<close>

datatype json = J_Null | J_Bool bool | J_U64 nat | J_Number string | J_String string | J_Array "json list" | J_Object "(string \<times> json) list"

definition json_get :: "json \<Rightarrow> string \<Rightarrow> json option" where
  "json_get v k = (case v of J_Object kvs \<Rightarrow> map_of kvs k | _ \<Rightarrow> None)"

definition as_str :: "json \<Rightarrow> string option" where
  "as_str v = (case v of J_String s \<Rightarrow> Some s | _ \<Rightarrow> None)"

definition as_u64 :: "json \<Rightarrow> nat option" where
  "as_u64 v = (case v of J_U64 n \<Rightarrow> Some n | _ \<Rightarrow> None)"

definition as_array :: "json \<Rightarrow> json list option" where
  "as_array v = (case v of J_Array xs \<Rightarrow> Some xs | _ \<Rightarrow> None)"

definition json_str :: "json \<Rightarrow> string \<Rightarrow> string option" where
  "json_str v k = Option.bind (json_get v k) as_str"

definition json_num :: "json \<Rightarrow> string \<Rightarrow> nat option" where
  "json_num v k = Option.bind (json_get v k) as_u64"

definition json_list :: "json \<Rightarrow> string \<Rightarrow> json list" where
  "json_list v k = (case Option.bind (json_get v k) as_array of Some xs \<Rightarrow> xs | None \<Rightarrow> [])"

definition num_or :: "nat \<Rightarrow> nat option \<Rightarrow> nat" where
  "num_or d x = (case x of Some n \<Rightarrow> n | None \<Rightarrow> d)"

section \<open>Tokens\<close>

text \<open>
  The client and the token of a back end. \<open>ht_post\<close> sends a form and gives the JSON of a successful answer, \<open>ht_get\<close> sends the token and
  gives whether the status was a success, the status and the JSON. Instants are in nanoseconds, \<open>ht_timestamp\<close> in seconds.
\<close>

record 's http_env =
  ht_now :: "'s \<Rightarrow> nat"
  ht_timestamp :: "'s \<Rightarrow> nat"
  ht_token :: "'s \<Rightarrow> (string \<times> nat) option"
  ht_set_token :: "string \<times> nat \<Rightarrow> 's \<Rightarrow> 's"
  ht_post :: "string \<Rightarrow> (string \<times> string) list \<Rightarrow> 's \<Rightarrow> json res \<times> 's"
  ht_get :: "string \<Rightarrow> string \<Rightarrow> 's \<Rightarrow> (bool \<times> string \<times> json) res \<times> 's"
  ht_show :: "json \<Rightarrow> string"

definition token_of :: "string \<Rightarrow> json \<Rightarrow> (string \<times> nat) res" where
  "token_of missing resp =
     (case json_str resp ''access_token'' of
        None \<Rightarrow> Inl missing
      | Some t \<Rightarrow> Inr (t, num_or 3600 (json_num resp ''expires_in'')))"

text \<open>A token is kept until a minute before it expires.\<close>

definition cached_token :: "'s http_env \<Rightarrow> ('s \<Rightarrow> (string \<times> nat) res \<times> 's) \<Rightarrow> 's \<Rightarrow> string res \<times> 's" where
  "cached_token env ask s =
     (let fresh =
        (case ask s of
           (Inl e, s1) \<Rightarrow> (Inl e, s1)
         | (Inr (tok, expires), s1) \<Rightarrow> (Inr tok, ht_set_token env (tok, ht_now env s1 + (expires - 60) * SECOND) s1)) in
      case ht_token env s of
        Some (t, expiry) \<Rightarrow> if ht_now env s < expiry then (Inr t, s) else fresh
      | None \<Rightarrow> fresh)"

section \<open>azure\<close>

record azure_auth =
  az_tenant :: string
  az_client :: string
  az_secret :: string
  az_login_host :: string
  az_management :: string

definition azure_token :: "'s http_env \<Rightarrow> azure_auth \<Rightarrow> 's \<Rightarrow> string res \<times> 's" where
  "azure_token env au =
     cached_token env (\<lambda>s.
       (case ht_post env (az_login_host au @ [CHR 0x2F] @ az_tenant au @ [CHR 0x2F] @ ''oauth2'' @ [CHR 0x2F] @ ''v2.0'' @ [CHR 0x2F] @ ''token'')
               [(''grant_type'', ''client_credentials''), (''client_id'', az_client au), (''client_secret'', az_secret au),
                (''scope'', az_management au @ [CHR 0x2F] @ ''.default'')] s of
          (Inl e, s1) \<Rightarrow> (Inl e, s1)
        | (Inr resp, s1) \<Rightarrow> (token_of ''no access_token in response'' resp, s1)))"

definition json_prop :: "json \<Rightarrow> string \<Rightarrow> json option" where
  "json_prop p k =
     (case json_get p k of
        Some v \<Rightarrow> Some v
      | None \<Rightarrow>
          (case p of
             J_Object kvs \<Rightarrow> map_option snd (find (\<lambda>(name, _). to_ascii_lowercase name = to_ascii_lowercase k) kvs)
           | _ \<Rightarrow> None))"

definition prop_list :: "json \<Rightarrow> string \<Rightarrow> json list" where
  "prop_list p k = (case Option.bind (json_prop p k) as_array of Some xs \<Rightarrow> xs | None \<Rightarrow> [])"

definition quoted_text :: "string \<Rightarrow> string" where
  "quoted_text s = [CHR 0x22] @ replace_all [CHR 0x22] [CHR 0x5C, CHR 0x22] s @ [CHR 0x22]"

definition mx_text :: "json \<Rightarrow> string option" where
  "mx_text r =
     (case (json_num r ''preference'', json_str r ''exchange'') of
        (Some pref, Some ex) \<Rightarrow> Some (show_nat pref @ '' '' @ fqdn ex)
      | _ \<Rightarrow> None)"

definition srv_text :: "json \<Rightarrow> string option" where
  "srv_text r =
     map_option (\<lambda>t. show_nat (num_or 0 (json_num r ''priority'')) @ '' '' @ show_nat (num_or 0 (json_num r ''weight'')) @ '' '' @
       show_nat (num_or 0 (json_num r ''port'')) @ '' '' @ fqdn t) (json_str r ''target'')"

definition txt_text :: "json \<Rightarrow> string option" where
  "txt_text r =
     (let parts = map quoted_text (List.map_filter as_str (json_list r ''value'')) in
      if parts = [] then None else Some (join_with '' '' parts))"

definition caa_text :: "json \<Rightarrow> string option" where
  "caa_text r =
     (case (json_num r ''flags'', json_str r ''tag'', json_str r ''value'') of
        (Some f, Some tag, Some v) \<Rightarrow> Some (show_nat f @ '' '' @ tag @ '' '' @ [CHR 0x22] @ v @ [CHR 0x22])
      | _ \<Rightarrow> None)"

definition str_or :: "string \<Rightarrow> string option \<Rightarrow> string" where
  "str_or d x = (case x of Some s \<Rightarrow> s | None \<Rightarrow> d)"

definition soa_text :: "json \<Rightarrow> string" where
  "soa_text s =
     (let g = (\<lambda>k. show_nat (num_or 0 (json_num s k))) in
      join_with '' '' [fqdn (str_or ''ns1-01.azure-dns.com'' (json_str s ''host'')), fqdn (str_or ''azuredns-hostmaster.microsoft.com'' (json_str s ''email'')),
        g ''serialNumber'', g ''refreshTime'', g ''retryTime'', g ''expireTime'', g ''minimumTTL''])"

text \<open>The texts of the records of a set, by the type of the set.\<close>

definition rdata_texts :: "json \<Rightarrow> string \<Rightarrow> string list" where
  "rdata_texts p ty =
     (let texts = (\<lambda>k f. List.map_filter f (prop_list p k)) in
      if ty = ''A'' then texts ''ARecords'' (\<lambda>r. json_str r ''ipv4Address'')
      else if ty = ''AAAA'' then texts ''AAAARecords'' (\<lambda>r. json_str r ''ipv6Address'')
      else if ty = ''CNAME'' then
        (case Option.bind (json_prop p ''CNAMERecord'') (\<lambda>r. json_str r ''cname'') of Some v \<Rightarrow> [fqdn v] | None \<Rightarrow> [])
      else if ty = ''MX'' then texts ''MXRecords'' mx_text
      else if ty = ''NS'' then texts ''NSRecords'' (\<lambda>r. map_option fqdn (json_str r ''nsdname''))
      else if ty = ''PTR'' then texts ''PTRRecords'' (\<lambda>r. map_option fqdn (json_str r ''ptrdname''))
      else if ty = ''SRV'' then texts ''SRVRecords'' srv_text
      else if ty = ''TXT'' then texts ''TXTRecords'' txt_text
      else if ty = ''CAA'' then texts ''caaRecords'' caa_text
      else if ty = ''SOA'' then (case json_prop p ''SOARecord'' of Some s \<Rightarrow> [soa_text s] | None \<Rightarrow> [])
      else [])"

definition rrset_lines :: "json \<Rightarrow> string \<Rightarrow> string" where
  "rrset_lines rs zone =
     (let rel = str_or ''@'' (json_str rs ''name'');
          name = (if rel = ''@'' then zone else rel @ ''.'' @ zone);
          ty = last (split_char (CHR 0x2F) (str_or [] (json_str rs ''type''))) in
      case json_get rs ''properties'' of
        None \<Rightarrow> []
      | Some p \<Rightarrow>
          (let ttl = num_or 300 (Option.bind (json_prop p ''TTL'') as_u64) mod 2 ^ 32 in
           concat (map (rr_line name ttl ty) (rdata_texts p ty))))"

definition azure_request :: "'s http_env \<Rightarrow> azure_auth \<Rightarrow> string \<Rightarrow> string \<Rightarrow> 's \<Rightarrow> (string \<times> string option) res \<times> 's" where
  "azure_request env au zone_fq url s =
     (case azure_token env au s of
        (Inl e, s1) \<Rightarrow> (Inl e, s1)
      | (Inr tok, s1) \<Rightarrow>
          (case ht_get env url tok s1 of
             (Inl e, s2) \<Rightarrow> (Inl e, s2)
           | (Inr (good, status, body), s2) \<Rightarrow>
               if \<not> good then (Inl (''azure '' @ status @ '': '' @ ht_show env body), s2)
               else (Inr (concat (map (\<lambda>rs. rrset_lines rs zone_fq) (json_list body ''value'')),
                   (case json_str body ''nextLink'' of Some l \<Rightarrow> if l \<noteq> [] then Some l else None | None \<Rightarrow> None)), s2)))"

definition azure_url :: "azure_auth \<Rightarrow> string \<Rightarrow> bool \<Rightarrow> string \<Rightarrow> string \<Rightarrow> string" where
  "azure_url au subscription private rg zone =
     (let sl = [CHR 0x2F] in
      join_with sl [az_management au, ''subscriptions'', subscription, ''resourceGroups'', rg, ''providers'', ''Microsoft.Network'',
        (if private then ''privateDnsZones'' else ''dnsZones''), trim_end_matches (CHR ''.'') zone,
        ''all?api-version='' @ (if private then ''2018-09-01'' else ''2018-05-01'')])"

text \<open>The zone gets an SOA of its own when no line of the text holds one.\<close>

definition with_azure_soa :: "string \<Rightarrow> nat \<Rightarrow> string \<Rightarrow> string" where
  "with_azure_soa zone_fq now out =
     (if find_sub '' SOA '' out = None
      then out @ rr_line zone_fq 3600 ''SOA'' (''ns1-01.azure-dns.com. azuredns-hostmaster.microsoft.com. '' @ show_nat now @ '' 3600 300 2419200 300'')
      else out)"

definition azure_fetch_zone :: "'s http_env \<Rightarrow> azure_auth \<Rightarrow> string \<Rightarrow> bool \<Rightarrow> string \<Rightarrow> 's \<Rightarrow> (string res \<times> 's) option" where
  "azure_fetch_zone env au subscription private rg_zone s =
     (case find_char (CHR '':'') rg_zone of
        None \<Rightarrow> Some (Inl (''bad zone id '' @ rg_zone), s)
      | Some i \<Rightarrow>
          (let rg = take i rg_zone; zone = drop (i + 1) rg_zone; zone_fq = fqdn zone in
           case page_loop (azure_request env au zone_fq) [] (azure_url au subscription private rg zone) s of
             None \<Rightarrow> None
           | Some (Inl e, s1) \<Rightarrow> Some (Inl e, s1)
           | Some (Inr out, s1) \<Rightarrow> Some (Inr (with_azure_soa zone_fq (ht_timestamp env s1) out), s1)))"

fun azure_ids :: "(string \<Rightarrow> err) \<Rightarrow> string list \<Rightarrow> (string \<times> string) list res" where
  "azure_ids ef [] = Inr []"
| "azure_ids ef (a # as) =
     (case find_char (CHR '':'') a of
        None \<Rightarrow> Inl (ef (''invalid zone '' @ quote a @ '', expected RESOURCE_GROUP:ZONE''))
      | Some i \<Rightarrow> rbind (azure_ids ef as) (\<lambda>rest. Inr ((fqdn (drop (i + 1) a), take i a @ '':'' @ drop (i + 1) a) # rest)))"

record azure_options =
  ap_tenant :: "string option"
  ap_client :: "string option"
  ap_secret :: "string option"
  ap_subscription :: "string option"
  ap_environment :: string
  ap_private :: bool
  ap_fallthrough :: "string list option"

record ('s, 'net) azure_parse =
  aq_from_ascii :: "string \<Rightarrow> dname res"
  aq_api :: "'net ipnet_api"
  aq_var :: "string \<Rightarrow> string option"
  aq_client :: "unit res"
  aq_spawn :: "azure_auth \<Rightarrow> string \<Rightarrow> bool \<Rightarrow> cloud \<Rightarrow> 's hook"
  aq_cancel :: "'s hook"

definition azure_line ::
    "('s, 'net) azure_parse \<Rightarrow> (string \<Rightarrow> err) \<Rightarrow> err \<Rightarrow> string \<Rightarrow> string list \<Rightarrow> azure_options \<Rightarrow> azure_options res" where
  "azure_line ps ef arg_e v a o1 =
     (if v \<in> {''tenant'', ''client'', ''secret'', ''subscription'', ''environment'', ''access''} then
        (if length a \<noteq> 1 then Inl arg_e
         else if v = ''tenant'' then Inr (o1\<lparr>ap_tenant := Some (hd a)\<rparr>)
         else if v = ''client'' then Inr (o1\<lparr>ap_client := Some (hd a)\<rparr>)
         else if v = ''secret'' then Inr (o1\<lparr>ap_secret := Some (hd a)\<rparr>)
         else if v = ''subscription'' then Inr (o1\<lparr>ap_subscription := Some (hd a)\<rparr>)
         else if v = ''environment'' then Inr (o1\<lparr>ap_environment := hd a\<rparr>)
         else if hd a = ''private'' then Inr (o1\<lparr>ap_private := True\<rparr>)
         else if hd a = ''public'' then Inr (o1\<lparr>ap_private := False\<rparr>)
         else Inl (ef (''unknown access '' @ quote (hd a))))
      else if v = ''fallthrough'' then
        rbind (if a = [] then Inr [''.''] else normalize_zones (aq_from_ascii ps) (aq_api ps) a) (\<lambda>z. Inr (o1\<lparr>ap_fallthrough := Some z\<rparr>))
      else Inl (ef (''unknown property '' @ quote v)))"

definition azure_property :: "('s, 'net) azure_parse \<Rightarrow> azure_options \<Rightarrow> 's controller \<Rightarrow> azure_options res \<times> 's controller" where
  "azure_property ps = line_property (\<lambda>_. True) (azure_line ps)"

definition azure_hosts :: "string \<Rightarrow> (string \<times> string) option" where
  "azure_hosts environment =
     (let u = (\<lambda>h. ''https:'' @ [CHR 0x2F, CHR 0x2F] @ h) in
      if environment = ''AzurePublicCloud'' then Some (u ''login.microsoftonline.com'', u ''management.azure.com'')
      else if environment = ''AzureUSGovernmentCloud'' then Some (u ''login.microsoftonline.us'', u ''management.usgovcloudapi.net'')
      else if environment = ''AzureChinaCloud'' then Some (u ''login.chinacloudapi.cn'', u ''management.chinacloudapi.cn'')
      else None)"

definition azure_auth_of :: "(string \<Rightarrow> err) \<Rightarrow> azure_options \<Rightarrow> (azure_auth \<times> string) res" where
  "azure_auth_of ef o1 =
     (case azure_hosts (ap_environment o1) of
        None \<Rightarrow> Inl (ef (''unknown environment '' @ quote (ap_environment o1)))
      | Some (login, management) \<Rightarrow>
          (case (ap_tenant o1, ap_client o1, ap_secret o1, ap_subscription o1) of
             (Some t, Some cl, Some sc, Some sub) \<Rightarrow>
               Inr (\<lparr>az_tenant = t, az_client = cl, az_secret = sc, az_login_host = login, az_management = management\<rparr>, sub)
           | _ \<Rightarrow> Inl (ef ''tenant, client, secret and subscription are required (or the AZURE_* environment)'')))"

definition azure_body :: "('s, 'net) azure_parse \<Rightarrow> 's cloud_env \<Rightarrow> 's setup_fn" where
  "azure_body ps env c =
     (case ctl_disp remaining_args_until_brace c of (as, c1) \<Rightarrow>
        (case azure_ids (ctl_errf c1) as of
           Inl e \<Rightarrow> (Inl e, c1)
         | Inr ids \<Rightarrow>
             if ids = [] then (Inl (ctl_errf c1 ''no zones specified''), c1)
             else (case block_loop (azure_property ps) \<lparr>ap_tenant = aq_var ps ''AZURE_TENANT_ID'', ap_client = aq_var ps ''AZURE_CLIENT_ID'',
                     ap_secret = aq_var ps ''AZURE_CLIENT_SECRET'', ap_subscription = aq_var ps ''AZURE_SUBSCRIPTION_ID'',
                     ap_environment = ''AzurePublicCloud'', ap_private = False, ap_fallthrough = None\<rparr> c1 of
                (Inl e, c2) \<Rightarrow> (Inl e, c2)
              | (Inr o1, c2) \<Rightarrow>
                  (case azure_auth_of (ctl_errf c2) o1 of
                     Inl e \<Rightarrow> (Inl e, c2)
                   | Inr (au, sub) \<Rightarrow>
                       cloud_start (aq_client ps) (aq_spawn ps au sub (ap_private o1)) (aq_cancel ps) env
                         \<lparr>cl_plugin = ''azure'', cl_ids = ids, cl_fallthrough = ap_fallthrough o1, cl_refresh = 60 * SECOND\<rparr> c2))))"

definition azure_setup :: "('s, 'net) azure_parse \<Rightarrow> 's cloud_env \<Rightarrow> 's setup_fn" where
  "azure_setup ps env = single_setup ''azure'' (azure_body ps env)"

section \<open>clouddns\<close>

datatype google_auth = ServiceAccount string "u8 list" string | Metadata

datatype pem_key = Pkcs8 "u8 list" | OtherKey

text \<open>\<open>gj_json\<close> decodes JSON, \<open>gj_pem\<close> reads the private key of a PEM text, if there is one.\<close>

record google_api =
  gj_json :: "string \<Rightarrow> json res"
  gj_pem :: "string \<Rightarrow> pem_key option res"
  gj_b64 :: "u8 list \<Rightarrow> string"
  gj_rsa_key :: "u8 list \<Rightarrow> u8 list res"
  gj_rsa_sign :: "u8 list \<Rightarrow> u8 list \<Rightarrow> u8 list res"

definition google_from_json :: "google_api \<Rightarrow> string \<Rightarrow> google_auth res" where
  "google_from_json api txt =
     rbind (gj_json api txt) (\<lambda>v.
     rbind (ok_or ''credentials: no client_email'' (json_str v ''client_email'')) (\<lambda>email.
     rbind (ok_or ''credentials: no private_key'' (json_str v ''private_key'')) (\<lambda>pem.
     rbind (gj_pem api pem) (\<lambda>key.
       case key of
         None \<Rightarrow> Inl ''credentials: private_key is not a PEM private key''
       | Some OtherKey \<Rightarrow> Inl ''credentials: private_key must be PKCS#8''
       | Some (Pkcs8 k) \<Rightarrow>
           Inr (ServiceAccount email k (str_or (''https:'' @ [CHR 0x2F, CHR 0x2F] @ ''oauth2.googleapis.com'' @ [CHR 0x2F] @ ''token'') (json_str v ''token_uri'')))))))"

text \<open>The entries of the claims are in the order of their names, as the map holds them.\<close>

definition jwt_claims :: "string \<Rightarrow> string \<Rightarrow> nat \<Rightarrow> json" where
  "jwt_claims email token_uri now =
     J_Object [(''aud'', J_String token_uri), (''exp'', J_U64 (now + 3600)), (''iat'', J_U64 now), (''iss'', J_String email),
       (''scope'', J_String (''https:'' @ [CHR 0x2F, CHR 0x2F] @ ''www.googleapis.com'' @ [CHR 0x2F] @ ''auth'' @ [CHR 0x2F] @ ''ndev.clouddns.readonly''))]"

definition google_jwt :: "google_api \<Rightarrow> (json \<Rightarrow> string) \<Rightarrow> string \<Rightarrow> u8 list \<Rightarrow> string \<Rightarrow> nat \<Rightarrow> string res" where
  "google_jwt api shw email key token_uri now =
     (let dq = [CHR 0x22];
          header = gj_b64 api (bytes_of (''{'' @ dq @ ''alg'' @ dq @ '':'' @ dq @ ''RS256'' @ dq @ '','' @ dq @ ''typ'' @ dq @ '':'' @ dq @ ''JWT'' @ dq @ ''}''));
          signing_input = header @ ''.'' @ gj_b64 api (bytes_of (shw (jwt_claims email token_uri now))) in
      case gj_rsa_key api key of
        Inl e \<Rightarrow> Inl (''service account key: '' @ e)
      | Inr k \<Rightarrow>
          (case gj_rsa_sign api k (bytes_of signing_input) of
             Inl e \<Rightarrow> Inl (''signing JWT: '' @ e)
           | Inr sg \<Rightarrow> Inr (signing_input @ ''.'' @ gj_b64 api sg)))"

text \<open>\<open>metadata\<close> asks the metadata server of the machine for the token of the default account.\<close>

definition google_token ::
    "google_api \<Rightarrow> 's http_env \<Rightarrow> ('s \<Rightarrow> json res \<times> 's) \<Rightarrow> google_auth \<Rightarrow> 's \<Rightarrow> string res \<times> 's" where
  "google_token api env metadata au =
     cached_token env (\<lambda>s.
       (case (case au of
           ServiceAccount email key token_uri \<Rightarrow>
             (case google_jwt api (ht_show env) email key token_uri (ht_timestamp env s) of
                Inl e \<Rightarrow> (Inl e, s)
              | Inr jwt \<Rightarrow> ht_post env token_uri [(''grant_type'', ''urn:ietf:params:oauth:grant-type:jwt-bearer''), (''assertion'', jwt)] s)
         | Metadata \<Rightarrow> metadata s) of
          (Inl e, s1) \<Rightarrow> (Inl e, s1)
        | (Inr resp, s1) \<Rightarrow> (token_of ''no access_token'' resp, s1)))"

definition google_lines :: "json \<Rightarrow> string" where
  "google_lines rs =
     (let name = str_or [] (json_str rs ''name''); ty = str_or [] (json_str rs ''type''); ttl = num_or 300 (json_num rs ''ttl'') mod 2 ^ 32 in
      concat (map (rr_line name ttl ty) (List.map_filter as_str (json_list rs ''rrdatas''))))"

definition google_url :: "string \<Rightarrow> string \<Rightarrow> string option \<Rightarrow> string" where
  "google_url project zone page =
     join_with [CHR 0x2F] [''https:'', [], ''dns.googleapis.com'', ''dns'', ''v1'', ''projects'', project, ''managedZones'', zone, ''rrsets?maxResults=1000''] @
       (case page of Some p \<Rightarrow> [CHR 0x26] @ ''pageToken='' @ p | None \<Rightarrow> [])"

definition google_request ::
    "google_api \<Rightarrow> 's http_env \<Rightarrow> ('s \<Rightarrow> json res \<times> 's) \<Rightarrow> google_auth \<Rightarrow> string \<Rightarrow> string \<Rightarrow> string option \<Rightarrow> 's \<Rightarrow>
      (string \<times> string option option) res \<times> 's" where
  "google_request api env metadata au project zone page s =
     (case google_token api env metadata au s of
        (Inl e, s1) \<Rightarrow> (Inl e, s1)
      | (Inr tok, s1) \<Rightarrow>
          (case ht_get env (google_url project zone page) tok s1 of
             (Inl e, s2) \<Rightarrow> (Inl e, s2)
           | (Inr (good, status, body), s2) \<Rightarrow>
               if \<not> good then (Inl (''clouddns '' @ status @ '': '' @ ht_show env body), s2)
               else (Inr (concat (map google_lines (json_list body ''rrsets'')),
                   (case json_str body ''nextPageToken'' of Some t \<Rightarrow> if t \<noteq> [] then Some (Some t) else None | None \<Rightarrow> None)), s2)))"

definition google_fetch_zone ::
    "google_api \<Rightarrow> 's http_env \<Rightarrow> ('s \<Rightarrow> json res \<times> 's) \<Rightarrow> google_auth \<Rightarrow> string \<Rightarrow> 's \<Rightarrow> (string res \<times> 's) option" where
  "google_fetch_zone api env metadata au project_zone s =
     (case find_char (CHR '':'') project_zone of
        None \<Rightarrow> Some (Inl (''bad zone id '' @ project_zone), s)
      | Some i \<Rightarrow> page_loop (google_request api env metadata au (take i project_zone) (drop (i + 1) project_zone)) [] None s)"

text \<open>\<open>ZONE:PROJECT_ID:HOSTED_ZONE_NAME\<close>, none of them empty; the last one may hold colons.\<close>

definition three_parts :: "string \<Rightarrow> (string \<times> string \<times> string) option" where
  "three_parts a =
     (case find_char (CHR '':'') a of
        None \<Rightarrow> None
      | Some i \<Rightarrow>
          (let rest = drop (i + 1) a in
           case find_char (CHR '':'') rest of
             None \<Rightarrow> None
           | Some j \<Rightarrow>
               (let x = take i a; y = take j rest; z = drop (j + 1) rest in
                if x = [] \<or> y = [] \<or> z = [] then None else Some (x, y, z))))"

fun google_ids :: "(string \<Rightarrow> err) \<Rightarrow> (string \<times> string) list \<Rightarrow> string list \<Rightarrow> (string \<times> string) list res" where
  "google_ids ef ids [] = Inr ids"
| "google_ids ef ids (a # as) =
     (case three_parts a of
        None \<Rightarrow> Inl (ef (''invalid zone '' @ quote a @ '', expected ZONE:PROJECT_ID:HOSTED_ZONE_NAME''))
      | Some (x, y, z) \<Rightarrow>
          (let i = (fqdn x, y @ '':'' @ z) in
           if i \<in> set ids then Inl (ef (''conflict zone '' @ quote a)) else google_ids ef (ids @ [i]) as))"

record google_options =
  gp_credentials :: "string option"
  gp_fallthrough :: "string list option"

record ('s, 'net) google_parse =
  gq_from_ascii :: "string \<Rightarrow> dname res"
  gq_api :: "'net ipnet_api"
  gq_google :: google_api
  gq_var :: "string \<Rightarrow> string option"
  gq_read :: "string \<Rightarrow> string res"
  gq_client :: "unit res"
  gq_spawn :: "google_auth \<Rightarrow> cloud \<Rightarrow> 's hook"
  gq_cancel :: "'s hook"

definition google_line ::
    "('s, 'net) google_parse \<Rightarrow> string \<Rightarrow> (string \<Rightarrow> err) \<Rightarrow> err \<Rightarrow> string \<Rightarrow> string list \<Rightarrow> google_options \<Rightarrow> google_options res" where
  "google_line ps root ef arg_e v a o1 =
     (if v = ''credentials'' then (if length a \<noteq> 1 then Inl arg_e else Inr (o1\<lparr>gp_credentials := Some (path_join root (hd a))\<rparr>))
      else if v = ''fallthrough'' then
        rbind (if a = [] then Inr [''.''] else normalize_zones (gq_from_ascii ps) (gq_api ps) a) (\<lambda>z. Inr (o1\<lparr>gp_fallthrough := Some z\<rparr>))
      else Inl (ef (''unknown property '' @ quote v)))"

definition google_property :: "('s, 'net) google_parse \<Rightarrow> string \<Rightarrow> google_options \<Rightarrow> 's controller \<Rightarrow> google_options res \<times> 's controller" where
  "google_property ps root = line_property (\<lambda>v. v \<in> {''credentials'', ''fallthrough''}) (google_line ps root)"

definition google_auth_of :: "('s, 'net) google_parse \<Rightarrow> (string \<Rightarrow> err) \<Rightarrow> string option \<Rightarrow> google_auth res" where
  "google_auth_of ps ef credentials =
     (case credentials of
        None \<Rightarrow> Inr Metadata
      | Some p \<Rightarrow>
          (case gq_read ps p of
             Inl e \<Rightarrow> Inl (ef (''reading '' @ p @ '': '' @ e))
           | Inr txt \<Rightarrow> (case google_from_json (gq_google ps) txt of Inl e \<Rightarrow> Inl (ef e) | Inr au \<Rightarrow> Inr au)))"

definition clouddns_body :: "('s, 'net) google_parse \<Rightarrow> 's cloud_env \<Rightarrow> 's setup_fn" where
  "clouddns_body ps env c =
     (case ctl_disp remaining_args_until_brace c of (as, c1) \<Rightarrow>
        (case google_ids (ctl_errf c1) [] as of
           Inl e \<Rightarrow> (Inl e, c1)
         | Inr ids \<Rightarrow>
             if ids = [] then (Inl (ctl_errf c1 ''no zones specified''), c1)
             else (case block_loop (google_property ps (sc_root (ct_config c1)))
                     \<lparr>gp_credentials = gq_var ps ''GOOGLE_APPLICATION_CREDENTIALS'', gp_fallthrough = None\<rparr> c1 of
                (Inl e, c2) \<Rightarrow> (Inl e, c2)
              | (Inr o1, c2) \<Rightarrow>
                  (case google_auth_of ps (ctl_errf c2) (gp_credentials o1) of
                     Inl e \<Rightarrow> (Inl e, c2)
                   | Inr au \<Rightarrow>
                       cloud_start (gq_client ps) (gq_spawn ps au) (gq_cancel ps) env
                         \<lparr>cl_plugin = ''clouddns'', cl_ids = ids, cl_fallthrough = gp_fallthrough o1, cl_refresh = 60 * SECOND\<rparr> c2))))"

definition clouddns_setup :: "('s, 'net) google_parse \<Rightarrow> 's cloud_env \<Rightarrow> 's setup_fn" where
  "clouddns_setup ps env = single_setup ''clouddns'' (clouddns_body ps env)"

section \<open>Contracts\<close>

interpretation azure_block: block_property "azure_property ps"
  unfolding azure_property_def by (rule line_property_block) (simp add: azure_line_def is_ok_def)

interpretation google_block: block_property "google_property ps root"
  unfolding google_property_def by (rule line_property_block) (simp add: google_line_def is_ok_def)

lemma azure_body_appends: "azure_body ps env c = (r, c') \<Longrightarrow> appends_plugins c c'"
proof -
  assume run: "azure_body ps env c = (r, c')"
  obtain as c1 where a: "ctl_disp remaining_args_until_brace c = (as, c1)"
    by (cases "ctl_disp remaining_args_until_brace c")
  note st = args_block_steps [OF a azure_block.block_property_axioms]
  show ?thesis
    using run a appends_disp [OF a]
    by (auto simp: azure_body_def split: sum.splits prod.splits if_splits dest: st(2) elim!: cloud_start_appends intro!: appends_steps)
qed

interpretation azure_setup: setup_function "azure_setup ps env"
  unfolding azure_setup_def by (rule single_setup_function [OF azure_body_appends])

lemma clouddns_body_appends: "clouddns_body ps env c = (r, c') \<Longrightarrow> appends_plugins c c'"
proof -
  assume run: "clouddns_body ps env c = (r, c')"
  obtain as c1 where a: "ctl_disp remaining_args_until_brace c = (as, c1)"
    by (cases "ctl_disp remaining_args_until_brace c")
  note st = args_block_steps [OF a google_block.block_property_axioms]
  show ?thesis
    using run a appends_disp [OF a]
    by (auto simp: clouddns_body_def split: sum.splits prod.splits if_splits dest: st(2) elim!: cloud_start_appends intro!: appends_steps)
qed

interpretation clouddns_setup: setup_function "clouddns_setup ps env"
  unfolding clouddns_setup_def by (rule single_setup_function [OF clouddns_body_appends])

section \<open>Tokens and record sets\<close>

text \<open>A token that was obtained is given again, without asking, until the instant at which it counts as expired.\<close>

lemma cached_token_again:
  assumes "\<And>x s. ht_token env (ht_set_token env x s) = Some x"
    and "cached_token env ask s = (Inr t, s1)"
  obtains expiry where "ht_token env s1 = Some (t, expiry)"
    and "\<And>ask' s'. ht_token env s' = ht_token env s1 \<Longrightarrow> ht_now env s' < expiry \<Longrightarrow> cached_token env ask' s' = (Inr t, s')"
proof -
  have "\<exists>expiry. ht_token env s1 = Some (t, expiry)"
    using assms(2) by (auto simp: cached_token_def Let_def assms(1) split: option.splits prod.splits sum.splits if_splits)
  then obtain expiry where e: "ht_token env s1 = Some (t, expiry)" by blast
  show ?thesis by (rule that [OF e]) (simp add: cached_token_def Let_def e)
qed

abbreviation lowered :: "(string \<times> json) list \<Rightarrow> (string \<times> json) list" where
  "lowered kvs \<equiv> map (\<lambda>(n, v). (to_ascii_lowercase n, v)) kvs"

lemma find_lowered: "map_option snd (find (\<lambda>(n, _). to_ascii_lowercase n = k) kvs) = map_of (lowered kvs) k"
  by (induction kvs) auto

lemma json_prop_lowered:
  assumes "distinct (map fst (lowered kvs))"
  shows "json_prop (J_Object kvs) k = map_of (lowered kvs) (to_ascii_lowercase k)"
proof (cases "map_of kvs k")
  case (Some v)
  then have "(to_ascii_lowercase k, v) \<in> set (lowered kvs)" by (force dest: map_of_SomeD)
  then show ?thesis using Some assms by (simp add: json_prop_def json_get_def)
next
  case None
  then show ?thesis by (simp add: json_prop_def json_get_def find_lowered)
qed

text \<open>Two objects whose entries differ only in the letter case of their names have the same properties.\<close>

lemma json_prop_case:
  assumes "lowered kvs = lowered kvs'" and "distinct (map fst (lowered kvs))"
  shows "json_prop (J_Object kvs) = json_prop (J_Object kvs')"
  using assms by (auto simp: json_prop_lowered fun_eq_iff)

lemma last_segment: "CHR 0x2F \<notin> set t \<Longrightarrow> last (split_char (CHR 0x2F) (u @ CHR 0x2F # t)) = t"
  by (simp add: split_char_append_all split_char_notin)

lemma rdata_texts_prop: "json_prop p = json_prop p' \<Longrightarrow> rdata_texts p = rdata_texts p'"
  by (simp add: rdata_texts_def prop_list_def fun_eq_iff)

text \<open>The public and the private interface of Azure spell the names of the properties of a record set and the type differently,
  with other letter case and with another path before the type; the lines of the zone text made from a record set do
  not depend on it.\<close>

lemma azure_spelling:
  assumes "json_get rs ''properties'' = Some (J_Object kvs)" "json_get rs' ''properties'' = Some (J_Object kvs')"
    and "lowered kvs = lowered kvs'" "distinct (map fst (lowered kvs))"
    and "json_str rs ''name'' = json_str rs' ''name''"
    and "json_str rs ''type'' = Some (u @ CHR 0x2F # ty)" "json_str rs' ''type'' = Some (u' @ CHR 0x2F # ty)" "CHR 0x2F \<notin> set ty"
  shows "rrset_lines rs zone = rrset_lines rs' zone"
  using json_prop_case [OF assms(3,4)] rdata_texts_prop [OF json_prop_case [OF assms(3,4)]]
  by (simp add: rrset_lines_def assms(1,2,5-8) str_or_def last_segment)

text \<open>
  A value that ends in a backslash closes no quote: the backslash is copied as it is, so that what follows it
  in the line, the quote that should end the text, is escaped.
\<close>

lemma azure_txt_backslash: "quoted_text [CHR ''x'', CHR 0x5C] = [CHR 0x22, CHR ''x'', CHR 0x5C, CHR 0x22]"
  by code_simp

text \<open>Whether the zone needs an SOA is read off the text: a text record whose value holds the word keeps it from getting one.\<close>

lemma azure_soa_by_word:
  "with_azure_soa zone now (rr_line ''a.'' 300 ''TXT'' (quoted_text ''the SOA record'')) = rr_line ''a.'' 300 ''TXT'' (quoted_text ''the SOA record'')"
proof -
  have "find_sub '' SOA '' (rr_line ''a.'' 300 ''TXT'' (quoted_text ''the SOA record'')) \<noteq> None" by code_simp
  then show ?thesis unfolding with_azure_soa_def by (rule if_not_P)
qed

end
