(* ===== verification/Directives.thy ===== *)
theory Directives
  imports Block_Setup
begin

text \<open>
  The directives that set up a server block without adding a handler: \<open>src/plugins/bind.rs\<close>, \<open>on.rs\<close>, \<open>reload.rs\<close> and \<open>tls.rs\<close>.

  The interfaces of the host, the processes, the Corefile as it is parsed at an instant, its digest, the TLS library and
  the task that watches the file are arguments; the loop of that task is one step per wake-up.

  Shown here: the addresses bound to are the ones asked for without the excepted ones, each once; the wait between two
  looks at the Corefile is bounded; a reload is asked for exactly when the parsed file is not the one seen last; a hook
  without a command panics; the setups only append.
\<close>

section \<open>bind\<close>

definition iface_addrs :: "(string \<times> ip_addr) list \<Rightarrow> string \<Rightarrow> ip_addr list" where
  "iface_addrs ifaces n = map snd (filter (\<lambda>(m, _). m = n) ifaces)"

text \<open>An argument is an address or the name of an interface with at least one.\<close>

definition bind_arg :: "(string \<times> ip_addr) list \<Rightarrow> (string \<Rightarrow> err) \<Rightarrow> string \<Rightarrow> ip_addr list res" where
  "bind_arg ifaces ef a =
     (case parse_ip a of
        Some ip \<Rightarrow> Inr [ip]
      | None \<Rightarrow>
          (let v = iface_addrs ifaces a in
           if v \<noteq> [] then Inr v
           else Inl (ef (''not a valid IP address or interface name: '' @ [CHR 0x22] @ a @ [CHR 0x22]))))"

definition bind_line ::
    "(string \<times> ip_addr) list \<Rightarrow> (string \<Rightarrow> err) \<Rightarrow> err \<Rightarrow> string \<Rightarrow> string list \<Rightarrow> ip_addr list \<Rightarrow> ip_addr list res" where
  "bind_line ifaces ef arg_e v a except =
     (if v = ''except'' then rbind (try_flat_map (bind_arg ifaces ef) a) (\<lambda>new. Inr (except @ new))
      else Inl (ef (''unknown property '' @ quote v)))"

definition bind_property :: "(string \<times> ip_addr) list \<Rightarrow> ip_addr list \<Rightarrow> 's controller \<Rightarrow> ip_addr list res \<times> 's controller" where
  "bind_property ifaces = line_property (\<lambda>v. v = ''except'') (bind_line ifaces)"

definition bind_add :: "ip_addr list \<Rightarrow> string list \<Rightarrow> ip_addr \<Rightarrow> string list" where
  "bind_add except allh ip =
     (if ip \<in> set except then allh
      else if show_ip ip \<notin> set allh then allh @ [show_ip ip] else allh)"

definition bind_body ::
    "(string \<times> ip_addr) list \<Rightarrow> string list \<times> ip_addr list \<Rightarrow> 's controller \<Rightarrow> (string list \<times> ip_addr list) res \<times> 's controller" where
  "bind_body ifaces st c =
     (case ctl_disp remaining_args_until_brace c of (as, c1) \<Rightarrow>
        if as = [] then (Inl (ctl_errf c1 ''at least one address or interface name is expected''), c1)
        else (case try_flat_map (bind_arg ifaces (ctl_errf c1)) as of
            Inl e \<Rightarrow> (Inl e, c1)
          | Inr wants \<Rightarrow>
              (case block_loop (bind_property ifaces) (snd st) c1 of
                 (Inl e, c2) \<Rightarrow> (Inl e, c2)
               | (Inr except, c2) \<Rightarrow> (Inr (foldl (bind_add except) (fst st) wants, except), c2))))"

definition bind_setup :: "(string \<times> ip_addr) list \<Rightarrow> 's setup_fn" where
  "bind_setup ifaces c =
     (case next_loop (bind_body ifaces) ([], []) c of
        (Inl e, c1) \<Rightarrow> (Inl e, c1)
      | (Inr (allh, _), c1) \<Rightarrow>
          if allh = [] then (Inl (ctl_errf c1 ''no addresses to bind to after applying exceptions''), c1)
          else (Inr (), on_config (\<lambda>g. g\<lparr>sc_listen_hosts := allh\<rparr>) c1))"

section \<open>on\<close>

text \<open>
  \<open>ov_spawn\<close> starts a process, \<open>ov_output\<close> runs one to its end and gives whether it succeeded, its status and what it wrote as errors;
  \<open>ov_hook\<close> makes a hook of a run that may panic, which is the value \<open>None\<close>.
\<close>

record 's on_env =
  ov_spawn :: "string list \<Rightarrow> 's \<Rightarrow> unit res \<times> 's"
  ov_output :: "string list \<Rightarrow> 's \<Rightarrow> (bool \<times> string \<times> string) res \<times> 's"
  ov_hook :: "('s \<Rightarrow> unit res option \<times> 's) \<Rightarrow> 's hook"

definition on_run :: "'s on_env \<Rightarrow> string list \<Rightarrow> bool \<Rightarrow> string \<Rightarrow> 's \<Rightarrow> unit res option \<times> 's" where
  "on_run env cmd background event s =
     (let cmdline = join_with '' '' cmd in
      if cmd = [] then (None, s)
      else if background then (Some (Inr ()), snd (ov_spawn env cmd s))
      else (case ov_output env cmd s of
          (Inl e, s1) \<Rightarrow> (Some (Inl (''plugin/on: '' @ event @ '' '' @ cmdline @ '': '' @ e)), s1)
        | (Inr (good, status, errs), s1) \<Rightarrow>
            if \<not> good then (Some (Inl (''plugin/on: '' @ event @ '' '' @ cmdline @ '' exited with '' @ status @ '': '' @ trim errs)), s1)
            else (Some (Inr ()), s1)))"

definition on_body :: "'s on_env \<Rightarrow> unit \<Rightarrow> 's controller \<Rightarrow> unit res \<times> 's controller" where
  "on_body env u c =
     (case ctl_disp remaining_args c of (as, c1) \<Rightarrow>
        if length as < 2 then (Inl (ctl_errf c1 (''on EVENT COMMAND [ARGS...] ['' @ [CHR 0x26] @ ''] expected'')), c1)
        else
          (let event = hd as; background = (last (tl as) = [CHR 0x26]); cmd = (if background then butlast (tl as) else tl as) in
           if event = ''startup'' then (Inr (), on_startup (ov_hook env (on_run env cmd background ''startup'')) c1)
           else if event = ''shutdown'' then (Inr (), on_shutdown (ov_hook env (on_run env cmd background ''shutdown'')) c1)
           else (Inl (ctl_errf c1 (''unknown event '' @ quote event @ ''; expected startup or shutdown'')), c1)))"

definition on_setup :: "'s on_env \<Rightarrow> 's setup_fn" where
  "on_setup env = next_loop (on_body env) ()"

section \<open>reload\<close>

text \<open>
  \<open>rl_blocks\<close> is what the Corefile parses to at an instant, \<open>rl_digest\<close> the hash of the blocks, \<open>rl_spawn\<close> starts the task that watches
  with an interval, a jitter, the path and the hash seen last, \<open>rl_cancel\<close> ends it.
\<close>

record 's reload_env =
  rl_blocks :: "string \<Rightarrow> 's \<Rightarrow> server_block list res"
  rl_digest :: "server_block list \<Rightarrow> string"
  rl_spawn :: "nat \<Rightarrow> nat \<Rightarrow> string \<Rightarrow> string \<Rightarrow> 's \<Rightarrow> 's"
  rl_cancel :: "'s hook"
  rl_parse_duration :: "string \<Rightarrow> nat res"

definition hash_file :: "'s reload_env \<Rightarrow> string \<Rightarrow> 's \<Rightarrow> string option" where
  "hash_file env path s = map_option (rl_digest env) (ok (rl_blocks env path s))"

definition at_least :: "nat \<Rightarrow> nat \<Rightarrow> nat" where
  "at_least lo d = (if d < lo then lo else d)"

definition reload_body ::
    "'s reload_env \<Rightarrow> nat \<times> nat \<times> nat \<Rightarrow> 's controller \<Rightarrow> (nat \<times> nat \<times> nat) res \<times> 's controller" where
  "reload_body env st c =
     (case st of (n, interval0, jitter0) \<Rightarrow>
        if n > 0 then (Inl (ctl_errf c ''plugin/reload: this plugin can only be used once per Server Block''), c)
        else (case ctl_disp remaining_args c of (as, c1) \<Rightarrow>
          if length as > 2 then (Inl (ctl_arg_err c1), c1)
          else
            (rbind (case as of i # _ \<Rightarrow> rbind (rl_parse_duration env i) (\<lambda>d. Inr (at_least (2 * SECOND) d)) | [] \<Rightarrow> Inr interval0) (\<lambda>interval.
             rbind (case as of _ # j # _ \<Rightarrow> rbind (rl_parse_duration env j) (\<lambda>d. Inr (at_least SECOND d)) | _ \<Rightarrow> Inr jitter0) (\<lambda>jitter.
               Inr (n + 1, interval, if jitter > interval div 2 then interval div 2 else jitter))), c1)))"

definition reload_startup :: "'s reload_env \<Rightarrow> nat \<Rightarrow> nat \<Rightarrow> string \<Rightarrow> 's hook" where
  "reload_startup env interval jitter corefile s =
     (Inr (), rl_spawn env interval jitter corefile (case hash_file env corefile s of Some h \<Rightarrow> h | None \<Rightarrow> []) s)"

definition reload_setup :: "'s reload_env \<Rightarrow> 's setup_fn" where
  "reload_setup env c =
     (case next_loop (reload_body env) (0, 30 * SECOND, 15 * SECOND) c of
        (Inl e, c1) \<Rightarrow> (Inl e, c1)
      | (Inr (_, interval, jitter), c1) \<Rightarrow>
          (let corefile = (case sc_values (ct_config c1) ''corefile'' of Some p \<Rightarrow> p | None \<Rightarrow> ''Corefile'') in
           case once_per_server_block (\<lambda>c. (Inr (), on_startup (reload_startup env interval jitter corefile) (on_shutdown (rl_cancel env) c))) c1 of
             (Inl e, c2) \<Rightarrow> (Inl e, c2)
           | (Inr _, c2) \<Rightarrow> (Inr (), c2)))"

text \<open>The wait for a random number of milliseconds \<open>j\<close> up to the jitter, and what a wake-up does: the new hash and whether a reload is asked for.\<close>

definition MILLI :: nat where "MILLI = 1000000"

definition reload_wait :: "nat \<Rightarrow> nat \<Rightarrow> nat \<Rightarrow> nat" where
  "reload_wait interval jitter j = interval - jitter + j * MILLI"

definition reload_wake :: "'s reload_env \<Rightarrow> string \<Rightarrow> string \<Rightarrow> 's \<Rightarrow> string \<times> bool" where
  "reload_wake env corefile hash s =
     (case hash_file env corefile s of
        Some h \<Rightarrow> if h \<noteq> hash then (h, True) else (hash, False)
      | None \<Rightarrow> (hash, False))"

section \<open>tls\<close>

datatype client_auth = Nocert | RequestCert | RequireCert | VerifyCert | RequireAndVerify

definition client_auth_parse :: "string \<Rightarrow> client_auth option" where
  "client_auth_parse s =
     (if s = ''nocert'' then Some Nocert
      else if s = ''request'' then Some RequestCert
      else if s = ''require'' then Some RequireCert
      else if s = ''verify_if_given'' then Some VerifyCert
      else if s = ''require_and_verify'' then Some RequireAndVerify
      else None)"

fun client_auth_debug :: "client_auth \<Rightarrow> string" where
  "client_auth_debug Nocert = ''Nocert''"
| "client_auth_debug RequestCert = ''Request''"
| "client_auth_debug RequireCert = ''Require''"
| "client_auth_debug VerifyCert = ''Verify''"
| "client_auth_debug RequireAndVerify = ''RequireAndVerify''"

definition tls_line :: "(string \<Rightarrow> err) \<Rightarrow> err \<Rightarrow> string \<Rightarrow> string list \<Rightarrow> client_auth \<Rightarrow> client_auth res" where
  "tls_line ef arg_e v a au =
     (if v = ''client_auth'' then
        (if length a \<noteq> 1 then Inl arg_e
         else ok_or (ef (''unknown authentication type '' @ quote (hd a))) (client_auth_parse (hd a)))
      else Inl (ef (''unknown property '' @ quote v)))"

definition tls_property :: "client_auth \<Rightarrow> 's controller \<Rightarrow> client_auth res \<times> 's controller" where
  "tls_property = line_property (\<lambda>v. v = ''client_auth'') tls_line"

text \<open>\<open>mk\<close> builds the TLS configuration from the files of the certificate, the key and the authorities.\<close>

definition tls_body :: "(string \<Rightarrow> string \<Rightarrow> string option \<Rightarrow> client_auth \<Rightarrow> tls_config res) \<Rightarrow> 's setup_fn" where
  "tls_body mk c =
     (case ctl_disp remaining_args_until_brace c of (as, c1) \<Rightarrow>
        if length as < 2 \<or> length as > 3 then (Inl (ctl_errf c1 ''tls needs CERT KEY [CA]''), c1)
        else
          (let root = sc_root (ct_config c1) in
           case block_loop tls_property Nocert c1 of
             (Inl e, c2) \<Rightarrow> (Inl e, c2)
           | (Inr au, c2) \<Rightarrow>
               (case mk (path_join root (as ! 0)) (path_join root (as ! 1)) (if length as = 3 then Some (path_join root (as ! 2)) else None) au of
                  Inl e \<Rightarrow> (Inl (ctl_errf c2 e), c2)
                | Inr cfg \<Rightarrow>
                    (Inr (), on_config (\<lambda>g. g\<lparr>sc_tls := Some cfg, sc_values := (sc_values g)(''tls/client_auth'' \<mapsto> client_auth_debug au)\<rparr>) c2))))"

definition tls_setup :: "(string \<Rightarrow> string \<Rightarrow> string option \<Rightarrow> client_auth \<Rightarrow> tls_config res) \<Rightarrow> 's setup_fn" where
  "tls_setup mk = single_setup ''tls'' (tls_body mk)"

section \<open>Contracts\<close>

interpretation bind_block: block_property "bind_property ifaces"
  unfolding bind_property_def by (rule line_property_block) (simp add: bind_line_def is_ok_def)

interpretation tls_block: block_property tls_property
  unfolding tls_property_def by (rule line_property_block) (simp add: tls_line_def is_ok_def)

lemma bind_body_frame:
  assumes run: "bind_body ifaces st c = (r, c')"
  shows "appends_plugins c c'" "is_ok r \<Longrightarrow> left_over (ct_dispenser c') \<le> left_over (ct_dispenser c)"
proof -
  obtain as c1 where a: "ctl_disp remaining_args_until_brace c = (as, c1)"
    by (cases "ctl_disp remaining_args_until_brace c")
  obtain r2 c2 where b: "block_loop (bind_property ifaces) (snd st) c1 = (r2, c2)"
    by (cases "block_loop (bind_property ifaces) (snd st) c1")
  note st = args_block_steps [OF a bind_block.block_property_axioms b]
  show "appends_plugins c c'"
    using run a b st(1,2) by (auto simp: bind_body_def split: sum.splits if_splits)
  show "left_over (ct_dispenser c') \<le> left_over (ct_dispenser c)" if "is_ok r"
    using run a b st(3) that by (auto simp: bind_body_def split: sum.splits if_splits)
qed

interpretation bind_directive: directive_body "bind_body ifaces"
  by unfold_locales (auto dest: bind_body_frame)

interpretation bind_setup: setup_function "bind_setup ifaces"
  by (rule setup_functionI)
    (auto simp: bind_setup_def split: prod.splits sum.splits if_splits dest!: bind_directive.next_loop_appends intro: appends_steps)

lemma on_body_frame:
  assumes run: "on_body env u c = (r, c')"
  shows "appends_plugins c c'" "left_over (ct_dispenser c') \<le> left_over (ct_dispenser c)"
proof -
  obtain as c1 where a: "ctl_disp remaining_args c = (as, c1)" by (cases "ctl_disp remaining_args c")
  show "appends_plugins c c'"
    using run a appends_disp [OF a] by (auto simp: on_body_def Let_def split: if_splits intro: appends_steps)
  show "left_over (ct_dispenser c') \<le> left_over (ct_dispenser c)"
    using run a left_over_disp [OF a left_over_remaining_args]
    by (auto simp: on_body_def Let_def on_startup_def on_shutdown_def on_config_def split: if_splits)
qed

interpretation on_directive: directive_body "on_body env"
  by unfold_locales (auto dest: on_body_frame)

interpretation on_setup: setup_function "on_setup env"
  by (rule setup_functionI) (auto simp: on_setup_def intro: on_directive.next_loop_appends)

lemma reload_body_frame:
  assumes run: "reload_body env st c = (r, c')"
  shows "appends_plugins c c'" "left_over (ct_dispenser c') \<le> left_over (ct_dispenser c)"
proof -
  obtain as c1 where a: "ctl_disp remaining_args c = (as, c1)" by (cases "ctl_disp remaining_args c")
  have c': "c' = c \<or> c' = c1" using run a by (auto simp: reload_body_def split: prod.splits if_splits)
  then show "appends_plugins c c'" using appends_disp [OF a] by auto
  show "left_over (ct_dispenser c') \<le> left_over (ct_dispenser c)"
    using c' left_over_disp [OF a left_over_remaining_args] by auto
qed

interpretation reload_directive: directive_body "reload_body env"
  by unfold_locales (auto dest: reload_body_frame)

interpretation reload_setup: setup_function "reload_setup env"
  by (rule setup_functionI)
    (auto simp: reload_setup_def Let_def split: prod.splits sum.splits dest!: reload_directive.next_loop_appends elim!: once_appends intro!: appends_steps)

lemma tls_body_appends: "tls_body mk c = (r, c') \<Longrightarrow> appends_plugins c c'"
proof -
  assume run: "tls_body mk c = (r, c')"
  obtain as c1 where a: "ctl_disp remaining_args_until_brace c = (as, c1)"
    by (cases "ctl_disp remaining_args_until_brace c")
  note st = args_block_steps [OF a tls_block.block_property_axioms]
  show ?thesis
    using run a appends_disp [OF a]
    by (auto simp: tls_body_def Let_def split: sum.splits prod.splits if_splits dest: st(2) intro!: appends_steps)
qed

interpretation tls_setup: setup_function "tls_setup mk"
  unfolding tls_setup_def by (rule single_setup_function [OF tls_body_appends])

section \<open>Addresses, hooks and reloads\<close>

lemma next_loop_invariant:
  assumes "\<And>a c a' c'. P a \<Longrightarrow> body a c = (Inr a', c') \<Longrightarrow> P a'"
  shows "next_loop body a c = (Inr a', c') \<Longrightarrow> P a \<Longrightarrow> P a'"
proof (induction "left_over (ct_dispenser c)" arbitrary: a c rule: less_induct)
  case less
  consider "a' = a"
    | c1 a1 c2 where "body a c1 = (Inr a1, c2)" "left_over (ct_dispenser c2) < left_over (ct_dispenser c)" "next_loop body a1 c2 = (Inr a', c')"
    using less.prems(1) by (subst (asm) next_loop.simps) (auto split: prod.splits sum.splits bool.splits if_splits)
  then show ?case using less.hyps less.prems(2) assms by cases blast+
qed

lemma bind_adds:
  "set (foldl (bind_add ex) hs ws) = set hs \<union> show_ip ` (set ws - set ex)"
  "distinct hs \<Longrightarrow> distinct (foldl (bind_add ex) hs ws)"
  by (induction ws arbitrary: hs) (auto simp: bind_add_def)

text \<open>A directive adds the addresses it asks for, except those that were excepted up to the end of its block.\<close>

lemma bind_body_hosts:
  assumes "bind_body ifaces (hs, ex) c = (Inr (hs', ex'), c')"
  obtains as wants where "as \<noteq> []" "as = fst (ctl_disp remaining_args_until_brace c)" "try_flat_map (bind_arg ifaces (ctl_errf (snd (ctl_disp remaining_args_until_brace c)))) as = Inr wants"
    "set hs' = set hs \<union> show_ip ` (set wants - set ex')"
  using assms by (auto simp: bind_body_def bind_adds split: prod.splits sum.splits if_splits)

text \<open>A block that \<open>bind\<close> accepts has addresses to listen on, each once.\<close>

lemma bind_setup_hosts:
  assumes "bind_setup ifaces c = (Inr (), c')"
  shows "sc_listen_hosts (ct_config c') \<noteq> [] \<and> distinct (sc_listen_hosts (ct_config c'))"
proof -
  obtain hs ex c1 where run: "next_loop (bind_body ifaces) ([], []) c = (Inr (hs, ex), c1)" "hs \<noteq> []"
    and c': "c' = on_config (\<lambda>g. g\<lparr>sc_listen_hosts := hs\<rparr>) c1"
    using assms by (auto simp: bind_setup_def split: prod.splits sum.splits if_splits)
  have "distinct (fst st')" if "distinct (fst st)" "bind_body ifaces st c = (Inr st', c')" for st st' and c c' :: "'a controller"
    using that by (auto simp: bind_body_def bind_adds(2) split: prod.splits sum.splits if_splits)
  from next_loop_invariant [of "\<lambda>st. distinct (fst st)", OF this run(1)] have "distinct hs" by simp
  with run(2) c' show ?thesis by (simp add: on_config_def)
qed

text \<open>\<open>on startup\<close> with an ampersand and nothing else registers a hook that runs the empty command, which panics at the first access.\<close>

lemma on_without_command:
  assumes "ctl_disp remaining_args c = ([''startup'', [CHR 0x26]], c1)"
  shows "on_body env u c = (Inr (), on_startup (ov_hook env (on_run env [] True ''startup'')) c1) \<and> on_run env [] True ''startup'' s = (None, s)"
  by (simp add: on_body_def assms on_run_def)

text \<open>
  After the setup the interval is at least two seconds and the jitter at most half of it, so that the Corefile is looked at after
  between half the interval and the interval.
\<close>

lemma reload_setup_bounds:
  assumes "next_loop (reload_body env) (0, 30 * SECOND, 15 * SECOND) c = (Inr (n, interval, jitter), c')"
  shows "2 * SECOND \<le> interval \<and> jitter \<le> interval div 2"
proof -
  let ?P = "\<lambda>(n :: nat, i, j). 2 * SECOND \<le> i \<and> j \<le> i div 2"
  have "?P st'" if "?P st" "reload_body env st c = (Inr st', c')" for st st' and c c' :: "'a controller"
    using that by (auto simp: reload_body_def at_least_def rbind_eq_Inr split: prod.splits if_splits list.splits)
  moreover have "?P (0, 30 * SECOND, 15 * SECOND)" by (simp add: SECOND_def)
  ultimately have "?P (n, interval, jitter)" using next_loop_invariant [where P = ?P and body = "reload_body env"] assms by blast
  then show ?thesis by simp
qed

lemma reload_wait_bounds:
  assumes "jitter \<le> interval div 2" and "j \<le> jitter div MILLI"
  shows "interval div 2 \<le> reload_wait interval jitter j \<and> reload_wait interval jitter j \<le> interval"
proof -
  have "j * MILLI \<le> jitter" using assms(2) by (metis div_times_less_eq_dividend le_trans mult_le_mono1)
  with assms(1) show ?thesis by (auto simp: reload_wait_def)
qed

text \<open>The wake-ups at a sequence of instants, and at which of them a reload is asked for.\<close>

fun reload_run :: "'s reload_env \<Rightarrow> string \<Rightarrow> string \<Rightarrow> 's list \<Rightarrow> bool list" where
  "reload_run env path hash [] = []"
| "reload_run env path hash (s # ss) = (case reload_wake env path hash s of (h, b) \<Rightarrow> b # reload_run env path h ss)"

text \<open>A reload is asked for exactly when the file parses and is not what it was when it last parsed; a file that does not parse is passed over.\<close>

lemma reload_run_iff:
  "i < length ss \<Longrightarrow> reload_run env path hash ss ! i \<longleftrightarrow>
     (\<exists>h. hash_file env path (ss ! i) = Some h \<and> h \<noteq> last (hash # List.map_filter (hash_file env path) (take i ss)))"
proof (induction ss arbitrary: hash i)
  case (Cons s ss)
  show ?case
  proof (cases i)
    case 0
    then show ?thesis by (auto simp: reload_wake_def map_filter_simps split: option.splits)
  next
    case (Suc k)
    have "reload_run env path hash (s # ss) ! i = reload_run env path (case hash_file env path s of Some h \<Rightarrow> h | None \<Rightarrow> hash) ss ! k"
      using Suc by (auto simp: reload_wake_def split: option.splits)
    with Cons Suc show ?thesis by (simp add: map_filter_simps split: option.splits)
  qed
qed simp

end
