(* ===== verification/Observe.thy ===== *)
theory Observe
  imports Block_Setup Replacer
begin

text \<open>
  The plugins that watch the chain: \<open>src/plugins/errors.rs\<close>, \<open>log.rs\<close> and \<open>metadata.rs\<close>.

  Regular expressions, the texts of types and durations and what the log is written to are arguments; the tasks of \<open>errors\<close> that
  wait for the end of a period are kept in its state until they end. That a period has started is a flag, as
  the instant stored with it is never read.

  Shown here: \<open>errors\<close> and \<open>log\<close> pass on what the chain gives; every error that matches a pattern is counted in exactly one
  summary and there is one waiting task per pattern; the rule of \<open>log\<close> is the last one with the longest zone;
  collecting metadata leaves the message alone.
\<close>

section \<open>errors\<close>

datatype log_level = LvError | LvWarning | LvInfo | LvDebug

record 'r err_pattern =
  ep_period :: nat
  ep_re :: 'r
  ep_level :: log_level

record 'r errors =
  eg_patterns :: "'r err_pattern list"
  eg_stacktrace :: bool

text \<open>For each pattern the number of errors and whether a period has started; the tasks with the text of the first error; the lines written.\<close>

record errors_state =
  eg_counts :: "nat \<Rightarrow> nat \<times> bool"
  eg_tasks :: "(nat \<times> string) list"
  eg_lines :: "(log_level \<times> string) list"

definition errors_state_new :: errors_state where
  "errors_state_new = \<lparr>eg_counts = (\<lambda>_. (0, False)), eg_tasks = [], eg_lines = []\<rparr>"

record ('r, 's) errors_env =
  ev_is_match :: "'r \<Rightarrow> string \<Rightarrow> bool"
  ev_type_str :: "rtype \<Rightarrow> string"
  ev_duration :: "nat \<Rightarrow> string"
  ev_backtrace :: string
  ev_get :: "'s \<Rightarrow> errors_state"
  ev_put :: "errors_state \<Rightarrow> 's \<Rightarrow> 's"

definition error_text :: "plugin_error \<Rightarrow> string" where
  "error_text e = ''plugin'' @ [CHR 0x2F] @ pe_plugin e @ '': '' @ pe_source e"

text \<open>The first pattern that matches, by its position.\<close>

definition match_pattern :: "('r \<Rightarrow> string \<Rightarrow> bool) \<Rightarrow> 'r err_pattern list \<Rightarrow> string \<Rightarrow> nat option" where
  "match_pattern mt ps t = find (\<lambda>i. mt (ep_re (ps ! i)) t) [0..<length ps]"

definition count_error :: "nat \<Rightarrow> string \<Rightarrow> errors_state \<Rightarrow> errors_state" where
  "count_error i sample st =
     (case eg_counts st i of (n, started) \<Rightarrow>
        if started then st\<lparr>eg_counts := (eg_counts st)(i := (n + 1, True))\<rparr>
        else st\<lparr>eg_counts := (eg_counts st)(i := (n + 1, True)), eg_tasks := eg_tasks st @ [(i, sample)]\<rparr>)"

definition errors_log :: "('r, 's) errors_env \<Rightarrow> 'r errors \<Rightarrow> request \<Rightarrow> plugin_error \<Rightarrow> errors_state \<Rightarrow> errors_state" where
  "errors_log env er req e st =
     (case match_pattern (ev_is_match env) (eg_patterns er) (error_text e) of
        Some i \<Rightarrow> count_error i (error_text e) st
      | None \<Rightarrow>
          (let txt = show_nat (unat (m_id (rq_msg req))) @ '' '' @ name_uncached req @ '' '' @ ev_type_str env (qtype req) @ '': '' @ error_text e in
           st\<lparr>eg_lines := eg_lines st @ [(LvError, ''plugin/errors: '' @ txt @ (if eg_stacktrace er then [CHR 0x0A] @ ev_backtrace env else []))]\<rparr>))"

text \<open>A task at the end of its period.\<close>

definition period_end :: "('r, 's) errors_env \<Rightarrow> 'r errors \<Rightarrow> nat \<Rightarrow> errors_state \<Rightarrow> errors_state" where
  "period_end env er k st =
     (case eg_tasks st ! k of (i, sample) \<Rightarrow>
        (let n = fst (eg_counts st i); p = eg_patterns er ! i in
         st\<lparr>eg_counts := (eg_counts st)(i := (0, False)), eg_tasks := take k (eg_tasks st) @ drop (k + 1) (eg_tasks st),
            eg_lines := eg_lines st @ [(ep_level p, ''plugin/errors: '' @ show_nat n @ '' errors like '' @ quote sample @ '' occurred in last '' @ ev_duration env (ep_period p))]\<rparr>))"

definition errors_serve :: "('r, 's) errors_env \<Rightarrow> 'r errors \<Rightarrow> 's handler" where
  "errors_serve env er req nx s =
     (case nx_serve nx req s of
        (Failed e, req1, s1) \<Rightarrow> (Failed e, req1, ev_put env (errors_log env er req1 e (ev_get env s1)) s1)
      | r \<Rightarrow> r)"

definition log_level_of :: "string \<Rightarrow> log_level option" where
  "log_level_of s =
     (if s = ''error'' then Some LvError else if s = ''warning'' then Some LvWarning
      else if s = ''info'' then Some LvInfo else if s = ''debug'' then Some LvDebug else None)"

definition errors_line ::
    "(string \<Rightarrow> nat res) \<Rightarrow> (string \<Rightarrow> 'r res) \<Rightarrow> (string \<Rightarrow> err) \<Rightarrow> err \<Rightarrow> string \<Rightarrow> string list \<Rightarrow> 'r errors \<Rightarrow> 'r errors res" where
  "errors_line pd re ef arg_e v a er =
     (if v = ''stacktrace'' then Inr (er\<lparr>eg_stacktrace := True\<rparr>)
      else if v = ''consolidate'' then
        (if length a < 2 \<or> length a > 3 then Inl arg_e
         else rbind (pd (a ! 0)) (\<lambda>period.
           (case re (a ! 1) of
              Inl e \<Rightarrow> Inl (ef (''invalid regexp '' @ a ! 1 @ '': '' @ e))
            | Inr r \<Rightarrow>
                (let lv = (if length a = 3 then a ! 2 else ''error'') in
                 case log_level_of lv of
                   None \<Rightarrow> Inl (ef (''unknown log level '' @ lv))
                 | Some l \<Rightarrow> Inr (er\<lparr>eg_patterns := eg_patterns er @ [\<lparr>ep_period = period, ep_re = r, ep_level = l\<rparr>]\<rparr>)))))
      else Inl (ef (''unknown property '' @ quote v)))"

definition errors_property ::
    "(string \<Rightarrow> nat res) \<Rightarrow> (string \<Rightarrow> 'r res) \<Rightarrow> 'r errors \<Rightarrow> 's controller \<Rightarrow> 'r errors res \<times> 's controller" where
  "errors_property pd re = line_property (\<lambda>v. v = ''consolidate'') (errors_line pd re)"

definition errors_body ::
    "(string \<Rightarrow> nat res) \<Rightarrow> (string \<Rightarrow> 'r res) \<Rightarrow> nat \<times> 'r errors \<Rightarrow> 's controller \<Rightarrow> (nat \<times> 'r errors) res \<times> 's controller" where
  "errors_body pd re st c =
     (case st of (n, er) \<Rightarrow>
        if n > 0 then (Inl (ctl_errf c ''plugin/errors: this plugin can only be used once per Server Block''), c)
        else (case ctl_disp remaining_args_until_brace c of (as, c1) \<Rightarrow>
          if as \<noteq> [] \<and> as \<noteq> [''stdout''] then (Inl (ctl_arg_err c1), c1)
          else (case block_loop (errors_property pd re) er c1 of
              (Inl e, c2) \<Rightarrow> (Inl e, c2)
            | (Inr er', c2) \<Rightarrow> (Inr (n + 1, er'), c2))))"

definition errors_setup :: "(string \<Rightarrow> nat res) \<Rightarrow> (string \<Rightarrow> 'r res) \<Rightarrow> ('r, 's) errors_env \<Rightarrow> 's setup_fn" where
  "errors_setup pd re env c =
     (case next_loop (errors_body pd re) (0, \<lparr>eg_patterns = [], eg_stacktrace = False\<rparr>) c of
        (Inl e, c1) \<Rightarrow> (Inl e, c1)
      | (Inr (_, er), c1) \<Rightarrow> (Inr (), add_plugin (''errors'', errors_serve env er) c1))"

section \<open>log\<close>

datatype log_class = Cl_All | Cl_Success | Cl_Denial | Cl_Error

record log_rule =
  lr_zones :: "string list"
  lr_format :: "part list"
  lr_classes :: "log_class set"

definition classify :: "rcode \<Rightarrow> message option \<Rightarrow> log_class" where
  "classify rc msg =
     (if rc = NoError then (case msg of Some m \<Rightarrow> if m_answers m = [] then Cl_Denial else Cl_Success | None \<Rightarrow> Cl_Success)
      else if rc = NXDomain then Cl_Denial
      else Cl_Error)"

text \<open>\<open>max_by_key\<close> gives the last of several greatest elements.\<close>

definition better_rule :: "string \<Rightarrow> (log_rule \<times> nat) option \<Rightarrow> log_rule \<Rightarrow> (log_rule \<times> nat) option" where
  "better_rule name best r =
     (case zones_match (lr_zones r) name of
        None \<Rightarrow> best
      | Some z \<Rightarrow>
          (case best of
             Some (_, l) \<Rightarrow> if l \<le> length z then Some (r, length z) else best
           | None \<Rightarrow> Some (r, length z)))"

definition log_rule_for :: "log_rule list \<Rightarrow> string \<Rightarrow> log_rule option" where
  "log_rule_for rules name = map_option fst (foldl (better_rule name) None rules)"

record 's log_env =
  lv_replacer :: "'s \<Rightarrow> replacer_env"
  lv_print :: "string \<Rightarrow> 's \<Rightarrow> 's"

definition log_line :: "'s log_env \<Rightarrow> log_rule \<Rightarrow> request \<Rightarrow> rcode \<Rightarrow> reply option \<Rightarrow> rcode option \<Rightarrow> 's \<Rightarrow> 's" where
  "log_line env rule req rc rep err_rcode s =
     (if Cl_All \<in> lr_classes rule \<or> classify rc (Option.bind rep reply_msg) \<in> lr_classes rule
      then lv_print env (''[INFO] '' @ replacer_replace (lv_replacer env s) (lr_format rule) req rep err_rcode) s
      else s)"

definition log_serve :: "'s log_env \<Rightarrow> log_rule list \<Rightarrow> 's handler" where
  "log_serve env rules req nx s =
     (case req_name req of (name, req1) \<Rightarrow>
        (case log_rule_for rules name of
           None \<Rightarrow> nx_serve nx req1 s
         | Some rule \<Rightarrow>
             (case nx_serve nx req1 s of
                (Replied rep, req2, s1) \<Rightarrow> (Replied rep, req2, log_line env rule req2 (reply_rcode rep) (Some rep) None s1)
              | (Failed e, req2, s1) \<Rightarrow> (Failed e, req2, log_line env rule req2 (pe_rcode e) None (Some (pe_rcode e)) s1)
              | r \<Rightarrow> r)))"

definition log_class_of :: "string \<Rightarrow> log_class option" where
  "log_class_of s =
     (if s = ''all'' then Some Cl_All else if s = ''success'' then Some Cl_Success
      else if s = ''denial'' then Some Cl_Denial else if s = ''error'' then Some Cl_Error else None)"

fun log_classes :: "(string \<Rightarrow> err) \<Rightarrow> string list \<Rightarrow> log_class set \<Rightarrow> log_class set res" where
  "log_classes ef [] cs = Inr cs"
| "log_classes ef (a # as) cs =
     (case log_class_of a of
        None \<Rightarrow> Inl (ef (''unknown class '' @ quote a))
      | Some cl \<Rightarrow> log_classes ef as (insert cl cs))"

definition log_prop_line :: "(string \<Rightarrow> err) \<Rightarrow> err \<Rightarrow> string \<Rightarrow> string list \<Rightarrow> log_class set \<Rightarrow> log_class set res" where
  "log_prop_line ef arg_e v a cs =
     (if v = ''class'' then (if a = [] then Inl arg_e else log_classes ef a cs)
      else Inl (ef (''unknown property '' @ quote v)))"

definition log_property :: "log_class set \<Rightarrow> 's controller \<Rightarrow> log_class set res \<times> 's controller" where
  "log_property = line_property (\<lambda>v. v = ''class'') log_prop_line"

text \<open>The last argument may be a format.\<close>

definition log_format :: "string list \<Rightarrow> string \<times> string list" where
  "log_format as =
     (if as = [] then (COMMON_LOG_FORMAT, [])
      else if last as = ''common'' then (COMMON_LOG_FORMAT, butlast as)
      else if last as = ''combined'' then (COMBINED_LOG_FORMAT, butlast as)
      else if CHR ''{'' \<in> set (last as) then (last as, butlast as)
      else (COMMON_LOG_FORMAT, as))"

definition log_body ::
    "(string \<Rightarrow> dname res) \<Rightarrow> 'net ipnet_api \<Rightarrow> log_rule list \<Rightarrow> 's controller \<Rightarrow> log_rule list res \<times> 's controller" where
  "log_body from_ascii api rules c =
     (case ctl_disp remaining_args_until_brace c of (as0, c1) \<Rightarrow>
        (case log_format as0 of (fmt, as) \<Rightarrow>
           (case (if as = [] then Inr (server_block_zones from_ascii api c1) else normalize_zones from_ascii api as) of
              Inl e \<Rightarrow> (Inl e, c1)
            | Inr zones \<Rightarrow>
                (case block_loop log_property {} c1 of
                   (Inl e, c2) \<Rightarrow> (Inl e, c2)
                 | (Inr cs, c2) \<Rightarrow>
                     (Inr (rules @ [\<lparr>lr_zones = zones, lr_format = replacer_new fmt, lr_classes = (if cs = {} then {Cl_All} else cs)\<rparr>]), c2)))))"

definition log_setup :: "(string \<Rightarrow> dname res) \<Rightarrow> 'net ipnet_api \<Rightarrow> 's log_env \<Rightarrow> 's setup_fn" where
  "log_setup from_ascii api env c =
     (case next_loop (log_body from_ascii api) [] c of
        (Inl e, c1) \<Rightarrow> (Inl e, c1)
      | (Inr rules, c1) \<Rightarrow> (Inr (), add_plugin (''log'', log_serve env rules) c1))"

section \<open>metadata\<close>

definition metadata_serve :: "'s handler" where
  "metadata_serve req nx s = nx_serve nx req s"

text \<open>A provider adds its labels to a request; \<open>nothing\<close> is the empty metadata.\<close>

definition metadata_collect :: "metadata \<Rightarrow> string list \<Rightarrow> (request \<Rightarrow> request) list \<Rightarrow> request \<Rightarrow> request" where
  "metadata_collect nothing zones providers req =
     (let req1 = req\<lparr>rq_metadata := nothing\<rparr> in
      if zones_match zones (name_uncached req1) \<noteq> None then foldl (\<lambda>r p. p r) req1 providers else req1)"

text \<open>\<open>providers\<close> are the metadata functions of the other handlers of the finished chain, which are stored in the plugin once the chain is known.\<close>

definition metadata_body ::
    "(string \<Rightarrow> dname res) \<Rightarrow> 'net ipnet_api \<Rightarrow> metadata \<Rightarrow> (request \<Rightarrow> request) list \<Rightarrow> 's setup_fn" where
  "metadata_body from_ascii api nothing providers c =
     (case ctl_disp remaining_args c of (as, c1) \<Rightarrow>
        (case controller_origins from_ascii api c1 as of
           Inl e \<Rightarrow> (Inl e, c1)
         | Inr zones \<Rightarrow>
             (Inr (), on_config (\<lambda>g. g\<lparr>sc_metadata := Some (metadata_collect nothing zones providers)\<rparr>) (add_plugin (''metadata'', metadata_serve) c1))))"

definition metadata_setup ::
    "(string \<Rightarrow> dname res) \<Rightarrow> 'net ipnet_api \<Rightarrow> metadata \<Rightarrow> (request \<Rightarrow> request) list \<Rightarrow> 's setup_fn" where
  "metadata_setup from_ascii api nothing providers = single_setup ''metadata'' (metadata_body from_ascii api nothing providers)"

section \<open>Contracts\<close>

text \<open>Both plugins pass on the outcome and the request of the rest of the chain.\<close>

lemma errors_passes_on:
  "fst (errors_serve env er req nx s) = fst (nx_serve nx req s)"
  "fst (snd (errors_serve env er req nx s)) = fst (snd (nx_serve nx req s))"
  by (auto simp: errors_serve_def split: prod.split outcome.split)

lemma log_passes_on:
  "fst (log_serve env rules req nx s) = fst (nx_serve nx (snd (req_name req)) s)"
  "fst (snd (log_serve env rules req nx s)) = fst (snd (nx_serve nx (snd (req_name req)) s))"
  by (auto simp: log_serve_def split: prod.split option.split outcome.split)

lemma errors_keeps_id:
  assumes "keeps_id (nx_serve nx)"
  shows "keeps_id (\<lambda>req s. errors_serve env er req nx s)"
  using assms by (simp add: keeps_id_def errors_passes_on)

interpretation errors_handler: id_keeping_handler "errors_serve env er"
  by unfold_locales (rule errors_keeps_id)

lemma log_keeps_id:
  assumes "keeps_id (nx_serve nx)"
  shows "keeps_id (\<lambda>req s. log_serve env rules req nx s)"
proof -
  have named: "keeps_id (\<lambda>req s. nx_serve nx (snd (req_name req)) s)" by (rule keeps_id_same [OF assms]) simp
  show ?thesis
    using named by (simp add: keeps_id_def log_passes_on)
qed

interpretation log_handler: id_keeping_handler "log_serve env rules"
  by unfold_locales (rule log_keeps_id)

interpretation metadata_handler: id_keeping_handler metadata_serve
  by unfold_locales (simp add: metadata_serve_def)

interpretation errors_block: block_property "errors_property pd re"
  unfolding errors_property_def by (rule line_property_block) (simp add: errors_line_def is_ok_def)

interpretation log_block: block_property log_property
  unfolding log_property_def by (rule line_property_block) (simp add: log_prop_line_def is_ok_def)

lemma errors_body_frame:
  assumes run: "errors_body pd re st c = (r, c')"
  shows "appends_plugins c c'" "is_ok r \<Longrightarrow> left_over (ct_dispenser c') \<le> left_over (ct_dispenser c)"
proof -
  obtain as c1 where a: "ctl_disp remaining_args_until_brace c = (as, c1)"
    by (cases "ctl_disp remaining_args_until_brace c")
  obtain r2 c2 where b: "block_loop (errors_property pd re) (snd st) c1 = (r2, c2)"
    by (cases "block_loop (errors_property pd re) (snd st) c1")
  note st = args_block_steps [OF a errors_block.block_property_axioms b]
  show "appends_plugins c c'"
    using run a b st(1,2) by (auto simp: errors_body_def split: prod.splits sum.splits if_splits)
  show "left_over (ct_dispenser c') \<le> left_over (ct_dispenser c)" if "is_ok r"
    using run a b st(3) that by (auto simp: errors_body_def split: prod.splits sum.splits if_splits)
qed

interpretation errors_directive: directive_body "errors_body pd re"
  by unfold_locales (auto dest: errors_body_frame)

interpretation errors_setup: setup_function "errors_setup pd re env"
  by (rule setup_functionI)
    (auto simp: errors_setup_def split: prod.splits sum.splits dest!: errors_directive.next_loop_appends intro: appends_steps)

lemma log_body_frame:
  assumes run: "log_body from_ascii api rules c = (r, c')"
  shows "appends_plugins c c'" "is_ok r \<Longrightarrow> left_over (ct_dispenser c') \<le> left_over (ct_dispenser c)"
proof -
  obtain as c1 where a: "ctl_disp remaining_args_until_brace c = (as, c1)"
    by (cases "ctl_disp remaining_args_until_brace c")
  obtain r2 c2 where b: "block_loop log_property {} c1 = (r2, c2)" by (cases "block_loop log_property {} c1")
  note st = args_block_steps [OF a log_block.block_property_axioms b]
  show "appends_plugins c c'"
    using run a b st(1,2) by (auto simp: log_body_def split: prod.splits sum.splits if_splits)
  show "left_over (ct_dispenser c') \<le> left_over (ct_dispenser c)" if "is_ok r"
    using run a b st(3) that by (auto simp: log_body_def split: prod.splits sum.splits if_splits)
qed

interpretation log_directive: directive_body "log_body from_ascii api"
  by unfold_locales (auto dest: log_body_frame)

interpretation log_setup: setup_function "log_setup from_ascii api env"
  by (rule setup_functionI)
    (auto simp: log_setup_def split: prod.splits sum.splits dest!: log_directive.next_loop_appends intro: appends_steps)

lemma metadata_body_appends: "metadata_body from_ascii api nothing providers c = (r, c') \<Longrightarrow> appends_plugins c c'"
  by (auto simp: metadata_body_def split: prod.splits sum.splits dest: appends_disp intro!: appends_steps)

interpretation metadata_setup: setup_function "metadata_setup from_ascii api nothing providers"
  unfolding metadata_setup_def by (rule single_setup_function [OF metadata_body_appends])

section \<open>Counting errors\<close>

text \<open>
  What happens to \<open>errors\<close>: an error passes through it, or the task at a position ends. The run gives the final state and, for
  each summary written, the pattern and the number in it.
\<close>

datatype errors_event = Erred request plugin_error | Ended nat

fun errors_run :: "('r, 's) errors_env \<Rightarrow> 'r errors \<Rightarrow> errors_state \<Rightarrow> errors_event list \<Rightarrow> errors_state \<times> (nat \<times> nat) list" where
  "errors_run env er st [] = (st, [])"
| "errors_run env er st (Erred req e # evs) = errors_run env er (errors_log env er req e st) evs"
| "errors_run env er st (Ended k # evs) =
     (if k < length (eg_tasks st)
      then (let i = fst (eg_tasks st ! k) in
        case errors_run env er (period_end env er k st) evs of (st', rep) \<Rightarrow> (st', (i, fst (eg_counts st i)) # rep))
      else errors_run env er st evs)"

text \<open>One task for each pattern whose period has started, which is the case when errors have been counted.\<close>

definition errors_ok :: "errors_state \<Rightarrow> bool" where
  "errors_ok st \<longleftrightarrow> distinct (map fst (eg_tasks st)) \<and>
     (\<forall>i. (snd (eg_counts st i) \<longleftrightarrow> i \<in> fst ` set (eg_tasks st)) \<and> (0 < fst (eg_counts st i) \<longleftrightarrow> snd (eg_counts st i)))"

definition matched :: "('r, 's) errors_env \<Rightarrow> 'r errors \<Rightarrow> nat \<Rightarrow> errors_event \<Rightarrow> bool" where
  "matched env er i ev =
     (case ev of Erred _ e \<Rightarrow> match_pattern (ev_is_match env) (eg_patterns er) (error_text e) = Some i | Ended _ \<Rightarrow> False)"

definition reported :: "nat \<Rightarrow> (nat \<times> nat) list \<Rightarrow> nat" where
  "reported i rep = sum_list (map snd (filter (\<lambda>r. fst r = i) rep))"

lemma errors_ok_count:
  assumes "errors_ok st"
  shows "errors_ok (count_error i sample st)"
proof (cases "snd (eg_counts st i)")
  case True
  then have "count_error i sample st = st\<lparr>eg_counts := (eg_counts st)(i := (fst (eg_counts st i) + 1, True))\<rparr>"
    by (cases "eg_counts st i") (simp add: count_error_def)
  with assms True show ?thesis by (simp add: errors_ok_def)
next
  case False
  then have "count_error i sample st =
      st\<lparr>eg_counts := (eg_counts st)(i := (fst (eg_counts st i) + 1, True)), eg_tasks := eg_tasks st @ [(i, sample)]\<rparr>"
    by (cases "eg_counts st i") (simp add: count_error_def)
  moreover have "i \<notin> fst ` set (eg_tasks st)" using assms False by (simp add: errors_ok_def)
  ultimately show ?thesis using assms by (auto simp: errors_ok_def)
qed

lemma errors_ok_log: "errors_ok st \<Longrightarrow> errors_ok (errors_log env er req e st)"
  by (simp add: errors_log_def errors_ok_count Let_def split: option.split) (simp add: errors_ok_def)

lemma errors_log_count:
  "fst (eg_counts (errors_log env er req e st) i) = fst (eg_counts st i) + (if matched env er i (Erred req e) then 1 else 0)"
  by (auto simp: errors_log_def count_error_def Let_def matched_def split: option.split prod.split)

lemma without_nth:
  assumes "k < length xs" and "distinct xs"
  shows "set (take k xs @ drop (k + 1) xs) = set xs - {xs ! k}" "distinct (take k xs @ drop (k + 1) xs)"
proof -
  have xs: "take k xs @ xs ! k # drop (k + 1) xs = xs" using id_take_nth_drop [OF assms(1)] by simp
  have d: "distinct (take k xs @ xs ! k # drop (k + 1) xs)" unfolding xs by (rule assms(2))
  then show "distinct (take k xs @ drop (k + 1) xs)" by simp
  have "set xs = insert (xs ! k) (set (take k xs @ drop (k + 1) xs))" by (subst xs [symmetric]) simp
  with d show "set (take k xs @ drop (k + 1) xs) = set xs - {xs ! k}" by auto
qed

lemma errors_ok_end:
  assumes "errors_ok st" and "k < length (eg_tasks st)"
  shows "errors_ok (period_end env er k st)"
proof -
  obtain i sm where i: "eg_tasks st ! k = (i, sm)" by (cases "eg_tasks st ! k")
  let ?ts = "map fst (eg_tasks st)"
  note w = without_nth [of k ?ts]
  have tasks: "map fst (eg_tasks (period_end env er k st)) = take k ?ts @ drop (k + 1) ?ts"
    and counts: "eg_counts (period_end env er k st) = (eg_counts st)(i := (0, False))"
    by (simp_all add: period_end_def i Let_def take_map drop_map)
  have "set ?ts - {?ts ! k} = fst ` set (eg_tasks (period_end env er k st))"
    using w(1) assms tasks by (metis (no_types, lifting) errors_ok_def length_map list.set_map)
  moreover have "?ts ! k = i" using assms(2) i by simp
  moreover have "distinct (map fst (eg_tasks (period_end env er k st)))"
    using w(2) assms tasks by (simp add: errors_ok_def)
  ultimately show ?thesis using assms(1) by (auto simp: errors_ok_def counts)
qed

text \<open>
  Every error that matches a pattern is in exactly one summary or still counted, whatever the order of errors and ends of periods;
  there is never more than one task for a pattern.
\<close>

lemma errors_run_counted:
  assumes "errors_ok st" and "errors_run env er st evs = (st', rep)"
  shows "errors_ok st' \<and> reported i rep + fst (eg_counts st' i) = fst (eg_counts st i) + length (filter (matched env er i) evs)"
  using assms
proof (induction env er st evs arbitrary: st' rep rule: errors_run.induct)
  case (2 env er st req e evs)
  have "errors_run env er (errors_log env er req e st) evs = (st', rep)" using 2(3) by simp
  from 2(1) [OF errors_ok_log [OF 2(2)] this] show ?case by (simp add: errors_log_count)
next
  case (3 env er st k evs)
  show ?case
  proof (cases "k < length (eg_tasks st)")
    case True
    let ?j = "fst (eg_tasks st ! k)"
    obtain rep' where r: "errors_run env er (period_end env er k st) evs = (st', rep')" "rep = (?j, fst (eg_counts st ?j)) # rep'"
      using 3(4) True by (auto simp: Let_def split: prod.splits)
    have "fst (eg_counts (period_end env er k st) i) = (if i = ?j then 0 else fst (eg_counts st i))"
      by (simp add: period_end_def Let_def split: prod.split)
    with 3(1) [OF True refl errors_ok_end [OF 3(3) True] r(1)] show ?thesis
      by (auto simp: r(2) reported_def matched_def)
  next
    case False
    then show ?thesis using 3 by (simp add: matched_def)
  qed
qed (simp add: reported_def)

lemma errors_counted:
  "case errors_run env er errors_state_new evs of (st, rep) \<Rightarrow>
     errors_ok st \<and> (\<forall>i. reported i rep + fst (eg_counts st i) = length (filter (matched env er i) evs))"
proof -
  have new: "errors_ok errors_state_new" by (simp add: errors_ok_def errors_state_new_def)
  obtain st rep where run: "errors_run env er errors_state_new evs = (st, rep)" by (cases "errors_run env er errors_state_new evs")
  from errors_run_counted [OF new run] show ?thesis by (simp add: run) (simp add: errors_state_new_def)
qed

section \<open>Rules and collectors\<close>

text \<open>The rule of \<open>log\<close> is the last one of those whose zones match best.\<close>

definition longest_last :: "string \<Rightarrow> log_rule list \<Rightarrow> log_rule \<Rightarrow> nat \<Rightarrow> bool" where
  "longest_last name rules r l \<longleftrightarrow>
     (\<exists>pre post z. rules = pre @ r # post \<and> zones_match (lr_zones r) name = Some z \<and> l = length z
       \<and> (\<forall>r' \<in> set pre. \<forall>z'. zones_match (lr_zones r') name = Some z' \<longrightarrow> length z' \<le> l)
       \<and> (\<forall>r' \<in> set post. \<forall>z'. zones_match (lr_zones r') name = Some z' \<longrightarrow> length z' < l))"

lemma longest_last_here:
  assumes "zones_match (lr_zones x) name = Some z"
    and "\<forall>r' \<in> set rules. \<forall>z'. zones_match (lr_zones r') name = Some z' \<longrightarrow> length z' \<le> length z"
  shows "longest_last name (rules @ [x]) x (length z)"
  unfolding longest_last_def using assms by (intro exI [of _ rules] exI [of _ "[]"] exI [of _ z]) simp

lemma longest_last_later:
  assumes "longest_last name rules r l" and "\<forall>z'. zones_match (lr_zones x) name = Some z' \<longrightarrow> length z' < l"
  shows "longest_last name (rules @ [x]) r l"
proof -
  from assms(1) obtain pre post z where "rules = pre @ r # post" "zones_match (lr_zones r) name = Some z" "l = length z"
    "\<forall>r' \<in> set pre. \<forall>z'. zones_match (lr_zones r') name = Some z' \<longrightarrow> length z' \<le> l"
    "\<forall>r' \<in> set post. \<forall>z'. zones_match (lr_zones r') name = Some z' \<longrightarrow> length z' < l"
    unfolding longest_last_def by blast
  with assms(2) show ?thesis unfolding longest_last_def by (intro exI [of _ pre] exI [of _ "post @ [x]"] exI [of _ z]) auto
qed

lemma longest_last_bound:
  "longest_last name rules r l \<Longrightarrow> \<forall>r' \<in> set rules. \<forall>z'. zones_match (lr_zones r') name = Some z' \<longrightarrow> length z' \<le> l"
  unfolding longest_last_def by auto (blast intro: less_imp_le)

lemma better_rules:
  "case foldl (better_rule name) None rules of
     None \<Rightarrow> \<forall>r \<in> set rules. zones_match (lr_zones r) name = None
   | Some (r, l) \<Rightarrow> longest_last name rules r l"
proof (induction rules rule: rev_induct)
  case (snoc x rules)
  have step: "foldl (better_rule name) None (rules @ [x]) = better_rule name (foldl (better_rule name) None rules) x" by simp
  show ?case
  proof (cases "zones_match (lr_zones x) name")
    case None
    then have "better_rule name (foldl (better_rule name) None rules) x = foldl (better_rule name) None rules" by (simp add: better_rule_def)
    with snoc None show ?thesis unfolding step by (auto split: option.splits intro: longest_last_later)
  next
    case (Some z)
    show ?thesis
    proof (cases "foldl (better_rule name) None rules")
      case None
      with snoc have "\<forall>r \<in> set rules. zones_match (lr_zones r) name = None" by simp
      then have "longest_last name (rules @ [x]) x (length z)" by (intro longest_last_here [OF Some]) auto
      then show ?thesis unfolding step None by (simp add: better_rule_def Some)
    next
      case best: (Some rl)
      obtain r l where rl: "rl = (r, l)" by (cases rl)
      with snoc best have ll: "longest_last name rules r l" by simp
      have "longest_last name (rules @ [x]) x (length z)" if "l \<le> length z"
        by (rule longest_last_here [OF Some]) (use longest_last_bound [OF ll] that le_trans in blast)
      moreover have "longest_last name (rules @ [x]) r l" if "\<not> l \<le> length z"
        by (rule longest_last_later [OF ll]) (use Some that in simp)
      ultimately show ?thesis unfolding step best rl by (simp add: better_rule_def Some)
    qed
  qed
qed simp

lemma log_rule_for_longest: "log_rule_for rules name = Some r \<Longrightarrow> \<exists>l. longest_last name rules r l"
  using better_rules [where name = name and rules = rules] by (auto simp: log_rule_for_def)

text \<open>Collecting metadata from providers that only add labels leaves the message of the request as it is.\<close>

lemma metadata_collect_msg:
  assumes "\<And>p r. p \<in> set providers \<Longrightarrow> rq_msg (p r) = rq_msg r"
  shows "rq_msg (metadata_collect nothing zones providers req) = rq_msg req"
proof -
  have "rq_msg (foldl (\<lambda>r p. p r) r ps) = rq_msg r" if "set ps \<subseteq> set providers" for r ps
    using that assms by (induction ps arbitrary: r) auto
  then show ?thesis by (simp add: metadata_collect_def Let_def)
qed

end
