(* ===== verification/Endpoints.thy ===== *)
theory Endpoints
  imports Block_Setup
begin

text \<open>
  The HTTP endpoints of \<open>src/server/http_util.rs\<close> and the plugins \<open>src/plugins/ready.rs\<close> and \<open>src/plugins/health.rs\<close> that use them.

  A registry holds for each address the endpoint of the instance that started last; a server that was cancelled no longer runs. Binding
  a socket, the probe of \<open>health\<close> and the readiness of a handler are arguments.

  Shown here: after any startups and shutdowns there is at most one endpoint at an address, and the shutdown of an instance leaves the endpoints of
  others alone; an instance that fails to start takes the endpoint of the running one with it; when the page of \<open>ready\<close> is positive; the
  setups only append.
\<close>

section \<open>The registry\<close>

record endpoints =
  en_list :: "(string \<times> nat) list"
  en_running :: "(string \<times> nat) list"

definition endpoints_new :: endpoints where
  "endpoints_new = \<lparr>en_list = [], en_running = []\<rparr>"

definition normalize_addr :: "string \<Rightarrow> string" where
  "normalize_addr addr =
     (if starts_with addr '':'' then addr
      else (case strip_prefix addr ''localhost'' of Some rest \<Rightarrow> ''127.0.0.1'' @ rest | None \<Rightarrow> addr))"

text \<open>Entries that are taken out of the list have their servers cancelled.\<close>

definition retain :: "(string \<times> nat \<Rightarrow> bool) \<Rightarrow> endpoints \<Rightarrow> endpoints" where
  "retain keep e =
     (let gone = filter (\<lambda>x. \<not> keep x) (en_list e) in
      \<lparr>en_list = filter keep (en_list e), en_running = filter (\<lambda>(_, i). i \<notin> snd ` set gone) (en_running e)\<rparr>)"

definition replace_endpoint :: "string \<Rightarrow> nat \<Rightarrow> endpoints \<Rightarrow> endpoints" where
  "replace_endpoint addr i e =
     (let e1 = retain (\<lambda>(a, _). a \<noteq> addr) e in e1\<lparr>en_list := en_list e1 @ [(addr, i)]\<rparr>)"

definition remove_endpoint :: "nat \<Rightarrow> endpoints \<Rightarrow> endpoints" where
  "remove_endpoint i e = retain (\<lambda>(_, j). j \<noteq> i) e"

text \<open>\<open>eb_bind\<close> binds the socket of an address.\<close>

record 's endpoints_env =
  eb_get :: "'s \<Rightarrow> endpoints"
  eb_put :: "endpoints \<Rightarrow> 's \<Rightarrow> 's"
  eb_bind :: "string \<Rightarrow> 's \<Rightarrow> unit res \<times> 's"

definition endpoint_startup :: "'s endpoints_env \<Rightarrow> nat \<Rightarrow> string \<Rightarrow> 's hook" where
  "endpoint_startup env i addr s =
     (let e1 = replace_endpoint addr i (eb_get env s) in
      case eb_bind env (normalize_addr addr) (eb_put env e1 s) of
        (Inl err, s1) \<Rightarrow> (Inl err, s1)
      | (Inr _, s1) \<Rightarrow> (Inr (), eb_put env ((eb_get env s1)\<lparr>en_running := en_running (eb_get env s1) @ [(addr, i)]\<rparr>) s1))"

definition endpoint_shutdown :: "'s endpoints_env \<Rightarrow> nat \<Rightarrow> 's hook" where
  "endpoint_shutdown env i s = (Inr (), eb_put env (remove_endpoint i (eb_get env s)) s)"

text \<open>\<open>i\<close> is the number that the registry gives this installation, a new one each time.\<close>

definition install :: "'s endpoints_env \<Rightarrow> nat \<Rightarrow> string \<Rightarrow> 's controller \<Rightarrow> 's controller" where
  "install env i addr0 c =
     (let addr = normalize_addr addr0 in
      on_shutdown (endpoint_shutdown env i) (on_startup (endpoint_startup env i addr) c))"

section \<open>ready\<close>

text \<open>
  The handlers of the enabled blocks that report on themselves, under the names of their directives. \<open>rdy\<close> is what a handler says of itself in a state.
\<close>

definition ready_plugins ::
    "('s plugin \<Rightarrow> 's \<Rightarrow> bool option) \<Rightarrow> nat set \<Rightarrow> 's server_config list \<Rightarrow> 's \<Rightarrow> (string \<times> 's plugin) list" where
  "ready_plugins rdy blocks configs s =
     concat (map (\<lambda>c. if sc_block_index c \<in> blocks then filter (\<lambda>(_, h). rdy h s \<noteq> None) (sc_plugins c) else []) configs)"

definition not_ready_step :: "('s plugin \<Rightarrow> 's \<Rightarrow> bool option) \<Rightarrow> 's \<Rightarrow> string list \<Rightarrow> string \<times> 's plugin \<Rightarrow> string list" where
  "not_ready_step rdy s out nh =
     (case nh of (n, h) \<Rightarrow> if rdy h s = Some False \<and> n \<notin> set out then out @ [n] else out)"

definition not_ready :: "('s plugin \<Rightarrow> 's \<Rightarrow> bool option) \<Rightarrow> (string \<times> 's plugin) list \<Rightarrow> 's \<Rightarrow> string list" where
  "not_ready rdy ps s = foldl (not_ready_step rdy s) [] ps"

definition ready_page :: "string \<Rightarrow> bool \<Rightarrow> string list \<Rightarrow> nat \<times> string" where
  "ready_page path draining nr =
     (if path \<noteq> ''/ready'' then (404, ''not found'')
      else if draining then (503, ''shutting down'')
      else if nr = [] then (200, ''OK'')
      else (503, join_with '','' nr))"

definition ready_body :: "nat \<times> string \<Rightarrow> 's controller \<Rightarrow> (nat \<times> string) res \<times> 's controller" where
  "ready_body st c =
     (case st of (n, addr0) \<Rightarrow>
        if n > 0 then (Inl (ctl_errf c ''plugin/ready: this plugin can only be used once per Server Block''), c)
        else (case ctl_disp remaining_args c of (as, c1) \<Rightarrow>
          if length as > 1 then (Inl (ctl_arg_err c1), c1)
          else (case ctl_disp next_block c1 of (b, c2) \<Rightarrow>
            if b then (Inl (ctl_errf c2 ''plugin/ready: unexpected block''), c2)
            else (Inr (n + 1, if as = [] then addr0 else hd as), c2))))"

text \<open>
  \<open>drain\<close> sets the flag at the end of the process. The set of the blocks that a setup ran for is the argument \<open>blocks\<close> above.
\<close>

definition ready_setup :: "'s endpoints_env \<Rightarrow> nat \<Rightarrow> 's hook \<Rightarrow> 's setup_fn" where
  "ready_setup env i drain c =
     (case next_loop ready_body (0, '':8181'') c of
        (Inl e, c1) \<Rightarrow> (Inl e, c1)
      | (Inr (_, addr), c1) \<Rightarrow>
          (case once_per_server_block (\<lambda>c. (Inr (), install env i addr (on_final_shutdown drain c))) c1 of
             (Inl e, c2) \<Rightarrow> (Inl e, c2)
           | (Inr _, c2) \<Rightarrow> (Inr (), c2)))"

section \<open>health\<close>

definition health_page :: "string \<Rightarrow> nat \<times> string" where
  "health_page path = (if path \<noteq> ''/health'' then (404, ''not found'') else (200, ''OK''))"

definition probe_url :: "string \<Rightarrow> string" where
  "probe_url addr = ''http:'' @ [CHR 0x2F, CHR 0x2F] @ (if starts_with addr '':'' then ''127.0.0.1'' @ addr else addr) @ [CHR 0x2F] @ ''health''"

definition health_line ::
    "(string \<Rightarrow> nat res) \<Rightarrow> (string \<Rightarrow> err) \<Rightarrow> err \<Rightarrow> string \<Rightarrow> string list \<Rightarrow> nat \<Rightarrow> nat res" where
  "health_line pd ef arg_e v a lameduck =
     (if v = ''lameduck'' then
        (if length a \<noteq> 1 then Inl arg_e
         else (case pd (hd a) of Inl e \<Rightarrow> Inl (ef (''invalid lameduck duration: '' @ e)) | Inr d \<Rightarrow> Inr d))
      else Inl (ef (''unknown property '' @ quote v)))"

definition health_property :: "(string \<Rightarrow> nat res) \<Rightarrow> nat \<Rightarrow> 's controller \<Rightarrow> nat res \<times> 's controller" where
  "health_property pd = line_property (\<lambda>v. v = ''lameduck'') (health_line pd)"

definition health_body ::
    "(string \<Rightarrow> nat res) \<Rightarrow> nat \<times> string \<times> nat \<Rightarrow> 's controller \<Rightarrow> (nat \<times> string \<times> nat) res \<times> 's controller" where
  "health_body pd st c =
     (case st of (n, addr0, lame0) \<Rightarrow>
        if n > 0 then (Inl (ctl_errf c ''plugin/health: this plugin can only be used once per Server Block''), c)
        else (case ctl_disp remaining_args_until_brace c of (as, c1) \<Rightarrow>
          if length as > 1 then (Inl (ctl_arg_err c1), c1)
          else (case block_loop (health_property pd) lame0 c1 of
              (Inl e, c2) \<Rightarrow> (Inl e, c2)
            | (Inr lame, c2) \<Rightarrow> (Inr (n + 1, if as = [] then addr0 else hd as, lame), c2))))"

text \<open>\<open>hp_probe\<close> starts the task that asks the given URL every second, \<open>hp_cancel\<close> ends it, \<open>hp_lameduck\<close> sets the flag of \<open>ready\<close> and waits.\<close>

record 's health_parse =
  hp_parse_duration :: "string \<Rightarrow> nat res"
  hp_probe :: "string \<Rightarrow> 's hook"
  hp_cancel :: "'s hook"
  hp_lameduck :: "nat \<Rightarrow> 's hook"

definition health_setup :: "'s endpoints_env \<Rightarrow> nat \<Rightarrow> 's health_parse \<Rightarrow> 's setup_fn" where
  "health_setup env i ps c =
     (case next_loop (health_body (hp_parse_duration ps)) (0, '':8080'', 0) c of
        (Inl e, c1) \<Rightarrow> (Inl e, c1)
      | (Inr (_, addr, lame), c1) \<Rightarrow>
          (case once_per_server_block (\<lambda>c.
               (let c2 = on_shutdown (hp_cancel ps) (on_startup (hp_probe ps (probe_url (normalize_addr addr))) c) in
                (Inr (), install env i addr (if lame \<noteq> 0 then on_final_shutdown (hp_lameduck ps lame) c2 else c2)))) c1 of
             (Inl e, c2) \<Rightarrow> (Inl e, c2)
           | (Inr _, c2) \<Rightarrow> (Inr (), c2)))"

section \<open>Contracts\<close>

lemma appends_install [appends_steps]: "appends_plugins a c \<Longrightarrow> appends_plugins a (install env i addr c)"
  by (auto simp: install_def Let_def intro!: appends_steps)

interpretation health_block: block_property "health_property pd"
  unfolding health_property_def by (rule line_property_block) (simp add: health_line_def is_ok_def)

lemma health_body_frame:
  assumes run: "health_body pd st c = (r, c')"
  shows "appends_plugins c c'" "is_ok r \<Longrightarrow> left_over (ct_dispenser c') \<le> left_over (ct_dispenser c)"
proof -
  obtain as c1 where a: "ctl_disp remaining_args_until_brace c = (as, c1)"
    by (cases "ctl_disp remaining_args_until_brace c")
  obtain r2 c2 where b: "block_loop (health_property pd) (snd (snd st)) c1 = (r2, c2)"
    by (cases "block_loop (health_property pd) (snd (snd st)) c1")
  note st = args_block_steps [OF a health_block.block_property_axioms b]
  show "appends_plugins c c'"
    using run a b st(1,2) by (auto simp: health_body_def split: prod.splits sum.splits if_splits)
  show "left_over (ct_dispenser c') \<le> left_over (ct_dispenser c)" if "is_ok r"
    using run a b st(3) that by (auto simp: health_body_def split: prod.splits sum.splits if_splits)
qed

interpretation health_directive: directive_body "health_body pd"
  by unfold_locales (auto dest: health_body_frame)

interpretation health_setup: setup_function "health_setup env i ps"
  by (rule setup_functionI)
    (auto simp: health_setup_def Let_def split: prod.splits sum.splits if_splits dest!: health_directive.next_loop_appends
      elim!: once_appends intro!: appends_steps)

lemma ready_body_frame:
  assumes run: "ready_body st c = (r, c')"
  shows "appends_plugins c c'" "is_ok r \<Longrightarrow> left_over (ct_dispenser c') \<le> left_over (ct_dispenser c)"
proof -
  obtain as c1 where a: "ctl_disp remaining_args c = (as, c1)" by (cases "ctl_disp remaining_args c")
  obtain b c2 where n: "ctl_disp next_block c1 = (b, c2)" by (cases "ctl_disp next_block c1")
  have c': "c' = c \<or> c' = c1 \<or> c' = c2" and ok: "is_ok r \<Longrightarrow> \<not> b \<and> c' = c2"
    using run a n by (auto simp: ready_body_def split: prod.splits if_splits)
  show "appends_plugins c c'" using c' appends_disp [OF a] appends_trans [OF appends_disp [OF a] appends_disp [OF n]] by auto
  show "left_over (ct_dispenser c') \<le> left_over (ct_dispenser c)" if "is_ok r"
    using ok [OF that] n left_over_disp [OF a left_over_remaining_args] left_over_next_block_False [of "ct_dispenser c1" "ct_dispenser c2"]
    by (auto simp: ctl_disp_def split: prod.splits)
qed

interpretation ready_directive: directive_body ready_body
  by unfold_locales (auto dest: ready_body_frame)

interpretation ready_setup: setup_function "ready_setup env i drain"
  by (rule setup_functionI)
    (auto simp: ready_setup_def split: prod.splits sum.splits dest!: ready_directive.next_loop_appends
      elim!: once_appends intro!: appends_steps)

section \<open>Endpoints across reloads\<close>

text \<open>One entry for an address and for a number, and a server only for an entry.\<close>

definition endpoints_ok :: "endpoints \<Rightarrow> bool" where
  "endpoints_ok e \<longleftrightarrow> distinct (map fst (en_list e)) \<and> distinct (map snd (en_list e)) \<and> set (en_running e) \<subseteq> set (en_list e) \<and> distinct (en_running e)"

lemma retain_running:
  assumes "endpoints_ok e"
  shows "set (en_running (retain keep e)) = {x \<in> set (en_running e). keep x}"
proof -
  have "snd x \<notin> snd ` set (filter (\<lambda>x. \<not> keep x) (en_list e)) \<longleftrightarrow> keep x" if "x \<in> set (en_running e)" for x
  proof -
    have "x \<in> set (en_list e)" using that assms by (auto simp: endpoints_ok_def)
    moreover have "y = x" if "y \<in> set (en_list e)" "x \<in> set (en_list e)" "snd y = snd x" for y
      using that assms by (auto simp: endpoints_ok_def distinct_map inj_on_def)
    ultimately show ?thesis by force
  qed
  then show ?thesis by (auto simp: retain_def Let_def case_prod_beta)
qed

lemma endpoints_ok_retain:
  assumes "endpoints_ok e"
  shows "endpoints_ok (retain keep e)"
proof -
  have "set (en_running (retain keep e)) \<subseteq> set (en_list (retain keep e))"
    unfolding retain_running [OF assms] using assms by (auto simp: endpoints_ok_def retain_def Let_def)
  then show ?thesis using assms by (auto simp: endpoints_ok_def retain_def Let_def intro: distinct_map_filter)
qed

text \<open>What happens to the registry: an endpoint with a number of its own starts, with or without its socket, or an instance shuts one down.\<close>

datatype endpoint_event = Started string nat bool | Shut nat

fun endpoint_step :: "endpoints \<Rightarrow> endpoint_event \<Rightarrow> endpoints" where
  "endpoint_step e (Started addr i bound) =
     (let e1 = replace_endpoint addr i e in if bound then e1\<lparr>en_running := en_running e1 @ [(addr, i)]\<rparr> else e1)"
| "endpoint_step e (Shut i) = remove_endpoint i e"

lemma endpoint_step_ok:
  assumes "endpoints_ok e" and "\<And>addr i b. ev = Started addr i b \<Longrightarrow> i \<notin> snd ` set (en_list e)"
  shows "endpoints_ok (endpoint_step e ev)"
proof (cases ev)
  case (Started addr i b)
  let ?e1 = "retain (\<lambda>(a, _). a \<noteq> addr) e"
  have "endpoints_ok ?e1" by (rule endpoints_ok_retain [OF assms(1)])
  moreover have "addr \<notin> fst ` set (en_list ?e1)" "i \<notin> snd ` set (en_list ?e1)"
    using assms(2) [OF Started] by (auto simp: retain_def Let_def)
  ultimately show ?thesis using Started by (force simp: endpoints_ok_def replace_endpoint_def Let_def)
next
  case (Shut i)
  then show ?thesis using endpoints_ok_retain [OF assms(1)] by (simp add: remove_endpoint_def)
qed

text \<open>The shutdown of an instance leaves the servers of the others running, and a start takes over the address.\<close>

lemma endpoint_shut_others: "endpoints_ok e \<Longrightarrow> set (en_running (endpoint_step e (Shut i))) = {x \<in> set (en_running e). snd x \<noteq> i}"
  by (simp add: remove_endpoint_def retain_running case_prod_beta)

lemma endpoint_started_running:
  assumes "endpoints_ok e"
  shows "set (en_running (endpoint_step e (Started addr i b))) =
    {x \<in> set (en_running e). fst x \<noteq> addr} \<union> (if b then {(addr, i)} else {})"
  using retain_running [OF assms, of "\<lambda>(a, _). a \<noteq> addr"] by (auto simp: replace_endpoint_def Let_def)

text \<open>
  A reload whose new instance starts its endpoint and then fails in a later hook, so that its shutdown hooks run, leaves the address without a
  server, although the old instance goes on.
\<close>

lemma endpoint_lost_by_failed_reload:
  assumes "endpoints_ok e" and "(addr, old) \<in> set (en_running e)" and "new \<notin> snd ` set (en_list e)"
  shows "\<forall>j. (addr, j) \<notin> set (en_running (endpoint_step (endpoint_step e (Started addr new b)) (Shut new)))"
proof -
  have ok: "endpoints_ok (endpoint_step e (Started addr new b))" using endpoint_step_ok [OF assms(1)] assms(3) by blast
  show ?thesis unfolding endpoint_shut_others [OF ok] endpoint_started_running [OF assms(1)] by auto
qed

section \<open>The page of \<open>ready\<close>\<close>

lemma not_ready_set: "set (not_ready rdy ps s) = {n. \<exists>h. (n, h) \<in> set ps \<and> rdy h s = Some False}"
proof -
  have "set (foldl (not_ready_step rdy s) out ps) = set out \<union> {n. \<exists>h. (n, h) \<in> set ps \<and> rdy h s = Some False}" for out
    by (induction ps arbitrary: out) (auto simp: not_ready_step_def)
  then show ?thesis by (simp add: not_ready_def)
qed

text \<open>The page is positive exactly when the process is not ending and no handler of an enabled block says that it is not ready.\<close>

lemma ready_page_ok:
  "ready_page path draining (not_ready rdy (ready_plugins rdy blocks configs s0) s) = (200, ''OK'') \<longleftrightarrow>
     path = ''/ready'' \<and> \<not> draining
     \<and> (\<forall>c n h. c \<in> set configs \<and> sc_block_index c \<in> blocks \<and> (n, h) \<in> set (sc_plugins c) \<and> rdy h s0 \<noteq> None \<longrightarrow> rdy h s \<noteq> Some False)"
proof -
  have nr: "not_ready rdy ps s = [] \<longleftrightarrow> (\<forall>n h. (n, h) \<in> set ps \<longrightarrow> rdy h s \<noteq> Some False)" for ps
    unfolding set_empty [symmetric] not_ready_set by blast
  have mem: "(n, h) \<in> set (ready_plugins rdy blocks configs s0) \<longleftrightarrow>
      (\<exists>c. c \<in> set configs \<and> sc_block_index c \<in> blocks \<and> (n, h) \<in> set (sc_plugins c) \<and> rdy h s0 \<noteq> None)" for n h
    by (auto simp: ready_plugins_def split: if_splits)
  have page: "ready_page path draining nr = (200, ''OK'') \<longleftrightarrow> path = ''/ready'' \<and> \<not> draining \<and> nr = []" for nr
    by (simp add: ready_page_def)
  show ?thesis unfolding page nr mem by blast
qed

section \<open>The hooks\<close>

text \<open>The hooks do to the registry what the steps say, for a state that keeps it and a socket that does not touch it.\<close>

lemma endpoint_hooks_step:
  assumes "\<And>e s. eb_get env (eb_put env e s) = e" and "\<And>a s. eb_get env (snd (eb_bind env a s)) = eb_get env s"
  shows "eb_get env (snd (endpoint_startup env i addr s)) = endpoint_step (eb_get env s) (Started addr i (is_ok (fst (endpoint_startup env i addr s))))"
    and "eb_get env (snd (endpoint_shutdown env i s)) = endpoint_step (eb_get env s) (Shut i)"
proof -
  let ?e1 = "replace_endpoint addr i (eb_get env s)"
  obtain r s1 where b: "eb_bind env (normalize_addr addr) (eb_put env ?e1 s) = (r, s1)"
    by (cases "eb_bind env (normalize_addr addr) (eb_put env ?e1 s)")
  have "eb_get env s1 = ?e1" using assms b by (metis snd_conv)
  then show "eb_get env (snd (endpoint_startup env i addr s)) = endpoint_step (eb_get env s) (Started addr i (is_ok (fst (endpoint_startup env i addr s))))"
    by (cases r) (simp_all add: endpoint_startup_def b assms(1) Let_def)
  show "eb_get env (snd (endpoint_shutdown env i s)) = endpoint_step (eb_get env s) (Shut i)"
    by (simp add: endpoint_shutdown_def assms(1))
qed

end
