(* ===== verification/Tsig.thy ===== *)
theory Tsig
  imports Block_Setup
begin

text \<open>
  Message authentication, \<open>src/plugins/tsig.rs\<close>: the secrets of the configuration and of key files, the check of a signed query,
  signed answers.

  The keyed hashes (\<open>TSigner\<close> of \<open>hickory_proto\<close> and the octets it signs), base64, the name parser, files and the clock are
  arguments. A slice whose end lies before its start panics, which is the value \<open>None\<close> of the key file parser.

  Shown here: a query in the zones of the plugin that is not signed with one of its secrets gets to the rest of the chain only when it
  carries no signature and its type needs none; the answer to a genuine query is signed for it; a file whose braces are in the wrong order panics; the handler keeps the id
  and the setup only appends.
\<close>

section \<open>Secrets\<close>

record secret =
  se_name :: dname
  se_algorithm :: "tsig_alg option"
  se_key :: "u8 list"

record tsig =
  tg_zones :: "string list"
  tg_secrets :: "(string \<times> secret) list"
  tg_require :: "rtype list option"

definition FUDGE :: u16 where "FUDGE = 300"
definition BADSIG :: u16 where "BADSIG = 16"
definition BADKEY :: u16 where "BADKEY = 17"
definition BADTIME :: u16 where "BADTIME = 18"

definition parse_algorithm :: "string \<Rightarrow> tsig_alg res" where
  "parse_algorithm s =
     (let a = to_ascii_lowercase (trim_end_matches (CHR ''.'') s) in
      if a = ''hmac-md5'' \<or> a = ''hmac-md5.sig-alg.reg.int'' then Inr HmacMd5
      else if a = ''hmac-sha1'' then Inr HmacSha1
      else if a = ''hmac-sha224'' then Inr HmacSha224
      else if a = ''hmac-sha256'' then Inr HmacSha256
      else if a = ''hmac-sha384'' then Inr HmacSha384
      else if a = ''hmac-sha512'' then Inr HmacSha512
      else Inl (''unsupported TSIG algorithm '' @ a))"

definition trim_quotes :: "string \<Rightarrow> string" where
  "trim_quotes s = (let q = (\<lambda>c. c = CHR 0x22) in rev (dropWhile q (rev (dropWhile q s))))"

record key_file =
  kf_decode :: "string \<Rightarrow> u8 list res"
  kf_from_ascii :: "string \<Rightarrow> dname res"

fun key_statements ::
    "key_file \<Rightarrow> string \<Rightarrow> tsig_alg \<times> u8 list option \<Rightarrow> string list \<Rightarrow> (tsig_alg \<times> u8 list option) res" where
  "key_statements kf name st [] = Inr st"
| "key_statements kf name (alg, sec) (x # xs) =
     (let stmt = trim x in
      case strip_prefix stmt ''algorithm'' of
        Some v \<Rightarrow> rbind (parse_algorithm (trim_quotes (trim v))) (\<lambda>a. key_statements kf name (a, sec) xs)
      | None \<Rightarrow>
          (case strip_prefix stmt ''secret'' of
             Some v \<Rightarrow>
               (case kf_decode kf (trim_quotes (trim v)) of
                  Inl e \<Rightarrow> Inl (''bad secret for '' @ name @ '': '' @ e)
                | Inr k \<Rightarrow> key_statements kf name (alg, Some k) xs)
           | None \<Rightarrow> key_statements kf name (alg, sec) xs))"

definition key_secret :: "key_file \<Rightarrow> string \<Rightarrow> string \<Rightarrow> secret list res" where
  "key_secret kf name body =
     rbind (key_statements kf name (HmacSha256, None) (split_char (CHR '';'') body)) (\<lambda>(alg, sec).
       case sec of
         None \<Rightarrow> Inr []
       | Some k \<Rightarrow> rbind (kf_from_ascii kf (fqdn name)) (\<lambda>n. Inr [\<lparr>se_name = n, se_algorithm = Some alg, se_key = k\<rparr>]))"

function secrets_loop :: "key_file \<Rightarrow> string \<Rightarrow> secret list res option" where
  "secrets_loop kf rest =
     (case find_sub ''key'' rest of
        None \<Rightarrow> Some (Inr [])
      | Some i \<Rightarrow>
          (let aft = drop (i + 3) rest in
           case find_char (CHR ''{'') aft of
             None \<Rightarrow> Some (Inr [])
           | Some op \<Rightarrow>
               (case find_char (CHR ''}'') aft of
                  None \<Rightarrow> Some (Inr [])
                | Some cl \<Rightarrow>
                    if cl < op + 1 then None
                    else (case key_secret kf (trim (trim_quotes (trim (take op aft)))) (take (cl - (op + 1)) (drop (op + 1) aft)) of
                        Inl e \<Rightarrow> Some (Inl e)
                      | Inr xs \<Rightarrow> map_option (\<lambda>r. rbind r (\<lambda>ys. Inr (xs @ ys))) (secrets_loop kf (drop (cl + 1) aft))))))"
  by pat_completeness auto
termination
  by (relation "measure (\<lambda>(kf, rest). length rest)") (auto dest!: find_sub_bound)

declare secrets_loop.simps [simp del]

definition parse_secrets_file :: "key_file \<Rightarrow> string \<Rightarrow> secret list res option" where
  "parse_secrets_file kf txt = secrets_loop kf txt"

section \<open>Checking and signing\<close>

text \<open>
  \<open>te_signer\<close> is \<open>TSigner::new\<close>, \<open>te_verify\<close> its check of the octets of a query, which gives the MAC of the query, \<open>te_tbs\<close> the octets to be signed for an
  answer to a query with a MAC, \<open>te_sign\<close> their MAC; \<open>te_now\<close> is in seconds.
\<close>

record ('k, 's) tsig_env =
  te_signer :: "u8 list \<Rightarrow> tsig_alg \<Rightarrow> dname \<Rightarrow> u16 \<Rightarrow> 'k res"
  te_verify :: "'k \<Rightarrow> u8 list \<Rightarrow> 's \<Rightarrow> u8 list res"
  te_tbs :: "u8 list \<Rightarrow> message \<Rightarrow> tsig_data \<Rightarrow> dname \<Rightarrow> u8 list res"
  te_sign :: "'k \<Rightarrow> u8 list \<Rightarrow> u8 list res"
  te_now :: "'s \<Rightarrow> nat"

definition tsig_rdata :: "rr \<Rightarrow> (rr \<times> tsig_data) option" where
  "tsig_rdata r = (case rr_data r of Some (RD_TSIG t) \<Rightarrow> Some (r, t) | _ \<Rightarrow> None)"

definition tsig_of :: "message \<Rightarrow> (rr \<times> tsig_data) option" where
  "tsig_of m = first (List.map_filter tsig_rdata (m_signature m @ m_additionals m))"

definition required :: "tsig \<Rightarrow> rtype \<Rightarrow> bool" where
  "required t qt = (case tg_require t of None \<Rightarrow> False | Some [] \<Rightarrow> True | Some v \<Rightarrow> qt \<in> set v)"

definition add_tsig :: "dname \<Rightarrow> tsig_data \<Rightarrow> message \<Rightarrow> message" where
  "add_tsig n t m = m\<lparr>m_signature := m_signature m @ [(from_rdata n 0 (RD_TSIG t))\<lparr>rr_class := DC_ANY\<rparr>]\<rparr>"

definition tsig_error :: "('k, 's) tsig_env \<Rightarrow> request \<Rightarrow> dname \<Rightarrow> tsig_alg \<Rightarrow> u16 \<Rightarrow> 's \<Rightarrow> message" where
  "tsig_error env req keyname alg error s =
     add_tsig keyname \<lparr>ts_alg = alg, ts_time = te_now env s, ts_fudge = FUDGE, ts_mac = [], ts_oid = m_id (rq_msg req), ts_error = error, ts_other = []\<rparr>
       ((new_reply req)\<lparr>m_rcode := NotAuth\<rparr>)"

definition tsig_sign_response :: "('k, 's) tsig_env \<Rightarrow> request \<Rightarrow> secret \<Rightarrow> u8 list \<Rightarrow> 's \<Rightarrow> message \<Rightarrow> message res" where
  "tsig_sign_response env req sec mac s m =
     (let alg = (case se_algorithm sec of Some a \<Rightarrow> a | None \<Rightarrow> HmacSha256) in
      rbind (te_signer env (se_key sec) alg (se_name sec) FUDGE) (\<lambda>k.
      let pre = \<lparr>ts_alg = alg, ts_time = te_now env s, ts_fudge = FUDGE, ts_mac = [], ts_oid = m_id (rq_msg req), ts_error = 0, ts_other = []\<rparr> in
      rbind (te_tbs env mac m pre (se_name sec)) (\<lambda>tbs.
      rbind (te_sign env k tbs) (\<lambda>new. Inr (add_tsig (se_name sec) (pre\<lparr>ts_mac := new\<rparr>) m)))))"

text \<open>The check of a signed query: the code of the error, or the secret with the algorithm of the query and the MAC.\<close>

definition tsig_check :: "('k, 's) tsig_env \<Rightarrow> tsig \<Rightarrow> request \<Rightarrow> rr \<Rightarrow> tsig_data \<Rightarrow> 's \<Rightarrow> u16 + secret \<times> u8 list" where
  "tsig_check env t req r td s =
     (case map_of (tg_secrets t) (name_str (rr_name r)) of
        None \<Rightarrow> Inl BADKEY
      | Some sec \<Rightarrow>
          if (case se_algorithm sec of Some a \<Rightarrow> a \<noteq> ts_alg td | None \<Rightarrow> False) then Inl BADKEY
          else (case rq_raw req of
              None \<Rightarrow> Inl BADSIG
            | Some raw \<Rightarrow>
                (case te_signer env (se_key sec) (ts_alg td) (se_name sec) FUDGE of
                   Inl _ \<Rightarrow> Inl BADKEY
                 | Inr k \<Rightarrow>
                     (case te_verify env k raw s of
                        Inl e \<Rightarrow> Inl (if find_sub ''time'' e \<noteq> None then BADTIME else BADSIG)
                      | Inr mac \<Rightarrow> Inr (sec\<lparr>se_algorithm := Some (ts_alg td)\<rparr>, mac)))))"

definition tsig_serve :: "('k, 's) tsig_env \<Rightarrow> tsig \<Rightarrow> 's handler" where
  "tsig_serve env t req nx s =
     (case req_name req of (qn, req1) \<Rightarrow>
        if zones_match (tg_zones t) qn = None then nx_serve nx req1 s
        else (case tsig_of (rq_msg req1) of
            None \<Rightarrow>
              if required t (qtype req1) then (Replied (RMsg ((new_reply req1)\<lparr>m_rcode := Refused\<rparr>)), req1, s)
              else nx_serve nx req1 s
          | Some (r, td) \<Rightarrow>
              (case tsig_check env t req1 r td s of
                 Inl code \<Rightarrow> (Replied (RMsg (tsig_error env req1 (rr_name r) (ts_alg td) code s)), req1, s)
               | Inr (sec, mac) \<Rightarrow>
                   on_reply (nx_serve nx (req1\<lparr>rq_tsig_verified := Some (se_name sec), rq_msg := (rq_msg req1)\<lparr>m_signature := []\<rparr>\<rparr>) s)
                     (\<lambda>rep req2 s2.
                        (Replied (reply_map_msg (\<lambda>m. case tsig_sign_response env req2 sec mac s2 m of Inr m' \<Rightarrow> m' | Inl _ \<Rightarrow> m) rep), req2, s2)))))"

section \<open>Setup\<close>

record tsig_options =
  tp_secrets :: "(string \<times> secret) list"
  tp_require :: "rtype list option"

definition put_secret :: "string \<Rightarrow> secret \<Rightarrow> (string \<times> secret) list \<Rightarrow> (string \<times> secret) list" where
  "put_secret k v m = (k, v) # filter (\<lambda>(j, _). j \<noteq> k) m"

text \<open>\<open>tq_panic\<close> stands for the end of the process in a panic of the key file parser.\<close>

record ('net) tsig_parse =
  tq_from_ascii :: "string \<Rightarrow> dname res"
  tq_api :: "'net ipnet_api"
  tq_decode :: "string \<Rightarrow> u8 list res"
  tq_encode :: "u8 list \<Rightarrow> string"
  tq_read :: "string \<Rightarrow> string res"
  tq_rtype :: "string \<Rightarrow> rtype res"
  tq_panic :: err

definition require_types :: "'net tsig_parse \<Rightarrow> (string \<Rightarrow> err) \<Rightarrow> string list \<Rightarrow> rtype list option res" where
  "require_types ps ef a =
     (if hd a = ''all'' then Inr (Some [])
      else if hd a = ''none'' then Inr None
      else rbind (try_flat_map (\<lambda>t. case record_type_from_str (tq_rtype ps) t of Inl e \<Rightarrow> Inl (ef e) | Inr x \<Rightarrow> Inr [x]) a) (\<lambda>v. Inr (Some v)))"

definition tsig_line ::
    "'net tsig_parse \<Rightarrow> string \<Rightarrow> (string \<Rightarrow> err) \<Rightarrow> err \<Rightarrow> string \<Rightarrow> string list \<Rightarrow> tsig_options \<Rightarrow> tsig_options res" where
  "tsig_line ps root ef arg_e v a o1 =
     (if v = ''secret'' then
        (if length a \<noteq> 2 then Inl arg_e
         else (let name = fqdn (a ! 0) in
           case tq_decode ps (a ! 1) of
             Inl e \<Rightarrow> Inl (ef (''bad secret for '' @ a ! 0 @ '': '' @ e))
           | Inr key \<Rightarrow>
               (case tq_from_ascii ps name of
                  Inl e \<Rightarrow> Inl (ef e)
                | Inr n \<Rightarrow> Inr (o1\<lparr>tp_secrets := put_secret name \<lparr>se_name = n, se_algorithm = None, se_key = key\<rparr> (tp_secrets o1)\<rparr>))))
      else if v = ''secrets'' then
        (if length a \<noteq> 1 then Inl arg_e
         else (let p = path_join root (hd a) in
           case tq_read ps p of
             Inl e \<Rightarrow> Inl (ef (''reading '' @ p @ '': '' @ e))
           | Inr txt \<Rightarrow>
               (case parse_secrets_file \<lparr>kf_decode = tq_decode ps, kf_from_ascii = tq_from_ascii ps\<rparr> txt of
                  None \<Rightarrow> Inl (tq_panic ps)
                | Some (Inl e) \<Rightarrow> Inl (ef e)
                | Some (Inr xs) \<Rightarrow> Inr (o1\<lparr>tp_secrets := foldl (\<lambda>m x. put_secret (name_str (se_name x)) x m) (tp_secrets o1) xs\<rparr>))))
      else if v = ''require'' then
        (if a = [] then Inl arg_e else rbind (require_types ps ef a) (\<lambda>r. Inr (o1\<lparr>tp_require := r\<rparr>)))
      else Inl (ef (''unknown property '' @ quote v)))"

definition tsig_property :: "'net tsig_parse \<Rightarrow> string \<Rightarrow> tsig_options \<Rightarrow> 's controller \<Rightarrow> tsig_options res \<times> 's controller" where
  "tsig_property ps root = line_property (\<lambda>v. v \<in> {''secret'', ''secrets'', ''require''}) (tsig_line ps root)"

definition tsig_body :: "'net tsig_parse \<Rightarrow> ('k, 's) tsig_env \<Rightarrow> 's setup_fn" where
  "tsig_body ps env c =
     (case ctl_disp remaining_args_until_brace c of (as, c1) \<Rightarrow>
        (case controller_origins (tq_from_ascii ps) (tq_api ps) c1 as of
           Inl e \<Rightarrow> (Inl e, c1)
         | Inr zones \<Rightarrow>
             (case block_loop (tsig_property ps (sc_root (ct_config c1))) \<lparr>tp_secrets = [], tp_require = None\<rparr> c1 of
                (Inl e, c2) \<Rightarrow> (Inl e, c2)
              | (Inr o1, c2) \<Rightarrow>
                  if tp_secrets o1 = [] then (Inl (ctl_errf c2 ''no secrets defined''), c2)
                  else (Inr (), add_plugin (''tsig'', tsig_serve env \<lparr>tg_zones = zones, tg_secrets = tp_secrets o1, tg_require = tp_require o1\<rparr>)
                    (on_config (\<lambda>g. g\<lparr>sc_tsig_secrets := map_of (map (\<lambda>(k, x). (k, tq_encode ps (se_key x))) (tp_secrets o1))\<rparr>) c2)))))"

definition tsig_setup :: "'net tsig_parse \<Rightarrow> ('k, 's) tsig_env \<Rightarrow> 's setup_fn" where
  "tsig_setup ps env = single_setup ''tsig'' (tsig_body ps env)"

section \<open>Contracts\<close>

lemma add_tsig_fields [simp]: "m_id (add_tsig n t m) = m_id m" "m_rcode (add_tsig n t m) = m_rcode m"
  by (simp_all add: add_tsig_def)

lemma tsig_sign_response_id: "tsig_sign_response env req sec mac s m = Inr m' \<Longrightarrow> m_id m' = m_id m"
  by (auto simp: tsig_sign_response_def Let_def rbind_eq_Inr)

lemma keeps_id_signed:
  assumes f: "keeps_id f" and g: "\<And>req s m. m_id (g req s m) = m_id m"
  shows "keeps_id (\<lambda>req s. on_reply (f req s) (\<lambda>r req' s'. (Replied (reply_map_msg (g req' s') r), req', s')))"
proof (rule keeps_idI)
  fix req s out req' s'
  assume run: "on_reply (f req s) (\<lambda>r req' s'. (Replied (reply_map_msg (g req' s') r), req', s')) = (out, req', s')"
  obtain o1 q1 t1 where o: "f req s = (o1, q1, t1)" by (metis prod.exhaust)
  with run have "req' = q1" by (auto simp: on_reply_def split: outcome.splits)
  with keeps_idD(1) [OF f o] show "m_id (rq_msg req') = m_id (rq_msg req)" by simp
next
  fix req s m req' s'
  assume run: "on_reply (f req s) (\<lambda>r req' s'. (Replied (reply_map_msg (g req' s') r), req', s')) = (Replied (RMsg m), req', s')"
  obtain o1 q1 t1 where o: "f req s = (o1, q1, t1)" by (metis prod.exhaust)
  with run obtain m0 where "o1 = Replied (RMsg m0)" "m = g q1 t1 m0" by (auto simp: on_reply_def split: outcome.splits)
  with keeps_idD(2) [OF f o] show "m_id m = m_id (rq_msg req)" by (simp add: g)
qed

lemma keeps_id_sum:
  assumes "\<And>e. keeps_id (f e)" "\<And>x. keeps_id (g x)"
  shows "keeps_id (\<lambda>req s. case P req s of Inl e \<Rightarrow> f e req s | Inr x \<Rightarrow> g x req s)"
  using assms by (simp add: keeps_id_def split: sum.splits)

lemma keeps_id_answer_at:
  assumes "\<And>req s. m_id (m req s) = m_id (rq_msg req)"
  shows "keeps_id (\<lambda>req s. (Replied (RMsg (m (snd (req_name req)) s)), snd (req_name req), s))"
  using assms by (auto simp: keeps_id_def)

lemma tsig_keeps_id:
  assumes "keeps_id (nx_serve nx)"
  shows "keeps_id (\<lambda>req s. tsig_serve env t req nx s)"
proof -
  have named: "keeps_id (\<lambda>req s. nx_serve nx (snd (req_name req)) s)" by (rule keeps_id_same [OF assms]) simp
  have sign: "m_id (case tsig_sign_response env req sec mac s m of Inr m' \<Rightarrow> m' | Inl _ \<Rightarrow> m) = m_id m" for req sec mac s m
    by (auto split: sum.split dest: tsig_sign_response_id)
  have passed: "keeps_id (\<lambda>req s. on_reply
      (nx_serve nx ((snd (req_name req))\<lparr>rq_tsig_verified := v, rq_msg := (rq_msg (snd (req_name req)))\<lparr>m_signature := []\<rparr>\<rparr>) s)
      (\<lambda>rep req2 s2. (Replied (reply_map_msg (\<lambda>m. case tsig_sign_response env req2 sec mac s2 m of Inr m' \<Rightarrow> m' | Inl _ \<Rightarrow> m) rep), req2, s2)))"
    for v sec mac
    by (rule keeps_id_signed [OF keeps_id_same [OF assms]]) (simp_all add: sign)
  show ?thesis unfolding tsig_serve_def case_prod_beta
    by (intro keeps_id_if keeps_id_option keeps_id_sum named passed keeps_id_answer_at) (simp_all add: tsig_error_def)
qed

interpretation tsig_handler: id_keeping_handler "tsig_serve env t"
  by unfold_locales (rule tsig_keeps_id)

interpretation tsig_block: block_property "tsig_property ps root"
  unfolding tsig_property_def by (rule line_property_block) (simp add: tsig_line_def is_ok_def)

lemma tsig_body_appends: "tsig_body ps env c = (r, c') \<Longrightarrow> appends_plugins c c'"
proof -
  assume run: "tsig_body ps env c = (r, c')"
  obtain as c1 where a: "ctl_disp remaining_args_until_brace c = (as, c1)"
    by (cases "ctl_disp remaining_args_until_brace c")
  note st = args_block_steps [OF a tsig_block.block_property_axioms]
  show ?thesis
    using run a appends_disp [OF a]
    by (auto simp: tsig_body_def split: sum.splits prod.splits if_splits dest: st(2) intro!: appends_steps)
qed

interpretation tsig_setup: setup_function "tsig_setup ps env"
  unfolding tsig_setup_def by (rule single_setup_function [OF tsig_body_appends])

section \<open>Who gets through\<close>

text \<open>The query is signed with a secret of the plugin, whose algorithm, if it has one, is the one of the signature, and the check of its octets succeeds.\<close>

definition genuine :: "('k, 's) tsig_env \<Rightarrow> tsig \<Rightarrow> request \<Rightarrow> 's \<Rightarrow> secret \<Rightarrow> u8 list \<Rightarrow> bool" where
  "genuine env t req s sec mac \<longleftrightarrow>
     (\<exists>r td sec0 raw k. tsig_of (rq_msg req) = Some (r, td) \<and> map_of (tg_secrets t) (name_str (rr_name r)) = Some sec0
       \<and> (se_algorithm sec0 = None \<or> se_algorithm sec0 = Some (ts_alg td)) \<and> rq_raw req = Some raw
       \<and> te_signer env (se_key sec0) (ts_alg td) (se_name sec0) FUDGE = Inr k \<and> te_verify env k raw s = Inr mac
       \<and> sec = sec0\<lparr>se_algorithm := Some (ts_alg td)\<rparr>)"

lemma tsig_check_genuine:
  "tsig_of (rq_msg req) = Some (r, td) \<Longrightarrow> tsig_check env t req r td s = Inr (sec, mac) \<longleftrightarrow> genuine env t req s sec mac"
  by (auto simp: genuine_def tsig_check_def split: option.splits sum.splits)

text \<open>A message signed as the answer to a query with a MAC: one TSIG record under the name of the key is added, whose MAC is the one
  that the key gives for the octets to be signed; nothing else changes.\<close>

definition signed_for :: "('k, 's) tsig_env \<Rightarrow> secret \<Rightarrow> u8 list \<Rightarrow> u16 \<Rightarrow> nat \<Rightarrow> message \<Rightarrow> message \<Rightarrow> bool" where
  "signed_for env sec mac qid now m m' \<longleftrightarrow>
     (\<exists>alg k td tbs new. se_algorithm sec = Some alg \<and> te_signer env (se_key sec) alg (se_name sec) FUDGE = Inr k
       \<and> td = \<lparr>ts_alg = alg, ts_time = now, ts_fudge = FUDGE, ts_mac = [], ts_oid = qid, ts_error = 0, ts_other = []\<rparr>
       \<and> te_tbs env mac m td (se_name sec) = Inr tbs \<and> te_sign env k tbs = Inr new
       \<and> m' = m\<lparr>m_signature := m_signature m @ [\<lparr>rr_name = se_name sec, rr_type = RT_TSIG, rr_class = DC_ANY, rr_ttl = 0, rr_data = Some (RD_TSIG (td\<lparr>ts_mac := new\<rparr>))\<rparr>]\<rparr>)"

text \<open>The octets to be signed for the message, or their MAC, cannot be computed.\<close>

definition signing_fails :: "('k, 's) tsig_env \<Rightarrow> secret \<Rightarrow> u8 list \<Rightarrow> u16 \<Rightarrow> nat \<Rightarrow> message \<Rightarrow> bool" where
  "signing_fails env sec mac qid now m \<longleftrightarrow>
     (\<exists>alg k td. se_algorithm sec = Some alg \<and> te_signer env (se_key sec) alg (se_name sec) FUDGE = Inr k
       \<and> td = \<lparr>ts_alg = alg, ts_time = now, ts_fudge = FUDGE, ts_mac = [], ts_oid = qid, ts_error = 0, ts_other = []\<rparr>
       \<and> ((\<exists>e. te_tbs env mac m td (se_name sec) = Inl e)
          \<or> (\<exists>tbs e. te_tbs env mac m td (se_name sec) = Inr tbs \<and> te_sign env k tbs = Inl e)))"

lemma tsig_sign_response_signed:
  assumes "genuine env t req s sec mac"
  shows "tsig_sign_response env req2 sec mac s2 m = Inr m' \<Longrightarrow> signed_for env sec mac (m_id (rq_msg req2)) (te_now env s2) m m'"
    and "tsig_sign_response env req2 sec mac s2 m = Inl e \<Longrightarrow> signing_fails env sec mac (m_id (rq_msg req2)) (te_now env s2) m"
proof -
  from assms obtain k alg where k: "se_algorithm sec = Some alg" "te_signer env (se_key sec) alg (se_name sec) FUDGE = Inr k"
    by (auto simp: genuine_def)
  show "signed_for env sec mac (m_id (rq_msg req2)) (te_now env s2) m m'" if "tsig_sign_response env req2 sec mac s2 m = Inr m'"
    using that k by (auto simp: tsig_sign_response_def signed_for_def rbind_eq_Inr add_tsig_def from_rdata_def)
  show "signing_fails env sec mac (m_id (rq_msg req2)) (te_now env s2) m" if "tsig_sign_response env req2 sec mac s2 m = Inl e"
    using that k by (auto simp: tsig_sign_response_def signing_fails_def Let_def rbind_eq_Inl)
qed

text \<open>What becomes of a genuine query.\<close>

lemma tsig_serve_genuine:
  assumes "req_name req = (qn, req1)" "zones_match (tg_zones t) qn \<noteq> None" "genuine env t req s sec mac"
  shows "tsig_serve env t req nx s =
      on_reply (nx_serve nx (req1\<lparr>rq_tsig_verified := Some (se_name sec), rq_msg := (rq_msg req)\<lparr>m_signature := []\<rparr>\<rparr>) s)
        (\<lambda>rep req2 s2. (Replied (reply_map_msg (\<lambda>m. case tsig_sign_response env req2 sec mac s2 m of Inr m' \<Rightarrow> m' | Inl _ \<Rightarrow> m) rep), req2, s2))"
proof -
  obtain z where z: "zones_match (tg_zones t) qn = Some z" using assms(2) by blast
  have req1: "rq_msg req1 = rq_msg req" "rq_raw req1 = rq_raw req"
    using assms(1) req_name_frame [of req] by (auto simp: req_name_def Let_def split: option.splits)
  have gen: "genuine env t req1 s sec mac" using assms(3) by (simp add: genuine_def req1)
  then obtain r td where td: "tsig_of (rq_msg req1) = Some (r, td)" by (auto simp: genuine_def)
  have "tsig_check env t req1 r td s = Inr (sec, mac)" using gen by (simp only: tsig_check_genuine [OF td])
  with td assms(1) z show ?thesis by (simp add: tsig_serve_def req1)
qed

lemma tsig_serve_refused:
  assumes "req_name req = (qn, req1)" "zones_match (tg_zones t) qn \<noteq> None"
    and no: "\<forall>sec mac. \<not> genuine env t req s sec mac" and need: "tsig_of (rq_msg req) = None \<longrightarrow> required t (qtype req)"
  shows "\<exists>m. (\<forall>nx. tsig_serve env t req nx s = (Replied (RMsg m), req1, s)) \<and> m_rcode m = (if tsig_of (rq_msg req) = None then Refused else NotAuth)"
proof -
  obtain z where z: "zones_match (tg_zones t) qn = Some z" using assms(2) by blast
  have req1: "rq_msg req1 = rq_msg req" "rq_raw req1 = rq_raw req"
    using assms(1) req_name_frame [of req] by (auto simp: req_name_def Let_def split: option.splits)
  then have qt: "qtype req1 = qtype req" by (simp add: qtype_def)
  show ?thesis
  proof (cases "tsig_of (rq_msg req)")
    case None
    with need assms(1) z show ?thesis by (simp add: tsig_serve_def req1 qt)
  next
    case (Some p)
    obtain r td where p: "p = (r, td)" by (cases p)
    have "\<not> genuine env t req1 s sec mac" for sec mac using no by (simp add: genuine_def req1)
    then obtain code where "tsig_check env t req1 r td s = Inl code"
      using tsig_check_genuine [of req1 r td env t s] Some p req1 by (cases "tsig_check env t req1 r td s") auto
    with Some p assms(1) z show ?thesis by (simp add: tsig_serve_def req1 tsig_error_def)
  qed
qed

text \<open>C15: A query for a name in the zones of the plugin that is not genuinely signed, and that is signed or of a type that needs a signature,
  never gets to the rest of the chain: the answer is the same whatever follows the plugin, REFUSED without a signature and NOTAUTH with
  one. A genuine query is passed on with the name of its key and without the signature; when the rest of the chain answers it with one
  message, the reply is that message with a TSIG record of the key added, whose MAC is the key's MAC of the octets to be signed for
  this message, the MAC of the query and the time of the answer, unless the message library fails to compute these octets or the MAC, in
  which case the message goes out as it is; errors of the chain are passed on. Replies of several messages are not spoken of.\<close>

theorem tsig_guard:
  fixes env :: "('k, 's) tsig_env"
  assumes "req_name req = (qn, req1)" and "zones_match (tg_zones t) qn \<noteq> None"
  shows "((\<forall>sec mac. \<not> genuine env t req s sec mac) \<longrightarrow> (tsig_of (rq_msg req) = None \<longrightarrow> required t (qtype req)) \<longrightarrow>
      (\<exists>m. (\<forall>nx. tsig_serve env t req nx s = (Replied (RMsg m), req1, s))
         \<and> m_rcode m = (if tsig_of (rq_msg req) = None then Refused else NotAuth)))
    \<and> (\<forall>sec mac nx out req2 s2. genuine env t req s sec mac \<longrightarrow>
      nx_serve nx (req1\<lparr>rq_tsig_verified := Some (se_name sec), rq_msg := (rq_msg req)\<lparr>m_signature := []\<rparr>\<rparr>) s = (out, req2, s2) \<longrightarrow>
      (\<forall>m. out = Replied (RMsg m) \<longrightarrow>
         (\<exists>m'. tsig_serve env t req nx s = (Replied (RMsg m'), req2, s2)
            \<and> (signed_for env sec mac (m_id (rq_msg req2)) (te_now env s2) m m' \<or> signing_fails env sec mac (m_id (rq_msg req2)) (te_now env s2) m \<and> m' = m)))
      \<and> ((\<forall>rep. out \<noteq> Replied rep) \<longrightarrow> tsig_serve env t req nx s = (out, req2, s2)))"
proof (intro conjI impI allI)
  show "\<exists>m. (\<forall>nx. tsig_serve env t req nx s = (Replied (RMsg m), req1, s)) \<and> m_rcode m = (if tsig_of (rq_msg req) = None then Refused else NotAuth)"
    if "\<forall>sec mac. \<not> genuine env t req s sec mac" "tsig_of (rq_msg req) = None \<longrightarrow> required t (qtype req)"
    by (rule tsig_serve_refused [OF assms that])
  fix sec mac out req2 s2 and nx :: "'s next_plugin"
  assume gen: "genuine env t req s sec mac"
    and run: "nx_serve nx (req1\<lparr>rq_tsig_verified := Some (se_name sec), rq_msg := (rq_msg req)\<lparr>m_signature := []\<rparr>\<rparr>) s = (out, req2, s2)"
  note served = tsig_serve_genuine [OF assms gen, of nx, unfolded run on_reply_def prod.case]
  show "\<exists>m'. tsig_serve env t req nx s = (Replied (RMsg m'), req2, s2)
      \<and> (signed_for env sec mac (m_id (rq_msg req2)) (te_now env s2) m m' \<or> signing_fails env sec mac (m_id (rq_msg req2)) (te_now env s2) m \<and> m' = m)"
    if "out = Replied (RMsg m)" for m
    using that tsig_sign_response_signed [OF gen, of req2 s2 m]
    by (cases "tsig_sign_response env req2 sec mac s2 m") (simp_all add: served)
  show "tsig_serve env t req nx s = (out, req2, s2)" if "\<forall>rep. out \<noteq> Replied rep"
    using that by (cases out) (simp_all add: served)
qed

text \<open>Of a reply of several messages, such as a zone transfer, the first is signed.\<close>

lemma tsig_signs_first_of_many:
  assumes "req_name req = (qn, req1)" "zones_match (tg_zones t) qn \<noteq> None" "genuine env t req s sec mac"
    and "nx_serve nx (req1\<lparr>rq_tsig_verified := Some (se_name sec), rq_msg := (rq_msg req)\<lparr>m_signature := []\<rparr>\<rparr>) s = (Replied (RMulti (m # ms)), req2, s2)"
    and "tsig_sign_response env req2 sec mac s2 m = Inr m'"
  shows "tsig_serve env t req nx s = (Replied (RMulti (m' # ms)), req2, s2) \<and> signed_for env sec mac (m_id (rq_msg req2)) (te_now env s2) m m'"
  using tsig_serve_genuine [OF assms(1-3), of nx] tsig_sign_response_signed(1) [OF assms(3,5)] assms(4,5)
  by (simp add: on_reply_def)

text \<open>A key, and a query that carries its name but octets that do not pass the check.\<close>

definition one_key :: tsig where
  "one_key = \<lparr>tg_zones = [''a.''], tg_secrets = [(''k.'', \<lparr>se_name = ''k.'', se_algorithm = None, se_key = [7]\<rparr>)], tg_require = None\<rparr>"

definition one_env :: "(u8 list, unit) tsig_env" where
  "one_env = \<lparr>te_signer = (\<lambda>key _ _ _. Inr key), te_verify = (\<lambda>k raw _. if raw = k then Inr k else Inl ''signature mismatch''),
     te_tbs = (\<lambda>mac _ _ _. Inr mac), te_sign = (\<lambda>k b. Inr (k @ b)), te_now = (\<lambda>_. 0)\<rparr>"

definition signed_query :: "u8 list \<Rightarrow> request" where
  "signed_query raw =
     (let q = query_for ''a.'' RT_A in
      q\<lparr>rq_raw := Some raw, rq_msg := add_tsig ''k.'' \<lparr>ts_alg = HmacSha256, ts_time = 0, ts_fudge = FUDGE, ts_mac = raw, ts_oid = 0, ts_error = 0, ts_other = []\<rparr> (rq_msg q)\<rparr>)"

theorem tsig_guard_witness:
  "(\<exists>m req1. (\<forall>nx. tsig_serve one_env one_key (signed_query [8]) nx () = (Replied (RMsg m), req1, ())) \<and> m_rcode m = NotAuth)
    \<and> (\<exists>m' req2. tsig_serve one_env one_key (signed_query [7]) \<lparr>nx_names = [], nx_serve = (\<lambda>req s. (Replied (RMsg (new_reply req)), req, s))\<rparr> () = (Replied (RMsg m'), req2, ())
        \<and> map rr_data (m_signature m') = [Some (RD_TSIG \<lparr>ts_alg = HmacSha256, ts_time = 0, ts_fudge = FUDGE, ts_mac = [7, 7], ts_oid = 7, ts_error = 0, ts_other = []\<rparr>)])"
proof
  have sig: "m_signature (rq_msg (query_for n t)) = []" "m_additionals (rq_msg (query_for n t)) = []" for n t
    by (simp_all add: query_for_def request_new_def message_new_def)
  have t: "tsig_of (rq_msg (signed_query raw)) =
      Some ((from_rdata ''k.'' 0 (RD_TSIG \<lparr>ts_alg = HmacSha256, ts_time = 0, ts_fudge = FUDGE, ts_mac = raw, ts_oid = 0, ts_error = 0, ts_other = []\<rparr>))\<lparr>rr_class := DC_ANY\<rparr>,
        \<lparr>ts_alg = HmacSha256, ts_time = 0, ts_fudge = FUDGE, ts_mac = raw, ts_oid = 0, ts_error = 0, ts_other = []\<rparr>)" for raw
    by (simp add: tsig_of_def signed_query_def add_tsig_def sig map_filter_simps tsig_rdata_def Let_def)
  have k: "name_str ''k.'' = ''k.''" by code_simp
  have raw: "rq_raw (signed_query r) = Some r" for r by (simp add: signed_query_def Let_def)
  have no: "\<forall>sec mac. \<not> genuine one_env one_key (signed_query [8]) () sec mac"
    by (simp add: genuine_def t k raw one_key_def one_env_def)
  have "fst (req_name (signed_query [8])) = ''a.''" "fst (req_name (signed_query [7])) = ''a.''" by code_simp+
  then have n: "req_name (signed_query [8]) = (''a.'', snd (req_name (signed_query [8])))" "req_name (signed_query [7]) = (''a.'', snd (req_name (signed_query [7])))"
    by (metis prod.collapse)+
  have z: "zones_match (tg_zones one_key) ''a.'' \<noteq> None" by code_simp
  from tsig_guard [OF n(1) z, of one_env "()"] no
  show "\<exists>m req1. (\<forall>nx. tsig_serve one_env one_key (signed_query [8]) nx () = (Replied (RMsg m), req1, ())) \<and> m_rcode m = NotAuth"
    by (simp add: t) blast
  let ?nx = "\<lparr>nx_names = [], nx_serve = (\<lambda>req s. (Replied (RMsg (new_reply req)), req, s))\<rparr> :: unit next_plugin"
  let ?sec = "\<lparr>se_name = ''k.'', se_algorithm = Some HmacSha256, se_key = [7]\<rparr>"
  have gen: "genuine one_env one_key (signed_query [7]) () ?sec [7]"
    by (simp add: genuine_def t k raw one_key_def one_env_def)
  let ?req2 = "(snd (req_name (signed_query [7])))\<lparr>rq_tsig_verified := Some (se_name ?sec), rq_msg := (rq_msg (signed_query [7]))\<lparr>m_signature := []\<rparr>\<rparr>"
  have run: "nx_serve ?nx ?req2 () = (Replied (RMsg (new_reply ?req2)), ?req2, ())" by simp
  have no_fail: "\<not> signing_fails one_env ?sec [7] i now m" for i now m by (simp add: signing_fails_def one_env_def)
  have m: "m_id (rq_msg (signed_query [7])) = 7" "m_signature (new_reply ?req2) = []"
    by (simp_all add: signed_query_def add_tsig_def Let_def new_reply_def set_edns0_def message_defs split: option.splits)
  from tsig_guard [OF n(2) z, of one_env "()", THEN conjunct2, rule_format, OF gen run] no_fail
  obtain m' where "tsig_serve one_env one_key (signed_query [7]) ?nx () = (Replied (RMsg m'), ?req2, ())"
    "signed_for one_env ?sec [7] 7 0 (new_reply ?req2) m'" using m(1) by (auto simp: one_env_def)
  with m(2) show "\<exists>m' req2. tsig_serve one_env one_key (signed_query [7]) ?nx () = (Replied (RMsg m'), req2, ())
        \<and> map rr_data (m_signature m') = [Some (RD_TSIG \<lparr>ts_alg = HmacSha256, ts_time = 0, ts_fudge = FUDGE, ts_mac = [7, 7], ts_oid = 7, ts_error = 0, ts_other = []\<rparr>)]"
    by (auto simp: signed_for_def one_env_def)
qed

text \<open>A closing brace before the opening one makes the parser of a key file panic.\<close>

lemma key_file_brace_panics: "parse_secrets_file kf ''key } {'' = None"
proof -
  have "find_sub ''key'' ''key } {'' = Some 0" "find_char (CHR ''{'') '' } {'' = Some 3" "find_char (CHR ''}'') '' } {'' = Some 1"
    by code_simp+
  then show ?thesis unfolding parse_secrets_file_def by (subst secrets_loop.simps) simp
qed

end
