(* ===== verification/Spec2Isabelle.thy ===== *)
theory Spec2Isabelle
  imports Instance Cache Zone Hosts Rewrite Forward Answer_Plugins View Auto K8s_External Template Sign Etcd Cloud_Json Directives Observe Endpoints Tsig
begin

text \<open>
  Verification of stormcoredns, a DNS server in Rust after the design of CoreDNS. Source files are named
  relative to \<open>src/src\<close>.

  \<^bold>\<open>The program.\<close> A Corefile is cut into tokens (\<open>corefile/lexer.rs\<close>) and parsed into server blocks
  (\<open>corefile/parser.rs\<close>). For every key of every block, \<open>server/build.rs\<close> makes a configuration and runs the
  setup of each directive in the order of \<open>plugin/registry.rs\<close>; a setup reads its tokens through a
  controller (\<open>plugin/controller.rs\<close>, \<open>corefile/dispenser.rs\<close>) and appends handlers and hooks. The
  configurations are grouped into servers by listening address. An instance (\<open>server/mod.rs\<close>) binds the sockets, runs the hooks and
  serves; the main loop (\<open>main.rs\<close>) reloads it or stops it. A query is decoded into a request
  (\<open>plugin/request.rs\<close>), the server finds the zone entry with the longest matching name, runs that entry's
  chain of plugins (\<open>plugin/mod.rs\<close>), and turns the outcome into messages within the size of the request.

  \<^bold>\<open>The model.\<close> Rust structs are records, enums are datatypes, \<open>Result\<close> is a sum whose left side is the message of
  the error, a panic is a value of its own (the outcome \<open>Panicked\<close>), integers keep their width as words where
  they can wrap. A handler is a function of the rest of the chain, the request and the state shared by
  the plugins, and returns its reply, the request as the handler left it and the new state; the state is
  a type parameter, so that plugins with different states meet in one chain. Strings are lists of bytes.

  \<^bold>\<open>Theories.\<close>
  \<^item> \<open>Storm_Prelude\<close>: results, the operations of Rust's strings and numbers, shared lemmas and collections of rules.
  \<^item> \<open>Net_Addr\<close>, \<open>Dns_Data\<close>: addresses of \<open>std::net\<close> and their text; names, records and messages with the accessors the
    sources call.
  \<^item> \<open>Dnsutil\<close> (\<open>dnsutil/mod.rs\<close>): names as text, subdomains, zone keys, reverse names, durations, host and port.
    Being a subdomain is having the labels as a suffix; reverse names and addresses are inverse.
  \<^item> \<open>Lexer\<close>, \<open>Dispenser\<close>, \<open>Parser\<close> (\<open>corefile\<close>): rendered tokens are read back; a directive's tokens are those of the
    file; every directive of a parsed file is well formed; when a skipped block ends.
  \<^item> \<open>Request\<close>, \<open>Chain\<close> (\<open>plugin\<close>): the request, replies, the chain. The locale \<open>id_keeping_handler\<close> is the contract of
    a handler: if the rest of the chain answers with the id of the request, so does the handler. Every
    modelled handler is an interpretation but two: \<open>cancel\<close> keeps the contract when the chain it cuts off has not changed the
    id (\<open>cancel_keeps_id\<close>), and \<open>autopath\<close> does not keep it (\<open>autopath_fresh_id\<close>).
  \<^item> \<open>Server_Config\<close>, \<open>Server_Build\<close> (\<open>server/config.rs\<close>, \<open>server/build.rs\<close>, the registry and the controller): building and
    grouping. The locale \<open>setup_function\<close> is the contract of a setup: it only appends handlers under its own
    directive.
  \<^item> \<open>Block_Setup\<close>: the two loops that most setups share, over blocks and over directives, with the
    locales \<open>block_property\<close> and \<open>directive_body\<close> that make them end.
  \<^item> \<open>Server_Core\<close> (\<open>server/mod.rs\<close>): zone look-up (locale \<open>label_walk\<close>), running a chain, panics, limits on the size of
    answers, framing on streams.
  \<^item> \<open>Instance\<close> (\<open>main.rs\<close>, \<open>Instance\<close>): command line, start, hooks, reload, stop, main loop. The listeners that
    run are those of the current instance; a reload that fails without a panic leaves the old instance.
  \<^item> \<open>Basic_Plugins\<close>, \<open>Acl\<close>, \<open>Hosts\<close>, \<open>Answer_Plugins\<close>: \<open>any\<close>, \<open>minimal\<close>, \<open>nsid\<close>, \<open>bufsize\<close>, \<open>cancel\<close>, \<open>chaos\<close>, \<open>whoami\<close>, \<open>header\<close>,
    \<open>debug\<close>, \<open>root\<close>, \<open>multisocket\<close>, \<open>timeouts\<close>; \<open>acl\<close> as first matching rule; \<open>hosts\<close> against the lines of its
    files; \<open>local\<close>, \<open>loadbalance\<close>, \<open>erratic\<close>, \<open>dns64\<close>, \<open>autopath\<close>, \<open>loop\<close>.
  \<^item> \<open>Cache\<close> (\<open>plugins/cache.rs\<close>): stores over any cache that meets the locale \<open>lru_cache\<close>; what is stored is found again,
    nothing is served past its time, one refresh at a time.
  \<^item> \<open>Replacer\<close>, \<open>Rewrite\<close> (\<open>plugin/replacer.rs\<close>, \<open>plugins/rewrite.rs\<close>): log formats; rules on queries and responses; the client
    gets its own question back.
  \<^item> \<open>Forward\<close> (\<open>plugins/forward.rs\<close>): upstreams, policies, health checks, connections, the loop over upstreams.
  \<^item> \<open>Zone\<close>, \<open>Zone_Transfer\<close> (\<open>plugins/file\<close>, \<open>plugins/transfer.rs\<close>, \<open>plugins/secondary.rs\<close>): zones from records, look-up with
    wildcards, delegations, CNAME and DNAME chains and denial proofs; transfers between servers, serial
    arithmetic, refresh and expiry.
  \<^item> \<open>View\<close> (\<open>plugins/view.rs\<close>): the expression language. Printed expressions are read back and the parser always
    ends (locales \<open>sub_parser\<close>, \<open>total_sub_parser\<close>).
  \<^item> \<open>Kube_Store\<close>, \<open>Kubernetes\<close> (\<open>plugins/kubernetes\<close>): the store of the cluster's objects under the events of its watches, in any
    order (locale \<open>index_watcher\<close>), with a specification of the services as a map that it refines; the names of the
    cluster zone and the answers from the store. Indexes agree with the objects, reverse and forward answers agree.
  \<^item> \<open>K8s_External\<close> (\<open>plugins/k8s_external.rs\<close>): the names of services outside the cluster, over the store of \<open>Kubernetes\<close>; reverse
    and forward answers agree.
  \<^item> \<open>Auto\<close> (\<open>plugins/auto.rs\<close>): zones from the files of a directory; what is served after a walk, in terms of the files.
  \<^item> \<open>Dnssec\<close> (\<open>plugins/dnssec\<close>): key files, signatures over sets of records, signed answers and denials. Signatures are over the set they
    follow, as far as the 64-bit hash of the map tells sets apart, and not about to expire; a denial does not list the type that was asked for.
  \<^item> \<open>Sign\<close> (\<open>plugins/sign.rs\<close>): zones signed ahead of time. The NSEC records form one chain through all names.
  \<^item> \<open>Etcd\<close> (\<open>plugins/etcd.rs\<close>): services under the keys of an etcd store; the services of a name in terms of labels.
  \<^item> \<open>Cloud\<close>, \<open>Cloud_Json\<close> (\<open>plugins/cloud.rs\<close>, \<open>route53.rs\<close>, \<open>azure.rs\<close>, \<open>clouddns.rs\<close>): hosted zones fetched page by page at intervals and turned
    into zone texts. A zone is served from the copy that was loaded last, and between rounds the plugin is ready when each zone has one.
  \<^item> \<open>Template\<close> (\<open>plugins/template.rs\<close>): records rendered from texts with actions; a text renders part by part.
  \<^item> \<open>Directives\<close> (\<open>plugins/bind.rs\<close>, \<open>on.rs\<close>, \<open>reload.rs\<close>, \<open>tls.rs\<close>): directives that only configure. Addresses to bind to, hooks, when a
    reload is asked for.
  \<^item> \<open>Observe\<close> (\<open>plugins/errors.rs\<close>, \<open>log.rs\<close>, \<open>metadata.rs\<close>): plugins that watch the chain. They pass on what it gives; every error is
    in one summary.
  \<^item> \<open>Tsig\<close> (\<open>plugins/tsig.rs\<close>): message authentication. A query that is not genuinely signed does not get to the rest of the chain unless
    it is unsigned and its type needs no signature.
  \<^item> \<open>Endpoints\<close> (\<open>server/http_util.rs\<close>, \<open>plugins/ready.rs\<close>, \<open>plugins/health.rs\<close>): the registry of HTTP endpoints across reloads, when the
    server counts as ready.
  \<^item> This theory: the properties of servers and builds over all plugins.

  \<^bold>\<open>Bounds.\<close> The look-up in a zone follows at most 8 names, as in the source. Imports nest at most 20 deep,
  as in the source. The look-ups a server makes of itself carry a depth of at most 8, as in the source. The parser of view
  expressions recurses on a bound of one more than the number of tokens, which is shown to be enough.
  A loop over blocks or directives ends by itself when a round makes no progress; the contracts show that
  this case does not occur for the modelled setups. Loops that wait for events (health checks, reloads,
  refreshes, the main loop) are given as one step per event.

  \<^bold>\<open>Parameters.\<close> Code of other crates is an argument: the message codec and the name parser of hickory, regular
  expressions, networks of ipnet, floating point, the cache of the lru crate, random numbers, the clock,
  files, sockets, HTTP and JSON. Hypotheses on them are stated where they are used, and each has an instance in a witness.

  \<^bold>\<open>Not modelled.\<close> The zone file parser of hickory and reading DNAME lines around it; the client of the Kubernetes API; the gRPC client; the TLS, HTTPS, QUIC and gRPC
  transports around \<open>serve_bytes\<close>; metrics and traces; the HTTP server under the endpoints; database look-ups (\<open>geoip\<close>); panics of hooks and setups (those of the chain are); the accept loops themselves, a spawned listener counting as one that
  runs. Tasks that run at the same time are modelled by the order of their
  steps, with each step of the source that is one atomic operation kept as one step.
\<close>

section \<open>A server made of the plugins\<close>

text \<open>The handlers of the development, over the state of a server with a cache; key pairs are their octets, and clients and options of etcd a number and a text.\<close>

inductive plugin_handler ::
    "('c, 't) cache_env \<Rightarrow> 'net ipnet_api \<Rightarrow> ('r, ('c, 't) cached) rewrite_env \<Rightarrow> ('c, 't) cached handler \<Rightarrow> bool"
  for env api renv where
  ph_any: "plugin_handler env api renv any_serve"
| ph_minimal: "plugin_handler env api renv minimal_serve"
| ph_nsid: "plugin_handler env api renv (nsid_serve data)"
| ph_bufsize: "plugin_handler env api renv (bufsize_serve sz)"
| ph_cancel: "cut_off_keeps_id expire \<Longrightarrow> plugin_handler env api renv (cancel_serve now expire show_duration timeout)"
| ph_chaos: "plugin_handler env api renv (chaos_serve hostname version authors)"
| ph_whoami: "plugin_handler env api renv (whoami_serve prepend)"
| ph_header: "plugin_handler env api renv (header_serve h)"
| ph_acl: "plugin_handler env api renv (acl_serve api rules)"
| ph_cache: "plugin_handler env api renv (cache_serve env cc)"
| ph_rewrite: "plugin_handler env api renv (rewrite_serve renv rrules)"
| ph_forward: "plugin_handler env api renv (forward_serve fenv fw)"
| ph_hosts: "plugin_handler env api renv (hosts_serve from_ascii cur ho)"
| ph_local: "plugin_handler env api renv local_serve"
| ph_loadbalance: "plugin_handler env api renv (loadbalance_serve rng pol)"
| ph_erratic: "plugin_handler env api renv (erratic_serve eenv er)"
| ph_dns64: "plugin_handler env api renv (dns64_serve look d)"
| ph_loop: "plugin_handler env api renv (loop_serve lget lput)"
| ph_file: "plugin_handler env api renv (file_serve flenv fp)"
| ph_transfer: "plugin_handler env api renv (transfer_serve rlen tr)"
| ph_secondary: "plugin_handler env api renv (secondary_serve senv szs)"
| ph_kubernetes: "plugin_handler env api renv (kubernetes_serve kenv kb)"
| ph_k8s_external: "plugin_handler env api renv (external_serve xenv xt)"
| ph_template: "plugin_handler env api renv (template_serve (tenv :: ('r, ('c, 't) cached) template_env) ts)"
| ph_dnssec: "plugin_handler env api renv (dnssec_serve (denv :: (u8 list, ('c, 't) cached) dnssec_env) dn)"
| ph_sign: "plugin_handler env api renv sign_serve"
| ph_etcd: "plugin_handler env api renv (etcd_serve (kvenv :: (string, nat, ('c, 't) cached) etcd_env) et)"
| ph_cloud: "plugin_handler env api renv (cloud_serve clenv cl)"
| ph_errors: "plugin_handler env api renv (errors_serve (eenv2 :: ('r, ('c, 't) cached) errors_env) eg)"
| ph_log: "plugin_handler env api renv (log_serve lenv lrs)"
| ph_metadata: "plugin_handler env api renv metadata_serve"
| ph_tsig: "plugin_handler env api renv (tsig_serve (tgenv :: (u8 list, ('c, 't) cached) tsig_env) tg)"
| ph_auto: "plugin_handler env api renv (auto_serve (aenv :: ('r, ('c, 't) cached) auto_env) au)"

lemmas handler_contracts =
  any_handler.id_keeping_handler_axioms minimal_handler.id_keeping_handler_axioms
  nsid_handler.id_keeping_handler_axioms bufsize_handler.id_keeping_handler_axioms
  chaos_handler.id_keeping_handler_axioms whoami_handler.id_keeping_handler_axioms
  header_handler.id_keeping_handler_axioms acl_handler.id_keeping_handler_axioms
  cache_handler.id_keeping_handler_axioms hosts_handler.id_keeping_handler_axioms
  rewrite_handler.id_keeping_handler_axioms forward_handler.id_keeping_handler_axioms
  local_handler.id_keeping_handler_axioms loadbalance_handler.id_keeping_handler_axioms
  erratic_handler.id_keeping_handler_axioms dns64_handler.id_keeping_handler_axioms
  loop_handler.id_keeping_handler_axioms file_handler.id_keeping_handler_axioms
  transfer_handler.id_keeping_handler_axioms secondary_handler.id_keeping_handler_axioms
  kubernetes_handler.id_keeping_handler_axioms external_handler.id_keeping_handler_axioms
  template_handler.id_keeping_handler_axioms auto_handler.id_keeping_handler_axioms
  dnssec_handler.id_keeping_handler_axioms sign_handler.id_keeping_handler_axioms etcd_handler.id_keeping_handler_axioms
  cloud_handler.id_keeping_handler_axioms errors_handler.id_keeping_handler_axioms
  tsig_handler.id_keeping_handler_axioms log_handler.id_keeping_handler_axioms metadata_handler.id_keeping_handler_axioms

lemma plugin_handler_keeps_id: "plugin_handler env api renv h \<Longrightarrow> id_keeping_handler h"
  by (induction rule: plugin_handler.induct) (rule handler_contracts cancel_keeps_id, assumption?)+

text \<open>C2: A server whose chains are made of the modelled plugins other than \<open>autopath\<close>, in any order, answers every query it
  answers at all with messages that carry the query's id and the response flag, at least one of them. It is assumed that the
  collectors of metadata leave the query itself as it is, and, where \<open>cancel\<close> is used, that a chain it cuts off has not changed the
  id of the request. (\<open>autopath\<close> is left out because the replies it passes on may carry the id of a question it made up, so that
  the plugins in front of it do not see the query's id.)\<close>

theorem plugin_server_answers:
  assumes "collectors_keep_msg sv"
    and "\<forall>z es e. sv_zones sv z = Some es \<longrightarrow> e \<in> set es \<longrightarrow> (\<forall>n h. (n, h) \<in> set (ze_chain e) \<longrightarrow> plugin_handler env api renv h)"
    and "serve_request_inner sv req s = (Ran (Some v), req', s')"
  shows "v \<noteq> [] \<and> (\<forall>m \<in> set v. m_id m = m_id (rq_msg req) \<and> m_type m = MtResponse)"
proof -
  have "keeps_id (nx_serve (next_of (ze_chain e)))" if "sv_zones sv z = Some es" "e \<in> set es" for z es e
    using assms(2) that by (intro chain_keeps_id plugin_handler_keeps_id [of env api renv]) blast
  then have "chains_keep_id sv" by (simp add: chains_keep_id_def)
  with serve_request_inner_nonempty [OF assms(3)] serve_request_inner_id [OF assms(1) _ assms(3)] show ?thesis by blast
qed

definition cached_rewrite :: "(unit, (lru_list, nat) cached) rewrite_env" where
  "cached_rewrite = \<lparr>re_regex = no_regex, re_from_ascii = Inr, re_type_str = (\<lambda>_. ''A''),
     re_self_lookup = (\<lambda>_ _ _ s. (Inl ''no server'', s))\<rparr>"

theorem plugin_server_answers_witness:
  "\<exists>v req' s'. serve_request_inner (one_zone_server ''.'' [(''whoami'', whoami_serve (\<lambda>l n. Inr n))]) (query_for ''.'' RT_A)
       (cache_state_new lru_list_api (cache_config_default [''.''] SECOND SECOND), 0 :: nat) = (Ran (Some v), req', s')
     \<and> v \<noteq> [] \<and> (\<forall>m \<in> set v. m_id m = 7)"
proof -
  let ?sv = "one_zone_server ''.'' [(''whoami'', whoami_serve (\<lambda>l n. Inr n))] :: (lru_list, nat) cached server"
  let ?s = "(cache_state_new lru_list_api (cache_config_default [''.''] SECOND SECOND), 0)" and ?q = "query_for ''.'' RT_A"
  have c: "collectors_keep_msg ?sv" by (simp add: collectors_keep_msg_def one_zone_server_def server_config_new_def)
  have p: "\<forall>z es e. sv_zones ?sv z = Some es \<longrightarrow> e \<in> set es \<longrightarrow> (\<forall>n h. (n, h) \<in> set (ze_chain e) \<longrightarrow> plugin_handler plain_env world_net cached_rewrite h)"
    by (auto simp: one_zone_server_def ph_whoami split: if_splits)
  have n: "name_uncached ?q = ''.''" by code_simp
  obtain v req' s' where r: "serve_request_inner ?sv ?q ?s = (Ran (Some v), req', s')"
    by (simp add: serve_request_inner_def one_zone_server_lookup [OF n] whoami_serve_def Let_def)
  with plugin_server_answers [OF c p r] show ?thesis by auto
qed

section \<open>Building the configurations\<close>

text \<open>C3: The build orders the chains: with the registry's table, whose setups only append handlers under their own
  directive, a Corefile that builds gives one configuration per server block key, each with its handlers
  already in registry order, so that finalising it changes nothing, whatever the order of the directives in
  the Corefile.\<close>

theorem build_registry_order:
  assumes "build from_ascii api cwd order opts blocks = Inr cfgs" "map dd_name order = ORDER_NAMES"
    and "\<forall>df \<in> set order. \<forall>su. dd_setup df = Some su \<longrightarrow> setup_function su"
  shows "length cfgs = sum_list (map (\<lambda>b. length (sb_keys b)) blocks) \<and> (\<forall>c \<in> set cfgs. finalize_chain c = c)"
proof -
  obtain j where j: "configs_upto blocks j (cfgs, {})" using build_configs_upto [OF assms(1,2)] assms(3) by blast
  then show ?thesis by (auto simp: configs_upto_def plugins_upto_def list_all_iff finalize_chain_id)
qed

text \<open>The registry with the setups of the plugins that need nothing from the environment.\<close>

definition small_registry :: "unit directive_def list" where
  "small_registry = map (\<lambda>n. \<lparr>dd_name = n, dd_setup =
     (if n = ''any'' then Some any_setup else if n = ''minimal'' then Some minimal_setup
      else if n = ''bufsize'' then Some bufsize_setup else if n = ''debug'' then Some debug_setup else None)\<rparr>) ORDER_NAMES"

theorem build_registry_order_witness:
  "\<exists>cfgs. build Inr world_net None small_registry build_options_default
       [\<lparr>sb_keys = [''.''], sb_directives = [\<lparr>dir_name = ''any'', dir_tokens = [token_new ''Corefile'' 2 ''any'']\<rparr>,
          \<lparr>dir_name = ''bufsize'', dir_tokens = [token_new ''Corefile'' 3 ''bufsize'']\<rparr>], sb_line = 1\<rparr>] = Inr cfgs
     \<and> length cfgs = 1 \<and> (\<forall>c \<in> set cfgs. finalize_chain c = c)"
proof -
  let ?bs = "[\<lparr>sb_keys = [''.''], sb_directives = [\<lparr>dir_name = ''any'', dir_tokens = [token_new ''Corefile'' 2 ''any'']\<rparr>,
          \<lparr>dir_name = ''bufsize'', dir_tokens = [token_new ''Corefile'' 3 ''bufsize'']\<rparr>], sb_line = 1\<rparr>]"
  have "is_ok (build Inr world_net None small_registry build_options_default ?bs)" by code_simp
  then obtain cfgs where b: "build Inr world_net None small_registry build_options_default ?bs = Inr cfgs"
    by (auto simp: is_ok_def split: sum.splits)
  have "map dd_name small_registry = ORDER_NAMES" by (simp add: small_registry_def o_def)
  moreover have "\<forall>df \<in> set small_registry. \<forall>su. dd_setup df = Some su \<longrightarrow> setup_function su"
    by (auto simp: small_registry_def any_setup.setup_function_axioms minimal_setup.setup_function_axioms
        bufsize_setup.setup_function_axioms debug_setup.setup_function_axioms split: if_splits)
  ultimately have "length cfgs = sum_list (map (\<lambda>b. length (sb_keys b)) ?bs) \<and> (\<forall>c \<in> set cfgs. finalize_chain c = c)"
    by (rule build_registry_order [OF b])
  with b show ?thesis by (intro exI [of _ cfgs]) simp
qed

end
